(* ===== verification/AO_Prelude.thy ===== *)
theory AO_Prelude
  imports Main "HOL-Library.Word" "HOL-Library.Monad_Syntax"
begin

text \<open>
  The prelude of the libao development: bytes, C integers, C strings and the generic lemmas
  on lists, options and words that the component theories share.

  Conventions of the whole development.
  \<^item> A C function that can run into undefined behaviour (a read or write outside an object,
    a NULL dereference, signed overflow, closing a closed stream) or that may not return is
    a HOL function into an option type: \<open>None\<close> is the fault, \<open>Some\<close> is a normal return.
    Error returns of the code (0, NULL, -1, an errno) are ordinary values inside \<open>Some\<close>.
  \<^item> A C string is a \<open>string\<close> without the terminating NUL; a pointer into a string is the
    suffix it points at.  A pointer that may be NULL is an option.
  \<^item> A C \<open>int\<close> is an \<open>int\<close>; where an operation can leave the 32-bit range, it goes through
    \<open>c_int\<close>.  Unsigned arithmetic is done on \<open>32 word\<close> and \<open>16 word\<close>.
\<close>

unbundle bit_operations_syntax

type_synonym byte = "8 word"

named_theorems frame_simps
  \<comment> \<open>which parts of a device or of the world an operation leaves alone\<close>

declare Let_def [simp]

section \<open>C integers\<close>

definition INT_MAX :: int where
  "INT_MAX = 2147483647"

definition INT_MIN :: int where
  "INT_MIN = - 2147483648"

text \<open>The result of a signed operation: a fault when it does not fit an \<open>int\<close>.\<close>

definition c_int :: "int \<Rightarrow> int option" where
  "c_int x = (if INT_MIN \<le> x \<and> x \<le> INT_MAX then Some x else None)"

lemma c_int_SomeI: "INT_MIN \<le> x \<Longrightarrow> x \<le> INT_MAX \<Longrightarrow> c_int x = Some x"
  by (simp add: c_int_def)

lemma c_int_Some_iff: "c_int x = Some y \<longleftrightarrow> y = x \<and> INT_MIN \<le> x \<and> x \<le> INT_MAX"
  by (auto simp: c_int_def)

text \<open>Conversion of an unsigned 32-bit value to \<open>int\<close> (two's complement).\<close>

abbreviation int_of_u32 :: "32 word \<Rightarrow> int" where
  "int_of_u32 x \<equiv> sint x"

text \<open>The four base-256 digits of a 32-bit value.\<close>

lemma digits256:
  fixes x :: int
  assumes "0 \<le> x" and "x < 4294967296"
  shows "x mod 256 + 256 * (x div 256 mod 256) + 65536 * (x div 65536 mod 256)
    + 16777216 * (x div 16777216 mod 256) = x"
proof -
  have digits: "x = 256 * q + r \<Longrightarrow> q = 256 * q' + r' \<Longrightarrow> q' = 256 * q'' + r'' \<Longrightarrow>
      r + 256 * r' + 65536 * r'' + 16777216 * q'' = x" for q r q' r' q'' r'' :: int
    by simp
  have step: "y = 256 * (y div 256) + y mod 256" for y :: int
    by (rule mult_div_mod_eq [symmetric])
  have "x div 65536 = x div 256 div 256" "x div 16777216 = x div 256 div 256 div 256"
    by (simp_all add: zdiv_zmult2_eq [symmetric])
  moreover have "x div 16777216 mod 256 = x div 16777216" using assms by simp
  ultimately show ?thesis using digits [OF step step step] by metis
qed

text \<open>Masking with \<open>0xff\<close> before the cast to a byte changes nothing.\<close>

lemma and_ff: "y AND 0xff = take_bit 8 (y :: 'a::len word)"
proof -
  have "(0xff :: 'a word) = mask 8" by (simp add: mask_eq_exp_minus_1)
  then show ?thesis by (simp add: take_bit_eq_mask)
qed

lemma byte_and_ff [simp]: "(ucast (y AND 0xff :: 'a::len word) :: byte) = ucast y"
  unfolding and_ff by (rule bit_word_eqI) (auto simp: bit_simps dest: bit_imp_le_length)
section \<open>Lists as C arrays\<close>

text \<open>
  \<open>load n xs i\<close> reads the \<open>n\<close> elements from index \<open>i\<close> on, \<open>store xs i ys\<close> overwrites the
  elements from index \<open>i\<close> on with \<open>ys\<close>; both fault when an index is outside the array.
\<close>

definition load :: "nat \<Rightarrow> 'a list \<Rightarrow> int \<Rightarrow> 'a list option" where
  "load n xs i =
     (if 0 \<le> i \<and> i + int n \<le> int (length xs) then Some (take n (drop (nat i) xs)) else None)"

definition store :: "'a list \<Rightarrow> int \<Rightarrow> 'a list \<Rightarrow> 'a list option" where
  "store xs i ys =
     (if 0 \<le> i \<and> i + int (length ys) \<le> int (length xs)
      then Some (take (nat i) xs @ ys @ drop (nat i + length ys) xs) else None)"

lemma length_load: "load n xs i = Some ys \<Longrightarrow> length ys = n"
  by (auto simp: load_def split: if_splits)

lemma length_store: "store xs i ys = Some zs \<Longrightarrow> length zs = length xs"
  by (auto simp: store_def split: if_splits)

lemma load_nat:
  "i + n \<le> length xs \<Longrightarrow> load n xs (int i) = Some (take n (drop i xs))"
  by (simp add: load_def)

lemma store_nat:
  "i + length ys \<le> length xs \<Longrightarrow>
   store xs (int i) ys = Some (take i xs @ ys @ drop (i + length ys) xs)"
  by (simp add: store_def)

lemma nth_overwrite:
  assumes "i + length ys \<le> length xs" and "p < length xs"
  shows "(take i xs @ ys @ drop (i + length ys) xs) ! p =
         (if i \<le> p \<and> p < i + length ys then ys ! (p - i) else xs ! p)"
  using assms by (auto simp: nth_append min_def not_le)

text \<open>
  The C idiom \<open>while (xs[m]) { if (P) break; m++; }\<close> over a NULL-terminated table: the index
  of the first hit, or the length of the table.
\<close>

fun search :: "('a \<Rightarrow> bool) \<Rightarrow> 'a list \<Rightarrow> nat" where
  "search P [] = 0"
| "search P (x # xs) = (if P x then 0 else Suc (search P xs))"

lemma search_le: "search P xs \<le> length xs"
  by (induction xs) auto

lemma search_eq_length_iff: "search P xs = length xs \<longleftrightarrow> (\<forall>x \<in> set xs. \<not> P x)"
  by (induction xs) auto

lemma search_hit: "search P xs < length xs \<Longrightarrow> P (xs ! search P xs)"
  by (induction xs) (auto split: if_splits)

lemma search_before: "i < search P xs \<Longrightarrow> \<not> P (xs ! i)"
  by (induction xs arbitrary: i) (auto simp: nth_Cons' split: if_splits)

lemma search_cong: "(\<And>x. x \<in> set xs \<Longrightarrow> P x = Q x) \<Longrightarrow> search P xs = search Q xs"
  by (induction xs) auto

lemma search_lt_iff: "search P xs < length xs \<longleftrightarrow> (\<exists>x \<in> set xs. P x)"
  using search_eq_length_iff [of P xs] search_le [of P xs] by auto

lemma search_eq_nth: "x \<in> set xs \<Longrightarrow> xs ! search (\<lambda>y. y = x) xs = x"
  using search_hit [of "\<lambda>y. y = x" xs] by (auto simp: search_lt_iff)

section \<open>C strings\<close>

text \<open>\<open>isspace\<close> of the C locale.\<close>

definition isspace :: "char \<Rightarrow> bool" where
  "isspace c \<longleftrightarrow> c \<in> set [CHR 0x20, CHR 0x09, CHR 0x0A, CHR 0x0B, CHR 0x0C, CHR 0x0D]"

lemma comma_not_space [simp]: "\<not> isspace (CHR '','')"
  by (simp add: isspace_def)

text \<open>\<open>strncmp(a, b, n) == 0\<close> for NUL-free strings: both agree up to \<open>n\<close> characters or the end.\<close>

definition strncmp_eq :: "string \<Rightarrow> string \<Rightarrow> nat \<Rightarrow> bool" where
  "strncmp_eq a b n \<longleftrightarrow> take n a = take n b"

text \<open>\<open>while (*p && isspace(*p)) p++;\<close>\<close>

definition skip_space :: "string \<Rightarrow> string" where
  "skip_space p = dropWhile isspace p"

text \<open>\<open>while (t > p && isspace( *(t-1))) t--;\<close> on the characters between \<open>p\<close> and \<open>t\<close>.\<close>

definition drop_trailing :: "string \<Rightarrow> string" where
  "drop_trailing s = rev (dropWhile isspace (rev s))"

text \<open>\<open>h = p; while (*h && *h != ',') h++;\<close>: the characters passed, and the suffix at \<open>h\<close>.\<close>

definition to_comma :: "string \<Rightarrow> string" where
  "to_comma p = takeWhile (\<lambda>c. c \<noteq> CHR '','') p"

definition at_comma :: "string \<Rightarrow> string" where
  "at_comma p = dropWhile (\<lambda>c. c \<noteq> CHR '','') p"

lemma to_comma_at_comma [simp]: "to_comma p @ at_comma p = p"
  by (simp add: to_comma_def at_comma_def)

lemma to_comma_no_comma: "CHR '','' \<notin> set (to_comma p)"
  by (auto simp: to_comma_def dest: set_takeWhileD)

lemma at_comma_Cons: "at_comma p \<noteq> [] \<Longrightarrow> at_comma p = CHR '','' # tl (at_comma p)"
  by (induction p) (auto simp: at_comma_def)

lemma at_comma_append:
  "CHR '','' \<notin> set t \<Longrightarrow> at_comma (t @ CHR '','' # r) = CHR '','' # r"
  by (induction t) (auto simp: at_comma_def)

lemma to_comma_append:
  "CHR '','' \<notin> set t \<Longrightarrow> to_comma (t @ CHR '','' # r) = t"
  by (induction t) (auto simp: to_comma_def)

lemma at_comma_none: "CHR '','' \<notin> set t \<Longrightarrow> at_comma t = []"
  by (induction t) (auto simp: at_comma_def)

lemma to_comma_none: "CHR '','' \<notin> set t \<Longrightarrow> to_comma t = t"
  by (induction t) (auto simp: to_comma_def)

lemma length_at_comma_le: "length (at_comma p) \<le> length p"
  unfolding at_comma_def by (rule length_dropWhile_le)

lemma length_tl_at_comma: "at_comma p \<noteq> [] \<Longrightarrow> length (tl (at_comma p)) < length p"
  using length_at_comma_le [of p] by (cases "at_comma p") auto

lemma length_skip_space_le: "length (skip_space p) \<le> length p"
  unfolding skip_space_def by (rule length_dropWhile_le)

text \<open>The step past a separator makes the rest of the string shorter.\<close>

lemma comma_measure:
  "at_comma p \<noteq> [] \<Longrightarrow> length (at_comma p) - Suc 0 < length p"
  "at_comma (skip_space p) \<noteq> [] \<Longrightarrow> length (at_comma (skip_space p)) - Suc 0 < length p"
  using length_tl_at_comma [of p] length_tl_at_comma [of "skip_space p"] length_skip_space_le [of p]
  by auto

lemma length_drop_trailing_le: "length (drop_trailing s) \<le> length s"
  unfolding drop_trailing_def by (metis length_dropWhile_le length_rev)

lemma drop_trailing_prefix: "\<exists>r. s = drop_trailing s @ r"
proof -
  have "rev s = takeWhile isspace (rev s) @ dropWhile isspace (rev s)" by simp
  then have "s = rev (dropWhile isspace (rev s)) @ rev (takeWhile isspace (rev s))"
    by (metis rev_append rev_rev_ident)
  then show ?thesis unfolding drop_trailing_def by blast
qed

lemma take_drop_trailing:
  "take (length (drop_trailing (to_comma p))) p = drop_trailing (to_comma p)"
proof -
  obtain r where "to_comma p = drop_trailing (to_comma p) @ r"
    using drop_trailing_prefix by blast
  then have "p = drop_trailing (to_comma p) @ r @ at_comma p"
    by (metis append_assoc to_comma_at_comma)
  then show ?thesis by (metis append_eq_conv_conj)
qed

lemma take_to_comma: "take (length (to_comma p)) p = to_comma p"
  by (metis append_eq_conv_conj to_comma_at_comma)

text \<open>A table entry that \<open>strncmp\<close> and \<open>strlen\<close> accept for a token is the token.\<close>

lemma strncmp_token_eq:
  assumes "take n p = tok" and "length tok = n"
  shows "strncmp_eq mn p n \<and> length mn = n \<longleftrightarrow> mn = tok"
  using assms by (auto simp: strncmp_eq_def)

end
