(* ===== verification/AO_Types.thy ===== *)
theory AO_Types
  imports AO_Prelude
begin

text \<open>
  The data model of libao: the public structures of \<^verbatim>\<open>include/ao/ao.h\<close>, the private ones of
  \<^verbatim>\<open>include/ao/ao_private.h\<close>, and the world the C code acts on (heap, errno, files).

  \<^item> \<open>ao_info\<close>, \<open>ao_sample_format\<close>, \<open>ao_option\<close>, \<open>ao_device\<close> and \<open>ao_functions\<close> are the C
    structures of the same names.  A record of function pointers is a record of functions.
  \<^item> \<open>device->internal\<close>, a \<open>void *\<close>, is an option over the type parameter \<open>'p\<close>: each driver
    instantiates it with its own structure.  \<open>device->funcs\<close> is the one field that is not in
    the device record (a record cannot contain functions over itself): an open device is the
    pair of its function table and its record, see \<open>AO_Device\<close>.
  \<^item> A list linked by \<open>next\<close> pointers (options, drivers) is a HOL list.
\<close>

section \<open>Constants\<close>

definition AO_TYPE_LIVE :: int where "AO_TYPE_LIVE = 1"
definition AO_TYPE_FILE :: int where "AO_TYPE_FILE = 2"

definition AO_ENODRIVER :: int where "AO_ENODRIVER = 1"
definition AO_ENOTFILE :: int where "AO_ENOTFILE = 2"
definition AO_ENOTLIVE :: int where "AO_ENOTLIVE = 3"
definition AO_EBADOPTION :: int where "AO_EBADOPTION = 4"
definition AO_EOPENDEVICE :: int where "AO_EOPENDEVICE = 5"
definition AO_EOPENFILE :: int where "AO_EOPENFILE = 6"
definition AO_EFILEEXISTS :: int where "AO_EFILEEXISTS = 7"
definition AO_EBADFORMAT :: int where "AO_EBADFORMAT = 8"
definition AO_EFAIL :: int where "AO_EFAIL = 100"

definition AO_FMT_LITTLE :: int where "AO_FMT_LITTLE = 1"
definition AO_FMT_BIG :: int where "AO_FMT_BIG = 2"
definition AO_FMT_NATIVE :: int where "AO_FMT_NATIVE = 4"

lemmas ao_types = AO_TYPE_LIVE_def AO_TYPE_FILE_def
lemmas ao_errnos = AO_ENODRIVER_def AO_ENOTFILE_def AO_ENOTLIVE_def AO_EBADOPTION_def
  AO_EOPENDEVICE_def AO_EOPENFILE_def AO_EFILEEXISTS_def AO_EBADFORMAT_def AO_EFAIL_def
lemmas ao_fmts = AO_FMT_LITTLE_def AO_FMT_BIG_def AO_FMT_NATIVE_def

section \<open>The world: heap, errno, files\<close>

text \<open>
  A stdio stream: the bytes of the file behind it, the file position, whether the stream is
  still open, whether it can seek (a pipe cannot), and how many bytes the file can hold
  (\<open>None\<close>: no limit), which is what makes a write short.
\<close>

record stream =
  s_data :: "byte list"
  s_pos :: nat
  s_open :: bool
  s_seekable :: bool
  s_limit :: "nat option"

text \<open>
  The world.  \<open>w_allocs\<close> lists the outcomes of the coming heap allocations in order, so that
  every allocation failure is a run of the model; when the list is used up, allocations
  succeed.  \<open>w_live\<close> counts the heap blocks that are allocated and not yet freed.  \<open>w_junk\<close> is the byte that uninitialised heap memory happens to hold.  \<open>w_disk\<close> is
  the text of the files that can be opened for reading, \<open>w_creat\<close> says which names can be
  opened for writing, and with which limit.  A \<open>FILE *\<close> is an index into \<open>w_streams\<close>; index 0
  is \<open>stdout\<close>.
\<close>

record world =
  w_allocs :: "bool list"
  w_live :: int
  w_junk :: byte
  w_errno :: int
  w_big_endian :: bool
  w_disk :: "string \<Rightarrow> string option"
  w_creat :: "string \<Rightarrow> nat option option"
  w_streams :: "stream list"

text \<open>
  One heap allocation (\<open>malloc\<close>, \<open>calloc\<close>): does it succeed?  A block that is got is counted,
  one that is freed is uncounted; \<open>free(NULL)\<close> does nothing.
\<close>

definition malloc_ok :: "'z world_scheme \<Rightarrow> bool \<times> 'z world_scheme" where
  "malloc_ok w = (case w_allocs w of
      [] \<Rightarrow> (True, w\<lparr>w_live := w_live w + 1\<rparr>)
    | b # bs \<Rightarrow> (b, w\<lparr>w_allocs := bs, w_live := w_live w + of_bool b\<rparr>))"

definition free_block :: "'z world_scheme \<Rightarrow> 'z world_scheme" where
  "free_block w = w\<lparr>w_live := w_live w - 1\<rparr>"

definition free_opt :: "'a option \<Rightarrow> 'z world_scheme \<Rightarrow> 'z world_scheme" where
  "free_opt x w = (case x of None \<Rightarrow> w | Some _ \<Rightarrow> free_block w)"

definition strdup :: "string \<Rightarrow> 'z world_scheme \<Rightarrow> string option \<times> 'z world_scheme" where
  "strdup s w = (case malloc_ok w of (ok, w) \<Rightarrow> (if ok then Some s else None, w))"

definition set_errno :: "int \<Rightarrow> 'z world_scheme \<Rightarrow> 'z world_scheme" where
  "set_errno e w = w\<lparr>w_errno := e\<rparr>"

lemma set_errno_sel [simp]:
  "w_live (set_errno e w) = w_live w" "w_allocs (set_errno e w) = w_allocs w"
  "w_errno (set_errno e w) = e" "w_streams (set_errno e w) = w_streams w"
  "w_big_endian (set_errno e w) = w_big_endian w"
  by (simp_all add: set_errno_def)

text \<open>
  \<open>heap_step n w w'\<close>: between \<open>w\<close> and \<open>w'\<close> only the heap was used, and \<open>n\<close> more blocks are
  live (fewer, when \<open>n\<close> is negative).  \<open>off_heap\<close> is the world with the heap left out.
\<close>

definition off_heap :: "'z world_scheme \<Rightarrow> 'z world_scheme" where
  "off_heap w = w\<lparr>w_allocs := [], w_live := 0\<rparr>"

definition heap_step :: "int \<Rightarrow> 'z world_scheme \<Rightarrow> 'z world_scheme \<Rightarrow> bool" where
  "heap_step n w w' \<longleftrightarrow>
     w_live w' = w_live w + n \<and> (w_allocs w = [] \<longrightarrow> w_allocs w' = []) \<and>
     off_heap w' = off_heap w"

lemma heap_step_refl [simp, intro]: "heap_step 0 w w"
  by (simp add: heap_step_def)

lemma heap_step_trans:
  "heap_step m u v \<Longrightarrow> heap_step n v w \<Longrightarrow> heap_step (m + n) u w"
  by (simp add: heap_step_def)

lemma heap_step_plenty: "heap_step n w w' \<Longrightarrow> w_allocs w = [] \<Longrightarrow> w_allocs w' = []"
  by (simp add: heap_step_def)

lemma off_heapD:
  assumes "off_heap w' = off_heap w"
  shows "w_junk w' = w_junk w" "w_errno w' = w_errno w" "w_big_endian w' = w_big_endian w"
    "w_disk w' = w_disk w" "w_creat w' = w_creat w" "w_streams w' = w_streams w"
    "world.more w' = world.more w"
  using arg_cong [OF assms, of w_junk] arg_cong [OF assms, of w_errno]
    arg_cong [OF assms, of w_big_endian] arg_cong [OF assms, of w_disk]
    arg_cong [OF assms, of w_creat] arg_cong [OF assms, of w_streams]
    arg_cong [OF assms, of world.more]
  by (simp_all add: off_heap_def)

lemma heap_stepD:
  assumes "heap_step n w w'"
  shows "w_junk w' = w_junk w" "w_errno w' = w_errno w" "w_big_endian w' = w_big_endian w"
    "w_disk w' = w_disk w" "w_creat w' = w_creat w" "w_streams w' = w_streams w"
    "w_live w' = w_live w + n"
  using assms off_heapD [of w' w] by (simp_all add: heap_step_def)

text \<open>The number of blocks behind a pointer that may be NULL.\<close>

definition blocks :: "'a option \<Rightarrow> int" where
  "blocks x = of_bool (x \<noteq> None)"

lemma blocks_simps [simp]: "blocks None = 0" "blocks (Some x) = 1"
  by (simp_all add: blocks_def)

lemma blocks_nonneg [simp]: "0 \<le> blocks x"
  by (simp add: blocks_def)

lemma malloc_ok_heap: "malloc_ok w = (b, w') \<Longrightarrow> heap_step (of_bool b) w w'"
  by (auto simp: malloc_ok_def heap_step_def off_heap_def split: list.splits)

lemma free_block_heap: "heap_step (- 1) w (free_block w)"
  by (simp add: heap_step_def free_block_def off_heap_def)

lemma free_opt_heap: "heap_step (- blocks x) w (free_opt x w)"
  by (cases x) (auto simp: free_opt_def free_block_heap)

lemma strdup_heap: "strdup s w = (r, w') \<Longrightarrow> heap_step (blocks r) w w' \<and> (r = Some s \<or> r = None)"
  by (auto simp: strdup_def dest: malloc_ok_heap split: prod.splits if_splits)

text \<open>When no allocation failure is due, every allocation succeeds.\<close>

lemma malloc_ok_plenty [simp]:
  "w_allocs w = [] \<Longrightarrow> malloc_ok w = (True, w\<lparr>w_live := w_live w + 1\<rparr>)"
  by (simp add: malloc_ok_def)

lemma strdup_plenty [simp]:
  "w_allocs w = [] \<Longrightarrow> strdup s w = (Some s, w\<lparr>w_live := w_live w + 1\<rparr>)"
  by (simp add: strdup_def)

lemma free_block_allocs [simp]: "w_allocs (free_block w) = w_allocs w"
  by (simp add: free_block_def)

lemma free_opt_allocs [simp]: "w_allocs (free_opt x w) = w_allocs w"
  by (cases x) (simp_all add: free_opt_def)

lemma free_live [simp]:
  "w_live (free_block w) = w_live w - 1" "w_live (free_opt x w) = w_live w - blocks x"
  by (cases x; simp add: free_block_def free_opt_def)+

section \<open>Structures of the API\<close>

record ao_info =
  info_type :: int
  info_name :: string
  short_name :: string
  author :: string
  info_comment :: string
  preferred_byte_format :: int
  priority :: int
  info_options :: "string list"
  option_count :: int

record ao_sample_format =
  fmt_bits :: int
  fmt_rate :: int
  fmt_channels :: int
  fmt_byte_format :: int
  fmt_matrix :: "string option"

record ao_option =
  opt_key :: "string option"
  opt_value :: "string option"

datatype ao_outorder =
    AO_OUTPUT_MATRIX_UNDEFINED
  | AO_OUTPUT_MATRIX_FIXED
  | AO_OUTPUT_MATRIX_COLLAPSIBLE
  | AO_OUTPUT_MATRIX_PERMUTABLE

record 'p ao_device =
  dev_type :: int
  driver_id :: int
  dev_file :: "nat option"
  client_byte_format :: int
  machine_byte_format :: int
  driver_byte_format :: int
  swap_buffer :: "byte list option"
  swap_buffer_size :: int
  input_channels :: int
  output_channels :: int
  bytewidth :: int
  dev_rate :: int
  output_matrix_order :: ao_outorder
  output_matrix :: "string option"
  output_mask :: "32 word"
  input_map :: "int list option"
  inter_matrix :: "string option"
  inter_permute :: "int list option"
  internal :: "'p option"
  verbose :: int

text \<open>
  The function table of a driver (\<^verbatim>\<open>struct ao_functions\<close>), over the driver's own \<open>'p\<close> and the
  world \<open>'w\<close>.  An \<open>int\<close> result that the code reads as a truth value is a \<open>bool\<close>.  The driver's
  \<open>open\<close> gets a pointer to the sample format and may change it, so it returns it.
  \<open>driver_info\<close> and \<open>file_extension\<close> return pointers to constants; a driver with no
  \<open>file_extension\<close> entry has \<open>None\<close>.
\<close>

record ('p, 'w) ao_functions =
  fn_test :: "'w \<Rightarrow> (bool \<times> 'w) option"
  fn_driver_info :: ao_info
  fn_device_init :: "'p ao_device \<Rightarrow> 'w \<Rightarrow> (bool \<times> 'p ao_device \<times> 'w) option"
  fn_set_option ::
    "'p ao_device \<Rightarrow> string \<Rightarrow> string option \<Rightarrow> 'w \<Rightarrow> (bool \<times> 'p ao_device \<times> 'w) option"
  fn_open ::
    "'p ao_device \<Rightarrow> ao_sample_format \<Rightarrow> 'w
      \<Rightarrow> (bool \<times> 'p ao_device \<times> ao_sample_format \<times> 'w) option"
  fn_play :: "'p ao_device \<Rightarrow> byte list \<Rightarrow> 32 word \<Rightarrow> 'w \<Rightarrow> (bool \<times> 'p ao_device \<times> 'w) option"
  fn_close :: "'p ao_device \<Rightarrow> 'w \<Rightarrow> (bool \<times> 'p ao_device \<times> 'w) option"
  fn_device_clear :: "'p ao_device \<Rightarrow> 'w \<Rightarrow> ('p ao_device \<times> 'w) option"
  fn_file_extension :: "string option"

section \<open>Byte order of the machine\<close>

text \<open>The memory image of a 16-bit and of a 32-bit integer, lowest address first.\<close>

definition mem16 :: "bool \<Rightarrow> 16 word \<Rightarrow> byte list" where
  "mem16 big x =
     (let bs = [ucast x, ucast (drop_bit 8 x)] in if big then rev bs else bs)"

definition mem32 :: "bool \<Rightarrow> 32 word \<Rightarrow> byte list" where
  "mem32 big x =
     (let bs = [ucast x, ucast (drop_bit 8 x), ucast (drop_bit 16 x), ucast (drop_bit 24 x)]
      in if big then rev bs else bs)"

definition ao_is_big_endian :: "'z world_scheme \<Rightarrow> bool" where
  "ao_is_big_endian w \<longleftrightarrow> hd (mem16 (w_big_endian w) 0xbabe) = 0xba"

lemma ao_is_big_endian_correct: "ao_is_big_endian w = w_big_endian w"
  by (simp add: ao_is_big_endian_def mem16_def Let_def)

definition real_byte_format :: "int \<Rightarrow> 'z world_scheme \<Rightarrow> int" where
  "real_byte_format f w =
     (if f = AO_FMT_NATIVE
      then if ao_is_big_endian w then AO_FMT_BIG else AO_FMT_LITTLE
      else f)"

end
