(* ===== verification/AO_Options.thy ===== *)
theory AO_Options
  imports AO_Types
begin

text \<open>
  Options: the linked lists of key/value pairs of \<^verbatim>\<open>src/audio_out.c\<close> (\<open>ao_append_option\<close>,
  \<open>ao_free_options\<close>, \<open>ao_append_global_option\<close>) and the reading of the global messaging
  options by \<open>ao_global_load_options\<close>.  The list head \<open>ao_option **\<close> is passed and returned.
\<close>

section \<open>Operations\<close>

text \<open>
  The result of \<open>strdup\<close> is not checked in the code: under memory pressure an option can hold a
  NULL key or value.
\<close>

definition ao_append_option ::
  "ao_option list \<Rightarrow> string \<Rightarrow> string option \<Rightarrow> 'z world_scheme
    \<Rightarrow> bool \<times> ao_option list \<times> 'z world_scheme" where
  "ao_append_option opts k v w = (case malloc_ok w of (ok, w) \<Rightarrow>
     if \<not> ok then (False, opts, w)
     else (case strdup k w of (k', w) \<Rightarrow>
           case strdup (case v of Some s \<Rightarrow> s | None \<Rightarrow> '''') w of (v', w) \<Rightarrow>
             (True, opts @ [\<lparr>opt_key = k', opt_value = v'\<rparr>], w)))"

fun ao_free_options :: "ao_option list \<Rightarrow> 'z world_scheme \<Rightarrow> 'z world_scheme" where
  "ao_free_options [] w = w"
| "ao_free_options (op # rest) w =
     ao_free_options rest (free_block (free_opt (opt_value op) (free_opt (opt_key op) w)))"

text \<open>
  \<open>ao_global_load_options\<close>: what the options make of \<open>ao_global_dummy->verbose\<close>.  Comparing a
  NULL key is a fault.
\<close>

fun ao_global_load_options :: "int \<Rightarrow> ao_option list \<Rightarrow> int option" where
  "ao_global_load_options verb [] = Some verb"
| "ao_global_load_options verb (op # ops) =
     (case opt_key op of
        None \<Rightarrow> None
      | Some k \<Rightarrow>
          ao_global_load_options
            (if k = ''debug'' then 2
             else if k = ''verbose'' then (if verb < 1 then 1 else verb)
             else if k = ''quiet'' then -1
             else verb) ops)"

section \<open>Laws\<close>

text \<open>The heap blocks of an option list.\<close>

definition option_blocks :: "ao_option list \<Rightarrow> int" where
  "option_blocks ops = (\<Sum>op\<leftarrow>ops. 1 + blocks (opt_key op) + blocks (opt_value op))"

lemma option_blocks_simps [simp]:
  "option_blocks [] = 0"
  "option_blocks (op # ops) = 1 + blocks (opt_key op) + blocks (opt_value op) + option_blocks ops"
  "option_blocks (xs @ ys) = option_blocks xs + option_blocks ys"
  by (simp_all add: option_blocks_def)

text \<open>An option list in which every key and value is there.\<close>

definition complete_options :: "ao_option list \<Rightarrow> bool" where
  "complete_options ops \<longleftrightarrow> (\<forall>op \<in> set ops. opt_key op \<noteq> None \<and> opt_value op \<noteq> None)"

lemma complete_options_simps [simp]:
  "complete_options []"
  "complete_options (op # ops) \<longleftrightarrow> opt_key op \<noteq> None \<and> opt_value op \<noteq> None \<and> complete_options ops"
  "complete_options (xs @ ys) \<longleftrightarrow> complete_options xs \<and> complete_options ys"
  by (auto simp: complete_options_def)

lemma ao_append_option_plenty:
  "w_allocs w = [] \<Longrightarrow>
   ao_append_option opts k v w =
     (True, opts @ [\<lparr>opt_key = Some k, opt_value = Some (case v of Some s \<Rightarrow> s | None \<Rightarrow> '''')\<rparr>],
      w\<lparr>w_live := w_live w + 3\<rparr>)"
  by (simp add: ao_append_option_def split: option.splits)

text \<open>What is appended is counted exactly; a failed append changes nothing.\<close>

lemma ao_append_option_step:
  assumes "ao_append_option opts k v w = (r, opts', w')"
  shows "heap_step (option_blocks opts' - option_blocks opts) w w' \<and>
         (if r then \<exists>op. opts' = opts @ [op] else opts' = opts)"
  using assms
  by (auto simp: ao_append_option_def heap_step_def
      split: prod.splits if_splits option.splits dest!: malloc_ok_heap strdup_heap)

lemma ao_free_options_step: "heap_step (- option_blocks ops) w (ao_free_options ops w)"
proof (induction ops arbitrary: w)
  case Nil
  then show ?case by simp
next
  case (Cons op ops)
  then show ?case
    using free_opt_heap [of "opt_key op" w] free_opt_heap [of "opt_value op" "free_opt (opt_key op) w"]
      free_block_heap [of "free_opt (opt_value op) (free_opt (opt_key op) w)"]
    by (simp add: heap_step_def)
qed

lemma ao_global_load_options_total:
  "complete_options ops \<Longrightarrow> ao_global_load_options verb ops \<noteq> None"
  by (induction ops arbitrary: verb) auto

lemma ao_global_load_options_append:
  "ao_global_load_options verb (xs @ ys) =
   Option.bind (ao_global_load_options verb xs) (\<lambda>v. ao_global_load_options v ys)"
  by (induction xs arbitrary: verb) (auto split: option.splits)

end
