(* ===== verification/AO_Stdio.thy ===== *)
theory AO_Stdio
  imports AO_Types
begin

text \<open>
  The part of C's stdio the library uses, on the streams of the world: \<open>fopen\<close> for reading
  (only ever used to test for a file or to read a configuration text) and for writing,
  \<open>fwrite\<close>, \<open>ftell\<close>, \<open>fseek\<close> to an absolute position, \<open>fclose\<close>.  Using a stream that is not
  open, closing it twice included, is undefined behaviour and so a fault.  Buffering is not
  modelled: a write that succeeds has reached the file.
\<close>

definition get_stream :: "nat \<Rightarrow> 'z world_scheme \<Rightarrow> stream option" where
  "get_stream f w =
     (if f < length (w_streams w) \<and> s_open (w_streams w ! f) then Some (w_streams w ! f) else None)"

definition put_stream :: "nat \<Rightarrow> stream \<Rightarrow> 'z world_scheme \<Rightarrow> 'z world_scheme" where
  "put_stream f s w = w\<lparr>w_streams := (w_streams w)[f := s]\<rparr>"

text \<open>\<open>fopen(name, "r")\<close>: the text of the file, if it can be read.\<close>

definition fopen_r :: "string \<Rightarrow> 'z world_scheme \<Rightarrow> string option" where
  "fopen_r name w = w_disk w name"

text \<open>\<open>fopen(name, "w")\<close>: creates or truncates the file.\<close>

definition fopen_w :: "string \<Rightarrow> 'z world_scheme \<Rightarrow> nat option \<times> 'z world_scheme" where
  "fopen_w name w = (case w_creat w name of
      None \<Rightarrow> (None, w)
    | Some lim \<Rightarrow>
        (Some (length (w_streams w)),
         w\<lparr>w_disk := (w_disk w)(name \<mapsto> []),
           w_streams := w_streams w @
             [\<lparr>s_data = [], s_pos = 0, s_open = True, s_seekable = True, s_limit = lim\<rparr>]\<rparr>))"

text \<open>
  Writing \<open>bs\<close> at the stream's position.  What lies beyond the limit of the file is not
  written; a gap left by an earlier \<open>fseek\<close> past the end reads as zeros.
\<close>

definition stream_put :: "byte list \<Rightarrow> stream \<Rightarrow> nat \<times> stream" where
  "stream_put bs s =
     (let n = (case s_limit s of None \<Rightarrow> length bs | Some l \<Rightarrow> min (length bs) (l - s_pos s));
          old = s_data s @ replicate (s_pos s - length (s_data s)) 0
      in (n, s\<lparr>s_data := take (s_pos s) old @ take n bs @ drop (s_pos s + n) old,
               s_pos := s_pos s + n\<rparr>))"

text \<open>\<open>fwrite(buf, 1, n, f)\<close>: the number of bytes written.\<close>

definition fwrite ::
  "byte list \<Rightarrow> nat \<Rightarrow> nat \<Rightarrow> 'z world_scheme \<Rightarrow> (nat \<times> 'z world_scheme) option" where
  "fwrite buf n f w = do {
     bs \<leftarrow> load n buf 0;
     s \<leftarrow> get_stream f w;
     let (k, s') = stream_put bs s;
     Some (k, put_stream f s' w) }"

definition ftell :: "nat \<Rightarrow> 'z world_scheme \<Rightarrow> int option" where
  "ftell f w = do {
     s \<leftarrow> get_stream f w;
     Some (if s_seekable s then int (s_pos s) else -1) }"

text \<open>\<open>fseek(f, pos, SEEK_SET)\<close>: 0 or -1.\<close>

definition fseek_set :: "nat \<Rightarrow> nat \<Rightarrow> 'z world_scheme \<Rightarrow> (int \<times> 'z world_scheme) option" where
  "fseek_set f pos w = do {
     s \<leftarrow> get_stream f w;
     Some (if s_seekable s then (0, put_stream f (s\<lparr>s_pos := pos\<rparr>) w) else (-1, w)) }"

definition fclose :: "nat \<Rightarrow> 'z world_scheme \<Rightarrow> 'z world_scheme option" where
  "fclose f w = do {
     s \<leftarrow> get_stream f w;
     Some (put_stream f (s\<lparr>s_open := False\<rparr>) w) }"

section \<open>Laws\<close>

definition same_but_streams :: "'z world_scheme \<Rightarrow> 'z world_scheme \<Rightarrow> bool" where
  "same_but_streams w w' \<longleftrightarrow> (\<exists>ss. length ss = length (w_streams w) \<and> w' = w\<lparr>w_streams := ss\<rparr>)"

lemma same_but_streams_refl [simp, intro]: "same_but_streams w w"
  unfolding same_but_streams_def by (rule exI [of _ "w_streams w"]) simp

lemma same_but_streams_sel:
  assumes "same_but_streams w w'"
  shows "w_live w' = w_live w" "w_allocs w' = w_allocs w" "w_errno w' = w_errno w"
    "w_big_endian w' = w_big_endian w" "w_disk w' = w_disk w"
    "length (w_streams w') = length (w_streams w)"
  using assms by (auto simp: same_but_streams_def)

lemma same_but_streams_live:
  "same_but_streams w w' \<Longrightarrow> w_live w' = w_live w \<and> w_allocs w' = w_allocs w"
  by (auto simp: same_but_streams_def)

lemma put_stream_same [intro]: "same_but_streams w (put_stream f s w)"
  unfolding same_but_streams_def put_stream_def
  by (rule exI [of _ "(w_streams w)[f := s]"]) simp

lemma get_stream_lt: "get_stream f w = Some s \<Longrightarrow> f < length (w_streams w) \<and> s_open s"
  by (auto simp: get_stream_def split: if_splits)

lemma heap_step_stream: "heap_step n w v \<Longrightarrow> get_stream f v = get_stream f w"
  by (simp add: get_stream_def heap_stepD(6))

text \<open>\<open>calm\<close>: no file was touched and, with memory enough before, there is enough after.\<close>

definition calm :: "'z world_scheme \<Rightarrow> 'z world_scheme \<Rightarrow> bool" where
  "calm w w' \<longleftrightarrow> w_streams w' = w_streams w \<and> w_big_endian w' = w_big_endian w \<and>
     (w_allocs w = [] \<longrightarrow> w_allocs w' = [])"

lemma calm_refl [simp, intro]: "calm w w"
  by (simp add: calm_def)

lemma calm_trans: "calm u v \<Longrightarrow> calm v w \<Longrightarrow> calm u w"
  by (simp add: calm_def)

lemma calm_heap: "heap_step n w w' \<Longrightarrow> calm w w'"
  by (simp add: calm_def heap_stepD heap_step_plenty)

lemma calm_errno [simp]: "calm w (set_errno e w') \<longleftrightarrow> calm w w'"
  by (simp add: calm_def)

lemma calm_free [simp]: "calm w (free_opt x w)" "calm w (free_block w)"
  by (auto intro: calm_heap free_opt_heap free_block_heap)

lemma calm_malloc [simp]: "calm w (w\<lparr>w_live := n\<rparr>)"
  by (simp add: calm_def)

lemma calm_stream: "calm w w' \<Longrightarrow> get_stream f w' = get_stream f w"
  by (simp add: calm_def get_stream_def)

lemma calm_plenty: "calm w w' \<Longrightarrow> w_allocs w = [] \<Longrightarrow> w_allocs w' = []"
  by (simp add: calm_def)

lemma get_put_stream [simp]:
  "f < length (w_streams w) \<Longrightarrow>
   get_stream f (put_stream f s w) = (if s_open s then Some s else None)"
  by (simp add: get_stream_def put_stream_def)

lemma get_put_stream_other [simp]: "f \<noteq> g \<Longrightarrow> get_stream g (put_stream f s w) = get_stream g w"
  by (simp add: get_stream_def put_stream_def)

lemma put_put_stream [simp]: "put_stream f s (put_stream f t w) = put_stream f s w"
  by (simp add: put_stream_def)

lemma put_stream_sel [simp]:
  "length (w_streams (put_stream f s w)) = length (w_streams w)"
  "w_allocs (put_stream f s w) = w_allocs w"
  "w_junk (put_stream f s w) = w_junk w"
  "w_errno (put_stream f s w) = w_errno w"
  "w_big_endian (put_stream f s w) = w_big_endian w"
  "w_disk (put_stream f s w) = w_disk w"
  by (simp_all add: put_stream_def)

text \<open>The byte stream a file holds: what a reader of the file sees after the stream is closed.\<close>

definition file_bytes :: "nat \<Rightarrow> 'z world_scheme \<Rightarrow> byte list" where
  "file_bytes f w = s_data (w_streams w ! f)"

lemma file_bytes_put [simp]:
  "f < length (w_streams w) \<Longrightarrow> file_bytes f (put_stream f s w) = s_data s"
  by (simp add: file_bytes_def put_stream_def)

text \<open>A stream positioned at the end of a file with no limit: writes append.\<close>

definition at_end :: "stream \<Rightarrow> bool" where
  "at_end s \<longleftrightarrow> s_open s \<and> s_seekable s \<and> s_limit s = None \<and> s_pos s = length (s_data s)"

lemma stream_put_at_end:
  "at_end s \<Longrightarrow>
   stream_put bs s =
     (length bs, s\<lparr>s_data := s_data s @ bs, s_pos := length (s_data s) + length bs\<rparr>)"
  by (simp add: stream_put_def at_end_def)

lemma at_end_put: "at_end s \<Longrightarrow>
   at_end (s\<lparr>s_data := s_data s @ bs, s_pos := length (s_data s) + length bs\<rparr>)"
  by (simp add: at_end_def)

lemma fwrite_at_end:
  assumes "get_stream f w = Some s" and "at_end s" and "n \<le> length buf"
  shows "fwrite buf n f w =
    Some (n, put_stream f (s\<lparr>s_data := s_data s @ take n buf, s_pos := length (s_data s) + n\<rparr>) w)"
  using assms by (simp add: fwrite_def load_def stream_put_at_end min_def)

text \<open>Overwriting inside a file keeps its length.\<close>

lemma stream_put_inside:
  assumes "s_limit s = None" and "s_pos s + length bs \<le> length (s_data s)"
  shows "stream_put bs s =
    (length bs, s\<lparr>s_data := take (s_pos s) (s_data s) @ bs @ drop (s_pos s + length bs) (s_data s),
                  s_pos := s_pos s + length bs\<rparr>)"
  using assms by (simp add: stream_put_def)

lemma stream_put_le: "fst (stream_put bs s) \<le> length bs"
  by (auto simp: stream_put_def Let_def split: option.splits)

lemma stream_put_open: "s_open (snd (stream_put bs s)) = s_open s"
  by (simp add: stream_put_def Let_def)

lemma fwrite_SomeD:
  assumes "fwrite buf n f w = Some (k, w')"
  obtains s where "get_stream f w = Some s" "n \<le> length buf"
    "k = fst (stream_put (take n buf) s)" "w' = put_stream f (snd (stream_put (take n buf) s)) w"
  using assms
  by (auto simp: fwrite_def load_def split: if_splits prod.splits Option.bind_splits)

lemma fwrite_same: "fwrite buf n f w = Some (k, w') \<Longrightarrow> same_but_streams w w'"
  by (elim fwrite_SomeD) auto

lemma fclose_same: "fclose f w = Some w' \<Longrightarrow> same_but_streams w w'"
  by (auto simp: fclose_def split: Option.bind_splits)

lemma fseek_same: "fseek_set f p w = Some (r, w') \<Longrightarrow> same_but_streams w w'"
  by (auto simp: fseek_set_def split: Option.bind_splits if_splits)

text \<open>Going back to \<open>p\<close> and overwriting bytes that are there: how the headers are patched.\<close>

lemma seek_write:
  assumes s: "get_stream f w = Some s" "s_seekable s" "s_limit s = None"
    and p: "p + length bs \<le> length (s_data s)"
  obtains v where "fseek_set f p w = Some (0, v)"
    "fwrite bs (length bs) f v = Some (length bs,
       put_stream f (s\<lparr>s_data := take p (s_data s) @ bs @ drop (p + length bs) (s_data s),
                       s_pos := p + length bs\<rparr>) w)"
proof -
  let ?t = "s\<lparr>s_pos := p\<rparr>"
  have f: "f < length (w_streams w)" "s_open s" using get_stream_lt [OF s(1)] by auto
  have "stream_put bs ?t = (length bs,
      s\<lparr>s_data := take p (s_data s) @ bs @ drop (p + length bs) (s_data s), s_pos := p + length bs\<rparr>)"
    using stream_put_inside [of ?t bs] s(3) p by simp
  then have "fwrite bs (length bs) f (put_stream f ?t w) = Some (length bs,
       put_stream f (s\<lparr>s_data := take p (s_data s) @ bs @ drop (p + length bs) (s_data s),
                       s_pos := p + length bs\<rparr>) w)"
    using f by (simp add: fwrite_def load_def)
  moreover have "fseek_set f p w = Some (0, put_stream f ?t w)"
    using s by (simp add: fseek_set_def)
  ultimately show ?thesis using that by blast
qed

lemma ftell_at_end: "get_stream f w = Some s \<Longrightarrow> at_end s \<Longrightarrow> ftell f w = Some (int (length (s_data s)))"
  by (simp add: ftell_def at_end_def)

text \<open>A closed stream cannot be closed again.\<close>

lemma fclose_twice: "fclose f w = Some w' \<Longrightarrow> fclose f w' = None"
  by (auto simp: fclose_def split: Option.bind_splits dest: get_stream_lt)

end
