(* ===== verification/AO_Config.thy ===== *)
theory AO_Config
  imports AO_Options AO_Stdio
begin

text \<open>
  The configuration files: \<^verbatim>\<open>src/config.c\<close>.  A file is read in pieces of at most 99 characters
  (\<open>fgets\<close> into \<open>char line[LINE_LEN]\<close>), each piece is trimmed and split at the first \<open>=\<close>;
  \<open>default_driver\<close> goes to the configuration, everything else is appended to the global
  options.  The text of a file is assumed to hold no NUL.
\<close>

section \<open>Operations\<close>

record ao_config =
  default_driver :: "string option"

definition LINE_LEN :: nat where
  "LINE_LEN = 100"

definition newline :: char where
  "newline = CHR 0x0A"

text \<open>\<open>fgets(line, Suc k, fp)\<close>: the characters read and the rest of the file.\<close>

fun fgets_take :: "nat \<Rightarrow> string \<Rightarrow> string \<times> string" where
  "fgets_take 0 s = ([], s)"
| "fgets_take (Suc k) [] = ([], [])"
| "fgets_take (Suc k) (c # s) =
     (if c = newline then ([c], s)
      else (case fgets_take k s of (l, r) \<Rightarrow> (c # l, r)))"

definition fgets :: "nat \<Rightarrow> string \<Rightarrow> (string \<times> string) option" where
  "fgets n s = (if s = [] then None else Some (fgets_take (n - 1) s))"

definition trim :: "string \<Rightarrow> string" where
  "trim p = (let p = skip_space p in if p \<noteq> [] then drop_trailing p else p)"

text \<open>
  The body of the loop for one piece.  \<open>strchr(key, '=')\<close> finds the first \<open>=\<close>; with none,
  \<open>val\<close> stays NULL.
\<close>

definition config_line ::
  "string \<Rightarrow> ao_config \<Rightarrow> ao_option list \<Rightarrow> 'z world_scheme
    \<Rightarrow> ao_config \<times> ao_option list \<times> 'z world_scheme" where
  "config_line line config opts w =
     (let k = trim line
      in if k \<noteq> [] \<and> hd k \<noteq> CHR ''#'' then
           let at = dropWhile (\<lambda>c. c \<noteq> CHR ''='') k;
               v = (if at \<noteq> [] then Some (tl at) else None);
               k = takeWhile (\<lambda>c. c \<noteq> CHR ''='') k
           in if k = ''default_driver'' then
                (case strdup (case v of Some s \<Rightarrow> s | None \<Rightarrow> '''')
                        (free_opt (default_driver config) w) of
                   (d, w) \<Rightarrow> (config\<lparr>default_driver := d\<rparr>, opts, w))
              else (case ao_append_option opts k v w of (_, opts, w) \<Rightarrow> (config, opts, w))
         else (config, opts, w))"

lemma fgets_take_le: "length (snd (fgets_take k s)) \<le> length s"
  by (induction k s rule: fgets_take.induct) (auto split: prod.splits)

lemma fgets_take_lt: "s \<noteq> [] \<Longrightarrow> length (snd (fgets_take (Suc k) s)) < length s"
  using fgets_take_le [of k "tl s"] by (cases s) (auto split: prod.splits)

function config_loop ::
  "string \<Rightarrow> ao_config \<Rightarrow> ao_option list \<Rightarrow> 'z world_scheme
    \<Rightarrow> ao_config \<times> ao_option list \<times> 'z world_scheme" where
  "config_loop text config opts w =
     (case fgets LINE_LEN text of
        None \<Rightarrow> (config, opts, w)
      | Some (line, rest) \<Rightarrow>
          (case config_line line config opts w of
             (config, opts, w) \<Rightarrow> config_loop rest config opts w))"
  by pat_completeness auto
termination
  by (relation "measure (\<lambda>(text, _). length text)")
     (auto simp: fgets_def LINE_LEN_def split: if_splits,
      metis (no_types, lifting) diff_Suc_1 fgets_take_lt numeral_eq_Suc pred_numeral_def
        snd_conv)

declare config_loop.simps [simp del]

definition ao_read_config_file ::
  "string \<Rightarrow> ao_config \<Rightarrow> ao_option list \<Rightarrow> 'z world_scheme
    \<Rightarrow> bool \<times> ao_config \<times> ao_option list \<times> 'z world_scheme" where
  "ao_read_config_file config_file config opts w = (case fopen_r config_file w of
      None \<Rightarrow> (False, config, opts, w)
    | Some text \<Rightarrow> (True, config_loop text config opts w))"

definition FILENAME_MAX :: nat where
  "FILENAME_MAX = 4096"

definition AO_SYSTEM_CONFIG :: string where
  "AO_SYSTEM_CONFIG = ''/etc/libao.conf''"

definition AO_USER_CONFIG :: string where
  "AO_USER_CONFIG = ''/.libao''"

text \<open>
  \<open>homedir\<close> is \<open>getenv("HOME")\<close>.  Building the user's file name overruns
  \<open>userfile[FILENAME_MAX+1]\<close> if name and NUL do not fit; this is the fault of the result.
\<close>

definition ao_read_config_files ::
  "string option \<Rightarrow> ao_config \<Rightarrow> ao_option list \<Rightarrow> 'z world_scheme
    \<Rightarrow> (ao_config \<times> ao_option list \<times> 'z world_scheme) option" where
  "ao_read_config_files homedir config opts w =
     (case ao_read_config_file AO_SYSTEM_CONFIG config opts w of
        (_, config, opts, w) \<Rightarrow>
          (case homedir of
             None \<Rightarrow> Some (config, opts, w)
           | Some home \<Rightarrow>
               if length home \<le> FILENAME_MAX - length AO_USER_CONFIG then
                 (let userfile = take FILENAME_MAX home @ AO_USER_CONFIG
                  in if length userfile + 1 \<le> FILENAME_MAX + 1
                     then Some (snd (ao_read_config_file userfile config opts w))
                     else None)
               else Some (config, opts, w)))"

section \<open>Laws\<close>

text \<open>Reading never overruns the file-name buffer: the guard on \<open>strlen(homedir)\<close> suffices.\<close>

lemma ao_read_config_files_total: "ao_read_config_files homedir config opts w \<noteq> None"
proof (cases "ao_read_config_file AO_SYSTEM_CONFIG config opts w")
  case (fields b config' opts' w')
  show ?thesis
  proof (cases homedir)
    case None
    with fields show ?thesis by (simp add: ao_read_config_files_def)
  next
    case (Some home)
    with fields show ?thesis
      by (simp add: ao_read_config_files_def AO_USER_CONFIG_def FILENAME_MAX_def del: not_None_eq)
  qed
qed

text \<open>Every block taken while reading is held by the options or the configuration.\<close>

definition config_blocks :: "ao_config \<Rightarrow> ao_option list \<Rightarrow> int" where
  "config_blocks config opts = blocks (default_driver config) + option_blocks opts"

lemma config_line_heap:
  assumes "config_line line config opts w = (config', opts', w')"
  shows "heap_step (config_blocks config' opts' - config_blocks config opts) w w'"
proof -
  note free_opt_heap [of "default_driver config" w]
  with assms show ?thesis
    by (auto simp: config_line_def config_blocks_def heap_step_def
        split: if_splits prod.splits dest!: strdup_heap ao_append_option_step)
qed

lemma config_loop_heap:
  assumes "config_loop body config opts w = (config', opts', w')"
  shows "heap_step (config_blocks config' opts' - config_blocks config opts) w w'"
  using assms
proof (induction body config opts w rule: config_loop.induct)
  case (1 body config opts w)
  show ?case
  proof (cases "fgets LINE_LEN body")
    case None
    with "1.prems" show ?thesis by (simp add: config_loop.simps [of body])
  next
    case (Some lr)
    obtain line rest where lr: "lr = (line, rest)" by (cases lr)
    obtain c o' v where step: "config_line line config opts w = (c, o', v)"
      by (cases "config_line line config opts w")
    with Some lr "1.prems" have "config_loop rest c o' v = (config', opts', w')"
      by (simp add: config_loop.simps [of body])
    with "1.IH" Some lr step
    have "heap_step (config_blocks config' opts' - config_blocks c o') v w'" by simp
    with config_line_heap [OF step] show ?thesis by (simp add: heap_step_def)
  qed
qed

text \<open>A piece ends at the newline when that comes within 99 characters.\<close>

lemma fgets_take_line:
  "newline \<notin> set l \<Longrightarrow> length l < k \<Longrightarrow> fgets_take k (l @ newline # r) = (l @ [newline], r)"
proof (induction l arbitrary: k)
  case Nil
  then show ?case by (cases k) auto
next
  case (Cons c l)
  then obtain k' where "k = Suc k'" by (cases k) auto
  with Cons show ?case by auto
qed

text \<open>A longer line is cut: the rest of it is read as a line of its own.\<close>

lemma fgets_take_long:
  "newline \<notin> set l \<Longrightarrow> length l = k \<Longrightarrow> fgets_take k (l @ r) = (l, r)"
proof (induction l arbitrary: k)
  case Nil
  then show ?case by simp
next
  case (Cons c l)
  then obtain k' where "k = Suc k'" by (cases k) auto
  with Cons show ?case by auto
qed

lemma isspace_newline [simp]: "isspace newline"
  by (simp add: isspace_def newline_def)

lemma trim_id:
  assumes "s \<noteq> []" and "\<not> isspace (hd s)" and "\<not> isspace (last s)" and "\<forall>c \<in> set sp. isspace c"
  shows "trim (s @ sp) = s"
proof -
  obtain c t where s: "s = c # t" using assms(1) by (cases s) auto
  have "skip_space (s @ sp) = s @ sp" using s assms(2) by (simp add: skip_space_def)
  moreover have "dropWhile isspace (rev sp @ rev s) = dropWhile isspace (rev s)"
    using assms(4) by (simp add: dropWhile_append)
  moreover have "dropWhile isspace (rev s) = rev s"
    using assms(1,3) by (cases "rev s") (auto simp: last_rev dest: arg_cong [of _ _ rev])
  ultimately show ?thesis using s by (simp add: trim_def drop_trailing_def)
qed

text \<open>
  A line \<open>key=value\<close> as \<^verbatim>\<open>libao.conf(5)\<close> asks for it, and what the loop makes of it, trailing
  white space or not.
\<close>

definition plain_key :: "string \<Rightarrow> bool" where
  "plain_key k \<longleftrightarrow> k \<noteq> [] \<and> (\<forall>c \<in> set k. \<not> isspace c \<and> c \<noteq> CHR ''='') \<and> hd k \<noteq> CHR ''#''"

definition plain_value :: "string \<Rightarrow> bool" where
  "plain_value v \<longleftrightarrow> newline \<notin> set v \<and> (v \<noteq> [] \<longrightarrow> \<not> isspace (last v))"

lemma trim_option_line:
  assumes "plain_key k" and "plain_value v" and "\<forall>c \<in> set sp. isspace c"
  shows "trim (k @ ''='' @ v @ sp) = k @ ''='' @ v"
  using trim_id [of "k @ ''='' @ v" sp] assms
  by (auto simp: plain_key_def plain_value_def isspace_def hd_append last_append)

lemma split_option_line:
  assumes "plain_key k"
  shows "takeWhile (\<lambda>c. c \<noteq> CHR ''='') (k @ ''='' @ v) = k"
    and "dropWhile (\<lambda>c. c \<noteq> CHR ''='') (k @ ''='' @ v) = ''='' @ v"
  using assms by (auto simp: plain_key_def takeWhile_append2 dropWhile_append2)

lemma config_line_option:
  assumes "plain_key k" and "plain_value v" and "\<forall>c \<in> set sp. isspace c"
    and "k \<noteq> ''default_driver''"
  shows "config_line (k @ ''='' @ v @ sp) config opts w =
    (case ao_append_option opts k (Some v) w of (_, opts, w) \<Rightarrow> (config, opts, w))"
proof -
  have "k @ ''='' @ v \<noteq> []" "hd (k @ ''='' @ v) \<noteq> CHR ''#''"
    using assms(1) by (auto simp: plain_key_def hd_append)
  then show ?thesis
    unfolding config_line_def Let_def trim_option_line [OF assms(1-3)]
      split_option_line [OF assms(1)]
    using assms(4) by simp
qed

lemma config_line_driver:
  assumes "plain_value v" and "\<forall>c \<in> set sp. isspace c" and "w_allocs w = []"
  shows "config_line (''default_driver='' @ v @ sp) config opts w =
    (config\<lparr>default_driver := Some v\<rparr>, opts, w\<lparr>w_live := w_live w + 1 - blocks (default_driver config)\<rparr>)"
proof -
  have k: "plain_key ''default_driver''" by (simp add: plain_key_def isspace_def)
  have e: "''default_driver='' @ v @ sp = ''default_driver'' @ ''='' @ v @ sp" by simp
  show ?thesis
    unfolding config_line_def Let_def e trim_option_line [OF k assms(1,2)]
      split_option_line [OF k]
    using assms(3) by (cases "default_driver config") (simp_all add: free_opt_def free_block_def)
qed

lemma config_line_comment:
  "trim line = [] \<or> hd (trim line) = CHR ''#'' \<Longrightarrow> config_line line config opts w = (config, opts, w)"
  by (auto simp: config_line_def)

definition option_line :: "string \<times> string \<Rightarrow> string" where
  "option_line kv = fst kv @ ''='' @ snd kv @ [newline]"

definition plain_option :: "string \<times> string \<Rightarrow> bool" where
  "plain_option kv \<longleftrightarrow> plain_key (fst kv) \<and> plain_value (snd kv) \<and>
     fst kv \<noteq> ''default_driver'' \<and> length (fst kv) + length (snd kv) \<le> 97"

text \<open>One line of a file is one piece for the loop.\<close>

lemma config_loop_line:
  assumes "newline \<notin> set l" and "length l < 99"
  shows "config_loop (l @ newline # r) config opts w =
    (case config_line (l @ [newline]) config opts w of
       (config, opts, w) \<Rightarrow> config_loop r config opts w)"
  using assms by (simp add: config_loop.simps [of "l @ newline # r"] fgets_def LINE_LEN_def
      fgets_take_line)

lemma config_loop_nil [simp]: "config_loop [] config opts w = (config, opts, w)"
  by (simp add: config_loop.simps fgets_def)

lemma config_loop_options:
  assumes "\<forall>kv \<in> set kvs. plain_option kv" and "w_allocs w = []"
  shows "config_loop (concat (map option_line kvs)) config opts w =
    (config, opts @ map (\<lambda>kv. \<lparr>opt_key = Some (fst kv), opt_value = Some (snd kv)\<rparr>) kvs,
     w\<lparr>w_live := w_live w + 3 * int (length kvs)\<rparr>)"
  using assms
proof (induction kvs arbitrary: opts w)
  case Nil
  then show ?case by simp
next
  case (Cons kv kvs)
  let ?l = "fst kv @ ''='' @ snd kv" and ?r = "concat (map option_line kvs)"
  from Cons.prems have p: "plain_key (fst kv)" "plain_value (snd kv)"
    "fst kv \<noteq> ''default_driver''" "length ?l < 99"
    by (auto simp: plain_option_def)
  have nl: "newline \<notin> set ?l"
    using p(1,2) by (auto simp: plain_key_def plain_value_def newline_def isspace_def)
  have "config_loop (concat (map option_line (kv # kvs))) config opts w =
    (case config_line (?l @ [newline]) config opts w of
       (config, opts, w) \<Rightarrow> config_loop ?r config opts w)"
    using config_loop_line [OF nl p(4), of ?r config opts w] by (simp add: option_line_def)
  also have "\<dots> = config_loop ?r config (opts @ [\<lparr>opt_key = Some (fst kv), opt_value = Some (snd kv)\<rparr>])
      (w\<lparr>w_live := w_live w + 3\<rparr>)"
    using config_line_option [OF p(1,2) _ p(3), of "[newline]" config opts w] Cons.prems(2)
    by (simp add: ao_append_option_plenty)
  finally show ?case using Cons by (simp add: algebra_simps)
qed

end
