(* ===== verification/AO_Registry.thy ===== *)
theory AO_Registry
  imports AO_Config "HOL-Library.Multiset"
begin

text \<open>
  The driver registry of \<^verbatim>\<open>src/audio_out.c\<close>: the list of static and dynamic drivers, its order by
  priority, the table of driver infos and the queries on driver ids.

  The file-scope variables of \<^verbatim>\<open>audio_out.c\<close> are one record, \<open>ao_lib\<close>: a NULL \<open>driver_head\<close> is
  the empty list, \<open>ao_global_dummy\<close> is its \<open>verbose\<close> field (\<open>None\<close> while the pointer is NULL).
  What the operating system has in the plugin directory is a parameter, \<open>plugin_dir\<close>.
\<close>

section \<open>State\<close>

record ('p, 'w) ao_driver_entry =
  drv_functions :: "('p, 'w) ao_functions"
  drv_handle :: "nat option"

record ('p, 'w) ao_lib =
  driver_head :: "('p, 'w) ao_driver_entry list"
  config :: ao_config
  info_table :: "ao_info list option"
  driver_count :: int
  global_dummy :: "int option"
  global_options :: "ao_option list"

text \<open>The symbols \<open>dlsym\<close> looks up in a plugin; \<open>file_extension\<close> is not among them.\<close>

record ('p, 'w) plugin_symbols =
  sym_handle :: nat
  sym_test :: "('w \<Rightarrow> (bool \<times> 'w) option) option"
  sym_driver_info :: "ao_info option"
  sym_device_init :: "('p ao_device \<Rightarrow> 'w \<Rightarrow> (bool \<times> 'p ao_device \<times> 'w) option) option"
  sym_set_option ::
    "('p ao_device \<Rightarrow> string \<Rightarrow> string option \<Rightarrow> 'w \<Rightarrow> (bool \<times> 'p ao_device \<times> 'w) option) option"
  sym_open ::
    "('p ao_device \<Rightarrow> ao_sample_format \<Rightarrow> 'w
       \<Rightarrow> (bool \<times> 'p ao_device \<times> ao_sample_format \<times> 'w) option) option"
  sym_play ::
    "('p ao_device \<Rightarrow> byte list \<Rightarrow> 32 word \<Rightarrow> 'w \<Rightarrow> (bool \<times> 'p ao_device \<times> 'w) option) option"
  sym_close :: "('p ao_device \<Rightarrow> 'w \<Rightarrow> (bool \<times> 'p ao_device \<times> 'w) option) option"
  sym_device_clear :: "('p ao_device \<Rightarrow> 'w \<Rightarrow> ('p ao_device \<times> 'w) option) option"

text \<open>
  The plugin directory: its path, the names \<open>readdir\<close> gives (\<open>None\<close>: it cannot be opened),
  which paths are regular files, and what \<open>dlopen\<close> finds behind a path.
\<close>

record ('p, 'w) plugin_dir =
  AO_PLUGIN_PATH :: string
  dir_names :: "string list option"
  is_regular :: "string \<Rightarrow> bool"
  dlopen :: "string \<Rightarrow> ('p, 'w) plugin_symbols option"

abbreviation info_of :: "('p, 'w) ao_driver_entry \<Rightarrow> ao_info" where
  "info_of d \<equiv> fn_driver_info (drv_functions d)"

section \<open>Loading drivers\<close>

text \<open>
  \<open>_get_plugin\<close>.  A missing symbol gives up on the plugin and frees the node and the table.
  The library handle stays open.
\<close>

definition get_plugin ::
  "('p, 'z world_scheme) plugin_dir \<Rightarrow> string \<Rightarrow> 'z world_scheme
    \<Rightarrow> ('p, 'z world_scheme) ao_driver_entry option \<times> 'z world_scheme" where
  "get_plugin env path w = (case dlopen env path of
      None \<Rightarrow> (None, w)
    | Some s \<Rightarrow>
        (case malloc_ok w of (ok, w) \<Rightarrow>
          if \<not> ok then (None, w)
          else (case malloc_ok w of (ok, w) \<Rightarrow>
            if \<not> ok then (None, free_block w)
            else (case (do {
                test \<leftarrow> sym_test s;
                info \<leftarrow> sym_driver_info s;
                init \<leftarrow> sym_device_init s;
                opt \<leftarrow> sym_set_option s;
                opn \<leftarrow> sym_open s;
                play \<leftarrow> sym_play s;
                close \<leftarrow> sym_close s;
                clear \<leftarrow> sym_device_clear s;
                Some \<lparr>fn_test = test, fn_driver_info = info, fn_device_init = init,
                      fn_set_option = opt, fn_open = opn, fn_play = play, fn_close = close,
                      fn_device_clear = clear, fn_file_extension = None\<rparr> }) of
                None \<Rightarrow> (None, free_block (free_block w))
              | Some f \<Rightarrow>
                  (Some \<lparr>drv_functions = f, drv_handle = Some (sym_handle s)\<rparr>, w)))))"

text \<open>
  \<open>_load_static_drivers\<close>: one node for every table, until an allocation fails.  Its second
  result, the end of the list, is the last node.
\<close>

fun load_static_drivers ::
  "('p, 'z world_scheme) ao_functions list \<Rightarrow> 'z world_scheme
    \<Rightarrow> ('p, 'z world_scheme) ao_driver_entry list \<times> 'z world_scheme" where
  "load_static_drivers [] w = ([], w)"
| "load_static_drivers (f # fs) w = (case malloc_ok w of (ok, w) \<Rightarrow>
     if \<not> ok then ([], w)
     else (case load_static_drivers fs w of (ds, w) \<Rightarrow>
       (\<lparr>drv_functions = f, drv_handle = None\<rparr> # ds, w)))"

definition strrchr :: "char \<Rightarrow> string \<Rightarrow> string option" where
  "strrchr c s =
     (if c \<in> set s then Some (c # rev (takeWhile (\<lambda>x. x \<noteq> c) (rev s))) else None)"

definition SHARED_LIB_EXT :: string where
  "SHARED_LIB_EXT = ''.so''"

text \<open>
  The loop of \<open>_append_dynamic_drivers\<close>.  With no static driver loaded \<open>end\<close> is NULL and linking
  the first plugin behind it is a fault.
\<close>

fun append_plugins ::
  "('p, 'z world_scheme) plugin_dir \<Rightarrow> string list \<Rightarrow> ('p, 'z world_scheme) ao_driver_entry list
    \<Rightarrow> 'z world_scheme
    \<Rightarrow> (('p, 'z world_scheme) ao_driver_entry list \<times> 'z world_scheme) option" where
  "append_plugins env [] ds w = Some (ds, w)"
| "append_plugins env (name # names) ds w =
     (let fullpath = AO_PLUGIN_PATH env @ ''/'' @ name
      in if is_regular env fullpath \<and> strrchr (CHR ''.'') name = Some SHARED_LIB_EXT
         then (case get_plugin env fullpath w of
             (None, w) \<Rightarrow> append_plugins env names ds w
           | (Some plugin, w) \<Rightarrow>
               if ds = [] then None else append_plugins env names (ds @ [plugin]) w)
         else append_plugins env names ds w)"

definition append_dynamic_drivers ::
  "('p, 'z world_scheme) plugin_dir \<Rightarrow> ('p, 'z world_scheme) ao_driver_entry list
    \<Rightarrow> 'z world_scheme
    \<Rightarrow> (('p, 'z world_scheme) ao_driver_entry list \<times> 'z world_scheme) option" where
  "append_dynamic_drivers env ds w =
     (case dir_names env of None \<Rightarrow> Some (ds, w) | Some names \<Rightarrow> append_plugins env names ds w)"

section \<open>Ordering drivers\<close>

text \<open>The sign of \<open>memcmp\<close>: the first differing byte decides.\<close>

fun memcmp :: "byte list \<Rightarrow> byte list \<Rightarrow> int" where
  "memcmp (a # as) (b # bs) = (if a < b then -1 else if b < a then 1 else memcmp as bs)"
| "memcmp _ _ = 0"

definition compar_driver_priority ::
  "bool \<Rightarrow> ('p, 'w) ao_driver_entry \<Rightarrow> ('p, 'w) ao_driver_entry \<Rightarrow> int" where
  "compar_driver_priority big a b =
     memcmp (mem32 big (word_of_int (priority (info_of b))))
            (mem32 big (word_of_int (priority (info_of a))))"

text \<open>
  \<open>qsort\<close> by its comparison function.  The standard leaves the order of equal elements open;
  here they keep their order, as in the C libraries that sort by merging.
\<close>

fun qsort_insert :: "('a \<Rightarrow> 'a \<Rightarrow> int) \<Rightarrow> 'a \<Rightarrow> 'a list \<Rightarrow> 'a list" where
  "qsort_insert cmp x [] = [x]"
| "qsort_insert cmp x (y # ys) =
     (if cmp x y \<le> 0 then x # y # ys else y # qsort_insert cmp x ys)"

fun qsort :: "('a \<Rightarrow> 'a \<Rightarrow> int) \<Rightarrow> 'a list \<Rightarrow> 'a list" where
  "qsort cmp [] = []"
| "qsort cmp (x # xs) = qsort_insert cmp x (qsort cmp xs)"

text \<open>
  \<open>_make_info_table\<close>: the table, the new head, \<open>*driver_count\<close>.  With no driver at all it reads
  and writes outside its table of zero entries: a fault.
\<close>

definition make_info_table ::
  "('p, 'z world_scheme) ao_driver_entry list \<Rightarrow> 'z world_scheme
    \<Rightarrow> (ao_info list option \<times> ('p, 'z world_scheme) ao_driver_entry list \<times> int \<times> 'z world_scheme)
         option" where
  "make_info_table head w = (case malloc_ok w of (ok, w) \<Rightarrow>
     if \<not> ok then Some (None, head, 0, w)
     else if head = [] then None
     else
       let ds = qsort (compar_driver_priority (w_big_endian w)) head
       in (case malloc_ok w of (ok, w) \<Rightarrow>
            Some (if ok then Some (map info_of ds) else None, ds, int (length ds), free_block w)))"

section \<open>Queries\<close>

fun get_driver_loop :: "int \<Rightarrow> int \<Rightarrow> 'd list \<Rightarrow> 'd option" where
  "get_driver_loop i did [] = None"
| "get_driver_loop i did (d # ds) =
     (if i < did then get_driver_loop (i + 1) did ds else if i = did then Some d else None)"

definition get_driver :: "int \<Rightarrow> ('p, 'w) ao_lib \<Rightarrow> ('p, 'w) ao_driver_entry option" where
  "get_driver did lib = (if did < 0 then None else get_driver_loop 0 did (driver_head lib))"

fun check_loop :: "int \<Rightarrow> int \<Rightarrow> 'd list \<Rightarrow> int" where
  "check_loop i did [] = i"
| "check_loop i did (d # ds) = (if i \<le> did then check_loop (i + 1) did ds else i)"

definition check_driver_id :: "int \<Rightarrow> ('p, 'w) ao_lib \<Rightarrow> bool" where
  "check_driver_id did lib =
     (if did < 0 then False else check_loop 0 did (driver_head lib) = did + 1)"

fun driver_id_loop :: "string \<Rightarrow> int \<Rightarrow> ('p, 'w) ao_driver_entry list \<Rightarrow> int" where
  "driver_id_loop name i [] = -1"
| "driver_id_loop name i (d # ds) =
     (if name = short_name (info_of d) then i else driver_id_loop name (i + 1) ds)"

definition ao_driver_id :: "string \<Rightarrow> ('p, 'w) ao_lib \<Rightarrow> int" where
  "ao_driver_id name lib = driver_id_loop name 0 (driver_head lib)"

fun default_loop :: "int \<Rightarrow> ('p, 'w) ao_driver_entry list \<Rightarrow> 'w \<Rightarrow> (int \<times> 'w) option" where
  "default_loop did [] w = Some (-1, w)"
| "default_loop did (d # ds) w =
     (if info_type (info_of d) = AO_TYPE_LIVE \<and> priority (info_of d) > 0
      then do {
        (usable, w) \<leftarrow> fn_test (drv_functions d) w;
        (if usable then Some (did, w) else default_loop (did + 1) ds w) }
      else default_loop (did + 1) ds w)"

definition find_default_driver_id ::
  "string option \<Rightarrow> ('p, 'w) ao_lib \<Rightarrow> 'w \<Rightarrow> (int \<times> 'w) option" where
  "find_default_driver_id name lib w =
     (let def_id = (case name of None \<Rightarrow> -1 | Some s \<Rightarrow> ao_driver_id s lib)
      in if name = None \<or> def_id < 0 then default_loop 0 (driver_head lib) w else Some (def_id, w))"

definition ao_default_driver_id :: "('p, 'w) ao_lib \<Rightarrow> 'w \<Rightarrow> (int \<times> 'w) option" where
  "ao_default_driver_id lib w = find_default_driver_id (default_driver (config lib)) lib w"

definition ao_driver_info :: "int \<Rightarrow> ('p, 'w) ao_lib \<Rightarrow> ao_info option" where
  "ao_driver_info did lib = map_option info_of (get_driver did lib)"

definition ao_driver_info_list :: "('p, 'w) ao_lib \<Rightarrow> ao_info list option \<times> int" where
  "ao_driver_info_list lib = (info_table lib, driver_count lib)"

definition ao_file_extension :: "int \<Rightarrow> ('p, 'w) ao_lib \<Rightarrow> string option" where
  "ao_file_extension did lib =
     (case get_driver did lib of None \<Rightarrow> None | Some d \<Rightarrow> fn_file_extension (drv_functions d))"

section \<open>Laws of the queries\<close>

lemma get_driver_loop_eq:
  "i \<le> n \<Longrightarrow> get_driver_loop i n ds =
     (if nat (n - i) < length ds then Some (ds ! nat (n - i)) else None)"
proof (induction ds arbitrary: i)
  case Nil
  then show ?case by simp
next
  case (Cons d ds)
  show ?case
  proof (cases "i < n")
    case True
    then have "nat (n - i) = Suc (nat (n - (i + 1)))" by simp
    with Cons.IH [of "i + 1"] True show ?thesis by simp
  next
    case False
    with Cons.prems show ?thesis by simp
  qed
qed

lemma get_driver_eq:
  "get_driver n lib = (if 0 \<le> n \<and> n < int (length (driver_head lib))
     then Some (driver_head lib ! nat n) else None)"
  by (auto simp: get_driver_def get_driver_loop_eq)

lemma get_driver_mem: "get_driver n lib = Some d \<Longrightarrow> d \<in> set (driver_head lib)"
  by (auto simp: get_driver_eq split: if_splits)

lemma check_loop_eq:
  "i \<le> n + 1 \<Longrightarrow> check_loop i n ds = min (i + int (length ds)) (n + 1)"
  by (induction ds arbitrary: i) (auto simp: min_def)

lemma check_driver_id_iff: "check_driver_id n lib \<longleftrightarrow> get_driver n lib \<noteq> None"
  by (auto simp: check_driver_id_def check_loop_eq get_driver_eq)

lemma driver_id_loop_eq:
  "driver_id_loop name i ds =
     (let k = search (\<lambda>d. name = short_name (info_of d)) ds
      in if k = length ds then -1 else i + int k)"
  by (induction ds arbitrary: i) (auto simp: search_eq_length_iff)

lemma ao_driver_id_cases:
  obtains (none) "ao_driver_id name lib = -1"
      "\<forall>d \<in> set (driver_head lib). short_name (info_of d) \<noteq> name"
  | (found) k where "ao_driver_id name lib = int k" "k < length (driver_head lib)"
      "short_name (info_of (driver_head lib ! k)) = name"
      "\<forall>j < k. short_name (info_of (driver_head lib ! j)) \<noteq> name"
proof -
  let ?P = "\<lambda>d :: ('a, 'b) ao_driver_entry. name = short_name (info_of d)"
  let ?k = "search ?P (driver_head lib)"
  show ?thesis
  proof (cases "?k = length (driver_head lib)")
    case True
    then have "\<forall>d \<in> set (driver_head lib). short_name (info_of d) \<noteq> name"
      using search_eq_length_iff [of ?P "driver_head lib"] by auto
    with True none show ?thesis by (simp add: ao_driver_id_def driver_id_loop_eq)
  next
    case False
    then have lt: "?k < length (driver_head lib)" using search_le [of ?P "driver_head lib"] by simp
    from search_hit [OF this] search_before [of _ ?P "driver_head lib"] lt False found [of ?k]
    show ?thesis by (auto simp: ao_driver_id_def driver_id_loop_eq)
  qed
qed

text \<open>A driver that the search for a default may take.\<close>

definition candidate :: "('p, 'w) ao_driver_entry \<Rightarrow> bool" where
  "candidate d \<longleftrightarrow> info_type (info_of d) = AO_TYPE_LIVE \<and> priority (info_of d) > 0"

text \<open>The candidates among \<open>ds\<close> were asked, each in some world, and none was usable.\<close>

definition all_refused :: "('p, 'w) ao_driver_entry list \<Rightarrow> bool" where
  "all_refused ds \<longleftrightarrow>
     (\<forall>d \<in> set ds. candidate d \<longrightarrow> (\<exists>u v. fn_test (drv_functions d) u = Some (False, v)))"

lemma default_loop_cases:
  assumes "default_loop n ds w = Some (r, w')"
  shows "(r = -1 \<and> all_refused ds) \<or>
    (\<exists>k < length ds. r = n + int k \<and> candidate (ds ! k) \<and> all_refused (take k ds) \<and>
       (\<exists>u. fn_test (drv_functions (ds ! k)) u = Some (True, w')))"
  using assms
proof (induction ds arbitrary: n w)
  case Nil
  then show ?case by (simp add: all_refused_def)
next
  case (Cons d ds)
  show ?case
  proof (cases "candidate d \<and> (\<exists>v. fn_test (drv_functions d) w = Some (True, v))")
    case True
    with Cons.prems have "r = n \<and> fn_test (drv_functions d) w = Some (True, w')"
      by (auto simp: candidate_def)
    with True show ?thesis by (auto intro!: exI [of _ 0] simp: all_refused_def)
  next
    case False
    then obtain v where v: "default_loop (n + 1) ds v = Some (r, w')"
      "candidate d \<Longrightarrow> fn_test (drv_functions d) w = Some (False, v)"
      using Cons.prems by (auto simp: candidate_def split: Option.bind_splits if_splits)
    have d: "all_refused (d # es) \<longleftrightarrow> all_refused es" for es
      using v(2) by (auto simp: all_refused_def)
    from Cons.IH [OF v(1)] show ?thesis
    proof
      assume "\<exists>k<length ds. r = n + 1 + int k \<and> candidate (ds ! k) \<and> all_refused (take k ds) \<and>
           (\<exists>u. fn_test (drv_functions (ds ! k)) u = Some (True, w'))"
      then obtain k where "k < length ds" "r = n + 1 + int k" "candidate (ds ! k)"
        "all_refused (take k ds)" "\<exists>u. fn_test (drv_functions (ds ! k)) u = Some (True, w')" by blast
      then show ?thesis by (intro disjI2 exI [of _ "Suc k"]) (simp add: d)
    qed (simp add: d)
  qed
qed

section \<open>Laws of the order\<close>

definition be_value :: "byte list \<Rightarrow> int" where
  "be_value bs = foldl (\<lambda>a b. a * 256 + uint b) 0 bs"

lemma foldl_be: "foldl (\<lambda>a b. a * 256 + uint b) x bs = x * 256 ^ length bs + be_value (bs :: byte list)"
proof (induction bs arbitrary: x)
  case Nil
  then show ?case by (simp add: be_value_def)
next
  case (Cons b bs)
  have "be_value (b # bs) = uint b * 256 ^ length bs + be_value bs"
    using Cons.IH [of "uint b"] by (simp add: be_value_def)
  with Cons.IH [of "x * 256 + uint b"] show ?case by (simp add: algebra_simps)
qed

lemma be_value_Cons: "be_value (b # bs) = uint b * 256 ^ length bs + be_value bs"
  using foldl_be [of "uint b" bs] by (simp add: be_value_def)

lemma be_value_Nil [simp]: "be_value [] = 0"
  by (simp add: be_value_def)

lemma be_value_bounds: "0 \<le> be_value bs \<and> be_value bs < 256 ^ length bs"
proof (induction bs)
  case Nil
  then show ?case by simp
next
  case (Cons b bs)
  have "uint b \<le> 255" using uint_bounded [of b] by simp
  then have "uint b * 256 ^ length bs \<le> 255 * 256 ^ length bs" by (intro mult_right_mono) auto
  moreover have "0 \<le> uint b * 256 ^ length bs" by simp
  ultimately have "0 \<le> uint b * 256 ^ length bs + be_value bs"
    "uint b * 256 ^ length bs + be_value bs < 256 * 256 ^ length bs"
    using Cons by linarith+
  then show ?case by (simp add: be_value_Cons)
qed

lemma memcmp_be_value:
  "length xs = length ys \<Longrightarrow> memcmp xs ys = sgn (be_value xs - be_value ys)"
proof (induction xs ys rule: list_induct2)
  case Nil
  then show ?case by simp
next
  case (Cons x xs y ys)
  have less: "be_value (a # as) < be_value (b # bs)"
    if "a < b" "length as = length bs" for a b as bs
  proof -
    have "(uint a + 1) * 256 ^ length as \<le> uint b * 256 ^ length as"
      using that(1) by (intro mult_right_mono) (auto simp: word_less_def)
    then show ?thesis
      using be_value_bounds [of as] be_value_bounds [of bs] that(2)
      by (simp add: be_value_Cons algebra_simps)
  qed
  consider "x < y" | "y < x" | "x = y" by fastforce
  then show ?case
  proof cases
    case 1
    with less [of x y xs ys] Cons.hyps show ?thesis by simp
  next
    case 2
    with less [of y x ys xs] Cons.hyps show ?thesis by simp
  next
    case 3
    with Cons show ?thesis by (simp add: be_value_Cons)
  qed
qed

text \<open>The key by which \<open>_compar_driver_priority\<close> orders: the priority's bytes read from the left.\<close>

definition prio_key :: "bool \<Rightarrow> ('p, 'w) ao_driver_entry \<Rightarrow> int" where
  "prio_key big d = be_value (mem32 big (word_of_int (priority (info_of d))))"

lemma compar_prio_key: "compar_driver_priority big a b = sgn (prio_key big b - prio_key big a)"
proof -
  have "length (mem32 big x) = 4" for x by (simp add: mem32_def)
  then show ?thesis by (simp add: compar_driver_priority_def prio_key_def memcmp_be_value)
qed

lemma mset_qsort_insert: "mset (qsort_insert cmp x ys) = mset (x # ys)"
  by (induction ys) auto

lemma mset_qsort [simp]: "mset (qsort cmp xs) = mset xs"
  by (induction xs) (auto simp: mset_qsort_insert)

lemma length_qsort [simp]: "length (qsort cmp xs) = length xs"
  by (metis mset_qsort size_mset)

lemma set_qsort [simp]: "set (qsort cmp xs) = set xs"
  by (metis mset_qsort set_mset_mset)

lemma qsort_Nil_iff [simp]: "qsort cmp xs = [] \<longleftrightarrow> xs = []"
  by (metis length_0_conv length_qsort)

lemma sorted_qsort_insert:
  fixes key :: "'a \<Rightarrow> int"
  assumes "\<And>a b. cmp a b = sgn (key b - key a)"
  shows "sorted_wrt (\<lambda>a b. key b \<le> key a) ys \<Longrightarrow>
    sorted_wrt (\<lambda>a b. key b \<le> key a) (qsort_insert cmp x ys)"
proof (induction ys)
  case Nil
  then show ?case by simp
next
  case (Cons y ys)
  have "cmp x y \<le> 0 \<longleftrightarrow> key y \<le> key x" by (auto simp: assms sgn_if)
  moreover have "set (qsort_insert cmp x ys) = insert x (set ys)"
    by (metis mset_qsort_insert set_mset_mset list.simps(15))
  ultimately show ?case using Cons by auto
qed

lemma sorted_qsort:
  fixes key :: "'a \<Rightarrow> int"
  assumes "\<And>a b. cmp a b = sgn (key b - key a)"
  shows "sorted_wrt (\<lambda>a b. key b \<le> key a) (qsort cmp xs)"
proof (induction xs)
  case (Cons x xs)
  from sorted_qsort_insert [of cmp key, OF assms Cons] show ?case by simp
qed simp

text \<open>
  For a priority that is not negative the key of a big-endian machine is the priority itself,
  that of a little-endian machine is in the order of the priorities below 256 only.
\<close>

lemma byte_of_word: "uint (ucast (y :: 32 word) :: byte) = uint y mod 256"
  by (simp add: unsigned_ucast_eq take_bit_eq_mod)

lemma uint_drop_bit32: "uint (drop_bit n (y :: 32 word)) = uint y div 2 ^ n"
  using take_bit_int_eq_self [of "uint y" 32] uint_bounded [of y]
  by (simp add: unsigned_drop_bit_eq flip: drop_bit_eq_div)

lemma pow_values: "(2::int) ^ 8 = 256" "(2::int) ^ 16 = 65536" "(2::int) ^ 24 = 16777216"
  by simp_all

lemma be_value4:
  "be_value [a, b, c, d] = uint d + 256 * uint c + 65536 * uint b + 16777216 * uint a"
  by (simp add: be_value_def algebra_simps)

lemma prio_key_big:
  assumes "0 \<le> priority (info_of d)" and "priority (info_of d) \<le> INT_MAX"
  shows "prio_key True d = priority (info_of d)"
proof -
  let ?x = "word_of_int (priority (info_of d)) :: 32 word"
  have bytes: "prio_key True d = be_value [ucast (drop_bit 24 ?x), ucast (drop_bit 16 ?x),
      ucast (drop_bit 8 ?x), ucast ?x]"
    by (simp add: prio_key_def mem32_def)
  have range: "0 \<le> uint ?x" "uint ?x < 4294967296"
    using uint_bounded [of ?x] by simp_all
  have "prio_key True d = uint ?x"
    unfolding bytes be_value4 byte_of_word uint_drop_bit32
    using digits256 [OF range] by (simp only: pow_values)
  also have "uint ?x = priority (info_of d)"
    using assms by (simp add: unsigned_of_int take_bit_int_eq_self INT_MAX_def)
  finally show ?thesis .
qed

lemma prio_key_little:
  assumes "0 \<le> priority (info_of d)" and "priority (info_of d) < 256"
  shows "prio_key False d = priority (info_of d) * 2 ^ 24"
proof -
  let ?x = "word_of_int (priority (info_of d)) :: 32 word"
  have x: "uint ?x = priority (info_of d)"
    using assms by (simp add: unsigned_of_int take_bit_int_eq_self)
  show ?thesis
    using assms
    by (simp add: prio_key_def mem32_def be_value_def byte_of_word uint_drop_bit32 x)
qed

definition small_priority :: "bool \<Rightarrow> ('p, 'w) ao_driver_entry \<Rightarrow> bool" where
  "small_priority big d \<longleftrightarrow>
     0 \<le> priority (info_of d) \<and> priority (info_of d) \<le> (if big then INT_MAX else 255)"

lemma prio_key_order:
  "small_priority big a \<Longrightarrow> small_priority big b \<Longrightarrow>
   prio_key big b \<le> prio_key big a \<longleftrightarrow> priority (info_of b) \<le> priority (info_of a)"
  by (cases big) (auto simp: small_priority_def prio_key_big prio_key_little)

lemma sorted_drivers:
  assumes "\<forall>d \<in> set ds. small_priority big d"
  shows "sorted_wrt (\<lambda>a b. priority (info_of b) \<le> priority (info_of a))
    (qsort (compar_driver_priority big) ds)"
  by (rule sorted_wrt_mono_rel [OF _ sorted_qsort [of _ "prio_key big", OF compar_prio_key]])
     (use assms in \<open>simp add: prio_key_order\<close>)

section \<open>Laws of loading\<close>

lemma get_plugin_step:
  assumes "get_plugin env path w = (r, w')"
  shows "heap_step (2 * blocks r) w w' \<and>
    (\<forall>d. r = Some d \<longrightarrow> (\<exists>s. dlopen env path = Some s \<and> drv_handle d = Some (sym_handle s) \<and>
       sym_test s = Some (fn_test (drv_functions d)) \<and>
       sym_device_init s = Some (fn_device_init (drv_functions d)) \<and>
       sym_set_option s = Some (fn_set_option (drv_functions d)) \<and>
       sym_open s = Some (fn_open (drv_functions d)) \<and>
       sym_play s = Some (fn_play (drv_functions d)) \<and>
       sym_close s = Some (fn_close (drv_functions d)) \<and>
       sym_device_clear s = Some (fn_device_clear (drv_functions d)) \<and>
       fn_file_extension (drv_functions d) = None))"
  using assms
  by (auto simp: get_plugin_def heap_step_def free_block_def off_heap_def
      split: option.splits prod.splits if_splits Option.bind_splits dest!: malloc_ok_heap)

lemma load_static_drivers_plenty:
  "w_allocs w = [] \<Longrightarrow> load_static_drivers fs w =
     (map (\<lambda>f. \<lparr>drv_functions = f, drv_handle = None\<rparr>) fs, w\<lparr>w_live := w_live w + int (length fs)\<rparr>)"
  by (induction fs arbitrary: w) (auto simp: algebra_simps)

lemma load_static_drivers_step:
  "load_static_drivers fs w = (ds, w') \<Longrightarrow> heap_step (int (length ds)) w w' \<and>
     (\<exists>n. ds = map (\<lambda>f. \<lparr>drv_functions = f, drv_handle = None\<rparr>) (take n fs))"
proof (induction fs arbitrary: w ds w')
  case Nil
  then show ?case by simp
next
  case (Cons f fs)
  obtain ok v where m: "malloc_ok w = (ok, v)" by (cases "malloc_ok w")
  show ?case
  proof (cases ok)
    case False
    with Cons.prems m malloc_ok_heap [OF m] show ?thesis by (auto intro!: exI [of _ 0])
  next
    case True
    obtain es u where l: "load_static_drivers fs v = (es, u)" by (cases "load_static_drivers fs v")
    with Cons.prems m True have e: "ds = \<lparr>drv_functions = f, drv_handle = None\<rparr> # es" "w' = u" by auto
    from Cons.IH [OF l] obtain n where h: "heap_step (int (length es)) v u"
      "es = map (\<lambda>f. \<lparr>drv_functions = f, drv_handle = None\<rparr>) (take n fs)" by blast
    from heap_step_trans [OF malloc_ok_heap [OF m] h(1)] True e h(2) show ?thesis
      by (auto simp: algebra_simps intro!: exI [of _ "Suc n"])
  qed
qed

lemma append_plugins_step:
  "append_plugins env names ds w = Some (es, w') \<Longrightarrow>
     \<exists>ps. es = ds @ ps \<and> (\<forall>p \<in> set ps. drv_handle p \<noteq> None) \<and> heap_step (2 * int (length ps)) w w'"
proof (induction env names ds w arbitrary: es w' rule: append_plugins.induct)
  case (1 env ds w)
  then show ?case by simp
next
  case (2 env name names ds w)
  let ?path = "AO_PLUGIN_PATH env @ ''/'' @ name"
  obtain r v where g: "get_plugin env ?path w = (r, v)" by (cases "get_plugin env ?path w")
  note step = get_plugin_step [OF g]
  show ?case
  proof (cases "is_regular env ?path \<and> strrchr (CHR ''.'') name = Some SHARED_LIB_EXT")
    case False
    with "2.IH"(3) "2.prems" show ?thesis by (simp split: if_splits)
  next
    case True
    show ?thesis
    proof (cases r)
      case None
      with True "2.prems" g have "append_plugins env names ds v = Some (es, w')" by simp
      from "2.IH"(1) [OF refl True g [symmetric] None this] step None heap_step_trans show ?thesis
        by fastforce
    next
      case (Some p)
      with True "2.prems" g have a: "ds \<noteq> []" "append_plugins env names (ds @ [p]) v = Some (es, w')"
        by (auto split: if_splits)
      from "2.IH"(2) [OF refl True g [symmetric] Some a] obtain ps where
        ps: "es = (ds @ [p]) @ ps" "\<forall>p \<in> set ps. drv_handle p \<noteq> None"
          "heap_step (2 * int (length ps)) v w'" by blast
      have "drv_handle p \<noteq> None" using step Some by auto
      moreover have "heap_step (2 * int (length (p # ps))) w w'"
        using heap_step_trans [OF _ ps(3), of 2 w] step Some by (simp add: algebra_simps)
      ultimately show ?thesis using ps by (intro exI [of _ "p # ps"]) simp
    qed
  qed
qed

lemma append_dynamic_drivers_step:
  "append_dynamic_drivers env ds w = Some (es, w') \<Longrightarrow>
     \<exists>ps. es = ds @ ps \<and> (\<forall>p \<in> set ps. drv_handle p \<noteq> None) \<and> heap_step (2 * int (length ps)) w w'"
  using append_plugins_step by (auto simp: append_dynamic_drivers_def split: option.splits)

lemma make_info_table_step:
  assumes "make_info_table head w = Some (table, ds, n, w')"
  shows "heap_step (blocks table) w w'" "mset ds = mset head"
    "table \<noteq> None \<Longrightarrow> table = Some (map info_of ds) \<and> n = int (length ds) \<and>
       ds = qsort (compar_driver_priority (w_big_endian w)) head"
  using assms
  by (auto simp: make_info_table_def heap_step_def free_block_def off_heap_def
      split: prod.splits if_splits dest!: malloc_ok_heap)
    (auto dest: arg_cong [of _ _ w_big_endian])

end
