(* ===== verification/AO_Matrix.thy ===== *)
theory AO_Matrix
  imports AO_Types
begin

text \<open>
  Channel matrices: the strings such as \<open>L,R,C,LFE\<close> that name the channels of a stream, and the
  functions of \<^verbatim>\<open>src/audio_out.c\<close> that check them, take them apart and turn them into masks and
  permutations (\<open>_sanitize_matrix\<close>, \<open>_find_channel\<close>, \<open>_tokenize_matrix\<close>, \<open>_free_map\<close>,
  \<open>_matrix_to_channelmask\<close>, \<open>_channelmask_to_matrix\<close>, \<open>_channelmask_bits\<close>,
  \<open>_channelmask_maxbit\<close>, \<open>_matrix_intersect\<close>), with the loop of \<open>_open_device\<close> that builds
  \<open>inter_permute\<close>.

  The pointers \<open>p\<close> (start of a token) and \<open>h\<close> (its separator) are suffixes of the string.  The
  laws relate every loop to one view of a matrix: the list of its comma-separated tokens.
\<close>

section \<open>Operations\<close>

definition mnemonics :: "string list" where
  "mnemonics =
     [''X'', ''M'',
      ''L'', ''C'', ''R'', ''CL'', ''CR'', ''SL'', ''SR'', ''BL'', ''BC'', ''BR'', ''LFE'',
      ''A1'', ''A2'', ''A3'', ''A4'', ''A5'', ''A6'', ''A7'', ''A8'', ''A9'', ''A10'',
      ''A11'', ''A12'', ''A13'', ''A14'', ''A15'', ''A16'', ''A17'', ''A18'', ''A19'', ''A20'',
      ''A21'', ''A22'', ''A23'', ''A24'', ''A25'', ''A26'', ''A27'', ''A28'', ''A29'', ''A30'',
      ''A31'', ''A32'']"

text \<open>The test \<open>h-p && !strncmp(name,p,h-p) && strlen(name)==h-p\<close> of a token of \<open>n\<close> characters.\<close>

definition token_match :: "string \<Rightarrow> nat \<Rightarrow> string \<Rightarrow> bool" where
  "token_match p n name \<longleftrightarrow> n \<noteq> 0 \<and> strncmp_eq name p n \<and> length name = n"

text \<open>The loop of \<open>_sanitize_matrix\<close>; \<open>None\<close> is its exit for an unknown mnemonic.\<close>

function sanitize_loop :: "int \<Rightarrow> string \<Rightarrow> int \<Rightarrow> string \<Rightarrow> string option" where
  "sanitize_loop maxchannels p count ret =
     (if \<not> count < maxchannels then Some ret
      else
        let p = skip_space p;
            h = at_comma p;
            n = length (drop_trailing (to_comma p));
            m = search (token_match p n) mnemonics
        in if m = length mnemonics then None
           else
             let ret = (if count \<noteq> 0 then ret @ '','' else ret) @ mnemonics ! m
             in if h = [] then Some ret
                else sanitize_loop maxchannels (tl h) (count + 1) ret)"
  by pat_completeness auto
termination
  by (relation "measure (\<lambda>(_, p, _). length p)") (auto simp: comma_measure)

declare sanitize_loop.simps [simp del]

definition sanitize_matrix ::
  "int \<Rightarrow> string option \<Rightarrow> 'z world_scheme \<Rightarrow> string option \<times> 'z world_scheme" where
  "sanitize_matrix maxchannels matrix w = (case matrix of
      None \<Rightarrow> (None, w)
    | Some s \<Rightarrow>
        (case malloc_ok w of (ok, w) \<Rightarrow>
           if \<not> ok then (None, w)
           else (case sanitize_loop maxchannels s 0 '''' of
                   None \<Rightarrow> (None, free_block w)
                 | Some ret \<Rightarrow> (Some ret, w))))"

text \<open>
  \<open>_find_channel\<close>: the position of a channel name in a matrix.  The inner loop over the
  mnemonics tests a condition that does not depend on its index.  A \<open>needle\<close> past the table
  reads its terminating NULL.
\<close>

function find_channel_loop :: "string \<Rightarrow> string \<Rightarrow> int \<Rightarrow> int" where
  "find_channel_loop name p count =
     (let h = at_comma p;
          n = length (to_comma p);
          m = search (\<lambda>_. strncmp_eq name p n \<and> length name = n) mnemonics
      in if m < length mnemonics then count
         else if h = [] then -1
         else find_channel_loop name (tl h) (count + 1))"
  by pat_completeness auto
termination
  by (relation "measure (\<lambda>(_, p, _). length p)") (auto simp: comma_measure)

declare find_channel_loop.simps [simp del]

definition find_channel :: "nat \<Rightarrow> string \<Rightarrow> int option" where
  "find_channel needle haystack =
     (if needle = 0 then Some (-1)
      else if needle < length mnemonics
      then Some (find_channel_loop (mnemonics ! needle) haystack 0)
      else None)"

definition free_map :: "string list option \<Rightarrow> 'z world_scheme \<Rightarrow> 'z world_scheme" where
  "free_map m w = (case m of
      None \<Rightarrow> w
    | Some toks \<Rightarrow> free_block (fold (\<lambda>_. free_block) toks w))"

text \<open>\<open>_tokenize_matrix\<close> walks the string twice: once to count, once to copy.\<close>

function token_count :: "string \<Rightarrow> nat" where
  "token_count p =
     (let p = skip_space p; h = at_comma p
      in if h = [] then 1 else Suc (token_count (tl h)))"
  by pat_completeness auto
termination
  by (relation "measure length") (auto simp: comma_measure)

declare token_count.simps [simp del]

function tokenize_loop ::
  "string \<Rightarrow> string list \<Rightarrow> 'z world_scheme \<Rightarrow> string list option \<times> 'z world_scheme" where
  "tokenize_loop p ret w =
     (let p = skip_space p;
          h = at_comma p;
          tok = drop_trailing (to_comma p)
      in case malloc_ok w of (ok, w) \<Rightarrow>
           if \<not> ok then (None, free_map (Some ret) w)
           else if h = [] then (Some (ret @ [tok]), w)
           else tokenize_loop (tl h) (ret @ [tok]) w)"
  by pat_completeness auto
termination
  by (relation "measure (\<lambda>(p, _). length p)") (auto simp: comma_measure)

declare tokenize_loop.simps [simp del]

definition tokenize_matrix ::
  "string \<Rightarrow> 'z world_scheme \<Rightarrow> string list option \<times> 'z world_scheme" where
  "tokenize_matrix matrix w = (case malloc_ok w of (ok, w) \<Rightarrow>
     if \<not> ok then (None, w) else tokenize_loop matrix [] w)"

text \<open>
  \<open>_matrix_to_channelmask\<close>.  Shifting \<open>1\<close> by 32 or more and writing \<open>perm\<close> outside its \<open>ch\<close>
  cells are faults.  The result is the mask and \<open>*mout\<close>.  If the tokens cannot be allocated the
  mask is 0 and the cells of \<open>perm\<close> are not set; as every caller then gives up, their contents
  (here 0) are never read.
\<close>

function to_mask_loop ::
  "string list \<Rightarrow> string \<Rightarrow> nat \<Rightarrow> 32 word \<Rightarrow> int list \<Rightarrow> (32 word \<times> int list) option" where
  "to_mask_loop toks p i ret perm =
     (let h = at_comma p;
          m = search (token_match p (length (to_comma p))) toks
      in do {
        (ret, perm) \<leftarrow>
          (if m < length toks \<and> toks ! m \<noteq> ''X''
           then if m < 32 \<and> i < length perm
                then Some (ret OR push_bit m 1, perm[i := int m])
                else None
           else Some (ret, perm));
        (if h = [] then Some (ret, perm)
         else to_mask_loop toks (tl h) (Suc i) ret perm) })"
  by pat_completeness auto
termination
  by (relation "measure (\<lambda>(_, p, _). length p)") (auto simp: comma_measure)

declare to_mask_loop.simps [simp del]

definition matrix_to_channelmask ::
  "int \<Rightarrow> string \<Rightarrow> string \<Rightarrow> 'z world_scheme
    \<Rightarrow> (32 word \<times> int list option \<times> 'z world_scheme) option" where
  "matrix_to_channelmask ch matrix premap w =
     (case (if ch < 0 then (False, w) else malloc_ok w) of (ok, w) \<Rightarrow>
        if \<not> ok then Some (0, None, w)
        else (case tokenize_matrix premap w of
            (None, w) \<Rightarrow> Some (0, Some (replicate (nat ch) 0), w)
          | (Some toks, w) \<Rightarrow> do {
              (ret, perm) \<leftarrow> to_mask_loop toks matrix 0 0 (replicate (nat ch) (-1));
              Some (ret, Some perm, free_map (Some toks) w) }))"

text \<open>
  \<open>strcat\<close> onto \<open>char buffer[257]\<close>: at most 256 characters fit.
\<close>

definition buffer_cat :: "string \<Rightarrow> string \<Rightarrow> string option" where
  "buffer_cat buf s = (if length buf + length s \<le> 256 then Some (buf @ s) else None)"

definition buffer_add :: "int \<Rightarrow> string \<Rightarrow> string \<Rightarrow> string option" where
  "buffer_add count buf s = do {
     buf \<leftarrow> (if count \<noteq> 0 then buffer_cat buf '','' else Some buf);
     buffer_cat buf s }"

fun to_matrix_loop :: "32 word \<Rightarrow> nat \<Rightarrow> string list \<Rightarrow> int \<Rightarrow> string \<Rightarrow> string option" where
  "to_matrix_loop cmask m [] count buf = Some buf"
| "to_matrix_loop cmask m (tok # toks) count buf =
     (if \<not> m < 32 then None
      else if cmask AND push_bit m 1 \<noteq> 0 then do {
        buf \<leftarrow> buffer_add count buf tok;
        to_matrix_loop cmask (Suc m) toks (count + 1) buf }
      else to_matrix_loop cmask (Suc m) toks count buf)"

definition channelmask_to_matrix ::
  "32 word \<Rightarrow> string \<Rightarrow> 'z world_scheme \<Rightarrow> (string option \<times> 'z world_scheme) option" where
  "channelmask_to_matrix cmask premap w = (case tokenize_matrix premap w of
      (None, w) \<Rightarrow> Some (None, w)
    | (Some toks, w) \<Rightarrow> do {
        buf \<leftarrow> to_matrix_loop cmask 0 toks 0 '''';
        Some (strdup buf (free_map (Some toks) w)) })"

lemma word_half_less: "x \<noteq> 0 \<Longrightarrow> unat (x div 2) < unat (x :: 32 word)"
  by (simp add: unat_div unat_gt_0)

function channelmask_bits_loop :: "32 word \<Rightarrow> int \<Rightarrow> int" where
  "channelmask_bits_loop cmask count =
     (if cmask = 0 then count
      else channelmask_bits_loop (cmask div 2) (if cmask AND 1 \<noteq> 0 then count + 1 else count))"
  by pat_completeness auto
termination
  by (relation "measure (\<lambda>(cmask, _). unat cmask)") (auto simp: word_half_less)

declare channelmask_bits_loop.simps [simp del]

definition channelmask_bits :: "32 word \<Rightarrow> int" where
  "channelmask_bits cmask = channelmask_bits_loop cmask 0"

function channelmask_maxbit_loop :: "32 word \<Rightarrow> int \<Rightarrow> int \<Rightarrow> int" where
  "channelmask_maxbit_loop cmask count mx =
     (if cmask = 0 then mx
      else channelmask_maxbit_loop (cmask div 2) (count + 1)
             (if cmask AND 1 \<noteq> 0 then count else mx))"
  by pat_completeness auto
termination
  by (relation "measure (\<lambda>(cmask, _). unat cmask)") (auto simp: word_half_less)

declare channelmask_maxbit_loop.simps [simp del]

definition channelmask_maxbit :: "32 word \<Rightarrow> int" where
  "channelmask_maxbit cmask = channelmask_maxbit_loop cmask 0 (-1)"

function intersect_loop :: "string list \<Rightarrow> string \<Rightarrow> int \<Rightarrow> string \<Rightarrow> string option" where
  "intersect_loop toks p count buf =
     (let h = at_comma p;
          m = search (token_match p (length (to_comma p))) toks
      in do {
        (count, buf) \<leftarrow>
          (if m < length toks \<and> toks ! m \<noteq> ''X''
           then do { buf \<leftarrow> buffer_add count buf (toks ! m); Some (count + 1, buf) }
           else Some (count, buf));
        (if h = [] then Some buf else intersect_loop toks (tl h) count buf) })"
  by pat_completeness auto
termination
  by (relation "measure (\<lambda>(_, p, _). length p)") (auto simp: comma_measure)

declare intersect_loop.simps [simp del]

definition matrix_intersect ::
  "string \<Rightarrow> string \<Rightarrow> 'z world_scheme \<Rightarrow> (string option \<times> 'z world_scheme) option" where
  "matrix_intersect matrix premap w = (case tokenize_matrix premap w of
      (None, w) \<Rightarrow> Some (None, w)
    | (Some toks, w) \<Rightarrow> do {
        buf \<leftarrow> intersect_loop toks matrix 0 '''';
        Some (strdup buf (free_map (Some toks) w)) })"

text \<open>
  The loop of \<open>_open_device\<close> that walks the backend's matrix (\<open>op\<close>) and looks every channel up
  in the input matrix.  The mnemonic of the backend channel is found by comparing only the
  characters of the token (a prefix test).  A mono input falls back to its \<open>M\<close>.
\<close>

definition permute_entry :: "string \<Rightarrow> string \<Rightarrow> int \<Rightarrow> int option" where
  "permute_entry op in_matrix in_channels =
     (let m = search (\<lambda>mn. strncmp_eq mn op (length (to_comma op))) mnemonics
      in do {
        c \<leftarrow> find_channel m in_matrix;
        (if c = -1 \<and> in_channels = 1 then find_channel 1 in_matrix else Some c) })"

fun permute_loop :: "nat \<Rightarrow> string \<Rightarrow> string \<Rightarrow> int \<Rightarrow> int list option" where
  "permute_loop 0 op in_matrix in_channels = Some []"
| "permute_loop (Suc left) op in_matrix in_channels = do {
     c \<leftarrow> (if op \<noteq> [] then permute_entry op in_matrix in_channels else Some (-1));
     let h = (if op \<noteq> [] then at_comma op else op);
     cs \<leftarrow> permute_loop left (if h \<noteq> [] then tl h else h) in_matrix in_channels;
     Some (c # cs) }"

end
