(* ===== verification/AO_Matrix_Laws.thy ===== *)
theory AO_Matrix_Laws
  imports AO_Matrix
begin

text \<open>
  What the matrix functions compute, stated on the list of tokens of a matrix: \<open>_sanitize_matrix\<close>
  and \<open>_tokenize_matrix\<close> are the declarative split, trim and join, the masks and permutations are
  positions in token lists, the fixed buffers are large enough for the matrices libao makes.
\<close>

section \<open>Tokens\<close>

function tokens :: "string \<Rightarrow> string list" where
  "tokens p = to_comma p # (if at_comma p = [] then [] else tokens (tl (at_comma p)))"
  by pat_completeness auto
termination
  by (relation "measure length") (auto simp: comma_measure)

declare tokens.simps [simp del]

fun join :: "string list \<Rightarrow> string" where
  "join [] = ''''"
| "join [t] = t"
| "join (t # u # ts) = t @ '','' @ join (u # ts)"

definition strip :: "string \<Rightarrow> string" where
  "strip t = drop_trailing (skip_space t)"

lemma tokens_not_Nil [simp]: "tokens p \<noteq> []"
  by (subst tokens.simps) simp

lemma tokens_no_comma: "t \<in> set (tokens p) \<Longrightarrow> CHR '','' \<notin> set t"
  by (induction p arbitrary: t rule: tokens.induct)
     (subst (asm) tokens.simps, auto simp: to_comma_no_comma split: if_splits)

lemma tokens_single: "CHR '','' \<notin> set t \<Longrightarrow> tokens t = [t]"
  by (subst tokens.simps) (simp add: at_comma_none to_comma_none)

lemma tokens_Cons: "CHR '','' \<notin> set t \<Longrightarrow> tokens (t @ CHR '','' # r) = t # tokens r"
  by (subst tokens.simps) (simp add: at_comma_append to_comma_append)

lemma tokens_join: "ts \<noteq> [] \<Longrightarrow> \<forall>t \<in> set ts. CHR '','' \<notin> set t \<Longrightarrow> tokens (join ts) = ts"
  by (induction ts rule: join.induct) (auto simp: tokens_single tokens_Cons)

lemma join_tokens: "join (tokens p) = p"
proof (induction p rule: tokens.induct)
  case (1 p)
  show ?case
  proof (cases "at_comma p = []")
    case True
    then show ?thesis
      using to_comma_at_comma [of p] by (simp add: tokens.simps [of p])
  next
    case False
    then obtain u us where u: "tokens (tl (at_comma p)) = u # us"
      by (cases "tokens (tl (at_comma p))") auto
    have "join (tokens p) = to_comma p @ '','' @ tl (at_comma p)"
      using False 1 u by (simp add: tokens.simps [of p])
    also have "\<dots> = p"
      using at_comma_Cons [OF False] to_comma_at_comma [of p] by (metis append_Cons append_Nil)
    finally show ?thesis .
  qed
qed

lemma length_join: "ts \<noteq> [] \<Longrightarrow> length (join ts) + 1 = (\<Sum>t\<leftarrow>ts. length t + 1)"
  by (induction ts rule: join.induct) auto

lemma skip_space_to_comma: "to_comma (skip_space p) = skip_space (to_comma p)"
  by (induction p) (auto simp: to_comma_def skip_space_def)

lemma skip_space_at_comma: "at_comma (skip_space p) = at_comma p"
  by (induction p) (auto simp: at_comma_def skip_space_def)

text \<open>The token the loops cut out at \<open>p\<close>, and the test of a name against it.\<close>

lemma token_match_iff:
  assumes "take n p = t" and "length t = n"
  shows "token_match p n name \<longleftrightarrow> t \<noteq> [] \<and> name = t"
  using strncmp_token_eq [OF assms, of name] assms(2) by (auto simp: token_match_def)

lemma token_match_plain:
  "token_match p (length (to_comma p)) = (\<lambda>name. to_comma p \<noteq> [] \<and> name = to_comma p)"
  using token_match_iff [OF take_to_comma refl] by (intro ext) auto

lemma token_match_strip:
  "token_match (skip_space p) (length (drop_trailing (to_comma (skip_space p)))) =
   (\<lambda>name. strip (to_comma p) \<noteq> [] \<and> name = strip (to_comma p))"
  using token_match_iff [OF take_drop_trailing refl, of "skip_space p"]
  by (intro ext) (auto simp: strip_def skip_space_to_comma)

lemma mnemonics_facts:
  "length mnemonics = 45" "distinct mnemonics"
  "\<forall>t \<in> set mnemonics. t \<noteq> [] \<and> CHR '','' \<notin> set t \<and> strip t = t \<and> length t \<le> 3"
  "mnemonics ! 0 = ''X''" "mnemonics ! 1 = ''M''"
  by (simp_all add: mnemonics_def strip_def drop_trailing_def skip_space_def isspace_def)

lemma search_name:
  "t \<in> set xs \<Longrightarrow> search (\<lambda>name. t \<noteq> [] \<and> name = t) xs = (if t = [] then length xs else search (\<lambda>y. y = t) xs)"
  using search_eq_length_iff [of "\<lambda>name. t \<noteq> [] \<and> name = t" xs] by auto

section \<open>Sanitizing\<close>

text \<open>The declarative reading of \<open>_sanitize_matrix\<close>: the first \<open>n\<close> tokens, stripped, if all are names.\<close>

definition sanitized :: "int \<Rightarrow> string \<Rightarrow> string option" where
  "sanitized n s =
     (let ts = take (nat n) (map strip (tokens s))
      in if set ts \<subseteq> set mnemonics then Some (join ts) else None)"

lemma sanitize_loop_eq:
  "count \<ge> 0 \<Longrightarrow>
   sanitize_loop maxchannels p count ret =
     (let ts = take (nat (maxchannels - count)) (map strip (tokens p))
      in if set ts \<subseteq> set mnemonics
         then Some (if ts = [] then ret else (if count \<noteq> 0 then ret @ '','' else ret) @ join ts)
         else None)"
proof (induction maxchannels p count ret rule: sanitize_loop.induct)
  case (1 maxchannels p count ret)
  let ?t = "strip (to_comma p)"
  let ?m = "search (\<lambda>name. ?t \<noteq> [] \<and> name = ?t) mnemonics"
  let ?h = "at_comma p"
  show ?case
  proof (cases "count < maxchannels")
    case False
    then show ?thesis by (simp add: sanitize_loop.simps [of _ p])
  next
    case lt: True
    then obtain k where k: "nat (maxchannels - count) = Suc k" "nat (maxchannels - (count + 1)) = k"
      by (metis (no_types, lifting) Suc_nat_eq_nat_zadd1 add.commute diff_add_cancel
          diff_diff_eq2 diff_ge_0_iff_ge int_one_le_iff_zero_less zero_less_diff diff_diff_add
          add_diff_cancel_left' zle_diff1_eq zle_add1_eq_le)
    show ?thesis
    proof (cases "?t \<in> set mnemonics")
      case False
      then have "?m = length mnemonics" by (auto simp: search_eq_length_iff)
      with lt k False show ?thesis
        by (simp add: sanitize_loop.simps [of _ p] token_match_strip tokens.simps [of p])
    next
      case True
      then have m: "?m < length mnemonics" "mnemonics ! ?m = ?t"
        using mnemonics_facts(3) search_hit [of "\<lambda>name. ?t \<noteq> [] \<and> name = ?t" mnemonics]
        by (auto simp: search_lt_iff)
      let ?ret = "(if count \<noteq> 0 then ret @ '','' else ret) @ ?t"
      have step: "sanitize_loop maxchannels p count ret =
        (if ?h = [] then Some ?ret else sanitize_loop maxchannels (tl ?h) (count + 1) ?ret)"
        using lt m by (simp add: sanitize_loop.simps [of _ p] token_match_strip skip_space_at_comma)
      show ?thesis
      proof (cases "?h = []")
        case True
        with step k \<open>?t \<in> set mnemonics\<close> show ?thesis by (simp add: tokens.simps [of p])
      next
        case False
        let ?ts = "take k (map strip (tokens (tl ?h)))"
        have "sanitize_loop maxchannels (tl ?h) (count + 1) ?ret =
          (if set ?ts \<subseteq> set mnemonics
           then Some (if ?ts = [] then ?ret else ?ret @ '','' @ join ?ts) else None)"
          using "1.IH" [of "skip_space p" ?h "length (drop_trailing (to_comma (skip_space p)))" ?m ?ret]
            lt m False "1.prems" k
          by (simp add: token_match_strip skip_space_at_comma)
        moreover have "join (?t # ?ts) = (if ?ts = [] then ?t else ?t @ '','' @ join ?ts)"
          by (cases ?ts) auto
        ultimately show ?thesis
          using step False k \<open>?t \<in> set mnemonics\<close> by (simp add: tokens.simps [of p])
      qed
    qed
  qed
qed

lemma sanitize_loop_sanitized: "sanitize_loop n s 0 '''' = sanitized n s"
  by (auto simp: sanitize_loop_eq sanitized_def)

lemma sanitize_matrix_plenty:
  "w_allocs w = [] \<Longrightarrow>
   sanitize_matrix n (Some s) w =
     (sanitized n s,
      w\<lparr>w_live := w_live w + blocks (sanitized n s)\<rparr>)"
  by (auto simp: sanitize_matrix_def sanitize_loop_sanitized free_block_def split: option.splits)

lemma sanitize_matrix_heap:
  assumes "sanitize_matrix n m w = (r, w')"
  shows "heap_step (blocks r) w w'"
proof (cases m)
  case None
  with assms show ?thesis by (auto simp: sanitize_matrix_def)
next
  case (Some s)
  with assms show ?thesis
    by (cases "sanitize_loop n s 0 ''''")
       (auto simp: sanitize_matrix_def heap_step_def free_block_def off_heap_def
        split: prod.splits if_splits dest!: malloc_ok_heap, (metis blocks_simps(2))+)
qed

lemma sanitize_matrix_Some:
  assumes "sanitize_matrix n m w = (Some r, w')"
  obtains s where "m = Some s" "sanitized n s = Some r"
  using assms
  by (auto simp: sanitize_matrix_def sanitize_loop_sanitized
      split: option.splits prod.splits if_splits)

text \<open>
  The result buffer of \<open>_sanitize_matrix\<close> has the length of the input and one byte for NUL; it
  "can only get smaller".
\<close>

lemma length_strip_le: "length (strip t) \<le> length t"
  unfolding strip_def using length_drop_trailing_le length_skip_space_le le_trans by blast

lemma sum_list_take_le: "sum_list (take n (xs :: nat list)) \<le> sum_list xs"
  using sum_list_append [of "take n xs" "drop n xs"] by simp

lemma sanitized_length: "sanitized n s = Some r \<Longrightarrow> length r \<le> length s"
proof -
  assume r: "sanitized n s = Some r"
  let ?ts = "take (nat n) (map strip (tokens s))"
  have "r = join ?ts" using r by (auto simp: sanitized_def split: if_splits)
  moreover have "length (join ?ts) \<le> length s"
  proof (cases "?ts = []")
    case False
    have "length (join ?ts) + 1 = sum_list (take (nat n) (map (\<lambda>t. length (strip t) + 1) (tokens s)))"
      using length_join [OF False] by (simp add: take_map comp_def)
    also have "\<dots> \<le> sum_list (map (\<lambda>t. length (strip t) + 1) (tokens s))"
      by (rule sum_list_take_le)
    also have "\<dots> \<le> sum_list (map (\<lambda>t. length t + 1) (tokens s))"
      by (rule sum_list_mono) (simp add: length_strip_le)
    also have "\<dots> = length s + 1"
      using length_join [of "tokens s"] by (simp add: join_tokens)
    finally show ?thesis by simp
  qed simp
  ultimately show ?thesis by simp
qed

text \<open>A sanitized matrix is a list of mnemonics; with a channel to name it has at least one token.\<close>

definition clean_matrix :: "int \<Rightarrow> string \<Rightarrow> bool" where
  "clean_matrix n s \<longleftrightarrow>
     s = '''' \<or> set (tokens s) \<subseteq> set mnemonics \<and> int (length (tokens s)) \<le> n"

lemma set_strip_tokens: "set ts \<subseteq> set mnemonics \<Longrightarrow> map strip ts = ts"
  using mnemonics_facts(3) by (intro map_idI) auto

lemma sanitized_clean:
  assumes "sanitized n s = Some r"
  shows "clean_matrix n r"
    and "0 < n \<Longrightarrow> tokens r = take (nat n) (map strip (tokens s)) \<and> r \<noteq> ''''"
proof -
  let ?ts = "take (nat n) (map strip (tokens s))"
  have r: "r = join ?ts" "set ?ts \<subseteq> set mnemonics"
    using assms by (auto simp: sanitized_def split: if_splits)
  have *: "tokens r = ?ts \<and> r \<noteq> ''''" if "0 < n"
  proof -
    have ne: "?ts \<noteq> []" using that by simp
    have "\<forall>t \<in> set ?ts. CHR '','' \<notin> set t" using r(2) mnemonics_facts(3) by blast
    with ne have t: "tokens r = ?ts" unfolding r(1) by (rule tokens_join)
    have "hd ?ts \<in> set mnemonics" using ne r(2) hd_in_set by blast
    then have "hd (tokens r) \<noteq> ''''" using t mnemonics_facts(3) by metis
    moreover have "tokens '''' = ['''']" by (simp add: tokens_single)
    ultimately show ?thesis using t by auto
  qed
  then show "0 < n \<Longrightarrow> tokens r = ?ts \<and> r \<noteq> ''''" by blast
  show "clean_matrix n r"
  proof (cases "0 < n")
    case True
    with * r(2) show ?thesis by (auto simp: clean_matrix_def min_def)
  next
    case False
    with r(1) show ?thesis by (simp add: clean_matrix_def)
  qed
qed

text \<open>Sanitizing is idempotent.\<close>

lemma sanitized_idem:
  assumes "sanitized n s = Some r" and "0 < n"
  shows "sanitized n r = Some r"
proof -
  let ?ts = "take (nat n) (map strip (tokens s))"
  have t: "tokens r = ?ts" using sanitized_clean(2) [OF assms] by blast
  have r: "r = join ?ts" "set ?ts \<subseteq> set mnemonics"
    using assms(1) by (auto simp: sanitized_def split: if_splits)
  have "take (nat n) (map strip (tokens r)) = ?ts"
    unfolding t using set_strip_tokens [OF r(2)] by simp
  with r show ?thesis by (simp add: sanitized_def)
qed

section \<open>Tokenizing and searching\<close>

definition map_blocks :: "string list option \<Rightarrow> int" where
  "map_blocks m = (case m of None \<Rightarrow> 0 | Some toks \<Rightarrow> 1 + int (length toks))"

lemma fold_free_block_heap: "heap_step (- int (length ts)) w (fold (\<lambda>_. free_block) ts w)"
proof (induction ts arbitrary: w)
  case Nil
  then show ?case by simp
next
  case (Cons t ts)
  then show ?case
    using heap_step_trans [OF free_block_heap [of w] Cons.IH [of "free_block w"]] by simp
qed

lemma free_map_heap: "heap_step (- map_blocks m) w (free_map m w)"
proof (cases m)
  case None
  then show ?thesis by (simp add: free_map_def map_blocks_def)
next
  case (Some toks)
  then show ?thesis
    using heap_step_trans [OF fold_free_block_heap [of toks w] free_block_heap]
    by (simp add: free_map_def map_blocks_def algebra_simps)
qed

lemma token_count_eq: "token_count p = length (tokens p)"
proof (induction p rule: tokens.induct)
  case (1 p)
  then show ?case
    by (simp add: token_count.simps [of p] tokens.simps [of p] skip_space_at_comma)
qed

lemma strip_to_comma: "drop_trailing (to_comma (skip_space p)) = strip (to_comma p)"
  by (simp add: strip_def skip_space_to_comma)

lemma tokenize_loop_heap:
  assumes "tokenize_loop p ret w = (r, w')"
  shows "heap_step (map_blocks r - map_blocks (Some ret)) w w' \<and>
         (r = None \<or> r = Some (ret @ map strip (tokens p)))"
  using assms
proof (induction p arbitrary: ret w rule: tokens.induct)
  case (1 p)
  obtain ok v where m: "malloc_ok w = (ok, v)" by (cases "malloc_ok w")
  note h = malloc_ok_heap [OF m]
  consider (fail) "\<not> ok" | (last) "ok" "at_comma p = []" | (more) "ok" "at_comma p \<noteq> []" by blast
  then show ?case
  proof cases
    case fail
    then show ?thesis
      using "1.prems" m h free_map_heap [of "Some ret" v]
      by (auto simp: tokenize_loop.simps [of p] heap_step_def map_blocks_def)
  next
    case last
    then show ?thesis
      using "1.prems" m h
      by (auto simp: tokenize_loop.simps [of p] tokens.simps [of p] heap_step_def map_blocks_def
          skip_space_at_comma strip_to_comma)
  next
    case more
    then have "tokenize_loop (tl (at_comma p)) (ret @ [strip (to_comma p)]) v = (r, w')"
      using "1.prems" m by (simp add: tokenize_loop.simps [of p] skip_space_at_comma strip_to_comma)
    from "1.IH" [OF more(2) this] show ?thesis
      using h more by (auto simp: tokens.simps [of p] heap_step_def map_blocks_def)
  qed
qed

lemma tokenize_loop_plenty:
  "w_allocs w = [] \<Longrightarrow> \<exists>w'. tokenize_loop p ret w = (Some (ret @ map strip (tokens p)), w')"
proof (induction p arbitrary: ret w rule: tokens.induct)
  case (1 p)
  show ?case
  proof (cases "at_comma p = []")
    case True
    with "1.prems" show ?thesis
      by (simp add: tokenize_loop.simps [of p] tokens.simps [of p] skip_space_at_comma strip_to_comma)
  next
    case False
    from "1.IH" [OF this, of "w\<lparr>w_live := w_live w + 1\<rparr>" "ret @ [strip (to_comma p)]"]
    show ?thesis using False "1.prems"
      by (simp add: tokenize_loop.simps [of p] tokens.simps [of p] skip_space_at_comma strip_to_comma)
  qed
qed

lemma tokenize_matrix_heap:
  assumes "tokenize_matrix s w = (r, w')"
  shows "heap_step (map_blocks r) w w' \<and> (r = None \<or> r = Some (map strip (tokens s)))"
proof -
  obtain ok v where m: "malloc_ok w = (ok, v)" by (cases "malloc_ok w")
  show ?thesis
  proof (cases ok)
    case True
    then have "tokenize_loop s [] v = (r, w')"
      using assms m by (simp add: tokenize_matrix_def)
    from tokenize_loop_heap [OF this] show ?thesis
      using malloc_ok_heap [OF m] True by (auto simp: heap_step_def map_blocks_def)
  next
    case False
    then show ?thesis
      using assms m malloc_ok_heap [OF m]
      by (auto simp: tokenize_matrix_def map_blocks_def)
  qed
qed

lemma tokenize_matrix_plenty:
  assumes "w_allocs w = []"
  obtains w' where "tokenize_matrix s w = (Some (map strip (tokens s)), w')" "w_allocs w' = []"
proof -
  obtain w' where w': "tokenize_loop s [] (w\<lparr>w_live := w_live w + 1\<rparr>)
      = (Some (map strip (tokens s)), w')"
    using tokenize_loop_plenty [of "w\<lparr>w_live := w_live w + 1\<rparr>" s "[]"] assms by auto
  then have "tokenize_matrix s w = (Some (map strip (tokens s)), w')"
    using assms by (simp add: tokenize_matrix_def)
  moreover have "w_allocs w' = []"
    using tokenize_matrix_heap [OF calculation] assms by (auto simp: heap_step_def)
  ultimately show ?thesis using that by blast
qed

text \<open>The first position of a name in a token list, -1 if it is not there.\<close>

definition position :: "string \<Rightarrow> string list \<Rightarrow> int" where
  "position t ts = (if t \<in> set ts then int (search (\<lambda>u. u = t) ts) else -1)"

lemma position_Cons: "position t (u # ts) =
    (if u = t then 0 else if position t ts = -1 then -1 else position t ts + 1)"
  by (auto simp: position_def)

lemma position_nth: "position t ts = int k \<Longrightarrow> k < length ts \<and> ts ! k = t"
  using search_lt_iff [of "\<lambda>u. u = t" ts] search_eq_nth [of t ts]
  by (auto simp: position_def split: if_splits)

lemma position_ge: "-1 \<le> position t ts"
  by (simp add: position_def)

lemma position_lt: "position t ts < int (length ts) \<or> ts = []"
  using search_lt_iff [of "\<lambda>u. u = t" ts] by (auto simp: position_def)

lemma search_const: "search (\<lambda>_. c) mnemonics = (if c then 0 else length mnemonics)"
  by (simp add: mnemonics_def)

lemma find_channel_loop_eq:
  "find_channel_loop name p count =
     (let k = position name (tokens p) in if k = -1 then -1 else count + k)"
proof (induction name p count rule: find_channel_loop.induct)
  case (1 name p count)
  have test: "strncmp_eq name p (length (to_comma p)) \<and> length name = length (to_comma p)
      \<longleftrightarrow> name = to_comma p"
    using strncmp_token_eq [OF take_to_comma refl] .
  show ?case
  proof (cases "name = to_comma p \<or> at_comma p = []")
    case True
    then show ?thesis
      by (auto simp: find_channel_loop.simps [of name p] tokens.simps [of p] test search_const
          position_def mnemonics_facts(1))
  next
    case False
    with 1 have "find_channel_loop name (tl (at_comma p)) (count + 1) =
      (let k = position name (tokens (tl (at_comma p))) in if k = -1 then -1 else count + 1 + k)"
      by (simp add: test search_const)
    with False position_ge [of name "tokens (tl (at_comma p))"] show ?thesis
      by (auto simp: find_channel_loop.simps [of name p] tokens.simps [of p] test search_const
          position_Cons)
  qed
qed

lemma find_channel_eq:
  "needle < 45 \<Longrightarrow>
   find_channel needle s =
     Some (if needle = 0 then -1 else position (mnemonics ! needle) (tokens s))"
  by (simp add: find_channel_def mnemonics_facts(1) find_channel_loop_eq)

section \<open>Masks and permutations\<close>

text \<open>The place of a channel in a backend's list of names; \<open>X\<close> and the empty token have none.\<close>

definition slot :: "string list \<Rightarrow> string \<Rightarrow> int" where
  "slot toks t = (if t = '''' \<or> t = ''X'' then -1 else position t toks)"

fun mask_of :: "string list \<Rightarrow> string list \<Rightarrow> 32 word" where
  "mask_of toks [] = 0"
| "mask_of toks (t # ts) =
     (if slot toks t = -1 then 0 else push_bit (nat (slot toks t)) 1) OR mask_of toks ts"

lemma slot_ge: "-1 \<le> slot toks t"
  by (simp add: slot_def position_ge)

lemma slot_bounds: "slot toks t \<noteq> -1 \<Longrightarrow> 0 \<le> slot toks t \<and> nat (slot toks t) < length toks"
  using position_nth [of t toks "nat (position t toks)"] position_ge [of t toks]
  by (auto simp: slot_def split: if_splits)

lemma slot_nth: "slot toks t \<noteq> -1 \<Longrightarrow> toks ! nat (slot toks t) = t"
  using position_nth [of t toks "nat (position t toks)"] position_ge [of t toks]
  by (auto simp: slot_def split: if_splits)

text \<open>The search of the loops over the backend's names.\<close>

lemma search_slot:
  fixes toks p
  defines "m \<equiv> search (token_match p (length (to_comma p))) toks"
  shows "m < length toks \<and> toks ! m \<noteq> ''X'' \<longleftrightarrow> slot toks (to_comma p) \<noteq> -1"
    and "slot toks (to_comma p) \<noteq> -1 \<Longrightarrow> int m = slot toks (to_comma p)"
proof -
  let ?t = "to_comma p"
  have m: "m = search (\<lambda>name. ?t \<noteq> [] \<and> name = ?t) toks"
    by (simp add: m_def token_match_plain)
  have hit: "m < length toks \<Longrightarrow> toks ! m = ?t \<and> ?t \<noteq> []"
    unfolding m using search_hit by fastforce
  have eq: "?t \<noteq> [] \<Longrightarrow> m = search (\<lambda>y. y = ?t) toks" unfolding m by simp
  show "m < length toks \<and> toks ! m \<noteq> ''X'' \<longleftrightarrow> slot toks ?t \<noteq> -1"
  proof
    assume a: "m < length toks \<and> toks ! m \<noteq> ''X''"
    then have "?t \<in> set toks" "?t \<noteq> []" "?t \<noteq> ''X''" using hit nth_mem by metis+
    then show "slot toks ?t \<noteq> -1" by (simp add: slot_def position_def)
  next
    assume "slot toks ?t \<noteq> -1"
    then have "?t \<in> set toks" "?t \<noteq> []" "?t \<noteq> ''X''"
      by (auto simp: slot_def position_def split: if_splits)
    then show "m < length toks \<and> toks ! m \<noteq> ''X''"
      using hit unfolding m by (auto simp: search_lt_iff)
  qed
  show "slot toks ?t \<noteq> -1 \<Longrightarrow> int m = slot toks ?t"
    using eq by (auto simp: slot_def position_def split: if_splits)
qed

lemma to_mask_loop_step:
  assumes "length toks \<le> 32" and "i < length perm"
  shows "to_mask_loop toks p i ret perm =
    (let s = slot toks (to_comma p);
         ret = (if s = -1 then ret else ret OR push_bit (nat s) 1);
         perm = (if s = -1 then perm else perm[i := s])
     in if at_comma p = [] then Some (ret, perm)
        else to_mask_loop toks (tl (at_comma p)) (Suc i) ret perm)"
proof -
  let ?m = "search (token_match p (length (to_comma p))) toks"
  note eq = to_mask_loop.simps [of toks p i ret perm, unfolded Let_def]
  show ?thesis
  proof (cases "slot toks (to_comma p) = -1")
    case True
    then have miss: "\<not> (?m < length toks \<and> toks ! ?m \<noteq> ''X'')" using search_slot(1) by blast
    show ?thesis unfolding eq if_not_P [OF miss] using True by simp
  next
    case False
    then have hit: "?m < length toks \<and> toks ! ?m \<noteq> ''X''" "int ?m = slot toks (to_comma p)"
      using search_slot by blast+
    then have "?m < 32 \<and> i < length perm" "nat (slot toks (to_comma p)) = ?m"
      using assms by linarith+
    then show ?thesis unfolding eq if_P [OF hit(1)] using False hit(2) by simp
  qed
qed

lemma to_mask_loop_eq:
  assumes "length toks \<le> 32"
  shows "length (tokens p) \<le> k \<Longrightarrow>
   to_mask_loop toks p (length done) ret (done @ replicate k (-1)) =
     Some (ret OR mask_of toks (tokens p),
           done @ map (slot toks) (tokens p) @ replicate (k - length (tokens p)) (-1))"
proof (induction p arbitrary: k ret "done" rule: tokens.induct)
  case (1 p)
  let ?s = "slot toks (to_comma p)" and ?q = "tl (at_comma p)"
  obtain k' where k: "k = Suc k'" using "1.prems" by (cases k) (auto simp: tokens.simps [of p])
  let ?ret = "if ?s = -1 then ret else ret OR push_bit (nat ?s) 1"
  have upd: "(if ?s = -1 then done @ replicate k (-1) else (done @ replicate k (-1))[length done := ?s])
      = (done @ [?s]) @ replicate k' (-1)"
    using k by (simp add: list_update_append)
  have step: "to_mask_loop toks p (length done) ret (done @ replicate k (-1)) =
      (if at_comma p = [] then Some (?ret, (done @ [?s]) @ replicate k' (-1))
       else to_mask_loop toks ?q (length (done @ [?s])) ?ret ((done @ [?s]) @ replicate k' (-1)))"
    using to_mask_loop_step [OF assms, of "length done" "done @ replicate k (-1)" p ret] upd k
    by simp
  show ?case
  proof (cases "at_comma p = []")
    case True
    then show ?thesis using step k by (simp add: tokens.simps [of p])
  next
    case False
    have "length (tokens ?q) \<le> k'" using "1.prems" False k by (simp add: tokens.simps [of p])
    from "1.IH" [OF False this, of "done @ [?s]" ?ret] show ?thesis
      using step False k by (simp add: tokens.simps [of p] or.assoc)
  qed
qed

lemma bit_mask_of:
  "b < 32 \<Longrightarrow> bit (mask_of toks ts) b \<longleftrightarrow> (\<exists>t \<in> set ts. slot toks t = int b)"
proof (induction ts)
  case Nil
  then show ?case by simp
next
  case (Cons t ts)
  have "bit (if slot toks t = -1 then 0 else push_bit (nat (slot toks t)) (1 :: 32 word)) b
      \<longleftrightarrow> slot toks t = int b"
    using Cons.prems slot_ge [of toks t]
    by (auto simp: bit_simps bit_1_iff)
  then show ?case using Cons by (simp add: bit_or_iff)
qed

section \<open>Counting mask bits\<close>

definition bit_set :: "32 word \<Rightarrow> nat set" where
  "bit_set x = {b. bit x b}"

lemma bit_set_finite [simp]: "finite (bit_set x)"
  unfolding bit_set_def by simp

lemma bit_set_less: "b \<in> bit_set x \<Longrightarrow> b < 32"
  using bit_imp_le_length [of x b] by (simp add: bit_set_def)

lemma bit_set_empty_iff: "bit_set x = {} \<longleftrightarrow> x = 0"
proof
  assume "bit_set x = {}"
  then have "\<not> bit x n" for n by (auto simp: bit_set_def)
  then show "x = 0" by (simp add: bit_eq_iff)
qed (simp add: bit_set_def)

lemma bit_set_half:
  "bit_set x = (if x AND 1 \<noteq> 0 then insert 0 (Suc ` bit_set (x div 2)) else Suc ` bit_set (x div 2))"
proof -
  have half: "bit (x div 2) b = bit x (Suc b)" for b by (simp add: bit_Suc)
  have low: "x AND 1 \<noteq> 0 \<longleftrightarrow> bit x 0" by (simp add: and_one_eq odd_iff_mod_2_eq_one bit_0)
  have "b \<in> bit_set x \<longleftrightarrow> (b = 0 \<and> bit x 0) \<or> b \<in> Suc ` bit_set (x div 2)" for b
    by (cases b) (auto simp: bit_set_def half)
  then show ?thesis by (auto simp: low)
qed

lemma channelmask_bits_loop_eq:
  "channelmask_bits_loop x count = count + int (card (bit_set x))"
proof (induction x count rule: channelmask_bits_loop.induct)
  case (1 x count)
  show ?case
  proof (cases "x = 0")
    case True
    then show ?thesis
      using bit_set_empty_iff [of x] by (subst channelmask_bits_loop.simps) simp
  next
    case False
    have c: "card (bit_set x) = (if x AND 1 \<noteq> 0 then 1 else 0) + card (bit_set (x div 2))"
      by (subst bit_set_half) (auto simp: card_insert_if card_image)
    have "channelmask_bits_loop x count =
        channelmask_bits_loop (x div 2) (if x AND 1 \<noteq> 0 then count + 1 else count)"
      using False by (subst channelmask_bits_loop.simps) simp
    with "1.IH" [OF False] c show ?thesis by simp
  qed
qed

lemma channelmask_bits_card: "channelmask_bits x = int (card (bit_set x))"
  by (simp add: channelmask_bits_def channelmask_bits_loop_eq)

lemma channelmask_maxbit_loop_eq:
  "channelmask_maxbit_loop x count mx = (if x = 0 then mx else count + int (Max (bit_set x)))"
proof (induction x count mx rule: channelmask_maxbit_loop.induct)
  case (1 x count mx)
  show ?case
  proof (cases "x = 0")
    case True
    then show ?thesis by (subst channelmask_maxbit_loop.simps) simp
  next
    case False
    let ?h = "x div 2"
    have step: "channelmask_maxbit_loop x count mx =
        channelmask_maxbit_loop ?h (count + 1) (if x AND 1 \<noteq> 0 then count else mx)"
      using False by (subst channelmask_maxbit_loop.simps) simp
    show ?thesis
    proof (cases "?h = 0")
      case True
      then have "bit_set x = (if x AND 1 \<noteq> 0 then {0} else {})"
        using bit_set_half [of x] bit_set_empty_iff [of ?h] by auto
      with False bit_set_empty_iff [of x] have "x AND 1 \<noteq> 0 \<and> bit_set x = {0}"
        by (auto split: if_splits)
      with True step "1.IH" [OF False] False show ?thesis by simp
    next
      case half: False
      then have ne: "bit_set ?h \<noteq> {}" by (simp add: bit_set_empty_iff)
      have mono: "Max (Suc ` bit_set ?h) = Suc (Max (bit_set ?h))"
        using ne mono_Max_commute [of Suc "bit_set ?h"] by (simp add: mono_def)
      have "Max (bit_set x) = Suc (Max (bit_set ?h))"
        by (subst bit_set_half) (use ne mono in \<open>auto simp: Max_insert\<close>)
      with step "1.IH" [OF False] half False show ?thesis by simp
    qed
  qed
qed

lemma channelmask_maxbit_Max:
  "channelmask_maxbit x = (if x = 0 then -1 else int (Max (bit_set x)))"
  by (simp add: channelmask_maxbit_def channelmask_maxbit_loop_eq)

lemma channelmask_maxbit_bounds: "-1 \<le> channelmask_maxbit x \<and> channelmask_maxbit x < 32"
proof (cases "x = 0")
  case False
  then have "Max (bit_set x) \<in> bit_set x" by (simp add: bit_set_empty_iff)
  then show ?thesis using bit_set_less by (fastforce simp: channelmask_maxbit_Max)
qed (simp add: channelmask_maxbit_Max)

lemma channelmask_bits_bounds: "0 \<le> channelmask_bits x \<and> channelmask_bits x \<le> 32"
proof -
  have "bit_set x \<subseteq> {..<32}" using bit_set_less by auto
  then have "card (bit_set x) \<le> 32" using card_mono [of "{..<32}" "bit_set x"] by simp
  then show ?thesis by (simp add: channelmask_bits_card)
qed

section \<open>The fixed string buffers\<close>

text \<open>What \<open>buffer_add\<close> glues on, when all of it fits.\<close>

definition glue :: "int \<Rightarrow> string \<Rightarrow> string list \<Rightarrow> string" where
  "glue count buf ts = (if ts = [] then buf else (if count \<noteq> 0 then buf @ '','' else buf) @ join ts)"

lemma glue_Cons:
  "count \<ge> 0 \<Longrightarrow>
   glue count buf (t # ts) = glue (count + 1) ((if count \<noteq> 0 then buf @ '','' else buf) @ t) ts"
  by (cases ts) (auto simp: glue_def)

lemma buffer_add_eq:
  "buffer_add count buf t =
     (let b = (if count \<noteq> 0 then buf @ '','' else buf) @ t
      in if length b \<le> 256 then Some b else None)"
  by (auto simp: buffer_add_def buffer_cat_def)

lemma glue_length: "count \<ge> 0 \<Longrightarrow> length buf \<le> length (glue count buf ts)"
  by (simp add: glue_def)

text \<open>The channels a mask selects from a list of names, in the order of the list.\<close>

fun picked :: "32 word \<Rightarrow> nat \<Rightarrow> string list \<Rightarrow> string list" where
  "picked x m [] = []"
| "picked x m (t # ts) = (if bit x m then t # picked x (Suc m) ts else picked x (Suc m) ts)"

lemma set_picked: "set (picked x m ts) \<subseteq> set ts"
  by (induction x m ts rule: picked.induct) auto

lemma length_picked: "length (picked x m ts) \<le> length ts"
  by (induction x m ts rule: picked.induct) auto

lemma to_matrix_loop_eq:
  assumes "m + length ts \<le> 32" and "count \<ge> 0" and "length buf \<le> 256"
  shows "to_matrix_loop x m ts count buf =
    (let r = glue count buf (picked x m ts) in if length r \<le> 256 then Some r else None)"
  using assms
proof (induction x m ts count buf rule: to_matrix_loop.induct)
  case (1 x m count buf)
  then show ?case by (simp add: glue_def)
next
  case (2 x m t ts count buf)
  have b: "x AND push_bit m 1 \<noteq> 0 \<longleftrightarrow> bit x m" by (simp add: bit_iff_and_push_bit_not_eq_0)
  show ?case
  proof (cases "bit x m")
    case False
    with 2 show ?thesis using b by simp
  next
    case True
    let ?b = "(if count \<noteq> 0 then buf @ '','' else buf) @ t"
    have g: "glue count buf (picked x m (t # ts)) = glue (count + 1) ?b (picked x (Suc m) ts)"
      using glue_Cons [OF "2.prems"(2)] True by simp
    have step: "to_matrix_loop x m (t # ts) count buf =
        (if length ?b \<le> 256 then to_matrix_loop x (Suc m) ts (count + 1) ?b else None)"
      using True b "2.prems"(1) by (simp add: buffer_add_eq)
    show ?thesis
    proof (cases "length ?b \<le> 256")
      case True
      then have "to_matrix_loop x (Suc m) ts (count + 1) ?b =
        (let r = glue (count + 1) ?b (picked x (Suc m) ts) in if length r \<le> 256 then Some r else None)"
        using "2.IH"(1) [of ?b] "2.prems" \<open>bit x m\<close> b by (simp add: buffer_add_eq)
      with step g True show ?thesis by simp
    next
      case False
      then have "\<not> length (glue (count + 1) ?b (picked x (Suc m) ts)) \<le> 256"
        using glue_length [of "count + 1" ?b] "2.prems"(2) by (meson add_nonneg_nonneg le_trans zero_le_one)
      with step g False show ?thesis by simp
    qed
  qed
qed

lemma intersect_loop_eq:
  assumes "count \<ge> 0" and "length buf \<le> 256"
  shows "intersect_loop toks p count buf =
    (let r = glue count buf (filter (\<lambda>t. slot toks t \<noteq> -1) (tokens p))
     in if length r \<le> 256 then Some r else None)"
  using assms
proof (induction p arbitrary: count buf rule: tokens.induct)
  case (1 p)
  let ?t = "to_comma p" and ?q = "tl (at_comma p)"
  let ?m = "search (token_match p (length ?t)) toks"
  let ?f = "filter (\<lambda>t. slot toks t \<noteq> -1)"
  note eq = intersect_loop.simps [of toks p count buf, unfolded Let_def]
  have rest: "?f (tokens p) = (if slot toks ?t \<noteq> -1 then [?t] else []) @
      (if at_comma p = [] then [] else ?f (tokens ?q))"
    by (simp add: tokens.simps [of p])
  show ?case
  proof (cases "slot toks ?t = -1")
    case True
    then have miss: "\<not> (?m < length toks \<and> toks ! ?m \<noteq> ''X'')" using search_slot(1) by blast
    show ?thesis
      unfolding eq if_not_P [OF miss]
      using True rest "1.IH" [OF _ "1.prems"] "1.prems" by (simp add: glue_def)
  next
    case False
    then have hit: "?m < length toks \<and> toks ! ?m \<noteq> ''X''" "toks ! ?m = ?t"
      using search_slot slot_nth [OF False] by (blast, metis nat_int)
    let ?b = "(if count \<noteq> 0 then buf @ '','' else buf) @ ?t"
    let ?us = "if at_comma p = [] then [] else ?f (tokens ?q)"
    have g: "glue count buf (?f (tokens p)) = glue (count + 1) ?b ?us"
      using glue_Cons [OF "1.prems"(1)] False rest by simp
    have step: "intersect_loop toks p count buf =
        (if length ?b \<le> 256
         then (if at_comma p = [] then Some ?b else intersect_loop toks ?q (count + 1) ?b) else None)"
      unfolding eq if_P [OF hit(1)] unfolding hit(2) by (simp add: buffer_add_eq)
    show ?thesis
    proof (cases "length ?b \<le> 256")
      case True
      show ?thesis
      proof (cases "at_comma p = []")
        case True
        then show ?thesis using step g \<open>length ?b \<le> 256\<close> by (simp add: glue_def)
      next
        case False
        from "1.IH" [OF this _ True] "1.prems"(1) step g True False show ?thesis by simp
      qed
    next
      case False
      then have "\<not> length (glue (count + 1) ?b ?us) \<le> 256"
        using glue_length [of "count + 1" ?b ?us] "1.prems"(1)
        by (meson add_nonneg_nonneg le_trans zero_le_one)
      with step g False show ?thesis by simp
    qed
  qed
qed

section \<open>The functions as a whole\<close>

lemma tokenize_None_or:
  "tokenize_matrix s w = (None, w') \<Longrightarrow> heap_step 0 w w'"
  "tokenize_matrix s w = (Some toks, w') \<Longrightarrow>
     toks = map strip (tokens s) \<and> heap_step (1 + int (length toks)) w w'"
  using tokenize_matrix_heap [of s w] by (auto simp: map_blocks_def)

lemma tokenize_free_heap:
  assumes "tokenize_matrix s w = (Some toks, w')"
  shows "heap_step 0 w (free_map (Some toks) w')"
  using heap_step_trans [OF tokenize_None_or(2) [OF assms, THEN conjunct2] free_map_heap [of "Some toks" w']]
  by (simp add: map_blocks_def)

text \<open>The map from channels to the backend's slots, as \<open>_matrix_to_channelmask\<close> leaves it.\<close>

definition slot_map :: "int \<Rightarrow> string list \<Rightarrow> string \<Rightarrow> int list" where
  "slot_map ch toks s =
     map (slot toks) (tokens s) @ replicate (nat ch - length (tokens s)) (-1)"

lemma length_slot_map: "int (length (tokens s)) \<le> ch \<Longrightarrow> int (length (slot_map ch toks s)) = ch"
  by (simp add: slot_map_def)

lemma matrix_to_channelmask_total:
  assumes "int (length (tokens s)) \<le> ch" and "length (tokens pre) \<le> 32"
  obtains r where "matrix_to_channelmask ch s pre w = Some r"
proof -
  have ch: "\<not> ch < 0" "length (tokens s) \<le> nat ch" using assms(1) by auto
  have "\<exists>r. matrix_to_channelmask ch s pre w = Some r"
    using to_mask_loop_eq [of "map strip (tokens pre)" s "nat ch" "[]" 0] assms(2) ch
    by (auto simp: matrix_to_channelmask_def split: prod.splits option.splits
        dest!: tokenize_None_or(2))
  then show ?thesis using that by blast
qed

lemma matrix_to_channelmask_heap:
  assumes "matrix_to_channelmask ch s pre w = Some (x, m, w')"
  shows "heap_step (blocks m) w w'"
proof (cases "ch < 0")
  case True
  with assms show ?thesis by (auto simp: matrix_to_channelmask_def)
next
  case False
  obtain ok v where m: "malloc_ok w = (ok, v)" by (cases "malloc_ok w")
  obtain t u where t: "tokenize_matrix pre v = (t, u)" by (cases "tokenize_matrix pre v")
  note h = malloc_ok_heap [OF m]
  show ?thesis
  proof (cases ok)
    case okTrue: True
    show ?thesis
    proof (cases t)
      case None
      with assms okTrue m t False have "m = Some (replicate (nat ch) 0)" "w' = u"
        by (auto simp: matrix_to_channelmask_def)
      with heap_step_trans [OF h tokenize_None_or(1) [OF t [unfolded None]]] okTrue
      show ?thesis by simp
    next
      case (Some toks)
      with assms okTrue m t False have "\<exists>p. m = Some p" "w' = free_map (Some toks) u"
        by (auto simp: matrix_to_channelmask_def split: bind_splits)
      with heap_step_trans [OF h tokenize_free_heap [OF t [unfolded Some]]] okTrue
      show ?thesis by auto
    qed
  qed (use assms m False h in \<open>auto simp: matrix_to_channelmask_def\<close>)
qed

lemma matrix_to_channelmask_plenty:
  assumes "int (length (tokens s)) \<le> ch" and "length (tokens pre) \<le> 32" and "w_allocs w = []"
  obtains w' where "matrix_to_channelmask ch s pre w =
    Some (mask_of (map strip (tokens pre)) (tokens s),
          Some (slot_map ch (map strip (tokens pre)) s), w')"
proof -
  have ch: "\<not> ch < 0" "length (tokens s) \<le> nat ch" using assms(1) by auto
  obtain w' where "tokenize_matrix pre (w\<lparr>w_live := w_live w + 1\<rparr>) = (Some (map strip (tokens pre)), w')"
    using tokenize_matrix_plenty [of "w\<lparr>w_live := w_live w + 1\<rparr>" pre] assms(3) by auto
  then show ?thesis
    using that to_mask_loop_eq [of "map strip (tokens pre)" s "nat ch" "[]" 0] assms ch
    by (simp add: matrix_to_channelmask_def slot_map_def)
qed

text \<open>The buffer holds what a matrix of at most 32 names of at most 7 characters can need.\<close>

lemma join_length_le:
  assumes "\<forall>t \<in> set ts. length t \<le> k"
  shows "length (join ts) \<le> length ts * (k + 1)"
proof (cases "ts = []")
  case False
  have "sum_list (map (\<lambda>t. length t + 1) ts) \<le> sum_list (map (\<lambda>_. k + 1) ts)"
    by (rule sum_list_mono) (use assms in auto)
  with length_join [OF False] show ?thesis by (simp add: sum_list_triv)
qed simp

lemma channelmask_to_matrix_plenty:
  assumes pre: "length (tokens pre) \<le> 32" "\<forall>t \<in> set (tokens pre). length (strip t) \<le> 7"
    and "w_allocs w = []"
  obtains w' where "channelmask_to_matrix x pre w =
    Some (Some (join (picked x 0 (map strip (tokens pre)))), w')"
proof -
  let ?ts = "picked x 0 (map strip (tokens pre))"
  have "\<forall>t \<in> set ?ts. length t \<le> 7" using set_picked pre(2) by fastforce
  moreover have "length ?ts \<le> 32" using length_picked [of x 0 "map strip (tokens pre)"] pre(1) by simp
  ultimately have "length (join ?ts) \<le> 256" using join_length_le [of ?ts 7] by simp
  then have loop: "to_matrix_loop x 0 (map strip (tokens pre)) 0 '''' = Some (join ?ts)"
    using to_matrix_loop_eq [of 0 "map strip (tokens pre)" 0 "''''" x] pre(1)
    by (auto simp: glue_def)
  obtain w' where t: "tokenize_matrix pre w = (Some (map strip (tokens pre)), w')" "w_allocs w' = []"
    using tokenize_matrix_plenty [OF assms(3)] .
  have "w_allocs (free_map (Some (map strip (tokens pre))) w') = []"
    using free_map_heap heap_step_plenty t(2) by blast
  then show ?thesis using that loop t by (simp add: channelmask_to_matrix_def)
qed

lemma channelmask_to_matrix_heap:
  assumes "channelmask_to_matrix x pre w = Some (m, w')"
  shows "heap_step (blocks m) w w'"
proof -
  obtain t u where t: "tokenize_matrix pre w = (t, u)" by (cases "tokenize_matrix pre w")
  show ?thesis
  proof (cases t)
    case None
    with assms t tokenize_None_or(1) show ?thesis by (auto simp: channelmask_to_matrix_def)
  next
    case (Some toks)
    with assms t obtain buf where "strdup buf (free_map (Some toks) u) = (m, w')"
      by (auto simp: channelmask_to_matrix_def split: bind_splits)
    from strdup_heap [OF this] heap_step_trans [OF tokenize_free_heap [OF t [unfolded Some]]]
    show ?thesis by fastforce
  qed
qed

text \<open>The channels of \<open>s\<close> that a backend with the names \<open>toks\<close> has.\<close>

definition common :: "string list \<Rightarrow> string \<Rightarrow> string list" where
  "common toks s = filter (\<lambda>t. slot toks t \<noteq> -1) (tokens s)"

lemma matrix_intersect_loop:
  "intersect_loop toks s 0 '''' =
     (if length (join (common toks s)) \<le> 256 then Some (join (common toks s)) else None)"
  using intersect_loop_eq [of 0 "''''" toks s] by (auto simp: glue_def common_def)

lemma matrix_intersect_plenty:
  assumes "w_allocs w = []"
  shows "if length (join (common (map strip (tokens pre)) s)) \<le> 256
    then \<exists>w'. matrix_intersect s pre w = Some (Some (join (common (map strip (tokens pre)) s)), w')
    else matrix_intersect s pre w = None"
proof -
  obtain w' where t: "tokenize_matrix pre w = (Some (map strip (tokens pre)), w')" "w_allocs w' = []"
    using tokenize_matrix_plenty [OF assms] .
  have "w_allocs (free_map (Some (map strip (tokens pre))) w') = []"
    using free_map_heap heap_step_plenty t(2) by blast
  then show ?thesis using t by (simp add: matrix_intersect_def matrix_intersect_loop)
qed

lemma matrix_intersect_heap:
  assumes "matrix_intersect s pre w = Some (m, w')"
  shows "heap_step (blocks m) w w'"
proof -
  obtain t u where t: "tokenize_matrix pre w = (t, u)" by (cases "tokenize_matrix pre w")
  show ?thesis
  proof (cases t)
    case None
    with assms t tokenize_None_or(1) show ?thesis by (auto simp: matrix_intersect_def)
  next
    case (Some toks)
    with assms t obtain buf where "strdup buf (free_map (Some toks) u) = (m, w')"
      by (auto simp: matrix_intersect_def split: bind_splits)
    from strdup_heap [OF this] heap_step_trans [OF tokenize_free_heap [OF t [unfolded Some]]]
    show ?thesis by fastforce
  qed
qed

section \<open>The permutation of the channels\<close>

text \<open>
  The entry for a backend channel: where it is in the input matrix, -1 (silence) if it is not
  there or is \<open>X\<close>, and \<open>M\<close> for a mono input that does not have it.
\<close>

definition source_of :: "string list \<Rightarrow> int \<Rightarrow> string \<Rightarrow> int" where
  "source_of in_toks in_channels t =
     (let c = (if t = ''X'' then -1 else position t in_toks)
      in if c = -1 \<and> in_channels = 1 then position ''M'' in_toks else c)"

lemma prefix_search:
  "t \<in> set mnemonics \<Longrightarrow>
   search (\<lambda>mn. take (length t) mn = t) mnemonics = search (\<lambda>mn. mn = t) mnemonics"
proof -
  have "\<forall>t \<in> set mnemonics.
      search (\<lambda>mn. take (length t) mn = t) mnemonics = search (\<lambda>mn. mn = t) mnemonics"
    unfolding mnemonics_def by simp
  then show "t \<in> set mnemonics \<Longrightarrow> ?thesis" by blast
qed

lemma permute_entry_eq:
  assumes "to_comma op \<in> set mnemonics"
  shows "permute_entry op s n = Some (source_of (tokens s) n (to_comma op))"
proof -
  let ?t = "to_comma op"
  let ?m = "search (\<lambda>mn. mn = ?t) mnemonics"
  have "search (\<lambda>mn. strncmp_eq mn op (length ?t)) mnemonics = ?m"
    using prefix_search [OF assms] by (simp add: strncmp_eq_def take_to_comma)
  moreover have m: "?m < 45" "mnemonics ! ?m = ?t"
    using assms search_lt_iff [of "\<lambda>mn. mn = ?t" mnemonics] search_eq_nth [of ?t mnemonics]
    by (simp_all add: mnemonics_facts(1))
  moreover have "?m = 0 \<longleftrightarrow> ?t = ''X''"
    using m(2) mnemonics_facts(4) by (auto simp: mnemonics_def)
  moreover have "find_channel 1 s = Some (position ''M'' (tokens s))"
    using find_channel_eq [of 1 s] mnemonics_facts(5) by simp
  ultimately show ?thesis
    by (simp add: permute_entry_def find_channel_eq source_of_def)
qed

lemma permute_loop_empty: "permute_loop n '''' s k = Some (replicate n (-1))"
  by (induction n) simp_all

lemma permute_loop_eq:
  assumes "set (tokens op) \<subseteq> set mnemonics"
  shows "permute_loop n op s k =
    Some (take n (map (source_of (tokens s) k) (tokens op)) @ replicate (n - length (tokens op)) (-1))"
  using assms
proof (induction op arbitrary: n rule: tokens.induct)
  case (1 op)
  let ?q = "tl (at_comma op)"
  have t: "to_comma op \<in> set mnemonics" using "1.prems" by (simp add: tokens.simps [of op])
  then have ne: "op \<noteq> []" using mnemonics_facts(3) by (auto simp: to_comma_def)
  show ?case
  proof (cases n)
    case 0
    then show ?thesis by simp
  next
    case (Suc k')
    show ?thesis
    proof (cases "at_comma op = []")
      case True
      with Suc ne show ?thesis
        by (simp add: permute_entry_eq [OF t] permute_loop_empty tokens.simps [of op])
    next
      case False
      with "1.prems" have "set (tokens ?q) \<subseteq> set mnemonics" by (simp add: tokens.simps [of op])
      from "1.IH" [OF False this, of k'] Suc ne False show ?thesis
        by (simp add: permute_entry_eq [OF t] tokens.simps [of op])
    qed
  qed
qed

text \<open>Every entry of the permutation is a channel of the input or -1.\<close>

lemma source_of_bounds:
  "-1 \<le> source_of ts k t \<and> (ts = [] \<or> source_of ts k t < int (length ts))"
  using position_ge [of t ts] position_ge [of "''M''" ts] position_lt [of t ts] position_lt [of "''M''" ts]
  by (auto simp: source_of_def)

lemma source_of_nth:
  "source_of ts k t = int c \<Longrightarrow> k \<noteq> 1 \<Longrightarrow> ts ! c = t \<and> t \<noteq> ''X''"
  using position_nth [of t ts c] by (auto simp: source_of_def split: if_splits)

end
