(* ===== verification/AO_Buffer.thy ===== *)
theory AO_Buffer
  imports AO_Types
begin

text \<open>
  The swap buffer of \<^verbatim>\<open>src/audio_out.c\<close>: \<open>_realloc_swap_buffer\<close>, the loops that route, swap
  and silence interleaved samples (\<open>_buffer_zero\<close>, \<open>_buffer_permute_swap\<close>, \<open>_buffer_permute\<close>)
  and \<open>_swap_samples\<close>.

  Every access is checked against the array, every signed operation against the range of
  \<open>int\<close>: \<open>None\<close> is a fault (or a loop with a stride that never leaves it).  The laws read a
  buffer as a sequence of samples of \<open>b\<close> bytes and say which sample each output cell holds.
\<close>

section \<open>Operations\<close>

text \<open>\<open>realloc\<close> keeps the old contents; what it adds is uninitialised.\<close>

definition realloc_swap_buffer ::
  "'p ao_device \<Rightarrow> int \<Rightarrow> 'z world_scheme \<Rightarrow> bool \<times> 'p ao_device \<times> 'z world_scheme" where
  "realloc_swap_buffer d min_size w =
     (if min_size > swap_buffer_size d
      then (case malloc_ok w of (ok, w) \<Rightarrow>
        if ok
        then let old = (case swap_buffer d of None \<Rightarrow> [] | Some b \<Rightarrow> b)
             in (True,
                 d\<lparr>swap_buffer := Some (old @ replicate (nat min_size - length old) (w_junk w)),
                   swap_buffer_size := min_size\<rparr>,
                 free_opt (swap_buffer d) w)
        else (False, d, w))
      else (True, d, w))"

text \<open>The \<open>while\<close> loop of \<open>_buffer_zero\<close>; the cases of its \<open>switch\<close> differ in the cell they write.\<close>

function zero_loop :: "byte list \<Rightarrow> int \<Rightarrow> int \<Rightarrow> int \<Rightarrow> byte list \<Rightarrow> byte list option" where
  "zero_loop cell i stride bytes target =
     (if \<not> i < bytes then Some target
      else if stride \<le> 0 then None
      else do {
        target \<leftarrow> store target i cell;
        i \<leftarrow> c_int (i + stride);
        zero_loop cell i stride bytes target })"
  by pat_completeness auto
termination
  by (relation "measure (\<lambda>(_, i, _, bytes, _). nat (bytes - i))") (auto simp: c_int_Some_iff)

declare zero_loop.simps [simp del]

definition buffer_zero :: "byte list \<Rightarrow> int \<Rightarrow> int \<Rightarrow> int \<Rightarrow> int \<Rightarrow> byte list option" where
  "buffer_zero target och bw ochannels bytes = do {
     i \<leftarrow> c_int (och * bw);
     stride \<leftarrow> c_int (bw * ochannels);
     (if bw = 1 then zero_loop [128] i stride bytes target
      else if bw = 2 then zero_loop [0, 0] i stride bytes target
      else if bw = 3 then zero_loop [0, 0, 0] i stride bytes target
      else if bw = 4 then zero_loop [0, 0, 0, 0] i stride bytes target
      else Some target) }"

text \<open>
  The \<open>while\<close> loop of \<open>_buffer_permute\<close> and \<open>_buffer_permute_swap\<close>: \<open>n\<close> bytes per sample,
  copied in order (\<open>g = id\<close>) or from the last to the first (\<open>g = rev\<close>).
\<close>

function copy_loop ::
  "nat \<Rightarrow> (byte list \<Rightarrow> byte list) \<Rightarrow> int \<Rightarrow> int \<Rightarrow> int \<Rightarrow> int \<Rightarrow> int \<Rightarrow> byte list \<Rightarrow> byte list
    \<Rightarrow> byte list option" where
  "copy_loop n g p i ostride istride bytes source target =
     (if \<not> p < bytes then Some target
      else if ostride \<le> 0 then None
      else do {
        cell \<leftarrow> load n source i;
        target \<leftarrow> store target p (g cell);
        p \<leftarrow> c_int (p + ostride);
        i \<leftarrow> c_int (i + istride);
        copy_loop n g p i ostride istride bytes source target })"
  by pat_completeness auto
termination
  by (relation "measure (\<lambda>(_, _, p, _, _, _, bytes, _). nat (bytes - p))")
     (auto simp: c_int_Some_iff)

declare copy_loop.simps [simp del]

definition buffer_permute_swap ::
  "byte list \<Rightarrow> int \<Rightarrow> int \<Rightarrow> int \<Rightarrow> int \<Rightarrow> byte list \<Rightarrow> int \<Rightarrow> int \<Rightarrow> byte list option" where
  "buffer_permute_swap target och bw ochannels bytes source ich ichannels = do {
     p \<leftarrow> c_int (och * bw);
     i \<leftarrow> c_int (ich * bw);
     ostride \<leftarrow> c_int (bw * ochannels);
     istride \<leftarrow> c_int (bw * ichannels);
     (if bw = 2 \<or> bw = 3 \<or> bw = 4
      then copy_loop (nat bw) rev p i ostride istride bytes source target
      else Some target) }"

definition buffer_permute ::
  "byte list \<Rightarrow> int \<Rightarrow> int \<Rightarrow> int \<Rightarrow> int \<Rightarrow> byte list \<Rightarrow> int \<Rightarrow> int \<Rightarrow> byte list option" where
  "buffer_permute target och bw ochannels bytes source ich ichannels = do {
     p \<leftarrow> c_int (och * bw);
     i \<leftarrow> c_int (ich * bw);
     ostride \<leftarrow> c_int (bw * ochannels);
     istride \<leftarrow> c_int (bw * ichannels);
     (if bw = 1 \<or> bw = 2 \<or> bw = 3 \<or> bw = 4
      then copy_loop (nat bw) id p i ostride istride bytes source target
      else Some target) }"

text \<open>
  \<open>_swap_samples\<close> swaps every two bytes.  Its \<open>uint_32\<close> index wraps to 0 when it passes
  \<open>2 ^ 32\<close>, from where the loop starts again and never ends.
\<close>

function swap_samples_loop :: "int \<Rightarrow> int \<Rightarrow> byte list \<Rightarrow> byte list \<Rightarrow> byte list option" where
  "swap_samples_loop i num_bytes source target =
     (if \<not> i < num_bytes then Some target
      else do {
        cell \<leftarrow> load 2 source i;
        target \<leftarrow> store target i (rev cell);
        (if i + 2 < 2 ^ 32 then swap_samples_loop (i + 2) num_bytes source target else None) })"
  by pat_completeness auto
termination
  by (relation "measure (\<lambda>(i, num_bytes, _). nat (num_bytes - i))") auto

declare swap_samples_loop.simps [simp del]

definition swap_samples :: "byte list \<Rightarrow> byte list \<Rightarrow> 32 word \<Rightarrow> byte list option" where
  "swap_samples target source num_bytes = swap_samples_loop 0 (uint num_bytes) source target"

section \<open>Buffers as sequences of samples\<close>

text \<open>Sample \<open>k\<close> of a buffer with \<open>b\<close> bytes per sample, and a buffer with sample \<open>k\<close> replaced.\<close>

definition sample :: "nat \<Rightarrow> byte list \<Rightarrow> nat \<Rightarrow> byte list" where
  "sample b xs k = take b (drop (k * b) xs)"

definition put_sample :: "byte list \<Rightarrow> nat \<Rightarrow> byte list \<Rightarrow> byte list" where
  "put_sample xs k c = take (k * length c) xs @ c @ drop (k * length c + length c) xs"

lemma length_put_sample [simp]:
  "(k + 1) * length c \<le> length xs \<Longrightarrow> length (put_sample xs k c) = length xs"
  by (simp add: put_sample_def min_absorb2)

lemma sample_fits: "k < n \<Longrightarrow> n * b \<le> l \<Longrightarrow> k * b + b \<le> (l :: nat)"
  using mult_le_mono1 [of "k + 1" n b] by simp

lemma length_sample: "k < n \<Longrightarrow> n * b \<le> length xs \<Longrightarrow> length (sample b xs k) = b"
  using sample_fits [of k n b "length xs"] by (simp add: sample_def)

lemma nth_sample:
  assumes "k < n" and "n * b \<le> length xs" and "j < b"
  shows "sample b xs k ! j = xs ! (k * b + j)"
  using assms sample_fits [OF assms(1,2)] by (simp add: sample_def add.commute)

lemma sample_put:
  assumes "k < n" "j < n" "n * b \<le> length xs" "length c = b"
  shows "sample b (put_sample xs k c) j = (if j = k then c else sample b xs j)"
proof (rule nth_equalityI)
  have len: "length (put_sample xs k c) = length xs"
    using sample_fits [OF assms(1,3)] assms(4) by (subst length_put_sample) (simp_all add: algebra_simps)
  show l: "length (sample b (put_sample xs k c) j) = length (if j = k then c else sample b xs j)"
    using length_sample [OF assms(2)] assms(3,4) len by simp
  fix m assume "m < length (sample b (put_sample xs k c) j)"
  then have m: "m < b" using length_sample [OF assms(2)] assms(3) len by simp
  have fit: "k * b + b \<le> length xs" "j * b + b \<le> length xs"
    using sample_fits assms(1-3) by blast+
  have "sample b (put_sample xs k c) j ! m = put_sample xs k c ! (j * b + m)"
    using nth_sample [OF assms(2) _ m, of "put_sample xs k c"] len assms(3) by simp
  also have "\<dots> = (if k * b \<le> j * b + m \<and> j * b + m < k * b + b
      then c ! (j * b + m - k * b) else xs ! (j * b + m))"
    using nth_overwrite [of "k * b" c xs "j * b + m"] fit m assms(4) by (simp add: put_sample_def)
  also have "k * b \<le> j * b + m \<and> j * b + m < k * b + b \<longleftrightarrow> j = k"
  proof
    assume a: "k * b \<le> j * b + m \<and> j * b + m < k * b + b"
    show "j = k"
    proof (rule ccontr)
      assume "j \<noteq> k"
      then consider "j + 1 \<le> k" | "k + 1 \<le> j" by linarith
      then show False
      proof cases
        case 1
        then have "(j + 1) * b \<le> k * b" by (rule mult_le_mono1)
        with a m show False by simp
      next
        case 2
        then have "(k + 1) * b \<le> j * b" by (rule mult_le_mono1)
        with a m show False by simp
      qed
    qed
  qed (use m in simp)
  finally show "sample b (put_sample xs k c) j ! m = (if j = k then c else sample b xs j) ! m"
    using nth_sample [OF assms(2,3) m] by simp
qed

lemma load_sample:
  "k < n \<Longrightarrow> n * b \<le> length xs \<Longrightarrow> load b xs (int (k * b)) = Some (sample b xs k)"
  using load_nat sample_fits unfolding sample_def by blast

lemma store_sample:
  "k < n \<Longrightarrow> n * length c \<le> length xs \<Longrightarrow>
   store xs (int (k * length c)) c = Some (put_sample xs k c)"
  using store_nat [of "k * length c" c xs] sample_fits [of k n "length c" "length xs"]
  unfolding put_sample_def by simp

section \<open>The loops\<close>

text \<open>
  What the loops leave in the target: in every frame, channel \<open>och\<close> of \<open>oc\<close> is \<open>val f\<close>, all
  other samples are as before.  \<open>frames\<close> counts the frames; \<open>F\<close> those written so far.
\<close>

definition channel_written ::
  "nat \<Rightarrow> nat \<Rightarrow> nat \<Rightarrow> nat \<Rightarrow> (nat \<Rightarrow> byte list) \<Rightarrow> byte list \<Rightarrow> byte list \<Rightarrow> bool" where
  "channel_written b oc och frames val xs ys \<longleftrightarrow>
     length ys = length xs \<and>
     (\<forall>f < frames. \<forall>c < oc. sample b ys (f * oc + c) = (if c = och then val f else sample b xs (f * oc + c)))"

lemma frame_index: "f < frames \<Longrightarrow> c < oc \<Longrightarrow> f * oc + c < frames * (oc :: nat)"
  using sample_fits [of f frames oc "frames * oc"] by simp

text \<open>One step writes one sample: it moves the frontier of written frames by one.\<close>

definition frontier ::
  "nat \<Rightarrow> nat \<Rightarrow> nat \<Rightarrow> nat \<Rightarrow> nat \<Rightarrow> (nat \<Rightarrow> byte list) \<Rightarrow> byte list \<Rightarrow> byte list \<Rightarrow> bool" where
  "frontier b oc och frames g val xs ys \<longleftrightarrow>
     length ys = length xs \<and>
     (\<forall>f < frames. \<forall>c < oc. sample b ys (f * oc + c) =
        (if c = och \<and> f < g then val f else sample b xs (f * oc + c)))"

lemma frontier_start: "frontier b oc och frames 0 val xs xs"
  by (simp add: frontier_def)

lemma frontier_end: "frontier b oc och frames frames val xs ys \<Longrightarrow> channel_written b oc och frames val xs ys"
  by (auto simp: frontier_def channel_written_def)

lemma index_inj:
  "c < oc \<Longrightarrow> d < oc \<Longrightarrow> f * oc + c = g * oc + (d :: nat) \<longleftrightarrow> f = g \<and> c = d"
  by (metis add.commute div_mult_self1 div_less mod_mult_self1 mod_less add_cancel_right_left
      less_nat_zero_code mult.commute not_less_zero)

lemma frontier_step:
  assumes f: "frontier b oc och frames g val xs ys" and g: "g < frames" and och: "och < oc"
    and len: "frames * oc * b \<le> length xs" and v: "length (val g) = b"
  shows "store ys (int ((g * oc + och) * b)) (val g) = Some (put_sample ys (g * oc + och) (val g))"
    and "frontier b oc och frames (Suc g) val xs (put_sample ys (g * oc + och) (val g))"
proof -
  let ?k = "g * oc + och"
  have k: "?k < frames * oc" using frame_index [OF g och] .
  have ly: "frames * oc * b \<le> length ys" "length ys = length xs" using f len by (simp_all add: frontier_def)
  show "store ys (int (?k * b)) (val g) = Some (put_sample ys ?k (val g))"
    using store_sample [OF k, of "val g" ys] v ly by simp
  have "length (put_sample ys ?k (val g)) = length xs"
    using sample_fits [OF k ly(1)] v ly(2) by (subst length_put_sample) (simp_all add: algebra_simps)
  moreover have "sample b (put_sample ys ?k (val g)) (h * oc + c) =
      (if c = och \<and> h < Suc g then val h else sample b xs (h * oc + c))"
    if "h < frames" "c < oc" for h c
    using sample_put [OF k frame_index [OF that] ly(1) v] f that index_inj [OF that(2) och, of h g]
    by (auto simp: frontier_def less_Suc_eq)
  ultimately show "frontier b oc och frames (Suc g) val xs (put_sample ys ?k (val g))"
    by (simp add: frontier_def)
qed

lemma next_index: "int ((g * oc + och) * b) + int (b * oc) = int ((Suc g * oc + och) * b)"
  by (simp add: algebra_simps)

lemma index_bound:
  assumes "g < frames" "och < (oc :: nat)"
  shows "(Suc g * oc + och) * b \<le> (frames + 1) * oc * b"
proof -
  have "Suc g * oc + och \<le> (g + 2) * oc" using assms(2) by simp
  also have "\<dots> \<le> (frames + 1) * oc" using assms(1) by (intro mult_le_mono1) simp
  finally show ?thesis by (rule mult_le_mono1)
qed

lemma int_fits: "n \<le> m \<Longrightarrow> int m \<le> INT_MAX \<Longrightarrow> c_int (int n) = Some (int n)"
  by (rule c_int_SomeI) (auto simp: INT_MIN_def)

text \<open>The index is past the last frame exactly when all frames are written.\<close>

lemma index_end:
  assumes "och < (oc :: nat)" "0 < b"
  shows "int ((g * oc + och) * b) < int (frames * oc * b) \<longleftrightarrow> g < frames"
proof
  assume "int ((g * oc + och) * b) < int (frames * oc * b)"
  then have "g * oc + och < frames * oc" by (simp only: of_nat_less_iff mult_less_cancel2)
  then have "g * oc < frames * oc" by linarith
  then show "g < frames" by simp
next
  assume "g < frames"
  with frame_index [OF this assms(1)] assms(2) have "(g * oc + och) * b < frames * oc * b" by simp
  then show "int ((g * oc + och) * b) < int (frames * oc * b)" by (simp only: of_nat_less_iff)
qed

lemma zero_loop_written:
  assumes och: "och < oc" and b: "b = length cell" "0 < b"
    and len: "frames * oc * b \<le> length xs" and max: "int ((frames + 1) * oc * b) \<le> INT_MAX"
  shows "g \<le> frames \<Longrightarrow> frontier b oc och frames g (\<lambda>_. cell) xs ys \<Longrightarrow>
    \<exists>zs. zero_loop cell (int ((g * oc + och) * b)) (int (b * oc)) (int (frames * oc * b)) ys = Some zs \<and>
         channel_written b oc och frames (\<lambda>_. cell) xs zs"
proof (induction "frames - g" arbitrary: g ys)
  case 0
  then have "g = frames" by simp
  with "0.prems" index_end [OF och b(2), of g frames] frontier_end show ?case
    by (subst zero_loop.simps) auto
next
  case (Suc n)
  then have g: "g < frames" by simp
  note step = frontier_step [OF Suc.prems(2) g och len, OF b(1) [symmetric]]
  have "0 < b * oc" using och b(2) by (cases oc) auto
  then have pos: "\<not> int (b * oc) \<le> 0" by linarith
  have next_i: "c_int (int ((g * oc + och) * b) + int (b * oc)) = Some (int ((Suc g * oc + och) * b))"
    unfolding next_index by (rule int_fits [OF index_bound [OF g och] max])
  from Suc.hyps(1) [OF _ _ step(2)] Suc.hyps(2) g obtain zs where
    "zero_loop cell (int ((Suc g * oc + och) * b)) (int (b * oc)) (int (frames * oc * b))
       (put_sample ys (g * oc + och) cell) = Some zs"
    "channel_written b oc och frames (\<lambda>_. cell) xs zs" by fastforce
  then show ?case
    using index_end [OF och b(2), of g frames] g pos step(1) next_i
    by (subst zero_loop.simps) (simp del: of_nat_mult of_nat_add mult_Suc)
qed

lemma copy_loop_written:
  assumes och: "och < oc" and ich: "ich < ic" and b: "0 < b"
    and len: "frames * oc * b \<le> length xs" and max: "int ((frames + 1) * oc * b) \<le> INT_MAX"
    and slen: "frames * ic * b \<le> length src" and smax: "int ((frames + 1) * ic * b) \<le> INT_MAX"
    and perm: "\<And>c. length (perm c) = length c"
  shows "g \<le> frames \<Longrightarrow> frontier b oc och frames g (\<lambda>f. perm (sample b src (f * ic + ich))) xs ys \<Longrightarrow>
    \<exists>zs. copy_loop b perm (int ((g * oc + och) * b)) (int ((g * ic + ich) * b)) (int (b * oc))
           (int (b * ic)) (int (frames * oc * b)) src ys = Some zs \<and>
         channel_written b oc och frames (\<lambda>f. perm (sample b src (f * ic + ich))) xs zs"
proof (induction "frames - g" arbitrary: g ys)
  case 0
  then have "g = frames" by simp
  with "0.prems" index_end [OF och b, of g frames] frontier_end show ?case
    by (subst copy_loop.simps) auto
next
  case (Suc n)
  then have g: "g < frames" by simp
  let ?val = "\<lambda>f. perm (sample b src (f * ic + ich))"
  note k = frame_index [OF g ich]
  have v: "length (?val g) = b" using length_sample [OF k slen] perm by simp
  note step = frontier_step [OF Suc.prems(2) g och len v]
  have "0 < b * oc" using och b by (cases oc) auto
  then have pos: "\<not> int (b * oc) \<le> 0" by linarith
  have next_i: "c_int (int ((g * oc + och) * b) + int (b * oc)) = Some (int ((Suc g * oc + och) * b))"
    "c_int (int ((g * ic + ich) * b) + int (b * ic)) = Some (int ((Suc g * ic + ich) * b))"
    unfolding next_index
    by (rule int_fits [OF index_bound [OF g och] max], rule int_fits [OF index_bound [OF g ich] smax])
  from Suc.hyps(1) [OF _ _ step(2)] Suc.hyps(2) g obtain zs where
    "copy_loop b perm (int ((Suc g * oc + och) * b)) (int ((Suc g * ic + ich) * b)) (int (b * oc))
       (int (b * ic)) (int (frames * oc * b)) src (put_sample ys (g * oc + och) (?val g)) = Some zs"
    "channel_written b oc och frames ?val xs zs" by fastforce
  then show ?case
    using index_end [OF och b, of g frames] g pos step(1) next_i load_sample [OF k slen]
    by (subst copy_loop.simps) (simp del: of_nat_mult of_nat_add mult_Suc)
qed

section \<open>The routing functions\<close>

text \<open>Silence: 8-bit samples are unsigned, so it is 128 there and 0 otherwise.\<close>

definition silence :: "nat \<Rightarrow> byte list" where
  "silence b = (if b = 1 then [128] else replicate b 0)"

lemma length_silence [simp]: "length (silence b) = b"
  by (simp add: silence_def)

text \<open>What \<open>frames\<close> frames of \<open>b\<close>-byte samples need: room, and indices that fit an \<open>int\<close>.\<close>

definition frames_fit :: "nat \<Rightarrow> nat \<Rightarrow> nat \<Rightarrow> byte list \<Rightarrow> bool" where
  "frames_fit b channels frames xs \<longleftrightarrow>
     frames * channels * b \<le> length xs \<and> int ((frames + 1) * channels * b) \<le> INT_MAX"

lemma offset_fits:
  assumes "c < ch" and "int ((frames + 1) * ch * b) \<le> INT_MAX"
  shows "c_int (int c * int b) = Some (int ((0 * ch + c) * b))"
    and "c_int (int b * int ch) = Some (int (b * ch))"
proof -
  have "c * b \<le> (frames + 1) * ch * b" using index_bound [of 0 1 c ch b] assms(1)
    by (intro mult_le_mono1) simp
  then show "c_int (int c * int b) = Some (int ((0 * ch + c) * b))"
    using int_fits [OF _ assms(2), of "c * b"] by simp
  have "1 * (b * ch) \<le> (frames + 1) * (b * ch)" by (rule mult_le_mono1) simp
  then have "b * ch \<le> (frames + 1) * ch * b" by (simp add: algebra_simps)
  then show "c_int (int b * int ch) = Some (int (b * ch))"
    using int_fits [OF _ assms(2), of "b * ch"] by simp
qed

lemma width_cases:
  assumes "b \<in> {1..4 :: nat}"
  obtains "b = 1" | "b = 2" | "b = 3" | "b = 4"
  using assms by fastforce

lemma buffer_zero_written:
  assumes b: "b \<in> {1..4}" and och: "och < oc" and fit: "frames_fit b oc frames xs"
  obtains ys where "buffer_zero xs (int och) (int b) (int oc) (int (frames * oc * b)) = Some ys"
    "channel_written b oc och frames (\<lambda>_. silence b) xs ys"
proof -
  have f: "frames * oc * b \<le> length xs" "int ((frames + 1) * oc * b) \<le> INT_MAX"
    using fit by (simp_all add: frames_fit_def)
  have "0 < b" using b by simp
  from zero_loop_written [OF och length_silence [symmetric] this f le0 frontier_start]
  obtain ys where ys: "zero_loop (silence b) (int ((0 * oc + och) * b)) (int (b * oc))
      (int (frames * oc * b)) xs = Some ys"
    "channel_written b oc och frames (\<lambda>_. silence b) xs ys" by blast
  have "buffer_zero xs (int och) (int b) (int oc) (int (frames * oc * b)) =
      zero_loop (silence b) (int ((0 * oc + och) * b)) (int (b * oc)) (int (frames * oc * b)) xs"
    using offset_fits [OF och f(2)] b
    by (elim width_cases) (simp_all add: buffer_zero_def silence_def eval_nat_numeral)
  with that ys show ?thesis by simp
qed

lemma buffer_copy_written:
  assumes b: "b \<in> {1..4}" and och: "och < oc" and fit: "frames_fit b oc frames xs"
    and ich: "ich < ic" and sfit: "frames_fit b ic frames src"
  obtains ys where
    "(if swap then buffer_permute_swap else buffer_permute)
       xs (int och) (int b) (int oc) (int (frames * oc * b)) src (int ich) (int ic) = Some ys"
    "swap \<longrightarrow> b \<noteq> 1 \<Longrightarrow> channel_written b oc och frames
       (\<lambda>f. (if swap then rev else id) (sample b src (f * ic + ich))) xs ys"
proof -
  have f: "frames * oc * b \<le> length xs" "int ((frames + 1) * oc * b) \<le> INT_MAX"
    and s: "frames * ic * b \<le> length src" "int ((frames + 1) * ic * b) \<le> INT_MAX"
    using fit sfit by (simp_all add: frames_fit_def)
  have "0 < b" using b by simp
  from copy_loop_written [OF och ich this f s _ le0 frontier_start, of "if swap then rev else id"]
  obtain ys where ys: "copy_loop b (if swap then rev else id) (int ((0 * oc + och) * b))
      (int ((0 * ic + ich) * b)) (int (b * oc)) (int (b * ic)) (int (frames * oc * b)) src xs = Some ys"
    "channel_written b oc och frames
       (\<lambda>f. (if swap then rev else id) (sample b src (f * ic + ich))) xs ys"
    by (cases swap) auto
  show ?thesis
  proof (cases "swap \<and> b = 1")
    case True
    then have "buffer_permute_swap xs (int och) (int b) (int oc) (int (frames * oc * b)) src
        (int ich) (int ic) = Some xs"
      using offset_fits [OF och f(2)] offset_fits [OF ich s(2)] by (simp add: buffer_permute_swap_def)
    with that True show ?thesis by simp
  next
    case False
    then have "(if swap then buffer_permute_swap else buffer_permute)
       xs (int och) (int b) (int oc) (int (frames * oc * b)) src (int ich) (int ic) =
      copy_loop b (if swap then rev else id) (int ((0 * oc + och) * b))
        (int ((0 * ic + ich) * b)) (int (b * oc)) (int (b * ic)) (int (frames * oc * b)) src xs"
      using offset_fits [OF och f(2)] offset_fits [OF ich s(2)] b
      by (elim width_cases) (auto simp: buffer_permute_swap_def buffer_permute_def)
    with that ys show ?thesis by simp
  qed
qed

text \<open>Swapping the bytes of 16-bit samples twice gives them back.\<close>

lemma swap_samples_loop_written:
  assumes len: "n * 2 \<le> length src" "n * 2 \<le> length xs" and lim: "n * 2 + 2 < 2 ^ 32"
  shows "g \<le> n \<Longrightarrow> frontier 2 1 0 n g (\<lambda>f. rev (sample 2 src f)) xs ys \<Longrightarrow>
    \<exists>zs. swap_samples_loop (int (g * 2)) (int (n * 2)) src ys = Some zs \<and>
         channel_written 2 1 0 n (\<lambda>f. rev (sample 2 src f)) xs zs"
proof (induction "n - g" arbitrary: g ys)
  case 0
  then have "g = n" by simp
  with "0.prems" frontier_end show ?case by (subst swap_samples_loop.simps) auto
next
  case (Suc k)
  then have g: "g < n" by simp
  have v: "length (rev (sample 2 src g)) = 2" using length_sample [OF g len(1)] by simp
  have room: "n * 1 * 2 \<le> length xs" using len(2) by simp
  have step: "store ys (int (g * 2)) (rev (sample 2 src g)) = Some (put_sample ys g (rev (sample 2 src g)))"
    "frontier 2 1 0 n (Suc g) (\<lambda>f. rev (sample 2 src f)) xs (put_sample ys g (rev (sample 2 src g)))"
    using frontier_step [OF Suc.prems(2) g _ room v] by simp_all
  from Suc.hyps(1) [OF _ _ step(2)] Suc.hyps(2) g len obtain zs where
    "swap_samples_loop (int (Suc g * 2)) (int (n * 2)) src (put_sample ys g (rev (sample 2 src g))) = Some zs"
    "channel_written 2 1 0 n (\<lambda>f. rev (sample 2 src f)) xs zs" by fastforce
  then show ?case
    using g step(1) load_sample [OF g len(1)] len(2) lim
    by (subst swap_samples_loop.simps) (simp add: algebra_simps)
qed

lemma swap_samples_written:
  assumes len: "n * 2 \<le> length src" "n * 2 \<le> length xs" and lim: "n * 2 + 2 < 2 ^ 32"
  obtains ys where "swap_samples xs src (of_nat (n * 2)) = Some ys"
    "channel_written 2 1 0 n (\<lambda>f. rev (sample 2 src f)) xs ys"
proof -
  have "uint (of_nat (n * 2) :: 32 word) = int (n * 2)"
    using lim by (simp add: unsigned_of_nat take_bit_nat_eq_self del: of_nat_mult)
  moreover from swap_samples_loop_written [OF assms le0 frontier_start] obtain ys where
    "swap_samples_loop (int (0 * 2)) (int (n * 2)) src xs = Some ys"
    "channel_written 2 1 0 n (\<lambda>f. rev (sample 2 src f)) xs ys" by blast
  ultimately show ?thesis using that by (simp add: swap_samples_def)
qed

lemma realloc_swap_buffer_cases:
  assumes "realloc_swap_buffer d n w = (r, d', w')"
  shows "heap_step (blocks (swap_buffer d') - blocks (swap_buffer d)) w w'"
    and "d' = d\<lparr>swap_buffer := swap_buffer d', swap_buffer_size := swap_buffer_size d'\<rparr>"
    and "\<not> r \<Longrightarrow> d' = d"
  using assms
  by (auto simp: realloc_swap_buffer_def heap_step_def free_opt_def free_block_def off_heap_def
      split: if_splits prod.splits option.splits dest!: malloc_ok_heap)

end
