(* ===== verification/AO_Device.thy ===== *)
theory AO_Device
  imports AO_Registry AO_Matrix_Laws AO_Buffer
begin

text \<open>
  Opening, playing on and closing a device: \<open>_create_device\<close>, \<open>ao_device_load_options\<close>,
  \<open>_open_device\<close>, \<open>ao_open_live\<close>, \<open>ao_open_file\<close>, \<open>ao_play\<close> and \<open>ao_close\<close> of
  \<^verbatim>\<open>src/audio_out.c\<close>.

  An \<open>ao_device *\<close> that is not NULL is the pair of the function table \<open>device->funcs\<close> and the
  device record.  \<open>_open_device\<close> is cut into the stages the source marks with comments; each
  stage says whether to go on or to \<open>goto error\<close>.  Messages are not modelled, but what they
  read is: the short name of a driver in \<open>info_table\<close>, and the names of the input channels.
\<close>

type_synonym ('p, 'w) opened = "(('p, 'w) ao_functions \<times> 'p ao_device) option"

section \<open>Creating and configuring a device\<close>

definition create_device ::
  "int \<Rightarrow> ('p, 'w) ao_functions \<Rightarrow> ao_sample_format \<Rightarrow> nat option \<Rightarrow> 'z world_scheme
    \<Rightarrow> 'p ao_device option \<times> 'z world_scheme" where
  "create_device did F format fil w = (case malloc_ok w of (ok, w) \<Rightarrow>
     if \<not> ok then (None, w)
     else (Some
       \<lparr>dev_type = info_type (fn_driver_info F), driver_id = did, dev_file = fil,
        client_byte_format = real_byte_format (fmt_byte_format format) w,
        machine_byte_format = (if ao_is_big_endian w then AO_FMT_BIG else AO_FMT_LITTLE),
        driver_byte_format = 0, swap_buffer = None, swap_buffer_size = 0, input_channels = 0,
        output_channels = fmt_channels format, bytewidth = 0, dev_rate = 0,
        output_matrix_order = AO_OUTPUT_MATRIX_UNDEFINED, output_matrix = None, output_mask = 0,
        input_map = None, inter_matrix = None, inter_permute = None, internal = None,
        verbose = 0\<rparr>, w))"

text \<open>A message with the driver's short name: a fault if it is printed and the table lacks it.\<close>

definition names_driver :: "ao_info list option \<Rightarrow> 'p ao_device \<Rightarrow> unit option" where
  "names_driver table d =
     (if verbose d < 0 then Some ()
      else do { t \<leftarrow> table; i \<leftarrow> load 1 t (driver_id d); Some () })"

text \<open>\<open>ao_device_load_options\<close>: 0 or an error number.\<close>

fun device_load_options ::
  "('p, 'z world_scheme) ao_functions \<Rightarrow> ao_info list option \<Rightarrow> 'p ao_device \<Rightarrow> ao_option list
    \<Rightarrow> 'z world_scheme \<Rightarrow> (int \<times> 'p ao_device \<times> 'z world_scheme) option" where
  "device_load_options F table d [] w = Some (0, d, w)"
| "device_load_options F table d (op # ops) w = do {
     k \<leftarrow> opt_key op;
     (if k = ''matrix''
      then (case sanitize_matrix 32 (opt_value op) (free_opt (output_matrix d) w) of (m, w) \<Rightarrow>
              if m = None then Some (AO_EBADOPTION, d\<lparr>output_matrix := m\<rparr>, w)
              else device_load_options F table (d\<lparr>output_matrix := m\<rparr>) ops w)
      else if k = ''debug'' then device_load_options F table (d\<lparr>verbose := 2\<rparr>) ops w
      else if k = ''verbose''
      then device_load_options F table (if verbose d < 1 then d\<lparr>verbose := 1\<rparr> else d) ops w
      else if k = ''quiet'' then device_load_options F table (d\<lparr>verbose := -1\<rparr>) ops w
      else do {
        (ok, d, w) \<leftarrow> fn_set_option F d k (opt_value op) w;
        (if ok then device_load_options F table d ops w
         else do { _ \<leftarrow> names_driver table d; Some (AO_EOPENDEVICE, d, w) }) }) }"

section \<open>Closing\<close>

definition free_device :: "'p ao_device \<Rightarrow> 'z world_scheme \<Rightarrow> 'z world_scheme" where
  "free_device d w =
     free_block (free_opt (inter_permute d) (free_opt (inter_matrix d) (free_opt (input_map d)
       (free_opt (output_matrix d) (free_opt (swap_buffer d) w)))))"

definition ao_close ::
  "('p, 'z world_scheme) opened \<Rightarrow> 'z world_scheme \<Rightarrow> (bool \<times> 'z world_scheme) option" where
  "ao_close dev w = (case dev of
      None \<Rightarrow> Some (False, w)
    | Some (F, d) \<Rightarrow> do {
        (result, d, w) \<leftarrow> fn_close F d w;
        (d, w) \<leftarrow> fn_device_clear F d w;
        w \<leftarrow> (case dev_file d of None \<Rightarrow> Some w | Some f \<Rightarrow> fclose f w);
        Some (result, free_device d w) })"

section \<open>The stages of \<open>_open_device\<close>\<close>

text \<open>\<open>device_init\<close>, then the global options and those of the caller.\<close>

definition open_options ::
  "('p, 'z world_scheme) ao_functions \<Rightarrow> ao_info list option \<Rightarrow> ao_option list \<Rightarrow> ao_option list
    \<Rightarrow> 'p ao_device \<Rightarrow> 'z world_scheme \<Rightarrow> (bool \<times> 'p ao_device \<times> 'z world_scheme) option" where
  "open_options F table globals opts d w = do {
     (ok, d, w) \<leftarrow> fn_device_init F d w;
     (if \<not> ok then Some (False, d, set_errno AO_EFAIL w)
      else do {
        (e, d, w) \<leftarrow> device_load_options F table d globals w;
        let w = set_errno e w;
        (if e \<noteq> 0 then Some (False, d, w)
         else do {
           (e, d, w) \<leftarrow> device_load_options F table d opts w;
           Some (e = 0, d, set_errno e w) }) }) }"

text \<open>The matrix of the input; a mono \<open>M\<close> is dropped.\<close>

definition input_matrix ::
  "ao_sample_format \<Rightarrow> 'z world_scheme \<Rightarrow> string option \<times> 'z world_scheme" where
  "input_matrix format w = (case fmt_matrix format of
      None \<Rightarrow> (None, w)
    | Some s \<Rightarrow>
        (case sanitize_matrix (fmt_channels format) (Some s) w of (m, w) \<Rightarrow>
           if fmt_channels format = 1 \<and> m = Some ''M'' then (None, free_opt m w) else (m, w)))"

text \<open>The reconciliation of the driver's static matrix with that of the input.\<close>

definition reconcile ::
  "'p ao_device \<Rightarrow> ao_sample_format \<Rightarrow> 'z world_scheme
    \<Rightarrow> (bool \<times> 'p ao_device \<times> 'z world_scheme) option" where
  "reconcile d sf w = (case (output_matrix d, fmt_matrix sf) of
      (Some om, Some im) \<Rightarrow>
        (case output_matrix_order d of
           AO_OUTPUT_MATRIX_FIXED \<Rightarrow> do {
             (cmask, imap, w) \<leftarrow> matrix_to_channelmask (fmt_channels sf) im om w;
             let d = d\<lparr>input_map := imap\<rparr>;
             let mx = channelmask_maxbit cmask;
             (if mx < 0 then Some (False, d, set_errno AO_EBADFORMAT w)
              else (case strdup om w of (m, w) \<Rightarrow>
                Some (True, d\<lparr>output_channels := mx + 1, output_mask := cmask,
                              inter_matrix := m\<rparr>, w))) }
         | AO_OUTPUT_MATRIX_COLLAPSIBLE \<Rightarrow> do {
             (cmask, imap, w) \<leftarrow> matrix_to_channelmask (fmt_channels sf) im om w;
             let d = d\<lparr>input_map := imap\<rparr>;
             let channels = channelmask_bits cmask;
             (if channels \<le> 0 then Some (False, d, set_errno AO_EBADFORMAT w)
              else do {
                (m, w) \<leftarrow> channelmask_to_matrix cmask om w;
                Some (True, d\<lparr>output_channels := channels, output_mask := cmask,
                              inter_matrix := m\<rparr>, w) }) }
         | AO_OUTPUT_MATRIX_PERMUTABLE \<Rightarrow> do {
             (cmask, imap, w) \<leftarrow> matrix_to_channelmask (fmt_channels sf) im om w;
             let d = d\<lparr>input_map := imap\<rparr>;
             let channels = channelmask_bits cmask;
             (if channels \<le> 0 then Some (False, d, set_errno AO_EBADFORMAT w)
              else do {
                (m, w) \<leftarrow> matrix_intersect im om w;
                Some (True, d\<lparr>output_channels := channels, output_mask := cmask,
                              inter_matrix := m\<rparr>, w) }) }
         | AO_OUTPUT_MATRIX_UNDEFINED \<Rightarrow> Some (False, d, set_errno AO_EFAIL w))
    | _ \<Rightarrow> Some (True, d\<lparr>output_channels := fmt_channels sf\<rparr>, w))"

definition housekeeping :: "'p ao_device \<Rightarrow> ao_sample_format \<Rightarrow> 'p ao_device option" where
  "housekeeping d sf = do {
     b \<leftarrow> c_int (fmt_bits sf + 7);
     Some (d\<lparr>input_channels := fmt_channels sf, bytewidth := b div 8, dev_rate := fmt_rate sf\<rparr>) }"

text \<open>
  The permutation from the backend's channels to those of the input.  The debug message about
  an unmapped input channel \<open>j\<close> reads \<open>inch[j]\<close>; past the names there are it is a fault.
\<close>

definition build_permutation ::
  "ao_info list option \<Rightarrow> 'p ao_device \<Rightarrow> ao_sample_format \<Rightarrow> 'z world_scheme
    \<Rightarrow> (bool \<times> 'p ao_device \<times> 'z world_scheme) option" where
  "build_permutation table d sf w = (case fmt_matrix sf of
      None \<Rightarrow> Some (True, d, w)
    | Some im \<Rightarrow> do {
        (d, w) \<leftarrow> (if inter_matrix d = None then do {
                      _ \<leftarrow> names_driver table d;
                      (case strdup ''L,R'' w of (m, w) \<Rightarrow> Some (d\<lparr>inter_matrix := m\<rparr>, w)) }
                    else Some (d, w));
        (case (if output_channels d < 0 then (False, w) else malloc_ok w) of (ok, w) \<Rightarrow>
           if \<not> ok then Some (False, d\<lparr>inter_permute := None\<rparr>, set_errno AO_EFAIL w)
           else do {
             perm \<leftarrow> (if output_channels d = 0 then Some []
                     else do {
                       im' \<leftarrow> inter_matrix d;
                       permute_loop (nat (output_channels d)) im' im (fmt_channels sf) });
             let d = d\<lparr>inter_permute := Some perm\<rparr>;
             (case tokenize_matrix im w of (inch, w) \<Rightarrow>
                if verbose d = 2 \<and>
                   (case inch of None \<Rightarrow> False
                    | Some names \<Rightarrow>
                        list_ex (\<lambda>j. j \<notin> set perm \<and> int (length names) \<le> j) [0..fmt_channels sf - 1])
                then None
                else Some (True, d, free_map inch w)) }) })"

text \<open>A permutation that permutes nothing is released.\<close>

definition drop_identity ::
  "'p ao_device \<Rightarrow> 'z world_scheme \<Rightarrow> ('p ao_device \<times> 'z world_scheme) option" where
  "drop_identity d w = (case inter_permute d of
      None \<Rightarrow> Some (d, w)
    | Some perm \<Rightarrow>
        if output_channels d = input_channels d then do {
          p \<leftarrow> load (nat (output_channels d)) perm 0;
          Some (if p = [0..output_channels d - 1]
                then (d\<lparr>inter_permute := None\<rparr>, free_block w) else (d, w)) }
        else Some (d, w))"

definition needs_swap :: "'p ao_device \<Rightarrow> bool" where
  "needs_swap d \<longleftrightarrow> bytewidth d > 1 \<and> client_byte_format d \<noteq> driver_byte_format d"

definition DEF_SWAP_BUF_SIZE :: int where
  "DEF_SWAP_BUF_SIZE = 1024"

text \<open>
  The last stage.  When the swap buffer cannot be had, the device is torn down here and not by
  \<open>ao_close\<close>: the file stays open, and the matrices and the maps are not freed.
\<close>

definition finish_open ::
  "('p, 'z world_scheme) ao_functions \<Rightarrow> 'p ao_device \<Rightarrow> string option \<Rightarrow> 'z world_scheme
    \<Rightarrow> (('p, 'z world_scheme) opened \<times> 'z world_scheme) option" where
  "finish_open F d im w =
     (let d = d\<lparr>driver_byte_format := real_byte_format (driver_byte_format d) w\<rparr>
      in if needs_swap d \<or> input_channels d \<noteq> output_channels d \<or> inter_permute d \<noteq> None
         then (case realloc_swap_buffer d DEF_SWAP_BUF_SIZE w of (ok, d, w) \<Rightarrow>
           if ok then Some (Some (F, d), free_opt im w)
           else do {
             (_, d, w) \<leftarrow> fn_close F d (free_opt im w);
             (d, w) \<leftarrow> fn_device_clear F d w;
             Some (None, set_errno AO_EFAIL (free_block w)) })
         else Some (Some (F, d), free_opt im w))"

text \<open>The label \<open>error\<close>.\<close>

definition open_error ::
  "('p, 'z world_scheme) opened \<Rightarrow> string option \<Rightarrow> 'z world_scheme
    \<Rightarrow> (('p, 'z world_scheme) opened \<times> 'z world_scheme) option" where
  "open_error dev im w = do {
     (_, w') \<leftarrow> ao_close dev (free_opt im w);
     Some (None, set_errno (w_errno w) w') }"

section \<open>Opening\<close>

text \<open>From the reconciliation to the end, once the options and the input matrix are known.\<close>

definition open_backend ::
  "('p, 'z world_scheme) ao_functions \<Rightarrow> ao_info list option \<Rightarrow> ao_sample_format
    \<Rightarrow> 'p ao_device \<Rightarrow> 'z world_scheme \<Rightarrow> (('p, 'z world_scheme) opened \<times> 'z world_scheme) option" where
  "open_backend F table sf d w = do {
     (ok, d, w) \<leftarrow> reconcile d sf w;
     (if \<not> ok then open_error (Some (F, d)) (fmt_matrix sf) w
      else do {
        d \<leftarrow> housekeeping d sf;
        (ok, d, sf, w) \<leftarrow> fn_open F d sf w;
        (if \<not> ok then open_error (Some (F, d)) (fmt_matrix sf) (set_errno AO_EOPENDEVICE w)
         else do {
           (ok, d, w) \<leftarrow> build_permutation table d sf w;
           (if \<not> ok then open_error (Some (F, d)) (fmt_matrix sf) w
            else do {
              (d, w) \<leftarrow> drop_identity d w;
              finish_open F d (fmt_matrix sf) w }) }) }) }"

definition open_device ::
  "int \<Rightarrow> ao_sample_format \<Rightarrow> ao_option list \<Rightarrow> nat option
    \<Rightarrow> ('p, 'z world_scheme) ao_lib \<Rightarrow> 'z world_scheme
    \<Rightarrow> (('p, 'z world_scheme) opened \<times> 'z world_scheme) option" where
  "open_device did format opts fil lib w = (case get_driver did lib of
      None \<Rightarrow> open_error None None (set_errno AO_ENODRIVER w)
    | Some driver \<Rightarrow>
        let F = drv_functions driver in
        if fil = None \<and> info_type (fn_driver_info F) \<noteq> AO_TYPE_LIVE
        then open_error None None (set_errno AO_ENOTLIVE w)
        else if fil \<noteq> None \<and> info_type (fn_driver_info F) \<noteq> AO_TYPE_FILE
        then open_error None None (set_errno AO_ENOTFILE w)
        else (case create_device did F format fil w of
            (None, w) \<Rightarrow> open_error None None (set_errno AO_EFAIL w)
          | (Some d, w) \<Rightarrow> do {
              (ok, d, w) \<leftarrow> open_options F (info_table lib) (global_options lib) opts d w;
              (if \<not> ok then open_error (Some (F, d)) None w
               else (case input_matrix format w of (im, w) \<Rightarrow>
                 open_backend F (info_table lib) (format\<lparr>fmt_matrix := im\<rparr>) d w)) }))"

definition ao_open_live ::
  "int \<Rightarrow> ao_sample_format \<Rightarrow> ao_option list \<Rightarrow> ('p, 'z world_scheme) ao_lib \<Rightarrow> 'z world_scheme
    \<Rightarrow> (('p, 'z world_scheme) opened \<times> 'z world_scheme) option" where
  "ao_open_live did format opts lib w = open_device did format opts None lib w"

text \<open>Stream 0 is \<open>stdout\<close>.  When \<open>_open_device\<close> fails the file is closed (again).\<close>

definition ao_open_file ::
  "int \<Rightarrow> string \<Rightarrow> bool \<Rightarrow> ao_sample_format \<Rightarrow> ao_option list
    \<Rightarrow> ('p, 'z world_scheme) ao_lib \<Rightarrow> 'z world_scheme
    \<Rightarrow> (('p, 'z world_scheme) opened \<times> 'z world_scheme) option" where
  "ao_open_file did filename overwrite format opts lib w =
     (if filename \<noteq> ''-'' \<and> \<not> overwrite \<and> fopen_r filename w \<noteq> None
      then Some (None, set_errno AO_EFILEEXISTS w)
      else (case (if filename = ''-'' then (Some 0, w) else fopen_w filename w) of
          (None, w) \<Rightarrow> Some (None, set_errno AO_EOPENFILE w)
        | (Some f, w) \<Rightarrow> do {
            (dev, w) \<leftarrow> open_device did format opts (Some f) lib w;
            (if dev = None then do { w \<leftarrow> fclose f w; Some (None, w) }
             else Some (dev, w)) }))"

section \<open>Playing\<close>

text \<open>The loop of \<open>ao_play\<close> over the backend's channels.\<close>

function route_loop ::
  "int \<Rightarrow> 'p ao_device \<Rightarrow> int \<Rightarrow> byte list \<Rightarrow> byte list \<Rightarrow> byte list option" where
  "route_loop i d out_bytes samples buf =
     (if \<not> i < output_channels d then Some buf
      else do {
        ic \<leftarrow> (case inter_permute d of
                 None \<Rightarrow> Some i
               | Some perm \<Rightarrow> map_option hd (load 1 perm i));
        buf \<leftarrow> (if ic = -1
                then buffer_zero buf i (bytewidth d) (output_channels d) out_bytes
                else (if needs_swap d then buffer_permute_swap else buffer_permute)
                  buf i (bytewidth d) (output_channels d) out_bytes samples ic (input_channels d));
        route_loop (i + 1) d out_bytes samples buf })"
  by pat_completeness auto
termination
  by (relation "measure (\<lambda>(i, d, _). nat (output_channels d - i))") auto

declare route_loop.simps [simp del]

text \<open>
  \<open>out_bytes\<close> is computed in 32-bit unsigned arithmetic and then read as an \<open>int\<close>.  Dividing by
  zero channels is a fault.
\<close>

definition ao_play ::
  "('p, 'z world_scheme) opened \<Rightarrow> byte list \<Rightarrow> 32 word \<Rightarrow> 'z world_scheme
    \<Rightarrow> (bool \<times> ('p, 'z world_scheme) opened \<times> 'z world_scheme) option" where
  "ao_play dev samples num_bytes w = (case dev of
      None \<Rightarrow> Some (False, None, w)
    | Some (F, d) \<Rightarrow>
        if swap_buffer d = None then do {
          (r, d, w) \<leftarrow> fn_play F d samples num_bytes w;
          Some (r, Some (F, d), w) }
        else if input_channels d = 0 then None
        else
          let out_bytes = int_of_u32 (num_bytes * word_of_int (output_channels d)
                            div word_of_int (input_channels d))
          in (case realloc_swap_buffer d out_bytes w of (ok, d, w) \<Rightarrow>
                if \<not> ok then Some (False, Some (F, d), w)
                else do {
                  buf \<leftarrow> swap_buffer d;
                  buf \<leftarrow> route_loop 0 d out_bytes samples buf;
                  (r, d, w) \<leftarrow> fn_play F (d\<lparr>swap_buffer := Some buf\<rparr>) buf (word_of_int out_bytes) w;
                  Some (r, Some (F, d), w) }))"

end
