(* ===== verification/AO_Play_Laws.thy ===== *)
theory AO_Play_Laws
  imports AO_Device
begin

text \<open>
  What \<open>ao_play\<close> sends to the backend: for whole frames it is, sample by sample, the input routed
  by the permutation, byte-swapped when the formats differ, with silence on the channels that
  no input channel feeds.
\<close>

section \<open>Bytes and samples\<close>

lemma take_samples:
  "n * b \<le> length xs \<Longrightarrow> take (n * b) xs = concat (map (sample b xs) [0..<n])"
proof (induction n)
  case 0
  then show ?case by simp
next
  case (Suc n)
  have "take (Suc n * b) xs = take (n * b) xs @ sample b xs n"
    by (simp add: sample_def take_add [symmetric] add.commute)
  with Suc show ?case by simp
qed

lemma concat_frames:
  "concat (map (\<lambda>f. concat (map (\<lambda>c. g (f * oc + c)) [0..<oc])) [0..<n]) = concat (map g [0..<n * oc])"
proof (induction n)
  case 0
  then show ?case by simp
next
  case (Suc n)
  have "[0..<Suc n * oc] = [0..<n * oc] @ map (\<lambda>c. n * oc + c) [0..<oc]"
    using upt_add_eq_append [of 0 "n * oc" oc] by (simp add: add.commute map_add_upt [symmetric] add.left_commute)
  then have "concat (map g [0..<Suc n * oc]) =
      concat (map g [0..<n * oc]) @ concat (map (\<lambda>c. g (n * oc + c)) [0..<oc])"
    by (simp add: comp_def)
  with Suc show ?case by simp
qed

section \<open>The specification of routing\<close>

text \<open>The input channel of backend channel \<open>c\<close>, -1 for none.\<close>

definition route :: "'p ao_device \<Rightarrow> nat \<Rightarrow> int" where
  "route d c = (case inter_permute d of None \<Rightarrow> int c | Some perm \<Rightarrow> perm ! c)"

definition routed_sample :: "'p ao_device \<Rightarrow> byte list \<Rightarrow> nat \<Rightarrow> nat \<Rightarrow> byte list" where
  "routed_sample d samples f c =
     (let b = nat (bytewidth d)
      in if route d c = -1 then silence b
         else (if needs_swap d then rev else id)
                (sample b samples (f * nat (input_channels d) + nat (route d c))))"

definition routed :: "'p ao_device \<Rightarrow> nat \<Rightarrow> byte list \<Rightarrow> byte list" where
  "routed d frames samples =
     concat (map (\<lambda>f. concat (map (routed_sample d samples f) [0..<nat (output_channels d)])) [0..<frames])"

text \<open>The devices this holds for: a sample width of 1 to 4 bytes, and a route inside the input.\<close>

definition well_routed :: "'p ao_device \<Rightarrow> bool" where
  "well_routed d \<longleftrightarrow>
     1 \<le> bytewidth d \<and> bytewidth d \<le> 4 \<and> 0 < input_channels d \<and> 0 < output_channels d \<and>
     input_channels d \<le> INT_MAX \<and> output_channels d \<le> INT_MAX \<and>
     (case inter_permute d of None \<Rightarrow> output_channels d \<le> input_channels d
      | Some perm \<Rightarrow> int (length perm) = output_channels d \<and>
          (\<forall>c \<in> set perm. -1 \<le> c \<and> c < input_channels d))"

definition buffer_ok :: "'p ao_device \<Rightarrow> bool" where
  "buffer_ok d \<longleftrightarrow> 0 \<le> swap_buffer_size d \<and>
     (case swap_buffer d of None \<Rightarrow> swap_buffer_size d = 0
      | Some buf \<Rightarrow> int (length buf) = swap_buffer_size d)"

lemma route_bounds:
  assumes "well_routed d" and "c < nat (output_channels d)"
  shows "-1 \<le> route d c \<and> route d c < input_channels d"
  using assms by (auto simp: well_routed_def route_def split: option.splits)

lemma route_lookup:
  assumes "well_routed d" and "c < nat (output_channels d)"
  shows "(case inter_permute d of None \<Rightarrow> Some (int c)
          | Some perm \<Rightarrow> map_option hd (load 1 perm (int c))) = Some (route d c)"
  using assms
  by (auto simp: well_routed_def route_def load_def hd_drop_conv_nth take_Suc split: option.splits)

text \<open>One turn of the loop writes one channel of every frame.\<close>

lemma route_step:
  assumes wr: "well_routed d" and b: "b = nat (bytewidth d)" and oc: "oc = nat (output_channels d)"
    and c: "c < oc" and fit: "frames_fit b oc frames buf"
    and sfit: "frames_fit b (nat (input_channels d)) frames samples"
  obtains ys where
    "(if route d c = -1
      then buffer_zero buf (int c) (bytewidth d) (output_channels d) (int (frames * oc * b))
      else (if needs_swap d then buffer_permute_swap else buffer_permute) buf (int c) (bytewidth d)
        (output_channels d) (int (frames * oc * b)) samples (route d c) (input_channels d)) = Some ys"
    "channel_written b oc c frames (\<lambda>f. routed_sample d samples f c) buf ys"
proof -
  have w: "b \<in> {1..4}" "bytewidth d = int b" "output_channels d = int oc"
    using wr b oc by (auto simp: well_routed_def)
  obtain ic where ic: "input_channels d = int ic"
    using wr zero_le_imp_eq_int [of "input_channels d"] by (auto simp: well_routed_def)
  show ?thesis
  proof (cases "route d c = -1")
    case True
    from buffer_zero_written [OF w(1) c fit] obtain ys where
      "buffer_zero buf (int c) (int b) (int oc) (int (frames * oc * b)) = Some ys"
      "channel_written b oc c frames (\<lambda>_. silence b) buf ys" .
    with that [of ys] True show ?thesis
      unfolding w(2,3) by (simp add: routed_sample_def b [symmetric])
  next
    case False
    then obtain k where k: "route d c = int k" "k < ic"
      using route_bounds [OF wr, of c] c oc ic zero_le_imp_eq_int [of "route d c"] by auto
    have "frames_fit b ic frames samples" using sfit ic by simp
    from buffer_copy_written [OF w(1) c fit k(2) this, of "needs_swap d"] obtain ys where ys:
      "(if needs_swap d then buffer_permute_swap else buffer_permute) buf (int c) (int b) (int oc)
         (int (frames * oc * b)) samples (int k) (int ic) = Some ys"
      "needs_swap d \<longrightarrow> b \<noteq> 1 \<Longrightarrow> channel_written b oc c frames
         (\<lambda>f. (if needs_swap d then rev else id) (sample b samples (f * ic + k))) buf ys" by blast
    have "needs_swap d \<longrightarrow> b \<noteq> 1" using b by (auto simp: needs_swap_def)
    with ys(2) have "channel_written b oc c frames (\<lambda>f. routed_sample d samples f c) buf ys"
      using False k ic b by (simp add: routed_sample_def)
    with that [of ys] ys(1) False show ?thesis unfolding w(2,3) k(1) ic by simp
  qed
qed

text \<open>The first \<open>i\<close> channels are written.\<close>

definition channels_written ::
  "nat \<Rightarrow> nat \<Rightarrow> nat \<Rightarrow> nat \<Rightarrow> (nat \<Rightarrow> nat \<Rightarrow> byte list) \<Rightarrow> byte list \<Rightarrow> byte list \<Rightarrow> bool" where
  "channels_written b oc frames i val xs ys \<longleftrightarrow>
     length ys = length xs \<and>
     (\<forall>f < frames. \<forall>c < oc. sample b ys (f * oc + c) = (if c < i then val f c else sample b xs (f * oc + c)))"

lemma channels_written_step:
  "channels_written b oc frames i val xs ys \<Longrightarrow>
   channel_written b oc i frames (\<lambda>f. val f i) ys zs \<Longrightarrow>
   channels_written b oc frames (Suc i) val xs zs"
  by (auto simp: channels_written_def channel_written_def less_Suc_eq)

lemma route_loop_written:
  assumes wr: "well_routed d" and b: "b = nat (bytewidth d)" and oc: "oc = nat (output_channels d)"
    and fit: "frames_fit b oc frames xs"
    and sfit: "frames_fit b (nat (input_channels d)) frames samples"
  shows "i \<le> oc \<Longrightarrow> channels_written b oc frames i (routed_sample d samples) xs ys \<Longrightarrow>
    \<exists>zs. route_loop (int i) d (int (frames * oc * b)) samples ys = Some zs \<and>
         channels_written b oc frames oc (routed_sample d samples) xs zs"
proof (induction "oc - i" arbitrary: i ys)
  case 0
  then have "i = oc" by simp
  moreover have "\<not> int oc < output_channels d" using oc by simp
  ultimately show ?case using "0.prems" by (subst route_loop.simps) auto
next
  case (Suc n)
  then have i: "i < oc" by simp
  have fity: "frames_fit b oc frames ys"
    using fit Suc.prems(2) by (simp add: frames_fit_def channels_written_def)
  from route_step [OF wr b oc i fity sfit] obtain zs where zs:
    "(if route d i = -1
      then buffer_zero ys (int i) (bytewidth d) (output_channels d) (int (frames * oc * b))
      else (if needs_swap d then buffer_permute_swap else buffer_permute) ys (int i) (bytewidth d)
        (output_channels d) (int (frames * oc * b)) samples (route d i) (input_channels d)) = Some zs"
    "channel_written b oc i frames (\<lambda>f. routed_sample d samples f i) ys zs" .
  have n: "n = oc - Suc i" "Suc i \<le> oc" using Suc.hyps(2) i by auto
  from Suc.hyps(1) [OF n channels_written_step [OF Suc.prems(2) zs(2)]]
  obtain vs where vs: "route_loop (int (Suc i)) d (int (frames * oc * b)) samples zs = Some vs"
    "channels_written b oc frames oc (routed_sample d samples) xs vs" by blast
  have lt: "int i < output_channels d" and s: "int (Suc i) = int i + 1" using i oc by auto
  have look: "(case inter_permute d of None \<Rightarrow> Some (int i)
      | Some perm \<Rightarrow> map_option hd (load 1 perm (int i))) = Some (route d i)"
    using route_lookup [OF wr, of i] i oc by simp
  have "route_loop (int i) d (int (frames * oc * b)) samples ys = Some vs"
    by (subst route_loop.simps) (simp add: lt look zs(1) vs(1) [unfolded s] del: of_nat_mult)
  with vs(2) show ?case by blast
qed

lemma channels_written_routed:
  assumes "channels_written b oc frames oc (routed_sample d samples) xs ys"
    and "frames_fit b oc frames xs" and "oc = nat (output_channels d)"
  shows "take (frames * oc * b) ys = routed d frames samples"
proof -
  have "frames * oc * b \<le> length ys"
    using assms(1,2) by (simp add: channels_written_def frames_fit_def)
  then have "take (frames * oc * b) ys = concat (map (sample b ys) [0..<frames * oc])"
    by (rule take_samples)
  also have "\<dots> = concat (map (\<lambda>f. concat (map (\<lambda>c. sample b ys (f * oc + c)) [0..<oc])) [0..<frames])"
    by (rule concat_frames [symmetric])
  also have "\<dots> = routed d frames samples"
    unfolding routed_def assms(3) [symmetric]
    using assms(1) by (intro arg_cong [of _ _ concat] map_cong) (auto simp: channels_written_def)
  finally show ?thesis .
qed

lemma ao_play_swap:
  assumes "swap_buffer d \<noteq> None" and "input_channels d \<noteq> 0"
  shows "ao_play (Some (F, d)) samples n w =
    (case realloc_swap_buffer d (int_of_u32 (n * word_of_int (output_channels d)
             div word_of_int (input_channels d))) w of (ok, d', w) \<Rightarrow>
      if \<not> ok then Some (False, Some (F, d'), w)
      else do {
        buf \<leftarrow> swap_buffer d';
        buf \<leftarrow> route_loop 0 d' (int_of_u32 (n * word_of_int (output_channels d)
             div word_of_int (input_channels d))) samples buf;
        (r, d', w) \<leftarrow> fn_play F (d'\<lparr>swap_buffer := Some buf\<rparr>) buf
             (word_of_int (int_of_u32 (n * word_of_int (output_channels d)
             div word_of_int (input_channels d)))) w;
        Some (r, Some (F, d'), w) })"
  using assms unfolding ao_play_def by (simp del: not_None_eq)

section \<open>The arithmetic of \<open>ao_play\<close>\<close>

lemma uint_of_nat32: "n < 2 ^ 32 \<Longrightarrow> uint (of_nat n :: 32 word) = int n"
  by (simp add: unsigned_of_nat take_bit_nat_eq_self)

lemma sint_of_nat32: "int n \<le> INT_MAX \<Longrightarrow> sint (of_nat n :: 32 word) = int n"
  by (simp add: INT_MAX_def signed_of_nat signed_take_bit_int_eq_self)

lemma out_bytes_eq:
  assumes "0 < ic" and "frames * ic * b * oc < 2 ^ 32" and "ic < 2 ^ 32" and "oc < 2 ^ 32"
    and "int (frames * oc * b) \<le> INT_MAX"
  shows "int_of_u32 (of_nat (frames * ic * b) * word_of_int (int oc) div word_of_int (int ic))
    = int (frames * oc * b)"
proof -
  have "(of_nat (frames * ic * b) * word_of_int (int oc) :: 32 word) = of_nat (frames * ic * b * oc)"
    by simp
  moreover have "(of_nat (frames * ic * b * oc) div of_nat ic :: 32 word) = of_nat (frames * oc * b)"
  proof (rule word_uint_eqI)
    have e: "frames * ic * b * oc = frames * oc * b * ic" by simp
    have "int (frames * oc * b) < int (2 ^ 32)" using assms(5) unfolding INT_MAX_def by simp
    then have "frames * oc * b < 2 ^ 32" by (simp only: of_nat_less_iff)
    then show "uint (of_nat (frames * ic * b * oc) div of_nat ic :: 32 word)
        = uint (of_nat (frames * oc * b) :: 32 word)"
      unfolding uint_div using assms(1,3) uint_of_nat32 [OF assms(2)]
      by (simp only: uint_of_nat32 e) simp
  qed
  ultimately show ?thesis using sint_of_nat32 [OF assms(5)] by simp
qed

section \<open>Playing whole frames\<close>

text \<open>
  The bounds under which the indices and the products of \<open>ao_play\<close> stay in range, for \<open>frames\<close>
  frames at the start of \<open>samples\<close>.
\<close>

definition playable :: "'p ao_device \<Rightarrow> nat \<Rightarrow> byte list \<Rightarrow> bool" where
  "playable d frames samples \<longleftrightarrow>
     frames_fit (nat (bytewidth d)) (nat (input_channels d)) frames samples \<and>
     int ((frames + 1) * nat (output_channels d) * nat (bytewidth d)) \<le> INT_MAX \<and>
     frames * nat (input_channels d) * nat (bytewidth d) * nat (output_channels d) < 2 ^ 32"

definition in_bytes :: "'p ao_device \<Rightarrow> nat \<Rightarrow> nat" where
  "in_bytes d frames = frames * nat (input_channels d) * nat (bytewidth d)"

definition out_size :: "'p ao_device \<Rightarrow> nat \<Rightarrow> nat" where
  "out_size d frames = frames * nat (output_channels d) * nat (bytewidth d)"

lemma length_routed_sample:
  assumes "well_routed d" "playable d frames samples" "f < frames" "c < nat (output_channels d)"
  shows "length (routed_sample d samples f c) = nat (bytewidth d)"
proof -
  let ?ic = "nat (input_channels d)"
  have "length (sample (nat (bytewidth d)) samples (f * ?ic + nat (route d c))) = nat (bytewidth d)"
    if "route d c \<noteq> -1"
  proof -
    have "nat (route d c) < ?ic" using route_bounds [OF assms(1,4)] that by auto
    from length_sample [OF frame_index [OF assms(3) this]] assms(2) show ?thesis
      by (simp add: playable_def frames_fit_def)
  qed
  then show ?thesis by (simp add: routed_sample_def)
qed

lemma length_routed:
  assumes "well_routed d" "playable d frames samples"
  shows "length (routed d frames samples) = out_size d frames"
proof -
  let ?oc = "nat (output_channels d)" and ?b = "nat (bytewidth d)"
  have "length (concat (map (routed_sample d samples f) [0..<?oc])) = ?oc * ?b" if "f < frames" for f
  proof -
    have "map (length \<circ> routed_sample d samples f) [0..<?oc] = map (\<lambda>_. ?b) [0..<?oc]"
      using length_routed_sample [OF assms that] by simp
    then show ?thesis by (simp add: length_concat sum_list_triv del: map_eq_conv)
  qed
  then have "map (length \<circ> (\<lambda>f. concat (map (routed_sample d samples f) [0..<?oc]))) [0..<frames]
      = map (\<lambda>_. ?oc * ?b) [0..<frames]" by simp
  then show ?thesis
    by (simp add: routed_def out_size_def length_concat sum_list_triv algebra_simps del: map_eq_conv)
qed

lemma realloc_swap_buffer_fits:
  assumes "buffer_ok d" and "w_allocs w = []" and "0 \<le> n"
  obtains buf size v where
    "realloc_swap_buffer d n w = (True, d\<lparr>swap_buffer := buf, swap_buffer_size := size\<rparr>, v)"
    "swap_buffer d \<noteq> None \<or> 0 < n \<Longrightarrow> \<exists>xs. buf = Some xs \<and> n \<le> int (length xs) \<and> int (length xs) = size"
    "heap_step (blocks buf - blocks (swap_buffer d)) w v"
proof -
  obtain r d' v where e: "realloc_swap_buffer d n w = (r, d', v)" by (cases "realloc_swap_buffer d n w")
  have r: "r" using e assms(2) by (auto simp: realloc_swap_buffer_def split: if_splits)
  have "swap_buffer d \<noteq> None \<or> 0 < n \<Longrightarrow> \<exists>xs. swap_buffer d' = Some xs \<and> n \<le> int (length xs) \<and>
      int (length xs) = swap_buffer_size d'"
    using e assms
    by (auto simp: realloc_swap_buffer_def buffer_ok_def split: if_splits option.splits)
  with that realloc_swap_buffer_cases(1,2) [OF e] e r show ?thesis by metis
qed

text \<open>
  \<open>ao_play\<close> on a device with a swap buffer: the backend's \<open>play\<close> is called once, with the routed
  frames at the start of the buffer and their number of bytes.
\<close>

lemma ao_play_routed:
  assumes wr: "well_routed d" and pl: "playable d frames samples" and bo: "buffer_ok d"
    and sb: "swap_buffer d \<noteq> None" and w: "w_allocs w = []"
  obtains buf size v where
    "ao_play (Some (F, d)) samples (of_nat (in_bytes d frames)) w =
       Option.bind (fn_play F (d\<lparr>swap_buffer := Some buf, swap_buffer_size := size\<rparr>) buf
          (of_nat (out_size d frames)) v) (\<lambda>(r, d, w). Some (r, Some (F, d), w))"
    "take (out_size d frames) buf = routed d frames samples" "out_size d frames \<le> length buf"
    "int (length buf) = size" "heap_step 0 w v"
proof -
  let ?b = "nat (bytewidth d)" and ?ic = "nat (input_channels d)" and ?oc = "nat (output_channels d)"
  have pos: "0 < ?b" "0 < ?ic" "0 < ?oc" "input_channels d = int ?ic" "output_channels d = int ?oc"
    "?ic < 2 ^ 32" "?oc < 2 ^ 32"
    using wr by (auto simp: well_routed_def INT_MAX_def)
  have max: "int ((frames + 1) * ?oc * ?b) \<le> INT_MAX" using pl by (simp add: playable_def)
  have "frames * ?oc * ?b \<le> (frames + 1) * ?oc * ?b" by (intro mult_le_mono1) simp
  then have size: "int (out_size d frames) \<le> INT_MAX" using max unfolding out_size_def by linarith
  have ob: "int_of_u32 (of_nat (in_bytes d frames) * word_of_int (output_channels d)
      div word_of_int (input_channels d)) = int (out_size d frames)"
    using out_bytes_eq [OF pos(2) _ pos(6,7), of frames ?b] pl size pos(4,5)
    by (simp add: playable_def in_bytes_def out_size_def del: of_nat_mult)
  obtain buf0 sz v where r:
    "realloc_swap_buffer d (int (out_size d frames)) w = (True, d\<lparr>swap_buffer := buf0, swap_buffer_size := sz\<rparr>, v)"
    "\<exists>xs. buf0 = Some xs \<and> int (out_size d frames) \<le> int (length xs) \<and> int (length xs) = sz"
    "heap_step (blocks buf0 - blocks (swap_buffer d)) w v"
    by (rule realloc_swap_buffer_fits [OF bo w, of "int (out_size d frames)"]) (use sb in \<open>simp, blast\<close>)
  then obtain xs where xs: "buf0 = Some xs" "out_size d frames \<le> length xs" "int (length xs) = sz" by auto
  let ?d = "d\<lparr>swap_buffer := Some xs, swap_buffer_size := sz\<rparr>"
  have same: "well_routed ?d" "routed_sample ?d samples = routed_sample d samples"
    using wr
    by (auto simp: well_routed_def routed_sample_def route_def needs_swap_def split: option.splits
        intro!: ext)
  have fit: "frames_fit ?b ?oc frames xs" "frames_fit ?b ?ic frames samples"
    using xs(2) max pl by (simp_all add: frames_fit_def playable_def out_size_def)
  have "channels_written ?b ?oc frames 0 (routed_sample ?d samples) xs xs"
    by (simp add: channels_written_def)
  from route_loop_written [OF same(1) _ _ _ _ _ this] fit obtain zs where
    zs: "route_loop 0 ?d (int (frames * ?oc * ?b)) samples xs = Some zs"
    "channels_written ?b ?oc frames ?oc (routed_sample d samples) xs zs"
    unfolding same(2) by auto
  have take: "take (out_size d frames) zs = routed d frames samples"
    unfolding out_size_def by (rule channels_written_routed [OF zs(2) fit(1) refl])
  have len: "length zs = length xs" using zs(2) by (simp add: channels_written_def)
  have "(word_of_int (int (out_size d frames)) :: 32 word) = of_nat (out_size d frames)" by simp
  moreover have "input_channels d \<noteq> 0" using pos(2) by auto
  moreover have swap: "d\<lparr>swap_buffer_size := sz, swap_buffer := Some zs\<rparr> =
      d\<lparr>swap_buffer := Some zs, swap_buffer_size := sz\<rparr>" by (cases d) simp
  ultimately have "ao_play (Some (F, d)) samples (of_nat (in_bytes d frames)) w =
       Option.bind (fn_play F (d\<lparr>swap_buffer := Some zs, swap_buffer_size := sz\<rparr>) zs
          (of_nat (out_size d frames)) v) (\<lambda>(r, d, w). Some (r, Some (F, d), w))"
    using sb r(1) xs(1) zs(1) [folded out_size_def]
    unfolding ao_play_def ob by (auto simp: ob) (simp only: swap)
  moreover have "heap_step 0 w v" using r(3) xs(1) sb by (auto simp: blocks_def)
  ultimately show ?thesis using that take len xs by auto
qed

end
