(* ===== verification/AO_Driver.thy ===== *)
theory AO_Driver
  imports AO_Play_Laws
begin

text \<open>
  The contract between the library and a driver, as locales over a function table, and what the
  library guarantees on top of it: every heap block that opening a device takes is held by the
  device and given back by \<open>ao_close\<close>, and an open that fails gives everything back (if the swap
  buffer was not what failed).
\<close>

section \<open>The ledger of a device\<close>

text \<open>\<open>blk p\<close> counts the blocks behind \<open>device->internal\<close>; the device structure itself is one more.\<close>

definition internal_blocks :: "('p \<Rightarrow> int) \<Rightarrow> 'p ao_device \<Rightarrow> int" where
  "internal_blocks blk d = (case internal d of None \<Rightarrow> 0 | Some p \<Rightarrow> blk p)"

definition device_blocks :: "('p \<Rightarrow> int) \<Rightarrow> 'p ao_device \<Rightarrow> int" where
  "device_blocks blk d =
     internal_blocks blk d + blocks (swap_buffer d) + blocks (output_matrix d) +
     blocks (input_map d) + blocks (inter_matrix d) + blocks (inter_permute d)"

lemmas ledger = device_blocks_def internal_blocks_def

text \<open>
  \<open>books\<close>: from \<open>(d, w)\<close> to \<open>(d', w')\<close> the blocks taken are those the device has gained, plus
  \<open>n\<close>.
\<close>

definition books ::
  "int \<Rightarrow> ('p \<Rightarrow> int) \<Rightarrow> 'p ao_device \<Rightarrow> 'z world_scheme \<Rightarrow> 'p ao_device \<Rightarrow> 'z world_scheme \<Rightarrow> bool" where
  "books n blk d w d' w' \<longleftrightarrow>
     w_live w' - device_blocks blk d' = w_live w - device_blocks blk d + n \<and>
     (w_allocs w = [] \<longrightarrow> w_allocs w' = [])"

lemma books_refl [simp, intro]: "books 0 blk d w d w"
  by (simp add: books_def)

lemma books_trans: "books m blk d w e v \<Longrightarrow> books n blk e v f u \<Longrightarrow> books (m + n) blk d w f u"
  by (simp add: books_def)

lemma books_trans0: "books 0 blk d w e v \<Longrightarrow> books n blk e v f u \<Longrightarrow> books n blk d w f u"
  using books_trans [of 0 blk d w e v n f u] by simp

lemma books_heap:
  "heap_step k w w' \<Longrightarrow> device_blocks blk d' = device_blocks blk d + k - n \<Longrightarrow> books n blk d w d' w'"
  by (simp add: books_def heap_step_def)

lemma books_errno [simp]: "books n blk d w d' (set_errno e w') \<longleftrightarrow> books n blk d w d' w'"
  by (simp add: books_def set_errno_def)

lemma books_same_blocks:
  "books n blk d w d' w' \<Longrightarrow> device_blocks blk d'' = device_blocks blk d' \<Longrightarrow> books n blk d w d'' w'"
  by (simp add: books_def)

text \<open>The fields a driver leaves to the library.\<close>

definition core_frame :: "'p ao_device \<Rightarrow> 'p ao_device \<Rightarrow> bool" where
  "core_frame d d' \<longleftrightarrow>
     dev_file d' = dev_file d \<and> driver_id d' = driver_id d \<and> swap_buffer d' = swap_buffer d \<and>
     swap_buffer_size d' = swap_buffer_size d \<and> input_map d' = input_map d \<and>
     inter_permute d' = inter_permute d"

lemma core_frame_refl [simp, intro]: "core_frame d d"
  by (simp add: core_frame_def)

lemma core_frame_trans: "core_frame d e \<Longrightarrow> core_frame e f \<Longrightarrow> core_frame d f"
  by (simp add: core_frame_def)

text \<open>Before the device is opened the backend's matrix is the library's too.\<close>

definition setup_frame :: "'p ao_device \<Rightarrow> 'p ao_device \<Rightarrow> bool" where
  "setup_frame d d' \<longleftrightarrow> core_frame d d' \<and> inter_matrix d' = inter_matrix d"

lemma setup_frame_refl [simp, intro]: "setup_frame d d"
  by (simp add: setup_frame_def)

lemma setup_frame_trans: "setup_frame d e \<Longrightarrow> setup_frame e f \<Longrightarrow> setup_frame d f"
  using core_frame_trans [of d e f] by (simp add: setup_frame_def)

section \<open>The contract\<close>

text \<open>
  What \<open>device->internal\<close> can be when the library calls \<open>open\<close>: what \<open>device_init\<close> made of it, and
  then options.
\<close>

inductive prepared :: "('p, 'z world_scheme) ao_functions \<Rightarrow> 'p option \<Rightarrow> bool" for F where
  prepared_init: "fn_device_init F d w = Some (True, d', w') \<Longrightarrow> internal d = None \<Longrightarrow> prepared F (internal d')"
| prepared_option: "prepared F (internal d) \<Longrightarrow> fn_set_option F d k v w = Some (r, d', w') \<Longrightarrow> prepared F (internal d')"

lemma prepared_load_options:
  "device_load_options F table d ops w = Some (e, d', w') \<Longrightarrow> prepared F (internal d) \<Longrightarrow> prepared F (internal d')"
proof (induction ops arbitrary: d w)
  case (Cons op ops)
  obtain k where k: "opt_key op = Some k" using Cons.prems by (cases "opt_key op") auto
  show ?case
  proof (cases "k \<in> {''matrix'', ''debug'', ''verbose'', ''quiet''}")
    case True
    with Cons.prems k show ?thesis by (auto split: if_splits prod.splits dest!: Cons.IH)
  next
    case False
    with Cons.prems k obtain ok c v where s: "fn_set_option F d k (opt_value op) w = Some (ok, c, v)"
      by (cases "fn_set_option F d k (opt_value op) w") auto
    have "prepared F (internal c)" by (rule prepared_option [OF Cons.prems(2) s])
    with Cons.IH [of c v] Cons.prems k False s show ?thesis by (auto split: if_splits Option.bind_splits)
  qed
qed simp

lemma prepared_open_options:
  assumes "open_options F table globals opts d w = Some (True, d', w')" and "internal d = None"
  shows "prepared F (internal d')"
proof -
  from assms(1) obtain c v where i: "fn_device_init F d w = Some (True, c, v)"
    by (auto simp: open_options_def split: Option.bind_splits if_splits)
  from prepared_init [OF i assms(2)] assms(1) i show ?thesis
    by (auto simp: open_options_def split: Option.bind_splits if_splits dest!: prepared_load_options)
qed

locale ao_driver =
  fixes F :: "('p, 'z world_scheme) ao_functions"
    and blk :: "'p \<Rightarrow> int"
  assumes init_law: "fn_device_init F d w = Some (r, d', w') \<Longrightarrow> internal d = None \<Longrightarrow>
      output_matrix d = None \<Longrightarrow> books 0 blk d w d' w' \<and> setup_frame d d'"
    and set_option_law: "fn_set_option F d k v w = Some (r, d', w') \<Longrightarrow>
      books 0 blk d w d' w' \<and> setup_frame d d'"
    and open_law: "prepared F (internal d) \<Longrightarrow> fn_open F d sf w = Some (r, d', sf', w') \<Longrightarrow>
      books 0 blk d w d' w' \<and> core_frame d d' \<and> fmt_matrix sf' = fmt_matrix sf"
    and play_law: "fn_play F d bs n w = Some (r, d', w') \<Longrightarrow>
      books 0 blk d w d' w' \<and> d' = d\<lparr>internal := internal d'\<rparr>"
    and close_law: "fn_close F d w = Some (r, d', w') \<Longrightarrow> books 0 blk d w d' w' \<and> core_frame d d'"
    and clear_law: "fn_device_clear F d w = Some (d', w') \<Longrightarrow>
      books 0 blk d w d' w' \<and> core_frame d d' \<and> internal d' = None"
begin

lemma load_options_law:
  "device_load_options F table d ops w = Some (e, d', w') \<Longrightarrow> books 0 blk d w d' w' \<and> setup_frame d d'"
proof (induction ops arbitrary: d w)
  case Nil
  then show ?case by simp
next
  case (Cons op ops)
  let ?goal = "books 0 blk d w d' w' \<and> setup_frame d d'"
  have rest: "?goal" if "device_load_options F table c ops v = Some (e, d', w')"
    "books 0 blk d w c v" "setup_frame d c" for c v
    using Cons.IH [OF that(1)] that books_trans0 setup_frame_trans by blast
  obtain k where k: "opt_key op = Some k" using Cons.prems by (cases "opt_key op") auto
  consider (matrix) "k = ''matrix''" | (debug) "k = ''debug''" | (verb) "k = ''verbose''"
    | (quiet) "k = ''quiet''" | (other) "k \<notin> {''matrix'', ''debug'', ''verbose'', ''quiet''}" by blast
  then show ?case
  proof cases
    case matrix
    obtain m v where m: "sanitize_matrix 32 (opt_value op) (free_opt (output_matrix d) w) = (m, v)"
      by (cases "sanitize_matrix 32 (opt_value op) (free_opt (output_matrix d) w)")
    let ?d = "d\<lparr>output_matrix := m\<rparr>"
    have step: "books 0 blk d w ?d v" "setup_frame d ?d"
      using heap_step_trans [OF free_opt_heap sanitize_matrix_heap [OF m]]
      by (auto intro!: books_heap simp: ledger core_frame_def setup_frame_def)
    show ?thesis
    proof (cases m)
      case None
      with Cons.prems m k matrix step show ?thesis by auto
    next
      case (Some s)
      with Cons.prems m k matrix have "device_load_options F table ?d ops v = Some (e, d', w')" by simp
      from rest [OF this step] show ?thesis .
    qed
  next
    case debug
    with Cons.prems k show ?thesis
      by (intro rest [of "d\<lparr>verbose := 2\<rparr>" w]) (auto simp: books_def ledger setup_frame_def core_frame_def)
  next
    case verb
    with Cons.prems k show ?thesis
      by (intro rest [of "if verbose d < 1 then d\<lparr>verbose := 1\<rparr> else d" w])
         (auto simp: books_def ledger setup_frame_def core_frame_def)
  next
    case quiet
    with Cons.prems k show ?thesis
      by (intro rest [of "d\<lparr>verbose := -1\<rparr>" w]) (auto simp: books_def ledger setup_frame_def core_frame_def)
  next
    case other
    then obtain ok c v where s: "fn_set_option F d k (opt_value op) w = Some (ok, c, v)"
      using Cons.prems k by (cases "fn_set_option F d k (opt_value op) w") auto
    from Cons.prems k other s set_option_law [OF s] rest [of c v] show ?thesis
      by (auto split: if_splits Option.bind_splits)
  qed
qed

lemma open_options_law:
  assumes "open_options F table globals opts d w = Some (ok, d', w')"
    and "internal d = None" and "output_matrix d = None"
  shows "books 0 blk d w d' w' \<and> setup_frame d d'"
proof -
  from assms(1) obtain r c v where i: "fn_device_init F d w = Some (r, c, v)"
    by (auto simp: open_options_def split: Option.bind_splits)
  note step = init_law [OF i assms(2,3)]
  show ?thesis
  proof (cases r)
    case False
    with assms(1) i step show ?thesis by (auto simp: open_options_def)
  next
    case True
    with assms(1) i obtain e c2 v2 where g: "device_load_options F table c globals v = Some (e, c2, v2)"
      by (auto simp: open_options_def split: Option.bind_splits)
    note step2 = load_options_law [OF g]
    show ?thesis
    proof (cases "e = 0")
      case False
      with assms(1) i True g step step2 books_trans0 setup_frame_trans show ?thesis
        by (auto simp: open_options_def) blast+
    next
      case e: True
      with assms(1) i True g obtain e' v3 where
        o: "device_load_options F table c2 opts (set_errno 0 v2) = Some (e', d', v3)" "w' = set_errno e' v3"
        by (auto simp: open_options_def split: Option.bind_splits)
      have "books 0 blk d w c2 (set_errno 0 v2)" using step step2 books_trans0 by auto
      with load_options_law [OF o(1)] o(2) step step2 books_trans0 setup_frame_trans show ?thesis
        by (metis books_errno)
    qed
  qed
qed

lemma ao_close_law:
  assumes "ao_close (Some (F, d)) w = Some (r, w')"
  shows "w_live w' = w_live w - device_blocks blk d - 1 \<and> (w_allocs w = [] \<longrightarrow> w_allocs w' = [])"
proof -
  from assms obtain d1 w1 d2 w2 w3 where c: "fn_close F d w = Some (r, d1, w1)"
    "fn_device_clear F d1 w1 = Some (d2, w2)"
    "(case dev_file d2 of None \<Rightarrow> Some w2 | Some f \<Rightarrow> fclose f w2) = Some w3" "w' = free_device d2 w3"
    by (auto simp: ao_close_def split: Option.bind_splits)
  have b: "books 0 blk d w d2 w2" "internal d2 = None"
    using close_law [OF c(1)] clear_law [OF c(2)] books_trans0 by blast+
  have "same_but_streams w2 w3" using c(3) fclose_same by (auto split: option.splits)
  then have "w_live w3 = w_live w2" "w_allocs w3 = w_allocs w2"
    by (auto dest: same_but_streams_sel)
  moreover have "w_live w' = w_live w3 - device_blocks blk d2 - 1" "w_allocs w' = w_allocs w3"
    using b(2) c(4) by (simp_all add: free_device_def ledger)
  ultimately show ?thesis using b(1) by (auto simp: books_def)
qed

end

section \<open>The library's own stages\<close>

definition fresh_maps :: "'p ao_device \<Rightarrow> bool" where
  "fresh_maps d \<longleftrightarrow> input_map d = None \<and> inter_matrix d = None \<and> inter_permute d = None \<and> swap_buffer d = None"

lemma create_device_heap:
  assumes "create_device did F format fil w = (c, v)"
  shows "w_live v = w_live w + blocks c \<and> (w_allocs w = [] \<longrightarrow> w_allocs v = []) \<and>
    (\<forall>d. c = Some d \<longrightarrow> internal d = None \<and> output_matrix d = None \<and> fresh_maps d \<and>
       device_blocks blk d = 0)"
proof -
  obtain ok u where m: "malloc_ok w = (ok, u)" by (cases "malloc_ok w")
  show ?thesis
    using assms m malloc_ok_heap [OF m]
    by (cases ok) (auto simp: create_device_def heap_step_def fresh_maps_def ledger)
qed

lemma reconcile_law:
  assumes "reconcile d sf w = Some (ok, d', w')" and "input_map d = None" and "inter_matrix d = None"
  shows "books 0 blk d w d' w' \<and> inter_permute d' = inter_permute d \<and> swap_buffer d' = swap_buffer d \<and>
    swap_buffer_size d' = swap_buffer_size d"
proof (cases "output_matrix d = None \<or> fmt_matrix sf = None \<or>
    output_matrix_order d = AO_OUTPUT_MATRIX_UNDEFINED")
  case True
  with assms(1) show ?thesis
    by (auto simp: reconcile_def books_def ledger set_errno_def split: option.splits ao_outorder.splits)
next
  case False
  then obtain om im where m: "output_matrix d = Some om" "fmt_matrix sf = Some im" by auto
  from False assms(1) m obtain cmask imap v where
    c: "matrix_to_channelmask (fmt_channels sf) im om w = Some (cmask, imap, v)"
    by (cases "output_matrix_order d") (auto simp: reconcile_def split: Option.bind_splits)
  note h = matrix_to_channelmask_heap [OF c]
  show ?thesis
  proof (cases "output_matrix_order d")
    case AO_OUTPUT_MATRIX_FIXED
    with assms c m h show ?thesis
      by (auto simp: reconcile_def books_def ledger heap_step_def set_errno_def
          split: if_splits prod.splits dest!: strdup_heap)
  next
    case AO_OUTPUT_MATRIX_COLLAPSIBLE
    with assms c m h show ?thesis
      by (auto simp: reconcile_def books_def ledger heap_step_def set_errno_def
          split: if_splits Option.bind_splits dest!: channelmask_to_matrix_heap)
  next
    case AO_OUTPUT_MATRIX_PERMUTABLE
    with assms c m h show ?thesis
      by (auto simp: reconcile_def books_def ledger heap_step_def set_errno_def
          split: if_splits Option.bind_splits dest!: matrix_intersect_heap)
  qed (use False in simp)
qed

lemma stages_internal:
  "reconcile d sf w = Some (ok, d', w') \<Longrightarrow> internal d' = internal d"
  "housekeeping d sf = Some d' \<Longrightarrow> internal d' = internal d"
  by (auto simp: reconcile_def housekeeping_def Let_def
      split: option.splits ao_outorder.splits if_splits prod.splits Option.bind_splits)

lemma housekeeping_law:
  "housekeeping d sf = Some d' \<Longrightarrow> device_blocks blk d' = device_blocks blk d \<and>
     inter_permute d' = inter_permute d \<and> swap_buffer d' = swap_buffer d \<and>
     swap_buffer_size d' = swap_buffer_size d"
  by (auto simp: housekeeping_def ledger split: Option.bind_splits)

lemma build_permutation_law:
  assumes "build_permutation table d sf w = Some (ok, d', w')" and "inter_permute d = None"
  shows "books 0 blk d w d' w' \<and> swap_buffer d' = swap_buffer d \<and> swap_buffer_size d' = swap_buffer_size d"
proof (cases "fmt_matrix sf")
  case None
  with assms show ?thesis by (auto simp: build_permutation_def)
next
  case (Some im)
  let ?first = "if inter_matrix d = None then do {
                      _ \<leftarrow> names_driver table d;
                      (case strdup ''L,R'' w of (m, w) \<Rightarrow> Some (d\<lparr>inter_matrix := m\<rparr>, w)) }
                    else Some (d, w)"
  from assms(1) Some obtain c v where f: "?first = Some (c, v)"
    by (auto simp: build_permutation_def split: Option.bind_splits if_splits)
  have step: "books 0 blk d w c v \<and> swap_buffer c = swap_buffer d \<and> inter_permute c = None \<and>
      swap_buffer_size c = swap_buffer_size d"
    using f assms(2)
    by (auto simp: books_def ledger heap_step_def split: if_splits prod.splits Option.bind_splits dest!: strdup_heap)
  obtain b u where m: "(if output_channels c < 0 then (False, v) else malloc_ok v) = (b, u)" by fastforce
  have hm: "heap_step (of_bool b) v u"
    using m malloc_ok_heap [of v b u] by (auto split: if_splits)
  show ?thesis
  proof (cases b)
    case False
    with assms(1) Some f m have "d' = c\<lparr>inter_permute := None\<rparr>" "w' = set_errno AO_EFAIL u"
      by (simp_all add: build_permutation_def)
    with step hm False show ?thesis by (auto simp: books_def ledger heap_step_def)
  next
    case True
    obtain inch t where t: "tokenize_matrix im u = (inch, t)" by (cases "tokenize_matrix im u")
    have "heap_step 0 u (free_map inch t)"
      using t tokenize_None_or(1) [of im u t] tokenize_free_heap [of im u _ t]
      by (cases inch) (auto simp: free_map_def)
    moreover from assms(1) Some f m True t obtain perm where
      "d' = c\<lparr>inter_permute := Some perm\<rparr>" "w' = free_map inch t"
      by (auto simp: build_permutation_def split: Option.bind_splits if_splits)
    ultimately show ?thesis using step hm True by (auto simp: books_def ledger heap_step_def)
  qed
qed

lemma drop_identity_law:
  assumes "drop_identity d w = Some (d', w')"
  shows "books 0 blk d w d' w' \<and> swap_buffer d' = swap_buffer d \<and> swap_buffer_size d' = swap_buffer_size d"
  using assms free_block_heap [of w]
  by (auto simp: drop_identity_def books_def ledger heap_step_def
      split: option.splits if_splits Option.bind_splits)

lemma swap_blocks:
  "device_blocks blk (d\<lparr>swap_buffer := x, swap_buffer_size := n\<rparr>) =
     device_blocks blk d + blocks x - blocks (swap_buffer d)"
  by (simp add: ledger)

context ao_driver
begin

text \<open>What an open leaves: the blocks of the device it returns, or nothing.\<close>

definition settled :: "('p, 'z world_scheme) opened \<Rightarrow> int \<Rightarrow> 'z world_scheme \<Rightarrow> bool" where
  "settled dev n w \<longleftrightarrow> (case dev of
      None \<Rightarrow> n \<le> w_live w
    | Some (G, d) \<Rightarrow> G = F \<and> w_live w = n + 1 + device_blocks blk d)"

lemma open_error_law:
  assumes "open_error (Some (F, d)) im w = Some (dev, w')"
    and "w_live w = n + 1 + device_blocks blk d + blocks im"
  shows "dev = None \<and> w_live w' = n \<and> (w_allocs w = [] \<longrightarrow> w_allocs w' = [])"
proof -
  from assms(1) obtain r v where c: "ao_close (Some (F, d)) (free_opt im w) = Some (r, v)"
    "dev = None" "w' = set_errno (w_errno w) v"
    by (auto simp: open_error_def split: Option.bind_splits)
  from ao_close_law [OF c(1)] free_opt_heap [of im w] assms(2) c(2,3) show ?thesis
    by (simp add: heap_step_def set_errno_def)
qed

lemma finish_open_law:
  assumes "finish_open F d im w = Some (dev, w')" and "swap_buffer d = None"
    and "w_live w = n + 1 + device_blocks blk d + blocks im"
  shows "settled dev n w' \<and> (w_allocs w = [] \<longrightarrow> dev \<noteq> None \<and> w_allocs w' = [])"
proof -
  let ?d = "d\<lparr>driver_byte_format := real_byte_format (driver_byte_format d) w\<rparr>"
  have same: "device_blocks blk ?d = device_blocks blk d" "swap_buffer ?d = None"
    using assms(2) by (simp_all add: ledger)
  note fr = free_opt_heap [of im]
  show ?thesis
  proof (cases "needs_swap ?d \<or> input_channels ?d \<noteq> output_channels ?d \<or> inter_permute ?d \<noteq> None")
    case False
    then have "dev = Some (F, ?d)" "w' = free_opt im w"
      using assms(1) by (auto simp: finish_open_def simp del: not_None_eq)
    with fr [of w] assms(3) same show ?thesis by (auto simp: settled_def heap_step_def)
  next
    case True
    obtain ok e v where r: "realloc_swap_buffer ?d DEF_SWAP_BUF_SIZE w = (ok, e, v)"
      by (cases "realloc_swap_buffer ?d DEF_SWAP_BUF_SIZE w")
    note rc = realloc_swap_buffer_cases [OF r]
    have eb: "device_blocks blk e = device_blocks blk ?d + blocks (swap_buffer e)"
      using swap_blocks [where d = ?d and x = "swap_buffer e" and n = "swap_buffer_size e"] rc(2) same(2) by simp
    show ?thesis
    proof (cases ok)
      case ok: True
      then have "dev = Some (F, e)" "w' = free_opt im v"
        using assms(1) True r by (auto simp: finish_open_def simp del: not_None_eq)
      with fr [of v] assms(3) same rc(1) eb show ?thesis by (auto simp: settled_def heap_step_def)
    next
      case False
      then have e: "e = ?d" using rc(3) by simp
      from assms(1) True r False obtain x d1 w1 d2 w2 where
        c: "fn_close F e (free_opt im v) = Some (x, d1, w1)" "fn_device_clear F d1 w1 = Some (d2, w2)"
          "dev = None" "w' = set_errno AO_EFAIL (free_block w2)"
        by (auto simp: finish_open_def simp del: not_None_eq split: Option.bind_splits)
      have "w_allocs w \<noteq> []"
        using r False by (auto simp: realloc_swap_buffer_def split: if_splits)
      moreover have "books 0 blk e (free_opt im v) d2 w2"
        using close_law [OF c(1)] clear_law [OF c(2)] books_trans0 by blast
      moreover have "0 \<le> device_blocks blk d2"
        using clear_law [OF c(2)] by (simp add: ledger)
      ultimately show ?thesis using fr [of v] c(3,4) assms(3) rc(1) e same
        by (auto simp: settled_def books_def heap_step_def set_errno_def free_block_def)
    qed
  qed
qed

text \<open>A failed open is exact as long as no allocation fails.\<close>

definition exact :: "('p, 'z world_scheme) opened \<Rightarrow> int \<Rightarrow> 'z world_scheme \<Rightarrow> 'z world_scheme \<Rightarrow> bool" where
  "exact dev n w w' \<longleftrightarrow> settled dev n w' \<and>
     (w_allocs w = [] \<longrightarrow> w_allocs w' = [] \<and> (dev = None \<longrightarrow> w_live w' = n))"

lemma open_error_exact:
  assumes "open_error (Some (F, d)) im v = Some (dev, w')"
    and "w_live v = n + 1 + device_blocks blk d + blocks im"
    and "w_allocs w = [] \<longrightarrow> w_allocs v = []"
  shows "exact dev n w w'"
  using open_error_law [OF assms(1,2)] assms(3) by (auto simp: exact_def settled_def)

lemma open_backend_law:
  assumes "open_backend F table sf d w = Some (dev, w')" and "fresh_maps d" and prep: "prepared F (internal d)"
    and n: "w_live w = n + 1 + device_blocks blk d + blocks (fmt_matrix sf)"
  shows "exact dev n w w'"
proof -
  have fresh: "input_map d = None" "inter_matrix d = None" "inter_permute d = None" "swap_buffer d = None"
    using assms(2) by (simp_all add: fresh_maps_def)
  from assms(1) obtain ok d1 w1 where r: "reconcile d sf w = Some (ok, d1, w1)"
    by (auto simp: open_backend_def split: Option.bind_splits)
  note l1 = reconcile_law [OF r fresh(1,2), of blk]
  have n1: "w_live w1 = n + 1 + device_blocks blk d1 + blocks (fmt_matrix sf)"
    "w_allocs w = [] \<longrightarrow> w_allocs w1 = []" using l1 n by (auto simp: books_def)
  show ?thesis
  proof (cases ok)
    case False
    with assms(1) r have "open_error (Some (F, d1)) (fmt_matrix sf) w1 = Some (dev, w')"
      by (simp add: open_backend_def)
    from open_error_exact [OF this n1] show ?thesis .
  next
    case True
    with assms(1) r obtain d2 ok' d3 sf' w3 where
      h: "housekeeping d1 sf = Some d2" and o: "fn_open F d2 sf w1 = Some (ok', d3, sf', w3)"
      by (auto simp: open_backend_def split: Option.bind_splits)
    have "prepared F (internal d2)" using prep stages_internal(1) [OF r] stages_internal(2) [OF h] by simp
    note l2 = housekeeping_law [OF h, of blk] and l3 = open_law [OF this o]
    have n3: "w_live w3 = n + 1 + device_blocks blk d3 + blocks (fmt_matrix sf')"
      "w_allocs w = [] \<longrightarrow> w_allocs w3 = []"
      using n1 l2 l3 by (auto simp: books_def)
    have f3: "inter_permute d3 = None" "swap_buffer d3 = None"
      using l1 l2 l3 fresh by (auto simp: core_frame_def)
    show ?thesis
    proof (cases ok')
      case False
      with assms(1) r True h o have
        "open_error (Some (F, d3)) (fmt_matrix sf') (set_errno AO_EOPENDEVICE w3) = Some (dev, w')"
        by (simp add: open_backend_def)
      from open_error_exact [OF this, of n w] n3 show ?thesis by simp
    next
      case ok': True
      with assms(1) r True h o obtain ok2 d4 w4 where
        p: "build_permutation table d3 sf' w3 = Some (ok2, d4, w4)"
        by (auto simp: open_backend_def split: Option.bind_splits)
      note l4 = build_permutation_law [OF p f3(1), of blk]
      have n4: "w_live w4 = n + 1 + device_blocks blk d4 + blocks (fmt_matrix sf')"
        "w_allocs w = [] \<longrightarrow> w_allocs w4 = []" "swap_buffer d4 = None"
        using n3 l4 f3 by (auto simp: books_def)
      show ?thesis
      proof (cases ok2)
        case False
        with assms(1) r True h o ok' p have
          "open_error (Some (F, d4)) (fmt_matrix sf') w4 = Some (dev, w')"
          by (simp add: open_backend_def)
        from open_error_exact [OF this n4(1,2)] show ?thesis .
      next
        case ok2: True
        with assms(1) r True h o ok' p obtain d5 w5 where
          i: "drop_identity d4 w4 = Some (d5, w5)" and f: "finish_open F d5 (fmt_matrix sf') w5 = Some (dev, w')"
          by (auto simp: open_backend_def split: Option.bind_splits)
        note l5 = drop_identity_law [OF i, of blk]
        have n5: "w_live w5 = n + 1 + device_blocks blk d5 + blocks (fmt_matrix sf')"
          "w_allocs w = [] \<longrightarrow> w_allocs w5 = []" "swap_buffer d5 = None"
          using n4 l5 by (auto simp: books_def)
        from finish_open_law [OF f n5(3,1)] n5(2) show ?thesis by (auto simp: exact_def)
      qed
    qed
  qed
qed

lemma input_matrix_law:
  assumes "input_matrix format w = (m, w')"
  shows "heap_step (blocks m) w w'"
proof (cases "fmt_matrix format")
  case None
  with assms show ?thesis by (simp add: input_matrix_def)
next
  case (Some s)
  obtain m0 v where s: "sanitize_matrix (fmt_channels format) (Some s) w = (m0, v)"
    by (cases "sanitize_matrix (fmt_channels format) (Some s) w")
  from heap_step_trans [OF sanitize_matrix_heap [OF s] free_opt_heap [of m0 v]] sanitize_matrix_heap [OF s]
    assms Some s
  show ?thesis by (auto simp: input_matrix_def split: if_splits)
qed

lemma open_device_law:
  assumes "open_device did format opts fil lib w = Some (dev, w')"
    and driver: "\<And>drv. get_driver did lib = Some drv \<Longrightarrow> drv_functions drv = F"
  shows "exact dev (w_live w) w w'"
proof (cases "get_driver did lib = None \<or>
    (fil = None \<and> info_type (fn_driver_info F) \<noteq> AO_TYPE_LIVE) \<or>
    (fil \<noteq> None \<and> info_type (fn_driver_info F) \<noteq> AO_TYPE_FILE)")
  case True
  with assms show ?thesis
    by (auto simp: open_device_def open_error_def ao_close_def exact_def settled_def free_opt_def
        split: option.splits if_splits)
next
  case False
  then obtain drv where drv: "get_driver did lib = Some drv" "drv_functions drv = F"
    using driver by auto
  obtain c v where c: "create_device did F format fil w = (c, v)"
    by (cases "create_device did F format fil w")
  show ?thesis
  proof (cases c)
    case None
    have "w_live v = w_live w" "w_allocs w = [] \<longrightarrow> w_allocs v = []"
      using create_device_heap [OF c] None by auto
    moreover have "open_device did format opts fil lib w = open_error None None (set_errno AO_EFAIL v)"
      using drv False c None by (cases fil) (simp_all add: open_device_def)
    ultimately show ?thesis
      using assms(1) by (auto simp: open_error_def ao_close_def exact_def settled_def free_opt_def)
  next
    case (Some d)
    have d: "internal d = None" "output_matrix d = None" "fresh_maps d" "device_blocks blk d = 0"
      "w_live v = w_live w + 1" "w_allocs w = [] \<longrightarrow> w_allocs v = []"
      using create_device_heap [OF c] Some by auto
    have test: "(fil = None \<and> info_type (fn_driver_info F) \<noteq> AO_TYPE_LIVE) = False"
      "(fil \<noteq> None \<and> info_type (fn_driver_info F) \<noteq> AO_TYPE_FILE) = False"
      using False by auto
    have rest: "Option.bind (open_options F (info_table lib) (global_options lib) opts d v)
        (\<lambda>(ok, d, w). if \<not> ok then open_error (Some (F, d)) None w
           else (case input_matrix format w of (im, w) \<Rightarrow>
                 open_backend F (info_table lib) (format\<lparr>fmt_matrix := im\<rparr>) d w)) = Some (dev, w')"
      using assms(1) drv c Some by (simp add: open_device_def test del: not_None_eq)
    then obtain ok d1 w1 where o: "open_options F (info_table lib) (global_options lib) opts d v = Some (ok, d1, w1)"
      by (auto split: Option.bind_splits)
    note l1 = open_options_law [OF o d(1,2)]
    have n1: "w_live w1 = w_live w + 1 + device_blocks blk d1" "w_allocs w = [] \<longrightarrow> w_allocs w1 = []"
      "fresh_maps d1"
      using l1 d by (auto simp: books_def fresh_maps_def setup_frame_def core_frame_def)
    show ?thesis
    proof (cases ok)
      case False
      with rest o have "open_error (Some (F, d1)) None w1 = Some (dev, w')" by simp
      from open_error_exact [OF this _ n1(2)] n1(1) show ?thesis by simp
    next
      case True
      obtain im w2 where i: "input_matrix format w1 = (im, w2)" by (cases "input_matrix format w1")
      from rest o True i have
        b: "open_backend F (info_table lib) (format\<lparr>fmt_matrix := im\<rparr>) d1 w2 = Some (dev, w')" by simp
      have "w_live w2 = w_live w + 1 + device_blocks blk d1 + blocks (fmt_matrix (format\<lparr>fmt_matrix := im\<rparr>))"
        "w_allocs w = [] \<longrightarrow> w_allocs w2 = []"
        using input_matrix_law [OF i] n1 by (auto simp: heap_step_def)
      from open_backend_law [OF b n1(3) prepared_open_options this(1)] o True d(1) this(2) show ?thesis by (simp add: exact_def)
    qed
  qed
qed

text \<open>Playing keeps the books.\<close>

lemma ao_play_law:
  assumes "ao_play (Some (F, d)) samples n w = Some (r, dev, w')"
  obtains d' where "dev = Some (F, d')" "books 0 blk d w d' w'"
proof (cases "swap_buffer d = None")
  case True
  with assms play_law that show ?thesis
    by (fastforce simp: ao_play_def split: Option.bind_splits)
next
  case False
  define out where "out = int_of_u32 (n * word_of_int (output_channels d) div word_of_int (input_channels d))"
  have ic: "input_channels d \<noteq> 0" using assms False by (auto simp: ao_play_def split: if_splits)
  note play = ao_play_swap [OF False ic, of F samples n w, folded out_def]
  obtain ok e v where r: "realloc_swap_buffer d out w = (ok, e, v)"
    by (cases "realloc_swap_buffer d out w")
  note rc = realloc_swap_buffer_cases [OF r]
  have eb: "device_blocks blk e = device_blocks blk d + blocks (swap_buffer e) - blocks (swap_buffer d)"
    using swap_blocks [where d = d and x = "swap_buffer e" and n = "swap_buffer_size e"] rc(2) by simp
  with rc(1) have b: "books 0 blk d w e v" by (auto simp: books_def heap_step_def)
  show ?thesis
  proof (cases ok)
    case False
    with assms play r b that show ?thesis by auto
  next
    case True
    with assms play r obtain buf buf' d' where
      p: "swap_buffer e = Some buf" "fn_play F (e\<lparr>swap_buffer := Some buf'\<rparr>) buf' (word_of_int out) v = Some (r, d', w')"
        "dev = Some (F, d')"
      by (auto split: Option.bind_splits)
    have "device_blocks blk (e\<lparr>swap_buffer := Some buf'\<rparr>) = device_blocks blk e"
      using p(1) by (simp add: ledger)
    with b have "books 0 blk d w (e\<lparr>swap_buffer := Some buf'\<rparr>) v" by (simp add: books_def)
    from books_trans0 [OF this] play_law [OF p(2)] p(3) that show ?thesis by blast
  qed
qed

end

end
