(* ===== verification/AO_Internal.thy ===== *)
theory AO_Internal
  imports AO_Driver
begin

text \<open>
  What \<open>device->internal\<close> points to for the static drivers: the structures \<open>ao_null_internal\<close>,
  \<open>ao_raw_internal\<close>, \<open>ao_au_internal\<close> and \<open>ao_wav_internal\<close> of \<^verbatim>\<open>src/ao_*.c\<close>.  The static drivers
  and the plugins share one driver list, so the pointer is one type with a constructor for
  each; \<open>'x\<close> is what the plugins keep.  Reading the pointer as the wrong structure, or when it
  is NULL, is a fault.
\<close>

record ao_null_internal =
  byte_counter :: "64 word"

record ao_raw_internal =
  byte_order :: int

record Audio_filehdr =
  au_magic :: "32 word"
  au_hdr_size :: "32 word"
  au_data_size :: "32 word"
  au_encoding :: "32 word"
  au_sample_rate :: "32 word"
  au_channels :: "32 word"
  au_info :: "byte list"

record ao_au_internal =
  au :: Audio_filehdr

record riff_struct =
  riff_id :: "byte list"
  riff_len :: "32 word"
  wave_id :: "byte list"

record chunk_struct =
  chunk_id :: "byte list"
  chunk_len :: "32 word"

record common_struct =
  wFormatTag :: "16 word"
  wChannels :: "16 word"
  dwSamplesPerSec :: "32 word"
  dwAvgBytesPerSec :: "32 word"
  wBlockAlign :: "16 word"
  wBitsPerSample :: "16 word"
  cbSize :: "16 word"
  wValidBitsPerSample :: "16 word"
  dwChannelMask :: "32 word"
  subFormat :: "16 word"

record wave_header =
  riff :: riff_struct
  format_chunk :: chunk_struct
  common_chunk :: common_struct
  data_chunk :: chunk_struct

record ao_wav_internal =
  wave :: wave_header

datatype 'x ao_internal =
    Null_internal ao_null_internal
  | Raw_internal ao_raw_internal
  | Au_internal ao_au_internal
  | Wav_internal ao_wav_internal
  | Plugin_internal 'x

definition null_state :: "'x ao_internal ao_device \<Rightarrow> ao_null_internal option" where
  "null_state d = (case internal d of Some (Null_internal i) \<Rightarrow> Some i | _ \<Rightarrow> None)"

definition raw_state :: "'x ao_internal ao_device \<Rightarrow> ao_raw_internal option" where
  "raw_state d = (case internal d of Some (Raw_internal i) \<Rightarrow> Some i | _ \<Rightarrow> None)"

definition au_state :: "'x ao_internal ao_device \<Rightarrow> ao_au_internal option" where
  "au_state d = (case internal d of Some (Au_internal i) \<Rightarrow> Some i | _ \<Rightarrow> None)"

definition wav_state :: "'x ao_internal ao_device \<Rightarrow> ao_wav_internal option" where
  "wav_state d = (case internal d of Some (Wav_internal i) \<Rightarrow> Some i | _ \<Rightarrow> None)"

lemma state_SomeD:
  "null_state d = Some n \<Longrightarrow> internal d = Some (Null_internal n)"
  "raw_state d = Some r \<Longrightarrow> internal d = Some (Raw_internal r)"
  "au_state d = Some a \<Longrightarrow> internal d = Some (Au_internal a)"
  "wav_state d = Some v \<Longrightarrow> internal d = Some (Wav_internal v)"
  by (auto simp: null_state_def raw_state_def au_state_def wav_state_def
      split: option.splits ao_internal.splits)

lemma state_update [simp]:
  "null_state (d\<lparr>internal := Some (Null_internal n)\<rparr>) = Some n"
  "raw_state (d\<lparr>internal := Some (Raw_internal r)\<rparr>) = Some r"
  "au_state (d\<lparr>internal := Some (Au_internal a)\<rparr>) = Some a"
  "wav_state (d\<lparr>internal := Some (Wav_internal v)\<rparr>) = Some v"
  by (simp_all add: null_state_def raw_state_def au_state_def wav_state_def)

section \<open>Pieces the file drivers share\<close>

text \<open>Each static driver has one block behind \<open>internal\<close>.\<close>

definition one_block :: "'x ao_internal \<Rightarrow> int" where
  "one_block i = 1"

lemma internal_blocks_one [simp]: "internal_blocks one_block d = blocks (internal d)"
  by (cases "internal d") (simp_all add: internal_blocks_def one_block_def)

text \<open>\<open>free(internal); device->internal = NULL;\<close>\<close>

definition clear_internal :: "'p ao_device \<Rightarrow> 'z world_scheme \<Rightarrow> ('p ao_device \<times> 'z world_scheme) option" where
  "clear_internal d w = Some (d\<lparr>internal := None\<rparr>, free_opt (internal d) w)"

lemma clear_internal_law:
  "clear_internal d w = Some (d', w') \<Longrightarrow>
   books 0 one_block d w d' w' \<and> core_frame d d' \<and> internal d' = None"
  by (auto simp: clear_internal_def books_def device_blocks_def core_frame_def)

text \<open>The body of \<open>play\<close> in the raw, AU and WAV drivers.\<close>

definition file_play ::
  "'p ao_device \<Rightarrow> byte list \<Rightarrow> 32 word \<Rightarrow> 'z world_scheme \<Rightarrow> (bool \<times> 'p ao_device \<times> 'z world_scheme) option" where
  "file_play d output_samples num_bytes w = do {
     f \<leftarrow> dev_file d;
     (k, w) \<leftarrow> fwrite output_samples (unat num_bytes) f w;
     Some (\<not> k < unat num_bytes, d, w) }"

lemma file_play_law:
  assumes "file_play d bs n w = Some (r, d', w')"
  shows "books 0 blk d w d' w' \<and> d' = d\<lparr>internal := internal d'\<rparr>"
proof -
  from assms obtain f k where "dev_file d = Some f" "fwrite bs (unat n) f w = Some (k, w')" "d' = d"
    by (auto simp: file_play_def split: Option.bind_splits)
  with same_but_streams_sel [OF fwrite_same [OF this(2)]] show ?thesis by (auto simp: books_def)
qed

lemma file_play_at_end:
  assumes "dev_file d = Some f" and "get_stream f w = Some s" and "at_end s" and "unat n \<le> length bs"
  shows "file_play d bs n w = Some (True, d,
    put_stream f (s\<lparr>s_data := s_data s @ take (unat n) bs, s_pos := length (s_data s) + unat n\<rparr>) w)"
  using assms fwrite_at_end [OF assms(2,3,4)] by (simp add: file_play_def)

text \<open>
  The contract of a file driver: its \<open>play\<close> appends exactly the bytes it is given, as long as
  the file can grow.
\<close>

locale file_driver = ao_driver F blk
  for F :: "('p, 'z world_scheme) ao_functions" and blk :: "'p \<Rightarrow> int" +
  assumes play_file: "dev_file d = Some f \<Longrightarrow> get_stream f w = Some s \<Longrightarrow> at_end s \<Longrightarrow>
      unat n \<le> length bs \<Longrightarrow> fn_play F d bs n w = Some (True, d,
        put_stream f (s\<lparr>s_data := s_data s @ take (unat n) bs, s_pos := length (s_data s) + unat n\<rparr>) w)"
begin

text \<open>Two runs of \<open>play\<close> append one after the other.\<close>

lemma play_appends:
  assumes "dev_file d = Some f" and "get_stream f w = Some s" and "at_end s" and "unat n \<le> length bs"
  obtains w' s' where "fn_play F d bs n w = Some (True, d, w')" "same_but_streams w w'"
    "get_stream f w' = Some s'" "at_end s'" "s_data s' = s_data s @ take (unat n) bs"
proof -
  let ?s = "s\<lparr>s_data := s_data s @ take (unat n) bs, s_pos := length (s_data s) + unat n\<rparr>"
  have "at_end ?s" using assms(3,4) by (simp add: at_end_def)
  moreover have "get_stream f (put_stream f ?s w) = Some ?s"
    using get_stream_lt [OF assms(2)] by simp
  moreover have "fn_play F d bs n w = Some (True, d, put_stream f ?s w)"
    by (rule play_file [OF assms])
  ultimately show ?thesis using that by fastforce
qed

text \<open>
  \<open>ao_play\<close> with a swap buffer, on a file that can grow: the routed frames are appended.
\<close>

lemma ao_play_appends_routed:
  assumes wr: "well_routed d" and pl: "playable d frames samples" and bo: "buffer_ok d"
    and sb: "swap_buffer d \<noteq> None" and w: "w_allocs w = []"
    and f: "dev_file d = Some f" and s: "get_stream f w = Some s" "at_end s"
  obtains d' w' s' where
    "ao_play (Some (F, d)) samples (of_nat (in_bytes d frames)) w = Some (True, Some (F, d'), w')"
    "get_stream f w' = Some s'" "at_end s'" "s_data s' = s_data s @ routed d frames samples"
    "d' = d\<lparr>swap_buffer := swap_buffer d', swap_buffer_size := swap_buffer_size d'\<rparr>"
    "buffer_ok d'" "swap_buffer d' \<noteq> None" "w_allocs w' = []"
proof -
  from ao_play_routed [OF wr pl bo sb w, of F] obtain buf size v where p:
    "ao_play (Some (F, d)) samples (of_nat (in_bytes d frames)) w =
       Option.bind (fn_play F (d\<lparr>swap_buffer := Some buf, swap_buffer_size := size\<rparr>) buf
          (of_nat (out_size d frames)) v) (\<lambda>(r, d, w). Some (r, Some (F, d), w))"
    "take (out_size d frames) buf = routed d frames samples" "out_size d frames \<le> length buf"
    "int (length buf) = size" "heap_step 0 w v" .
  let ?d = "d\<lparr>swap_buffer := Some buf, swap_buffer_size := size\<rparr>"
  have "frames * nat (output_channels d) * nat (bytewidth d)
      \<le> (frames + 1) * nat (output_channels d) * nat (bytewidth d)" by (intro mult_le_mono1) simp
  then have "int (out_size d frames) \<le> INT_MAX"
    using pl unfolding playable_def out_size_def by linarith
  then have n: "unat (of_nat (out_size d frames) :: 32 word) = out_size d frames"
    by (simp add: INT_MAX_def unat_of_nat)
  have v: "get_stream f v = Some s" "w_allocs v = []"
    using s(1) heap_step_stream [OF p(5)] heap_step_plenty [OF p(5) w] by simp_all
  from play_appends [of ?d f v s "of_nat (out_size d frames)" buf] f v(1) s(2) p(3) n
  obtain w' s' where q: "fn_play F ?d buf (of_nat (out_size d frames)) v = Some (True, ?d, w')"
    "same_but_streams v w'" "get_stream f w' = Some s'" "at_end s'"
    "s_data s' = s_data s @ take (out_size d frames) buf" by auto
  have "w_allocs w' = []" using same_but_streams_sel [OF q(2)] v(2) by simp
  with that [of ?d w' s'] p q show ?thesis by (simp add: buffer_ok_def)
qed

end

end
