(* ===== verification/AO_Null.thy ===== *)
theory AO_Null
  imports AO_Internal
begin

text \<open>The null driver, \<^verbatim>\<open>src/ao_null.c\<close>: it counts the bytes it is given.\<close>

section \<open>Operations\<close>

definition ao_null_info :: ao_info where
  "ao_null_info =
     \<lparr>info_type = AO_TYPE_LIVE, info_name = ''Null output'', short_name = ''null'',
      author = ''Stan Seibert <volsung@asu.edu>'', info_comment = ''This driver does nothing.'',
      preferred_byte_format = AO_FMT_NATIVE, priority = 0,
      info_options = [''debug'', ''verbose'', ''matrix'', ''quiet''], option_count = 4\<rparr>"

definition ao_null_test :: "'z world_scheme \<Rightarrow> (bool \<times> 'z world_scheme) option" where
  "ao_null_test w = Some (True, w)"

definition ao_null_device_init ::
  "'x ao_internal ao_device \<Rightarrow> 'z world_scheme \<Rightarrow> (bool \<times> 'x ao_internal ao_device \<times> 'z world_scheme) option" where
  "ao_null_device_init d w = (case malloc_ok w of (ok, w) \<Rightarrow>
     if \<not> ok then Some (False, d, w)
     else Some (True, d\<lparr>internal := Some (Null_internal \<lparr>byte_counter = 0\<rparr>),
                        output_matrix_order := AO_OUTPUT_MATRIX_FIXED\<rparr>, w))"

definition ao_null_set_option ::
  "'x ao_internal ao_device \<Rightarrow> string \<Rightarrow> string option \<Rightarrow> 'z world_scheme
    \<Rightarrow> (bool \<times> 'x ao_internal ao_device \<times> 'z world_scheme) option" where
  "ao_null_set_option d k v w = Some (True, d, w)"

definition ao_null_open ::
  "'x ao_internal ao_device \<Rightarrow> ao_sample_format \<Rightarrow> 'z world_scheme
    \<Rightarrow> (bool \<times> 'x ao_internal ao_device \<times> ao_sample_format \<times> 'z world_scheme) option" where
  "ao_null_open d format w =
     (let d = d\<lparr>driver_byte_format := client_byte_format d\<rparr>
      in case (inter_matrix d, fmt_matrix format) of
           (None, Some m) \<Rightarrow>
             (case strdup m w of (im, w) \<Rightarrow> Some (True, d\<lparr>inter_matrix := im\<rparr>, format, w))
         | _ \<Rightarrow> Some (True, d, format, w))"

definition ao_null_play ::
  "'x ao_internal ao_device \<Rightarrow> byte list \<Rightarrow> 32 word \<Rightarrow> 'z world_scheme
    \<Rightarrow> (bool \<times> 'x ao_internal ao_device \<times> 'z world_scheme) option" where
  "ao_null_play d output_samples num_bytes w = do {
     i \<leftarrow> null_state d;
     Some (True,
       d\<lparr>internal := Some (Null_internal (i\<lparr>byte_counter := byte_counter i + ucast num_bytes\<rparr>))\<rparr>, w) }"

text \<open>The debug message of \<open>close\<close> reads the counter.\<close>

definition ao_null_close ::
  "'x ao_internal ao_device \<Rightarrow> 'z world_scheme \<Rightarrow> (bool \<times> 'x ao_internal ao_device \<times> 'z world_scheme) option" where
  "ao_null_close d w =
     (if verbose d = 2 then do { i \<leftarrow> null_state d; Some (True, d, w) } else Some (True, d, w))"

definition ao_null_device_clear ::
  "'x ao_internal ao_device \<Rightarrow> 'z world_scheme \<Rightarrow> ('x ao_internal ao_device \<times> 'z world_scheme) option" where
  "ao_null_device_clear d w = clear_internal d w"

definition ao_null :: "('x ao_internal, 'z world_scheme) ao_functions" where
  "ao_null =
     \<lparr>fn_test = ao_null_test, fn_driver_info = ao_null_info, fn_device_init = ao_null_device_init,
      fn_set_option = ao_null_set_option, fn_open = ao_null_open, fn_play = ao_null_play,
      fn_close = ao_null_close, fn_device_clear = ao_null_device_clear, fn_file_extension = None\<rparr>"

section \<open>Laws\<close>

lemma ao_null_init_law:
  assumes "ao_null_device_init d w = Some (r, d', w')" and "internal d = None"
  shows "books 0 one_block d w d' w' \<and> setup_frame d d'"
proof -
  obtain ok v where m: "malloc_ok w = (ok, v)" by (cases "malloc_ok w")
  with assms malloc_ok_heap [OF m] show ?thesis
    by (cases ok)
       (auto simp: ao_null_device_init_def books_def device_blocks_def setup_frame_def core_frame_def
         heap_step_def)
qed

lemma ao_null_open_law:
  assumes "ao_null_open d sf w = Some (r, d', sf', w')"
  shows "books 0 one_block d w d' w' \<and> core_frame d d' \<and> fmt_matrix sf' = fmt_matrix sf"
  using assms
  by (auto simp: ao_null_open_def books_def device_blocks_def core_frame_def heap_step_def
      split: option.splits prod.splits dest!: strdup_heap)

lemma ao_null_play_law:
  assumes "ao_null_play d bs n w = Some (r, d', w')"
  shows "books 0 one_block d w d' w' \<and> d' = d\<lparr>internal := internal d'\<rparr>"
  using assms state_SomeD(1) [of d]
  by (auto simp: ao_null_play_def books_def device_blocks_def split: Option.bind_splits)

interpretation null: ao_driver ao_null one_block
proof
  fix d d' :: "'a ao_internal ao_device" and w w' :: "'b world_scheme" and r
  show "fn_device_init ao_null d w = Some (r, d', w') \<Longrightarrow> internal d = None \<Longrightarrow>
      output_matrix d = None \<Longrightarrow> books 0 one_block d w d' w' \<and> setup_frame d d'"
    using ao_null_init_law by (simp add: ao_null_def)
  show "fn_set_option ao_null d k v w = Some (r, d', w') \<Longrightarrow>
      books 0 one_block d w d' w' \<and> setup_frame d d'" for k v
    by (auto simp: ao_null_def ao_null_set_option_def)
  show "fn_open ao_null d sf w = Some (r, d', sf', w') \<Longrightarrow>
      books 0 one_block d w d' w' \<and> core_frame d d' \<and> fmt_matrix sf' = fmt_matrix sf" for sf sf'
    using ao_null_open_law by (simp add: ao_null_def)
  show "fn_play ao_null d bs n w = Some (r, d', w') \<Longrightarrow>
      books 0 one_block d w d' w' \<and> d' = d\<lparr>internal := internal d'\<rparr>" for bs n
    using ao_null_play_law by (simp add: ao_null_def)
  show "fn_close ao_null d w = Some (r, d', w') \<Longrightarrow> books 0 one_block d w d' w' \<and> core_frame d d'"
    by (auto simp: ao_null_def ao_null_close_def split: if_splits Option.bind_splits)
  show "fn_device_clear ao_null d w = Some (d', w') \<Longrightarrow>
      books 0 one_block d w d' w' \<and> core_frame d d' \<and> internal d' = None"
    using clear_internal_law by (simp add: ao_null_def ao_null_device_clear_def)
qed

end
