(* ===== verification/AO_Raw.thy ===== *)
theory AO_Raw
  imports AO_Internal
begin

text \<open>The raw file driver, \<^verbatim>\<open>src/ao_raw.c\<close>: samples in the byte order asked for, no header.\<close>

section \<open>Operations\<close>

definition ao_raw_info :: ao_info where
  "ao_raw_info =
     \<lparr>info_type = AO_TYPE_FILE, info_name = ''RAW sample output'', short_name = ''raw'',
      author = ''Stan Seibert <indigo@aztec.asu.edu>'',
      info_comment = ''Writes raw audio samples to a file'',
      preferred_byte_format = AO_FMT_NATIVE, priority = 0,
      info_options = [''byteorder'', ''matrix'', ''verbose'', ''quiet'', ''debug''],
      option_count = 5\<rparr>"

definition ao_raw_test :: "'z world_scheme \<Rightarrow> (bool \<times> 'z world_scheme) option" where
  "ao_raw_test w = Some (True, w)"

definition ao_raw_device_init ::
  "'x ao_internal ao_device \<Rightarrow> 'z world_scheme \<Rightarrow> (bool \<times> 'x ao_internal ao_device \<times> 'z world_scheme) option" where
  "ao_raw_device_init d w = (case malloc_ok w of (ok, w) \<Rightarrow>
     if \<not> ok then Some (False, d, w)
     else Some (True, d\<lparr>internal := Some (Raw_internal \<lparr>byte_order = AO_FMT_NATIVE\<rparr>),
                        output_matrix_order := AO_OUTPUT_MATRIX_FIXED\<rparr>, w))"

definition ao_raw_set_option ::
  "'x ao_internal ao_device \<Rightarrow> string \<Rightarrow> string option \<Rightarrow> 'z world_scheme
    \<Rightarrow> (bool \<times> 'x ao_internal ao_device \<times> 'z world_scheme) option" where
  "ao_raw_set_option d k v w =
     (if k = ''byteorder'' then do {
        v \<leftarrow> v;
        (if v = ''native'' \<or> v = ''big'' \<or> v = ''little'' then do {
           i \<leftarrow> raw_state d;
           Some (True,
             d\<lparr>internal := Some (Raw_internal (i\<lparr>byte_order :=
                 if v = ''native'' then AO_FMT_NATIVE
                 else if v = ''big'' then AO_FMT_BIG else AO_FMT_LITTLE\<rparr>))\<rparr>, w) }
         else Some (False, d, w)) }
      else Some (True, d, w))"

definition ao_raw_open ::
  "'x ao_internal ao_device \<Rightarrow> ao_sample_format \<Rightarrow> 'z world_scheme
    \<Rightarrow> (bool \<times> 'x ao_internal ao_device \<times> ao_sample_format \<times> 'z world_scheme) option" where
  "ao_raw_open d format w = do {
     i \<leftarrow> raw_state d;
     Some (True, d\<lparr>driver_byte_format := byte_order i\<rparr>, format, w) }"

definition ao_raw_play ::
  "'x ao_internal ao_device \<Rightarrow> byte list \<Rightarrow> 32 word \<Rightarrow> 'z world_scheme
    \<Rightarrow> (bool \<times> 'x ao_internal ao_device \<times> 'z world_scheme) option" where
  "ao_raw_play d output_samples num_bytes w = file_play d output_samples num_bytes w"

definition ao_raw_close ::
  "'x ao_internal ao_device \<Rightarrow> 'z world_scheme \<Rightarrow> (bool \<times> 'x ao_internal ao_device \<times> 'z world_scheme) option" where
  "ao_raw_close d w = Some (True, d, w)"

definition ao_raw_device_clear ::
  "'x ao_internal ao_device \<Rightarrow> 'z world_scheme \<Rightarrow> ('x ao_internal ao_device \<times> 'z world_scheme) option" where
  "ao_raw_device_clear d w = clear_internal d w"

definition ao_raw :: "('x ao_internal, 'z world_scheme) ao_functions" where
  "ao_raw =
     \<lparr>fn_test = ao_raw_test, fn_driver_info = ao_raw_info, fn_device_init = ao_raw_device_init,
      fn_set_option = ao_raw_set_option, fn_open = ao_raw_open, fn_play = ao_raw_play,
      fn_close = ao_raw_close, fn_device_clear = ao_raw_device_clear,
      fn_file_extension = Some ''raw''\<rparr>"

section \<open>Laws\<close>

lemma ao_raw_init_law:
  assumes "ao_raw_device_init d w = Some (r, d', w')" and "internal d = None"
  shows "books 0 one_block d w d' w' \<and> setup_frame d d'"
proof -
  obtain ok v where m: "malloc_ok w = (ok, v)" by (cases "malloc_ok w")
  with assms malloc_ok_heap [OF m] show ?thesis
    by (cases ok)
       (auto simp: ao_raw_device_init_def books_def device_blocks_def setup_frame_def core_frame_def
         heap_step_def)
qed

lemma ao_raw_set_option_law:
  assumes "ao_raw_set_option d k v w = Some (r, d', w')"
  shows "books 0 one_block d w d' w' \<and> setup_frame d d'"
  using assms state_SomeD(2) [of d]
  by (auto simp: ao_raw_set_option_def books_def device_blocks_def setup_frame_def core_frame_def
      split: if_splits Option.bind_splits)

interpretation raw: file_driver ao_raw one_block
proof
  fix d d' :: "'a ao_internal ao_device" and w w' :: "'b world_scheme" and r
  show "fn_device_init ao_raw d w = Some (r, d', w') \<Longrightarrow> internal d = None \<Longrightarrow>
      output_matrix d = None \<Longrightarrow> books 0 one_block d w d' w' \<and> setup_frame d d'"
    using ao_raw_init_law by (simp add: ao_raw_def)
  show "fn_set_option ao_raw d k v w = Some (r, d', w') \<Longrightarrow>
      books 0 one_block d w d' w' \<and> setup_frame d d'" for k v
    using ao_raw_set_option_law by (simp add: ao_raw_def)
  show "fn_open ao_raw d sf w = Some (r, d', sf', w') \<Longrightarrow>
      books 0 one_block d w d' w' \<and> core_frame d d' \<and> fmt_matrix sf' = fmt_matrix sf" for sf sf'
    by (auto simp: ao_raw_def ao_raw_open_def books_def device_blocks_def core_frame_def
        split: Option.bind_splits)
  show "fn_play ao_raw d bs n w = Some (r, d', w') \<Longrightarrow>
      books 0 one_block d w d' w' \<and> d' = d\<lparr>internal := internal d'\<rparr>" for bs n
    using file_play_law by (simp add: ao_raw_def ao_raw_play_def)
  show "fn_close ao_raw d w = Some (r, d', w') \<Longrightarrow> books 0 one_block d w d' w' \<and> core_frame d d'"
    by (auto simp: ao_raw_def ao_raw_close_def)
  show "fn_device_clear ao_raw d w = Some (d', w') \<Longrightarrow>
      books 0 one_block d w d' w' \<and> core_frame d d' \<and> internal d' = None"
    using clear_internal_law by (simp add: ao_raw_def ao_raw_device_clear_def)
  show "dev_file d = Some f \<Longrightarrow> get_stream f w = Some s \<Longrightarrow> at_end s \<Longrightarrow> unat n \<le> length bs \<Longrightarrow>
      fn_play ao_raw d bs n w = Some (True, d,
        put_stream f (s\<lparr>s_data := s_data s @ take (unat n) bs, s_pos := length (s_data s) + unat n\<rparr>) w)"
    for f s n bs
    using file_play_at_end by (simp add: ao_raw_def ao_raw_play_def)
qed

end
