(* ===== verification/AO_Au.thy ===== *)
theory AO_Au
  imports AO_Internal
begin

text \<open>
  The AU file driver, \<^verbatim>\<open>src/ao_au.c\<close>: a 28-byte big-endian header, then big-endian samples.  The
  length of the data is filled in when the file is closed, if it can be.
\<close>

section \<open>Operations\<close>

definition AUDIO_FILE_MAGIC :: "32 word" where
  "AUDIO_FILE_MAGIC = 0x2e736e64"

definition AUDIO_UNKNOWN_SIZE :: "32 word" where
  "AUDIO_UNKNOWN_SIZE = NOT 0"

definition AUDIO_FILE_ENCODING_LINEAR_8 :: "32 word" where
  "AUDIO_FILE_ENCODING_LINEAR_8 = 2"

definition AUDIO_FILE_ENCODING_LINEAR_16 :: "32 word" where
  "AUDIO_FILE_ENCODING_LINEAR_16 = 3"

definition AU_HEADER_LEN :: nat where
  "AU_HEADER_LEN = 28"

definition au_WRITE_U32 :: "32 word \<Rightarrow> byte list" where
  "au_WRITE_U32 x =
     [ucast (drop_bit 24 x AND 0xff), ucast (drop_bit 16 x AND 0xff),
      ucast (drop_bit 8 x AND 0xff), ucast (x AND 0xff)]"

text \<open>\<open>strncpy(buf, s, n)\<close>: up to the first NUL, then filled with NULs.\<close>

definition strncpy :: "byte list \<Rightarrow> nat \<Rightarrow> byte list" where
  "strncpy s n =
     (let t = takeWhile (\<lambda>b. b \<noteq> 0) (take n s) in t @ replicate (n - length t) 0)"

definition ao_au_info :: ao_info where
  "ao_au_info =
     \<lparr>info_type = AO_TYPE_FILE, info_name = ''AU file output'', short_name = ''au'',
      author = ''Wil Mahan <wtm2@duke.edu>'', info_comment = ''Sends output to a .au file'',
      preferred_byte_format = AO_FMT_BIG, priority = 0,
      info_options = [''matrix'', ''verbose'', ''quiet'', ''debug''], option_count = 4\<rparr>"

definition ao_au_test :: "'z world_scheme \<Rightarrow> (bool \<times> 'z world_scheme) option" where
  "ao_au_test w = Some (True, w)"

definition ao_au_device_init ::
  "'x ao_internal ao_device \<Rightarrow> 'z world_scheme \<Rightarrow> (bool \<times> 'x ao_internal ao_device \<times> 'z world_scheme) option" where
  "ao_au_device_init d w = (case malloc_ok w of (ok, w) \<Rightarrow>
     if \<not> ok then Some (False, d, w)
     else Some (True,
       d\<lparr>internal := Some (Au_internal \<lparr>au =
           \<lparr>au_magic = 0, au_hdr_size = 0, au_data_size = 0, au_encoding = 0, au_sample_rate = 0,
            au_channels = 0, au_info = [0, 0, 0, 0]\<rparr>\<rparr>),
         output_matrix_order := AO_OUTPUT_MATRIX_FIXED\<rparr>, w))"

definition ao_au_set_option ::
  "'x ao_internal ao_device \<Rightarrow> string \<Rightarrow> string option \<Rightarrow> 'z world_scheme
    \<Rightarrow> (bool \<times> 'x ao_internal ao_device \<times> 'z world_scheme) option" where
  "ao_au_set_option d k v w = Some (True, d, w)"

text \<open>The header of \<open>ao_au_open\<close> as it is filled in and as it is written.\<close>

definition au_fill :: "Audio_filehdr \<Rightarrow> int \<Rightarrow> 32 word \<Rightarrow> ao_sample_format \<Rightarrow> Audio_filehdr" where
  "au_fill h channels encoding format =
     h\<lparr>au_magic := AUDIO_FILE_MAGIC, au_channels := word_of_int channels, au_encoding := encoding,
       au_sample_rate := word_of_int (fmt_rate format), au_hdr_size := of_nat AU_HEADER_LEN,
       au_data_size := AUDIO_UNKNOWN_SIZE\<rparr>"

definition au_header :: "Audio_filehdr \<Rightarrow> byte list" where
  "au_header h =
     au_WRITE_U32 (au_magic h) @ au_WRITE_U32 (au_hdr_size h) @ au_WRITE_U32 (au_data_size h) @
     au_WRITE_U32 (au_encoding h) @ au_WRITE_U32 (au_sample_rate h) @
     au_WRITE_U32 (au_channels h) @ strncpy (au_info h) 4"

definition ao_au_open ::
  "'x ao_internal ao_device \<Rightarrow> ao_sample_format \<Rightarrow> 'z world_scheme
    \<Rightarrow> (bool \<times> 'x ao_internal ao_device \<times> ao_sample_format \<times> 'z world_scheme) option" where
  "ao_au_open d format w = do {
     i \<leftarrow> au_state d;
     let d = d\<lparr>driver_byte_format := AO_FMT_BIG\<rparr>;
     (if fmt_bits format \<noteq> 8 \<and> fmt_bits format \<noteq> 16
      then Some (False,
        d\<lparr>internal := Some (Au_internal (i\<lparr>au := (au i)
            \<lparr>au_magic := AUDIO_FILE_MAGIC, au_channels := word_of_int (output_channels d)\<rparr>\<rparr>))\<rparr>,
        format, w)
      else do {
        let h = au_fill (au i) (output_channels d)
                  (if fmt_bits format = 8 then AUDIO_FILE_ENCODING_LINEAR_8
                   else AUDIO_FILE_ENCODING_LINEAR_16) format;
        let d = d\<lparr>internal := Some (Au_internal (i\<lparr>au := h\<rparr>))\<rparr>;
        f \<leftarrow> dev_file d;
        (k, w) \<leftarrow> fwrite (au_header h) AU_HEADER_LEN f w;
        (if k \<noteq> AU_HEADER_LEN then Some (False, d, format, w)
         else if inter_matrix d = None \<and> output_channels d \<le> 2
         then (case strdup ''L,R'' w of (m, w) \<Rightarrow> Some (True, d\<lparr>inter_matrix := m\<rparr>, format, w))
         else Some (True, d, format, w)) }) }"

definition ao_au_play ::
  "'x ao_internal ao_device \<Rightarrow> byte list \<Rightarrow> 32 word \<Rightarrow> 'z world_scheme
    \<Rightarrow> (bool \<times> 'x ao_internal ao_device \<times> 'z world_scheme) option" where
  "ao_au_play d output_samples num_bytes w = file_play d output_samples num_bytes w"

text \<open>Every way through \<open>close\<close> returns 1; what follows the \<open>fwrite\<close> does not depend on its result.\<close>

definition ao_au_close ::
  "'x ao_internal ao_device \<Rightarrow> 'z world_scheme \<Rightarrow> (bool \<times> 'x ao_internal ao_device \<times> 'z world_scheme) option" where
  "ao_au_close d w = do {
     f \<leftarrow> dev_file d;
     size \<leftarrow> ftell f w;
     (if size > 0 then do {
        i \<leftarrow> au_state d;
        let n = word_of_int (size - int AU_HEADER_LEN);
        let d = d\<lparr>internal := Some (Au_internal (i\<lparr>au := (au i)\<lparr>au_data_size := n\<rparr>\<rparr>))\<rparr>;
        (r, w) \<leftarrow> fseek_set f 8 w;
        (if r < 0 then Some (True, d, w)
         else do {
           (k, w) \<leftarrow> fwrite (au_WRITE_U32 n) 4 f w;
           Some (True, d, w) }) }
      else Some (True, d, w)) }"

definition ao_au_device_clear ::
  "'x ao_internal ao_device \<Rightarrow> 'z world_scheme \<Rightarrow> ('x ao_internal ao_device \<times> 'z world_scheme) option" where
  "ao_au_device_clear d w = clear_internal d w"

definition ao_au :: "('x ao_internal, 'z world_scheme) ao_functions" where
  "ao_au =
     \<lparr>fn_test = ao_au_test, fn_driver_info = ao_au_info, fn_device_init = ao_au_device_init,
      fn_set_option = ao_au_set_option, fn_open = ao_au_open, fn_play = ao_au_play,
      fn_close = ao_au_close, fn_device_clear = ao_au_device_clear,
      fn_file_extension = Some ''au''\<rparr>"

section \<open>The contract\<close>

lemma ao_au_init_law:
  assumes "ao_au_device_init d w = Some (r, d', w')" and "internal d = None"
  shows "books 0 one_block d w d' w' \<and> setup_frame d d'"
proof -
  obtain ok v where m: "malloc_ok w = (ok, v)" by (cases "malloc_ok w")
  with assms malloc_ok_heap [OF m] show ?thesis
    by (cases ok)
       (auto simp: ao_au_device_init_def books_def device_blocks_def setup_frame_def core_frame_def
         heap_step_def)
qed

lemma ao_au_open_law:
  assumes "ao_au_open d sf w = Some (r, d', sf', w')"
  shows "books 0 one_block d w d' w' \<and> core_frame d d' \<and> fmt_matrix sf' = fmt_matrix sf"
  using assms state_SomeD(3) [of d]
  by (auto simp: ao_au_open_def books_def device_blocks_def core_frame_def heap_step_def
      split: if_splits Option.bind_splits prod.splits
      dest!: strdup_heap fwrite_same same_but_streams_live)

lemma ao_au_close_law:
  assumes "ao_au_close d w = Some (r, d', w')"
  shows "books 0 one_block d w d' w' \<and> core_frame d d'"
  using assms state_SomeD(3) [of d]
  by (auto simp: ao_au_close_def books_def device_blocks_def core_frame_def
      split: if_splits Option.bind_splits
      dest!: fwrite_same fseek_same same_but_streams_live)

interpretation au: file_driver ao_au one_block
proof
  fix d d' :: "'a ao_internal ao_device" and w w' :: "'b world_scheme" and r
  show "fn_device_init ao_au d w = Some (r, d', w') \<Longrightarrow> internal d = None \<Longrightarrow>
      output_matrix d = None \<Longrightarrow> books 0 one_block d w d' w' \<and> setup_frame d d'"
    using ao_au_init_law by (simp add: ao_au_def)
  show "fn_set_option ao_au d k v w = Some (r, d', w') \<Longrightarrow>
      books 0 one_block d w d' w' \<and> setup_frame d d'" for k v
    by (auto simp: ao_au_def ao_au_set_option_def)
  show "fn_open ao_au d sf w = Some (r, d', sf', w') \<Longrightarrow>
      books 0 one_block d w d' w' \<and> core_frame d d' \<and> fmt_matrix sf' = fmt_matrix sf" for sf sf'
    using ao_au_open_law by (simp add: ao_au_def)
  show "fn_play ao_au d bs n w = Some (r, d', w') \<Longrightarrow>
      books 0 one_block d w d' w' \<and> d' = d\<lparr>internal := internal d'\<rparr>" for bs n
    using file_play_law by (simp add: ao_au_def ao_au_play_def)
  show "fn_close ao_au d w = Some (r, d', w') \<Longrightarrow> books 0 one_block d w d' w' \<and> core_frame d d'"
    using ao_au_close_law by (simp add: ao_au_def)
  show "fn_device_clear ao_au d w = Some (d', w') \<Longrightarrow>
      books 0 one_block d w d' w' \<and> core_frame d d' \<and> internal d' = None"
    using clear_internal_law by (simp add: ao_au_def ao_au_device_clear_def)
  show "dev_file d = Some f \<Longrightarrow> get_stream f w = Some s \<Longrightarrow> at_end s \<Longrightarrow> unat n \<le> length bs \<Longrightarrow>
      fn_play ao_au d bs n w = Some (True, d,
        put_stream f (s\<lparr>s_data := s_data s @ take (unat n) bs, s_pos := length (s_data s) + unat n\<rparr>) w)"
    for f s n bs
    using file_play_at_end by (simp add: ao_au_def ao_au_play_def)
qed

section \<open>The file\<close>

text \<open>A reader of AU headers: the six 32-bit fields and the rest of the file.\<close>

definition read_be32 :: "byte list \<Rightarrow> (int \<times> byte list) option" where
  "read_be32 bs = (if length bs < 4 then None else Some (be_value (take 4 bs), drop 4 bs))"

lemma au_WRITE_U32_bytes:
  "au_WRITE_U32 x = [ucast (drop_bit 24 x), ucast (drop_bit 16 x), ucast (drop_bit 8 x), ucast x]"
  by (simp add: au_WRITE_U32_def)

lemma length_au_WRITE_U32 [simp]: "length (au_WRITE_U32 x) = 4"
  by (simp add: au_WRITE_U32_def)

lemma be_value_write: "be_value (au_WRITE_U32 x) = uint x"
proof -
  have range: "0 \<le> uint x" "uint x < 4294967296" using uint_bounded [of x] by simp_all
  show ?thesis
    unfolding au_WRITE_U32_bytes be_value4 byte_of_word uint_drop_bit32
    using digits256 [OF range] by (simp only: pow_values)
qed

lemma read_be32_write: "read_be32 (au_WRITE_U32 x @ r) = Some (uint x, r)"
  by (simp add: read_be32_def be_value_write)

text \<open>Magic, header size, data size, encoding, rate, channels; and the data after the header.\<close>

definition parse_au :: "byte list \<Rightarrow> (int \<times> int \<times> int \<times> int \<times> int \<times> int \<times> byte list) option" where
  "parse_au bs = do {
     (magic, r) \<leftarrow> read_be32 bs;
     (hdr, r) \<leftarrow> read_be32 r;
     (size, r) \<leftarrow> read_be32 r;
     (enc, r) \<leftarrow> read_be32 r;
     (rate, r) \<leftarrow> read_be32 r;
     (ch, r) \<leftarrow> read_be32 r;
     Some (magic, hdr, size, enc, rate, ch, drop (nat hdr) bs) }"

lemma length_strncpy [simp]: "length (strncpy s n) = n"
proof -
  have "length (takeWhile (\<lambda>b. b \<noteq> 0) (take n s)) \<le> n"
    using length_takeWhile_le [of "\<lambda>b. b \<noteq> 0" "take n s"] by simp
  then show ?thesis by (simp add: strncpy_def)
qed

lemma length_au_header [simp]: "length (au_header h) = 28"
  by (simp add: au_header_def)

lemma parse_au_header:
  assumes "au_hdr_size h = 28"
  shows "parse_au (au_header h @ body) =
    Some (uint (au_magic h), 28, uint (au_data_size h), uint (au_encoding h),
          uint (au_sample_rate h), uint (au_channels h), body)"
  using assms length_au_header [of h]
  by (simp add: parse_au_def au_header_def read_be32_write)

text \<open>Closing patches the size field and nothing else.\<close>

lemma au_header_patch:
  "take 8 (au_header h @ body) @ au_WRITE_U32 n @ drop 12 (au_header h @ body) =
     au_header (h\<lparr>au_data_size := n\<rparr>) @ body"
  by (simp add: au_header_def)

lemma ao_au_close_file:
  assumes f: "dev_file d = Some f" and s: "get_stream f w = Some s" "at_end s"
    and i: "au_state d = Some i" and data: "s_data s = au_header h @ body"
  obtains d' w' s' where "ao_au_close d w = Some (True, d', w')" "dev_file d' = Some f"
    "same_but_streams w w'" "get_stream f w' = Some s'"
    "s_data s' = au_header (h\<lparr>au_data_size := of_nat (length body)\<rparr>) @ body"
proof -
  let ?n = "word_of_int (int (length (s_data s)) - int AU_HEADER_LEN) :: 32 word"
  have n: "?n = of_nat (length body)" by (simp add: data AU_HEADER_LEN_def)
  have e: "s_seekable s" "s_limit s = None" using s(2) by (simp_all add: at_end_def)
  obtain v where v: "fseek_set f 8 w = Some (0, v)"
    "fwrite (au_WRITE_U32 ?n) 4 f v = Some (4, put_stream f (s\<lparr>s_data :=
       take 8 (s_data s) @ au_WRITE_U32 ?n @ drop 12 (s_data s), s_pos := 12\<rparr>) w)"
    using seek_write [OF s(1) e, of 8 "au_WRITE_U32 ?n"] by (auto simp: data)
  let ?s = "s\<lparr>s_data := take 8 (s_data s) @ au_WRITE_U32 ?n @ drop 12 (s_data s), s_pos := 12\<rparr>"
  let ?d = "d\<lparr>internal := Some (Au_internal (i\<lparr>au := (au i)\<lparr>au_data_size := ?n\<rparr>\<rparr>))\<rparr>"
  have pos: "0 < int (length (s_data s))" by (simp add: data)
  have "ao_au_close d w = Some (True, ?d, put_stream f ?s w)"
    using f i v ftell_at_end [OF s] pos by (simp add: ao_au_close_def del: of_nat_diff)
  moreover have "get_stream f (put_stream f ?s w) = Some ?s" using get_stream_lt [OF s(1)] by simp
  moreover have "s_data ?s = au_header (h\<lparr>au_data_size := of_nat (length body)\<rparr>) @ body"
    unfolding n using au_header_patch [of h body] data by simp
  ultimately show ?thesis using that f by fastforce
qed

text \<open>On a pipe the size stays unknown and the data is left alone.\<close>

lemma ao_au_close_pipe:
  assumes "dev_file d = Some f" and "get_stream f w = Some s" and "\<not> s_seekable s"
  shows "ao_au_close d w = Some (True, d, w)"
  using assms by (simp add: ao_au_close_def ftell_def)

end
