(* ===== verification/AO_Wav.thy ===== *)
theory AO_Wav
  imports AO_Au
begin

text \<open>
  The WAV file driver, \<^verbatim>\<open>src/ao_wav.c\<close>: a 68-byte little-endian \<open>WAVE_FORMAT_EXTENSIBLE\<close> header,
  then little-endian samples.  Both lengths of the header are bogus until the file is closed.
\<close>

section \<open>Operations\<close>

definition WAVE_FORMAT_PCM :: "16 word" where
  "WAVE_FORMAT_PCM = 0x0001"

definition WAVE_FORMAT_EXTENSIBLE :: "16 word" where
  "WAVE_FORMAT_EXTENSIBLE = 0xfffe"

definition WAV_HEADER_LEN :: nat where
  "WAV_HEADER_LEN = 68"

definition wav_WRITE_U32 :: "32 word \<Rightarrow> byte list" where
  "wav_WRITE_U32 x =
     [ucast (x AND 0xff), ucast (drop_bit 8 x AND 0xff), ucast (drop_bit 16 x AND 0xff),
      ucast (drop_bit 24 x AND 0xff)]"

definition wav_WRITE_U16 :: "16 word \<Rightarrow> byte list" where
  "wav_WRITE_U16 x = [ucast (x AND 0xff), ucast (drop_bit 8 x AND 0xff)]"

text \<open>The bytes of a string literal.\<close>

definition bytes_of :: "string \<Rightarrow> byte list" where
  "bytes_of s = map (\<lambda>c. of_nat (of_char c)) s"

definition ao_wav_info :: ao_info where
  "ao_wav_info =
     \<lparr>info_type = AO_TYPE_FILE, info_name = ''WAV file output'', short_name = ''wav'',
      author = ''Aaron Holtzman <aholtzma@ess.engr.uvic.ca>'',
      info_comment = ''Sends output to a .wav file'',
      preferred_byte_format = AO_FMT_LITTLE, priority = 0,
      info_options = [''matrix'', ''verbose'', ''quiet'', ''debug''], option_count = 4\<rparr>"

definition ao_wav_test :: "'z world_scheme \<Rightarrow> (bool \<times> 'z world_scheme) option" where
  "ao_wav_test w = Some (True, w)"

text \<open>\<open>memset(&(internal->wave), 0, sizeof(internal->wave))\<close>\<close>

definition wave_zero :: wave_header where
  "wave_zero =
     \<lparr>riff = \<lparr>riff_id = [0, 0, 0, 0], riff_len = 0, wave_id = [0, 0, 0, 0]\<rparr>,
      format_chunk = \<lparr>chunk_id = [0, 0, 0, 0], chunk_len = 0\<rparr>,
      common_chunk =
        \<lparr>wFormatTag = 0, wChannels = 0, dwSamplesPerSec = 0, dwAvgBytesPerSec = 0, wBlockAlign = 0,
         wBitsPerSample = 0, cbSize = 0, wValidBitsPerSample = 0, dwChannelMask = 0, subFormat = 0\<rparr>,
      data_chunk = \<lparr>chunk_id = [0, 0, 0, 0], chunk_len = 0\<rparr>\<rparr>"

definition ao_wav_device_init ::
  "'x ao_internal ao_device \<Rightarrow> 'z world_scheme \<Rightarrow> (bool \<times> 'x ao_internal ao_device \<times> 'z world_scheme) option" where
  "ao_wav_device_init d w = (case malloc_ok w of (ok, w) \<Rightarrow>
     if \<not> ok then Some (False, d, w)
     else (case strdup ''L,R,C,LFE,BL,BR,CL,CR,BC,SL,SR'' w of (m, w) \<Rightarrow>
       Some (True,
         d\<lparr>internal := Some (Wav_internal \<lparr>wave = wave_zero\<rparr>), output_matrix := m,
           output_matrix_order := AO_OUTPUT_MATRIX_COLLAPSIBLE\<rparr>, w)))"

definition ao_wav_set_option ::
  "'x ao_internal ao_device \<Rightarrow> string \<Rightarrow> string option \<Rightarrow> 'z world_scheme
    \<Rightarrow> (bool \<times> 'x ao_internal ao_device \<times> 'z world_scheme) option" where
  "ao_wav_set_option d k v w = Some (True, d, w)"

text \<open>
  The header of \<open>ao_wav_open\<close>.  \<open>dwAvgBytesPerSec\<close> is a product of unsigned 32-bit values,
  \<open>wBlockAlign\<close> one of \<open>int\<close>s that is cut to 16 bits.
\<close>

definition wav_fill :: "wave_header \<Rightarrow> int \<Rightarrow> 32 word \<Rightarrow> ao_sample_format \<Rightarrow> wave_header option" where
  "wav_fill h channels channel_mask format = do {
     b7 \<leftarrow> c_int (fmt_bits format + 7);
     bits \<leftarrow> c_int (b7 div 8 * 8);
     let size = 0x7fffffff;
     let ch = (word_of_int channels :: 16 word);
     let wbits = (word_of_int bits :: 16 word);
     let rate = (word_of_int (fmt_rate format) :: 32 word);
     Some
       \<lparr>riff = \<lparr>riff_id = bytes_of ''RIFF'', riff_len = size - 8, wave_id = bytes_of ''WAVE''\<rparr>,
        format_chunk = \<lparr>chunk_id = bytes_of ''fmt '', chunk_len = 40\<rparr>,
        common_chunk = (common_chunk h)
          \<lparr>wChannels := ch, wBitsPerSample := wbits,
           wValidBitsPerSample := word_of_int (fmt_bits format), dwSamplesPerSec := rate,
           wFormatTag := WAVE_FORMAT_EXTENSIBLE,
           dwAvgBytesPerSec := ucast ch * rate * ucast (drop_bit 3 wbits),
           wBlockAlign := word_of_int (uint ch * uint (drop_bit 3 wbits)),
           cbSize := 22, subFormat := WAVE_FORMAT_PCM, dwChannelMask := channel_mask\<rparr>,
        data_chunk = \<lparr>chunk_id = bytes_of ''data'', chunk_len = size - of_nat WAV_HEADER_LEN\<rparr>\<rparr> }"

definition wav_guid_tail :: "byte list" where
  "wav_guid_tail =
     [0x00, 0x00, 0x00, 0x00, 0x10, 0x00, 0x80, 0x00, 0x00, 0xAA, 0x00, 0x38, 0x9B, 0x71]"

definition wav_header :: "wave_header \<Rightarrow> byte list" where
  "wav_header h = (let c = common_chunk h in
     strncpy (riff_id (riff h)) 4 @ wav_WRITE_U32 (riff_len (riff h)) @
     strncpy (wave_id (riff h)) 4 @
     strncpy (chunk_id (format_chunk h)) 4 @ wav_WRITE_U32 (chunk_len (format_chunk h)) @
     wav_WRITE_U16 (wFormatTag c) @ wav_WRITE_U16 (wChannels c) @
     wav_WRITE_U32 (dwSamplesPerSec c) @ wav_WRITE_U32 (dwAvgBytesPerSec c) @
     wav_WRITE_U16 (wBlockAlign c) @ wav_WRITE_U16 (wBitsPerSample c) @
     wav_WRITE_U16 (cbSize c) @ wav_WRITE_U16 (wValidBitsPerSample c) @
     wav_WRITE_U32 (dwChannelMask c) @ wav_WRITE_U16 (subFormat c) @ wav_guid_tail @
     strncpy (chunk_id (data_chunk h)) 4 @ wav_WRITE_U32 (chunk_len (data_chunk h)))"

definition ao_wav_open ::
  "'x ao_internal ao_device \<Rightarrow> ao_sample_format \<Rightarrow> 'z world_scheme
    \<Rightarrow> (bool \<times> 'x ao_internal ao_device \<times> ao_sample_format \<times> 'z world_scheme) option" where
  "ao_wav_open d format w = do {
     i \<leftarrow> wav_state d;
     h \<leftarrow> wav_fill (wave i) (output_channels d) (output_mask d) format;
     let d = d\<lparr>internal := Some (Wav_internal (i\<lparr>wave := h\<rparr>))\<rparr>;
     f \<leftarrow> dev_file d;
     (k, w) \<leftarrow> fwrite (wav_header h) WAV_HEADER_LEN f w;
     (if k \<noteq> WAV_HEADER_LEN then Some (False, d, format, w)
      else Some (True, d\<lparr>driver_byte_format := AO_FMT_LITTLE\<rparr>, format, w)) }"

definition ao_wav_play ::
  "'x ao_internal ao_device \<Rightarrow> byte list \<Rightarrow> 32 word \<Rightarrow> 'z world_scheme
    \<Rightarrow> (bool \<times> 'x ao_internal ao_device \<times> 'z world_scheme) option" where
  "ao_wav_play d output_samples num_bytes w = file_play d output_samples num_bytes w"

text \<open>\<open>close\<close> fills in both lengths; the header is correct only if all four steps work.\<close>

definition ao_wav_close ::
  "'x ao_internal ao_device \<Rightarrow> 'z world_scheme \<Rightarrow> (bool \<times> 'x ao_internal ao_device \<times> 'z world_scheme) option" where
  "ao_wav_close d w = do {
     f \<leftarrow> dev_file d;
     size \<leftarrow> ftell f w;
     (if size < 0 then Some (False, d, w)
      else do {
        i \<leftarrow> wav_state d;
        let h = (wave i)
          \<lparr>riff := (riff (wave i))\<lparr>riff_len := word_of_int (size - 8)\<rparr>,
           data_chunk := (data_chunk (wave i))\<lparr>chunk_len := word_of_int (size - int WAV_HEADER_LEN)\<rparr>\<rparr>;
        let d = d\<lparr>internal := Some (Wav_internal (i\<lparr>wave := h\<rparr>))\<rparr>;
        (r, w) \<leftarrow> fseek_set f 4 w;
        (if r < 0 then Some (False, d, w)
         else do {
           (k, w) \<leftarrow> fwrite (wav_WRITE_U32 (riff_len (riff h))) 4 f w;
           (if k < 4 then Some (False, d, w)
            else do {
              (r, w) \<leftarrow> fseek_set f 64 w;
              (if r < 0 then Some (False, d, w)
               else do {
                 (k, w) \<leftarrow> fwrite (wav_WRITE_U32 (chunk_len (data_chunk h))) 4 f w;
                 Some (\<not> k < 4, d, w) }) }) }) }) }"

definition ao_wav_device_clear ::
  "'x ao_internal ao_device \<Rightarrow> 'z world_scheme \<Rightarrow> ('x ao_internal ao_device \<times> 'z world_scheme) option" where
  "ao_wav_device_clear d w = clear_internal d w"

definition ao_wav :: "('x ao_internal, 'z world_scheme) ao_functions" where
  "ao_wav =
     \<lparr>fn_test = ao_wav_test, fn_driver_info = ao_wav_info, fn_device_init = ao_wav_device_init,
      fn_set_option = ao_wav_set_option, fn_open = ao_wav_open, fn_play = ao_wav_play,
      fn_close = ao_wav_close, fn_device_clear = ao_wav_device_clear,
      fn_file_extension = Some ''wav''\<rparr>"

section \<open>The contract\<close>

lemma ao_wav_init_law:
  assumes "ao_wav_device_init d w = Some (r, d', w')" and "internal d = None" and "output_matrix d = None"
  shows "books 0 one_block d w d' w' \<and> setup_frame d d'"
proof -
  obtain ok v where m: "malloc_ok w = (ok, v)" by (cases "malloc_ok w")
  obtain om u where s: "strdup ''L,R,C,LFE,BL,BR,CL,CR,BC,SL,SR'' v = (om, u)"
    by (cases "strdup ''L,R,C,LFE,BL,BR,CL,CR,BC,SL,SR'' v")
  from assms m malloc_ok_heap [OF m] s strdup_heap [OF s] show ?thesis
    by (cases ok)
       (auto simp: ao_wav_device_init_def books_def device_blocks_def setup_frame_def core_frame_def
         heap_step_def)
qed

lemma ao_wav_open_law:
  assumes "ao_wav_open d sf w = Some (r, d', sf', w')"
  shows "books 0 one_block d w d' w' \<and> core_frame d d' \<and> fmt_matrix sf' = fmt_matrix sf"
  using assms state_SomeD(4) [of d]
  by (auto simp: ao_wav_open_def books_def device_blocks_def core_frame_def
      split: if_splits Option.bind_splits dest!: fwrite_same same_but_streams_live)

lemma ao_wav_close_law:
  assumes "ao_wav_close d w = Some (r, d', w')"
  shows "books 0 one_block d w d' w' \<and> core_frame d d'"
  using assms state_SomeD(4) [of d]
  by (auto simp: ao_wav_close_def books_def device_blocks_def core_frame_def
      split: if_splits Option.bind_splits
      dest!: fwrite_same fseek_same same_but_streams_live)

interpretation wav: file_driver ao_wav one_block
proof
  fix d d' :: "'a ao_internal ao_device" and w w' :: "'b world_scheme" and r
  show "fn_device_init ao_wav d w = Some (r, d', w') \<Longrightarrow> internal d = None \<Longrightarrow>
      output_matrix d = None \<Longrightarrow> books 0 one_block d w d' w' \<and> setup_frame d d'"
    using ao_wav_init_law by (simp add: ao_wav_def)
  show "fn_set_option ao_wav d k v w = Some (r, d', w') \<Longrightarrow>
      books 0 one_block d w d' w' \<and> setup_frame d d'" for k v
    by (auto simp: ao_wav_def ao_wav_set_option_def)
  show "fn_open ao_wav d sf w = Some (r, d', sf', w') \<Longrightarrow>
      books 0 one_block d w d' w' \<and> core_frame d d' \<and> fmt_matrix sf' = fmt_matrix sf" for sf sf'
    using ao_wav_open_law by (simp add: ao_wav_def)
  show "fn_play ao_wav d bs n w = Some (r, d', w') \<Longrightarrow>
      books 0 one_block d w d' w' \<and> d' = d\<lparr>internal := internal d'\<rparr>" for bs n
    using file_play_law by (simp add: ao_wav_def ao_wav_play_def)
  show "fn_close ao_wav d w = Some (r, d', w') \<Longrightarrow> books 0 one_block d w d' w' \<and> core_frame d d'"
    using ao_wav_close_law by (simp add: ao_wav_def)
  show "fn_device_clear ao_wav d w = Some (d', w') \<Longrightarrow>
      books 0 one_block d w d' w' \<and> core_frame d d' \<and> internal d' = None"
    using clear_internal_law by (simp add: ao_wav_def ao_wav_device_clear_def)
  show "dev_file d = Some f \<Longrightarrow> get_stream f w = Some s \<Longrightarrow> at_end s \<Longrightarrow> unat n \<le> length bs \<Longrightarrow>
      fn_play ao_wav d bs n w = Some (True, d,
        put_stream f (s\<lparr>s_data := s_data s @ take (unat n) bs, s_pos := length (s_data s) + unat n\<rparr>) w)"
    for f s n bs
    using file_play_at_end by (simp add: ao_wav_def ao_wav_play_def)
qed

section \<open>The file\<close>

lemma strncpy_id [simp]:
  "strncpy (bytes_of ''RIFF'') 4 = bytes_of ''RIFF''" "strncpy (bytes_of ''WAVE'') 4 = bytes_of ''WAVE''"
  "strncpy (bytes_of ''fmt '') 4 = bytes_of ''fmt ''" "strncpy (bytes_of ''data'') 4 = bytes_of ''data''"
  by (simp_all add: strncpy_def bytes_of_def of_char_def)

lemma length_wav_WRITE [simp]: "length (wav_WRITE_U32 x) = 4" "length (wav_WRITE_U16 y) = 2"
  by (simp_all add: wav_WRITE_U32_def wav_WRITE_U16_def)

lemma length_wav_guid [simp]: "length wav_guid_tail = 14"
  by (simp add: wav_guid_tail_def)

lemma length_wav_header [simp]: "length (wav_header h) = 68"
  by (simp add: wav_header_def)

text \<open>A reader of WAV headers.\<close>

definition read_bytes :: "nat \<Rightarrow> byte list \<Rightarrow> (byte list \<times> byte list) option" where
  "read_bytes n bs = (if length bs < n then None else Some (take n bs, drop n bs))"

definition read_le :: "nat \<Rightarrow> byte list \<Rightarrow> (int \<times> byte list) option" where
  "read_le n bs = map_option (\<lambda>(x, r). (be_value (rev x), r)) (read_bytes n bs)"

record wav_view =
  v_riff_len :: int
  v_tag :: int
  v_channels :: int
  v_rate :: int
  v_avg :: int
  v_align :: int
  v_bits :: int
  v_valid_bits :: int
  v_mask :: int
  v_subformat :: int
  v_data_len :: int
  v_body :: "byte list"

definition parse_wav :: "byte list \<Rightarrow> wav_view option" where
  "parse_wav bs = do {
     (riffid, r) \<leftarrow> read_bytes 4 bs;
     (rlen, r) \<leftarrow> read_le 4 r;
     (waveid, r) \<leftarrow> read_bytes 4 r;
     (fmtid, r) \<leftarrow> read_bytes 4 r;
     (flen, r) \<leftarrow> read_le 4 r;
     (tag, r) \<leftarrow> read_le 2 r;
     (ch, r) \<leftarrow> read_le 2 r;
     (rate, r) \<leftarrow> read_le 4 r;
     (avg, r) \<leftarrow> read_le 4 r;
     (align, r) \<leftarrow> read_le 2 r;
     (nbits, r) \<leftarrow> read_le 2 r;
     (cb, r) \<leftarrow> read_le 2 r;
     (vbits, r) \<leftarrow> read_le 2 r;
     (cmask, r) \<leftarrow> read_le 4 r;
     (sub, r) \<leftarrow> read_le 2 r;
     (guid, r) \<leftarrow> read_bytes 14 r;
     (dataid, r) \<leftarrow> read_bytes 4 r;
     (dlen, r) \<leftarrow> read_le 4 r;
     (if riffid = bytes_of ''RIFF'' \<and> waveid = bytes_of ''WAVE'' \<and> fmtid = bytes_of ''fmt '' \<and>
         flen = 40 \<and> cb = 22 \<and> guid = wav_guid_tail \<and> dataid = bytes_of ''data''
      then Some \<lparr>v_riff_len = rlen, v_tag = tag, v_channels = ch, v_rate = rate, v_avg = avg,
                 v_align = align, v_bits = nbits, v_valid_bits = vbits, v_mask = cmask,
                 v_subformat = sub, v_data_len = dlen, v_body = r\<rparr>
      else None) }"

lemma read_bytes_append: "length x = n \<Longrightarrow> read_bytes n (x @ r) = Some (x, r)"
  by (simp add: read_bytes_def)

lemma wav_WRITE_U32_rev: "rev (wav_WRITE_U32 x) = au_WRITE_U32 x"
  by (simp add: wav_WRITE_U32_def au_WRITE_U32_def)

lemma read_le_U32: "read_le 4 (wav_WRITE_U32 x @ r) = Some (uint x, r)"
  by (simp add: read_le_def read_bytes_append wav_WRITE_U32_rev be_value_write)

lemma byte_of_word16: "uint (ucast (y :: 16 word) :: byte) = uint y mod 256"
  by (simp add: unsigned_ucast_eq take_bit_eq_mod)

lemma read_le_U16: "read_le 2 (wav_WRITE_U16 x @ r) = Some (uint x, r)"
proof -
  have "uint (drop_bit 8 x) = uint x div 256"
    using take_bit_int_eq_self [of "uint x" 16] uint_bounded [of x]
    by (simp add: unsigned_drop_bit_eq drop_bit_eq_div [of 8 "uint x"] flip: drop_bit_eq_div)
  moreover have "uint x div 256 mod 256 = uint x div 256"
    using uint_bounded [of x] zdiv_mono1 [of "uint x" 65535 256] zdiv_mono1 [of 0 "uint x" 256]
    by (intro mod_pos_pos_trivial) simp_all
  ultimately have "be_value (rev (wav_WRITE_U16 x)) = uint x div 256 * 256 + uint x mod 256"
    by (simp add: wav_WRITE_U16_def be_value_def byte_of_word16)
  then show ?thesis by (simp add: read_le_def read_bytes_append)
qed

text \<open>A header that \<open>ao_wav_open\<close> has filled in.\<close>

definition wav_filled :: "wave_header \<Rightarrow> bool" where
  "wav_filled h \<longleftrightarrow>
     riff_id (riff h) = bytes_of ''RIFF'' \<and> wave_id (riff h) = bytes_of ''WAVE'' \<and>
     chunk_id (format_chunk h) = bytes_of ''fmt '' \<and> chunk_len (format_chunk h) = 40 \<and>
     cbSize (common_chunk h) = 22 \<and> chunk_id (data_chunk h) = bytes_of ''data''"

lemma wav_fill_filled: "wav_fill h ch m format = Some h' \<Longrightarrow> wav_filled h'"
  by (auto simp: wav_fill_def wav_filled_def split: Option.bind_splits)

definition wav_view_of :: "wave_header \<Rightarrow> byte list \<Rightarrow> wav_view" where
  "wav_view_of h body = (let c = common_chunk h in
     \<lparr>v_riff_len = uint (riff_len (riff h)), v_tag = uint (wFormatTag c),
      v_channels = uint (wChannels c), v_rate = uint (dwSamplesPerSec c),
      v_avg = uint (dwAvgBytesPerSec c), v_align = uint (wBlockAlign c),
      v_bits = uint (wBitsPerSample c), v_valid_bits = uint (wValidBitsPerSample c),
      v_mask = uint (dwChannelMask c), v_subformat = uint (subFormat c),
      v_data_len = uint (chunk_len (data_chunk h)), v_body = body\<rparr>)"

lemma length_bytes_of [simp]: "length (bytes_of s) = length s"
  by (simp add: bytes_of_def)

lemma parse_wav_header:
  assumes "wav_filled h"
  shows "parse_wav (wav_header h @ body) = Some (wav_view_of h body)"
  using assms
  by (simp add: parse_wav_def wav_header_def wav_filled_def read_bytes_append read_le_U32
      read_le_U16 wav_view_of_def)

text \<open>Closing patches both lengths and nothing else.\<close>

definition wav_patch :: "wave_header \<Rightarrow> 32 word \<Rightarrow> 32 word \<Rightarrow> wave_header" where
  "wav_patch h m n =
     h\<lparr>riff := (riff h)\<lparr>riff_len := m\<rparr>, data_chunk := (data_chunk h)\<lparr>chunk_len := n\<rparr>\<rparr>"

lemma wav_header_patch:
  fixes h body m
  defines "bs \<equiv> wav_header h @ body"
  defines "cs \<equiv> take 4 bs @ wav_WRITE_U32 m @ drop 8 bs"
  shows "take 64 cs @ wav_WRITE_U32 n @ drop 68 cs = wav_header (wav_patch h m n) @ body"
  by (simp add: bs_def cs_def wav_header_def wav_patch_def)

lemma ao_wav_close_file:
  assumes f: "dev_file d = Some f" and s: "get_stream f w = Some s" "at_end s"
    and i: "wav_state d = Some i" and data: "s_data s = wav_header (wave i) @ body"
  obtains d' w' s' where "ao_wav_close d w = Some (True, d', w')" "dev_file d' = Some f"
    "same_but_streams w w'" "get_stream f w' = Some s'"
    "s_data s' = wav_header (wav_patch (wave i) (of_nat (length body + 60)) (of_nat (length body))) @ body"
proof -
  define m :: "32 word" where "m = of_nat (length body + 60)"
  define n :: "32 word" where "n = of_nat (length body)"
  define s1 where "s1 = s\<lparr>s_data := take 4 (s_data s) @ wav_WRITE_U32 m @ drop 8 (s_data s), s_pos := 8\<rparr>"
  define s2 where "s2 = s1\<lparr>s_data := take 64 (s_data s1) @ wav_WRITE_U32 n @ drop 68 (s_data s1), s_pos := 68\<rparr>"
  define h where "h = wav_patch (wave i) m n"
  have e: "s_seekable s" "s_limit s = None" "s_seekable s1" "s_limit s1 = None" "s_open s1" "s_open s2"
    using s(2) by (simp_all add: at_end_def s1_def s2_def)
  have len: "length (s_data s) = length body + 68" "length (s_data s1) = length body + 68"
    by (simp_all add: data s1_def)
  have mn: "of_nat (length (s_data s)) - 8 = m" "of_nat (length (s_data s)) - of_nat WAV_HEADER_LEN = n"
    by (simp_all add: len WAV_HEADER_LEN_def m_def n_def)
  have h: "(wave i)\<lparr>riff := (riff (wave i))\<lparr>riff_len := m\<rparr>,
      data_chunk := (data_chunk (wave i))\<lparr>chunk_len := n\<rparr>\<rparr> = h" by (simp add: h_def wav_patch_def)
  have f': "f < length (w_streams w)" using get_stream_lt [OF s(1)] by simp
  from seek_write [OF s(1) e(1,2), of 4 "wav_WRITE_U32 m"] len obtain v where v:
    "fseek_set f 4 w = Some (0, v)" "fwrite (wav_WRITE_U32 m) 4 f v = Some (4, put_stream f s1 w)"
    unfolding s1_def by auto
  have s1: "get_stream f (put_stream f s1 w) = Some s1" using f' e by simp
  from seek_write [OF s1 e(3,4), of 64 "wav_WRITE_U32 n"] len obtain u where u:
    "fseek_set f 64 (put_stream f s1 w) = Some (0, u)"
    "fwrite (wav_WRITE_U32 n) 4 f u = Some (4, put_stream f s2 (put_stream f s1 w))"
    unfolding s2_def by auto
  let ?d = "d\<lparr>internal := Some (Wav_internal (i\<lparr>wave := h\<rparr>))\<rparr>"
  have hl: "riff_len (riff h) = m" "chunk_len (data_chunk h) = n" by (simp_all add: h_def wav_patch_def)
  have "ao_wav_close d w = Some (True, ?d, put_stream f s2 (put_stream f s1 w))"
    using f i v u ftell_at_end [OF s] by (simp add: ao_wav_close_def mn h hl)
  moreover have "get_stream f (put_stream f s2 (put_stream f s1 w)) = Some s2" using f' e by simp
  moreover have "s_data s2 = wav_header h @ body"
    using wav_header_patch [where m = m and h = "wave i" and body = body and n = n] by (simp add: s2_def s1_def data h_def)
  moreover have "same_but_streams w (put_stream f s2 (put_stream f s1 w))" by auto
  ultimately show ?thesis using that f unfolding h_def m_def n_def by fastforce
qed

end
