(* ===== verification/AO_Library.thy ===== *)
theory AO_Library
  imports AO_Null AO_Raw AO_Wav
begin

text \<open>
  The life of the library: \<open>static_drivers\<close>, \<open>ao_initialize\<close>, \<open>ao_shutdown\<close>, \<open>_clear_config\<close>
  and \<open>ao_append_global_option\<close> of \<^verbatim>\<open>src/audio_out.c\<close>, in the build without AIX and Windows
  drivers.
\<close>

section \<open>Operations\<close>

definition static_drivers :: "('x ao_internal, 'z world_scheme) ao_functions list" where
  "static_drivers = [ao_null, ao_wav, ao_raw, ao_au]"

definition ao_append_global_option ::
  "string \<Rightarrow> string option \<Rightarrow> ('p, 'w) ao_lib \<Rightarrow> 'z world_scheme \<Rightarrow> bool \<times> ('p, 'w) ao_lib \<times> 'z world_scheme" where
  "ao_append_global_option k v lib w =
     (case ao_append_option (global_options lib) k v w of (r, opts, w) \<Rightarrow>
        (r, lib\<lparr>global_options := opts\<rparr>, w))"

text \<open>\<open>_clear_config\<close>; clearing through a NULL \<open>ao_global_dummy\<close> is a fault.\<close>

definition clear_config ::
  "('p, 'w) ao_lib \<Rightarrow> 'z world_scheme \<Rightarrow> (('p, 'w) ao_lib \<times> 'z world_scheme) option" where
  "clear_config lib w =
     (if global_dummy lib = None then None
      else Some
        (lib\<lparr>global_dummy := None, global_options := [],
             config := (config lib)\<lparr>default_driver := None\<rparr>\<rparr>,
         free_opt (default_driver (config lib)) (ao_free_options (global_options lib) w)))"

text \<open>
  \<open>ao_initialize\<close>.  The storage behind \<open>ao_global_dummy\<close> is zero before the first call and after
  a shutdown.  The plugins are looked for in \<open>env\<close>, \<open>homedir\<close> is \<open>getenv("HOME")\<close>.
\<close>

definition ao_initialize ::
  "('x ao_internal, 'z world_scheme) plugin_dir \<Rightarrow> string option
    \<Rightarrow> ('x ao_internal, 'z world_scheme) ao_lib \<Rightarrow> 'z world_scheme
    \<Rightarrow> (('x ao_internal, 'z world_scheme) ao_lib \<times> 'z world_scheme) option" where
  "ao_initialize env homedir lib w = do {
     let verb = (case global_dummy lib of None \<Rightarrow> 0 | Some v \<Rightarrow> v);
     (conf, opts, w) \<leftarrow> ao_read_config_files homedir (config lib) (global_options lib) w;
     verb \<leftarrow> ao_global_load_options verb opts;
     (ds, w) \<leftarrow> (if driver_head lib = []
                then (case load_static_drivers static_drivers w of (ds, w) \<Rightarrow>
                        append_dynamic_drivers env ds w)
                else Some (driver_head lib, w));
     (table, ds, n, w) \<leftarrow> make_info_table ds w;
     Some (lib\<lparr>driver_head := ds, config := conf, info_table := table, driver_count := n,
               global_dummy := Some verb, global_options := opts\<rparr>, w) }"

fun free_drivers :: "('p, 'w) ao_driver_entry list \<Rightarrow> 'z world_scheme \<Rightarrow> 'z world_scheme" where
  "free_drivers [] w = w"
| "free_drivers (d # ds) w =
     free_drivers ds (free_block (if drv_handle d \<noteq> None then free_block w else w))"

definition ao_shutdown ::
  "('p, 'w) ao_lib \<Rightarrow> 'z world_scheme \<Rightarrow> (('p, 'w) ao_lib \<times> 'z world_scheme) option" where
  "ao_shutdown lib w =
     (if driver_head lib = [] then Some (lib, w)
      else do {
        (lib', w) \<leftarrow> clear_config (lib\<lparr>info_table := None\<rparr>)
                      (free_drivers (driver_head lib) (free_opt (info_table lib) w));
        Some (lib'\<lparr>driver_head := []\<rparr>, w) })"

section \<open>Laws\<close>

text \<open>The library before the first call and after a shutdown.\<close>

definition pristine :: "('p, 'w) ao_lib \<Rightarrow> bool" where
  "pristine lib \<longleftrightarrow> driver_head lib = [] \<and> config lib = \<lparr>default_driver = None\<rparr> \<and>
     info_table lib = None \<and> global_dummy lib = None \<and> global_options lib = []"

definition driver_blocks :: "('p, 'w) ao_driver_entry \<Rightarrow> int" where
  "driver_blocks d = 1 + blocks (drv_handle d)"

definition lib_blocks :: "('p, 'w) ao_lib \<Rightarrow> int" where
  "lib_blocks lib = config_blocks (config lib) (global_options lib) + blocks (info_table lib) +
     (\<Sum>d\<leftarrow>driver_head lib. driver_blocks d)"

lemma free_drivers_heap: "heap_step (- (\<Sum>d\<leftarrow>ds. driver_blocks d)) w (free_drivers ds w)"
proof (induction ds arbitrary: w)
  case Nil
  then show ?case by simp
next
  case (Cons d ds)
  let ?v = "free_block (if drv_handle d \<noteq> None then free_block w else w)"
  have "heap_step (- driver_blocks d) w ?v"
    by (cases "drv_handle d") (auto simp: heap_step_def driver_blocks_def free_block_def off_heap_def)
  from heap_step_trans [OF this Cons.IH [of ?v]] show ?case by simp
qed

lemma sum_driver_blocks_mset:
  "mset ds = mset es \<Longrightarrow> (\<Sum>d\<leftarrow>ds. driver_blocks d) = (\<Sum>d\<leftarrow>es. driver_blocks d)"
  by (metis mset_map sum_mset_sum_list)

lemma ao_read_config_files_heap:
  assumes "ao_read_config_files homedir conf opts w = Some (conf', opts', w')"
  shows "heap_step (config_blocks conf' opts' - config_blocks conf opts) w w'"
proof -
  have one: "heap_step (config_blocks c' p' - config_blocks c p) u v"
    if "ao_read_config_file name c p u = (b, c', p', v)" for name b c p u c' p' v
    using that config_loop_heap by (fastforce simp: ao_read_config_file_def split: option.splits)
  obtain b c p u where s: "ao_read_config_file AO_SYSTEM_CONFIG conf opts w = (b, c, p, u)"
    by (cases "ao_read_config_file AO_SYSTEM_CONFIG conf opts w") auto
  note first = one [OF s]
  consider (sys) "conf' = c" "opts' = p" "w' = u"
    | (user) f b' where "ao_read_config_file f c p u = (b', conf', opts', w')"
    using assms s
    by (auto simp: ao_read_config_files_def split: option.splits if_splits)
       (metis prod.collapse snd_conv)+
  then show ?thesis
  proof cases
    case sys
    with first show ?thesis by simp
  next
    case user
    from heap_step_trans [OF first one [OF user]] show ?thesis by simp
  qed
qed

lemma static_blocks:
  "(\<Sum>d\<leftarrow>map (\<lambda>f. \<lparr>drv_functions = f, drv_handle = None\<rparr>) fs. driver_blocks d) = int (length fs)"
  by (induction fs) (auto simp: driver_blocks_def)

lemma plugin_blocks:
  "\<forall>p \<in> set ps. drv_handle p \<noteq> None \<Longrightarrow> (\<Sum>d\<leftarrow>ps. driver_blocks d) = 2 * int (length ps)"
  by (induction ps) (auto simp: driver_blocks_def)

text \<open>What \<open>ao_initialize\<close> takes on a pristine library is what the library then holds.\<close>

lemma ao_initialize_blocks:
  assumes "ao_initialize env homedir lib w = Some (lib', w')" and "pristine lib"
  shows "w_live w' = w_live w + lib_blocks lib'" and "global_dummy lib' \<noteq> None"
    and "w_allocs w = [] \<Longrightarrow> w_allocs w' = [] \<and> (\<exists>ps.
      mset (driver_head lib') = mset (map (\<lambda>f. \<lparr>drv_functions = f, drv_handle = None\<rparr>) static_drivers @ ps) \<and>
      (\<forall>p \<in> set ps. drv_handle p \<noteq> None) \<and>
      info_table lib' = Some (map info_of (driver_head lib')) \<and>
      driver_count lib' = int (length (driver_head lib')))"
proof -
  from assms obtain conf opts w1 verb ds1 w2 ds2 w3 table ds n where
    c: "ao_read_config_files homedir (config lib) (global_options lib) w = Some (conf, opts, w1)"
    and v: "ao_global_load_options 0 opts = Some verb"
    and l: "load_static_drivers static_drivers w1 = (ds1, w2)"
    and a: "append_dynamic_drivers env ds1 w2 = Some (ds2, w3)"
    and m: "make_info_table ds2 w3 = Some (table, ds, n, w')"
    and lib': "lib' = lib\<lparr>driver_head := ds, config := conf, info_table := table, driver_count := n,
               global_dummy := Some verb, global_options := opts\<rparr>"
    by (auto simp: ao_initialize_def pristine_def split: Option.bind_splits prod.splits)
  note h1 = ao_read_config_files_heap [OF c]
  from load_static_drivers_step [OF l] obtain k where h2: "heap_step (int (length ds1)) w1 w2"
    "ds1 = map (\<lambda>f. \<lparr>drv_functions = f, drv_handle = None\<rparr>) (take k static_drivers)" by blast
  from append_dynamic_drivers_step [OF a] obtain ps where
    h3: "ds2 = ds1 @ ps" "\<forall>p \<in> set ps. drv_handle p \<noteq> None" "heap_step (2 * int (length ps)) w2 w3" by blast
  note h4 = make_info_table_step [OF m]
  have "(\<Sum>d\<leftarrow>ds. driver_blocks d) = int (length ds1) + 2 * int (length ps)"
    using sum_driver_blocks_mset [OF h4(2)] h3(1) plugin_blocks [OF h3(2)]
      static_blocks [of "take k static_drivers"] h2(2) by simp
  then show "w_live w' = w_live w + lib_blocks lib'"
    using h1 h2(1) h3(3) h4(1) assms(2)
    by (auto simp: lib' lib_blocks_def heap_step_def pristine_def config_blocks_def)
  show "global_dummy lib' \<noteq> None" by (simp add: lib')
  assume plenty: "w_allocs w = []"
  then have p: "w_allocs w1 = []" "w_allocs w3 = []" "w_allocs w' = []"
    using h1 h2(1) h3(3) h4(1) heap_step_plenty by blast+
  then have "ds1 = map (\<lambda>f. \<lparr>drv_functions = f, drv_handle = None\<rparr>) static_drivers"
    using l by (simp add: load_static_drivers_plenty)
  moreover have "table \<noteq> None" using m p(2) by (auto simp: make_info_table_def split: if_splits)
  ultimately show "w_allocs w' = [] \<and> (\<exists>ps.
      mset (driver_head lib') = mset (map (\<lambda>f. \<lparr>drv_functions = f, drv_handle = None\<rparr>) static_drivers @ ps) \<and>
      (\<forall>p \<in> set ps. drv_handle p \<noteq> None) \<and>
      info_table lib' = Some (map info_of (driver_head lib')) \<and>
      driver_count lib' = int (length (driver_head lib')))"
    using p(3) h3(1,2) h4(2,3) by (auto simp: lib')
qed

lemma ao_shutdown_blocks:
  assumes "driver_head lib \<noteq> []" and "global_dummy lib \<noteq> None"
  obtains lib' w' where "ao_shutdown lib w = Some (lib', w')" "pristine lib'"
    "w_live w' = w_live w - lib_blocks lib" "w_allocs w = [] \<longrightarrow> w_allocs w' = []"
proof -
  let ?u = "free_opt (info_table lib) w"
  let ?v = "free_drivers (driver_head lib) ?u"
  let ?x = "free_opt (default_driver (config lib)) (ao_free_options (global_options lib) ?v)"
  have "heap_step (- (\<Sum>d\<leftarrow>driver_head lib. driver_blocks d)) ?u ?v" by (rule free_drivers_heap)
  moreover have "heap_step (- option_blocks (global_options lib)) ?v (ao_free_options (global_options lib) ?v)"
    by (rule ao_free_options_step)
  ultimately have "w_live ?x = w_live w - lib_blocks lib" "w_allocs w = [] \<longrightarrow> w_allocs ?x = []"
    by (auto simp: lib_blocks_def config_blocks_def heap_step_def)
  moreover have "ao_shutdown lib w = Some (lib\<lparr>driver_head := [], config := (config lib)\<lparr>default_driver := None\<rparr>,
      info_table := None, global_dummy := None, global_options := []\<rparr>, ?x)"
    using assms by (simp add: ao_shutdown_def clear_config_def)
  moreover have "pristine (lib\<lparr>driver_head := [], config := (config lib)\<lparr>default_driver := None\<rparr>,
      info_table := None, global_dummy := None, global_options := []\<rparr>)"
    by (simp add: pristine_def)
  ultimately show ?thesis using that by blast
qed

end
