(* ===== verification/AO_Open_Laws.thy ===== *)
theory AO_Open_Laws
  imports AO_Library
begin

text \<open>
  What opening a device decides: the plan of the backend's channels for each order, the
  permutation that follows from it, and the device that results when there is nothing to map.
\<close>

section \<open>The plan of the backend's channels\<close>

lemma picked_filter:
  "(\<And>b. b < length ts \<Longrightarrow> bit x (m + b) \<longleftrightarrow> P (ts ! b)) \<Longrightarrow> picked x m ts = filter P ts"
proof (induction x m ts rule: picked.induct)
  case (1 x m)
  then show ?case by simp
next
  case (2 x m t ts)
  have "bit x (Suc m + b) \<longleftrightarrow> P (ts ! b)" if "b < length ts" for b
    using "2.prems" [of "Suc b"] that by simp
  with "2.IH" have "picked x (Suc m) ts = filter P ts" by blast
  with "2.prems" [of 0] show ?case by simp
qed

lemma length_picked_card:
  "length (picked x m ts) = card {b. m \<le> b \<and> b < m + length ts \<and> bit x b}"
proof (induction x m ts rule: picked.induct)
  case (1 x m)
  then show ?case by simp
next
  case (2 x m t ts)
  have "{b. m \<le> b \<and> b < m + length (t # ts) \<and> bit x b} =
      (if bit x m then {m} else {}) \<union> {b. Suc m \<le> b \<and> b < Suc m + length ts \<and> bit x b}"
    by (auto simp: not_less_eq_eq le_less dest: order_antisym)
  moreover have "finite {b. Suc m \<le> b \<and> b < Suc m + length ts \<and> bit x b}"
    by (rule finite_subset [of _ "{..< Suc m + length ts}"]) auto
  ultimately show ?case using 2 by (auto simp: card_insert_if)
qed

lemma slot_nth_eq:
  assumes "distinct toks" and "b < length toks"
  shows "slot toks t = int b \<longleftrightarrow> t = toks ! b \<and> t \<noteq> '''' \<and> t \<noteq> ''X''"
proof -
  have "position t toks = int b \<longleftrightarrow> t = toks ! b"
  proof
    assume "position t toks = int b"
    then show "t = toks ! b" using position_nth by fastforce
  next
    assume t: "t = toks ! b"
    then have "t \<in> set toks" using assms(2) by simp
    then obtain k where k: "position t toks = int k" by (auto simp: position_def)
    from position_nth [OF k] t nth_eq_iff_index_eq [OF assms(1)] assms(2) have "k = b" by blast
    with k show "position t toks = int b" by simp
  qed
  then show ?thesis by (auto simp: slot_def)
qed

text \<open>The mask of an input matrix selects the backend's channels that the input has.\<close>

definition shared :: "string list \<Rightarrow> string \<Rightarrow> bool" where
  "shared ts t \<longleftrightarrow> t \<in> set ts \<and> t \<noteq> '''' \<and> t \<noteq> ''X''"

lemma bit_mask_shared:
  assumes "distinct toks" and "length toks \<le> 32" and "b < length toks"
  shows "bit (mask_of toks ts) b \<longleftrightarrow> shared ts (toks ! b)"
  using assms bit_mask_of [of b toks ts] slot_nth_eq [OF assms(1,3)]
  by (auto simp: shared_def)

lemma bit_mask_less:
  assumes "length toks \<le> 32" and "bit (mask_of toks ts) b"
  shows "b < length toks"
proof -
  have "b < 32" using assms(2) bit_imp_le_length by fastforce
  with bit_mask_of [of b toks ts] assms(2) obtain t where "slot toks t = int b" by auto
  with slot_bounds [of toks t] show ?thesis by simp
qed

lemma picked_mask:
  assumes "distinct toks" and "length toks \<le> 32"
  shows "picked (mask_of toks ts) 0 toks = filter (shared ts) toks"
  using bit_mask_shared [OF assms] by (intro picked_filter) simp

lemma bits_mask:
  assumes "distinct toks" and "length toks \<le> 32"
  shows "channelmask_bits (mask_of toks ts) = int (length (filter (shared ts) toks))"
proof -
  have "{b. 0 \<le> b \<and> b < 0 + length toks \<and> bit (mask_of toks ts) b} = bit_set (mask_of toks ts)"
    using bit_mask_less [OF assms(2)] by (auto simp: bit_set_def)
  then show ?thesis
    using length_picked_card [of "mask_of toks ts" 0 toks] picked_mask [OF assms]
    by (simp add: channelmask_bits_card)
qed

text \<open>
  The channels sent to the backend, in order.  FIXED: all of the backend's up to the last one
  the input has.  COLLAPSIBLE: those the input has, in the backend's order.  PERMUTABLE: those
  the backend has, in the input's order.
\<close>

definition last_shared :: "string list \<Rightarrow> string list \<Rightarrow> nat" where
  "last_shared toks ts = Max {b. b < length toks \<and> shared ts (toks ! b)}"

definition channel_plan :: "ao_outorder \<Rightarrow> string list \<Rightarrow> string list \<Rightarrow> string list" where
  "channel_plan order toks ts = (case order of
      AO_OUTPUT_MATRIX_FIXED \<Rightarrow> take (Suc (last_shared toks ts)) toks
    | AO_OUTPUT_MATRIX_COLLAPSIBLE \<Rightarrow> filter (shared ts) toks
    | AO_OUTPUT_MATRIX_PERMUTABLE \<Rightarrow> filter (\<lambda>t. t \<in> set toks \<and> t \<noteq> '''' \<and> t \<noteq> ''X'') ts
    | AO_OUTPUT_MATRIX_UNDEFINED \<Rightarrow> [])"

lemma maxbit_mask:
  assumes "distinct toks" and "length toks \<le> 32"
  shows "channelmask_maxbit (mask_of toks ts) =
    (if filter (shared ts) toks = [] then -1 else int (last_shared toks ts))"
proof -
  have set: "bit_set (mask_of toks ts) = {b. b < length toks \<and> shared ts (toks ! b)}"
    using bit_mask_less [OF assms(2)] bit_mask_shared [OF assms] by (auto simp: bit_set_def)
  have "mask_of toks ts = 0 \<longleftrightarrow> filter (shared ts) toks = []"
    unfolding bit_set_empty_iff [symmetric] set filter_empty_conv by (auto simp: all_set_conv_all_nth)
  then show ?thesis by (simp add: channelmask_maxbit_Max set last_shared_def)
qed

lemma slot_shared: "slot toks t \<noteq> -1 \<longleftrightarrow> t \<in> set toks \<and> t \<noteq> '''' \<and> t \<noteq> ''X''"
  by (auto simp: slot_def position_def)

lemma common_plan: "common toks s = channel_plan AO_OUTPUT_MATRIX_PERMUTABLE toks (tokens s)"
  unfolding common_def channel_plan_def slot_shared by simp

lemma length_shared_commute:
  assumes "distinct toks" and "distinct ts"
  shows "length (filter (shared ts) toks) =
    length (filter (\<lambda>t. t \<in> set toks \<and> t \<noteq> '''' \<and> t \<noteq> ''X'') ts)"
proof -
  have "set (filter (shared ts) toks) = set (filter (\<lambda>t. t \<in> set toks \<and> t \<noteq> '''' \<and> t \<noteq> ''X'') ts)"
    by (auto simp: shared_def)
  then show ?thesis
    using distinct_card [OF distinct_filter [OF assms(1)]] distinct_card [OF distinct_filter [OF assms(2)]]
    by metis
qed

text \<open>
  The premises under which a matrix can be reconciled: the backend's names are at most 32
  different mnemonics, the input names every channel once.
\<close>

definition reconcilable :: "'p ao_device \<Rightarrow> ao_sample_format \<Rightarrow> string \<Rightarrow> string \<Rightarrow> bool" where
  "reconcilable d sf om im \<longleftrightarrow>
     output_matrix d = Some om \<and> fmt_matrix sf = Some im \<and>
     output_matrix_order d \<noteq> AO_OUTPUT_MATRIX_UNDEFINED \<and>
     distinct (tokens om) \<and> set (tokens om) \<subseteq> set mnemonics \<and> length (tokens om) \<le> 32 \<and>
     distinct (tokens im) \<and> set (tokens im) \<subseteq> set mnemonics \<and>
     int (length (tokens im)) \<le> fmt_channels sf"

lemma tokens_join_names: "ts \<noteq> [] \<Longrightarrow> set ts \<subseteq> set mnemonics \<Longrightarrow> tokens (join ts) = ts"
  using tokens_join mnemonics_facts(3) by blast

lemma channel_plan_facts:
  assumes "set toks \<subseteq> set mnemonics" and "set ts \<subseteq> set mnemonics"
  shows "set (channel_plan order toks ts) \<subseteq> set mnemonics"
  using assms set_take_subset [of "Suc (last_shared toks ts)" toks]
  by (cases order) (auto simp: channel_plan_def)

lemma length_join_names:
  assumes "set ts \<subseteq> set mnemonics"
  shows "length (join ts) \<le> 4 * length ts"
proof -
  have "\<forall>t \<in> set ts. length t \<le> 3" using assms mnemonics_facts(3) by blast
  from join_length_le [OF this] show ?thesis by simp
qed

lemma reconcile_plan:
  assumes r: "reconcilable d sf om im" and w: "w_allocs w = []"
    and some: "filter (shared (tokens im)) (tokens om) \<noteq> []"
  obtains d' w' m where "reconcile d sf w = Some (True, d', w')" "calm w w'"
    "d' = d\<lparr>input_map := Some (slot_map (fmt_channels sf) (tokens om) im),
            output_channels := int (length (channel_plan (output_matrix_order d) (tokens om) (tokens im))),
            output_mask := mask_of (tokens om) (tokens im), inter_matrix := Some m\<rparr>"
    "take (length (channel_plan (output_matrix_order d) (tokens om) (tokens im))) (tokens m) =
       channel_plan (output_matrix_order d) (tokens om) (tokens im)"
    "set (tokens m) \<subseteq> set mnemonics"
proof -
  let ?toks = "tokens om" and ?ts = "tokens im"
  let ?plan = "channel_plan (output_matrix_order d) ?toks ?ts"
  let ?x = "mask_of ?toks ?ts"
  have om: "distinct ?toks" "set ?toks \<subseteq> set mnemonics" "length ?toks \<le> 32"
    and im: "distinct ?ts" "set ?ts \<subseteq> set mnemonics" "int (length ?ts) \<le> fmt_channels sf"
    and io: "output_matrix d = Some om" "fmt_matrix sf = Some im"
    "output_matrix_order d \<noteq> AO_OUTPUT_MATRIX_UNDEFINED"
    using r by (simp_all add: reconcilable_def)
  have strip: "map strip ?toks = ?toks" by (rule set_strip_tokens [OF om(2)])
  have short: "\<forall>t \<in> set ?toks. length (strip t) \<le> 7"
    using om(2) mnemonics_facts(3) by fastforce
  from matrix_to_channelmask_plenty [OF im(3) om(3) w] obtain u where
    c: "matrix_to_channelmask (fmt_channels sf) im om w =
      Some (?x, Some (slot_map (fmt_channels sf) ?toks im), u)" unfolding strip .
  have cu: "calm w u" using matrix_to_channelmask_heap [OF c] calm_heap by blast
  then have u: "w_allocs u = []" using w calm_plenty by blast
  let ?d = "d\<lparr>input_map := Some (slot_map (fmt_channels sf) ?toks im)\<rparr>"
  show ?thesis
  proof (cases "output_matrix_order d")
    case AO_OUTPUT_MATRIX_FIXED
    have "last_shared ?toks ?ts < length ?toks"
    proof -
      have "{b. b < length ?toks \<and> shared ?ts (?toks ! b)} \<noteq> {}"
        using some by (auto simp: filter_empty_conv in_set_conv_nth)
      moreover have "finite {b. b < length ?toks \<and> shared ?ts (?toks ! b)}" by simp
      ultimately have "last_shared ?toks ?ts \<in> {b. b < length ?toks \<and> shared ?ts (?toks ! b)}"
        unfolding last_shared_def by (rule Max_in [rotated])
      then show ?thesis by simp
    qed
    then have len: "length ?plan = Suc (last_shared ?toks ?ts)"
      using AO_OUTPUT_MATRIX_FIXED by (simp add: channel_plan_def)
    have "reconcile d sf w = Some (True, ?d\<lparr>output_channels := int (length ?plan), output_mask := ?x,
        inter_matrix := Some om\<rparr>, u\<lparr>w_live := w_live u + 1\<rparr>)"
      using AO_OUTPUT_MATRIX_FIXED c io u maxbit_mask [OF om(1,3), of ?ts] some len
      by (simp add: reconcile_def)
    moreover have "take (length ?plan) ?toks = ?plan"
      unfolding len using AO_OUTPUT_MATRIX_FIXED by (simp add: channel_plan_def)
    ultimately show ?thesis using that [of _ _ om] calm_trans [OF cu calm_malloc] om(2) by simp
  next
    case AO_OUTPUT_MATRIX_COLLAPSIBLE
    have plan: "?plan = filter (shared ?ts) ?toks"
      using AO_OUTPUT_MATRIX_COLLAPSIBLE by (simp add: channel_plan_def)
    from channelmask_to_matrix_plenty [where x = ?x, OF om(3) short u] obtain v where
      m: "channelmask_to_matrix ?x om u = Some (Some (join ?plan), v)"
      unfolding strip picked_mask [OF om(1,3)] plan .
    have v: "calm w v" using calm_trans [OF cu calm_heap [OF channelmask_to_matrix_heap [OF m]]] .
    have "reconcile d sf w = Some (True, ?d\<lparr>output_channels := int (length ?plan), output_mask := ?x,
        inter_matrix := Some (join ?plan)\<rparr>, v)"
      using AO_OUTPUT_MATRIX_COLLAPSIBLE c io m bits_mask [OF om(1,3), of ?ts] some plan
      by (simp add: reconcile_def)
    moreover have "tokens (join ?plan) = ?plan"
      by (rule tokens_join_names [OF _ channel_plan_facts [OF om(2) im(2)]]) (use some plan in simp)
    ultimately show ?thesis
      using that [of _ _ "join ?plan"] v channel_plan_facts [OF om(2) im(2)] by simp
  next
    case AO_OUTPUT_MATRIX_PERMUTABLE
    have plan: "?plan = common ?toks im"
      using AO_OUTPUT_MATRIX_PERMUTABLE by (simp add: common_plan)
    have same: "length (filter (shared ?ts) ?toks) = length ?plan"
      unfolding length_shared_commute [OF om(1) im(1)]
      using AO_OUTPUT_MATRIX_PERMUTABLE by (simp add: channel_plan_def)
    have "length (filter (shared ?ts) ?toks) \<le> 32"
      using om(3) le_trans length_filter_le by blast
    then have "length (join ?plan) \<le> 256"
      using length_join_names [OF channel_plan_facts [OF om(2) im(2), of "output_matrix_order d"]] same
      by linarith
    then obtain v where m: "matrix_intersect im om u = Some (Some (join ?plan), v)"
      using matrix_intersect_plenty [OF u, of om im] unfolding strip plan by auto
    have v: "calm w v" using calm_trans [OF cu calm_heap [OF matrix_intersect_heap [OF m]]] .
    have "0 < length ?plan" using some same by (metis length_greater_0_conv)
    then have "reconcile d sf w = Some (True, ?d\<lparr>output_channels := int (length ?plan), output_mask := ?x,
        inter_matrix := Some (join ?plan)\<rparr>, v)"
      using AO_OUTPUT_MATRIX_PERMUTABLE c io m bits_mask [OF om(1,3), of ?ts] same
      by (simp add: reconcile_def)
    moreover have "tokens (join ?plan) = ?plan"
      by (rule tokens_join_names [OF _ channel_plan_facts [OF om(2) im(2)]])
         (use \<open>0 < length ?plan\<close> in simp)
    ultimately show ?thesis
      using that [of _ _ "join ?plan"] v channel_plan_facts [OF om(2) im(2)] by simp
  qed (use io in simp)
qed

section \<open>The permutation that follows\<close>

text \<open>\<open>n\<close> entries for the backend's names \<open>ms\<close>, the channels without a name last.\<close>

definition plan_permutation :: "nat \<Rightarrow> string list \<Rightarrow> string list \<Rightarrow> int \<Rightarrow> int list" where
  "plan_permutation n ms ts channels =
     take n (map (source_of ts channels) ms) @ replicate (n - length ms) (-1)"

lemma length_plan_permutation [simp]: "length (plan_permutation n ms ts k) = n"
  by (simp add: plan_permutation_def)

lemma plan_permutation_bounds:
  assumes "c \<in> set (plan_permutation n ms ts k)"
  shows "-1 \<le> c \<and> c < max 1 (int (length ts))"
proof -
  from assms consider "c = -1" | t where "c = source_of ts k t"
    unfolding plan_permutation_def using set_take_subset [of n "map (source_of ts k) ms"] by auto
  then show ?thesis
  proof cases
    case 2
    have "ts = [] \<Longrightarrow> c = -1" using 2 by (simp add: source_of_def position_def)
    then show ?thesis using source_of_bounds [of ts k t] 2 by (cases "ts = []") auto
  qed simp
qed

lemma nth_plan_permutation:
  "c < n \<Longrightarrow> plan_permutation n ms ts k ! c = (if c < length ms then source_of ts k (ms ! c) else -1)"
  by (auto simp: plan_permutation_def nth_append min_def not_less)

text \<open>With no map from the driver only \<open>L\<close> and \<open>R\<close> are routed.\<close>

definition backend_names :: "'p ao_device \<Rightarrow> string" where
  "backend_names d = (case inter_matrix d of None \<Rightarrow> ''L,R'' | Some m \<Rightarrow> m)"

lemma tokens_LR: "tokens ''L,R'' = [''L'', ''R'']"
  using tokens_join [of "[''L'', ''R'']"] by simp

lemma build_permutation_plan:
  assumes im: "fmt_matrix sf = Some im" "fmt_channels sf \<le> int (length (tokens im))"
    and names: "set (tokens (backend_names d)) \<subseteq> set mnemonics" and oc: "0 \<le> output_channels d"
    and table: "inter_matrix d = None \<Longrightarrow> names_driver table d \<noteq> None" and w: "w_allocs w = []"
  obtains w' where "build_permutation table d sf w = Some (True,
      d\<lparr>inter_matrix := Some (backend_names d),
        inter_permute := Some (plan_permutation (nat (output_channels d)) (tokens (backend_names d))
          (tokens im) (fmt_channels sf))\<rparr>, w')" "calm w w'"
proof -
  let ?m = "backend_names d"
  let ?first = "if inter_matrix d = None then do {
                      _ \<leftarrow> names_driver table d;
                      (case strdup ''L,R'' w of (m, w) \<Rightarrow> Some (d\<lparr>inter_matrix := m\<rparr>, w)) }
                    else Some (d, w)"
  let ?d = "d\<lparr>inter_matrix := Some ?m\<rparr>"
  let ?perm = "plan_permutation (nat (output_channels d)) (tokens ?m) (tokens im) (fmt_channels sf)"
  obtain v where v: "?first = Some (?d, v)" "w_allocs v = []" "calm w v"
    using table w by (cases "inter_matrix d") (auto simp: backend_names_def)
  let ?u = "v\<lparr>w_live := w_live v + 1\<rparr>"
  have u: "w_allocs ?u = []" using v(2) by simp
  obtain t where t: "tokenize_matrix im ?u = (Some (map strip (tokens im)), t)" "w_allocs t = []"
    using tokenize_matrix_plenty [OF u] .
  have ct: "calm w (free_map (Some (map strip (tokens im))) t)"
    using calm_trans [OF calm_trans [OF v(3) calm_malloc] calm_heap [OF tokenize_free_heap [OF t(1)]]] .
  have perm: "permute_loop (nat (output_channels d)) ?m im (fmt_channels sf) = Some ?perm"
    using permute_loop_eq [OF names, of "nat (output_channels d)" im "fmt_channels sf"]
    by (simp add: plan_permutation_def)
  have zero: "output_channels d = 0 \<Longrightarrow> ?perm = []" by (simp add: plan_permutation_def)
  have quiet: "\<not> list_ex (\<lambda>j. j \<notin> set P \<and> int (length (tokens im)) \<le> j) [0..fmt_channels sf - 1]" for P
    using im(2) by (auto simp: list_ex_iff)
  have "build_permutation table d sf w = Some (True, ?d\<lparr>inter_permute := Some ?perm\<rparr>,
      free_map (Some (map strip (tokens im))) t)"
    unfolding build_permutation_def im(1) option.case v(1) Option.bind.bind_lunit prod.case
    using v(2) oc t(1) quiet quiet [of "[]"] perm zero
    by (cases "output_channels d = 0") simp_all
  then show ?thesis using that ct by simp
qed

lemma drop_identity_cases:
  assumes "inter_permute d = Some perm" and "int (length perm) = output_channels d"
  obtains w' where "drop_identity d w = Some
      (if output_channels d = input_channels d \<and> perm = [0..output_channels d - 1]
       then d\<lparr>inter_permute := None\<rparr> else d, w')" "calm w w'"
proof -
  have "load (nat (output_channels d)) perm 0 = Some perm"
    using assms(2) by (simp add: load_def nat_eq_iff)
  with assms(1) show ?thesis
    by (intro that [of "if output_channels d = input_channels d \<and> perm = [0..output_channels d - 1]
        then free_block w else w"]) (auto simp: drop_identity_def)
qed

text \<open>\<open>finish_open\<close> with enough memory: the device, with a swap buffer exactly when one is needed.\<close>

definition needs_buffer :: "'p ao_device \<Rightarrow> bool" where
  "needs_buffer d \<longleftrightarrow> needs_swap d \<or> input_channels d \<noteq> output_channels d \<or> inter_permute d \<noteq> None"

lemma finish_open_plenty:
  assumes "swap_buffer d = None" and "swap_buffer_size d = 0" and w: "w_allocs w = []"
  obtains d' w' where "finish_open F d im w = Some (Some (F, d'), w')" "calm w w'"
    "d' = d\<lparr>driver_byte_format := real_byte_format (driver_byte_format d) w,
            swap_buffer := swap_buffer d', swap_buffer_size := swap_buffer_size d'\<rparr>"
    "buffer_ok d'" "swap_buffer d' \<noteq> None \<longleftrightarrow> needs_buffer d'"
proof -
  let ?d = "d\<lparr>driver_byte_format := real_byte_format (driver_byte_format d) w\<rparr>"
  have b: "buffer_ok ?d" "swap_buffer ?d = None" using assms(1,2) by (simp_all add: buffer_ok_def)
  show ?thesis
  proof (cases "needs_buffer ?d")
    case False
    then have "finish_open F d im w = Some (Some (F, ?d), free_opt im w)"
      by (auto simp: finish_open_def needs_buffer_def)
    with that [of ?d "free_opt im w"] b w False free_opt_heap [of im w] show ?thesis
      by (cases d) (auto simp: needs_buffer_def needs_swap_def)
  next
    case True
    have pos: "(0::int) < DEF_SWAP_BUF_SIZE" "0 \<le> DEF_SWAP_BUF_SIZE" by (simp_all add: DEF_SWAP_BUF_SIZE_def)
    from realloc_swap_buffer_fits [OF b(1) w pos(2)] obtain buf size v where r:
      "realloc_swap_buffer ?d DEF_SWAP_BUF_SIZE w = (True, ?d\<lparr>swap_buffer := buf, swap_buffer_size := size\<rparr>, v)"
      "\<exists>xs. buf = Some xs \<and> DEF_SWAP_BUF_SIZE \<le> int (length xs) \<and> int (length xs) = size"
      "heap_step (blocks buf - blocks (swap_buffer ?d)) w v"
      using pos(1) by metis
    let ?e = "?d\<lparr>swap_buffer := buf, swap_buffer_size := size\<rparr>"
    have f: "finish_open F d im w = Some (Some (F, ?e), free_opt im v)"
      using True r(1) by (auto simp: finish_open_def needs_buffer_def)
    have "calm w (free_opt im v)" using calm_trans [OF calm_heap [OF r(3)] calm_free(1)] .
    moreover have "buffer_ok ?e" "buf \<noteq> None" using r(2) pos by (auto simp: buffer_ok_def)
    moreover have "needs_buffer ?e" using True by (simp add: needs_buffer_def needs_swap_def)
    ultimately show ?thesis using that [of ?e "free_opt im v"] f by simp
  qed
qed

end
