(* ===== verification/AO_Session.thy ===== *)
theory AO_Session
  imports AO_Open_Laws
begin

text \<open>
  Whole sessions with the file drivers: open a file, play blocks of frames, close.  The laws say
  what the file holds at the end.
\<close>

section \<open>Playing several blocks\<close>

text \<open>A client that plays the given blocks; a block is a number of frames and their bytes.\<close>

fun play_all ::
  "('p, 'z world_scheme) opened \<Rightarrow> (nat \<times> byte list) list \<Rightarrow> 'z world_scheme
    \<Rightarrow> (bool \<times> ('p, 'z world_scheme) opened \<times> 'z world_scheme) option" where
  "play_all dev [] w = Some (True, dev, w)"
| "play_all dev ((n, samples) # blks) w = do {
     (ok, dev', w) \<leftarrow> ao_play dev samples
        (of_nat (case dev of None \<Rightarrow> 0 | Some (F, d) \<Rightarrow> in_bytes d n)) w;
     (if ok then play_all dev' blks w else Some (False, dev', w)) }"

definition payload :: "'p ao_device \<Rightarrow> (nat \<times> byte list) list \<Rightarrow> byte list" where
  "payload d blks = concat (map (\<lambda>(n, samples). routed d n samples) blks)"

text \<open>Two devices that route alike.\<close>

definition same_route :: "'p ao_device \<Rightarrow> 'p ao_device \<Rightarrow> bool" where
  "same_route d e \<longleftrightarrow>
     e = d\<lparr>swap_buffer := swap_buffer e, swap_buffer_size := swap_buffer_size e\<rparr>"

lemma same_route_refl [simp]: "same_route d d"
  by (simp add: same_route_def)

lemma same_route_trans: "same_route d e \<Longrightarrow> same_route e f \<Longrightarrow> same_route d f"
  by (cases d; cases e; cases f) (simp add: same_route_def)

lemma same_route_sel:
  assumes "same_route d e"
  shows "bytewidth e = bytewidth d" "input_channels e = input_channels d"
    "output_channels e = output_channels d" "inter_permute e = inter_permute d"
    "client_byte_format e = client_byte_format d" "driver_byte_format e = driver_byte_format d"
    "dev_file e = dev_file d" "internal e = internal d"
  using assms by (cases d; cases e; simp add: same_route_def)+

lemma same_route_props:
  assumes "same_route d e"
  shows "well_routed e = well_routed d" "routed e n samples = routed d n samples"
    "playable e n samples = playable d n samples" "in_bytes e n = in_bytes d n"
    "needs_buffer e = needs_buffer d" "payload e blks = payload d blks"
proof -
  note sel = same_route_sel [OF assms]
  have r: "route e c = route d c" for c by (simp add: route_def sel)
  have n: "needs_swap e = needs_swap d" by (simp add: needs_swap_def sel)
  show "well_routed e = well_routed d" by (simp add: well_routed_def sel split: option.splits)
  have rs: "routed_sample e samples f = routed_sample d samples f" for samples f
    by (intro ext) (simp add: routed_sample_def sel r n)
  show p: "routed e n samples = routed d n samples" for n samples
    by (simp add: routed_def sel rs)
  show "playable e n samples = playable d n samples" by (simp add: playable_def sel)
  show "in_bytes e n = in_bytes d n" by (simp add: in_bytes_def sel)
  show "needs_buffer e = needs_buffer d" by (simp add: needs_buffer_def sel n)
  show "payload e blks = payload d blks" by (simp add: payload_def p)
qed

text \<open>With nothing to swap, permute or drop, routing is the identity.\<close>

lemma routed_identity:
  assumes "well_routed d" and "playable d n samples" and "\<not> needs_buffer d"
  shows "routed d n samples = take (in_bytes d n) samples"
proof -
  let ?b = "nat (bytewidth d)" and ?c = "nat (output_channels d)"
  have same: "input_channels d = output_channels d" "inter_permute d = None" "\<not> needs_swap d"
    using assms(3) by (auto simp: needs_buffer_def)
  have "routed_sample d samples f = (\<lambda>c. sample ?b samples (f * ?c + c))" for f
    using same by (intro ext) (simp add: routed_sample_def route_def)
  then have "routed d n samples = concat (map (sample ?b samples) [0..<n * ?c])"
    using concat_frames [of "sample ?b samples" ?c n] by (simp add: routed_def)
  also have "\<dots> = take (n * ?c * ?b) samples"
    using assms(2) same take_samples [of "n * ?c" ?b samples]
    by (simp add: playable_def frames_fit_def)
  finally show ?thesis using same by (simp add: in_bytes_def)
qed

lemma unat_in_bytes:
  assumes "playable d n samples"
  shows "unat (of_nat (in_bytes d n) :: 32 word) = in_bytes d n" "in_bytes d n \<le> length samples"
proof -
  have "in_bytes d n \<le> (n + 1) * nat (input_channels d) * nat (bytewidth d)"
    unfolding in_bytes_def by (intro mult_le_mono1) simp
  then have "int (in_bytes d n) \<le> INT_MAX"
    using assms unfolding playable_def frames_fit_def by linarith
  then show "unat (of_nat (in_bytes d n) :: 32 word) = in_bytes d n"
    by (simp add: INT_MAX_def unat_of_nat)
  show "in_bytes d n \<le> length samples"
    using assms by (simp add: in_bytes_def playable_def frames_fit_def)
qed

text \<open>What a device must satisfy for its sessions to be described by \<open>payload\<close>.\<close>

definition playing :: "'p ao_device \<Rightarrow> bool" where
  "playing d \<longleftrightarrow> well_routed d \<and> buffer_ok d \<and> (swap_buffer d \<noteq> None \<longleftrightarrow> needs_buffer d)"

context file_driver
begin

lemma ao_play_appends:
  assumes d: "playing d" and pl: "playable d n samples" and w: "w_allocs w = []"
    and f: "dev_file d = Some f" and s: "get_stream f w = Some s" "at_end s"
  obtains d' w' s' where
    "ao_play (Some (F, d)) samples (of_nat (in_bytes d n)) w = Some (True, Some (F, d'), w')"
    "get_stream f w' = Some s'" "at_end s'" "s_data s' = s_data s @ routed d n samples"
    "same_route d d'" "playing d'" "w_allocs w' = []"
proof (cases "swap_buffer d = None")
  case False
  have wr: "well_routed d" "buffer_ok d" and nb: "needs_buffer d"
    using d False by (simp_all add: playing_def)
  from ao_play_appends_routed [OF wr(1) pl wr(2) False w f s] obtain d' w' s' where p:
    "ao_play (Some (F, d)) samples (of_nat (in_bytes d n)) w = Some (True, Some (F, d'), w')"
    "get_stream f w' = Some s'" "at_end s'" "s_data s' = s_data s @ routed d n samples"
    "d' = d\<lparr>swap_buffer := swap_buffer d', swap_buffer_size := swap_buffer_size d'\<rparr>"
    "buffer_ok d'" "swap_buffer d' \<noteq> None" "w_allocs w' = []" .
  have r: "same_route d d'" using p(5) by (simp add: same_route_def)
  then have "playing d'" using same_route_props [OF r] wr nb p(6,7) by (simp add: playing_def)
  with that p r show ?thesis by blast
next
  case True
  have wr: "well_routed d" and nb: "\<not> needs_buffer d" using d True by (simp_all add: playing_def)
  note n = unat_in_bytes [OF pl]
  from play_appends [OF f s, of "of_nat (in_bytes d n)" samples] n obtain w' s' where p:
    "fn_play F d samples (of_nat (in_bytes d n)) w = Some (True, d, w')" "same_but_streams w w'"
    "get_stream f w' = Some s'" "at_end s'" "s_data s' = s_data s @ take (in_bytes d n) samples"
    by auto
  have "ao_play (Some (F, d)) samples (of_nat (in_bytes d n)) w = Some (True, Some (F, d), w')"
    using True p(1) by (simp add: ao_play_def)
  moreover have "w_allocs w' = []" using same_but_streams_sel [OF p(2)] w by simp
  ultimately show ?thesis
    using that [of d w' s'] p d routed_identity [OF wr pl nb] by simp
qed

lemma play_all_appends:
  assumes "playing d" and "\<forall>(n, samples) \<in> set blks. playable d n samples" and "w_allocs w = []"
    and "dev_file d = Some f" and "get_stream f w = Some s" and "at_end s"
  obtains d' w' s' where
    "play_all (Some (F, d)) blks w = Some (True, Some (F, d'), w')"
    "get_stream f w' = Some s'" "at_end s'" "s_data s' = s_data s @ payload d blks"
    "same_route d d'" "w_allocs w' = []"
  using assms
proof (induction blks arbitrary: d w s thesis)
  case Nil
  then show ?case by (simp add: payload_def)
next
  case (Cons blk1 blks)
  obtain n samples where b: "blk1 = (n, samples)" by (cases blk1)
  have pl: "playable d n samples" using Cons.prems(3) b by simp
  from ao_play_appends [OF Cons.prems(2) pl Cons.prems(4,5,6,7)] obtain e v t where p:
    "ao_play (Some (F, d)) samples (of_nat (in_bytes d n)) w = Some (True, Some (F, e), v)"
    "get_stream f v = Some t" "at_end t" "s_data t = s_data s @ routed d n samples"
    "same_route d e" "playing e" "w_allocs v = []" .
  have rest: "\<forall>(n, samples) \<in> set blks. playable e n samples"
    using Cons.prems(3) same_route_props(3) [OF p(5)] by auto
  have "dev_file e = Some f" using Cons.prems(5) same_route_sel(7) [OF p(5)] by simp
  from Cons.IH [OF _ p(6) rest p(7) this p(2,3)] obtain d' w' s' where q:
    "play_all (Some (F, e)) blks v = Some (True, Some (F, d'), w')"
    "get_stream f w' = Some s'" "at_end s'" "s_data s' = s_data t @ payload e blks"
    "same_route e d'" "w_allocs w' = []" by blast
  have "play_all (Some (F, d)) (blk1 # blks) w = Some (True, Some (F, d'), w')"
    using p(1) q(1) b by simp
  moreover have "s_data s' = s_data s @ payload d (blk1 # blks)"
    using q(4) p(4) b same_route_props(6) [OF p(5)] by (simp add: payload_def)
  ultimately show ?case using Cons.prems(1) q same_route_trans [OF p(5) q(5)] by blast
qed

end

section \<open>Opening without options and without a matrix\<close>

text \<open>The device that \<open>_create_device\<close> makes.\<close>

definition fresh_device ::
  "int \<Rightarrow> ('p, 'w) ao_functions \<Rightarrow> ao_sample_format \<Rightarrow> nat option \<Rightarrow> bool \<Rightarrow> 'p ao_device" where
  "fresh_device did F format fil big =
       \<lparr>dev_type = info_type (fn_driver_info F), driver_id = did, dev_file = fil,
        client_byte_format = (if fmt_byte_format format = AO_FMT_NATIVE
          then if big then AO_FMT_BIG else AO_FMT_LITTLE else fmt_byte_format format),
        machine_byte_format = (if big then AO_FMT_BIG else AO_FMT_LITTLE),
        driver_byte_format = 0, swap_buffer = None, swap_buffer_size = 0, input_channels = 0,
        output_channels = fmt_channels format, bytewidth = 0, dev_rate = 0,
        output_matrix_order = AO_OUTPUT_MATRIX_UNDEFINED, output_matrix = None, output_mask = 0,
        input_map = None, inter_matrix = None, inter_permute = None, internal = None,
        verbose = 0\<rparr>"

lemma create_device_plenty:
  assumes "w_allocs w = []"
  shows "create_device did F format fil w =
    (Some (fresh_device did F format fil (w_big_endian w)), w\<lparr>w_live := w_live w + 1\<rparr>)"
  using assms
  by (simp add: create_device_def fresh_device_def real_byte_format_def ao_is_big_endian_correct)

text \<open>
  One lemma for the file drivers: from what \<open>device_init\<close> and \<open>open\<close> of the driver do to what
  \<open>_open_device\<close> does, when no channel is to be mapped.
\<close>

lemma open_device_plain:
  fixes F :: "('p, 'z world_scheme) ao_functions"
  assumes drv: "get_driver did lib = Some drv" "drv_functions drv = F"
    "info_type (fn_driver_info F) = AO_TYPE_FILE" "global_options lib = []"
    and fmt: "fmt_matrix format = None" "c_int (fmt_bits format + 7) = Some b7" and w: "w_allocs w = []"
    and init: "fn_device_init F (fresh_device did F format (Some f) (w_big_endian w))
        (w\<lparr>w_live := w_live w + 1\<rparr>) = Some (True, d1, w1)" "calm w w1" "setup_frame
        (fresh_device did F format (Some f) (w_big_endian w)) d1"
    and opened: "fn_open F (d1\<lparr>output_channels := fmt_channels format, input_channels := fmt_channels format,
        bytewidth := b7 div 8, dev_rate := fmt_rate format\<rparr>) format (set_errno 0 w1) = Some (True, d2, format, w2)"
      "w_allocs w2 = []" "inter_permute d2 = None" "swap_buffer d2 = None" "swap_buffer_size d2 = 0"
  obtains d' w' where "open_device did format [] (Some f) lib w = Some (Some (F, d'), w')" "calm w2 w'"
    "d' = d2\<lparr>driver_byte_format := real_byte_format (driver_byte_format d2) w2,
            swap_buffer := swap_buffer d', swap_buffer_size := swap_buffer_size d'\<rparr>"
    "buffer_ok d'" "swap_buffer d' \<noteq> None \<longleftrightarrow> needs_buffer d'"
proof -
  have same: "format\<lparr>fmt_matrix := None\<rparr> = format" using fmt(1) by (cases format) simp
  from finish_open_plenty [OF opened(4,5,2), of F None] obtain d' w' where f:
    "finish_open F d2 None w2 = Some (Some (F, d'), w')" "calm w2 w'"
    "d' = d2\<lparr>driver_byte_format := real_byte_format (driver_byte_format d2) w2,
            swap_buffer := swap_buffer d', swap_buffer_size := swap_buffer_size d'\<rparr>"
    "buffer_ok d'" "swap_buffer d' \<noteq> None \<longleftrightarrow> needs_buffer d'" .
  have opts: "open_options F (info_table lib) [] [] (fresh_device did F format (Some f) (w_big_endian w))
      (w\<lparr>w_live := w_live w + 1\<rparr>) = Some (True, d1, set_errno 0 w1)"
    using init(1) by (simp add: open_options_def set_errno_def)
  have backend: "open_backend F (info_table lib) format d1 (set_errno 0 w1) = Some (Some (F, d'), w')"
    using fmt opened(1,3) f(1)
    by (simp add: open_backend_def reconcile_def housekeeping_def build_permutation_def
        drop_identity_def split: option.splits)
  have "open_device did format [] (Some f) lib w = Some (Some (F, d'), w')"
    using drv fmt(1) opts backend
    by (simp add: open_device_def create_device_plenty [OF w] input_matrix_def same)
  with that f show ?thesis by blast
qed

section \<open>Sessions\<close>

text \<open>The samples of a block in the byte order of the file.\<close>

definition reorder :: "bool \<Rightarrow> nat \<Rightarrow> nat \<Rightarrow> byte list \<Rightarrow> byte list" where
  "reorder swap b k samples =
     concat (map (\<lambda>i. (if swap then rev else id) (sample b samples i)) [0..<k])"

definition straight :: "'p ao_device \<Rightarrow> bool" where
  "straight d \<longleftrightarrow> inter_permute d = None \<and> input_channels d = output_channels d"

lemma routed_straight:
  assumes "straight d"
  shows "routed d n samples =
    reorder (needs_swap d) (nat (bytewidth d)) (n * nat (output_channels d)) samples"
proof -
  let ?c = "nat (output_channels d)"
  let ?g = "\<lambda>i. (if needs_swap d then rev else id) (sample (nat (bytewidth d)) samples i)"
  have "routed_sample d samples f = (\<lambda>c. ?g (f * ?c + c))" for f
    using assms by (intro ext) (simp add: routed_sample_def route_def straight_def)
  then show ?thesis using concat_frames [of ?g ?c n] by (simp add: routed_def reorder_def)
qed

text \<open>The sample width of a format, and the formats and blocks the sessions are about.\<close>

definition width :: "ao_sample_format \<Rightarrow> int" where
  "width format = (fmt_bits format + 7) div 8"

definition plain_format :: "ao_sample_format \<Rightarrow> bool" where
  "plain_format format \<longleftrightarrow> fmt_matrix format = None \<and> 1 \<le> fmt_bits format \<and> fmt_bits format \<le> 32 \<and>
     1 \<le> fmt_channels format \<and> fmt_channels format \<le> INT_MAX"

definition fits_format :: "ao_sample_format \<Rightarrow> nat \<Rightarrow> byte list \<Rightarrow> bool" where
  "fits_format format n samples \<longleftrightarrow>
     (let b = nat (width format); c = nat (fmt_channels format)
      in n * c * b \<le> length samples \<and> int ((n + 1) * c * b) \<le> INT_MAX \<and> n * c * b * c < 2 ^ 32)"

definition of_format :: "'p ao_device \<Rightarrow> ao_sample_format \<Rightarrow> bool" where
  "of_format d format \<longleftrightarrow> straight d \<and> bytewidth d = width format \<and>
     output_channels d = fmt_channels format"

lemma of_format_playable:
  "of_format d format \<Longrightarrow> fits_format format n samples \<Longrightarrow> playable d n samples"
  by (simp add: playable_def of_format_def straight_def fits_format_def frames_fit_def)

lemma of_format_routed:
  assumes "of_format d format" and "plain_format format"
  shows "well_routed d"
proof -
  have "1 \<le> width format" "width format \<le> 4"
    using assms(2) by (auto simp: plain_format_def width_def)
  then show ?thesis
    using assms by (simp add: well_routed_def of_format_def straight_def plain_format_def)
qed

lemma plain_format_bits: "plain_format format \<Longrightarrow> c_int (fmt_bits format + 7) = Some (fmt_bits format + 7)"
  by (simp add: plain_format_def c_int_def INT_MAX_def INT_MIN_def)

definition data_of :: "bool \<Rightarrow> ao_sample_format \<Rightarrow> (nat \<times> byte list) list \<Rightarrow> byte list" where
  "data_of swap format blks =
     concat (map (\<lambda>(n, samples). reorder swap (nat (width format)) (n * nat (fmt_channels format)) samples) blks)"

lemma payload_data:
  "of_format d format \<Longrightarrow> payload d blks = data_of (needs_swap d) format blks"
  by (simp add: payload_def data_of_def routed_straight of_format_def)

text \<open>Opening the file itself.\<close>

definition creatable :: "string \<Rightarrow> bool \<Rightarrow> 'z world_scheme \<Rightarrow> bool" where
  "creatable name overwrite w \<longleftrightarrow> name \<noteq> ''-'' \<and> (overwrite \<or> w_disk w name = None) \<and>
     w_creat w name = Some None \<and> w_allocs w = []"

definition after_fopen :: "string \<Rightarrow> 'z world_scheme \<Rightarrow> 'z world_scheme" where
  "after_fopen name w = w\<lparr>w_disk := (w_disk w)(name \<mapsto> []), w_streams := w_streams w @
     [\<lparr>s_data = [], s_pos = 0, s_open = True, s_seekable = True, s_limit = None\<rparr>]\<rparr>"

abbreviation new_stream :: "'z world_scheme \<Rightarrow> nat" where
  "new_stream w \<equiv> length (w_streams w)"

lemma after_fopen_facts:
  "w_allocs (after_fopen name w) = w_allocs w" "w_big_endian (after_fopen name w) = w_big_endian w"
  "get_stream (new_stream w) (after_fopen name w) =
     Some \<lparr>s_data = [], s_pos = 0, s_open = True, s_seekable = True, s_limit = None\<rparr>"
  by (simp_all add: after_fopen_def get_stream_def)

lemma ao_open_file_creatable:
  assumes "creatable name overwrite w"
    and "open_device did format opts (Some (new_stream w)) lib (after_fopen name w) = Some (Some dev, w')"
  shows "ao_open_file did name overwrite format opts lib w = Some (Some dev, w')"
  using assms by (auto simp: ao_open_file_def creatable_def fopen_r_def fopen_w_def after_fopen_def)

lemma ao_close_file:
  assumes "fn_close F d w = Some (r, d1, w1)" and "fn_device_clear F d1 w1 = Some (d2, w2)"
    and "dev_file d2 = Some f" and "get_stream f w2 = Some s"
  obtains w' where "ao_close (Some (F, d)) w = Some (r, w')" "file_bytes f w' = s_data s"
    "get_stream f w' = None"
proof -
  let ?v = "put_stream f (s\<lparr>s_open := False\<rparr>) w2"
  have "ao_close (Some (F, d)) w = Some (r, free_device d2 ?v)"
    using assms by (simp add: ao_close_def fclose_def)
  moreover have "w_streams (free_device d2 ?v) = w_streams ?v"
    by (simp add: free_device_def heap_stepD(6) [OF free_opt_heap] heap_stepD(6) [OF free_block_heap])
  moreover have "f < length (w_streams w2)" using get_stream_lt [OF assms(4)] by simp
  ultimately show ?thesis
    using that by (simp add: file_bytes_def get_stream_def put_stream_def)
qed

lemma ao_close_file_clear:
  assumes "fn_close F d w = Some (r, e, v)" and "fn_device_clear F = clear_internal"
    and "dev_file e = Some f" and "get_stream f v = Some s"
  obtains w' where "ao_close (Some (F, d)) w = Some (r, w')" "file_bytes f w' = s_data s"
    "get_stream f w' = None"
proof -
  have c: "fn_device_clear F e v = Some (e\<lparr>internal := None\<rparr>, free_opt (internal e) v)"
    by (simp add: assms(2) clear_internal_def)
  have g: "get_stream f (free_opt (internal e) v) = Some s"
    using assms(4) heap_step_stream [OF free_opt_heap] by metis
  have f: "dev_file (e\<lparr>internal := None\<rparr>) = Some f" using assms(3) by simp
  from ao_close_file [OF assms(1) c f g] that show ?thesis by blast
qed

lemma static_clear:
  "fn_device_clear ao_null = clear_internal" "fn_device_clear ao_raw = clear_internal"
  "fn_device_clear ao_au = clear_internal" "fn_device_clear ao_wav = clear_internal"
  by (auto simp: ao_null_def ao_null_device_clear_def ao_raw_def ao_raw_device_clear_def ao_au_def
      ao_au_device_clear_def ao_wav_def ao_wav_device_clear_def intro!: ext)

text \<open>The byte order of the client after \<open>_create_device\<close>.\<close>

definition client_order :: "ao_sample_format \<Rightarrow> 'z world_scheme \<Rightarrow> int" where
  "client_order format w = real_byte_format (fmt_byte_format format) w"

lemma fresh_device_sel [simp]:
  "internal (fresh_device did F format fil big) = None"
  "inter_permute (fresh_device did F format fil big) = None"
  "inter_matrix (fresh_device did F format fil big) = None"
  "swap_buffer (fresh_device did F format fil big) = None"
  "swap_buffer_size (fresh_device did F format fil big) = 0"
  "output_matrix (fresh_device did F format fil big) = None"
  "dev_file (fresh_device did F format fil big) = fil"
  by (simp_all add: fresh_device_def)

lemma fresh_device_order:
  "client_byte_format (fresh_device did F format fil (w_big_endian w)) = client_order format w"
  by (simp add: fresh_device_def client_order_def real_byte_format_def ao_is_big_endian_correct)

section \<open>The raw driver\<close>

lemma raw_open_file:
  fixes lib :: "('x ao_internal, 'z world_scheme) ao_lib"
  assumes drv: "get_driver did lib = Some drv" "drv_functions drv = ao_raw" "global_options lib = []"
    and fmt: "plain_format format" and w: "creatable name overwrite w"
  obtains d w1 s where "ao_open_file did name overwrite format [] lib w = Some (Some (ao_raw, d), w1)"
    "playing d" "of_format d format"
    "needs_swap d \<longleftrightarrow> width format > 1 \<and> client_order format w \<noteq> real_byte_format AO_FMT_NATIVE w"
    "dev_file d = Some (new_stream w)" "w_allocs w1 = []"
    "get_stream (new_stream w) w1 = Some s" "at_end s" "s_data s = []"
proof -
  let ?w = "after_fopen name w" and ?f = "new_stream w"
  let ?F = "ao_raw :: ('x ao_internal, 'z world_scheme) ao_functions"
  let ?d0 = "fresh_device did ?F format (Some ?f) (w_big_endian ?w)"
  let ?d1 = "?d0\<lparr>internal := Some (Raw_internal \<lparr>byte_order = AO_FMT_NATIVE\<rparr>),
    output_matrix_order := AO_OUTPUT_MATRIX_FIXED\<rparr>"
  let ?w1 = "?w\<lparr>w_live := w_live ?w + 2\<rparr>"
  let ?d2 = "?d1\<lparr>output_channels := fmt_channels format, input_channels := fmt_channels format,
        bytewidth := (fmt_bits format + 7) div 8, dev_rate := fmt_rate format,
        driver_byte_format := AO_FMT_NATIVE\<rparr>"
  have plenty: "w_allocs ?w = []" using w by (simp add: creatable_def after_fopen_facts)
  have init: "fn_device_init ?F ?d0 (?w\<lparr>w_live := w_live ?w + 1\<rparr>) = Some (True, ?d1, ?w1)"
    using plenty by (simp add: ao_raw_def ao_raw_device_init_def)
  have opn: "fn_open ?F (?d1\<lparr>output_channels := fmt_channels format, input_channels := fmt_channels format,
        bytewidth := (fmt_bits format + 7) div 8, dev_rate := fmt_rate format\<rparr>) format (set_errno 0 ?w1)
      = Some (True, ?d2, format, set_errno 0 ?w1)"
    by (simp add: ao_raw_def ao_raw_open_def raw_state_def)
  have drv3: "info_type (fn_driver_info ?F) = AO_TYPE_FILE" by (simp add: ao_raw_def ao_raw_info_def)
  have nomatrix: "fmt_matrix format = None" using fmt by (simp add: plain_format_def)
  obtain d w' where o: "open_device did format [] (Some ?f) lib ?w = Some (Some (?F, d), w')"
    "calm (set_errno 0 ?w1) w'"
    "d = ?d2\<lparr>driver_byte_format := real_byte_format (driver_byte_format ?d2) (set_errno 0 ?w1),
            swap_buffer := swap_buffer d, swap_buffer_size := swap_buffer_size d\<rparr>"
    "buffer_ok d" "swap_buffer d \<noteq> None \<longleftrightarrow> needs_buffer d"
    by (rule open_device_plain [OF drv(1,2) drv3 drv(3) nomatrix plain_format_bits [OF fmt] plenty
          init _ _ opn])
       (use plenty in \<open>auto simp: setup_frame_def core_frame_def\<close>)
  have sel: "inter_permute d = None" "input_channels d = fmt_channels format"
    "output_channels d = fmt_channels format" "bytewidth d = width format" "dev_file d = Some ?f"
    "client_byte_format d = client_order format ?w"
    "driver_byte_format d = real_byte_format AO_FMT_NATIVE (set_errno 0 ?w1)"
    by (subst o(3); simp add: width_def fresh_device_order)+
  have of: "of_format d format" using sel by (simp add: of_format_def straight_def)
  have "client_order format ?w = client_order format w"
    "real_byte_format AO_FMT_NATIVE (set_errno 0 ?w1) = real_byte_format AO_FMT_NATIVE w"
    by (simp_all add: client_order_def real_byte_format_def ao_is_big_endian_correct after_fopen_facts)
  then have swap: "needs_swap d \<longleftrightarrow> width format > 1 \<and> client_order format w \<noteq> real_byte_format AO_FMT_NATIVE w"
    using sel by (simp add: needs_swap_def)
  have st: "get_stream ?f w' = get_stream ?f ?w"
    using calm_stream [OF o(2), of ?f] by (simp add: get_stream_def)
  show ?thesis
    using that [OF ao_open_file_creatable [OF w o(1)] _ of swap sel(5) _ st [unfolded after_fopen_facts]]
      o(4,5) of_format_routed [OF of fmt] calm_plenty [OF o(2)] plenty
    by (simp add: playing_def at_end_def)
qed

section \<open>The AU driver\<close>

text \<open>The header of an AU file for a format, with \<open>n\<close> bytes of data.\<close>

definition au_header_for :: "ao_sample_format \<Rightarrow> 32 word \<Rightarrow> Audio_filehdr" where
  "au_header_for format n =
     \<lparr>au_magic = AUDIO_FILE_MAGIC, au_hdr_size = 28, au_data_size = n,
      au_encoding = (if fmt_bits format = 8 then AUDIO_FILE_ENCODING_LINEAR_8
                     else AUDIO_FILE_ENCODING_LINEAR_16),
      au_sample_rate = word_of_int (fmt_rate format), au_channels = word_of_int (fmt_channels format),
      au_info = [0, 0, 0, 0]\<rparr>"

lemma put_stream_calm: "s_open s \<Longrightarrow> f < length (w_streams w) \<Longrightarrow> calm (put_stream f s w) v \<Longrightarrow> get_stream f v = Some s"
  using calm_stream [of "put_stream f s w" v f] by simp

lemma au_open_writes:
  fixes d :: "'x ao_internal ao_device"
  assumes i: "au_state d = Some \<lparr>au = \<lparr>au_magic = 0, au_hdr_size = 0, au_data_size = 0, au_encoding = 0,
        au_sample_rate = 0, au_channels = 0, au_info = [0, 0, 0, 0]\<rparr>\<rparr>"
    and bw: "fmt_bits format = 8 \<or> fmt_bits format = 16" and f: "dev_file d = Some f"
    and s: "get_stream f w = Some s" "at_end s" "s_data s = []" and ch: "output_channels d = fmt_channels format"
    and w: "w_allocs w = []"
  obtains m w' s' where "ao_au_open d format w = Some (True,
      d\<lparr>driver_byte_format := AO_FMT_BIG, inter_matrix := m,
        internal := Some (Au_internal \<lparr>au = au_header_for format AUDIO_UNKNOWN_SIZE\<rparr>)\<rparr>, format, w')"
    "w_allocs w' = []" "w_big_endian w' = w_big_endian w"
    "get_stream f w' = Some s'" "at_end s'" "s_data s' = au_header (au_header_for format AUDIO_UNKNOWN_SIZE)"
proof -
  let ?h = "au_header_for format AUDIO_UNKNOWN_SIZE"
  let ?s = "s\<lparr>s_data := s_data s @ take AU_HEADER_LEN (au_header ?h), s_pos := length (s_data s) + AU_HEADER_LEN\<rparr>"
  let ?v = "put_stream f ?s w"
  have fill: "au_fill \<lparr>au_magic = 0, au_hdr_size = 0, au_data_size = 0, au_encoding = 0,
        au_sample_rate = 0, au_channels = 0, au_info = [0, 0, 0, 0]\<rparr> (output_channels d)
       (if fmt_bits format = 8 then AUDIO_FILE_ENCODING_LINEAR_8 else AUDIO_FILE_ENCODING_LINEAR_16) format = ?h"
    by (simp add: au_fill_def au_header_for_def ch AU_HEADER_LEN_def)
  have wr: "fwrite (au_header ?h) AU_HEADER_LEN f w = Some (AU_HEADER_LEN, ?v)"
    by (rule fwrite_at_end [OF s(1,2)]) (simp add: AU_HEADER_LEN_def)
  let ?w' = "if inter_matrix d = None \<and> output_channels d \<le> 2 then ?v\<lparr>w_live := w_live ?v + 1\<rparr> else ?v"
  have "\<exists>m. ao_au_open d format w = Some (True,
      d\<lparr>driver_byte_format := AO_FMT_BIG, inter_matrix := m,
        internal := Some (Au_internal \<lparr>au = ?h\<rparr>)\<rparr>, format, ?w')"
  proof (cases "inter_matrix d = None \<and> output_channels d \<le> 2")
    case True
    then have "ao_au_open d format w = Some (True,
      d\<lparr>driver_byte_format := AO_FMT_BIG, inter_matrix := Some ''L,R'',
        internal := Some (Au_internal \<lparr>au = ?h\<rparr>)\<rparr>, format, ?w')"
      using bw i f w wr fill unfolding ao_au_open_def by (cases d) auto
    then show ?thesis by blast
  next
    case False
    then have "ao_au_open d format w = Some (True,
      d\<lparr>driver_byte_format := AO_FMT_BIG, inter_matrix := inter_matrix d,
        internal := Some (Au_internal \<lparr>au = ?h\<rparr>)\<rparr>, format, ?w')"
      using bw i f w wr fill unfolding ao_au_open_def by (cases d) auto
    then show ?thesis by blast
  qed
  moreover have "at_end ?s" "s_data ?s = au_header ?h"
    using s by (simp_all add: at_end_def AU_HEADER_LEN_def)
  moreover have "get_stream f ?w' = Some ?s"
    using get_stream_lt [OF s(1)] by (auto simp: get_stream_def put_stream_def)
  moreover have "w_allocs ?w' = []" "w_big_endian ?w' = w_big_endian w" using w by auto
  ultimately show ?thesis using that by blast
qed

lemma au_open_file:
  fixes lib :: "('x ao_internal, 'z world_scheme) ao_lib"
  assumes drv: "get_driver did lib = Some drv" "drv_functions drv = ao_au" "global_options lib = []"
    and fmt: "plain_format format" "fmt_bits format = 8 \<or> fmt_bits format = 16"
    and w: "creatable name overwrite w"
  obtains d w1 s where "ao_open_file did name overwrite format [] lib w = Some (Some (ao_au, d), w1)"
    "playing d" "of_format d format"
    "needs_swap d \<longleftrightarrow> width format > 1 \<and> client_order format w \<noteq> AO_FMT_BIG"
    "dev_file d = Some (new_stream w)" "w_allocs w1 = []"
    "get_stream (new_stream w) w1 = Some s" "at_end s"
    "s_data s = au_header (au_header_for format AUDIO_UNKNOWN_SIZE)" "au_state d \<noteq> None"
proof -
  let ?w = "after_fopen name w" and ?f = "new_stream w"
  let ?F = "ao_au :: ('x ao_internal, 'z world_scheme) ao_functions"
  let ?d0 = "fresh_device did ?F format (Some ?f) (w_big_endian ?w)"
  let ?d1 = "?d0\<lparr>internal := Some (Au_internal \<lparr>au = \<lparr>au_magic = 0, au_hdr_size = 0, au_data_size = 0,
        au_encoding = 0, au_sample_rate = 0, au_channels = 0, au_info = [0, 0, 0, 0]\<rparr>\<rparr>),
    output_matrix_order := AO_OUTPUT_MATRIX_FIXED\<rparr>"
  let ?w1 = "?w\<lparr>w_live := w_live ?w + 2\<rparr>"
  let ?e = "?d1\<lparr>output_channels := fmt_channels format, input_channels := fmt_channels format,
        bytewidth := (fmt_bits format + 7) div 8, dev_rate := fmt_rate format\<rparr>"
  have plenty: "w_allocs ?w = []" using w by (simp add: creatable_def after_fopen_facts)
  have init: "fn_device_init ?F ?d0 (?w\<lparr>w_live := w_live ?w + 1\<rparr>) = Some (True, ?d1, ?w1)"
    using plenty by (simp add: ao_au_def ao_au_device_init_def)
  have drv3: "info_type (fn_driver_info ?F) = AO_TYPE_FILE" by (simp add: ao_au_def ao_au_info_def)
  have nomatrix: "fmt_matrix format = None" using fmt by (simp add: plain_format_def)
  have st: "get_stream ?f (set_errno 0 ?w1) =
      Some \<lparr>s_data = [], s_pos = 0, s_open = True, s_seekable = True, s_limit = None\<rparr>"
    by (simp add: get_stream_def after_fopen_def)
  have fnopen: "fn_open ?F = ao_au_open" by (simp add: ao_au_def)
  have a: "au_state ?e = Some \<lparr>au = \<lparr>au_magic = 0, au_hdr_size = 0, au_data_size = 0, au_encoding = 0,
        au_sample_rate = 0, au_channels = 0, au_info = [0, 0, 0, 0]\<rparr>\<rparr>"
    "dev_file ?e = Some ?f" "output_channels ?e = fmt_channels format"
    by (simp_all add: au_state_def)
  have b: "at_end \<lparr>s_data = [], s_pos = 0, s_open = True, s_seekable = True, s_limit = None\<rparr>"
    "s_data \<lparr>s_data = [], s_pos = 0, s_open = True, s_seekable = True, s_limit = None\<rparr> = []"
    by (simp_all add: at_end_def)
  have c: "w_allocs (set_errno 0 ?w1) = []" using plenty by simp
  from au_open_writes [OF a(1) fmt(2) a(2) st b a(3) c, folded fnopen]
  obtain m w2 s where opn: "fn_open ?F ?e format (set_errno 0 ?w1) = Some (True,
      ?e\<lparr>driver_byte_format := AO_FMT_BIG, inter_matrix := m,
        internal := Some (Au_internal \<lparr>au = au_header_for format AUDIO_UNKNOWN_SIZE\<rparr>)\<rparr>, format, w2)"
    "w_allocs w2 = []" "w_big_endian w2 = w_big_endian (set_errno 0 ?w1)"
    "get_stream ?f w2 = Some s" "at_end s" "s_data s = au_header (au_header_for format AUDIO_UNKNOWN_SIZE)" .
  obtain d w' where o: "open_device did format [] (Some ?f) lib ?w = Some (Some (?F, d), w')" "calm w2 w'"
    "d = ?e\<lparr>driver_byte_format := AO_FMT_BIG, inter_matrix := m,
        internal := Some (Au_internal \<lparr>au = au_header_for format AUDIO_UNKNOWN_SIZE\<rparr>),
        driver_byte_format := real_byte_format AO_FMT_BIG w2,
        swap_buffer := swap_buffer d, swap_buffer_size := swap_buffer_size d\<rparr>"
    "buffer_ok d" "swap_buffer d \<noteq> None \<longleftrightarrow> needs_buffer d"
    by (rule open_device_plain [OF drv(1,2) drv3 drv(3) nomatrix plain_format_bits [OF fmt(1)] plenty
          init _ _ opn(1,2)])
       (use plenty in \<open>auto simp: setup_frame_def core_frame_def\<close>)
  have sel: "inter_permute d = None" "input_channels d = fmt_channels format"
    "output_channels d = fmt_channels format" "bytewidth d = width format" "dev_file d = Some ?f"
    "client_byte_format d = client_order format ?w"
    "driver_byte_format d = real_byte_format AO_FMT_BIG w2"
    "internal d = Some (Au_internal \<lparr>au = au_header_for format AUDIO_UNKNOWN_SIZE\<rparr>)"
    by (subst o(3); simp add: width_def fresh_device_order)+
  have of: "of_format d format" using sel by (simp add: of_format_def straight_def)
  have "client_order format ?w = client_order format w" "real_byte_format AO_FMT_BIG w2 = AO_FMT_BIG"
    by (simp_all add: client_order_def real_byte_format_def ao_is_big_endian_correct after_fopen_facts ao_fmts)
  then have swap: "needs_swap d \<longleftrightarrow> width format > 1 \<and> client_order format w \<noteq> AO_FMT_BIG"
    using sel by (simp add: needs_swap_def)
  have st': "get_stream ?f w' = Some s" using calm_stream [OF o(2), of ?f] opn(4) by simp
  have "au_state d \<noteq> None" using sel(8) by (simp add: au_state_def)
  then show ?thesis
    using that [OF ao_open_file_creatable [OF w o(1)] _ of swap sel(5) _ st' opn(5,6)]
      o(4,5) of_format_routed [OF of fmt(1)] calm_plenty [OF o(2) opn(2)]
    by (simp add: playing_def)
qed

section \<open>The WAV driver\<close>

lemma wav_open_writes:
  fixes d :: "'x ao_internal ao_device"
  assumes i: "wav_state d = Some i" and h: "wav_fill (wave i) (output_channels d) (output_mask d) format = Some h"
    and f: "dev_file d = Some f" and s: "get_stream f w = Some s" "at_end s" "s_data s = []"
  obtains w' s' where "ao_wav_open d format w = Some (True,
      d\<lparr>internal := Some (Wav_internal \<lparr>wave = h\<rparr>), driver_byte_format := AO_FMT_LITTLE\<rparr>, format, w')"
    "same_but_streams w w'" "get_stream f w' = Some s'" "at_end s'" "s_data s' = wav_header h"
proof -
  let ?s = "s\<lparr>s_data := s_data s @ take WAV_HEADER_LEN (wav_header h), s_pos := length (s_data s) + WAV_HEADER_LEN\<rparr>"
  let ?v = "put_stream f ?s w"
  have wr: "fwrite (wav_header h) WAV_HEADER_LEN f w = Some (WAV_HEADER_LEN, ?v)"
    by (rule fwrite_at_end [OF s(1,2)]) (simp add: WAV_HEADER_LEN_def)
  have "i\<lparr>wave := h\<rparr> = \<lparr>wave = h\<rparr>" by (cases i) simp
  then have "ao_wav_open d format w = Some (True,
      d\<lparr>internal := Some (Wav_internal \<lparr>wave = h\<rparr>), driver_byte_format := AO_FMT_LITTLE\<rparr>, format, ?v)"
    using i h f wr unfolding ao_wav_open_def by (cases d) auto
  moreover have "at_end ?s" "s_data ?s = wav_header h"
    using s by (simp_all add: at_end_def WAV_HEADER_LEN_def)
  moreover have "get_stream f ?v = Some ?s" using get_stream_lt [OF s(1)] by simp
  ultimately show ?thesis using that by blast
qed

lemma wav_open_file:
  fixes lib :: "('x ao_internal, 'z world_scheme) ao_lib"
  assumes drv: "get_driver did lib = Some drv" "drv_functions drv = ao_wav" "global_options lib = []"
    and fmt: "plain_format format" and w: "creatable name overwrite w"
    and h: "wav_fill wave_zero (fmt_channels format) 0 format = Some h"
  obtains d w1 s where "ao_open_file did name overwrite format [] lib w = Some (Some (ao_wav, d), w1)"
    "playing d" "of_format d format"
    "needs_swap d \<longleftrightarrow> width format > 1 \<and> client_order format w \<noteq> AO_FMT_LITTLE"
    "dev_file d = Some (new_stream w)" "w_allocs w1 = []"
    "get_stream (new_stream w) w1 = Some s" "at_end s"
    "s_data s = wav_header h" "wav_state d = Some \<lparr>wave = h\<rparr>"
proof -
  let ?w = "after_fopen name w" and ?f = "new_stream w"
  let ?F = "ao_wav :: ('x ao_internal, 'z world_scheme) ao_functions"
  let ?d0 = "fresh_device did ?F format (Some ?f) (w_big_endian ?w)"
  let ?d1 = "?d0\<lparr>internal := Some (Wav_internal \<lparr>wave = wave_zero\<rparr>),
    output_matrix := Some ''L,R,C,LFE,BL,BR,CL,CR,BC,SL,SR'',
    output_matrix_order := AO_OUTPUT_MATRIX_COLLAPSIBLE\<rparr>"
  let ?w1 = "?w\<lparr>w_live := w_live ?w + 3\<rparr>"
  let ?e = "?d1\<lparr>output_channels := fmt_channels format, input_channels := fmt_channels format,
        bytewidth := (fmt_bits format + 7) div 8, dev_rate := fmt_rate format\<rparr>"
  have plenty: "w_allocs ?w = []" using w by (simp add: creatable_def after_fopen_facts)
  have init: "fn_device_init ?F ?d0 (?w\<lparr>w_live := w_live ?w + 1\<rparr>) = Some (True, ?d1, ?w1)"
    using plenty by (simp add: ao_wav_def ao_wav_device_init_def)
  have drv3: "info_type (fn_driver_info ?F) = AO_TYPE_FILE" by (simp add: ao_wav_def ao_wav_info_def)
  have nomatrix: "fmt_matrix format = None" using fmt by (simp add: plain_format_def)
  have st: "get_stream ?f (set_errno 0 ?w1) =
      Some \<lparr>s_data = [], s_pos = 0, s_open = True, s_seekable = True, s_limit = None\<rparr>"
    by (simp add: get_stream_def after_fopen_def)
  have h': "wav_fill (wave \<lparr>wave = wave_zero\<rparr>) (output_channels ?e) (output_mask ?e) format = Some h"
    using h by (simp add: fresh_device_def)
  have fnopen: "fn_open ?F = ao_wav_open" by (simp add: ao_wav_def)
  have a: "wav_state ?e = Some \<lparr>wave = wave_zero\<rparr>" "dev_file ?e = Some ?f"
    by (simp_all add: wav_state_def)
  have b: "at_end \<lparr>s_data = [], s_pos = 0, s_open = True, s_seekable = True, s_limit = None\<rparr>"
    "s_data \<lparr>s_data = [], s_pos = 0, s_open = True, s_seekable = True, s_limit = None\<rparr> = []"
    by (simp_all add: at_end_def)
  from wav_open_writes [OF a(1) h' a(2) st b, folded fnopen]
  obtain w2 s where opn: "fn_open ?F ?e format (set_errno 0 ?w1) = Some (True,
      ?e\<lparr>internal := Some (Wav_internal \<lparr>wave = h\<rparr>), driver_byte_format := AO_FMT_LITTLE\<rparr>, format, w2)"
    "same_but_streams (set_errno 0 ?w1) w2" "get_stream ?f w2 = Some s" "at_end s" "s_data s = wav_header h" .
  have plenty2: "w_allocs w2 = []" using same_but_streams_sel [OF opn(2)] plenty by simp
  obtain d w' where o: "open_device did format [] (Some ?f) lib ?w = Some (Some (?F, d), w')" "calm w2 w'"
    "d = ?e\<lparr>internal := Some (Wav_internal \<lparr>wave = h\<rparr>), driver_byte_format := AO_FMT_LITTLE,
        driver_byte_format := real_byte_format AO_FMT_LITTLE w2,
        swap_buffer := swap_buffer d, swap_buffer_size := swap_buffer_size d\<rparr>"
    "buffer_ok d" "swap_buffer d \<noteq> None \<longleftrightarrow> needs_buffer d"
    by (rule open_device_plain [OF drv(1,2) drv3 drv(3) nomatrix plain_format_bits [OF fmt(1)] plenty
          init _ _ opn(1) plenty2])
       (use plenty in \<open>auto simp: setup_frame_def core_frame_def\<close>)
  have sel: "inter_permute d = None" "input_channels d = fmt_channels format"
    "output_channels d = fmt_channels format" "bytewidth d = width format" "dev_file d = Some ?f"
    "client_byte_format d = client_order format ?w"
    "driver_byte_format d = real_byte_format AO_FMT_LITTLE w2"
    "internal d = Some (Wav_internal \<lparr>wave = h\<rparr>)"
    by (subst o(3); simp add: width_def fresh_device_order)+
  have of: "of_format d format" using sel by (simp add: of_format_def straight_def)
  have "client_order format ?w = client_order format w" "real_byte_format AO_FMT_LITTLE w2 = AO_FMT_LITTLE"
    by (simp_all add: client_order_def real_byte_format_def ao_is_big_endian_correct after_fopen_facts ao_fmts)
  then have swap: "needs_swap d \<longleftrightarrow> width format > 1 \<and> client_order format w \<noteq> AO_FMT_LITTLE"
    using sel by (simp add: needs_swap_def)
  have st': "get_stream ?f w' = Some s" using calm_stream [OF o(2), of ?f] opn(3) by simp
  have "wav_state d = Some \<lparr>wave = h\<rparr>" using sel(8) by (simp add: wav_state_def)
  then show ?thesis
    using that [OF ao_open_file_creatable [OF w o(1)] _ of swap sel(5) _ st' opn(4,5)]
      o(4,5) of_format_routed [OF of fmt(1)] calm_plenty [OF o(2) plenty2]
    by (simp add: playing_def)
qed

section \<open>The fields of the headers\<close>

lemma wav_fill_plain:
  assumes "plain_format format"
  obtains h where "wav_fill wave_zero (fmt_channels format) m format = Some h"
proof -
  have "c_int (width format * 8) = Some (width format * 8)"
    using assms by (auto simp: plain_format_def width_def c_int_def INT_MAX_def INT_MIN_def)
  then show ?thesis
    using that plain_format_bits [OF assms] by (auto simp: wav_fill_def width_def)
qed

lemma uint_drop_bit16: "uint (drop_bit n (y :: 16 word)) = uint y div 2 ^ n"
  using take_bit_int_eq_self [of "uint y" 16] uint_bounded [of y]
  by (simp add: unsigned_drop_bit_eq flip: drop_bit_eq_div)

lemma uint_of_nat32_mod: "uint (of_nat n :: 32 word) = int n mod 2 ^ 32"
  by (simp add: unsigned_of_nat take_bit_eq_mod zmod_int)

definition wav_expected :: "ao_sample_format \<Rightarrow> int \<Rightarrow> byte list \<Rightarrow> wav_view" where
  "wav_expected format cmask body =
     \<lparr>v_riff_len = (int (length body) + 60) mod 2 ^ 32, v_tag = 0xfffe,
      v_channels = fmt_channels format, v_rate = fmt_rate format,
      v_avg = fmt_channels format * fmt_rate format * width format mod 2 ^ 32,
      v_align = fmt_channels format * width format mod 2 ^ 16, v_bits = width format * 8,
      v_valid_bits = fmt_bits format, v_mask = cmask, v_subformat = 1,
      v_data_len = int (length body) mod 2 ^ 32, v_body = body\<rparr>"

lemma uint_of_int16: "0 \<le> x \<Longrightarrow> x < 2 ^ 16 \<Longrightarrow> uint (word_of_int x :: 16 word) = x"
  by (simp add: unsigned_of_int take_bit_int_eq_self)

lemma uint_of_int32: "0 \<le> x \<Longrightarrow> x < 2 ^ 32 \<Longrightarrow> uint (word_of_int x :: 32 word) = x"
  by (simp add: unsigned_of_int take_bit_int_eq_self)

lemma wav_header_fields:
  assumes h: "wav_fill wave_zero (fmt_channels format) m format = Some h" and fmt: "plain_format format"
    and ch: "fmt_channels format < 2 ^ 16" and rate: "0 \<le> fmt_rate format" "fmt_rate format < 2 ^ 32"
  shows "wav_view_of (wav_patch h (of_nat (length body + 60)) (of_nat (length body))) body =
    wav_expected format (uint m) body"
proof -
  let ?ch = "word_of_int (fmt_channels format) :: 16 word"
  let ?bits = "word_of_int (width format * 8) :: 16 word"
  have c: "1 \<le> fmt_channels format" "1 \<le> width format" "width format \<le> 4"
    "1 \<le> fmt_bits format" "fmt_bits format \<le> 32"
    using fmt by (auto simp: plain_format_def width_def)
  have u: "uint ?ch = fmt_channels format" "uint ?bits = width format * 8"
    "uint (word_of_int (fmt_bits format) :: 16 word) = fmt_bits format"
    by (rule uint_of_int16; use c ch in simp)+
  have d: "uint (drop_bit 3 ?bits) = width format"
    unfolding uint_drop_bit16 u(2) by simp
  have chw: "(ucast ?ch :: 32 word) = word_of_int (fmt_channels format)"
    by (metis u(1) ucast_eq)
  have dw: "(ucast (drop_bit 3 ?bits) :: 32 word) = word_of_int (width format)"
    by (metis d ucast_eq)
  have avg: "uint (ucast ?ch * word_of_int (fmt_rate format) * ucast (drop_bit 3 ?bits) :: 32 word)
      = fmt_channels format * fmt_rate format * width format mod 2 ^ 32"
    unfolding chw dw by (simp only: wi_hom_mult uint_word_of_int) simp
  have align: "uint (word_of_int (uint ?ch * uint (drop_bit 3 ?bits)) :: 16 word)
      = fmt_channels format * width format mod 2 ^ 16"
    unfolding u(1) d by (simp only: uint_word_of_int) simp
  have len: "uint (of_nat (length body) :: 32 word) = int (length body) mod 2 ^ 32"
    "uint (of_nat (length body + 60) :: 32 word) = (int (length body) + 60) mod 2 ^ 32"
    unfolding uint_of_nat32_mod by simp_all
  have "c_int (width format * 8) = Some (width format * 8)"
    using c by (simp add: c_int_def INT_MAX_def INT_MIN_def)
  then have f: "wFormatTag (common_chunk h) = WAVE_FORMAT_EXTENSIBLE"
    "wChannels (common_chunk h) = ?ch" "dwSamplesPerSec (common_chunk h) = word_of_int (fmt_rate format)"
    "dwAvgBytesPerSec (common_chunk h) = ucast ?ch * word_of_int (fmt_rate format) * ucast (drop_bit 3 ?bits)"
    "wBlockAlign (common_chunk h) = word_of_int (uint ?ch * uint (drop_bit 3 ?bits))"
    "wBitsPerSample (common_chunk h) = ?bits"
    "wValidBitsPerSample (common_chunk h) = word_of_int (fmt_bits format)"
    "dwChannelMask (common_chunk h) = m" "subFormat (common_chunk h) = WAVE_FORMAT_PCM"
    using h plain_format_bits [OF fmt] by (auto simp: wav_fill_def width_def)
  have g: "uint (wFormatTag (common_chunk h)) = 65534" "uint (subFormat (common_chunk h)) = 1"
    "uint (dwChannelMask (common_chunk h)) = uint m"
    by (simp_all add: f WAVE_FORMAT_EXTENSIBLE_def WAVE_FORMAT_PCM_def)
  note k = u [folded f(2,6,7)] avg [folded f(4)] align [folded f(5)] uint_of_int32 [OF rate, folded f(3)]
  have len2: "uint (of_nat (length body) + 60 :: 32 word) = (int (length body) + 60) mod 2 ^ 32"
    using len(2) by simp
  show ?thesis
    by (simp add: wav_view_of_def wav_expected_def wav_patch_def g k len(1) len2)
qed

end
