(* ===== verification/AO_Calls.thy ===== *)
theory AO_Calls
  imports Complex_Main AO_Internal
begin

text \<open>
  The calls that the live drivers make to the operating system and to the sound libraries, and
  the answers they get.  Each library has a datatype of its own; a constructor is a function of
  that library with the arguments the driver gives it, the structures passed by address laid open
  as records.  A pointer that a library hands out is an \<open>int\<close>, 0 for NULL.
\<close>

section \<open>The sound libraries\<close>

text \<open>\<^verbatim>\<open>artsc.h\<close>: \<^verbatim>\<open>src/plugins/arts/ao_arts.c\<close>.\<close>

datatype arts_call =
    Arts_init
  | Arts_free
  | Arts_suspended
  | Arts_play_stream int int int string
  | Arts_stream_set int int int
  | Arts_stream_get int int
  | Arts_write int "byte list"
  | Arts_close_stream int

text \<open>
  \<^verbatim>\<open>audiolib.h\<close>: \<^verbatim>\<open>src/plugins/nas/ao_nas.c\<close>.  \<open>au_flow\<close> is what \<open>AuMakeElementImportClient\<close> and
  \<open>AuMakeElementExportDevice\<close> put into the two elements of a flow.
\<close>

record au_flow =
  au_rate :: int
  au_format :: int
  au_tracks :: int
  au_max_samples :: "32 word"
  au_low_water :: "32 word"
  au_device :: int

datatype au_event =
    Au_element_notify int int int "32 word"
  | Au_other_event

datatype nas_call =
    Au_open_server "string option"
  | Au_close_server int
  | Au_create_flow int
  | Au_set_elements int int au_flow
  | Au_start_flow int int
  | Au_next_event int
  | Au_write_element int int "byte list"
  | Au_stop_flow int int

text \<open>\<^verbatim>\<open>audio.h\<close> of IRIX: \<^verbatim>\<open>src/plugins/irix/ao_irix.c\<close>.\<close>

datatype irix_call =
    Al_new_config
  | Al_free_config int
  | Al_set_queue_size int int
  | Al_set_channels int int
  | Al_set_device int int
  | Al_set_samp_fmt int int
  | Al_set_width int int
  | Al_open_port string int
  | Al_set_rate int int
  | Al_write_frames int "byte list" "32 word"
  | Al_close_port int

text \<open>
  \<^verbatim>\<open>pulse/simple.h\<close> and the helpers of libpulse: \<^verbatim>\<open>src/plugins/pulse/ao_pulse.c\<close>.  \<open>pa_stream\<close> is
  what \<open>pa_simple_new\<close> gets, with the fields of \<open>pa_sample_spec\<close>, \<open>pa_channel_map\<close> and
  \<open>pa_buffer_attr\<close>; the last two may be NULL.
\<close>

record pa_buffer_attr =
  pa_maxlength :: "32 word"
  pa_tlength :: "32 word"
  pa_prebuf :: "32 word"
  pa_minreq :: "32 word"
  pa_fragsize :: "32 word"

record pa_stream =
  pa_server :: "string option"
  pa_client :: string
  pa_dev :: "string option"
  pa_stream_name :: string
  pa_format :: int
  pa_rate :: "32 word"
  pa_channels :: "8 word"
  pa_map :: "int list option"
  pa_attr :: "pa_buffer_attr option"

datatype pulse_call =
    Pa_xmalloc "64 word"
  | Pa_get_binary_name "64 word"
  | Pa_simple_new pa_stream
  | Pa_simple_get_latency int
  | Pa_simple_write int "byte list"
  | Pa_simple_drain int
  | Pa_simple_free int

text \<open>\<^verbatim>\<open>roaraudio.h\<close>: \<^verbatim>\<open>src/plugins/roar/ao_roar.c\<close>.\<close>

datatype roar_call =
    Roar_simple_connect2 "string option" "string option"
  | Roar_simple_connect "string option" "string option"
  | Roar_get_workarounds
  | Roar_set_workarounds int
  | Roar_get_standby int
  | Roar_disconnect int
  | Roar_str2role string
  | Roar_vs_new_from_con int
  | Roar_list_filtered int
  | Roar_stream_new_by_id int
  | Roar_stream_get_name int int
  | Roar_vs_set_mixer int int
  | Roar_vs_stream int int int int int
  | Roar_vs_role int int
  | Roar_vs_write int "byte list"
  | Roar_vs_close int

text \<open>
  \<^verbatim>\<open>alsa/asoundlib.h\<close>: \<^verbatim>\<open>src/plugins/alsa/ao_alsa.c\<close>.  The parameter structures live in \<open>alloca\<close>
  memory and are known to alsa-lib only; \<open>Snd_config_global\<close> reads the variable \<open>snd_config\<close> of
  the library.  The flag of \<open>Snd_pcm_writei\<close> says that it is \<open>snd_pcm_mmap_writei\<close>.
\<close>

datatype alsa_call =
    Snd_pcm_open string bool
  | Snd_pcm_open_lconf string int
  | Snd_pcm_close int
  | Snd_config_global
  | Snd_config_update
  | Snd_config_copy int
  | Snd_config_delete int
  | Snd_config_search int string
  | Snd_config_get_string int
  | Snd_config_imake_integer string int
  | Snd_config_add int int
  | Snd_hw_any int
  | Snd_hw_set_access int int
  | Snd_hw_set_format int int
  | Snd_hw_set_channels int "32 word"
  | Snd_hw_set_rate_near int "32 word"
  | Snd_hw_set_period_time_near int "32 word"
  | Snd_hw_set_buffer_time_near int "32 word"
  | Snd_hw_params int
  | Snd_hw_get_period_size int
  | Snd_sw_current int
  | Snd_sw_set_xfer_align int int
  | Snd_sw_get_boundary int
  | Snd_sw_set_silence_size int int
  | Snd_sw_params int
  | Snd_pcm_writei bool int "byte list" "32 word"
  | Snd_pcm_prepare int
  | Snd_pcm_resume int
  | Snd_pcm_delay int
  | Snd_pcm_drain int

text \<open>
  CoreAudio: \<^verbatim>\<open>src/plugins/macosx/ao_macosx.c\<close>.  \<open>mac_format\<close> is \<open>AudioStreamBasicDescription\<close>;
  a number that CoreAudio stores in a \<open>Float64\<close> is a rational.  The callback of the driver runs on a
  thread of CoreAudio whenever the mutex is free: a \<open>render_request\<close> is what it is called with,
  a NULL pointer or a list with a number of buffers and the size of the first, and
  \<open>Mac_rendered\<close> is the buffer that it hands back, with the flag for silence.
\<close>

record mac_format =
  mac_rate :: rat
  mac_flags :: "32 word"
  mac_bytes_per_packet :: "32 word"
  mac_frames_per_packet :: "32 word"
  mac_bytes_per_frame :: "32 word"
  mac_channels_per_frame :: "32 word"
  mac_bits_per_channel :: "32 word"

datatype render_request = Render_null | Render int "32 word"

datatype mac_call =
    Mac_component_find_next
  | Mac_instance_new int
  | Mac_instance_dispose int
  | Mac_set_device int "32 word"
  | Mac_set_stream_format int mac_format
  | Mac_get_stream_format int
  | Mac_set_channel_layout int "32 word"
  | Mac_set_render_callback int
  | Mac_initialize int
  | Mac_start int
  | Mac_stop int
  | Mac_is_running int
  | Mac_mutex_lock
  | Mac_cond_wait
  | Mac_rendered "byte list" bool
  | Mac_string string
  | Mac_release int
  | Mac_device_for_uid int
  | Mac_can_be_default "32 word"
  | Mac_devices bool
  | Mac_device_name "32 word"
  | Mac_source_id "32 word"
  | Mac_source_name "32 word" int

text \<open>
  The Windows multimedia library: \<^verbatim>\<open>src/ao_wmm.c\<close>.  \<open>wave_format\<close> is \<open>WAVEFORMATEXTENSIBLE\<close>, \<open>guid\<close> its
  \<open>SubFormat\<close>.  A header is known by its index.  \<open>Wmm_done\<close> is no function: it is the reading of a
  header's flag \<open>WHDR_DONE\<close>, which Windows sets when it is through with the block.
\<close>

record guid =
  guid_Data1 :: "32 word"
  guid_Data2 :: "16 word"
  guid_Data3 :: "16 word"
  guid_Data4 :: "8 word list"

record wave_format =
  wf_wFormatTag :: "16 word"
  wf_nChannels :: "16 word"
  wf_nSamplesPerSec :: "32 word"
  wf_nAvgBytesPerSec :: "32 word"
  wf_nBlockAlign :: "16 word"
  wf_wBitsPerSample :: "16 word"
  wf_cbSize :: "16 word"
  wf_wValidBitsPerSample :: "16 word"
  wf_dwChannelMask :: "32 word"
  wf_SubFormat :: guid

datatype wmm_call =
    Wmm_get_num_devs
  | Wmm_get_dev_caps int
  | Wmm_open "32 word" wave_format "32 word"
  | Wmm_get_id int
  | Wmm_close int
  | Wmm_prepare int nat
  | Wmm_unprepare int nat
  | Wmm_write int nat "byte list"
  | Wmm_done int nat
  | Wmm_reset int
  | Wmm_sleep "32 word"

section \<open>Calls and answers\<close>

datatype call =
    Open string bool
  | Close int
  | Fcntl_blocking int
  | Write int "byte list"
  | Ioctl int string int
  | Audio_setinfo int int int int
  | Usleep int
  | Nanosleep int int
  | Sleep int
  | Esd_open_sound
  | Esd_get_standby_mode int
  | Esd_play_stream int int "string option" string
  | Esd_close int
  | Sio_open "string option"
  | Sio_setpar int int int int
  | Sio_start int
  | Sio_write int "byte list"
  | Sio_stop int
  | Sio_close int
  | Arts arts_call
  | Nas nas_call
  | Irix irix_call
  | Pulse pulse_call
  | Roar roar_call
  | Alsa alsa_call
  | Mac mac_call
  | Wmm wmm_call

text \<open>
  An answer: the result, the values left in variables passed by address, \<open>errno\<close>, and the string,
  the event, the array of numbers or the format that a call gives back.  \<open>rp_renders\<close> are the calls
  of CoreAudio's callback that come in while the caller waits.
\<close>

record reply =
  rp_ret :: int
  rp_out :: int
  rp_errno :: int
  rp_aux :: int
  rp_text :: string
  rp_event :: au_event
  rp_ids :: "int list"
  rp_format :: mac_format
  rp_renders :: "render_request list"

text \<open>An answer with numbers only.\<close>

definition no_format :: mac_format where
  "no_format = \<lparr>mac_rate = 0, mac_flags = 0, mac_bytes_per_packet = 0, mac_frames_per_packet = 0,
     mac_bytes_per_frame = 0, mac_channels_per_frame = 0, mac_bits_per_channel = 0\<rparr>"

definition number_reply :: "int \<Rightarrow> int \<Rightarrow> int \<Rightarrow> reply" where
  "number_reply r x e = \<lparr>rp_ret = r, rp_out = x, rp_errno = e, rp_aux = 0, rp_text = [],
     rp_event = Au_other_event, rp_ids = [], rp_format = no_format, rp_renders = []\<rparr>"

lemma number_reply_sel [simp]:
  "rp_ret (number_reply r x e) = r" "rp_out (number_reply r x e) = x" "rp_errno (number_reply r x e) = e"
  by (simp_all add: number_reply_def)

section \<open>The internal structures of the live drivers\<close>

record ao_oss_internal =
  oss_dev :: "string option"
  oss_id :: int
  oss_fd :: int
  oss_buf_size :: int
  oss_buffer_time :: "32 word"

record ao_sun_internal =
  sun_dev :: "string option"
  sun_id :: int
  sun_fd :: int

record ao_esd_internal =
  esd_sock :: int
  esd_host :: "string option"
  esd_client_name :: "string option"
  esd_bugbuffer :: "byte list"
  esd_bugfill :: int
  esd_bits :: int

record ao_sndio_internal =
  sndio_hdl :: int
  sndio_dev :: "string option"
  sndio_id :: int

record ao_arts_internal =
  arts_stream :: int
  arts_allow_multi :: bool
  arts_buffersize :: int

text \<open>\<open>aud\<close>, \<open>flow\<close> and \<open>dev\<close> are not set by \<open>device_init\<close>: \<open>None\<close> is what \<open>malloc\<close> left there.\<close>

record ao_nas_internal =
  nas_aud :: "int option"
  nas_flow :: "int option"
  nas_dev :: "int option"
  nas_host :: "string option"
  nas_buf_size :: "32 word"
  nas_buf_free :: "32 word"

record ao_irix_internal =
  irix_alport :: int
  irix_alconfig :: int
  irix_bytesPerSample :: int
  irix_channels :: int

record ao_pulse_internal =
  pulse_simple :: int
  pulse_server :: "string option"
  pulse_sink :: "string option"
  pulse_client_name :: "string option"
  pulse_static_delay :: "64 word"
  pulse_buffer_time :: "64 word"

record ao_roar_internal =
  roar_con :: int
  roar_con_opened :: bool
  roar_vss :: int
  roar_host :: "string option"
  roar_mixer :: "string option"
  roar_client_name :: "string option"
  roar_role :: int

record ao_alsa_internal =
  alsa_pcm_handle :: int
  alsa_buffer_time :: "32 word"
  alsa_period_time :: "32 word"
  alsa_period_size :: int
  alsa_sample_size :: int
  alsa_sample_rate :: "32 word"
  alsa_bitformat :: int
  alsa_padbuffer :: "byte list option"
  alsa_padoutw :: int
  alsa_dev :: "string option"
  alsa_id :: int
  alsa_mmap :: bool
  alsa_access_mask :: int
  alsa_static_delay :: int
  alsa_local_config :: int

text \<open>The pointer back to the device serves only the messages of the callback, and is left out.\<close>

record ao_macosx_internal =
  mac_output_device :: "32 word"
  mac_unit :: int
  mac_output_p :: bool
  mac_started :: bool
  mac_is_stopping :: bool
  mac_buffer :: "byte list option"
  mac_buffer_byte_count :: "32 word"
  mac_first_valid :: "32 word"
  mac_valid_count :: "32 word"
  mac_buffer_time :: "32 word"

text \<open>
  A header with the block of samples that \<open>lpData\<close> and \<open>data\<close> point to.  Of its flags the driver looks
  at \<open>WHDR_DONE\<close> only: \<open>wh_done\<close> is what it is known to be.
\<close>

record myWH_t =
  wh_dwBufferLength :: "32 word"
  wh_done :: bool
  wh_data :: "byte list"
  wh_count :: int
  wh_length :: int
  wh_sent :: int

record waveoutcaps =
  szPname :: string
  vDriverVersion :: int

text \<open>
  The headers lie at the start of the block \<open>bigbuffer\<close> and the samples behind them: the block is the
  list of both.  \<open>wmm_wh\<close> says whether the pointer \<open>wh\<close> to it is set; \<open>spl\<close> and the field \<open>idx\<close> of a
  header are not used.
\<close>

record ao_wmm_internal =
  wmm_id :: "32 word"
  wmm_hwo :: int
  wmm_caps :: waveoutcaps
  wmm_wavefmt :: wave_format
  wmm_opened :: bool
  wmm_prepared :: bool
  wmm_blocks :: nat
  wmm_splPerBlock :: int
  wmm_msPerBlock :: int
  wmm_bigbuffer :: "myWH_t list option"
  wmm_wh :: bool
  wmm_sent_blocks :: int
  wmm_full_blocks :: int
  wmm_widx :: nat
  wmm_ridx :: nat

datatype plugin_internal =
    Oss_internal ao_oss_internal
  | Sun_internal ao_sun_internal
  | Esd_internal ao_esd_internal
  | Sndio_internal ao_sndio_internal
  | Arts_internal ao_arts_internal
  | Nas_internal ao_nas_internal
  | Irix_internal ao_irix_internal
  | Pulse_internal ao_pulse_internal
  | Roar_internal ao_roar_internal
  | Alsa_internal ao_alsa_internal
  | Macosx_internal ao_macosx_internal
  | Wmm_internal ao_wmm_internal

type_synonym live_device = "plugin_internal ao_internal ao_device"

fun plugin_extra :: "plugin_internal \<Rightarrow> int" where
  "plugin_extra (Oss_internal i) = blocks (oss_dev i)"
| "plugin_extra (Sun_internal i) = blocks (sun_dev i)"
| "plugin_extra (Esd_internal i) = blocks (esd_host i) + blocks (esd_client_name i)"
| "plugin_extra (Sndio_internal i) = blocks (sndio_dev i)"
| "plugin_extra (Arts_internal i) = 0"
| "plugin_extra (Nas_internal i) = blocks (nas_host i)"
| "plugin_extra (Irix_internal i) = 0"
| "plugin_extra (Pulse_internal i) =
     blocks (pulse_server i) + blocks (pulse_sink i) + blocks (pulse_client_name i)"
| "plugin_extra (Roar_internal i) =
     blocks (roar_host i) + blocks (roar_mixer i) + blocks (roar_client_name i)"
| "plugin_extra (Alsa_internal i) = blocks (alsa_dev i) + blocks (alsa_padbuffer i)"
| "plugin_extra (Macosx_internal i) = blocks (mac_buffer i)"
| "plugin_extra (Wmm_internal i) = blocks (wmm_bigbuffer i)"

text \<open>The blocks behind \<open>internal\<close>: the structure, and the strings it holds.\<close>

fun plugin_blocks :: "plugin_internal ao_internal \<Rightarrow> int" where
  "plugin_blocks (Plugin_internal p) = 1 + plugin_extra p"
| "plugin_blocks _ = 1"

end
