(* ===== verification/AO_Posix.thy ===== *)
theory AO_Posix
  imports AO_Calls
begin

text \<open>
  The operating system and the sound libraries as the live drivers see them, and what the live
  drivers share: the pieces of the C library they use, and the type of their internal structures.

  \<^item> A call to the system or to a sound library is an element of \<open>call\<close>.  What it answers is a
    parameter of the model, \<open>p_answer\<close>: a function of the call and of every call made before, so
    that nothing is assumed about it beyond what a theorem names.  \<open>p_calls\<close> is the list of the
    calls made so far.
  \<^item> The environment of the process, \<open>p_environ\<close>, is a list of strings; a string that is in
    it because of \<open>putenv(strdup(s))\<close> is a heap block, one the process started with is not.
  \<^item> Blocks that a sound library allocates for itself are not counted in \<open>w_live\<close>.
\<close>

section \<open>The process\<close>

text \<open>
  The world of a live driver: beside the calls, the static variables of the plugins
  (\<open>server_open_count\<close> and \<open>mutex\<close> of \<^verbatim>\<open>ao_arts.c\<close>, \<open>workarounds_save\<close> of \<^verbatim>\<open>ao_roar.c\<close>) and
  whether the process ignores \<open>SIGPIPE\<close>.
\<close>

record posix = world +
  p_answer :: "call list \<Rightarrow> call \<Rightarrow> reply"
  p_calls :: "call list"
  p_environ :: "(string \<times> bool) list"
  p_arts_open_count :: int
  p_arts_mutex :: bool
  p_sigpipe_ignored :: bool
  p_roar_workarounds :: int

definition ask :: "call \<Rightarrow> 'z posix_scheme \<Rightarrow> reply \<times> 'z posix_scheme" where
  "ask c w =
     (let r = p_answer w (p_calls w) c
      in (r, w\<lparr>p_calls := p_calls w @ [c], w_errno := (if rp_ret r < 0 then rp_errno r else w_errno w)\<rparr>))"

definition ask_ret :: "call \<Rightarrow> 'z posix_scheme \<Rightarrow> int \<times> 'z posix_scheme" where
  "ask_ret c w = (case ask c w of (r, w) \<Rightarrow> (rp_ret r, w))"

lemma ask_sel [simp]:
  "w_live (snd (ask c w)) = w_live w" "w_allocs (snd (ask c w)) = w_allocs w"
  "w_live (snd (ask_ret c w)) = w_live w" "w_allocs (snd (ask_ret c w)) = w_allocs w"
  "p_answer (snd (ask c w)) = p_answer w" "p_answer (snd (ask_ret c w)) = p_answer w"
  "p_calls (snd (ask c w)) = p_calls w @ [c]" "p_calls (snd (ask_ret c w)) = p_calls w @ [c]"
  by (simp_all add: ask_ret_def ask_def)

text \<open>
  A variable with the value \<open>old\<close> that a call gets by address holds \<open>rp_out\<close> of the answer
  afterwards, unless \<open>rp_aux\<close> says, by not being 0, that the call left it alone.
\<close>

definition left_in :: "int \<Rightarrow> reply \<Rightarrow> int" where
  "left_in old r = (if rp_aux r = 0 then rp_out r else old)"

text \<open>From one world to another only calls were made.\<close>

definition calls_only :: "'z posix_scheme \<Rightarrow> 'z posix_scheme \<Rightarrow> bool" where
  "calls_only w w' \<longleftrightarrow>
     (\<exists>cs e. w' = w\<lparr>p_calls := p_calls w @ cs, w_errno := e\<rparr>)"

lemma calls_only_refl [simp, intro]: "calls_only w w"
  unfolding calls_only_def by (rule exI [of _ "[]"], rule exI [of _ "w_errno w"]) simp

lemma calls_only_trans: "calls_only u v \<Longrightarrow> calls_only v w \<Longrightarrow> calls_only u w"
  by (fastforce simp: calls_only_def)

lemma calls_only_errno: "calls_only w (set_errno e w)"
  unfolding calls_only_def set_errno_def by (rule exI [of _ "[]"], rule exI [of _ e]) simp

lemma calls_only_ask [simp, intro]: "calls_only w (snd (ask c w))"
  unfolding calls_only_def ask_def
  by (intro exI [of _ "[c]"]
      exI [of _ "if rp_ret (p_answer w (p_calls w) c) < 0 then rp_errno (p_answer w (p_calls w) c) else w_errno w"])
     simp

lemma ask_calls: "ask c w = (r, w') \<Longrightarrow> calls_only w w'"
  using calls_only_ask [of w c] by simp

lemma ask_ret_calls: "ask_ret c w = (r, w') \<Longrightarrow> calls_only w w'"
  by (auto simp: ask_ret_def ask_calls split: prod.splits)

lemma ask_ret_p_calls: "ask_ret c w = (r, w') \<Longrightarrow> p_calls w' = p_calls w @ [c]"
  by (auto simp: ask_ret_def ask_def)

lemma calls_only_sel:
  assumes "calls_only w w'"
  shows "w_live w' = w_live w" "w_allocs w' = w_allocs w" "w_big_endian w' = w_big_endian w"
    "w_streams w' = w_streams w" "p_answer w' = p_answer w" "p_environ w' = p_environ w"
  using assms by (auto simp: calls_only_def)

lemma ask_ret_snd_calls [simp]: "calls_only w (snd (ask_ret c w))"
  using ask_ret_calls [of c w, OF surjective_pairing] .

lemma calls_only_after:
  "calls_only w u \<Longrightarrow> calls_only w (snd (ask c u))" "calls_only w u \<Longrightarrow> calls_only w (snd (ask_ret c u))"
  by (rule calls_only_trans [OF _ calls_only_ask], assumption) (rule calls_only_trans [OF _ ask_ret_snd_calls])

lemma ask_ret_calm: "ask_ret c w = (r, v) \<Longrightarrow> w_live v = w_live w \<and> w_allocs v = w_allocs w"
  using calls_only_sel [OF ask_ret_calls] by blast

lemma calls_only_books: "calls_only w w' \<Longrightarrow> books 0 blk d w d w'"
  by (simp add: books_def calls_only_sel)

section \<open>The C library\<close>

definition EINTR :: int where "EINTR = 4"
definition EAGAIN :: int where "EAGAIN = 11"
definition EINVAL :: int where "EINVAL = 22"
definition ENOENT :: int where "ENOENT = 2"
definition EPIPE :: int where "EPIPE = 32"
definition ESTRPIPE :: int where "ESTRPIPE = 86"

lemmas posix_errnos = EINTR_def EAGAIN_def EINVAL_def ENOENT_def EPIPE_def ESTRPIPE_def

definition digit_value :: "char \<Rightarrow> int option" where
  "digit_value c =
     (if 48 \<le> (of_char c :: int) \<and> (of_char c :: int) \<le> 57 then Some (of_char c - 48) else None)"

fun atoi_digits :: "int \<Rightarrow> string \<Rightarrow> int" where
  "atoi_digits n [] = n"
| "atoi_digits n (c # cs) =
     (case digit_value c of None \<Rightarrow> n | Some k \<Rightarrow> atoi_digits (10 * n + k) cs)"

text \<open>\<open>atoi\<close>; a value that is no \<open>int\<close> is undefined, a fault.\<close>

definition atoi :: "string \<Rightarrow> int option" where
  "atoi s = (case skip_space s of
      CHR ''-'' # cs \<Rightarrow> c_int (- atoi_digits 0 cs)
    | CHR ''+'' # cs \<Rightarrow> c_int (atoi_digits 0 cs)
    | cs \<Rightarrow> c_int (atoi_digits 0 cs))"

text \<open>A letter in lower case.\<close>

definition to_lower :: "char \<Rightarrow> char" where
  "to_lower c = (if 65 \<le> (of_char c :: nat) \<and> (of_char c :: nat) \<le> 90 then char_of ((of_char c :: nat) + 32) else c)"

text \<open>The format \<open>%d\<close>.\<close>

fun decimal_nat :: "nat \<Rightarrow> string" where
  "decimal_nat n =
     (if n < 10 then [char_of (48 + n)] else decimal_nat (n div 10) @ [char_of (48 + n mod 10)])"

declare decimal_nat.simps [simp del]

definition decimal :: "int \<Rightarrow> string" where
  "decimal n = (if n < 0 then CHR ''-'' # decimal_nat (nat (- n)) else decimal_nat (nat n))"

text \<open>\<open>getenv(name)\<close>: what follows \<open>name=\<close> in the first string that starts so.\<close>

fun getenv_in :: "string \<Rightarrow> (string \<times> bool) list \<Rightarrow> string option" where
  "getenv_in name [] = None"
| "getenv_in name ((s, h) # es) =
     (if take (length name + 1) s = name @ ''='' then Some (drop (length name + 1) s)
      else getenv_in name es)"

definition getenv :: "string \<Rightarrow> 'z posix_scheme \<Rightarrow> string option" where
  "getenv name w = getenv_in name (p_environ w)"

section \<open>The internal structures of the live drivers\<close>

definition oss_state :: "live_device \<Rightarrow> ao_oss_internal option" where
  "oss_state d = (case internal d of Some (Plugin_internal (Oss_internal i)) \<Rightarrow> Some i | _ \<Rightarrow> None)"

definition sun_state :: "live_device \<Rightarrow> ao_sun_internal option" where
  "sun_state d = (case internal d of Some (Plugin_internal (Sun_internal i)) \<Rightarrow> Some i | _ \<Rightarrow> None)"

definition esd_state :: "live_device \<Rightarrow> ao_esd_internal option" where
  "esd_state d = (case internal d of Some (Plugin_internal (Esd_internal i)) \<Rightarrow> Some i | _ \<Rightarrow> None)"

definition sndio_state :: "live_device \<Rightarrow> ao_sndio_internal option" where
  "sndio_state d = (case internal d of Some (Plugin_internal (Sndio_internal i)) \<Rightarrow> Some i | _ \<Rightarrow> None)"

definition arts_state :: "live_device \<Rightarrow> ao_arts_internal option" where
  "arts_state d = (case internal d of Some (Plugin_internal (Arts_internal i)) \<Rightarrow> Some i | _ \<Rightarrow> None)"

definition nas_state :: "live_device \<Rightarrow> ao_nas_internal option" where
  "nas_state d = (case internal d of Some (Plugin_internal (Nas_internal i)) \<Rightarrow> Some i | _ \<Rightarrow> None)"

definition irix_state :: "live_device \<Rightarrow> ao_irix_internal option" where
  "irix_state d = (case internal d of Some (Plugin_internal (Irix_internal i)) \<Rightarrow> Some i | _ \<Rightarrow> None)"

definition pulse_state :: "live_device \<Rightarrow> ao_pulse_internal option" where
  "pulse_state d = (case internal d of Some (Plugin_internal (Pulse_internal i)) \<Rightarrow> Some i | _ \<Rightarrow> None)"

definition roar_state :: "live_device \<Rightarrow> ao_roar_internal option" where
  "roar_state d = (case internal d of Some (Plugin_internal (Roar_internal i)) \<Rightarrow> Some i | _ \<Rightarrow> None)"

definition alsa_state :: "live_device \<Rightarrow> ao_alsa_internal option" where
  "alsa_state d = (case internal d of Some (Plugin_internal (Alsa_internal i)) \<Rightarrow> Some i | _ \<Rightarrow> None)"

definition macosx_state :: "live_device \<Rightarrow> ao_macosx_internal option" where
  "macosx_state d = (case internal d of Some (Plugin_internal (Macosx_internal i)) \<Rightarrow> Some i | _ \<Rightarrow> None)"

definition wmm_state :: "live_device \<Rightarrow> ao_wmm_internal option" where
  "wmm_state d = (case internal d of Some (Plugin_internal (Wmm_internal i)) \<Rightarrow> Some i | _ \<Rightarrow> None)"

abbreviation set_oss :: "ao_oss_internal \<Rightarrow> live_device \<Rightarrow> live_device" where
  "set_oss i d \<equiv> d\<lparr>internal := Some (Plugin_internal (Oss_internal i))\<rparr>"

abbreviation set_sun :: "ao_sun_internal \<Rightarrow> live_device \<Rightarrow> live_device" where
  "set_sun i d \<equiv> d\<lparr>internal := Some (Plugin_internal (Sun_internal i))\<rparr>"

abbreviation set_esd :: "ao_esd_internal \<Rightarrow> live_device \<Rightarrow> live_device" where
  "set_esd i d \<equiv> d\<lparr>internal := Some (Plugin_internal (Esd_internal i))\<rparr>"

abbreviation set_sndio :: "ao_sndio_internal \<Rightarrow> live_device \<Rightarrow> live_device" where
  "set_sndio i d \<equiv> d\<lparr>internal := Some (Plugin_internal (Sndio_internal i))\<rparr>"

abbreviation set_arts :: "ao_arts_internal \<Rightarrow> live_device \<Rightarrow> live_device" where
  "set_arts i d \<equiv> d\<lparr>internal := Some (Plugin_internal (Arts_internal i))\<rparr>"

abbreviation set_nas :: "ao_nas_internal \<Rightarrow> live_device \<Rightarrow> live_device" where
  "set_nas i d \<equiv> d\<lparr>internal := Some (Plugin_internal (Nas_internal i))\<rparr>"

abbreviation set_irix :: "ao_irix_internal \<Rightarrow> live_device \<Rightarrow> live_device" where
  "set_irix i d \<equiv> d\<lparr>internal := Some (Plugin_internal (Irix_internal i))\<rparr>"

abbreviation set_pulse :: "ao_pulse_internal \<Rightarrow> live_device \<Rightarrow> live_device" where
  "set_pulse i d \<equiv> d\<lparr>internal := Some (Plugin_internal (Pulse_internal i))\<rparr>"

abbreviation set_roar :: "ao_roar_internal \<Rightarrow> live_device \<Rightarrow> live_device" where
  "set_roar i d \<equiv> d\<lparr>internal := Some (Plugin_internal (Roar_internal i))\<rparr>"

abbreviation set_alsa :: "ao_alsa_internal \<Rightarrow> live_device \<Rightarrow> live_device" where
  "set_alsa i d \<equiv> d\<lparr>internal := Some (Plugin_internal (Alsa_internal i))\<rparr>"

abbreviation set_macosx :: "ao_macosx_internal \<Rightarrow> live_device \<Rightarrow> live_device" where
  "set_macosx i d \<equiv> d\<lparr>internal := Some (Plugin_internal (Macosx_internal i))\<rparr>"

abbreviation set_wmm :: "ao_wmm_internal \<Rightarrow> live_device \<Rightarrow> live_device" where
  "set_wmm i d \<equiv> d\<lparr>internal := Some (Plugin_internal (Wmm_internal i))\<rparr>"

lemma plugin_state_iff:
  "oss_state d = Some i \<longleftrightarrow> internal d = Some (Plugin_internal (Oss_internal i))"
  "sun_state d = Some j \<longleftrightarrow> internal d = Some (Plugin_internal (Sun_internal j))"
  "esd_state d = Some k \<longleftrightarrow> internal d = Some (Plugin_internal (Esd_internal k))"
  "sndio_state d = Some l \<longleftrightarrow> internal d = Some (Plugin_internal (Sndio_internal l))"
  "arts_state d = Some m \<longleftrightarrow> internal d = Some (Plugin_internal (Arts_internal m))"
  "nas_state d = Some n \<longleftrightarrow> internal d = Some (Plugin_internal (Nas_internal n))"
  "irix_state d = Some p \<longleftrightarrow> internal d = Some (Plugin_internal (Irix_internal p))"
  "pulse_state d = Some q \<longleftrightarrow> internal d = Some (Plugin_internal (Pulse_internal q))"
  "roar_state d = Some r \<longleftrightarrow> internal d = Some (Plugin_internal (Roar_internal r))"
  "alsa_state d = Some a \<longleftrightarrow> internal d = Some (Plugin_internal (Alsa_internal a))"
  "macosx_state d = Some b \<longleftrightarrow> internal d = Some (Plugin_internal (Macosx_internal b))"
  "wmm_state d = Some c \<longleftrightarrow> internal d = Some (Plugin_internal (Wmm_internal c))"
  by (auto simp: oss_state_def sun_state_def esd_state_def sndio_state_def
      arts_state_def nas_state_def irix_state_def pulse_state_def roar_state_def alsa_state_def
      macosx_state_def wmm_state_def split: option.splits ao_internal.splits plugin_internal.splits)

lemma plugin_state_cong [simp]:
  "oss_state (set_oss i d) = Some i" "sun_state (set_sun j d) = Some j"
  "esd_state (set_esd k d) = Some k" "sndio_state (set_sndio l d) = Some l"
  "arts_state (set_arts m d) = Some m" "nas_state (set_nas n d) = Some n" "irix_state (set_irix p d) = Some p"
  "pulse_state (set_pulse q d) = Some q" "roar_state (set_roar r d) = Some r"
  "alsa_state (set_alsa a d) = Some a" "macosx_state (set_macosx b d) = Some b"
  "wmm_state (set_wmm c d) = Some c"
  by (simp_all add: plugin_state_iff)

text \<open>
  The end of \<open>open\<close> in the drivers that send stereo at most: without a matrix, and with one or
  two channels, the backend's channels are \<open>L,R\<close>.
\<close>

definition stereo_matrix :: "'p ao_device \<Rightarrow> 'z world_scheme \<Rightarrow> 'p ao_device \<times> 'z world_scheme" where
  "stereo_matrix d w =
     (if inter_matrix d = None \<and> output_channels d \<le> 2
      then (case strdup ''L,R'' w of (m, w) \<Rightarrow> (d\<lparr>inter_matrix := m\<rparr>, w)) else (d, w))"

lemma stereo_matrix_law:
  assumes "stereo_matrix d w = (d', w')"
  shows "books 0 blk d w d' w' \<and> core_frame d d' \<and> internal d' = internal d"
  using assms
  by (auto simp: stereo_matrix_def books_def ledger core_frame_def heap_step_def
      split: if_splits prod.splits dest!: strdup_heap)

text \<open>\<open>held n w w'\<close>: \<open>n\<close> more blocks are live.\<close>

definition held :: "int \<Rightarrow> 'z world_scheme \<Rightarrow> 'z world_scheme \<Rightarrow> bool" where
  "held n w w' \<longleftrightarrow> w_live w' = w_live w + n \<and> (w_allocs w = [] \<longrightarrow> w_allocs w' = [])"

lemma held_strdup: "strdup s w = (r, w') \<Longrightarrow> held (blocks r) w w'"
  by (auto simp: held_def heap_step_def dest: strdup_heap)

lemma calls_only_held: "calls_only w w' \<Longrightarrow> held 0 w w'"
  by (simp add: held_def calls_only_sel)

lemma held_trans: "held m u v \<Longrightarrow> held n v w \<Longrightarrow> held (m + n) u w"
  by (simp add: held_def)

lemma load_prefix:
  assumes "load k xs 0 = Some bs"
  shows "bs = take k xs" "length bs = k" "k \<le> length xs"
  using assms by (auto simp: load_def split: if_splits)

text \<open>A driver that replaces its structure and gets or gives back the strings by which the two differ.\<close>

lemma books_replace:
  assumes "internal d = Some (Plugin_internal p)" and "held (plugin_extra q - plugin_extra p) w w'"
  shows "books 0 plugin_blocks d w (d\<lparr>internal := Some (Plugin_internal q)\<rparr>) w'"
  using assms by (auto simp: books_def held_def ledger)

text \<open>An option that replaces one of the strings of a structure.\<close>

lemma replaced_string:
  assumes "internal d = Some (Plugin_internal p)" and "strdup v (free_opt old w) = (s, w')"
    and "plugin_extra q = plugin_extra p - blocks old + blocks s"
  shows "books 0 plugin_blocks d w (d\<lparr>internal := Some (Plugin_internal q)\<rparr>) w'"
proof (rule books_replace [OF assms(1)])
  have "heap_step (blocks s) (free_opt old w) w'" using strdup_heap [OF assms(2)] by blast
  from heap_step_trans [OF free_opt_heap this] show "held (plugin_extra q - plugin_extra p) w w'"
    using assms(3) by (simp add: held_def heap_step_def)
qed

lemma frame_internal [simp]:
  "core_frame d (d\<lparr>internal := x\<rparr>)" "setup_frame d (d\<lparr>internal := x\<rparr>)"
  "core_frame d (d\<lparr>driver_byte_format := y\<rparr>)" "setup_frame d (d\<lparr>driver_byte_format := y\<rparr>)"
  by (simp_all add: core_frame_def setup_frame_def)

text \<open>A driver's first structure.\<close>

lemma books_first:
  assumes "internal d = None" and "held (1 + plugin_extra q) w w'"
  shows "books 0 plugin_blocks d w (d\<lparr>internal := Some (Plugin_internal q)\<rparr>) w'"
  using assms by (auto simp: books_def held_def ledger)

lemma sint32_of_int: "-2147483648 \<le> n \<Longrightarrow> n < 2147483648 \<Longrightarrow> sint (word_of_int n :: 32 word) = n"
  by (simp add: signed_of_int signed_take_bit_int_eq_self)

lemma sint_nonneg: "0 \<le> sint (x :: 32 word) \<Longrightarrow> nat (sint x) = unat x"
  using sint_less [of x] take_bit_int_eq_self [of "sint x" 32]
  by (simp add: unat_eq_nat_uint uint_sint)

lemma sint_small:
  assumes "unat (x :: 32 word) < 2 ^ 31"
  shows "sint x = int (unat x)"
proof -
  have "unat x \<le> 2147483647" using assms by simp
  then have "int (unat x) \<le> int 2147483647" by (simp only: of_nat_le_iff)
  then have "int (unat x) \<le> INT_MAX" unfolding INT_MAX_def by linarith
  from sint_of_nat32 [OF this] show ?thesis by (simp only: word_unat_eq_iff of_nat_unat ucast_id)
qed

lemma sint_large:
  assumes "2 ^ 31 \<le> unat (x :: 32 word)"
  shows "sint x < 0"
proof (rule ccontr)
  assume "\<not> sint x < 0"
  then have "0 \<le> sint x" "nat (sint x) = unat x" using sint_nonneg [of x] by simp_all
  then have "2 ^ 31 \<le> sint x" using assms by (simp add: le_nat_iff)
  moreover have "sint x < 2 ^ 31" using sint_less [of x] by simp
  ultimately show False by simp
qed

lemma unat_minus_written:
  assumes "0 \<le> r" and "nat r \<le> unat (k :: 32 word)"
  shows "unat (k - word_of_int r) = unat k - nat r"
proof -
  have "(word_of_int r :: 32 word) = of_nat (nat r)" using assms(1) by simp
  moreover have "unat k < 2 ^ LENGTH(32)" by (rule unsigned_less)
  then have "unat (of_nat (nat r) :: 32 word) = nat r" using assms(2) by (simp add: unat_of_nat)
  ultimately show ?thesis using assms(2) by (simp add: unat_sub word_le_nat_alt)
qed

lemma unat_minus_written_nat:
  "n \<le> unat (k :: 32 word) \<Longrightarrow> unat (k - word_of_int (int n)) = unat k - n"
  using unat_minus_written [of "int n" k] by simp

section \<open>What reaches a descriptor\<close>

text \<open>The bytes that the writes on \<open>fd\<close> among \<open>cs\<close> delivered, the calls \<open>h\<close> having come before.\<close>

fun delivered_from :: "(call list \<Rightarrow> call \<Rightarrow> reply) \<Rightarrow> int \<Rightarrow> call list \<Rightarrow> call list \<Rightarrow> byte list" where
  "delivered_from ans fd h [] = []"
| "delivered_from ans fd h (c # cs) =
     (case c of Write f bs \<Rightarrow> if f = fd then take (nat (rp_ret (ans h c))) bs else [] | _ \<Rightarrow> []) @
     delivered_from ans fd (h @ [c]) cs"

definition delivered :: "int \<Rightarrow> 'z posix_scheme \<Rightarrow> byte list" where
  "delivered fd w = delivered_from (p_answer w) fd [] (p_calls w)"

lemma delivered_from_append:
  "delivered_from ans fd h (cs @ cs') = delivered_from ans fd h cs @ delivered_from ans fd (h @ cs) cs'"
  by (induction cs arbitrary: h) auto

lemma delivered_write:
  assumes "ask_ret (Write fd bs) w = (r, w')"
  shows "delivered fd w' = delivered fd w @ take (nat r) bs"
  using assms by (auto simp: ask_ret_def ask_def delivered_def delivered_from_append)

text \<open>
  What the loops rely on.  \<open>write_bounds\<close>: a write takes no more than it is given.  \<open>patient\<close>:
  in any history, a write that is repeated because it was interrupted or took nothing is not so
  more than some number of times.
\<close>

definition write_bounds :: "(call list \<Rightarrow> call \<Rightarrow> reply) \<Rightarrow> int \<Rightarrow> bool" where
  "write_bounds ans fd \<longleftrightarrow> (\<forall>h bs. rp_ret (ans h (Write fd bs)) \<le> int (length bs))"

definition stalls :: "int set \<Rightarrow> reply \<Rightarrow> bool" where
  "stalls again r \<longleftrightarrow> rp_ret r = 0 \<or> (rp_ret r < 0 \<and> rp_errno r \<in> again)"

definition patient :: "int set \<Rightarrow> (call list \<Rightarrow> call \<Rightarrow> reply) \<Rightarrow> int \<Rightarrow> bool" where
  "patient again ans fd \<longleftrightarrow> (\<exists>k. \<forall>h bs. bs \<noteq> [] \<longrightarrow>
     (\<exists>j \<le> k. \<not> stalls again (ans (h @ replicate j (Write fd bs)) (Write fd bs))))"

text \<open>A write fails for good only with an error that is not in \<open>again\<close>.\<close>

definition never_fails :: "int set \<Rightarrow> (call list \<Rightarrow> call \<Rightarrow> reply) \<Rightarrow> int \<Rightarrow> bool" where
  "never_fails again ans fd \<longleftrightarrow>
     (\<forall>h bs. rp_ret (ans h (Write fd bs)) < 0 \<longrightarrow> rp_errno (ans h (Write fd bs)) \<in> again)"

text \<open>A descriptor that takes everything in the end.\<close>

definition reliable :: "int set \<Rightarrow> (call list \<Rightarrow> call \<Rightarrow> reply) \<Rightarrow> int \<Rightarrow> bool" where
  "reliable again ans fd \<longleftrightarrow> patient again ans fd \<and> write_bounds ans fd \<and> never_fails again ans fd"

lemma write_boundsD:
  "write_bounds (p_answer w) fd \<Longrightarrow> ask_ret (Write fd bs) w = (r, w') \<Longrightarrow> r \<le> int (length bs)"
  by (auto simp: write_bounds_def ask_ret_def ask_def)

text \<open>After the stalls of a write comes one that makes progress or fails for good.\<close>

lemma patient_least:
  assumes "patient again ans fd" and "bs \<noteq> []"
  obtains j where "\<not> stalls again (ans (h @ replicate j (Write fd bs)) (Write fd bs))"
    "\<And>i. i < j \<Longrightarrow> stalls again (ans (h @ replicate i (Write fd bs)) (Write fd bs))"
proof -
  let ?P = "\<lambda>j. \<not> stalls again (ans (h @ replicate j (Write fd bs)) (Write fd bs))"
  from assms have ex: "\<exists>j. ?P j" by (auto simp: patient_def)
  from LeastI_ex [OF ex] not_less_Least [of _ ?P] that [of "LEAST j. ?P j"] show ?thesis by blast
qed

text \<open>The induction for a loop that repeats a write that stalls: until the first that does not.\<close>

lemma patient_induct [consumes 2, case_names stall go]:
  fixes w :: "'z posix_scheme"
  assumes p: "patient again (p_answer w) fd" and bs: "bs \<noteq> []"
    and stall: "\<And>u r v. p_answer u = p_answer w \<Longrightarrow> ask (Write fd bs) u = (r, v) \<Longrightarrow> stalls again r \<Longrightarrow> P v \<Longrightarrow> P u"
    and go: "\<And>u r v. p_answer u = p_answer w \<Longrightarrow> ask (Write fd bs) u = (r, v) \<Longrightarrow> \<not> stalls again r \<Longrightarrow> P u"
  shows "P w"
proof -
  obtain j where j: "\<not> stalls again (p_answer w (p_calls w @ replicate j (Write fd bs)) (Write fd bs))"
    "\<And>i. i < j \<Longrightarrow> stalls again (p_answer w (p_calls w @ replicate i (Write fd bs)) (Write fd bs))"
    using patient_least [OF p bs] by blast
  have "P u" if "p_answer u = p_answer w" "p_calls u = p_calls w @ replicate i (Write fd bs)" "i \<le> j" for u i
    using that
  proof (induction "j - i" arbitrary: u i)
    case 0
    then have "i = j" by simp
    obtain r v where a: "ask (Write fd bs) u = (r, v)" by fastforce
    then have "\<not> stalls again r" using 0 \<open>i = j\<close> j(1) by (auto simp: ask_def)
    with go [OF "0.prems"(1) a] show ?case .
  next
    case (Suc n)
    then have lt: "i < j" "n = j - Suc i" by simp_all
    obtain r v where a: "ask (Write fd bs) u = (r, v)" by fastforce
    then have v: "p_answer v = p_answer w" "p_calls v = p_calls w @ replicate (Suc i) (Write fd bs)"
      using Suc.prems by (auto simp: ask_def replicate_append_same)
    have "stalls again r" using a Suc.prems j(2) [OF lt(1)] by (auto simp: ask_def)
    from stall [OF Suc.prems(1) a this Suc.hyps(1) [OF lt(2) v]] lt(1) show ?case by simp
  qed
  from this [of w 0] show ?thesis by simp
qed

text \<open>
  The same for a library's own write calls: \<open>pick\<close> tells which calls offer bytes to the stream in
  question.
\<close>

fun taken_from ::
  "(call \<Rightarrow> byte list option) \<Rightarrow> (call list \<Rightarrow> call \<Rightarrow> reply) \<Rightarrow> call list \<Rightarrow> call list \<Rightarrow> byte list" where
  "taken_from pick ans h [] = []"
| "taken_from pick ans h (c # cs) =
     (case pick c of None \<Rightarrow> [] | Some bs \<Rightarrow> take (nat (rp_ret (ans h c))) bs) @ taken_from pick ans (h @ [c]) cs"

definition taken :: "(call \<Rightarrow> byte list option) \<Rightarrow> 'z posix_scheme \<Rightarrow> byte list" where
  "taken pick w = taken_from pick (p_answer w) [] (p_calls w)"

lemma taken_from_append:
  "taken_from pick ans h (cs @ cs') = taken_from pick ans h cs @ taken_from pick ans (h @ cs) cs'"
  by (induction cs arbitrary: h) auto

lemma taken_ask:
  assumes "ask_ret c w = (r, w')"
  shows "taken pick w' = taken pick w @ (case pick c of None \<Rightarrow> [] | Some bs \<Rightarrow> take (nat r) bs)"
  using assms by (auto simp: ask_ret_def ask_def taken_def taken_from_append)

lemma taken_cong: "p_answer v = p_answer w \<Longrightarrow> p_calls v = p_calls w \<Longrightarrow> taken pick v = taken pick w"
  by (simp add: taken_def)

text \<open>
  How often in a row something was put off: \<open>kind\<close> says of a call and its answer that it is of
  another kind, that it puts off, or that it does not.
\<close>

fun streak_from ::
  "(call \<Rightarrow> reply \<Rightarrow> bool option) \<Rightarrow> (call list \<Rightarrow> call \<Rightarrow> reply) \<Rightarrow> call list \<Rightarrow> call list \<Rightarrow> nat \<Rightarrow> nat" where
  "streak_from kind ans h [] k = k"
| "streak_from kind ans h (c # cs) k = streak_from kind ans (h @ [c]) cs
     (case kind c (ans h c) of None \<Rightarrow> k | Some True \<Rightarrow> Suc k | Some False \<Rightarrow> 0)"

definition streak :: "(call \<Rightarrow> reply \<Rightarrow> bool option) \<Rightarrow> 'z posix_scheme \<Rightarrow> nat" where
  "streak kind w = streak_from kind (p_answer w) [] (p_calls w) 0"

lemma streak_from_append:
  "streak_from kind ans h (cs @ cs') k = streak_from kind ans (h @ cs) cs' (streak_from kind ans h cs k)"
  by (induction cs arbitrary: h k) simp_all

text \<open>No more than \<open>K\<close> times in a row.\<close>

definition at_most_in_a_row :: "nat \<Rightarrow> (call \<Rightarrow> reply \<Rightarrow> bool option) \<Rightarrow> (call list \<Rightarrow> call \<Rightarrow> reply) \<Rightarrow> bool" where
  "at_most_in_a_row K kind ans \<longleftrightarrow> (\<forall>h c. kind c (ans h c) = Some True \<longrightarrow> streak_from kind ans [] h 0 < K)"

lemma streak_ask:
  assumes "ask c w = (r, v)"
  shows "p_answer v = p_answer w"
    "streak kind v = (case kind c r of None \<Rightarrow> streak kind w | Some True \<Rightarrow> Suc (streak kind w) | Some False \<Rightarrow> 0)"
    "at_most_in_a_row K kind (p_answer w) \<Longrightarrow> kind c r = Some True \<Longrightarrow> streak kind w < K"
  using assms
  by (auto simp: ask_def Let_def streak_def streak_from_append at_most_in_a_row_def
      split: option.splits bool.splits)

end
