(* ===== verification/AO_Demo.thy ===== *)
theory AO_Demo
  imports AO_Session AO_Posix
begin

text \<open>
  Concrete inputs on which the properties of the development are applied: a machine, the library
  with the four static drivers, formats and devices, with the facts about them that the properties
  ask for.
\<close>

section \<open>A machine, the library, a format\<close>

definition stdout_stream :: stream where
  "stdout_stream = \<lparr>s_data = [], s_pos = 0, s_open = True, s_seekable = False, s_limit = None\<rparr>"

text \<open>A little-endian machine on which every file can be created; \<open>allocs\<close> are the coming allocations.\<close>

definition demo_world :: "bool list \<Rightarrow> world" where
  "demo_world allocs =
     \<lparr>w_allocs = allocs, w_live = 0, w_junk = 0xAA, w_errno = 0, w_big_endian = False,
      w_disk = (\<lambda>_. None), w_creat = (\<lambda>_. Some None), w_streams = [stdout_stream]\<rparr>"

definition demo_drivers :: "(unit ao_internal, world) ao_driver_entry list" where
  "demo_drivers = map (\<lambda>f. \<lparr>drv_functions = f, drv_handle = None\<rparr>) static_drivers"

definition demo_lib :: "(unit ao_internal, world) ao_lib" where
  "demo_lib =
     \<lparr>driver_head = demo_drivers, config = \<lparr>default_driver = None\<rparr>,
      info_table = Some (map info_of demo_drivers), driver_count = 4, global_dummy = Some 0,
      global_options = []\<rparr>"

definition demo_driver :: "nat \<Rightarrow> (unit ao_internal, world) ao_driver_entry" where
  "demo_driver k = demo_drivers ! k"

definition cd_format :: ao_sample_format where
  "cd_format = \<lparr>fmt_bits = 16, fmt_rate = 44100, fmt_channels = 2, fmt_byte_format = AO_FMT_BIG, fmt_matrix = None\<rparr>"

lemma demo_get_driver:
  "get_driver 0 demo_lib = Some (demo_driver 0)" "get_driver 1 demo_lib = Some (demo_driver 1)"
  "get_driver 2 demo_lib = Some (demo_driver 2)" "get_driver 3 demo_lib = Some (demo_driver 3)"
  by (simp_all add: get_driver_eq demo_lib_def demo_drivers_def static_drivers_def demo_driver_def)

lemma demo_functions:
  "drv_functions (demo_driver 0) = ao_null" "drv_functions (demo_driver 1) = ao_wav"
  "drv_functions (demo_driver 2) = ao_raw" "drv_functions (demo_driver 3) = ao_au"
  by (simp_all add: demo_driver_def demo_drivers_def static_drivers_def)

lemma demo_facts:
  "global_options demo_lib = []" "plain_format cd_format" "creatable ''out'' True (demo_world [])"
  "\<forall>(n, samples) \<in> set [(1, [1, 2, 3, 4])]. fits_format cd_format n samples"
  "fmt_bits cd_format = 8 \<or> fmt_bits cd_format = 16"
  "fmt_channels cd_format < 2 ^ 16" "0 \<le> fmt_rate cd_format" "fmt_rate cd_format < 2 ^ 31"
  by (simp_all add: demo_lib_def cd_format_def plain_format_def creatable_def demo_world_def
      fits_format_def width_def INT_MAX_def)

text \<open>Stereo in, one backend channel, fed by the right input channel, with the bytes swapped.\<close>

definition demo_device :: "unit ao_internal ao_device" where
  "demo_device = (fresh_device 0 (ao_null :: (unit ao_internal, world) ao_functions) cd_format None False)
     \<lparr>input_channels := 2, output_channels := 1, bytewidth := 2, driver_byte_format := AO_FMT_LITTLE,
      swap_buffer := Some (replicate 8 0), swap_buffer_size := 8, inter_permute := Some [1]\<rparr>"

lemma demo_device_facts:
  "well_routed demo_device" "playable demo_device 1 [1, 2, 3, 4]" "buffer_ok demo_device"
  "swap_buffer demo_device \<noteq> None" "w_allocs (demo_world []) = []"
  "routed demo_device 1 [1, 2, 3, 4] = [4, 3]"
  by (simp_all add: demo_device_def fresh_device_def well_routed_def playable_def frames_fit_def
      buffer_ok_def demo_world_def INT_MAX_def routed_def routed_sample_def route_def needs_swap_def
      cd_format_def sample_def ao_fmts)

section \<open>A system\<close>

text \<open>
  A system whose devices open as 3 and whose writes are hard to use: every other call that is a
  write is interrupted, the others take at most three bytes.
\<close>

definition demo_answer :: "call list \<Rightarrow> call \<Rightarrow> reply" where
  "demo_answer h c = (case c of
      Write _ bs \<Rightarrow> if even (length h) then number_reply (-1) 0 EINTR
                   else number_reply (int (min 3 (length bs))) 0 0
    | Open _ _ \<Rightarrow> number_reply 3 0 0
    | Ioctl _ _ x \<Rightarrow> number_reply 0 x 0
    | _ \<Rightarrow> number_reply 1 0 0)"

definition demo_posix :: "(call list \<Rightarrow> call \<Rightarrow> reply) \<Rightarrow> bool list \<Rightarrow> posix" where
  "demo_posix ans allocs =
     \<lparr>w_allocs = allocs, w_live = 0, w_junk = 0xAA, w_errno = 0, w_big_endian = False,
      w_disk = (\<lambda>_. None), w_creat = (\<lambda>_. Some None), w_streams = [stdout_stream],
      p_answer = ans, p_calls = [], p_environ = [(''HOME=/root'', False)],
      p_arts_open_count = 0, p_arts_mutex = False, p_sigpipe_ignored = False, p_roar_workarounds = 0\<rparr>"

lemma demo_answer_bounds: "write_bounds demo_answer fd"
  by (simp add: write_bounds_def demo_answer_def)

lemma demo_answer_patient: "EINTR \<in> again \<Longrightarrow> patient again demo_answer fd"
  unfolding patient_def
proof (rule exI [of _ 1], intro allI impI)
  fix h :: "call list" and bs :: "byte list"
  assume a: "EINTR \<in> again" and "bs \<noteq> []"
  show "\<exists>j \<le> 1. \<not> stalls again (demo_answer (h @ replicate j (Write fd bs)) (Write fd bs))"
    by (rule exI [of _ "if even (length h) then 1 else 0"])
       (use \<open>bs \<noteq> []\<close> in \<open>auto simp: stalls_def demo_answer_def\<close>)
qed

end
