(* ===== verification/AO_Double.thy ===== *)
theory AO_Double
  imports Complex_Main "HOL-Library.Log_Nat"
begin

text \<open>
  The arithmetic of C's \<open>double\<close>, as far as the drivers use it: rounding to 53 binary digits, and how
  far the rounded number is off.
\<close>

section \<open>Rounding\<close>

text \<open>
  \<open>double_round x\<close> is the number of 53 binary digits nearest to \<open>x\<close>, the one with an even last
  digit when two are as near.  An operation on \<open>double\<close> gives the rounded exact result; the numbers
  here are far from the smallest and the largest exponent.
\<close>

definition round_even :: "rat \<Rightarrow> int" where
  "round_even x = (let n = \<lfloor>x\<rfloor>; r = x - of_int n
     in if r < 1/2 then n else if r > 1/2 then n + 1 else if even n then n else n + 1)"

definition rat_power2 :: "int \<Rightarrow> rat" where
  "rat_power2 e = (if e < 0 then 1 / 2 ^ nat (- e) else 2 ^ nat e)"

text \<open>The exponent of the first binary digit.\<close>

definition double_exponent :: "rat \<Rightarrow> int" where
  "double_exponent x =
     (case quotient_of x of (p, q) \<Rightarrow>
        let e = int (floorlog 2 (nat p)) - int (floorlog 2 (nat q))
        in if rat_power2 e \<le> x then e else e - 1)"

definition double_round :: "rat \<Rightarrow> rat" where
  "double_round x =
     (if x = 0 then 0
      else let u = rat_power2 (double_exponent \<bar>x\<bar> - 52) in of_int (round_even (x / u)) * u)"

text \<open>The conversion to an integer cuts off the fraction.\<close>

definition double_trunc :: "rat \<Rightarrow> int" where
  "double_trunc x = (if x < 0 then - \<lfloor>- x\<rfloor> else \<lfloor>x\<rfloor>)"

section \<open>The error of a rounding\<close>

lemma rat_power2_powi: "rat_power2 e = 2 powi e"
  by (auto simp: rat_power2_def power_int_def inverse_eq_divide power_one_over)

lemma rat_power2_add: "rat_power2 (a + b) = rat_power2 a * rat_power2 b"
  by (simp add: rat_power2_powi power_int_add)

lemma rat_power2_pos [simp]: "0 < rat_power2 e"
  by (simp add: rat_power2_powi)

lemma rat_power2_mono: "a \<le> b \<Longrightarrow> rat_power2 a \<le> rat_power2 b"
  by (simp add: rat_power2_powi power_int_increasing)

lemma rat_power2_nat: "rat_power2 (int k) = rat_of_int (int (2 ^ k))"
  by (simp add: rat_power2_def)

lemma floorlog_rat:
  assumes "0 < (p :: int)"
  shows "rat_power2 (int (floorlog 2 (nat p)) - 1) \<le> of_int p" "of_int p < rat_power2 (int (floorlog 2 (nat p)))"
proof -
  let ?f = "floorlog 2 (nat p)"
  have b: "2 ^ (?f - 1) \<le> nat p" "nat p < 2 ^ ?f" using floorlog_bounds [of "nat p" 2] assms by simp_all
  have f: "0 < ?f" using assms by (simp add: floorlog_def)
  have pn: "int (nat p) = p" using assms by simp
  have "int (2 ^ (?f - 1)) \<le> int (nat p)" "int (nat p) < int (2 ^ ?f)"
    using b by (simp_all only: of_nat_le_iff of_nat_less_iff)
  then have "int (2 ^ (?f - 1)) \<le> p" "p < int (2 ^ ?f)" unfolding pn .
  then have "rat_of_int (int (2 ^ (?f - 1))) \<le> of_int p" "rat_of_int p < of_int (int (2 ^ ?f))"
    by (simp_all only: of_int_le_iff of_int_less_iff)
  moreover have "int ?f - 1 = int (?f - 1)" using f by linarith
  ultimately show "rat_power2 (int ?f - 1) \<le> of_int p" "of_int p < rat_power2 (int ?f)"
    by (simp_all only: rat_power2_nat)
qed

lemma double_exponent_law:
  assumes "0 < x"
  shows "rat_power2 (double_exponent x) \<le> x" "x < rat_power2 (double_exponent x + 1)"
proof -
  obtain p q where pq: "quotient_of x = (p, q)" by fastforce
  have q: "0 < q" using quotient_of_denom_pos [OF pq] .
  have x: "x = of_int p / of_int q" using quotient_of_div [OF pq] .
  have p: "0 < p" using assms q by (simp add: x zero_less_divide_iff)
  let ?a = "int (floorlog 2 (nat p))" and ?b = "int (floorlog 2 (nat q))"
  note P = floorlog_rat [OF p] and Q = floorlog_rat [OF q]
  have q': "0 < rat_of_int q" using q by simp
  have "x < rat_power2 (?a - ?b + 1)"
  proof -
    have "rat_of_int p < rat_power2 ?a" by (rule P(2))
    also have "rat_power2 ?a = rat_power2 (?a - ?b + 1) * rat_power2 (?b - 1)" by (simp flip: rat_power2_add)
    also have "\<dots> \<le> rat_power2 (?a - ?b + 1) * of_int q" by (rule mult_left_mono [OF Q(1)]) (simp add: less_imp_le)
    finally show ?thesis using q' by (simp add: x pos_divide_less_eq)
  qed
  moreover have "rat_power2 (?a - ?b - 1) \<le> x"
  proof -
    have "rat_power2 (?a - ?b - 1) * of_int q \<le> rat_power2 (?a - ?b - 1) * rat_power2 ?b"
      by (rule mult_left_mono) (use Q(2) in \<open>simp_all add: less_imp_le\<close>)
    also have "\<dots> = rat_power2 (?a - 1)" by (simp flip: rat_power2_add)
    also have "\<dots> \<le> of_int p" by (rule P(1))
    finally show ?thesis using q' by (simp add: x pos_le_divide_eq)
  qed
  moreover have "double_exponent x = (if rat_power2 (?a - ?b) \<le> x then ?a - ?b else ?a - ?b - 1)"
    by (simp add: double_exponent_def pq Let_def)
  ultimately show "rat_power2 (double_exponent x) \<le> x" "x < rat_power2 (double_exponent x + 1)"
    by (auto split: if_splits)
qed

lemma round_even_error: "\<bar>of_int (round_even x) - x\<bar> \<le> 1 / 2"
proof -
  have "of_int \<lfloor>x\<rfloor> \<le> x" "x < of_int \<lfloor>x\<rfloor> + 1" by linarith+
  then show ?thesis by (auto simp: round_even_def Let_def abs_le_iff)
qed

lemma round_even_nonpos: "x \<le> 0 \<Longrightarrow> round_even x \<le> 0"
proof -
  assume "x \<le> 0"
  then have "rat_of_int (round_even x) < 1" using round_even_error [of x] by linarith
  then show ?thesis by (simp add: of_int_less_1_iff)
qed

lemma round_even_int [simp]: "round_even (of_int n) = n"
  by (simp add: round_even_def Let_def)

lemma double_round_error:
  assumes "0 < x"
  shows "\<bar>double_round x - x\<bar> \<le> x / 9007199254740992"
proof -
  define e where "e = double_exponent x"
  define u where "u = rat_power2 (e - 52)"
  have u: "0 < u" by (simp add: u_def)
  have r: "double_round x = of_int (round_even (x / u)) * u"
    using assms by (simp add: double_round_def u_def e_def Let_def)
  have "\<bar>double_round x - x\<bar> = \<bar>of_int (round_even (x / u)) - x / u\<bar> * u"
  proof -
    have "double_round x - x = (of_int (round_even (x / u)) - x / u) * u" using u by (simp add: r left_diff_distrib)
    then show ?thesis using u by (simp add: abs_mult)
  qed
  also have "\<dots> \<le> 1 / 2 * u" by (rule mult_right_mono [OF round_even_error]) (use u in simp)
  also have "1 / 2 * u = rat_power2 e / 9007199254740992"
  proof -
    have "u = rat_power2 e * rat_power2 (- 52)" by (simp add: u_def flip: rat_power2_add)
    then show ?thesis by (simp add: rat_power2_def [of "- 52"])
  qed
  also have "\<dots> \<le> x / 9007199254740992" using double_exponent_law(1) [OF assms] by (simp add: e_def divide_right_mono)
  finally show ?thesis .
qed

text \<open>Whole numbers up to \<open>2 ^ 53\<close> are exact.\<close>

lemma double_round_int:
  assumes "0 < n" and "n < 9007199254740992"
  shows "double_round (of_int n) = of_int n"
proof -
  define e where "e = double_exponent (of_int n)"
  have "rat_power2 e \<le> of_int n" using double_exponent_law(1) [of "of_int n"] assms(1) by (simp add: e_def)
  also have "rat_of_int n < rat_power2 53" using assms(2) by (simp add: rat_power2_def)
  finally have "e < 53" using rat_power2_mono [of 53 e] by (auto simp: not_less [symmetric])
  then have k: "rat_power2 (e - 52) = 1 / 2 ^ nat (52 - e)" by (cases "e = 52") (auto simp: rat_power2_def)
  have "of_int n / rat_power2 (e - 52) = of_int (n * 2 ^ nat (52 - e))" by (simp add: k)
  then have "round_even (of_int n / rat_power2 (e - 52)) = n * 2 ^ nat (52 - e)" by (simp only: round_even_int)
  then show ?thesis using assms(1) by (simp add: double_round_def e_def [symmetric] k Let_def)
qed

lemma double_round_nonneg: "0 \<le> x \<Longrightarrow> 0 \<le> double_round x"
proof (cases "x = 0")
  case False
  assume "0 \<le> x"
  let ?u = "rat_power2 (double_exponent \<bar>x\<bar> - 52)"
  have "0 \<le> x / ?u" using \<open>0 \<le> x\<close> by (simp add: less_imp_le)
  then have "rat_of_int (round_even (x / ?u)) > - 1" using round_even_error [of "x / ?u"] by linarith
  then have "0 \<le> round_even (x / ?u)" by (metis of_int_less_iff of_int_minus of_int_1 int_one_le_iff_zero_less
      add.inverse_inverse less_minus_iff linorder_not_less not_less zless_imp_add1_zle neg_0_le_iff_le)
  then show ?thesis using False by (simp add: double_round_def Let_def less_imp_le)
qed (simp add: double_round_def)

lemma double_round_nonpos: "x \<le> 0 \<Longrightarrow> double_round x \<le> 0"
proof (cases "x = 0")
  case False
  assume "x \<le> 0"
  let ?u = "rat_power2 (double_exponent \<bar>x\<bar> - 52)"
  have "x / ?u \<le> 0" using \<open>x \<le> 0\<close> by (simp add: divide_nonpos_pos)
  then have "round_even (x / ?u) \<le> 0" by (rule round_even_nonpos)
  then have "of_int (round_even (x / ?u)) * ?u \<le> 0"
    by (intro mult_nonpos_nonneg) (simp_all add: less_imp_le)
  then show ?thesis using False by (simp add: double_round_def Let_def)
qed (simp add: double_round_def)

section \<open>Evaluation\<close>

text \<open>
  The rounding of a fraction \<open>p / q\<close> in integers, which need not be in lowest terms: its digits and
  its exponent.
\<close>

function int_length :: "int \<Rightarrow> int" where
  "int_length n = (if 0 < n then 1 + int_length (n div 2) else 0)"
  by pat_completeness auto
termination
  by (relation "measure nat") auto

declare int_length.simps [simp del]

definition int_scale :: "int \<Rightarrow> int \<Rightarrow> int" where
  "int_scale p e = (if 0 \<le> e then p * 2 ^ nat e else p)"

definition round_quotient :: "int \<Rightarrow> int \<Rightarrow> int" where
  "round_quotient p q = (let n = p div q; r = 2 * (p mod q)
     in if r < q then n else if q < r then n + 1 else if even n then n else n + 1)"

definition double_parts :: "int \<Rightarrow> int \<Rightarrow> int \<times> int" where
  "double_parts p q =
     (let e = int_length p - int_length q;
          e = (if int_scale q e \<le> int_scale p (- e) then e else e - 1) - 52
      in (round_quotient (int_scale p (- e)) (int_scale q e), e))"

lemma int_length_floorlog: "int_length n = int (floorlog 2 (nat n))"
proof (induction n rule: int_length.induct)
  case (1 n)
  then show ?case
    by (subst int_length.simps, subst compute_floorlog) (auto simp: nat_div_distrib)
qed

lemma int_scale_pos: "0 < p \<Longrightarrow> 0 < int_scale p e"
  by (simp add: int_scale_def)

lemma scaled_quotient:
  assumes "0 < q"
  shows "rat_of_int (int_scale p (- e)) / of_int (int_scale q e) = of_int p / of_int q / rat_power2 e"
  using assms by (simp add: int_scale_def rat_power2_def)

lemma round_quotient_even: "0 < q \<Longrightarrow> round_quotient p q = round_even (of_int p / of_int q)"
proof -
  assume q: "0 < q"
  have f: "\<lfloor>rat_of_int p / of_int q\<rfloor> = p div q" by (rule floor_divide_of_int_eq)
  have "rat_of_int p = of_int (p div q) * of_int q + of_int (p mod q)"
    by (metis div_mult_mod_eq of_int_add of_int_mult)
  then have r: "rat_of_int p / of_int q - of_int (p div q) = of_int (p mod q) / of_int q"
    using q by (simp add: field_simps)
  have "rat_of_int (p mod q) / of_int q < 1 / 2 \<longleftrightarrow> rat_of_int (2 * (p mod q)) < of_int q"
    "1 / 2 < rat_of_int (p mod q) / of_int q \<longleftrightarrow> rat_of_int q < of_int (2 * (p mod q))"
    using q by (simp_all add: field_simps)
  then show ?thesis unfolding round_even_def round_quotient_def f Let_def r by (simp only: of_int_less_iff)
qed

lemma double_exponent_unique:
  assumes "0 < x" and "rat_power2 e \<le> x" and "x < rat_power2 (e + 1)"
  shows "double_exponent x = e"
proof -
  note l = double_exponent_law [OF assms(1)]
  have "\<not> e + 1 \<le> double_exponent x"
  proof
    assume "e + 1 \<le> double_exponent x"
    from rat_power2_mono [OF this] l(1) assms(3) show False by simp
  qed
  moreover have "\<not> double_exponent x + 1 \<le> e"
  proof
    assume "double_exponent x + 1 \<le> e"
    from rat_power2_mono [OF this] l(2) assms(2) show False by simp
  qed
  ultimately show ?thesis by simp
qed

lemma length_bounds:
  assumes "0 < (p :: int)"
  shows "rat_power2 (int_length p - 1) \<le> of_int p" "of_int p < rat_power2 (int_length p)"
  using floorlog_rat [OF assms] by (simp_all add: int_length_floorlog)

lemma quotient_bounds:
  assumes "0 < p" and "0 < q"
  shows "rat_power2 (int_length p - int_length q - 1) \<le> of_int p / of_int q"
    "of_int p / of_int q < rat_power2 (int_length p - int_length q + 1)"
proof -
  let ?a = "int_length p" and ?b = "int_length q"
  note P = length_bounds [OF assms(1)] and Q = length_bounds [OF assms(2)]
  have q: "0 < rat_of_int q" using assms(2) by simp
  have "rat_of_int p < rat_power2 ?a" by (rule P(2))
  also have "rat_power2 ?a = rat_power2 (?a - ?b + 1) * rat_power2 (?b - 1)" by (simp flip: rat_power2_add)
  also have "\<dots> \<le> rat_power2 (?a - ?b + 1) * of_int q" by (rule mult_left_mono [OF Q(1)]) (simp add: less_imp_le)
  finally show "of_int p / of_int q < rat_power2 (?a - ?b + 1)" using q by (simp add: pos_divide_less_eq)
  have "rat_power2 (?a - ?b - 1) * of_int q \<le> rat_power2 (?a - ?b - 1) * rat_power2 ?b"
    by (rule mult_left_mono) (use Q(2) in \<open>simp_all add: less_imp_le\<close>)
  also have "\<dots> = rat_power2 (?a - 1)" by (simp flip: rat_power2_add)
  also have "\<dots> \<le> of_int p" by (rule P(1))
  finally show "rat_power2 (?a - ?b - 1) \<le> of_int p / of_int q" using q by (simp add: pos_le_divide_eq)
qed

lemma scaled_le:
  assumes "0 < q"
  shows "int_scale q e \<le> int_scale p (- e) \<longleftrightarrow> rat_power2 e \<le> of_int p / of_int q"
proof -
  have "rat_of_int (int_scale q e) \<le> of_int (int_scale p (- e)) \<longleftrightarrow>
      1 \<le> rat_of_int (int_scale p (- e)) / of_int (int_scale q e)"
    using int_scale_pos [OF assms, of e] by (simp add: le_divide_eq)
  moreover have "1 \<le> x / rat_power2 e \<longleftrightarrow> rat_power2 e \<le> x" for x by (simp add: pos_le_divide_eq)
  ultimately show ?thesis unfolding scaled_quotient [OF assms] of_int_le_iff by (simp only:)
qed

lemma round_even_pos: "1 \<le> x \<Longrightarrow> 0 < round_even x"
proof -
  assume "1 \<le> x"
  then have "0 < rat_of_int (round_even x)" using round_even_error [of x] by linarith
  then show ?thesis by simp
qed

lemma double_parts_round:
  assumes "0 < p" and "0 < q" and "double_parts p q = (m, e)"
  shows "double_round (of_int p / of_int q) = of_int m * rat_power2 e" "0 < m"
proof -
  let ?x = "rat_of_int p / of_int q"
  have x: "0 < ?x" using assms by simp
  define a where "a = int_length p - int_length q"
  have "double_exponent ?x = (if rat_power2 a \<le> ?x then a else a - 1)"
    using quotient_bounds [OF assms(1,2)] x by (auto simp: a_def intro!: double_exponent_unique)
  then have e: "e = double_exponent ?x - 52"
    and m: "m = round_quotient (int_scale p (- e)) (int_scale q e)"
    using assms(3) unfolding double_parts_def Let_def a_def [symmetric] scaled_le [OF assms(2)] by auto
  have m': "m = round_even (?x / rat_power2 e)"
    unfolding m round_quotient_even [OF int_scale_pos [OF assms(2)]] scaled_quotient [OF assms(2)] ..
  have "double_round y = of_int (round_even (y / rat_power2 e)) * rat_power2 e" if "0 < y" "e = double_exponent y - 52" for y
    using that by (simp add: double_round_def Let_def)
  from this [OF x e] show "double_round ?x = of_int m * rat_power2 e" unfolding m' .
  have "rat_power2 52 * rat_power2 e \<le> ?x"
    using double_exponent_law(1) [OF x] by (simp add: e flip: rat_power2_add)
  moreover have "rat_power2 52 \<le> y / rat_power2 e" if "rat_power2 52 * rat_power2 e \<le> y" for y
    using that by (simp add: pos_le_divide_eq)
  ultimately have "rat_power2 52 \<le> ?x / rat_power2 e" by blast
  then have "1 \<le> ?x / rat_power2 e" by (rule order_trans [rotated]) (simp add: rat_power2_def)
  then show "0 < m" unfolding m' by (rule round_even_pos)
qed

lemma parts_fraction: "rat_of_int m * rat_power2 e = of_int (int_scale m e) / of_int (int_scale 1 (- e))"
  by (simp add: int_scale_def rat_power2_def)

text \<open>The product of a whole number and a rounded quotient, rounded, as a fraction.\<close>

definition double_times :: "int \<Rightarrow> int \<Rightarrow> int \<Rightarrow> int \<times> int" where
  "double_times n p q = (case double_parts p q of (m, e) \<Rightarrow>
     (case double_parts (n * int_scale m e) (int_scale 1 (- e)) of (m, e) \<Rightarrow> (int_scale m e, int_scale 1 (- e))))"

lemma double_times_round:
  assumes "0 < n" "0 < p" "0 < q" and "double_times n p q = (a, b)"
  shows "double_round (of_int n * double_round (of_int p / of_int q)) = of_int a / of_int b" "0 < a" "0 < b"
proof -
  obtain m e where 1: "double_parts p q = (m, e)" by fastforce
  note r1 = double_parts_round [OF assms(2,3) 1]
  let ?p = "n * int_scale m e" and ?q = "int_scale 1 (- e)"
  have pos: "0 < ?p" "0 < ?q" using assms(1) int_scale_pos r1(2) by simp_all
  obtain m' e' where 2: "double_parts ?p ?q = (m', e')" by fastforce
  note r2 = double_parts_round [OF pos 2]
  have ab: "a = int_scale m' e'" "b = int_scale 1 (- e')" using assms(4) 1 2 by (simp_all add: double_times_def)
  have "of_int n * double_round (of_int p / of_int q) = rat_of_int ?p / of_int ?q"
    unfolding r1(1) parts_fraction by simp
  then show "double_round (of_int n * double_round (of_int p / of_int q)) = of_int a / of_int b"
    using r2(1) unfolding parts_fraction ab by simp
  show "0 < a" "0 < b" using r2(2) int_scale_pos by (simp_all add: ab)
qed

lemma double_trunc_quotient: "0 \<le> a \<Longrightarrow> 0 < b \<Longrightarrow> double_trunc (of_int a / of_int b) = a div b"
  by (simp add: double_trunc_def floor_divide_of_int_eq divide_less_0_iff)

lemma double_times_compare:
  assumes "0 < n" "0 < p" "0 < q" and "double_times n p q = (a, b)"
  shows "double_round (double_round (of_int p / of_int q) * of_int n) < of_int x \<longleftrightarrow> a < x * b"
    "of_int x < double_round (double_round (of_int p / of_int q) * of_int n) \<longleftrightarrow> x * b < a"
proof -
  note r = double_times_round [OF assms]
  have e: "double_round (double_round (of_int p / of_int q) * of_int n) = rat_of_int a / of_int b"
    using r(1) by (simp add: mult.commute)
  have "rat_of_int a / of_int b < of_int x \<longleftrightarrow> rat_of_int a < of_int (x * b)"
    "of_int x < rat_of_int a / of_int b \<longleftrightarrow> of_int (x * b) < rat_of_int a"
    using r(3) by (simp_all add: pos_divide_less_eq pos_less_divide_eq)
  then show "double_round (double_round (of_int p / of_int q) * of_int n) < of_int x \<longleftrightarrow> a < x * b"
    "of_int x < double_round (double_round (of_int p / of_int q) * of_int n) \<longleftrightarrow> x * b < a"
    unfolding e of_int_less_iff .
qed

end
