(* ===== verification/AO_Oss.thy ===== *)
theory AO_Oss
  imports AO_Posix AO_Double "HOL-Library.Signed_Division"
begin

text \<open>
  The Open Sound System driver, \<^verbatim>\<open>src/plugins/oss/ao_oss.c\<close>.  The two compile-time choices
  (\<open>BROKEN_OSS\<close>, \<open>SNDCTL_DSP_CHANNELS\<close>) and the sample formats of \<^verbatim>\<open>soundcard.h\<close> are the
  fields of \<open>oss_build\<close>.

  \<open>play\<close> repeats \<open>write\<close> until everything is sent, and need not return: \<open>None\<close> is a run that
  faults or does not return.
\<close>

record oss_build =
  broken_oss :: bool
  dsp_channels :: bool
  AFMT_S8 :: int
  AFMT_S16_LE :: int
  AFMT_S16_BE :: int

section \<open>Operations\<close>

definition AO_OSS_BUFFER_TIME :: "32 word" where
  "AO_OSS_BUFFER_TIME = 20000"

definition ao_oss_info :: ao_info where
  "ao_oss_info =
     \<lparr>info_type = AO_TYPE_LIVE, info_name = ''OSS audio driver output '', short_name = ''oss'',
      author = ''Aaron Holtzman <aholtzma@ess.engr.uvic.ca>'',
      info_comment = ''Outputs audio to the Open Sound System driver.'',
      preferred_byte_format = AO_FMT_NATIVE, priority = 20,
      info_options = [''dsp'', ''dev'', ''id'', ''buffer_time'', ''verbose'', ''quiet'', ''matrix'', ''debug''],
      option_count = 8\<rparr>"

text \<open>The path tried: with the number of the device when it is positive.\<close>

definition oss_path :: "string \<Rightarrow> int \<Rightarrow> string" where
  "oss_path base n = (if n > 0 then base @ decimal n else base)"

text \<open>\<open>strdup\<close> of a path and \<open>open\<close> of it.\<close>

definition oss_try ::
  "oss_build \<Rightarrow> string \<Rightarrow> 'z posix_scheme \<Rightarrow> string option \<times> int \<times> 'z posix_scheme" where
  "oss_try b path w = (case strdup path w of
      (None, w) \<Rightarrow> (None, -1, w)
    | (Some path, w) \<Rightarrow> (case ask_ret (Open path (broken_oss b)) w of (fd, w) \<Rightarrow> (Some path, fd, w)))"

text \<open>The removal of \<open>O_NONBLOCK\<close> in the build with \<open>BROKEN_OSS\<close>.\<close>

definition oss_unblock :: "oss_build \<Rightarrow> bool \<Rightarrow> int \<Rightarrow> 'z posix_scheme \<Rightarrow> int \<times> 'z posix_scheme" where
  "oss_unblock b blocking fd w =
     (if broken_oss b \<and> fd \<ge> 0 \<and> blocking
      then (case ask_ret (Fcntl_blocking fd) w of (r, w) \<Rightarrow>
             if r < 0 then (-1, snd (ask_ret (Close fd) w)) else (fd, w))
      else (fd, w))"

text \<open>\<open>_open_default_oss_device\<close>: the path that \<open>*dev_path\<close> is left with, and the descriptor.\<close>

definition open_default_oss_device ::
  "oss_build \<Rightarrow> int \<Rightarrow> bool \<Rightarrow> 'z posix_scheme \<Rightarrow> string option \<times> int \<times> 'z posix_scheme" where
  "open_default_oss_device b n blocking w =
     (case oss_try b (oss_path ''/dev/sound/dsp'' n) w of (path, fd, w) \<Rightarrow>
        if path = None then (None, -1, w)
        else (case (if fd < 0 then oss_try b (oss_path ''/dev/dsp'' n) (free_block w) else (path, fd, w)) of
            (path, fd, w) \<Rightarrow>
              if path = None then (None, -1, w)
              else (case oss_unblock b blocking fd w of (fd, w) \<Rightarrow>
                      if fd < 0 then (None, fd, free_opt path w) else (path, fd, w))))"

definition ao_oss_test :: "oss_build \<Rightarrow> 'z posix_scheme \<Rightarrow> (bool \<times> 'z posix_scheme) option" where
  "ao_oss_test b w = (case open_default_oss_device b 0 False w of (path, fd, w) \<Rightarrow>
     if fd < 0 then Some (False, w)
     else Some (True, snd (ask_ret (Close fd) (free_opt path w))))"

definition ao_oss_device_init ::
  "live_device \<Rightarrow> 'z posix_scheme \<Rightarrow> (bool \<times> live_device \<times> 'z posix_scheme) option" where
  "ao_oss_device_init d w = (case malloc_ok w of (ok, w) \<Rightarrow>
     if \<not> ok then Some (False, d, w)
     else Some (True, (set_oss \<lparr>oss_dev = None, oss_id = -1, oss_fd = 0, oss_buf_size = 0,
                          oss_buffer_time = AO_OSS_BUFFER_TIME\<rparr> d)
                        \<lparr>output_matrix_order := AO_OUTPUT_MATRIX_FIXED\<rparr>, w))"

text \<open>A value that is NULL where the code reads it is a fault.\<close>

definition ao_oss_set_option ::
  "live_device \<Rightarrow> string \<Rightarrow> string option \<Rightarrow> 'z posix_scheme
    \<Rightarrow> (bool \<times> live_device \<times> 'z posix_scheme) option" where
  "ao_oss_set_option d k v w =
     (if k = ''dsp'' \<or> k = ''dev'' then do {
        i \<leftarrow> oss_state d;
        v \<leftarrow> v;
        (case strdup v (free_opt (oss_dev i) w) of (s, w) \<Rightarrow>
          Some (s \<noteq> None, set_oss (i\<lparr>oss_dev := s\<rparr>) d, w)) }
      else if k = ''id'' then do {
        i \<leftarrow> oss_state d;
        v \<leftarrow> v;
        n \<leftarrow> atoi v;
        Some (True, set_oss (i\<lparr>oss_dev := None, oss_id := n\<rparr>) d, free_opt (oss_dev i) w) }
      else if k = ''buffer_time'' then do {
        i \<leftarrow> oss_state d;
        v \<leftarrow> v;
        n \<leftarrow> atoi v;
        t \<leftarrow> c_int (n * 1000);
        Some (True, set_oss (i\<lparr>oss_buffer_time := word_of_int t\<rparr>) d, w) }
      else Some (True, d, w))"

function ilog_loop :: "int \<Rightarrow> int \<Rightarrow> int" where
  "ilog_loop x ret = (if x > 0 then ilog_loop (x div 2) (ret + 1) else ret)"
  by pat_completeness auto
termination
  by (relation "measure (\<lambda>(x, _). nat x)") auto

declare ilog_loop.simps [simp del]

definition ilog :: "int \<Rightarrow> int" where
  "ilog x = ilog_loop x (-1)"

text \<open>
  The bytes of \<open>buffer_time\<close> microseconds: the product of an \<open>int\<close> with the seconds, each a \<open>double\<close>,
  cut to a \<open>long\<close>.
\<close>

definition oss_bytesperframe :: "ao_oss_internal \<Rightarrow> int \<Rightarrow> ao_sample_format \<Rightarrow> int option" where
  "oss_bytesperframe i channels format = do {
     b \<leftarrow> c_int (fmt_bits format + 7);
     n \<leftarrow> c_int (b sdiv 8 * channels);
     n \<leftarrow> c_int (n * fmt_rate format);
     Some (double_trunc (double_round (of_int n * double_round (of_int (uint (oss_buffer_time i)) / 1000000)))) }"

text \<open>Evaluated in integers.\<close>

lemma oss_bytesperframe_code [code]:
  "oss_bytesperframe i channels format = do {
     b \<leftarrow> c_int (fmt_bits format + 7);
     n \<leftarrow> c_int (b sdiv 8 * channels);
     n \<leftarrow> c_int (n * fmt_rate format);
     let t = uint (oss_buffer_time i);
     Some (if 0 < n \<and> 0 < t then (case double_times n t 1000000 of (a, b) \<Rightarrow> a div b)
           else double_trunc (double_round (of_int n * double_round (of_int t / 1000000)))) }"
proof -
  have "double_trunc (double_round (of_int n * double_round (of_int t / 1000000))) =
      (case double_times n t 1000000 of (a, b) \<Rightarrow> a div b)" if "0 < n" "0 < t" for n t
  proof -
    obtain a b where ab: "double_times n t 1000000 = (a, b)" by fastforce
    from double_times_round [OF that _ ab] show ?thesis by (simp add: ab double_trunc_quotient)
  qed
  moreover define t where "t = uint (oss_buffer_time i)"
  ultimately show ?thesis unfolding oss_bytesperframe_def Let_def t_def [symmetric]
    by (intro Option.bind_cong refl) auto
qed

text \<open>Number of channels, sample size and speed; each says whether to go on or to \<open>goto ERR\<close>.\<close>

definition oss_set_channels :: "oss_build \<Rightarrow> int \<Rightarrow> int \<Rightarrow> 'z posix_scheme \<Rightarrow> bool \<times> 'z posix_scheme" where
  "oss_set_channels b fd channels w =
     (if dsp_channels b
      then (case ask (Ioctl fd ''SNDCTL_DSP_CHANNELS'' channels) w of (r, w) \<Rightarrow>
              (\<not> (rp_ret r < 0 \<or> rp_out r \<noteq> channels), w))
      else if channels = 1 \<or> channels = 2
      then (case ask (Ioctl fd ''SNDCTL_DSP_STEREO'' (channels - 1)) w of (r, w) \<Rightarrow>
              (\<not> (rp_ret r < 0 \<or> rp_out r + 1 \<noteq> channels), w))
      else (False, w))"

text \<open>The speed may be off by the factors \<open>1.02\<close> and \<open>0.98\<close>, constants of type \<open>double\<close>.\<close>

definition oss_set_speed :: "int \<Rightarrow> int \<Rightarrow> 'z posix_scheme \<Rightarrow> bool \<times> 'z posix_scheme" where
  "oss_set_speed fd rate w = (case ask (Ioctl fd ''SNDCTL_DSP_SPEED'' rate) w of (r, w) \<Rightarrow>
     (\<not> (rp_ret r < 0 \<or> of_int (rp_out r) > double_round (double_round (102 / 100) * of_int rate) \<or>
         of_int (rp_out r) < double_round (double_round (98 / 100) * of_int rate)), w))"

lemma oss_set_speed_code [code]:
  "oss_set_speed fd rate w = (case ask (Ioctl fd ''SNDCTL_DSP_SPEED'' rate) w of (r, w) \<Rightarrow>
     (\<not> (rp_ret r < 0 \<or>
       (if 0 < rate
        then (case double_times rate 102 100 of (a, b) \<Rightarrow> rp_out r * b > a) \<or>
          (case double_times rate 98 100 of (a, b) \<Rightarrow> rp_out r * b < a)
        else of_int (rp_out r) > double_round (double_round (102 / 100) * of_int rate) \<or>
          of_int (rp_out r) < double_round (double_round (98 / 100) * of_int rate))), w))"
proof (cases "0 < rate")
  case True
  obtain a b where 1: "double_times rate 102 100 = (a, b)" by fastforce
  obtain a' b' where 2: "double_times rate 98 100 = (a', b')" by fastforce
  note c = double_times_compare(1) [OF True _ _ 1, simplified] double_times_compare(2) [OF True _ _ 2, simplified]
  show ?thesis unfolding oss_set_speed_def 1 2 prod.case using True c by (simp split: prod.split)
qed (simp add: oss_set_speed_def)

definition oss_block_size :: "int \<Rightarrow> 'z posix_scheme \<Rightarrow> int \<times> 'z posix_scheme" where
  "oss_block_size fd w = (case ask (Ioctl fd ''SNDCTL_DSP_GETBLKSIZE'' (-1)) w of (r, w) \<Rightarrow>
     (if rp_ret r < 0 \<or> rp_out r \<le> 0 then 1024 else rp_out r, w))"

definition oss_descriptor ::
  "oss_build \<Rightarrow> ao_oss_internal \<Rightarrow> 'z posix_scheme \<Rightarrow> ao_oss_internal \<times> 'z posix_scheme" where
  "oss_descriptor b i w = (case oss_dev i of
      Some path \<Rightarrow> (case ask_ret (Open path False) w of (fd, w) \<Rightarrow> (i\<lparr>oss_fd := fd\<rparr>, w))
    | None \<Rightarrow> (case open_default_oss_device b (oss_id i) True w of (path, fd, w) \<Rightarrow>
        (i\<lparr>oss_dev := path, oss_fd := fd\<rparr>, w)))"

definition oss_sample_size :: "oss_build \<Rightarrow> int \<Rightarrow> live_device \<Rightarrow> ao_sample_format \<Rightarrow> 'z posix_scheme \<Rightarrow> bool \<times> 'z posix_scheme" where
  "oss_sample_size b fd d format w =
     (if fmt_bits format \<noteq> 8 \<and> fmt_bits format \<noteq> 16 then (False, w)
      else (case ask (Ioctl fd ''SNDCTL_DSP_SAMPLESIZE''
               (if fmt_bits format = 8 then AFMT_S8 b
                else if client_byte_format d = AO_FMT_BIG then AFMT_S16_BE b else AFMT_S16_LE b)) w of
             (r, w) \<Rightarrow> (\<not> rp_ret r < 0, w)))"

text \<open>All the parameters in the order of the code, up to the first that cannot be set.\<close>

definition oss_configure ::
  "oss_build \<Rightarrow> int \<Rightarrow> live_device \<Rightarrow> ao_sample_format \<Rightarrow> 'z posix_scheme
    \<Rightarrow> bool \<times> live_device \<times> 'z posix_scheme" where
  "oss_configure b fd d format w =
     (case oss_set_channels b fd (output_channels d) w of (ok, w) \<Rightarrow>
        if \<not> ok then (False, d, w)
        else
          let d = (if fmt_bits format = 16 then d\<lparr>driver_byte_format := client_byte_format d\<rparr> else d)
          in (case oss_sample_size b fd d format w of (ok, w) \<Rightarrow>
               if \<not> ok then (False, d, w)
               else (case oss_set_speed fd (fmt_rate format) w of (ok, w) \<Rightarrow> (ok, d, w))))"

definition ao_oss_open ::
  "oss_build \<Rightarrow> live_device \<Rightarrow> ao_sample_format \<Rightarrow> 'z posix_scheme
    \<Rightarrow> (bool \<times> live_device \<times> ao_sample_format \<times> 'z posix_scheme) option" where
  "ao_oss_open b d format w = do {
     i \<leftarrow> oss_state d;
     let (i, w) = oss_descriptor b i w;
     let d = set_oss i d;
     (if oss_fd i < 0 then Some (False, d, format, w)
      else do {
        n \<leftarrow> oss_bytesperframe i (output_channels d) format;
        let w = snd (ask (Ioctl (oss_fd i) ''SNDCTL_DSP_SETFRAGMENT'' (0x00040000 OR ilog n)) w);
        (case oss_configure b (oss_fd i) d format w of (ok, d, w) \<Rightarrow>
          if \<not> ok then Some (False, d, format, snd (ask_ret (Close (oss_fd i)) w))
          else (case oss_block_size (oss_fd i) w of (n, w) \<Rightarrow>
            (case stereo_matrix (set_oss (i\<lparr>oss_buf_size := n\<rparr>) d) w of
               (d, w) \<Rightarrow> Some (True, d, format, w)))) }) }"

text \<open>The loop of \<open>play\<close>.\<close>

partial_function (option) oss_play_loop ::
  "int \<Rightarrow> int \<Rightarrow> byte list \<Rightarrow> 32 word \<Rightarrow> 'z posix_scheme \<Rightarrow> (bool \<times> 'z posix_scheme) option" where
  "oss_play_loop fd buf_size output_samples num_bytes w =
     (if num_bytes = 0 then Some (True, w)
      else
        let send = int_of_u32 (if num_bytes > word_of_int buf_size then word_of_int buf_size else num_bytes)
        in if send < 0 then None
           else Option.bind (load (nat send) output_samples 0) (\<lambda>bs.
             case ask_ret (Write fd bs) w of (ret, w) \<Rightarrow>
               if ret < 0
               then if w_errno w = EINTR then oss_play_loop fd buf_size output_samples num_bytes w
                    else Some (False, w)
               else oss_play_loop fd buf_size (drop (nat ret) output_samples)
                      (num_bytes - word_of_int ret) w))"

declare oss_play_loop.simps [code]

definition ao_oss_play ::
  "live_device \<Rightarrow> byte list \<Rightarrow> 32 word \<Rightarrow> 'z posix_scheme
    \<Rightarrow> (bool \<times> live_device \<times> 'z posix_scheme) option" where
  "ao_oss_play d output_samples num_bytes w = do {
     i \<leftarrow> oss_state d;
     (r, w) \<leftarrow> oss_play_loop (oss_fd i) (oss_buf_size i) output_samples num_bytes w;
     Some (r, d, w) }"

definition ao_oss_close ::
  "live_device \<Rightarrow> 'z posix_scheme \<Rightarrow> (bool \<times> live_device \<times> 'z posix_scheme) option" where
  "ao_oss_close d w = do {
     i \<leftarrow> oss_state d;
     let w = (if oss_fd i \<ge> 0 then snd (ask_ret (Close (oss_fd i)) w) else w);
     Some (True, set_oss (i\<lparr>oss_fd := -1\<rparr>) d, w) }"

definition ao_oss_device_clear ::
  "live_device \<Rightarrow> 'z posix_scheme \<Rightarrow> (live_device \<times> 'z posix_scheme) option" where
  "ao_oss_device_clear d w = do {
     i \<leftarrow> oss_state d;
     Some (d\<lparr>internal := None\<rparr>, free_block (free_opt (oss_dev i) w)) }"

definition ao_oss :: "oss_build \<Rightarrow> (plugin_internal ao_internal, 'z posix_scheme) ao_functions" where
  "ao_oss b =
     \<lparr>fn_test = ao_oss_test b, fn_driver_info = ao_oss_info, fn_device_init = ao_oss_device_init,
      fn_set_option = ao_oss_set_option, fn_open = ao_oss_open b, fn_play = ao_oss_play,
      fn_close = ao_oss_close, fn_device_clear = ao_oss_device_clear, fn_file_extension = None\<rparr>"

section \<open>The ledger\<close>

lemma oss_try_held: "oss_try b path w = (s, fd, w') \<Longrightarrow> held (blocks s) w w'"
  by (auto simp: oss_try_def held_def heap_step_def split: option.splits prod.splits
      dest!: strdup_heap dest: calls_only_sel(1,2) [OF ask_ret_calls])

lemma oss_unblock_held: "oss_unblock b blocking fd w = (fd', w') \<Longrightarrow> held 0 w w'"
  by (auto simp: oss_unblock_def held_def split: if_splits prod.splits
      dest: calls_only_sel(1,2) [OF ask_ret_calls])

lemma open_default_held:
  assumes "open_default_oss_device b n blocking w = (path, fd, w')"
  shows "held (blocks path) w w'"
proof -
  obtain p1 fd1 w1 where t1: "oss_try b (oss_path ''/dev/sound/dsp'' n) w = (p1, fd1, w1)"
    by (metis prod_cases3)
  obtain p2 fd2 w2 where t2: "(if fd1 < 0 then oss_try b (oss_path ''/dev/dsp'' n) (free_block w1)
      else (p1, fd1, w1)) = (p2, fd2, w2)"
    by (metis prod_cases3)
  obtain fd3 w3 where t3: "oss_unblock b blocking fd2 w2 = (fd3, w3)" by fastforce
  have h1: "held (blocks p1) w w1" using oss_try_held [OF t1] .
  have h2: "p1 \<noteq> None \<Longrightarrow> held (blocks p2) w w2"
    using t2 h1 oss_try_held [of b _ "free_block w1"] by (auto simp: held_def split: if_splits)
  show ?thesis
    using assms t1 t2 t3 h1 h2 oss_unblock_held [OF t3]
    by (auto simp: open_default_oss_device_def held_def split: if_splits)
qed

lemma ao_oss_init_law:
  assumes "ao_oss_device_init d w = Some (r, d', w')" and "internal d = None"
  shows "books 0 plugin_blocks d w d' w' \<and> setup_frame d d'"
proof -
  obtain ok v where m: "malloc_ok w = (ok, v)" by (cases "malloc_ok w")
  with assms malloc_ok_heap [OF m] show ?thesis
    by (cases ok)
       (auto simp: ao_oss_device_init_def books_def ledger setup_frame_def core_frame_def heap_step_def)
qed

lemma ao_oss_set_option_law:
  assumes "ao_oss_set_option d k v w = Some (r, d', w')"
  shows "books 0 plugin_blocks d w d' w' \<and> setup_frame d d'"
  using assms
  by (auto simp: ao_oss_set_option_def books_def ledger setup_frame_def core_frame_def heap_step_def
      plugin_state_iff split: if_splits Option.bind_splits prod.splits dest!: strdup_heap)

lemma oss_settings_calls:
  "oss_set_channels b fd channels w = (ok, w') \<Longrightarrow> calls_only w w'"
  "oss_set_speed fd rate w = (ok, w') \<Longrightarrow> calls_only w w'"
  "oss_block_size fd w = (n, w') \<Longrightarrow> calls_only w w'"
  by (auto simp: oss_set_channels_def oss_set_speed_def oss_block_size_def ask_calls
      split: if_splits prod.splits)

lemma oss_descriptor_held:
  "oss_descriptor b i w = (i', w') \<Longrightarrow> held (blocks (oss_dev i') - blocks (oss_dev i)) w w'"
  by (auto simp: oss_descriptor_def held_def split: option.splits prod.splits
      dest: calls_only_sel(1,2) [OF ask_ret_calls] dest!: open_default_held)

lemma oss_configure_law:
  assumes "oss_configure b fd d format w = (ok, d', w')"
  shows "calls_only w w' \<and> device_blocks plugin_blocks d' = device_blocks plugin_blocks d \<and>
    core_frame d d' \<and> internal d' = internal d"
proof -
  obtain ok1 w1 where c: "oss_set_channels b fd (output_channels d) w = (ok1, w1)" by fastforce
  let ?d = "if fmt_bits format = 16 then d\<lparr>driver_byte_format := client_byte_format d\<rparr> else d"
  obtain ok2 w2 where z: "oss_sample_size b fd ?d format w1 = (ok2, w2)" by fastforce
  obtain ok3 w3 where v: "oss_set_speed fd (fmt_rate format) w2 = (ok3, w3)" by fastforce
  have "calls_only w1 w2" using z by (auto simp: oss_sample_size_def ask_calls split: if_splits prod.splits)
  then have "calls_only w w1" "calls_only w w2" "calls_only w w3"
    using oss_settings_calls(1) [OF c] oss_settings_calls(2) [OF v] calls_only_trans by blast+
  with assms c z v show ?thesis
    by (auto simp: oss_configure_def ledger core_frame_def split: if_splits)
qed

lemma ao_oss_open_law:
  assumes "ao_oss_open b d format w = Some (r, d', sf', w')"
  shows "books 0 plugin_blocks d w d' w' \<and> core_frame d d' \<and> sf' = format"
proof -
  from assms obtain i where i: "oss_state d = Some i"
    by (auto simp: ao_oss_open_def split: Option.bind_splits)
  obtain j w1 where j: "oss_descriptor b i w = (j, w1)" by fastforce
  have b1: "books 0 plugin_blocks d w (set_oss j d) w1" "core_frame d (set_oss j d)"
    using oss_descriptor_held [OF j] i by (auto simp: held_def books_def ledger plugin_state_iff core_frame_def)
  show ?thesis
  proof (cases "oss_fd j < 0")
    case True
    with assms i j b1 show ?thesis by (simp add: ao_oss_open_def)
  next
    case False
    with assms i j obtain n where n: "oss_bytesperframe j (output_channels d) format = Some n"
      by (auto simp: ao_oss_open_def split: Option.bind_splits)
    let ?w2 = "snd (ask (Ioctl (oss_fd j) ''SNDCTL_DSP_SETFRAGMENT'' (0x00040000 OR ilog n)) w1)"
    obtain ok e w3 where c: "oss_configure b (oss_fd j) (set_oss j d) format ?w2 = (ok, e, w3)"
      by (metis prod_cases3)
    note l = oss_configure_law [OF c]
    have b3: "books 0 plugin_blocks d w e w3" "core_frame d e" "internal e = internal (set_oss j d)"
      using b1 l calls_only_sel [of ?w2 w3] core_frame_trans [OF b1(2)] by (auto simp: books_def)
    show ?thesis
    proof (cases ok)
      case ok: False
      with assms i j False n c have "r = False" "d' = e" "sf' = format"
        "w' = snd (ask_ret (Close (oss_fd j)) w3)" by (simp_all add: ao_oss_open_def)
      with b3 show ?thesis by (simp add: books_def)
    next
      case ok: True
      obtain k w4 where k: "oss_block_size (oss_fd j) w3 = (k, w4)" by fastforce
      let ?e = "set_oss (j\<lparr>oss_buf_size := k\<rparr>) e"
      obtain e' w5 where m: "stereo_matrix ?e w4 = (e', w5)" by fastforce
      have "device_blocks plugin_blocks ?e = device_blocks plugin_blocks e"
        using b3(3) by (simp add: ledger)
      then have "books 0 plugin_blocks d w ?e w4" "core_frame d ?e"
        using b3(1,2) calls_only_sel [OF oss_settings_calls(3) [OF k]] by (auto simp: books_def core_frame_def)
      moreover have "d' = e'" "sf' = format" "w' = w5" using assms i j False n c ok k m
        by (simp_all add: ao_oss_open_def)
      ultimately show ?thesis
        using stereo_matrix_law [OF m, of plugin_blocks] books_trans0 core_frame_trans by blast
    qed
  qed
qed

lemma send_size:
  fixes num_bytes :: "32 word"
  assumes "0 \<le> sint (if num_bytes > m then m else num_bytes)"
  shows "nat (sint (if num_bytes > m then m else num_bytes)) \<le> unat num_bytes"
  using assms by (auto simp: sint_nonneg word_less_nat_alt)

text \<open>One turn of the loop, \<open>loop\<close> being what it does next.\<close>

lemma oss_play_turn:
  assumes "(if num_bytes = 0 then Some (True, w)
      else
        let send = int_of_u32 (if num_bytes > word_of_int buf_size then word_of_int buf_size else num_bytes)
        in if send < 0 then None
           else Option.bind (load (nat send) samples 0) (\<lambda>bs.
             case ask_ret (Write fd bs) w of (ret, w) \<Rightarrow>
               if ret < 0
               then if w_errno w = EINTR then loop fd buf_size samples num_bytes w
                    else Some (False, w)
               else loop fd buf_size (drop (nat ret) samples)
                      (num_bytes - word_of_int ret) w)) = Some y"
  obtains (all) "num_bytes = 0" "y = (True, w)"
  | (again) send r v where "ask_ret (Write fd (take send samples)) w = (r, v)" "r < 0"
      "loop fd buf_size samples num_bytes v = Some y"
  | (fail) send r v where "ask_ret (Write fd (take send samples)) w = (r, v)" "r < 0" "y = (False, v)" "w_errno v \<noteq> EINTR"
  | (some) send r v where "ask_ret (Write fd (take send samples)) w = (r, v)" "0 \<le> r"
      "send \<le> length samples" "send \<le> unat num_bytes"
      "loop fd buf_size (drop (nat r) samples) (num_bytes - word_of_int r) v = Some y"
proof (cases "num_bytes = 0")
  case True
  with assms all show ?thesis by simp
next
  case False
  define send where "send = int_of_u32 (if num_bytes > word_of_int buf_size then word_of_int buf_size else num_bytes)"
  have nonneg: "0 \<le> send" using assms False by (auto simp: send_def split: if_splits)
  then have le: "nat send \<le> unat num_bytes" unfolding send_def by (rule send_size)
  from assms False nonneg obtain bs where bs: "load (nat send) samples 0 = Some bs"
    unfolding send_def [symmetric] by (auto split: Option.bind_splits)
  then have c: "bs = take (nat send) samples" "nat send \<le> length samples"
    by (auto simp: load_def split: if_splits)
  obtain r v where a: "ask_ret (Write fd bs) w = (r, v)" by fastforce
  have w: "ask_ret (Write fd (take (nat send) samples)) w = (r, v)" using a c by simp
  have rest: "(if r < 0 then if w_errno v = EINTR then loop fd buf_size samples num_bytes v else Some (False, v)
      else loop fd buf_size (drop (nat r) samples) (num_bytes - word_of_int r) v) = Some y"
    using assms False nonneg bs a unfolding send_def [symmetric] by simp
  consider "r < 0" "w_errno v = EINTR" | "r < 0" "w_errno v \<noteq> EINTR" | "0 \<le> r" by linarith
  then show ?thesis
  proof cases
    case 1
    with again [OF w] rest show ?thesis by simp
  next
    case 2
    with fail [OF w] rest show ?thesis by simp
  next
    case 3
    with some [OF w 3 c(2) le] rest show ?thesis by simp
  qed
qed

lemmas oss_play_loop_induct = oss_play_loop.raw_induct [rotated, consumes 1, case_names turn]

lemma oss_play_loop_calls:
  "oss_play_loop fd n bs k w = Some y \<Longrightarrow> calls_only w (snd y)"
proof (induction fd n bs k w y rule: oss_play_loop_induct)
  case (turn loop fd n bs k w y)
  from turn(2) show ?case
    by (cases rule: oss_play_turn) (auto dest!: ask_ret_calls turn(1) intro: calls_only_trans)
qed

lemma ao_oss_play_law:
  assumes "ao_oss_play d bs n w = Some (r, d', w')"
  shows "books 0 plugin_blocks d w d' w' \<and> d' = d"
  using assms
  by (auto simp: ao_oss_play_def split: Option.bind_splits dest!: oss_play_loop_calls intro: calls_only_books)

interpretation oss: ao_driver "ao_oss b" plugin_blocks for b
proof
  fix d d' :: live_device and w w' :: "'a posix_scheme" and r
  show "fn_device_init (ao_oss b) d w = Some (r, d', w') \<Longrightarrow> internal d = None \<Longrightarrow>
      output_matrix d = None \<Longrightarrow> books 0 plugin_blocks d w d' w' \<and> setup_frame d d'"
    using ao_oss_init_law by (simp add: ao_oss_def)
  show "fn_set_option (ao_oss b) d k v w = Some (r, d', w') \<Longrightarrow>
      books 0 plugin_blocks d w d' w' \<and> setup_frame d d'" for k v
    using ao_oss_set_option_law by (simp add: ao_oss_def)
  show "fn_open (ao_oss b) d sf w = Some (r, d', sf', w') \<Longrightarrow>
      books 0 plugin_blocks d w d' w' \<and> core_frame d d' \<and> fmt_matrix sf' = fmt_matrix sf" for sf sf'
    using ao_oss_open_law [of b d sf w r d' sf' w'] by (simp add: ao_oss_def)
  show "fn_play (ao_oss b) d bs n w = Some (r, d', w') \<Longrightarrow>
      books 0 plugin_blocks d w d' w' \<and> d' = d\<lparr>internal := internal d'\<rparr>" for bs n
    unfolding ao_oss_def by (auto dest: ao_oss_play_law)
  show "fn_close (ao_oss b) d w = Some (r, d', w') \<Longrightarrow> books 0 plugin_blocks d w d' w' \<and> core_frame d d'"
    by (auto simp: ao_oss_def ao_oss_close_def books_def ledger core_frame_def plugin_state_iff
        split: Option.bind_splits)
  show "fn_device_clear (ao_oss b) d w = Some (d', w') \<Longrightarrow>
      books 0 plugin_blocks d w d' w' \<and> core_frame d d' \<and> internal d' = None"
    by (auto simp: ao_oss_def ao_oss_device_clear_def books_def ledger core_frame_def plugin_state_iff
        split: Option.bind_splits)
qed

section \<open>What \<open>play\<close> delivers\<close>

text \<open>However the run ends, what was delivered is a prefix of the samples; all of it on success.\<close>

lemma oss_play_loop_delivers:
  "oss_play_loop fd n bs k w = Some y \<Longrightarrow> write_bounds (p_answer w) fd \<Longrightarrow>
   \<exists>m \<le> unat k. m \<le> length bs \<and> delivered fd (snd y) = delivered fd w @ take m bs \<and> (fst y \<longrightarrow> m = unat k)"
proof (induction fd n bs k w y rule: oss_play_loop_induct)
  case (turn loop fd n bs k w y)
  have keep: "write_bounds (p_answer v) fd" if "ask_ret c w = (r, v)" for c r v
    using turn(3) calls_only_sel(5) [OF ask_ret_calls [OF that]] by simp
  from turn(2) show ?case
  proof (cases rule: oss_play_turn)
    case all
    then show ?thesis by simp
  next
    case (again send r v)
    from turn(1) [OF again(3) keep [OF again(1)]] delivered_write [OF again(1)] again(2) show ?thesis by simp
  next
    case (fail send r v)
    with delivered_write [OF fail(1)] show ?thesis by (intro exI [of _ 0]) simp
  next
    case (some send r v)
    have r: "nat r \<le> send" using write_boundsD [OF turn(3) some(1)] some(3) by simp
    have k: "unat (k - word_of_int r) = unat k - nat r"
      by (rule unat_minus_written) (use some(2,4) r in auto)
    from turn(1) [OF some(5) keep [OF some(1)]] obtain m where
      m: "m \<le> unat k - nat r" "m \<le> length bs - nat r"
        "delivered fd (snd y) = delivered fd v @ take m (drop (nat r) bs)" "fst y \<longrightarrow> m = unat k - nat r"
      unfolding k by auto
    have "take (nat r) (take send bs) = take (nat r) bs" using r by (simp add: min_def)
    then have "delivered fd (snd y) = delivered fd w @ take (nat r + m) bs"
      using delivered_write [OF some(1)] m(3) by (simp add: take_add)
    moreover have "nat r + m \<le> unat k" "nat r + m \<le> length bs" "fst y \<longrightarrow> nat r + m = unat k"
      using m r some(3,4) by auto
    ultimately show ?thesis by blast
  qed
qed

text \<open>A run that returns succeeds when no write fails for good.\<close>

lemma oss_play_loop_succeeds:
  "oss_play_loop fd n bs k w = Some y \<Longrightarrow> never_fails {EINTR} (p_answer w) fd \<Longrightarrow> fst y"
proof (induction fd n bs k w y rule: oss_play_loop_induct)
  case (turn loop fd n bs k w y)
  have keep: "never_fails {EINTR} (p_answer v) fd" if "ask_ret c w = (r, v)" for c r v
    using turn(3) calls_only_sel(5) [OF ask_ret_calls [OF that]] by simp
  from turn(2) show ?case
  proof (cases rule: oss_play_turn)
    case all
    then show ?thesis by simp
  next
    case (again send r v)
    from turn(1) [OF again(3) keep [OF again(1)]] show ?thesis .
  next
    case (fail send r v)
    with turn(3) show ?thesis by (auto simp: never_fails_def ask_ret_def ask_def)
  next
    case (some send r v)
    from turn(1) [OF some(5) keep [OF some(1)]] show ?thesis .
  qed
qed

text \<open>\<open>play\<close> returns, on a system that does not put a write off for ever.\<close>

lemma oss_play_loop_returns:
  assumes "patient {EINTR} ans fd" and "write_bounds ans fd" and n: "0 < n" "n \<le> INT_MAX"
  shows "p_answer w = ans \<Longrightarrow> unat k \<le> length bs \<Longrightarrow> \<exists>y. oss_play_loop fd n bs k w = Some y"
proof (induction "unat k" arbitrary: k bs w rule: less_induct)
  case less
  let ?m = "if k > word_of_int n then word_of_int n else k"
  show ?case
  proof (cases "k = 0")
    case True
    then show ?thesis by (auto simp: oss_play_loop.simps)
  next
    case False
    have buf: "sint (word_of_int n :: 32 word) = n" "uint (word_of_int n :: 32 word) = n"
      using n by (simp_all add: INT_MAX_def signed_of_int signed_take_bit_int_eq_self unsigned_of_int take_bit_int_eq_self)
    have "0 < uint k" using False by (simp add: word_neq_0_conv word_less_def)
    then have "0 < uint ?m \<and> uint ?m \<le> INT_MAX"
      using n buf by (auto simp: word_less_def not_less word_le_def intro: order_trans)
    then have "sint ?m = uint ?m" by (simp add: INT_MAX_def sint_uint signed_take_bit_int_eq_self)
    then have m: "0 < sint ?m" "nat (sint ?m) \<le> length bs"
      using \<open>0 < uint ?m \<and> _\<close> send_size [of "word_of_int n" k] less.prems(2) by auto
    define c where "c = take (nat (sint ?m)) bs"
    have ld: "load (nat (sint ?m)) bs 0 = Some c" using m by (simp add: load_def c_def)
    have c: "c \<noteq> []" "length c = nat (sint ?m)" using m by (auto simp: c_def)
    have unfold: "oss_play_loop fd n bs k u = (case ask_ret (Write fd c) u of (r, v) \<Rightarrow>
        if r < 0 then if w_errno v = EINTR then oss_play_loop fd n bs k v else Some (False, v)
        else oss_play_loop fd n (drop (nat r) bs) (k - word_of_int r) v)" for u :: "'a posix_scheme"
      by (subst oss_play_loop.simps) (use False m(1) ld in \<open>simp add: not_less\<close>)
    have p: "patient {EINTR} (p_answer w) fd" using assms(1) less.prems(1) by simp
    show ?thesis
    proof (rule patient_induct [OF p c(1)])
      fix u v :: "'a posix_scheme" and r
      assume a: "ask (Write fd c) u = (r, v)" and s: "stalls {EINTR} r"
        and y: "\<exists>y. oss_play_loop fd n bs k v = Some y"
      from a s have "rp_ret r = 0 \<or> rp_ret r < 0 \<and> w_errno v = EINTR"
        by (auto simp: stalls_def ask_def)
      with y a show "\<exists>y. oss_play_loop fd n bs k u = Some y"
        unfolding unfold [of u] by (auto simp: ask_ret_def)
    next
      fix u v :: "'a posix_scheme" and r
      assume u: "p_answer u = p_answer w" and a: "ask (Write fd c) u = (r, v)" and s: "\<not> stalls {EINTR} r"
      have v: "p_answer v = ans" using calls_only_sel(5) [OF ask_calls [OF a]] u less.prems(1) by simp
      show "\<exists>y. oss_play_loop fd n bs k u = Some y"
      proof (cases "rp_ret r < 0")
        case True
        with a s show ?thesis unfolding unfold [of u] by (auto simp: ask_ret_def stalls_def ask_def)
      next
        case False
        then have pos: "0 < rp_ret r" using s by (auto simp: stalls_def)
        have "rp_ret r \<le> int (length c)"
          using write_boundsD [of u fd c "rp_ret r" v] a u assms(2) less.prems(1) by (simp add: ask_ret_def)
        then have le: "nat (rp_ret r) \<le> unat k"
          using c(2) send_size [of "word_of_int n" k] m(1) by auto
        have k: "unat (k - word_of_int (rp_ret r)) = unat k - nat (rp_ret r)"
          by (rule unat_minus_written) (use pos le in auto)
        have "unat (k - word_of_int (rp_ret r)) < unat k" using k pos le by simp
        moreover have "unat (k - word_of_int (rp_ret r)) \<le> length (drop (nat (rp_ret r)) bs)"
          using k less.prems(2) by simp
        ultimately have "\<exists>y. oss_play_loop fd n (drop (nat (rp_ret r)) bs) (k - word_of_int (rp_ret r)) v = Some y"
          using less.hyps v by blast
        with a False show ?thesis unfolding unfold [of u] by (auto simp: ask_ret_def)
      qed
    qed
  qed
qed

section \<open>The fragment size\<close>

lemma ilog_loop_eq: "0 < x \<Longrightarrow> \<exists>n. ilog_loop x ret = ret + 1 + int n \<and> 2 ^ n \<le> x \<and> x < 2 ^ Suc n"
proof (induction x ret rule: ilog_loop.induct)
  case (1 x ret)
  show ?case
  proof (cases "x = 1")
    case True
    then show ?thesis by (intro exI [of _ 0]) (simp add: ilog_loop.simps)
  next
    case False
    with "1.prems" have "0 < x div 2" by simp
    from "1.IH" [OF "1.prems" this] obtain n where
      n: "ilog_loop (x div 2) (ret + 1) = ret + 2 + int n" "2 ^ n \<le> x div 2" "x div 2 < 2 ^ Suc n"
      by (auto simp: algebra_simps)
    then show ?thesis using "1.prems"
      by (intro exI [of _ "Suc n"]) (subst ilog_loop.simps, auto)
  qed
qed

lemma ilog_bounds: "0 < x \<Longrightarrow> \<exists>n. ilog x = int n \<and> 2 ^ n \<le> x \<and> x < 2 ^ Suc n"
  using ilog_loop_eq [of x "-1"] by (simp add: ilog_def)

lemma ilog_none: "x \<le> 0 \<Longrightarrow> ilog x = -1"
  by (simp add: ilog_def ilog_loop.simps)

section \<open>Descriptors\<close>

text \<open>
  A device that fails after its descriptor was opened closes it, but keeps its number; the
  \<open>close\<close> of the library's error path closes it again.
\<close>

lemma ao_oss_open_failed:
  assumes "ao_oss_open b d format w = Some (False, d', sf', w')" and "oss_state d' = Some i" and "0 \<le> oss_fd i"
  obtains u where "w' = snd (ask_ret (Close (oss_fd i)) u)"
proof -
  from assms(1) obtain i0 where i0: "oss_state d = Some i0"
    by (auto simp: ao_oss_open_def split: Option.bind_splits)
  obtain j w1 where j: "oss_descriptor b i0 w = (j, w1)" by fastforce
  show ?thesis
  proof (cases "oss_fd j < 0")
    case True
    with assms i0 j show ?thesis by (auto simp: ao_oss_open_def)
  next
    case False
    with assms(1) i0 j obtain n where n: "oss_bytesperframe j (output_channels d) format = Some n"
      by (auto simp: ao_oss_open_def split: Option.bind_splits)
    let ?w2 = "snd (ask (Ioctl (oss_fd j) ''SNDCTL_DSP_SETFRAGMENT'' (0x00040000 OR ilog n)) w1)"
    obtain ok e w3 where c: "oss_configure b (oss_fd j) (set_oss j d) format ?w2 = (ok, e, w3)"
      by (metis prod_cases3)
    have st: "oss_state e = Some j" using oss_configure_law [OF c] by (simp add: plugin_state_iff)
    show ?thesis
    proof (cases ok)
      case ok: False
      with assms(1) i0 j False n c have "d' = e" "w' = snd (ask_ret (Close (oss_fd j)) w3)"
        by (simp_all add: ao_oss_open_def)
      with st assms(2) that show ?thesis by simp
    next
      case True
      with assms(1) i0 j False n c show ?thesis
        by (auto simp: ao_oss_open_def split: prod.splits)
    qed
  qed
qed

lemma ao_oss_close_calls:
  assumes "oss_state d = Some i" and "0 \<le> oss_fd i"
  shows "ao_oss_close d w = Some (True, set_oss (i\<lparr>oss_fd := -1\<rparr>) d, snd (ask_ret (Close (oss_fd i)) w))"
  using assms by (simp add: ao_oss_close_def)

end
