(* ===== verification/AO_Sun.thy ===== *)
theory AO_Sun
  imports AO_Posix
begin

text \<open>
  The Sun audio driver, \<^verbatim>\<open>src/plugins/sun/ao_sun.c\<close>.  The names of the environment variables and
  of the default device are those of the source.
\<close>

section \<open>Operations\<close>

definition AO_SUN_ENV_DEV1 :: string where "AO_SUN_ENV_DEV1 = ''UTAUDIODEV''"
definition AO_SUN_ENV_DEV2 :: string where "AO_SUN_ENV_DEV2 = ''AUDIODEV''"
definition AO_SUN_DEFAULT_DEV :: string where "AO_SUN_DEFAULT_DEV = ''/dev/audio''"

definition ao_sun_info :: ao_info where
  "ao_sun_info =
     \<lparr>info_type = AO_TYPE_LIVE, info_name = ''Sun audio driver output'', short_name = ''sun'',
      author = ''Christian Weisgerber <naddy@openbsd.org>'',
      info_comment = ''Outputs to the sun audio system.'',
      preferred_byte_format = AO_FMT_NATIVE, priority = 20,
      info_options = [''dev'', ''id'', ''verbose'', ''quiet'', ''matrix'', ''debug''],
      option_count = 6\<rparr>"

definition sun_default_dev :: "'z posix_scheme \<Rightarrow> string" where
  "sun_default_dev w = (case getenv AO_SUN_ENV_DEV1 w of
      Some dev \<Rightarrow> dev
    | None \<Rightarrow> (case getenv AO_SUN_ENV_DEV2 w of Some dev \<Rightarrow> dev | None \<Rightarrow> AO_SUN_DEFAULT_DEV))"

definition ao_sun_test :: "'z posix_scheme \<Rightarrow> (bool \<times> 'z posix_scheme) option" where
  "ao_sun_test w = (case ask_ret (Open (sun_default_dev w) True) w of (fd, w) \<Rightarrow>
     if fd < 0 then Some (False, w) else Some (True, snd (ask_ret (Close fd) w)))"

definition ao_sun_device_init ::
  "live_device \<Rightarrow> 'z posix_scheme \<Rightarrow> (bool \<times> live_device \<times> 'z posix_scheme) option" where
  "ao_sun_device_init d w = (case malloc_ok w of (ok, w) \<Rightarrow>
     if \<not> ok then Some (False, d, w)
     else (case strdup (sun_default_dev w) w of (dev, w) \<Rightarrow>
       if dev = None then Some (False, d, free_block w)
       else Some (True, (set_sun \<lparr>sun_dev = dev, sun_id = 0, sun_fd = 0\<rparr> d)
                          \<lparr>output_matrix_order := AO_OUTPUT_MATRIX_FIXED\<rparr>, w)))"

definition ao_sun_set_option ::
  "live_device \<Rightarrow> string \<Rightarrow> string option \<Rightarrow> 'z posix_scheme
    \<Rightarrow> (bool \<times> live_device \<times> 'z posix_scheme) option" where
  "ao_sun_set_option d k v w =
     (if k = ''dev'' then do {
        i \<leftarrow> sun_state d;
        v \<leftarrow> v;
        (case strdup v (free_opt (sun_dev i) w) of (s, w) \<Rightarrow>
          Some (True, set_sun (i\<lparr>sun_dev := s\<rparr>) d, w)) }
      else if k = ''id'' then do {
        i \<leftarrow> sun_state d;
        v \<leftarrow> v;
        n \<leftarrow> atoi v;
        Some (True, set_sun (i\<lparr>sun_dev := None, sun_id := n\<rparr>) d, free_opt (sun_dev i) w) }
      else Some (True, d, w))"

text \<open>\<open>open\<close> of a path; \<open>open(NULL)\<close> fails.\<close>

definition sun_path :: "ao_sun_internal \<Rightarrow> 'z posix_scheme \<Rightarrow> ao_sun_internal \<times> 'z posix_scheme" where
  "sun_path i w =
     (if sun_dev i = None
      then (case strdup (''/dev/sound/'' @ decimal (sun_id i)) w of (s, w) \<Rightarrow> (i\<lparr>sun_dev := s\<rparr>, w))
      else (i, w))"

definition sun_descriptor :: "ao_sun_internal \<Rightarrow> 'z posix_scheme \<Rightarrow> ao_sun_internal \<times> 'z posix_scheme" where
  "sun_descriptor i w = (case sun_dev i of
      None \<Rightarrow> (i\<lparr>sun_fd := -1\<rparr>, w)
    | Some path \<Rightarrow> (case ask_ret (Open path False) w of (fd, w) \<Rightarrow> (i\<lparr>sun_fd := fd\<rparr>, w)))"

definition ao_sun_open ::
  "live_device \<Rightarrow> ao_sample_format \<Rightarrow> 'z posix_scheme
    \<Rightarrow> (bool \<times> live_device \<times> ao_sample_format \<times> 'z posix_scheme) option" where
  "ao_sun_open d format w = do {
     i \<leftarrow> sun_state d;
     let (i, w) = sun_path i w;
     let (i, w) = sun_descriptor i w;
     let d = set_sun i d;
     Some (if sun_fd i < 0 then (False, d, format, w)
           else (case ask_ret (Audio_setinfo (sun_fd i) (fmt_bits format) (fmt_rate format)
                         (output_channels d)) w of (r, w) \<Rightarrow>
                   if r < 0 then (False, d, format, snd (ask_ret (Close (sun_fd i)) w))
                   else (case stereo_matrix (d\<lparr>driver_byte_format := AO_FMT_NATIVE\<rparr>) w of
                          (d, w) \<Rightarrow> (True, d, format, w)))) }"

text \<open>One \<open>write\<close>, whatever it takes.\<close>

definition ao_sun_play ::
  "live_device \<Rightarrow> byte list \<Rightarrow> 32 word \<Rightarrow> 'z posix_scheme
    \<Rightarrow> (bool \<times> live_device \<times> 'z posix_scheme) option" where
  "ao_sun_play d output_samples num_bytes w = do {
     i \<leftarrow> sun_state d;
     bs \<leftarrow> load (unat num_bytes) output_samples 0;
     (case ask_ret (Write (sun_fd i) bs) w of (r, w) \<Rightarrow> Some (\<not> r < 0, d, w)) }"

definition ao_sun_close ::
  "live_device \<Rightarrow> 'z posix_scheme \<Rightarrow> (bool \<times> live_device \<times> 'z posix_scheme) option" where
  "ao_sun_close d w = do {
     i \<leftarrow> sun_state d;
     let w = (if sun_fd i \<ge> 0 then snd (ask_ret (Close (sun_fd i)) w) else w);
     Some (True, set_sun (i\<lparr>sun_fd := -1\<rparr>) d, w) }"

definition ao_sun_device_clear ::
  "live_device \<Rightarrow> 'z posix_scheme \<Rightarrow> (live_device \<times> 'z posix_scheme) option" where
  "ao_sun_device_clear d w = do {
     i \<leftarrow> sun_state d;
     Some (d\<lparr>internal := None\<rparr>, free_block (free_opt (sun_dev i) w)) }"

definition ao_sun :: "(plugin_internal ao_internal, 'z posix_scheme) ao_functions" where
  "ao_sun =
     \<lparr>fn_test = ao_sun_test, fn_driver_info = ao_sun_info, fn_device_init = ao_sun_device_init,
      fn_set_option = ao_sun_set_option, fn_open = ao_sun_open, fn_play = ao_sun_play,
      fn_close = ao_sun_close, fn_device_clear = ao_sun_device_clear, fn_file_extension = None\<rparr>"

section \<open>The ledger\<close>

lemma ao_sun_init_law:
  assumes "ao_sun_device_init d w = Some (r, d', w')" and "internal d = None"
  shows "books 0 plugin_blocks d w d' w' \<and> setup_frame d d'"
proof -
  obtain ok v where m: "malloc_ok w = (ok, v)" by (cases "malloc_ok w")
  obtain s u where t: "strdup (sun_default_dev v) v = (s, u)" by fastforce
  show ?thesis
    using assms m t malloc_ok_heap [OF m] strdup_heap [OF t]
    by (cases ok; cases s)
       (auto simp: ao_sun_device_init_def books_def ledger setup_frame_def core_frame_def heap_step_def)
qed

lemma ao_sun_set_option_law:
  assumes "ao_sun_set_option d k v w = Some (r, d', w')"
  shows "books 0 plugin_blocks d w d' w' \<and> setup_frame d d'"
  using assms
  by (auto simp: ao_sun_set_option_def books_def ledger setup_frame_def core_frame_def heap_step_def
      plugin_state_iff split: if_splits Option.bind_splits prod.splits dest!: strdup_heap)

lemma sun_path_held: "sun_path i w = (j, w') \<Longrightarrow> held (blocks (sun_dev j) - blocks (sun_dev i)) w w'"
  by (auto simp: sun_path_def held_def heap_step_def split: if_splits prod.splits dest!: strdup_heap)

lemma sun_descriptor_held:
  "sun_descriptor i w = (j, w') \<Longrightarrow> held 0 w w' \<and> sun_dev j = sun_dev i"
  by (auto simp: sun_descriptor_def held_def calls_only_sel split: option.splits prod.splits
      dest!: ask_ret_calls)

lemma ao_sun_open_law:
  assumes "ao_sun_open d format w = Some (r, d', sf', w')"
  shows "books 0 plugin_blocks d w d' w' \<and> core_frame d d' \<and> sf' = format"
proof -
  from assms obtain i where i: "sun_state d = Some i"
    by (auto simp: ao_sun_open_def split: Option.bind_splits)
  obtain j v where j: "sun_path i w = (j, v)" by fastforce
  obtain k u where k: "sun_descriptor j v = (k, u)" by fastforce
  let ?d = "set_sun k d"
  have b: "books 0 plugin_blocks d w ?d u" "core_frame d ?d"
    using sun_path_held [OF j] sun_descriptor_held [OF k] i
    by (auto simp: held_def books_def ledger plugin_state_iff core_frame_def)
  obtain r1 u1 where s: "ask_ret (Audio_setinfo (sun_fd k) (fmt_bits format) (fmt_rate format)
      (output_channels d)) u = (r1, u1)" by fastforce
  have b1: "books 0 plugin_blocks d w ?d u1"
    using b(1) calls_only_sel [OF ask_ret_calls [OF s]] by (simp add: books_def)
  let ?e = "?d\<lparr>driver_byte_format := AO_FMT_NATIVE\<rparr>"
  obtain e u2 where m: "stereo_matrix ?e u1 = (e, u2)" by fastforce
  have "books 0 plugin_blocks d w e u2" "core_frame d e"
    using stereo_matrix_law [OF m, of plugin_blocks] b1 b(2)
    by (auto simp: books_def ledger core_frame_def)
  with assms i j k s m b b1 show ?thesis
    by (auto simp: ao_sun_open_def books_def split: if_splits)
qed

interpretation sun: ao_driver ao_sun plugin_blocks
proof
  fix d d' :: live_device and w w' :: "'a posix_scheme" and r
  show "fn_device_init ao_sun d w = Some (r, d', w') \<Longrightarrow> internal d = None \<Longrightarrow>
      output_matrix d = None \<Longrightarrow> books 0 plugin_blocks d w d' w' \<and> setup_frame d d'"
    using ao_sun_init_law by (simp add: ao_sun_def)
  show "fn_set_option ao_sun d k v w = Some (r, d', w') \<Longrightarrow>
      books 0 plugin_blocks d w d' w' \<and> setup_frame d d'" for k v
    using ao_sun_set_option_law by (simp add: ao_sun_def)
  show "fn_open ao_sun d sf w = Some (r, d', sf', w') \<Longrightarrow>
      books 0 plugin_blocks d w d' w' \<and> core_frame d d' \<and> fmt_matrix sf' = fmt_matrix sf" for sf sf'
    using ao_sun_open_law [of d sf w r d' sf' w'] by (simp add: ao_sun_def)
  show "fn_play ao_sun d bs n w = Some (r, d', w') \<Longrightarrow>
      books 0 plugin_blocks d w d' w' \<and> d' = d\<lparr>internal := internal d'\<rparr>" for bs n
    by (auto simp: ao_sun_def ao_sun_play_def calls_only_books split: Option.bind_splits prod.splits
        dest!: ask_ret_calls)
  show "fn_close ao_sun d w = Some (r, d', w') \<Longrightarrow> books 0 plugin_blocks d w d' w' \<and> core_frame d d'"
    by (auto simp: ao_sun_def ao_sun_close_def books_def ledger core_frame_def plugin_state_iff
        split: Option.bind_splits)
  show "fn_device_clear ao_sun d w = Some (d', w') \<Longrightarrow>
      books 0 plugin_blocks d w d' w' \<and> core_frame d d' \<and> internal d' = None"
    by (auto simp: ao_sun_def ao_sun_device_clear_def books_def ledger core_frame_def plugin_state_iff
        split: Option.bind_splits)
qed

section \<open>What \<open>play\<close> delivers\<close>

text \<open>
  \<open>play\<close> does not look at how much was taken: when the system takes \<open>r\<close> bytes, only those are
  delivered, and the answer is success all the same.
\<close>

lemma ao_sun_play_delivers:
  assumes "sun_state d = Some i" and "unat n \<le> length samples"
    and "ask_ret (Write (sun_fd i) (take (unat n) samples)) w = (r, v)" and "0 \<le> r"
  shows "ao_sun_play d samples n w = Some (True, d, v)"
    "delivered (sun_fd i) v = delivered (sun_fd i) w @ take (min (nat r) (unat n)) samples"
  using assms delivered_write [OF assms(3)] load_nat [of 0 "unat n" samples]
  by (simp_all add: ao_sun_play_def)

end
