(* ===== verification/AO_Esd.thy ===== *)
theory AO_Esd
  imports AO_Posix
begin

text \<open>
  The Enlightened Sound Daemon driver, \<^verbatim>\<open>src/plugins/esd/ao_esd.c\<close>.  The constants of
  \<^verbatim>\<open>esd.h\<close> are the fields of \<open>esd_header\<close>.

  The daemon only takes blocks of 4096 bytes, so \<open>play\<close> keeps an incomplete block in
  \<open>bugbuffer\<close> and \<open>close\<close> fills the last one with silence.
\<close>

record esd_header =
  ESD_BITS8 :: int
  ESD_BITS16 :: int
  ESD_MONO :: int
  ESD_STEREO :: int
  ESD_STREAM :: int
  ESD_PLAY :: int
  ESM_RUNNING :: int

section \<open>Operations\<close>

definition ao_esd_info :: ao_info where
  "ao_esd_info =
     \<lparr>info_type = AO_TYPE_LIVE, info_name = ''ESounD output'', short_name = ''esd'',
      author = ''Stan Seibert <volsung@asu.edu>'',
      info_comment = ''Outputs to the Enlightened Sound Daemon.'',
      preferred_byte_format = AO_FMT_NATIVE, priority = 40,
      info_options = [''server'', ''host'', ''matrix'', ''verbose'', ''quiet'', ''debug'', ''client_name''],
      option_count = 7\<rparr>"

text \<open>
  \<open>portable_unsetenv\<close>: the comparison is over the length of the name found in the environment.
  \<open>free\<close> of a string that is no heap block is a fault.
\<close>

definition env_matches :: "string \<Rightarrow> string \<Rightarrow> bool" where
  "env_matches name s =
     (if CHR ''='' \<in> set s
      then strncmp_eq name s (length (takeWhile (\<lambda>c. c \<noteq> CHR ''='') s))
      else name = s)"

fun unsetenv_loop ::
  "string \<Rightarrow> (string \<times> bool) list \<Rightarrow> 'z posix_scheme
    \<Rightarrow> (int \<times> (string \<times> bool) list \<times> 'z posix_scheme) option" where
  "unsetenv_loop name [] w = Some (-1, [], set_errno 0 w)"
| "unsetenv_loop name ((s, heap) # es) w =
     (if env_matches name s then if heap then Some (0, es, free_block w) else None
      else do {
        (r, es, w) \<leftarrow> unsetenv_loop name es w;
        Some (r, (s, heap) # es, w) })"

definition portable_unsetenv :: "string \<Rightarrow> 'z posix_scheme \<Rightarrow> (int \<times> 'z posix_scheme) option" where
  "portable_unsetenv name w =
     (if CHR ''='' \<in> set name then Some (-1, set_errno EINVAL w)
      else do {
        (r, es, w) \<leftarrow> unsetenv_loop name (p_environ w) w;
        Some (r, w\<lparr>p_environ := es\<rparr>) })"

text \<open>\<open>putenv\<close>: the string replaces the first with its name, or comes last.\<close>

fun putenv_in :: "string \<Rightarrow> string \<Rightarrow> (string \<times> bool) list \<Rightarrow> (string \<times> bool) list" where
  "putenv_in name str [] = [(str, True)]"
| "putenv_in name str ((s, heap) # es) =
     (if take (length name + 1) s = name @ ''='' then (str, True) # es
      else (s, heap) # putenv_in name str es)"

definition ESD_NO_SPAWN :: string where
  "ESD_NO_SPAWN = ''ESD_NO_SPAWN''"

definition ao_esd_test :: "esd_header \<Rightarrow> 'z posix_scheme \<Rightarrow> (bool \<times> 'z posix_scheme) option" where
  "ao_esd_test h w = (case strdup (ESD_NO_SPAWN @ ''=1'') w of
      (None, w) \<Rightarrow> None
    | (Some s, w) \<Rightarrow>
       (case ask_ret Esd_open_sound (w\<lparr>p_environ := putenv_in ESD_NO_SPAWN s (p_environ w)\<rparr>) of
         (sock, w) \<Rightarrow> do {
          (_, w) \<leftarrow> portable_unsetenv ESD_NO_SPAWN w;
          (if sock < 0 then Some (False, w)
           else (case ask_ret (Esd_get_standby_mode sock) w of (m, w) \<Rightarrow>
             Some (m = ESM_RUNNING h, snd (ask_ret (Esd_close sock) w)))) }))"

definition ao_esd_device_init ::
  "live_device \<Rightarrow> 'z posix_scheme \<Rightarrow> (bool \<times> live_device \<times> 'z posix_scheme) option" where
  "ao_esd_device_init d w = (case malloc_ok w of (ok, w) \<Rightarrow>
     if \<not> ok then Some (False, d, w)
     else (case strdup ''L,R'' w of (m, w) \<Rightarrow>
       Some (True, (set_esd \<lparr>esd_sock = -1, esd_host = None, esd_client_name = None,
                       esd_bugbuffer = replicate 4096 0, esd_bugfill = 0, esd_bits = 0\<rparr> d)
                     \<lparr>output_matrix_order := AO_OUTPUT_MATRIX_FIXED, output_matrix := m\<rparr>, w)))"

definition ao_esd_set_option ::
  "live_device \<Rightarrow> string \<Rightarrow> string option \<Rightarrow> 'z posix_scheme
    \<Rightarrow> (bool \<times> live_device \<times> 'z posix_scheme) option" where
  "ao_esd_set_option d k v w =
     (if k = ''host'' \<or> k = ''server'' then do {
        i \<leftarrow> esd_state d;
        v \<leftarrow> v;
        (case strdup v (free_opt (esd_host i) w) of (s, w) \<Rightarrow>
          Some (True, set_esd (i\<lparr>esd_host := s\<rparr>) d, w)) }
      else if k = ''client_name'' then do {
        i \<leftarrow> esd_state d;
        v \<leftarrow> v;
        (case strdup v (free_opt (esd_client_name i) w) of (s, w) \<Rightarrow>
          Some (True, set_esd (i\<lparr>esd_client_name := s\<rparr>) d, w)) }
      else Some (True, d, w))"

definition ao_esd_open ::
  "esd_header \<Rightarrow> live_device \<Rightarrow> ao_sample_format \<Rightarrow> 'z posix_scheme
    \<Rightarrow> (bool \<times> live_device \<times> ao_sample_format \<times> 'z posix_scheme) option" where
  "ao_esd_open h d format w =
     (if fmt_bits format \<noteq> 8 \<and> fmt_bits format \<noteq> 16 then Some (False, d, format, w)
      else do {
        i \<leftarrow> esd_state d;
        let d = set_esd (i\<lparr>esd_bits := fmt_bits format\<rparr>) d;
        (if output_channels d \<noteq> 1 \<and> output_channels d \<noteq> 2 then Some (False, d, format, w)
         else
           let esd_format = (if fmt_bits format = 8 then ESD_BITS8 h else ESD_BITS16 h) OR
                 (if output_channels d = 1 then ESD_MONO h else ESD_STEREO h) OR ESD_STREAM h OR ESD_PLAY h
           in (case ask_ret (Esd_play_stream esd_format (fmt_rate format) (esd_host i)
                      (case esd_client_name i of None \<Rightarrow> ''libao output'' | Some s \<Rightarrow> s)) w of (sock, w) \<Rightarrow>
                let d = set_esd (i\<lparr>esd_bits := fmt_bits format, esd_sock := sock\<rparr>) d
                in if sock < 0 then Some (False, d, format, w)
                   else Some (True, d\<lparr>driver_byte_format := AO_FMT_NATIVE\<rparr>, format, w))) })"

text \<open>\<open>write4096\<close>: 0, or the result of the write that failed.  It need not return.\<close>

partial_function (option) write4096_loop ::
  "int \<Rightarrow> byte list \<Rightarrow> int \<Rightarrow> 'z posix_scheme \<Rightarrow> (int \<times> 'z posix_scheme) option" where
  "write4096_loop fd output_samples num_bytes w =
     (if num_bytes > 0
      then Option.bind (load (nat num_bytes) output_samples 0) (\<lambda>bs.
        case ask_ret (Write fd bs) w of (ret, w) \<Rightarrow>
          if ret < 0
          then if w_errno w = EAGAIN \<or> w_errno w = EINTR
               then write4096_loop fd output_samples num_bytes w
               else Some (ret, w)
          else write4096_loop fd (drop (nat ret) output_samples) (num_bytes - ret) w)
      else Some (0, w))"

declare write4096_loop.simps [code]

definition write4096 :: "int \<Rightarrow> byte list \<Rightarrow> 'z posix_scheme \<Rightarrow> (int \<times> 'z posix_scheme) option" where
  "write4096 fd output_samples w = write4096_loop fd output_samples 4096 w"

text \<open>The four steps of \<open>play\<close>: fill the incomplete block, send it when full, send whole blocks, keep the rest.\<close>

definition esd_fill ::
  "ao_esd_internal \<Rightarrow> byte list \<Rightarrow> 32 word \<Rightarrow> (ao_esd_internal \<times> byte list \<times> 32 word) option" where
  "esd_fill i output_samples num_bytes =
     (if esd_bugfill i \<noteq> 0
      then
        let addto = int_of_u32 (word_of_int (esd_bugfill i) + num_bytes);
            addto = (if addto > 4096 then 4096 else addto) - esd_bugfill i
        in if addto = 0 then Some (i, output_samples, num_bytes)
           else if addto < 0 then None
           else do {
             bs \<leftarrow> load (nat addto) output_samples 0;
             buf \<leftarrow> store (esd_bugbuffer i) (esd_bugfill i) bs;
             Some (i\<lparr>esd_bugbuffer := buf, esd_bugfill := esd_bugfill i + addto\<rparr>,
                   drop (nat addto) output_samples, num_bytes - word_of_int addto) }
      else Some (i, output_samples, num_bytes))"

definition esd_flush ::
  "ao_esd_internal \<Rightarrow> 'z posix_scheme \<Rightarrow> (bool \<times> ao_esd_internal \<times> 'z posix_scheme) option" where
  "esd_flush i w =
     (if esd_bugfill i = 4096
      then do {
        (r, w) \<leftarrow> write4096 (esd_sock i) (esd_bugbuffer i) w;
        Some (if r \<noteq> 0 then (False, i, w) else (True, i\<lparr>esd_bugfill := 0\<rparr>, w)) }
      else Some (True, i, w))"

function esd_blocks ::
  "int \<Rightarrow> byte list \<Rightarrow> 32 word \<Rightarrow> 'z posix_scheme \<Rightarrow> (bool \<times> byte list \<times> 32 word \<times> 'z posix_scheme) option" where
  "esd_blocks sock output_samples num_bytes w =
     (if num_bytes \<ge> 4096 then do {
        (r, w) \<leftarrow> write4096 sock output_samples w;
        (if r \<noteq> 0 then Some (False, output_samples, num_bytes, w)
         else esd_blocks sock (drop 4096 output_samples) (num_bytes - 4096) w) }
      else Some (True, output_samples, num_bytes, w))"
  by pat_completeness auto
termination
  by (relation "measure (\<lambda>(_, _, n, _). unat n)") (auto simp: unat_sub word_le_nat_alt)

declare esd_blocks.simps [simp del]

definition esd_keep :: "ao_esd_internal \<Rightarrow> byte list \<Rightarrow> 32 word \<Rightarrow> ao_esd_internal option" where
  "esd_keep i output_samples num_bytes =
     (if num_bytes \<noteq> 0
      then do {
        bs \<leftarrow> load (unat num_bytes) output_samples 0;
        buf \<leftarrow> store (esd_bugbuffer i) 0 bs;
        Some (i\<lparr>esd_bugbuffer := buf, esd_bugfill := uint num_bytes\<rparr>) }
      else Some i)"

definition ao_esd_play ::
  "live_device \<Rightarrow> byte list \<Rightarrow> 32 word \<Rightarrow> 'z posix_scheme
    \<Rightarrow> (bool \<times> live_device \<times> 'z posix_scheme) option" where
  "ao_esd_play d output_samples num_bytes w = do {
     i \<leftarrow> esd_state d;
     (i, output_samples, num_bytes) \<leftarrow> esd_fill i output_samples num_bytes;
     (ok, i, w) \<leftarrow> esd_flush i w;
     (if \<not> ok then Some (False, set_esd i d, w)
      else do {
        (ok, output_samples, num_bytes, w) \<leftarrow> esd_blocks (esd_sock i) output_samples num_bytes w;
        (if \<not> ok then Some (False, set_esd i d, w)
         else do {
           i \<leftarrow> esd_keep i output_samples num_bytes;
           Some (True, set_esd i d, w) }) }) }"

definition ao_esd_close ::
  "live_device \<Rightarrow> 'z posix_scheme \<Rightarrow> (bool \<times> live_device \<times> 'z posix_scheme) option" where
  "ao_esd_close d w = do {
     i \<leftarrow> esd_state d;
     (i, w) \<leftarrow> (if esd_bugfill i \<noteq> 0 \<and> esd_sock i \<noteq> -1 then do {
                   buf \<leftarrow> (if esd_bugfill i < 4096
                          then store (esd_bugbuffer i) (esd_bugfill i)
                                 (replicate (nat (4096 - esd_bugfill i)) (if esd_bits i = 8 then 128 else 0))
                          else Some (esd_bugbuffer i));
                   (_, w) \<leftarrow> write4096 (esd_sock i) buf w;
                   Some (i\<lparr>esd_bugbuffer := buf, esd_bugfill := 0\<rparr>, w) }
                else Some (i, w));
     let w = (if esd_sock i \<noteq> -1 then snd (ask_ret (Esd_close (esd_sock i)) w) else w);
     Some (True, set_esd (i\<lparr>esd_sock := -1\<rparr>) d, w) }"

definition ao_esd_device_clear ::
  "live_device \<Rightarrow> 'z posix_scheme \<Rightarrow> (live_device \<times> 'z posix_scheme) option" where
  "ao_esd_device_clear d w = do {
     i \<leftarrow> esd_state d;
     Some (d\<lparr>internal := None\<rparr>, free_block (free_opt (esd_client_name i) (free_opt (esd_host i) w))) }"

definition ao_esd :: "esd_header \<Rightarrow> (plugin_internal ao_internal, 'z posix_scheme) ao_functions" where
  "ao_esd h =
     \<lparr>fn_test = ao_esd_test h, fn_driver_info = ao_esd_info, fn_device_init = ao_esd_device_init,
      fn_set_option = ao_esd_set_option, fn_open = ao_esd_open h, fn_play = ao_esd_play,
      fn_close = ao_esd_close, fn_device_clear = ao_esd_device_clear, fn_file_extension = None\<rparr>"

section \<open>Writing a block\<close>

lemmas write4096_induct = write4096_loop.raw_induct [rotated, consumes 1, case_names turn]

text \<open>One turn of the loop, \<open>loop\<close> being what it does next.\<close>

lemma write4096_turn:
  assumes "(if num_bytes > 0
      then Option.bind (load (nat num_bytes) samples 0) (\<lambda>bs.
        case ask_ret (Write fd bs) w of (ret, w) \<Rightarrow>
          if ret < 0
          then if w_errno w = EAGAIN \<or> w_errno w = EINTR then loop fd samples num_bytes w else Some (ret, w)
          else loop fd (drop (nat ret) samples) (num_bytes - ret) w)
      else Some (0, w)) = Some y"
  obtains (all) "num_bytes \<le> 0" "y = (0, w)"
  | (again) r v where "ask_ret (Write fd (take (nat num_bytes) samples)) w = (r, v)" "r < 0"
      "loop fd samples num_bytes v = Some y"
  | (fail) r v where "ask_ret (Write fd (take (nat num_bytes) samples)) w = (r, v)" "r < 0" "y = (r, v)"
  | (some) r v where "ask_ret (Write fd (take (nat num_bytes) samples)) w = (r, v)" "0 \<le> r"
      "0 < num_bytes" "nat num_bytes \<le> length samples"
      "loop fd (drop (nat r) samples) (num_bytes - r) v = Some y"
proof (cases "num_bytes > 0")
  case False
  with assms all show ?thesis by simp
next
  case True
  with assms obtain bs where bs: "load (nat num_bytes) samples 0 = Some bs"
    by (auto split: Option.bind_splits)
  then have c: "bs = take (nat num_bytes) samples" "nat num_bytes \<le> length samples"
    by (auto simp: load_def split: if_splits)
  obtain r v where a: "ask_ret (Write fd (take (nat num_bytes) samples)) w = (r, v)" by fastforce
  have rest: "(if r < 0 then if w_errno v = EAGAIN \<or> w_errno v = EINTR then loop fd samples num_bytes v
        else Some (r, v)
      else loop fd (drop (nat r) samples) (num_bytes - r) v) = Some y"
    using assms True bs a c by simp
  consider "r < 0" "w_errno v = EAGAIN \<or> w_errno v = EINTR"
    | "r < 0" "\<not> (w_errno v = EAGAIN \<or> w_errno v = EINTR)" | "0 \<le> r" by linarith
  then show ?thesis
  proof cases
    case 1
    with again [OF a] rest show ?thesis by simp
  next
    case 2
    with fail [OF a] rest show ?thesis by simp
  next
    case 3
    with some [OF a 3 True c(2)] rest show ?thesis by simp
  qed
qed

lemma write4096_loop_calls:
  "write4096_loop fd bs k w = Some y \<Longrightarrow> calls_only w (snd y)"
proof (induction fd bs k w y rule: write4096_induct)
  case (turn loop fd bs k w y)
  from turn(2) show ?case
    by (cases rule: write4096_turn) (auto dest!: ask_ret_calls turn(1) intro: calls_only_trans)
qed

lemma write4096_loop_delivers:
  "write4096_loop fd bs k w = Some y \<Longrightarrow> write_bounds (p_answer w) fd \<Longrightarrow> fst y = 0 \<Longrightarrow>
   nat k \<le> length bs \<and> delivered fd (snd y) = delivered fd w @ take (nat k) bs"
proof (induction fd bs k w y rule: write4096_induct)
  case (turn loop fd bs k w y)
  have keep: "write_bounds (p_answer v) fd" if "ask_ret c w = (r, v)" for c r v
    using turn(3) calls_only_sel(5) [OF ask_ret_calls [OF that]] by simp
  from turn(2) show ?case
  proof (cases rule: write4096_turn)
    case all
    then show ?thesis by simp
  next
    case (again r v)
    from turn(1) [OF again(3) keep [OF again(1)] turn(4)] delivered_write [OF again(1)] again(2)
    show ?thesis by simp
  next
    case (fail r v)
    with turn(4) show ?thesis by simp
  next
    case (some r v)
    have r: "nat r \<le> nat k" using write_boundsD [OF turn(3) some(1)] some(3,4) by simp
    note ih = turn(1) [OF some(5) keep [OF some(1)] turn(4)]
    have "delivered fd (snd y) = delivered fd w @ take (nat r) bs @ take (nat (k - r)) (drop (nat r) bs)"
      using ih delivered_write [OF some(1)] r by (simp add: min_def)
    also have "take (nat r) bs @ take (nat (k - r)) (drop (nat r) bs) = take (nat k) bs"
      using r some(2,3) by (simp flip: take_add nat_add_distrib)
    finally show ?thesis using some(4) by simp
  qed
qed

lemma write4096_loop_returns:
  assumes "patient {EAGAIN, EINTR} ans fd" and "write_bounds ans fd"
  shows "p_answer w = ans \<Longrightarrow> nat k \<le> length bs \<Longrightarrow>
    \<exists>r v. write4096_loop fd bs k w = Some (r, v) \<and> (never_fails {EAGAIN, EINTR} ans fd \<longrightarrow> r = 0)"
proof (induction "nat k" arbitrary: k bs w rule: less_induct)
  case less
  let ?P = "\<lambda>k bs u. \<exists>r v. write4096_loop fd bs k u = Some (r, v) \<and>
    (never_fails {EAGAIN, EINTR} ans fd \<longrightarrow> r = 0)"
  show ?case
  proof (cases "k > 0")
    case False
    then show ?thesis by (simp add: write4096_loop.simps)
  next
    case True
    define c where "c = take (nat k) bs"
    have ld: "load (nat k) bs 0 = Some c" using less.prems(2) True by (simp add: load_def c_def)
    have c: "c \<noteq> []" "length c = nat k" using less.prems(2) True by (auto simp: c_def)
    have unfold: "write4096_loop fd bs k u = (case ask_ret (Write fd c) u of (ret, w) \<Rightarrow>
          if ret < 0
          then if w_errno w = EAGAIN \<or> w_errno w = EINTR then write4096_loop fd bs k w else Some (ret, w)
          else write4096_loop fd (drop (nat ret) bs) (k - ret) w)" for u :: "'a posix_scheme"
      by (subst write4096_loop.simps) (use True ld in simp)
    have p: "patient {EAGAIN, EINTR} (p_answer w) fd" using assms(1) less.prems(1) by simp
    show ?thesis
    proof (rule patient_induct [OF p c(1)])
      fix u v :: "'a posix_scheme" and r
      assume a: "ask (Write fd c) u = (r, v)" and s: "stalls {EAGAIN, EINTR} r" and y: "?P k bs v"
      from a s have "rp_ret r = 0 \<or> rp_ret r < 0 \<and> (w_errno v = EAGAIN \<or> w_errno v = EINTR)"
        by (auto simp: stalls_def ask_def)
      with y a show "?P k bs u"
        unfolding unfold [of u] by (auto simp: ask_ret_def)
    next
      fix u v :: "'a posix_scheme" and r
      assume u: "p_answer u = p_answer w" and a: "ask (Write fd c) u = (r, v)"
        and s: "\<not> stalls {EAGAIN, EINTR} r"
      have v: "p_answer v = ans" using calls_only_sel(5) [OF ask_calls [OF a]] u less.prems(1) by simp
      show "?P k bs u"
      proof (cases "rp_ret r < 0")
        case True
        moreover have "\<not> never_fails {EAGAIN, EINTR} ans fd"
          using True a s u less.prems(1) by (auto simp: stalls_def ask_def never_fails_def)
        ultimately show ?thesis
          using a s unfolding unfold [of u] by (auto simp: ask_ret_def stalls_def ask_def)
      next
        case False
        then have pos: "0 < rp_ret r" using s by (auto simp: stalls_def)
        have "nat (k - rp_ret r) < nat k" using pos True by simp
        moreover have "nat (k - rp_ret r) \<le> length (drop (nat (rp_ret r)) bs)"
          using less.prems(2) pos by simp
        ultimately have "?P (k - rp_ret r) (drop (nat (rp_ret r)) bs) v"
          using less.hyps v by blast
        with a False show ?thesis unfolding unfold [of u] by (auto simp: ask_ret_def)
      qed
    qed
  qed
qed

lemma write4096_returns:
  assumes "reliable {EAGAIN, EINTR} (p_answer w) fd" and "4096 \<le> length bs"
  obtains v where "write4096 fd bs w = Some (0, v)" "calls_only w v"
    "delivered fd v = delivered fd w @ take 4096 bs"
proof -
  have r: "patient {EAGAIN, EINTR} (p_answer w) fd" "write_bounds (p_answer w) fd"
    "never_fails {EAGAIN, EINTR} (p_answer w) fd" using assms(1) by (simp_all add: reliable_def)
  from write4096_loop_returns [OF r(1,2) refl, of 4096 bs] assms(2) r(3) obtain v where
    v: "write4096_loop fd bs 4096 w = Some (0, v)" by auto
  from that v write4096_loop_calls [OF v] write4096_loop_delivers [OF v r(2)] show ?thesis
    by (simp add: write4096_def)
qed

section \<open>The stream of blocks\<close>

text \<open>The state between calls: a buffer of 4096 bytes of which the first \<open>bugfill\<close> are pending.\<close>

definition esd_ok :: "ao_esd_internal \<Rightarrow> bool" where
  "esd_ok i \<longleftrightarrow> length (esd_bugbuffer i) = 4096 \<and> 0 \<le> esd_bugfill i \<and> esd_bugfill i \<le> 4096"

definition pending :: "ao_esd_internal \<Rightarrow> byte list" where
  "pending i = take (nat (esd_bugfill i)) (esd_bugbuffer i)"

text \<open>The two fields that \<open>play\<close> changes.\<close>

definition same_stream :: "ao_esd_internal \<Rightarrow> ao_esd_internal \<Rightarrow> bool" where
  "same_stream i j \<longleftrightarrow> j = i\<lparr>esd_bugbuffer := esd_bugbuffer j, esd_bugfill := esd_bugfill j\<rparr>"

lemma same_stream_refl [simp]: "same_stream i i"
  by (simp add: same_stream_def)

lemma same_stream_trans: "same_stream i j \<Longrightarrow> same_stream j k \<Longrightarrow> same_stream i k"
  by (cases i; cases j; cases k) (simp add: same_stream_def)

lemma same_stream_sel:
  assumes "same_stream i j"
  shows "esd_sock j = esd_sock i" "esd_host j = esd_host i" "esd_client_name j = esd_client_name i"
    "esd_bits j = esd_bits i"
  using assms by (cases i; cases j; simp add: same_stream_def)+

text \<open>One stage of \<open>play\<close>: whole blocks go out, and nothing is lost or reordered.\<close>

definition esd_stage ::
  "ao_esd_internal \<Rightarrow> byte list \<Rightarrow> 'z posix_scheme \<Rightarrow> ao_esd_internal \<Rightarrow> byte list \<Rightarrow> 'z posix_scheme \<Rightarrow> bool" where
  "esd_stage i xs w j ys v \<longleftrightarrow>
     esd_ok j \<and> same_stream i j \<and> calls_only w v \<and>
     (\<exists>out. delivered (esd_sock i) v = delivered (esd_sock i) w @ out \<and> 4096 dvd length out \<and>
        out @ pending j @ ys = pending i @ xs)"

lemma esd_stage_trans:
  assumes "esd_stage i xs w j ys v" and "esd_stage j ys v k zs u"
  shows "esd_stage i xs w k zs u"
proof -
  from assms obtain o1 o2 where
    "delivered (esd_sock i) v = delivered (esd_sock i) w @ o1" "4096 dvd length o1"
    "o1 @ pending j @ ys = pending i @ xs"
    "delivered (esd_sock j) u = delivered (esd_sock j) v @ o2" "4096 dvd length o2"
    "o2 @ pending k @ zs = pending j @ ys" "esd_sock j = esd_sock i"
    using same_stream_sel(1) by (auto simp: esd_stage_def)
  then have "delivered (esd_sock i) u = delivered (esd_sock i) w @ (o1 @ o2)"
    "4096 dvd length (o1 @ o2)" "(o1 @ o2) @ pending k @ zs = pending i @ xs"
    by simp_all
  then show ?thesis
    using assms same_stream_trans calls_only_trans unfolding esd_stage_def by blast
qed

lemma store_pending:
  assumes "length buf = 4096" and "k + length bs \<le> 4096"
  obtains buf' where "store buf (int k) bs = Some buf'" "length buf' = 4096"
    "take (k + length bs) buf' = take k buf @ bs"
proof -
  have le: "k + length bs \<le> length buf" using assms by simp
  have "length (take k buf @ bs @ drop (k + length bs) buf) = 4096" using assms by simp
  moreover have "take (k + length bs) (take k buf @ bs @ drop (k + length bs) buf) = take k buf @ bs"
    using le by simp
  ultimately show ?thesis using that store_nat [OF le] by blast
qed

lemma esd_fill_stage:
  assumes i: "esd_ok i" and n: "unat n \<le> length samples" "unat n + 4096 \<le> nat INT_MAX"
  obtains j m where "esd_fill i samples n = Some (j, drop (unat n - unat m) samples, m)"
    "unat m \<le> unat n" "esd_stage i (take (unat n) samples) w j (take (unat m) (drop (unat n - unat m) samples)) w"
    "esd_bugfill j = 0 \<or> esd_bugfill j = 4096 \<or> m = 0"
proof (cases "esd_bugfill i = 0")
  case True
  with i that [of i n] show ?thesis by (simp add: esd_fill_def esd_stage_def)
next
  case False
  define f where "f = nat (esd_bugfill i)"
  have f: "esd_bugfill i = int f" "0 < f" "f \<le> 4096" "length (esd_bugbuffer i) = 4096"
    using i False by (auto simp: esd_ok_def f_def)
  have "word_of_int (int f) + n = (of_nat (f + unat n) :: 32 word)" by simp
  moreover have "f + unat n \<le> nat INT_MAX" using n(2) f(3) by linarith
  then have "int (f + unat n) \<le> INT_MAX" by (subst (asm) le_nat_iff) (simp add: INT_MAX_def)
  ultimately have sum: "int_of_u32 (word_of_int (int f) + n) = int (f + unat n)"
    using sint_of_nat32 by presburger
  define a where "a = min (4096 - f) (unat n)"
  have add: "(if int (f + unat n) > 4096 then 4096 else int (f + unat n)) - int f = int a"
    using f(3) by (auto simp: a_def min_def simp del: of_nat_unat)
  have fill_a: "esd_fill i samples n =
     (if a = 0 then Some (i, samples, n)
      else Option.bind (load a samples 0) (\<lambda>bs. Option.bind (store (esd_bugbuffer i) (int f) bs) (\<lambda>buf.
        Some (i\<lparr>esd_bugbuffer := buf, esd_bugfill := int f + int a\<rparr>, drop a samples,
              n - word_of_int (int a)))))"
    unfolding esd_fill_def f(1) sum Let_def add using f(2) by simp
  show ?thesis
  proof (cases "a = 0")
    case True
    then have "f = 4096 \<or> n = 0" using f(3) by (auto simp: a_def min_def unat_eq_0 split: if_splits)
    with True f(1) i that [of i n] show ?thesis
      unfolding fill_a by (auto simp: esd_stage_def)
  next
    case False
    have a: "f + a \<le> 4096" "a \<le> unat n" using f(3) by (auto simp: a_def)
    let ?bs = "take a samples"
    have len: "length ?bs = a" using a n(1) by simp
    from store_pending [OF f(4), of f ?bs] a len obtain buf where
      buf: "store (esd_bugbuffer i) (int f) ?bs = Some buf" "length buf = 4096"
        "take (f + a) buf = take f (esd_bugbuffer i) @ ?bs" by auto
    let ?j = "i\<lparr>esd_bugbuffer := buf, esd_bugfill := int f + int a\<rparr>"
    let ?m = "n - word_of_int (int a)"
    have m: "unat ?m = unat n - a"
      using unat_minus_written_nat [OF a(2)] by simp
    have fill: "esd_fill i samples n = Some (?j, drop a samples, ?m)"
      unfolding fill_a using False buf(1) load_nat [of 0 a samples] a(2) n(1) by simp
    have "esd_ok ?j" using buf(2) a by (simp add: esd_ok_def)
    moreover have "pending ?j = pending i @ ?bs" using buf(3) f(1) by (simp add: pending_def nat_int_add)
    moreover have "?bs @ take (unat ?m) (drop (unat n - unat ?m) samples) = take (unat n) samples"
      using m a by (simp flip: take_add)
    ultimately have st: "esd_stage i (take (unat n) samples) w ?j (take (unat ?m) (drop (unat n - unat ?m) samples)) w"
      by (simp add: esd_stage_def same_stream_def)
    have "esd_bugfill ?j = 4096 \<or> ?m = 0"
    proof (cases "a = unat n")
      case True
      then have "unat ?m = 0" using m by simp
      then show ?thesis by (simp only: unat_eq_0 simp_thms)
    next
      case False
      then have "a = 4096 - f" by (auto simp: a_def min_def split: if_splits)
      with f(3) show ?thesis by simp
    qed
    with that [of ?j ?m] fill st m a show ?thesis by simp
  qed
qed

lemma esd_flush_stage:
  assumes i: "esd_ok i" and r: "reliable {EAGAIN, EINTR} (p_answer w) (esd_sock i)"
  obtains j v where "esd_flush i w = Some (True, j, v)" "esd_stage i ys w j ys v"
    "esd_bugfill j = (if esd_bugfill i = 4096 then 0 else esd_bugfill i)"
proof (cases "esd_bugfill i = 4096")
  case False
  with i that [of i w] show ?thesis by (simp add: esd_flush_def esd_stage_def)
next
  case True
  have len: "length (esd_bugbuffer i) = 4096" using i by (simp add: esd_ok_def)
  from write4096_returns [OF r, of "esd_bugbuffer i"] len obtain v where
    v: "write4096 (esd_sock i) (esd_bugbuffer i) w = Some (0, v)" "calls_only w v"
      "delivered (esd_sock i) v = delivered (esd_sock i) w @ esd_bugbuffer i" by auto
  have "pending i = esd_bugbuffer i" using True len by (simp add: pending_def)
  with v len that [of "i\<lparr>esd_bugfill := 0\<rparr>" v] True show ?thesis
    by (simp add: esd_flush_def esd_stage_def esd_ok_def same_stream_def pending_def)
qed

lemma esd_blocks_stage:
  assumes i: "esd_ok i" "esd_bugfill i = 0"
  shows "reliable {EAGAIN, EINTR} (p_answer w) (esd_sock i) \<Longrightarrow> unat n \<le> length samples \<Longrightarrow>
    \<exists>m v. esd_blocks (esd_sock i) samples n w = Some (True, drop (unat n - unat m) samples, m, v) \<and>
      m < 4096 \<and> unat m \<le> unat n \<and>
      esd_stage i (take (unat n) samples) w i (take (unat m) (drop (unat n - unat m) samples)) v"
proof (induction "esd_sock i" samples n w rule: esd_blocks.induct)
  case (1 samples n w)
  show ?case
  proof (cases "n \<ge> 4096")
    case False
    then have "esd_blocks (esd_sock i) samples n w = Some (True, samples, n, w)"
      by (simp add: esd_blocks.simps)
    with False i(1) show ?thesis by (intro exI [of _ n] exI [of _ w]) (simp add: esd_stage_def not_le)
  next
    case True
    then have n: "4096 \<le> unat n" "unat (n - 4096) = unat n - 4096"
      by (auto simp: word_le_nat_alt unat_sub)
    from write4096_returns [OF "1.prems"(1), of samples] n(1) "1.prems"(2) obtain u where
      u: "write4096 (esd_sock i) samples w = Some (0, u)" "calls_only w u"
        "delivered (esd_sock i) u = delivered (esd_sock i) w @ take 4096 samples" by auto
    have p: "reliable {EAGAIN, EINTR} (p_answer u) (esd_sock i)"
      using "1.prems"(1) calls_only_sel(5) [OF u(2)] by simp
    have l: "unat (n - 4096) \<le> length (drop 4096 samples)" using n "1.prems"(2) by simp
    from "1.hyps" [OF True u(1) refl _ p l] obtain m v where
      m: "esd_blocks (esd_sock i) (drop 4096 samples) (n - 4096) u =
          Some (True, drop (unat n - 4096 - unat m) (drop 4096 samples), m, v)" "m < 4096"
        "unat m \<le> unat n - 4096"
        "esd_stage i (take (unat n - 4096) (drop 4096 samples)) u i
          (take (unat m) (drop (unat n - 4096 - unat m) (drop 4096 samples))) v"
      unfolding n(2) by blast
    have shift: "drop (unat n - 4096 - unat m) (drop 4096 samples) = drop (unat n - unat m) samples"
      using m(3) n(1) by (simp add: algebra_simps)
    have "esd_blocks (esd_sock i) samples n w = Some (True, drop (unat n - unat m) samples, m, v)"
      using True u(1) m(1) unfolding shift by (subst esd_blocks.simps) simp
    moreover have "take 4096 samples @ take (unat n - 4096) (drop 4096 samples) = take (unat n) samples"
      using n(1) by (simp flip: take_add)
    then have "esd_stage i (take (unat n) samples) w i (take (unat n - 4096) (drop 4096 samples)) u"
      using u i n(1) "1.prems"(2) by (simp add: esd_stage_def pending_def)
    with m(4) have "esd_stage i (take (unat n) samples) w i
        (take (unat m) (drop (unat n - unat m) samples)) v"
      unfolding shift by (rule esd_stage_trans [rotated])
    ultimately show ?thesis using m(2,3) by (intro exI [of _ m] exI [of _ v]) simp
  qed
qed

lemma esd_keep_stage:
  assumes i: "esd_ok i" and n: "n < 4096" "unat n \<le> length ys" "esd_bugfill i = 0 \<or> n = 0"
  obtains j where "esd_keep i ys n = Some j" "esd_stage i (take (unat n) ys) w j [] w"
    "esd_bugfill j = (if n = 0 then esd_bugfill i else uint n)"
proof (cases "n = 0")
  case True
  with i that [of i] show ?thesis by (simp add: esd_keep_def esd_stage_def)
next
  case False
  have len: "length (esd_bugbuffer i) = 4096" using i by (simp add: esd_ok_def)
  have lt: "unat n < 4096" using n(1) by (simp add: word_less_nat_alt)
  from store_pending [OF len, of 0 "take (unat n) ys"] n(2) lt obtain buf where
    buf: "store (esd_bugbuffer i) 0 (take (unat n) ys) = Some buf" "length buf = 4096"
      "take (unat n) buf = take (unat n) ys" by auto
  let ?j = "i\<lparr>esd_bugbuffer := buf, esd_bugfill := uint n\<rparr>"
  have "esd_keep i ys n = Some ?j" 
    using False buf(1) load_nat [of 0 "unat n" ys] n(2) by (simp add: esd_keep_def)
  moreover have "esd_ok ?j" using buf(2) n(1) by (simp add: esd_ok_def word_less_def)
  moreover have "pending i = []" "pending ?j = take (unat n) ys"
    using n(3) False buf(3) by (simp_all add: pending_def)
  ultimately show ?thesis
    using that [of ?j] False by (simp add: esd_stage_def same_stream_def)
qed

text \<open>
  \<open>play\<close> on a daemon that takes everything in the end: it returns, whole blocks have gone out,
  and what went out followed by what is pending is what was pending followed by the samples.
\<close>

lemma ao_esd_play_stage:
  assumes d: "esd_state d = Some i" "esd_ok i"
    and r: "reliable {EAGAIN, EINTR} (p_answer w) (esd_sock i)"
    and n: "unat n \<le> length samples" "unat n + 4096 \<le> nat INT_MAX"
  obtains j v where "ao_esd_play d samples n w = Some (True, set_esd j d, v)"
    "esd_stage i (take (unat n) samples) w j [] v" "esd_bugfill j < 4096"
proof -
  from esd_fill_stage [OF d(2) n, of w] obtain i1 m1 where
    f: "esd_fill i samples n = Some (i1, drop (unat n - unat m1) samples, m1)" "unat m1 \<le> unat n"
      "esd_stage i (take (unat n) samples) w i1 (take (unat m1) (drop (unat n - unat m1) samples)) w"
      "esd_bugfill i1 = 0 \<or> esd_bugfill i1 = 4096 \<or> m1 = 0" by blast
  have ok1: "esd_ok i1" "esd_sock i1 = esd_sock i"
    using f(3) same_stream_sel(1) by (auto simp: esd_stage_def)
  let ?s1 = "drop (unat n - unat m1) samples"
  from esd_flush_stage [OF ok1(1), of w "take (unat m1) ?s1"] r ok1(2) obtain i2 w2 where
    g: "esd_flush i1 w = Some (True, i2, w2)" "esd_stage i1 (take (unat m1) ?s1) w i2 (take (unat m1) ?s1) w2"
      "esd_bugfill i2 = (if esd_bugfill i1 = 4096 then 0 else esd_bugfill i1)" by auto
  have ok2: "esd_ok i2" "esd_sock i2 = esd_sock i" "p_answer w2 = p_answer w"
    using g(2) ok1(2) same_stream_sel(1) calls_only_sel(5) by (auto simp: esd_stage_def)
  have l1: "unat m1 \<le> length ?s1" using f(2) n(1) by simp
  have z: "esd_bugfill i2 = 0 \<or> m1 = 0" using f(4) g(3) by auto
  obtain m w3 where h: "esd_blocks (esd_sock i2) ?s1 m1 w2 = Some (True, drop (unat m1 - unat m) ?s1, m, w3)"
      "m < 4096" "unat m \<le> unat m1"
      "esd_stage i2 (take (unat m1) ?s1) w2 i2 (take (unat m) (drop (unat m1 - unat m) ?s1)) w3"
  proof (cases "m1 = 0")
    case True
    with that [of m1 w2] ok2(1) show ?thesis by (simp add: esd_blocks.simps esd_stage_def)
  next
    case False
    with z have "esd_bugfill i2 = 0" by simp
    from esd_blocks_stage [OF ok2(1) this, of w2 m1 ?s1] r ok2(2,3) l1 that show ?thesis by auto
  qed
  let ?s2 = "drop (unat m1 - unat m) ?s1"
  have l2: "unat m \<le> length ?s2" using l1 h(3) by simp
  have z2: "esd_bugfill i2 = 0 \<or> m = 0" using z h(3) by (auto simp: unat_eq_0)
  from esd_keep_stage [OF ok2(1) h(2) l2 z2, of w3] obtain j where
    k: "esd_keep i2 ?s2 m = Some j" "esd_stage i2 (take (unat m) ?s2) w3 j [] w3"
      "esd_bugfill j = (if m = 0 then esd_bugfill i2 else uint m)" by blast
  have "ao_esd_play d samples n w = Some (True, set_esd j d, w3)"
    using d(1) f(1) g(1) h(1) k(1) by (simp add: ao_esd_play_def)
  moreover have "esd_stage i (take (unat n) samples) w j [] w3"
    using esd_stage_trans [OF esd_stage_trans [OF esd_stage_trans [OF f(3) g(2)] h(4)] k(2)] .
  moreover have "esd_bugfill i2 < 4096" using g(3) ok1(1) by (auto simp: esd_ok_def)
  then have "esd_bugfill j < 4096" using k(3) h(2) by (simp add: word_less_def)
  ultimately show ?thesis using that by blast
qed

text \<open>\<open>close\<close> sends the incomplete block, filled up with silence.\<close>

definition esd_silence :: "ao_esd_internal \<Rightarrow> byte list" where
  "esd_silence i =
     (if esd_bugfill i = 0 then []
      else replicate (nat (4096 - esd_bugfill i)) (if esd_bits i = 8 then 128 else 0))"

lemma ao_esd_close_stage:
  assumes d: "esd_state d = Some i" "esd_ok i" "esd_sock i \<noteq> -1"
    and r: "reliable {EAGAIN, EINTR} (p_answer w) (esd_sock i)"
  obtains j v where "ao_esd_close d w = Some (True, set_esd j d, v)"
    "delivered (esd_sock i) v = delivered (esd_sock i) w @ pending i @ esd_silence i"
    "esd_sock j = -1" "\<exists>cs. p_calls v = cs @ [Esd_close (esd_sock i)]"
proof -
  have close: "delivered fd (snd (ask_ret (Esd_close s) u)) = delivered fd u" for fd s and u :: "'a posix_scheme"
    by (simp add: delivered_def delivered_from_append)
  show ?thesis
  proof (cases "esd_bugfill i = 0")
    case True
    show ?thesis
      by (rule that [of "i\<lparr>esd_sock := -1\<rparr>" "snd (ask_ret (Esd_close (esd_sock i)) w)"])
         (use True d in \<open>simp_all add: close ao_esd_close_def pending_def esd_silence_def\<close>)
  next
    case False
    define f where "f = nat (esd_bugfill i)"
    have f: "esd_bugfill i = int f" "0 < f" "f \<le> 4096" "length (esd_bugbuffer i) = 4096"
      using d(2) False by (auto simp: esd_ok_def f_def)
    have "nat (4096 - int f) = 4096 - f" using f(3) by linarith
    then have sil: "esd_silence i = replicate (4096 - f) (if esd_bits i = 8 then 128 else 0)"
      using f(1,2) by (simp add: esd_silence_def)
    obtain buf where buf: "(if esd_bugfill i < 4096
          then store (esd_bugbuffer i) (esd_bugfill i)
                 (replicate (nat (4096 - esd_bugfill i)) (if esd_bits i = 8 then 128 else 0))
          else Some (esd_bugbuffer i)) = Some buf" "length buf = 4096"
      "buf = pending i @ esd_silence i"
    proof (cases "f = 4096")
      case True
      with that f sil show ?thesis by (simp add: pending_def)
    next
      case False
      from store_pending [OF f(4), of f "esd_silence i"] sil f(3) obtain b where
        "store (esd_bugbuffer i) (int f) (esd_silence i) = Some b" "length b = 4096"
        "take 4096 b = take f (esd_bugbuffer i) @ esd_silence i" by auto
      moreover have "take 4096 b = b" using \<open>length b = 4096\<close> by simp
      moreover have "replicate (nat (4096 - int f)) (if esd_bits i = 8 then 128 else 0) = esd_silence i"
        unfolding sil \<open>nat (4096 - int f) = 4096 - f\<close> ..
      ultimately show ?thesis using that [of b] False f by (simp add: pending_def)
    qed
    from write4096_returns [OF r, of buf] buf(2) obtain v where
      v: "write4096 (esd_sock i) buf w = Some (0, v)"
        "delivered (esd_sock i) v = delivered (esd_sock i) w @ buf" by auto
    show ?thesis
      by (rule that [of "i\<lparr>esd_bugbuffer := buf, esd_bugfill := 0, esd_sock := -1\<rparr>"
            "snd (ask_ret (Esd_close (esd_sock i)) v)"])
         (use d(1,3) False buf v in \<open>simp_all add: close ao_esd_close_def\<close>)
  qed
qed

section \<open>The environment\<close>

lemma takeWhile_name: "CHR ''='' \<notin> set n \<Longrightarrow> takeWhile (\<lambda>c. c \<noteq> CHR ''='') (n @ CHR ''='' # t) = n"
  by (induction n) auto

lemma named_matches:
  assumes "take (Suc (length name)) s = name @ ''=''" and "CHR ''='' \<notin> set name"
  shows "env_matches name s"
proof -
  obtain t where s: "s = name @ CHR ''='' # t"
    using append_take_drop_id [of "Suc (length name)" s] unfolding assms(1) by (metis append.simps append_assoc)
  show ?thesis
    unfolding s by (simp add: env_matches_def strncmp_eq_def takeWhile_name [OF assms(2)])
qed

lemma putenv_in_append:
  assumes "\<forall>(s, h) \<in> set es. \<not> env_matches name s" and "CHR ''='' \<notin> set name"
  shows "putenv_in name str (es @ rest) = es @ putenv_in name str rest"
  using assms(1) by (induction es) (auto dest: named_matches [OF _ assms(2)])

lemma unsetenv_loop_append:
  assumes "\<forall>(s, h) \<in> set es. \<not> env_matches name s"
  shows "unsetenv_loop name (es @ rest) w =
    map_option (\<lambda>(r, es', w). (r, es @ es', w)) (unsetenv_loop name rest w)"
  using assms
  by (induction es)
     (auto simp: map_option_case split: option.splits Option.bind_splits)

lemma ESD_NO_SPAWN_facts:
  "CHR ''='' \<notin> set ESD_NO_SPAWN" "env_matches ESD_NO_SPAWN (ESD_NO_SPAWN @ ''=1'')"
  by (simp_all add: ESD_NO_SPAWN_def env_matches_def strncmp_eq_def)

lemma ao_esd_test_turn:
  assumes "w_allocs w = []"
    and "ask_ret Esd_open_sound (w\<lparr>w_live := w_live w + 1,
      p_environ := putenv_in ESD_NO_SPAWN (ESD_NO_SPAWN @ ''=1'') (p_environ w)\<rparr>) = (sock, u)"
  shows "ao_esd_test h w = do {
     (_, w) \<leftarrow> portable_unsetenv ESD_NO_SPAWN u;
     (if sock < 0 then Some (False, w)
      else (case ask_ret (Esd_get_standby_mode sock) w of (m, w) \<Rightarrow>
        Some (m = ESM_RUNNING h, snd (ask_ret (Esd_close sock) w)))) }"
  using assms by (simp add: ao_esd_test_def)

text \<open>
  What \<open>portable_unsetenv\<close> finds after \<open>putenv\<close>, for every environment: the first string it takes for
  the variable may be ours, one that ours has replaced, or another.
\<close>

definition esd_takes :: "string \<times> bool \<Rightarrow> bool" where
  "esd_takes e \<longleftrightarrow> env_matches ESD_NO_SPAWN (fst e)"

definition esd_names :: "string \<Rightarrow> bool" where
  "esd_names s \<longleftrightarrow> take (length ESD_NO_SPAWN + 1) s = ESD_NO_SPAWN @ ''=''"

definition esd_left :: "(string \<times> bool) list \<Rightarrow> (string \<times> bool) list option" where
  "esd_left es = (case dropWhile (Not \<circ> esd_takes) es of
      [] \<Rightarrow> Some es
    | (s, heap) # rest \<Rightarrow>
        if esd_names s then Some (takeWhile (Not \<circ> esd_takes) es @ rest)
        else if heap
        then Some (takeWhile (Not \<circ> esd_takes) es @ putenv_in ESD_NO_SPAWN (ESD_NO_SPAWN @ ''=1'') rest)
        else None)"

lemma unsetenv_after_putenv:
  assumes "p_environ u = putenv_in ESD_NO_SPAWN (ESD_NO_SPAWN @ ''=1'') es"
  shows "portable_unsetenv ESD_NO_SPAWN u =
    map_option (\<lambda>es'. (0, (free_block u)\<lparr>p_environ := es'\<rparr>)) (esd_left es)"
proof -
  let ?pre = "takeWhile (Not \<circ> esd_takes) es" and ?str = "ESD_NO_SPAWN @ ''=1''"
  have pre: "\<forall>(s, h) \<in> set ?pre. \<not> env_matches ESD_NO_SPAWN s"
    by (auto simp: esd_takes_def dest: set_takeWhileD)
  note put = putenv_in_append [OF pre ESD_NO_SPAWN_facts(1), of ?str]
  note unset = unsetenv_loop_append [OF pre]
  have es: "es = ?pre @ dropWhile (Not \<circ> esd_takes) es" by simp
  show ?thesis
  proof (cases "dropWhile (Not \<circ> esd_takes) es")
    case Nil
    then have "?pre = es" "esd_left es = Some es" using es
      by (metis append_Nil2, simp add: esd_left_def del: dropWhile_eq_Nil_conv)
    with assms put [of "[]"] unset [of "[(?str, True)]" u] ESD_NO_SPAWN_facts show ?thesis
      by (simp add: portable_unsetenv_def)
  next
    case (Cons e rest)
    obtain s heap where e: "e = (s, heap)" by (cases e)
    have "esd_takes e" using Cons hd_dropWhile [of "Not \<circ> esd_takes" es] by simp
    then have m: "env_matches ESD_NO_SPAWN s" by (simp add: esd_takes_def e)
    have env: "p_environ u = ?pre @ (if esd_names s then (?str, True) # rest
        else (s, heap) # putenv_in ESD_NO_SPAWN ?str rest)"
      using assms put [of "(s, heap) # rest"] es Cons e by (simp add: esd_names_def)
    show ?thesis
      using Cons e env unset [of "(?str, True) # rest" u] unset [of "(s, heap) # putenv_in ESD_NO_SPAWN ?str rest" u]
        ESD_NO_SPAWN_facts m
      by (simp add: portable_unsetenv_def esd_left_def)
  qed
qed

lemma ao_esd_test_environment:
  "if fst (malloc_ok w) \<and> esd_left (p_environ w) \<noteq> None
   then \<exists>ok w'. ao_esd_test h w = Some (ok, w') \<and> Some (p_environ w') = esd_left (p_environ w) \<and> w_live w' = w_live w
   else ao_esd_test h w = None"
proof (cases "fst (malloc_ok w)")
  case False
  then show ?thesis by (auto simp: ao_esd_test_def strdup_def split: prod.splits)
next
  case True
  then obtain v where v: "malloc_ok w = (True, v)" by (cases "malloc_ok w") simp
  have vw: "w_live v = w_live w + 1" "p_environ v = p_environ w"
    using v by (auto simp: malloc_ok_def split: list.splits)
  let ?str = "ESD_NO_SPAWN @ ''=1''"
  let ?v = "v\<lparr>p_environ := putenv_in ESD_NO_SPAWN ?str (p_environ v)\<rparr>"
  obtain sock u where a: "ask_ret Esd_open_sound ?v = (sock, u)" by fastforce
  have u: "p_environ u = putenv_in ESD_NO_SPAWN ?str (p_environ w)" "w_live u = w_live w + 1"
    using calls_only_sel [OF ask_ret_calls [OF a]] vw by simp_all
  have t: "ao_esd_test h w = do {
     (_, w) \<leftarrow> portable_unsetenv ESD_NO_SPAWN u;
     (if sock < 0 then Some (False, w)
      else (case ask_ret (Esd_get_standby_mode sock) w of (m, w) \<Rightarrow>
        Some (m = ESM_RUNNING h, snd (ask_ret (Esd_close sock) w)))) }"
    using v a by (simp add: ao_esd_test_def strdup_def)
  show ?thesis
  proof (cases "esd_left (p_environ w)")
    case None
    with t unsetenv_after_putenv [OF u(1)] show ?thesis by simp
  next
    case (Some es)
    let ?u = "(free_block u)\<lparr>p_environ := es\<rparr>"
    obtain m t' where m: "ask_ret (Esd_get_standby_mode sock) ?u = (m, t')" by fastforce
    have "p_environ (snd (ask_ret (Esd_close sock) t')) = es" "w_live (snd (ask_ret (Esd_close sock) t')) = w_live w"
      using calls_only_sel [OF ask_ret_calls [OF m]] u calls_only_sel [OF ask_ret_snd_calls [of t' "Esd_close sock"]]
      by simp_all
    with Some t unsetenv_after_putenv [OF u(1)] m True u(2) show ?thesis by (cases "sock < 0") auto
  qed
qed

text \<open>
  A variable whose name is a proper prefix of \<open>ESD_NO_SPAWN\<close> is taken for it: the test frees a
  string that the process started with.
\<close>

lemma ao_esd_test_prefix_fault:
  assumes env: "p_environ w = es @ (n @ ''='' @ t, False) # rest"
    and es: "\<forall>(s, h) \<in> set es. \<not> env_matches ESD_NO_SPAWN s"
    and n: "n = take k ESD_NO_SPAWN" "k < length ESD_NO_SPAWN" and w: "w_allocs w = []"
  shows "ao_esd_test h w = None"
proof -
  let ?s = "n @ ''='' @ t" and ?str = "ESD_NO_SPAWN @ ''=1''"
  have no_eq: "CHR ''='' \<notin> set n" using n(1) ESD_NO_SPAWN_facts(1) by (meson in_set_takeD)
  have len: "length n = k" using n by simp
  have name: "takeWhile (\<lambda>c. c \<noteq> CHR ''='') ?s = n"
    using takeWhile_name [OF no_eq, of t] by simp
  have matches: "env_matches ESD_NO_SPAWN ?s"
    unfolding env_matches_def name using n(1) len by (simp add: strncmp_eq_def)
  have other: "take (length ESD_NO_SPAWN + 1) ?s \<noteq> ESD_NO_SPAWN @ ''=''"
  proof
    assume "take (length ESD_NO_SPAWN + 1) ?s = ESD_NO_SPAWN @ ''=''"
    then have "(take (length ESD_NO_SPAWN + 1) ?s) ! k = (ESD_NO_SPAWN @ ''='') ! k" by simp
    then have "ESD_NO_SPAWN ! k = CHR ''=''" using n(2) len by (simp add: nth_append)
    then show False using ESD_NO_SPAWN_facts(1) nth_mem [OF n(2)] by simp
  qed
  let ?env = "es @ (?s, False) # putenv_in ESD_NO_SPAWN ?str rest"
  have put: "putenv_in ESD_NO_SPAWN ?str (p_environ w) = ?env"
    unfolding env putenv_in_append [OF es ESD_NO_SPAWN_facts(1)] using other by simp
  obtain sock u where a: "ask_ret Esd_open_sound (w\<lparr>w_live := w_live w + 1, p_environ := ?env\<rparr>) = (sock, u)"
    by fastforce
  have "p_environ u = ?env" using calls_only_sel(6) [OF ask_ret_calls [OF a]] by simp
  then have "portable_unsetenv ESD_NO_SPAWN u = None"
    using unsetenv_loop_append [OF es, of _ u] matches ESD_NO_SPAWN_facts(1) by (simp add: portable_unsetenv_def)
  with ao_esd_test_turn [OF w a [folded put], of h] show ?thesis by simp
qed

section \<open>The ledger\<close>

lemma ao_esd_init_law:
  assumes "ao_esd_device_init d w = Some (r, d', w')" and "internal d = None" and "output_matrix d = None"
  shows "books 0 plugin_blocks d w d' w' \<and> setup_frame d d'"
proof -
  obtain ok v where m: "malloc_ok w = (ok, v)" by (cases "malloc_ok w")
  obtain s u where t: "strdup ''L,R'' v = (s, u)" by fastforce
  show ?thesis
    using assms m t malloc_ok_heap [OF m] strdup_heap [OF t]
    by (cases ok)
       (auto simp: ao_esd_device_init_def books_def ledger setup_frame_def core_frame_def heap_step_def)
qed

lemma ao_esd_set_option_law:
  assumes "ao_esd_set_option d k v w = Some (r, d', w')"
  shows "books 0 plugin_blocks d w d' w' \<and> setup_frame d d'"
  using assms
  by (auto simp: ao_esd_set_option_def books_def ledger setup_frame_def core_frame_def heap_step_def
      plugin_state_iff split: if_splits Option.bind_splits prod.splits dest!: strdup_heap)

lemma ao_esd_open_law:
  assumes "ao_esd_open h d format w = Some (r, d', sf', w')"
  shows "books 0 plugin_blocks d w d' w' \<and> core_frame d d' \<and> sf' = format"
  using assms
  by (auto simp: ao_esd_open_def books_def ledger core_frame_def plugin_state_iff
      split: if_splits Option.bind_splits prod.splits dest!: ask_ret_calls simp: calls_only_sel)

lemma write4096_calls: "write4096 fd bs w = Some (r, w') \<Longrightarrow> calls_only w w'"
  unfolding write4096_def by (drule write4096_loop_calls) simp

lemma esd_flush_calls: "esd_flush i w = Some (ok, j, w') \<Longrightarrow> calls_only w w' \<and> same_stream i j"
  by (auto simp: esd_flush_def same_stream_def split: if_splits Option.bind_splits dest: write4096_calls)

lemma esd_blocks_calls: "esd_blocks sock bs n w = Some (ok, bs', n', w') \<Longrightarrow> calls_only w w'"
proof (induction sock bs n w rule: esd_blocks.induct)
  case (1 sock bs n w)
  show ?case
  proof (cases "n \<ge> 4096")
    case False
    with "1.prems" show ?thesis by (simp add: esd_blocks.simps)
  next
    case True
    then obtain r v where v: "write4096 sock bs w = Some (r, v)"
      using "1.prems" by (subst (asm) esd_blocks.simps) (auto split: Option.bind_splits)
    show ?thesis
    proof (cases "r = 0")
      case False
      with "1.prems" True v write4096_calls [OF v] show ?thesis by (subst (asm) esd_blocks.simps) simp
    next
      case r: True
      have "esd_blocks sock (drop 4096 bs) (n - 4096) v = Some (ok, bs', n', w')"
        using "1.prems" True v r by (subst (asm) esd_blocks.simps) simp
      from "1.IH" [OF True v refl _ this] r write4096_calls [OF v] calls_only_trans show ?thesis by blast
    qed
  qed
qed

lemma ao_esd_play_law:
  assumes "ao_esd_play d bs n w = Some (r, d', w')"
  shows "books 0 plugin_blocks d w d' w' \<and> d' = d\<lparr>internal := internal d'\<rparr>"
proof -
  from assms obtain i i1 bs1 n1 ok i2 w2 where a: "esd_state d = Some i" "esd_fill i bs n = Some (i1, bs1, n1)"
    "esd_flush i1 w = Some (ok, i2, w2)"
    by (auto simp: ao_esd_play_def split: Option.bind_splits)
  have f: "same_stream i i1"
    using a(2) by (auto simp: esd_fill_def same_stream_def split: if_splits Option.bind_splits)
  note g = esd_flush_calls [OF a(3)]
  have s2: "same_stream i i2" using same_stream_trans [OF f] g by blast
  have fin: "books 0 plugin_blocks d w (set_esd j d) v" if "same_stream i j" "calls_only w v" for j v
    using same_stream_sel [OF that(1)] calls_only_sel [OF that(2)] a(1)
    by (simp add: books_def ledger plugin_state_iff)
  show ?thesis
  proof (cases ok)
    case False
    with assms a fin [OF s2] g show ?thesis by (auto simp: ao_esd_play_def)
  next
    case True
    with assms a obtain ok3 bs3 n3 w3 where b: "esd_blocks (esd_sock i2) bs1 n1 w2 = Some (ok3, bs3, n3, w3)"
      by (auto simp: ao_esd_play_def split: Option.bind_splits)
    have c: "calls_only w w3" using g esd_blocks_calls [OF b] calls_only_trans by blast
    show ?thesis
    proof (cases ok3)
      case False
      with assms a True b fin [OF s2 c] show ?thesis by (auto simp: ao_esd_play_def)
    next
      case ok3: True
      with assms a True b obtain j where k: "esd_keep i2 bs3 n3 = Some j" "d' = set_esd j d" "w' = w3"
        by (auto simp: ao_esd_play_def split: Option.bind_splits)
      have "same_stream i2 j"
        using k(1) by (auto simp: esd_keep_def same_stream_def split: if_splits Option.bind_splits)
      then show ?thesis using fin [OF same_stream_trans [OF s2] c] k by auto
    qed
  qed
qed

lemma ao_esd_close_law:
  assumes "ao_esd_close d w = Some (r, d', w')"
  shows "books 0 plugin_blocks d w d' w' \<and> core_frame d d'"
  using assms
  by (auto simp: ao_esd_close_def books_def ledger core_frame_def plugin_state_iff
      split: if_splits Option.bind_splits dest!: write4096_calls simp: calls_only_sel)

interpretation esd: ao_driver "ao_esd h" plugin_blocks for h
proof
  fix d d' :: live_device and w w' :: "'a posix_scheme" and r
  show "fn_device_init (ao_esd h) d w = Some (r, d', w') \<Longrightarrow> internal d = None \<Longrightarrow>
      output_matrix d = None \<Longrightarrow> books 0 plugin_blocks d w d' w' \<and> setup_frame d d'"
    using ao_esd_init_law by (simp add: ao_esd_def)
  show "fn_set_option (ao_esd h) d k v w = Some (r, d', w') \<Longrightarrow>
      books 0 plugin_blocks d w d' w' \<and> setup_frame d d'" for k v
    using ao_esd_set_option_law by (simp add: ao_esd_def)
  show "fn_open (ao_esd h) d sf w = Some (r, d', sf', w') \<Longrightarrow>
      books 0 plugin_blocks d w d' w' \<and> core_frame d d' \<and> fmt_matrix sf' = fmt_matrix sf" for sf sf'
    using ao_esd_open_law [of h d sf w r d' sf' w'] by (simp add: ao_esd_def)
  show "fn_play (ao_esd h) d bs n w = Some (r, d', w') \<Longrightarrow>
      books 0 plugin_blocks d w d' w' \<and> d' = d\<lparr>internal := internal d'\<rparr>" for bs n
    using ao_esd_play_law by (simp add: ao_esd_def)
  show "fn_close (ao_esd h) d w = Some (r, d', w') \<Longrightarrow> books 0 plugin_blocks d w d' w' \<and> core_frame d d'"
    using ao_esd_close_law by (simp add: ao_esd_def)
  show "fn_device_clear (ao_esd h) d w = Some (d', w') \<Longrightarrow>
      books 0 plugin_blocks d w d' w' \<and> core_frame d d' \<and> internal d' = None"
    by (auto simp: ao_esd_def ao_esd_device_clear_def books_def ledger core_frame_def plugin_state_iff
        split: Option.bind_splits)
qed

end
