(* ===== verification/AO_Sndio.thy ===== *)
theory AO_Sndio
  imports AO_Posix
begin

text \<open>
  The sndio driver, \<^verbatim>\<open>src/plugins/sndio/ao_sndio.c\<close>.  A handle of the sndio library is an
  integer, 0 for NULL.
\<close>

section \<open>Operations\<close>

definition ao_sndio_info :: ao_info where
  "ao_sndio_info =
     \<lparr>info_type = AO_TYPE_LIVE, info_name = ''sndio audio output'', short_name = ''sndio'',
      author = ''Alexandre Ratchov <alex at caoua.org>'',
      info_comment = ''Outputs to the sndio library'',
      preferred_byte_format = AO_FMT_NATIVE, priority = 30,
      info_options = [''verbose'', ''quiet'', ''matrix'', ''debug'', ''dev'', ''id''],
      option_count = 6\<rparr>"

definition ao_sndio_test :: "'z posix_scheme \<Rightarrow> (bool \<times> 'z posix_scheme) option" where
  "ao_sndio_test w = (case ask_ret (Sio_open None) w of (hdl, w) \<Rightarrow>
     if hdl = 0 then Some (False, w) else Some (True, snd (ask_ret (Sio_close hdl) w)))"

definition ao_sndio_device_init ::
  "live_device \<Rightarrow> 'z posix_scheme \<Rightarrow> (bool \<times> live_device \<times> 'z posix_scheme) option" where
  "ao_sndio_device_init d w = (case malloc_ok w of (ok, w) \<Rightarrow>
     if \<not> ok then Some (False, d, w)
     else Some (True, (set_sndio \<lparr>sndio_hdl = 0, sndio_dev = None, sndio_id = -1\<rparr> d)
                        \<lparr>output_matrix_order := AO_OUTPUT_MATRIX_FIXED\<rparr>, w))"

definition ao_sndio_set_option ::
  "live_device \<Rightarrow> string \<Rightarrow> string option \<Rightarrow> 'z posix_scheme
    \<Rightarrow> (bool \<times> live_device \<times> 'z posix_scheme) option" where
  "ao_sndio_set_option d k v w =
     (if k = ''dev'' then do {
        i \<leftarrow> sndio_state d;
        let w = free_opt (sndio_dev i) w;
        (case v of
           None \<Rightarrow> Some (True, set_sndio (i\<lparr>sndio_dev := None\<rparr>) d, w)
         | Some v \<Rightarrow> (case strdup v w of (s, w) \<Rightarrow>
             Some (s \<noteq> None, set_sndio (i\<lparr>sndio_dev := s\<rparr>) d, w))) }
      else if k = ''id'' then do {
        i \<leftarrow> sndio_state d;
        v \<leftarrow> v;
        n \<leftarrow> atoi v;
        Some (True, set_sndio (i\<lparr>sndio_dev := None, sndio_id := n\<rparr>) d, free_opt (sndio_dev i) w) }
      else Some (True, d, w))"

definition sndio_name :: "ao_sndio_internal \<Rightarrow> 'z posix_scheme \<Rightarrow> ao_sndio_internal \<times> 'z posix_scheme" where
  "sndio_name i w =
     (if sndio_dev i = None \<and> sndio_id i \<ge> 0
      then (case strdup (''sun:'' @ decimal (sndio_id i)) w of (s, w) \<Rightarrow> (i\<lparr>sndio_dev := s\<rparr>, w))
      else (i, w))"

definition ao_sndio_open ::
  "live_device \<Rightarrow> ao_sample_format \<Rightarrow> 'z posix_scheme
    \<Rightarrow> (bool \<times> live_device \<times> ao_sample_format \<times> 'z posix_scheme) option" where
  "ao_sndio_open d format w = do {
     i \<leftarrow> sndio_state d;
     let (i, w) = sndio_name i w;
     let (hdl, w) = ask_ret (Sio_open (sndio_dev i)) w;
     let d = set_sndio (i\<lparr>sndio_hdl := hdl\<rparr>) d;
     Some (if hdl = 0 then (False, d, format, w)
           else (case ask_ret (Sio_setpar hdl (fmt_bits format) (fmt_rate format) (output_channels d)) w of
              (r, w) \<Rightarrow>
                if r = 0 then (False, d, format, w)
                else
                  let d = d\<lparr>driver_byte_format := AO_FMT_NATIVE\<rparr>
                  in (case ask_ret (Sio_start hdl) w of (r, w) \<Rightarrow>
                       if r = 0 then (False, d, format, w)
                       else (case stereo_matrix d w of (d, w) \<Rightarrow> (True, d, format, w))))) }"

definition ao_sndio_play ::
  "live_device \<Rightarrow> byte list \<Rightarrow> 32 word \<Rightarrow> 'z posix_scheme
    \<Rightarrow> (bool \<times> live_device \<times> 'z posix_scheme) option" where
  "ao_sndio_play d output_samples num_bytes w = do {
     i \<leftarrow> sndio_state d;
     bs \<leftarrow> load (unat num_bytes) output_samples 0;
     (case ask_ret (Sio_write (sndio_hdl i) bs) w of (r, w) \<Rightarrow> Some (r \<noteq> 0, d, w)) }"

definition ao_sndio_close ::
  "live_device \<Rightarrow> 'z posix_scheme \<Rightarrow> (bool \<times> live_device \<times> 'z posix_scheme) option" where
  "ao_sndio_close d w = do {
     i \<leftarrow> sndio_state d;
     Some (if sndio_hdl i \<noteq> 0
           then (case ask_ret (Sio_stop (sndio_hdl i)) w of (r, w) \<Rightarrow> (r \<noteq> 0, d, w))
           else (True, d, w)) }"

definition ao_sndio_device_clear ::
  "live_device \<Rightarrow> 'z posix_scheme \<Rightarrow> (live_device \<times> 'z posix_scheme) option" where
  "ao_sndio_device_clear d w = do {
     i \<leftarrow> sndio_state d;
     let w = (if sndio_hdl i \<noteq> 0 then snd (ask_ret (Sio_close (sndio_hdl i)) w) else w);
     Some (d\<lparr>internal := None\<rparr>, free_block (free_opt (sndio_dev i) w)) }"

definition ao_sndio :: "(plugin_internal ao_internal, 'z posix_scheme) ao_functions" where
  "ao_sndio =
     \<lparr>fn_test = ao_sndio_test, fn_driver_info = ao_sndio_info, fn_device_init = ao_sndio_device_init,
      fn_set_option = ao_sndio_set_option, fn_open = ao_sndio_open, fn_play = ao_sndio_play,
      fn_close = ao_sndio_close, fn_device_clear = ao_sndio_device_clear, fn_file_extension = None\<rparr>"

section \<open>The ledger\<close>

lemma ao_sndio_init_law:
  assumes "ao_sndio_device_init d w = Some (r, d', w')" and "internal d = None"
  shows "books 0 plugin_blocks d w d' w' \<and> setup_frame d d'"
proof -
  obtain ok v where m: "malloc_ok w = (ok, v)" by (cases "malloc_ok w")
  with assms malloc_ok_heap [OF m] show ?thesis
    by (cases ok)
       (auto simp: ao_sndio_device_init_def books_def ledger setup_frame_def core_frame_def heap_step_def)
qed

lemma ao_sndio_set_option_law:
  assumes "ao_sndio_set_option d k v w = Some (r, d', w')"
  shows "books 0 plugin_blocks d w d' w' \<and> setup_frame d d'"
  using assms
  by (auto simp: ao_sndio_set_option_def books_def ledger setup_frame_def core_frame_def heap_step_def
      plugin_state_iff split: if_splits Option.bind_splits prod.splits option.splits dest!: strdup_heap)

lemma sndio_name_held:
  "sndio_name i w = (j, w') \<Longrightarrow> held (blocks (sndio_dev j) - blocks (sndio_dev i)) w w'"
  by (auto simp: sndio_name_def held_def heap_step_def split: if_splits prod.splits dest!: strdup_heap)

lemma ao_sndio_open_law:
  assumes "ao_sndio_open d format w = Some (r, d', sf', w')"
  shows "books 0 plugin_blocks d w d' w' \<and> core_frame d d' \<and> sf' = format"
proof -
  from assms obtain i where i: "sndio_state d = Some i"
    by (auto simp: ao_sndio_open_def split: Option.bind_splits)
  obtain j v where j: "sndio_name i w = (j, v)" by fastforce
  obtain hdl u where o: "ask_ret (Sio_open (sndio_dev j)) v = (hdl, u)" by fastforce
  let ?d = "set_sndio (j\<lparr>sndio_hdl := hdl\<rparr>) d"
  have b: "books 0 plugin_blocks d w ?d u" "core_frame d ?d"
    using sndio_name_held [OF j] calls_only_sel [OF ask_ret_calls [OF o]] i
    by (auto simp: held_def books_def ledger plugin_state_iff core_frame_def)
  obtain r1 u1 where s: "ask_ret (Sio_setpar hdl (fmt_bits format) (fmt_rate format) (output_channels d)) u = (r1, u1)"
    by fastforce
  obtain r2 u2 where t: "ask_ret (Sio_start hdl) u1 = (r2, u2)" by fastforce
  let ?e = "?d\<lparr>driver_byte_format := AO_FMT_NATIVE\<rparr>"
  have b1: "books 0 plugin_blocks d w ?d u1" "books 0 plugin_blocks d w ?e u2" "core_frame d ?e"
    using b calls_only_sel [OF ask_ret_calls [OF s]] calls_only_sel [OF ask_ret_calls [OF t]]
    by (auto simp: books_def ledger core_frame_def)
  obtain e u3 where m: "stereo_matrix ?e u2 = (e, u3)" by fastforce
  have "books 0 plugin_blocks d w e u3" "core_frame d e"
    using stereo_matrix_law [OF m, of plugin_blocks] b1 books_trans0 core_frame_trans by blast+
  with assms i j o s t m b b1 show ?thesis
    by (auto simp: ao_sndio_open_def split: if_splits)
qed

interpretation sndio: ao_driver ao_sndio plugin_blocks
proof
  fix d d' :: live_device and w w' :: "'a posix_scheme" and r
  show "fn_device_init ao_sndio d w = Some (r, d', w') \<Longrightarrow> internal d = None \<Longrightarrow>
      output_matrix d = None \<Longrightarrow> books 0 plugin_blocks d w d' w' \<and> setup_frame d d'"
    using ao_sndio_init_law by (simp add: ao_sndio_def)
  show "fn_set_option ao_sndio d k v w = Some (r, d', w') \<Longrightarrow>
      books 0 plugin_blocks d w d' w' \<and> setup_frame d d'" for k v
    using ao_sndio_set_option_law by (simp add: ao_sndio_def)
  show "fn_open ao_sndio d sf w = Some (r, d', sf', w') \<Longrightarrow>
      books 0 plugin_blocks d w d' w' \<and> core_frame d d' \<and> fmt_matrix sf' = fmt_matrix sf" for sf sf'
    using ao_sndio_open_law [of d sf w r d' sf' w'] by (simp add: ao_sndio_def)
  show "fn_play ao_sndio d bs n w = Some (r, d', w') \<Longrightarrow>
      books 0 plugin_blocks d w d' w' \<and> d' = d\<lparr>internal := internal d'\<rparr>" for bs n
    by (auto simp: ao_sndio_def ao_sndio_play_def calls_only_books split: Option.bind_splits prod.splits
        dest!: ask_ret_calls)
  show "fn_close ao_sndio d w = Some (r, d', w') \<Longrightarrow> books 0 plugin_blocks d w d' w' \<and> core_frame d d'"
    by (auto simp: ao_sndio_def ao_sndio_close_def calls_only_books
        split: Option.bind_splits if_splits prod.splits dest!: ask_ret_calls)
  show "fn_device_clear ao_sndio d w = Some (d', w') \<Longrightarrow>
      books 0 plugin_blocks d w d' w' \<and> core_frame d d' \<and> internal d' = None"
    by (auto simp: ao_sndio_def ao_sndio_device_clear_def books_def ledger core_frame_def plugin_state_iff
        split: Option.bind_splits)
qed

section \<open>Handles\<close>

text \<open>The calls that open and close handles, in order.\<close>

fun handle_calls :: "call list \<Rightarrow> call list" where
  "handle_calls [] = []"
| "handle_calls (Sio_open n # cs) = Sio_open n # handle_calls cs"
| "handle_calls (Sio_close h # cs) = Sio_close h # handle_calls cs"
| "handle_calls (c # cs) = handle_calls cs"

lemma handle_calls_append: "handle_calls (cs @ cs') = handle_calls cs @ handle_calls cs'"
  by (induction cs rule: handle_calls.induct) auto

text \<open>However \<open>open\<close> ends, closing gives back the one handle that it may have got.\<close>

lemma ao_sndio_open_handles:
  assumes "ao_sndio_open d format w = Some (r, d', sf', w')"
  obtains i s where "sndio_state d' = Some i" "handle_calls (p_calls w') = handle_calls (p_calls w) @ [Sio_open s]"
    "r \<longrightarrow> sndio_hdl i \<noteq> 0"
proof -
  from assms obtain i where i: "sndio_state d = Some i"
    by (auto simp: ao_sndio_open_def split: Option.bind_splits)
  obtain j v where j: "sndio_name i w = (j, v)" by fastforce
  have v: "p_calls v = p_calls w"
    using j by (auto simp: sndio_name_def strdup_def malloc_ok_def split: if_splits prod.splits list.splits)
  have st: "stereo_matrix e u = (e', u') \<Longrightarrow> p_calls u' = p_calls u \<and> internal e' = internal e"
    for e e' :: live_device and u u' :: "'a posix_scheme"
    by (auto simp: stereo_matrix_def strdup_def malloc_ok_def split: if_splits prod.splits list.splits)
  obtain hdl u where o: "ask_ret (Sio_open (sndio_dev j)) v = (hdl, u)" by fastforce
  obtain r1 u1 where s: "ask_ret (Sio_setpar hdl (fmt_bits format) (fmt_rate format) (output_channels d)) u = (r1, u1)"
    by fastforce
  obtain r2 u2 where t: "ask_ret (Sio_start hdl) u1 = (r2, u2)" by fastforce
  note calls = ask_ret_p_calls [OF o] ask_ret_p_calls [OF s] ask_ret_p_calls [OF t] v
  show ?thesis
    by (rule that [of "j\<lparr>sndio_hdl := hdl\<rparr>" "sndio_dev j"])
       (use assms i j o s t calls in \<open>auto simp: ao_sndio_open_def handle_calls_append plugin_state_iff
         split: if_splits prod.splits dest!: st\<close>)
qed

lemma ao_sndio_close_handles:
  assumes "sndio_state d = Some i"
  obtains r w1 w2 where "ao_sndio_close d w = Some (r, d, w1)"
    "ao_sndio_device_clear d w1 = Some (d\<lparr>internal := None\<rparr>, w2)"
    "handle_calls (p_calls w2) = handle_calls (p_calls w) @ (if sndio_hdl i = 0 then [] else [Sio_close (sndio_hdl i)])"
proof -
  have calls: "p_calls (free_block u) = p_calls u" "p_calls (free_opt x u) = p_calls u"
    for x :: "string option" and u :: "'a posix_scheme"
    by (cases x; simp add: free_block_def free_opt_def)+
  show ?thesis
  proof (cases "sndio_hdl i = 0")
    case True
    with assms that show ?thesis
      by (simp add: ao_sndio_close_def ao_sndio_device_clear_def calls)
  next
    case False
    obtain r v where a: "ask_ret (Sio_stop (sndio_hdl i)) w = (r, v)" by fastforce
    then have "p_calls v = p_calls w @ [Sio_stop (sndio_hdl i)]" by (auto simp: ask_ret_def ask_def)
    with False assms that a show ?thesis
      by (simp add: ao_sndio_close_def ao_sndio_device_clear_def calls handle_calls_append)
  qed
qed

end
