(* ===== verification/AO_Arts.thy ===== *)
theory AO_Arts
  imports AO_Posix "HOL-Library.Signed_Division"
begin

text \<open>
  The aRts driver, \<^verbatim>\<open>src/plugins/arts/ao_arts.c\<close>.  The compile-time choice \<open>HAVE_ARTS_SUSPENDED\<close> and
  the two constants of \<^verbatim>\<open>artsc.h\<close> are the fields of \<open>arts_build\<close>.  The static variables of the
  file are in the world: \<open>server_open_count\<close>, and \<open>mutex\<close>, which is locked at most once (locking
  it again never returns, \<open>None\<close>).

  \<open>play\<close> repeats until everything is sent or nothing moves; \<open>None\<close> is a run that faults or does not
  return.
\<close>

record arts_build =
  HAVE_ARTS_SUSPENDED :: bool
  ARTS_P_BLOCKING :: int
  ARTS_P_BUFFER_SIZE :: int

section \<open>Operations\<close>

definition ao_arts_info :: "arts_build \<Rightarrow> ao_info" where
  "ao_arts_info b =
     \<lparr>info_type = AO_TYPE_LIVE, info_name = ''aRts output'', short_name = ''arts'',
      author = ''Monty <monty@xiph.org>'', info_comment = ''Outputs to the aRts soundserver.'',
      preferred_byte_format = AO_FMT_NATIVE, priority = (if HAVE_ARTS_SUSPENDED b then 45 else 15),
      info_options = [''matrix'', ''verbose'', ''quiet'', ''debug'', ''multi''],
      option_count = 5\<rparr>"

definition arts_lock :: "'z posix_scheme \<Rightarrow> 'z posix_scheme option" where
  "arts_lock w = (if p_arts_mutex w then None else Some (w\<lparr>p_arts_mutex := True\<rparr>))"

definition arts_unlock :: "'z posix_scheme \<Rightarrow> 'z posix_scheme" where
  "arts_unlock w = w\<lparr>p_arts_mutex := False\<rparr>"

text \<open>\<open>server_open_count += n\<close>, and \<open>if(!server_open_count)arts_free()\<close>.\<close>

definition arts_count :: "int \<Rightarrow> 'z posix_scheme \<Rightarrow> 'z posix_scheme option" where
  "arts_count n w = do { k \<leftarrow> c_int (p_arts_open_count w + n); Some (w\<lparr>p_arts_open_count := k\<rparr>) }"

definition arts_leave :: "'z posix_scheme \<Rightarrow> 'z posix_scheme" where
  "arts_leave w = (if p_arts_open_count w = 0 then snd (ask_ret (Arts Arts_free) w) else w)"

definition ao_arts_test :: "arts_build \<Rightarrow> 'z posix_scheme \<Rightarrow> (bool \<times> 'z posix_scheme) option" where
  "ao_arts_test b w = do {
     w \<leftarrow> arts_lock w;
     let (up, w) = (if p_arts_open_count w \<noteq> 0 then (True, w)
                    else (case ask_ret (Arts Arts_init) w of (r, w) \<Rightarrow> (r = 0, w)));
     (if \<not> up then Some (False, arts_unlock w)
      else do {
        w \<leftarrow> arts_count 1 w;
        let (suspended, w) = (if HAVE_ARTS_SUSPENDED b
              then (case ask_ret (Arts Arts_suspended) w of (r, w) \<Rightarrow> (r = 1, w)) else (False, w));
        w \<leftarrow> arts_count (-1) w;
        let w = arts_leave w;
        Some (if suspended then (False, arts_unlock w)
              else (True, arts_unlock (snd (ask_ret (Arts Arts_free) w)))) }) }"

definition ao_arts_device_init ::
  "live_device \<Rightarrow> 'z posix_scheme \<Rightarrow> (bool \<times> live_device \<times> 'z posix_scheme) option" where
  "ao_arts_device_init d w = (case malloc_ok w of (ok, w) \<Rightarrow>
     if \<not> ok then Some (False, d, w)
     else (case strdup ''L,R'' w of (m, w) \<Rightarrow>
       Some (True, (set_arts \<lparr>arts_stream = 0, arts_allow_multi = False, arts_buffersize = 0\<rparr> d)
                     \<lparr>output_matrix_order := AO_OUTPUT_MATRIX_FIXED, output_matrix := m\<rparr>, w)))"

text \<open>The values of the option \<open>multi\<close>.\<close>

definition arts_multi_value :: "string \<Rightarrow> bool option" where
  "arts_multi_value v =
     (if v \<in> {''yes'', ''y'', ''true'', ''t'', ''1''} then Some True
      else if v \<in> {''no'', ''n'', ''false'', ''f'', ''0''} then Some False else None)"

definition ao_arts_set_option ::
  "live_device \<Rightarrow> string \<Rightarrow> string option \<Rightarrow> 'z posix_scheme
    \<Rightarrow> (bool \<times> live_device \<times> 'z posix_scheme) option" where
  "ao_arts_set_option d k v w =
     (if k = ''multi'' then do {
        v \<leftarrow> v;
        (case arts_multi_value v of
           Some m \<Rightarrow> do { i \<leftarrow> arts_state d; Some (True, set_arts (i\<lparr>arts_allow_multi := m\<rparr>) d, w) }
         | None \<Rightarrow> Some (False, d, w)) }
      else Some (True, d, w))"

text \<open>A stream that cannot be used is closed again, and the server left if nothing else plays.\<close>

definition arts_give_up ::
  "ao_arts_internal \<Rightarrow> live_device \<Rightarrow> 'z posix_scheme \<Rightarrow> live_device \<times> 'z posix_scheme" where
  "arts_give_up i d w =
     (set_arts (i\<lparr>arts_stream := 0\<rparr>) d,
      arts_unlock (arts_leave (snd (ask_ret (Arts (Arts_close_stream (arts_stream i))) w))))"

text \<open>\<open>arts_init\<close> when nothing plays yet; otherwise a second stream has to be allowed.\<close>

definition arts_connect :: "ao_arts_internal \<Rightarrow> 'z posix_scheme \<Rightarrow> bool \<times> 'z posix_scheme" where
  "arts_connect i w =
     (if p_arts_open_count w = 0 then (case ask_ret (Arts Arts_init) w of (r, w) \<Rightarrow> (r = 0, w))
      else (arts_allow_multi i, w))"

definition ao_arts_open ::
  "arts_build \<Rightarrow> live_device \<Rightarrow> ao_sample_format \<Rightarrow> 'z posix_scheme
    \<Rightarrow> (bool \<times> live_device \<times> ao_sample_format \<times> 'z posix_scheme) option" where
  "ao_arts_open b d format w = do {
     i \<leftarrow> arts_state d;
     (if output_channels d < 1 \<or> output_channels d > 2 then Some (False, d, format, w)
      else do {
        w \<leftarrow> arts_lock w;
        let (up, w) = arts_connect i w;
        (if \<not> up then Some (False, d, format, arts_unlock w)
         else do {
           let d = d\<lparr>driver_byte_format := AO_FMT_NATIVE\<rparr>;
           let (stream, w) = ask_ret (Arts (Arts_play_stream (fmt_rate format) (fmt_bits format)
                                (output_channels d) ''libao stream'')) w;
           let i = i\<lparr>arts_stream := stream\<rparr>;
           let d = set_arts i d;
           (if stream = 0 then Some (False, d, format, arts_unlock (arts_leave w))
            else do {
              let (r, w) = ask_ret (Arts (Arts_stream_set stream (ARTS_P_BLOCKING b) 0)) w;
              (if r \<noteq> 0 then (case arts_give_up i d w of (d, w) \<Rightarrow> Some (False, d, format, w))
               else do {
                 let (n, w) = ask_ret (Arts (Arts_stream_get stream (ARTS_P_BUFFER_SIZE b))) w;
                 let i = i\<lparr>arts_buffersize := n\<rparr>;
                 (if n \<le> 0 then (case arts_give_up i (set_arts i d) w of (d, w) \<Rightarrow> Some (False, d, format, w))
                  else do {
                    w \<leftarrow> arts_count 1 w;
                    Some (True, set_arts i d, format, arts_unlock w) }) }) }) }) }) }"

text \<open>
  The five writes of one turn: \<open>None\<close> inside is an error of the server, otherwise what was
  accepted, and what is left.  \<open>arts_write\<close> takes the number of bytes as an \<open>int\<close>.
\<close>

fun arts_tries ::
  "nat \<Rightarrow> int \<Rightarrow> byte list \<Rightarrow> 32 word \<Rightarrow> int \<Rightarrow> 'z posix_scheme
    \<Rightarrow> ((int \<times> byte list \<times> 32 word) option \<times> 'z posix_scheme) option" where
  "arts_tries 0 stream output_samples num_bytes accwrote w = Some (Some (accwrote, output_samples, num_bytes), w)"
| "arts_tries (Suc k) stream output_samples num_bytes accwrote w = do {
     _ \<leftarrow> c_int (uint num_bytes);
     bs \<leftarrow> load (unat num_bytes) output_samples 0;
     let (wrote, w) = ask_ret (Arts (Arts_write stream bs)) w;
     (if wrote < 0 then Some (None, w)
      else do {
        acc \<leftarrow> c_int (accwrote + wrote);
        arts_tries k stream (drop (nat wrote) output_samples) (num_bytes - word_of_int wrote) acc w }) }"

text \<open>The time to wait, in microseconds.\<close>

definition arts_wait :: "int \<Rightarrow> live_device \<Rightarrow> int option" where
  "arts_wait buffersize d = do {
     a \<leftarrow> c_int (buffersize * 1000);
     b \<leftarrow> c_int (output_channels d * bytewidth d);
     b \<leftarrow> c_int (b * dev_rate d);
     (if b = 0 then None
      else do {
        q \<leftarrow> c_int (a sdiv b);
        let wait = (q sdiv 8) * 1000;
        Some (if wait < 1 then 1 else if wait > 500000 then 500000 else wait) }) }"

text \<open>The loop of \<open>play\<close>; \<open>spindetect\<close> counts the turns in which nothing was accepted.\<close>

partial_function (option) arts_play_loop ::
  "ao_arts_internal \<Rightarrow> live_device \<Rightarrow> byte list \<Rightarrow> 32 word \<Rightarrow> int \<Rightarrow> 'z posix_scheme
    \<Rightarrow> (bool \<times> 'z posix_scheme) option" where
  "arts_play_loop i d output_samples num_bytes spindetect w =
     Option.bind (arts_tries 5 (arts_stream i) output_samples num_bytes 0 w) (\<lambda>(t, w).
       case t of
         None \<Rightarrow> Some (False, arts_unlock w)
       | Some (accwrote, output_samples, num_bytes) \<Rightarrow>
           let spindetect = (if accwrote \<noteq> 0 then 0 else spindetect + 1)
           in if spindetect = 100 then Some (False, arts_unlock w)
              else if num_bytes > 0
              then Option.bind (arts_wait (arts_buffersize i) d) (\<lambda>wait.
                     Option.bind (arts_lock (snd (ask_ret (Usleep wait) (arts_unlock w)))) (\<lambda>w.
                       arts_play_loop i d output_samples num_bytes spindetect w))
              else Some (True, arts_unlock w))"

declare arts_play_loop.simps [code]

definition ao_arts_play ::
  "live_device \<Rightarrow> byte list \<Rightarrow> 32 word \<Rightarrow> 'z posix_scheme
    \<Rightarrow> (bool \<times> live_device \<times> 'z posix_scheme) option" where
  "ao_arts_play d output_samples num_bytes w = do {
     i \<leftarrow> arts_state d;
     w \<leftarrow> arts_lock w;
     (r, w) \<leftarrow> arts_play_loop i d output_samples num_bytes 0 w;
     Some (r, d, w) }"

definition ao_arts_close ::
  "live_device \<Rightarrow> 'z posix_scheme \<Rightarrow> (bool \<times> live_device \<times> 'z posix_scheme) option" where
  "ao_arts_close d w = do {
     w \<leftarrow> arts_lock w;
     i \<leftarrow> arts_state d;
     let w = (if arts_stream i \<noteq> 0 then snd (ask_ret (Arts (Arts_close_stream (arts_stream i))) w) else w);
     w \<leftarrow> arts_count (-1) w;
     Some (True, set_arts (i\<lparr>arts_stream := 0\<rparr>) d, arts_unlock (arts_leave w)) }"

definition ao_arts_device_clear ::
  "live_device \<Rightarrow> 'z posix_scheme \<Rightarrow> (live_device \<times> 'z posix_scheme) option" where
  "ao_arts_device_clear d w =
     (if internal d = None then Some (d, w)
      else do { _ \<leftarrow> arts_state d; Some (d\<lparr>internal := None\<rparr>, free_block w) })"

definition ao_arts :: "arts_build \<Rightarrow> (plugin_internal ao_internal, 'z posix_scheme) ao_functions" where
  "ao_arts b =
     \<lparr>fn_test = ao_arts_test b, fn_driver_info = ao_arts_info b, fn_device_init = ao_arts_device_init,
      fn_set_option = ao_arts_set_option, fn_open = ao_arts_open b, fn_play = ao_arts_play,
      fn_close = ao_arts_close, fn_device_clear = ao_arts_device_clear, fn_file_extension = None\<rparr>"

section \<open>The ledger\<close>

text \<open>The heap is touched only where a device is set up or cleared.\<close>

lemma arts_calm [simp]:
  "w_live (arts_unlock w) = w_live w" "w_allocs (arts_unlock w) = w_allocs w"
  "w_live (arts_leave w) = w_live w" "w_allocs (arts_leave w) = w_allocs w"
  by (simp_all add: arts_unlock_def arts_leave_def)

lemma arts_lock_calm: "arts_lock w = Some v \<Longrightarrow> w_live v = w_live w \<and> w_allocs v = w_allocs w"
  by (auto simp: arts_lock_def split: if_splits)

lemma arts_count_calm: "arts_count n w = Some v \<Longrightarrow> w_live v = w_live w \<and> w_allocs v = w_allocs w"
  by (auto simp: arts_count_def split: Option.bind_splits)

lemma arts_connect_calm: "arts_connect i w = (up, v) \<Longrightarrow> w_live v = w_live w \<and> w_allocs v = w_allocs w"
  by (auto simp: arts_connect_def split: if_splits prod.splits dest: ask_ret_calm)

lemma ao_arts_init_law:
  assumes "ao_arts_device_init d w = Some (r, d', w')" and "internal d = None" and "output_matrix d = None"
  shows "books 0 plugin_blocks d w d' w' \<and> setup_frame d d'"
proof -
  obtain ok v where m: "malloc_ok w = (ok, v)" by (cases "malloc_ok w")
  obtain s u where t: "strdup ''L,R'' v = (s, u)" by fastforce
  show ?thesis
    using assms m t malloc_ok_heap [OF m] strdup_heap [OF t]
    by (cases ok; cases s)
       (auto simp: ao_arts_device_init_def books_def ledger setup_frame_def core_frame_def heap_step_def)
qed

lemma ao_arts_set_option_law:
  assumes "ao_arts_set_option d k v w = Some (r, d', w')"
  shows "books 0 plugin_blocks d w d' w' \<and> setup_frame d d'"
  using assms
  by (auto simp: ao_arts_set_option_def books_def ledger setup_frame_def core_frame_def plugin_state_iff
      split: if_splits Option.bind_splits option.splits)

text \<open>An open changes the structure and the byte format only, and nothing on the heap.\<close>

lemma arts_give_up_shape:
  "\<exists>j. fst (arts_give_up i d w) = set_arts j d \<and>
     w_live (snd (arts_give_up i d w)) = w_live w \<and> w_allocs (snd (arts_give_up i d w)) = w_allocs w"
  by (auto simp: arts_give_up_def)

lemma ao_arts_open_shape:
  assumes "ao_arts_open b d format w = Some (r, d', sf', w')"
  shows "sf' = format \<and> arts_state d \<noteq> None \<and> w_live w' = w_live w \<and> w_allocs w' = w_allocs w \<and>
    (\<exists>i y. d' = d \<or> d' = set_arts i (d\<lparr>driver_byte_format := y\<rparr>))"
proof -
  obtain j where j: "arts_state d = Some j"
    using assms by (auto simp: ao_arts_open_def split: Option.bind_splits)
  show ?thesis
  proof (cases "output_channels d < 1 \<or> output_channels d > 2")
    case True
    with assms j show ?thesis by (auto simp: ao_arts_open_def)
  next
    case False
    with assms j obtain v where v: "arts_lock w = Some v"
      by (auto simp: ao_arts_open_def split: Option.bind_splits)
    obtain up u where u: "arts_connect j v = (up, u)" by fastforce
    obtain s t where s: "ask_ret (Arts (Arts_play_stream (fmt_rate format) (fmt_bits format)
        (output_channels d) ''libao stream'')) u = (s, t)" by fastforce
    obtain r1 w1 where r1: "ask_ret (Arts (Arts_stream_set s (ARTS_P_BLOCKING b) 0)) t = (r1, w1)" by fastforce
    obtain n w2 where n: "ask_ret (Arts (Arts_stream_get s (ARTS_P_BUFFER_SIZE b))) w1 = (n, w2)" by fastforce
    let ?d = "d\<lparr>driver_byte_format := AO_FMT_NATIVE\<rparr>" and ?i = "j\<lparr>arts_stream := s\<rparr>"
    have calm: "w_live u = w_live w" "w_allocs u = w_allocs w" "w_live t = w_live w" "w_allocs t = w_allocs w"
      "w_live w1 = w_live w" "w_allocs w1 = w_allocs w" "w_live w2 = w_live w" "w_allocs w2 = w_allocs w"
      using arts_lock_calm [OF v] arts_connect_calm [OF u] ask_ret_calm [OF s] ask_ret_calm [OF r1]
        ask_ret_calm [OF n] by simp_all
    consider (down) "\<not> up" | (null) "up" "s = 0" | (set) "up" "s \<noteq> 0" "r1 \<noteq> 0"
      | (get) "up" "s \<noteq> 0" "r1 = 0" "n \<le> 0" | (ok) "up" "s \<noteq> 0" "r1 = 0" "n > 0" by linarith
    then show ?thesis
    proof cases
      case down
      with assms j False v u calm show ?thesis by (auto simp: ao_arts_open_def)
    next
      case null
      with assms j False v u s calm show ?thesis by (auto simp: ao_arts_open_def)
    next
      case set
      obtain d2 w3 where g: "arts_give_up ?i (set_arts ?i ?d) t = (d2, w3)" by fastforce
      obtain d3 w4 where h: "arts_give_up ?i (set_arts ?i ?d) w1 = (d3, w4)" by fastforce
      have "sf' = format" "d' = d3" "w' = w4" using set assms j False v u s r1 h by (simp_all add: ao_arts_open_def)
      with arts_give_up_shape [of ?i "set_arts ?i ?d" w1] h calm j show ?thesis by auto
    next
      case get
      let ?k = "?i\<lparr>arts_buffersize := n\<rparr>"
      obtain d3 w4 where h: "arts_give_up ?k (set_arts ?k ?d) w2 = (d3, w4)" by fastforce
      have "sf' = format" "d' = d3" "w' = w4" using get assms j False v u s r1 n h by (simp_all add: ao_arts_open_def)
      with arts_give_up_shape [of ?k "set_arts ?k ?d" w2] h calm j show ?thesis by auto
    next
      case ok
      let ?k = "?i\<lparr>arts_buffersize := n\<rparr>"
      obtain w3 where "arts_count 1 w2 = Some w3" "sf' = format" "d' = set_arts ?k ?d" "w' = arts_unlock w3"
        using ok assms j False v u s r1 n by (auto simp: ao_arts_open_def split: Option.bind_splits)
      with arts_count_calm [of 1 w2 w3] calm j show ?thesis by auto
    qed
  qed
qed

lemma ao_arts_open_law:
  assumes "ao_arts_open b d format w = Some (r, d', sf', w')"
  shows "books 0 plugin_blocks d w d' w' \<and> core_frame d d' \<and> sf' = format"
  using ao_arts_open_shape [OF assms]
  by (auto simp: books_def ledger core_frame_def plugin_state_iff)

lemma arts_tries_calm:
  "arts_tries k stream xs n acc w = Some (t, v) \<Longrightarrow> w_live v = w_live w \<and> w_allocs v = w_allocs w"
proof (induction k arbitrary: xs n acc w)
  case 0
  then show ?case by simp
next
  case (Suc k)
  obtain bs where bs: "load (unat n) xs 0 = Some bs" using Suc.prems by (auto split: Option.bind_splits)
  obtain r u where a: "ask_ret (Arts (Arts_write stream bs)) w = (r, u)" by fastforce
  show ?case
  proof (cases "r < 0")
    case True
    with Suc.prems bs a ask_ret_calm [OF a] show ?thesis by (auto split: Option.bind_splits)
  next
    case False
    with Suc.prems bs a obtain acc' where
      "arts_tries k stream (drop (nat r) xs) (n - word_of_int r) acc' u = Some (t, v)"
      by (auto split: Option.bind_splits)
    from Suc.IH [OF this] ask_ret_calm [OF a] show ?thesis by simp
  qed
qed

text \<open>One turn of the loop of \<open>play\<close>, \<open>loop\<close> being what it does next.\<close>

lemma arts_play_turn:
  assumes "Option.bind (arts_tries 5 (arts_stream i) xs n 0 w) (\<lambda>(t, w).
       case t of
         None \<Rightarrow> Some (False, arts_unlock w)
       | Some (accwrote, xs, n) \<Rightarrow>
           let spin = (if accwrote \<noteq> 0 then 0 else spin + 1)
           in if spin = 100 then Some (False, arts_unlock w)
              else if n > 0
              then Option.bind (arts_wait (arts_buffersize i) d) (\<lambda>wait.
                     Option.bind (arts_lock (snd (ask_ret (Usleep wait) (arts_unlock w)))) (\<lambda>w.
                       loop i d xs n spin w))
              else Some (True, arts_unlock w)) = Some y"
  obtains (error) v where "arts_tries 5 (arts_stream i) xs n 0 w = Some (None, v)" "y = (False, arts_unlock v)"
    | (spin) acc ys m v where "arts_tries 5 (arts_stream i) xs n 0 w = Some (Some (acc, ys, m), v)"
        "y = (False, arts_unlock v)"
    | (sent) acc ys v where "arts_tries 5 (arts_stream i) xs n 0 w = Some (Some (acc, ys, 0), v)"
        "y = (True, arts_unlock v)"
    | (turn) acc ys m v wait where "arts_tries 5 (arts_stream i) xs n 0 w = Some (Some (acc, ys, m), v)"
        "loop i d ys m (if acc \<noteq> 0 then 0 else spin + 1)
           ((snd (ask_ret (Usleep wait) (arts_unlock v)))\<lparr>p_arts_mutex := True\<rparr>) = Some y"
proof -
  obtain t v where t: "arts_tries 5 (arts_stream i) xs n 0 w = Some (t, v)"
    using assms by (auto split: Option.bind_splits)
  show ?thesis
  proof (cases t)
    case None
    with assms t error show ?thesis by simp
  next
    case (Some a)
    obtain acc ys m where a: "a = (acc, ys, m)" by (cases a)
    let ?spin = "if acc \<noteq> 0 then 0 else spin + 1"
    consider "?spin = 100" | "?spin \<noteq> 100" "m = 0" | "?spin \<noteq> 100" "m > 0" using word_gt_0 by blast
    then show ?thesis
    proof cases
      case 1
      with assms t Some a spin show ?thesis by (simp add: Let_def)
    next
      case 2
      with assms t Some a sent [of acc ys v] show ?thesis by (simp add: Let_def)
    next
      case 3
      with assms t Some a obtain wait where
        "Option.bind (arts_lock (snd (ask_ret (Usleep wait) (arts_unlock v)))) (\<lambda>w. loop i d ys m ?spin w) = Some y"
        by (auto simp: Let_def split: Option.bind_splits)
      then have "loop i d ys m ?spin ((snd (ask_ret (Usleep wait) (arts_unlock v)))\<lparr>p_arts_mutex := True\<rparr>) = Some y"
        by (simp add: arts_lock_def split: if_splits)
      with turn t Some a show ?thesis by blast
    qed
  qed
qed

lemmas arts_play_loop_induct = arts_play_loop.raw_induct [rotated, consumes 1, case_names turn]

lemma arts_play_loop_calm:
  "arts_play_loop i d xs n spin w = Some y \<Longrightarrow> w_live (snd y) = w_live w \<and> w_allocs (snd y) = w_allocs w"
proof (induction i d xs n spin w y rule: arts_play_loop_induct)
  case (turn loop i d xs n spin w y)
  from turn(2) show ?case
    by (cases rule: arts_play_turn) (auto dest!: arts_tries_calm turn(1))
qed

interpretation arts: ao_driver "ao_arts b" plugin_blocks for b
proof
  fix d d' :: live_device and w w' :: "'a posix_scheme" and r
  show "fn_device_init (ao_arts b) d w = Some (r, d', w') \<Longrightarrow> internal d = None \<Longrightarrow>
      output_matrix d = None \<Longrightarrow> books 0 plugin_blocks d w d' w' \<and> setup_frame d d'"
    using ao_arts_init_law by (simp add: ao_arts_def)
  show "fn_set_option (ao_arts b) d k v w = Some (r, d', w') \<Longrightarrow>
      books 0 plugin_blocks d w d' w' \<and> setup_frame d d'" for k v
    using ao_arts_set_option_law by (simp add: ao_arts_def)
  show "fn_open (ao_arts b) d sf w = Some (r, d', sf', w') \<Longrightarrow>
      books 0 plugin_blocks d w d' w' \<and> core_frame d d' \<and> fmt_matrix sf' = fmt_matrix sf" for sf sf'
    using ao_arts_open_law [of b d sf w r d' sf' w'] by (simp add: ao_arts_def)
  show "fn_play (ao_arts b) d bs n w = Some (r, d', w') \<Longrightarrow>
      books 0 plugin_blocks d w d' w' \<and> d' = d\<lparr>internal := internal d'\<rparr>" for bs n
    by (auto simp: ao_arts_def ao_arts_play_def books_def split: Option.bind_splits
        dest!: arts_lock_calm arts_play_loop_calm)
  show "fn_close (ao_arts b) d w = Some (r, d', w') \<Longrightarrow> books 0 plugin_blocks d w d' w' \<and> core_frame d d'"
    by (auto simp: ao_arts_def ao_arts_close_def books_def ledger plugin_state_iff
        split: Option.bind_splits dest!: arts_lock_calm arts_count_calm)
  show "fn_device_clear (ao_arts b) d w = Some (d', w') \<Longrightarrow>
      books 0 plugin_blocks d w d' w' \<and> core_frame d d' \<and> internal d' = None"
    by (auto simp: ao_arts_def ao_arts_device_clear_def books_def ledger plugin_state_iff
        split: Option.bind_splits if_splits)
qed


section \<open>What \<open>play\<close> delivers\<close>

definition arts_pick :: "int \<Rightarrow> call \<Rightarrow> byte list option" where
  "arts_pick stream c = (case c of
      Arts (Arts_write s bs) \<Rightarrow> if s = stream then Some bs else None | _ \<Rightarrow> None)"

text \<open>The bytes that the server accepted for a stream.\<close>

abbreviation arts_sent :: "int \<Rightarrow> 'z posix_scheme \<Rightarrow> byte list" where
  "arts_sent stream \<equiv> taken (arts_pick stream)"

text \<open>The server takes no more than it is offered.\<close>

definition arts_bounds :: "(call list \<Rightarrow> call \<Rightarrow> reply) \<Rightarrow> int \<Rightarrow> bool" where
  "arts_bounds ans stream \<longleftrightarrow> (\<forall>h bs. rp_ret (ans h (Arts (Arts_write stream bs))) \<le> int (length bs))"

lemma arts_write_step:
  assumes "ask_ret (Arts (Arts_write stream bs)) w = (r, v)" and "arts_bounds (p_answer w) stream"
  shows "r \<le> int (length bs)" "arts_sent stream v = arts_sent stream w @ take (nat r) bs"
    "p_answer v = p_answer w" "p_arts_mutex v = p_arts_mutex w"
  using assms taken_ask [OF assms(1), of "arts_pick stream"]
  by (auto simp: ask_ret_def ask_def arts_bounds_def arts_pick_def)

text \<open>The five writes send a prefix, and what is left is the rest.\<close>

lemma arts_tries_sends:
  assumes "arts_bounds (p_answer w) stream" and "unat n \<le> length xs" and "int (unat n) \<le> INT_MAX"
    and "0 \<le> acc" and "acc + int (unat n) \<le> INT_MAX"
  shows "\<exists>t v m. arts_tries k stream xs n acc w = Some (t, v) \<and> m \<le> unat n \<and>
    p_answer v = p_answer w \<and> p_arts_mutex v = p_arts_mutex w \<and>
    arts_sent stream v = arts_sent stream w @ take m xs \<and>
    (\<forall>a. t = Some a \<longrightarrow> (\<exists>n'. a = (acc + int m, drop m xs, n') \<and> unat n' = unat n - m))"
  using assms
proof (induction k arbitrary: xs n acc w)
  case 0
  show ?case by (rule exI [of _ "Some (acc, xs, n)"], rule exI [of _ w], rule exI [of _ 0]) simp
next
  case (Suc k)
  let ?bs = "take (unat n) xs"
  obtain r u where a: "ask_ret (Arts (Arts_write stream ?bs)) w = (r, u)" by fastforce
  note st = arts_write_step [OF a Suc.prems(1)]
  have ld: "load (unat n) xs 0 = Some ?bs" using Suc.prems(2) load_nat [of 0 "unat n" xs] by simp
  have ci: "c_int (uint n) = Some (uint n)" using Suc.prems(3) order_trans [OF _ uint_ge_0 [of n], of INT_MIN] by (simp add: c_int_def INT_MIN_def)
  show ?case
  proof (cases "r < 0")
    case True
    then have "arts_tries (Suc k) stream xs n acc w = Some (None, u)" using ld ci a by simp
    with True st show ?thesis by (intro exI [of _ None] exI [of _ u] exI [of _ 0]) simp
  next
    case False
    have r: "0 \<le> r" "nat r \<le> unat n" using False st(1) Suc.prems(2) by (simp_all add: nat_le_iff)
    then have n': "unat (n - word_of_int r) = unat n - nat r" by (rule unat_minus_written)
    have "r \<le> int (unat n)" using r by linarith
    then have acc: "c_int (acc + r) = Some (acc + r)"
      using r(1) Suc.prems(4,5) by (simp add: c_int_def INT_MIN_def)
    have "arts_bounds (p_answer u) stream" "unat (n - word_of_int r) \<le> length (drop (nat r) xs)"
      "int (unat (n - word_of_int r)) \<le> INT_MAX" "0 \<le> acc + r"
      "acc + r + int (unat (n - word_of_int r)) \<le> INT_MAX"
      using Suc.prems r st(3) unfolding n' by auto
    from Suc.IH [OF this] obtain t v m where t: "arts_tries k stream (drop (nat r) xs) (n - word_of_int r) (acc + r) u = Some (t, v)"
      "m \<le> unat n - nat r" "p_answer v = p_answer u" "p_arts_mutex v = p_arts_mutex u"
      "arts_sent stream v = arts_sent stream u @ take m (drop (nat r) xs)"
      "\<forall>a. t = Some a \<longrightarrow> (\<exists>n'. a = (acc + r + int m, drop m (drop (nat r) xs), n') \<and> unat n' = unat n - nat r - m)"
      unfolding n' by blast
    have "arts_tries (Suc k) stream xs n acc w = Some (t, v)" using False ld ci a acc t(1) by simp
    moreover have "take (nat r) ?bs @ take m (drop (nat r) xs) = take (nat r + m) xs"
      using r(2) by (simp add: take_add min_def)
    ultimately show ?thesis
      using t r st(2-4) by (intro exI [of _ t] exI [of _ v] exI [of _ "nat r + m"]) (auto simp: add.commute)
  qed
qed

text \<open>
  The loop ends for every server that takes no more than it is offered: a turn in which something
  is accepted shortens what is left, and a hundred turns without are the end.
\<close>

lemma arts_play_loop_returns:
  assumes "arts_bounds (p_answer w) (arts_stream i)" and "unat n \<le> length xs" and "int (unat n) \<le> INT_MAX"
    and "arts_wait (arts_buffersize i) d \<noteq> None" and "0 \<le> spin" and "spin < 100"
  shows "\<exists>r v m. arts_play_loop i d xs n spin w = Some (r, v) \<and> \<not> p_arts_mutex v \<and> m \<le> unat n \<and>
    arts_sent (arts_stream i) v = arts_sent (arts_stream i) w @ take m xs \<and> (r \<longrightarrow> m = unat n)"
  using assms
proof (induction "(unat n, nat (100 - spin))" arbitrary: xs n spin w
    rule: wf_induct_rule [OF wf_lex_prod [OF wf_less_than wf_less_than]])
  case 1
  let ?s = "arts_stream i"
  obtain t v m where t: "arts_tries 5 ?s xs n 0 w = Some (t, v)" "m \<le> unat n" "p_answer v = p_answer w"
    "arts_sent ?s v = arts_sent ?s w @ take m xs"
    "\<forall>a. t = Some a \<longrightarrow> (\<exists>n'. a = (int m, drop m xs, n') \<and> unat n' = unat n - m)"
    using arts_tries_sends [OF 1(2-4), of 0 5] 1(4) by auto
  have fin: "arts_sent s (arts_unlock v) = arts_sent s v" "\<not> p_arts_mutex (arts_unlock v)" for s
    by (simp_all add: arts_unlock_def taken_def)
  show ?case
  proof (cases t)
    case None
    then have "arts_play_loop i d xs n spin w = Some (False, arts_unlock v)"
      using t(1) by (subst arts_play_loop.simps) simp
    with fin t(2,4) show ?thesis by (intro exI [of _ False] exI [of _ "arts_unlock v"] exI [of _ m]) simp
  next
    case (Some a)
    then obtain n' where a: "a = (int m, drop m xs, n')" "unat n' = unat n - m" using t(5) by blast
    define spin' where "spin' = (if m \<noteq> 0 then 0 else spin + 1)"
    have spin': "(if int m \<noteq> 0 then 0 else spin + 1) = spin'" by (simp add: spin'_def)
    consider (spin) "spin' = 100" | (all) "spin' \<noteq> 100" "n' = 0" | (more) "spin' \<noteq> 100" "n' > 0"
      using word_gt_0 by blast
    then show ?thesis
    proof cases
      case spin
      then have "arts_play_loop i d xs n spin w = Some (False, arts_unlock v)"
        using t(1) Some a spin' by (subst arts_play_loop.simps) (simp add: Let_def)
      with fin t(2,4) show ?thesis by (intro exI [of _ False] exI [of _ "arts_unlock v"] exI [of _ m]) simp
    next
      case all
      then have "arts_play_loop i d xs n spin w = Some (True, arts_unlock v)"
        using t(1) Some a spin' by (subst arts_play_loop.simps) (simp add: Let_def)
      moreover have "m = unat n" using all(2) a(2) t(2) by simp
      ultimately show ?thesis
        using fin t(2,4) by (intro exI [of _ True] exI [of _ "arts_unlock v"] exI [of _ m]) simp
    next
      case more
      obtain wait where wait: "arts_wait (arts_buffersize i) d = Some wait" using 1(5) by blast
      let ?u = "(snd (ask_ret (Usleep wait) (arts_unlock v)))\<lparr>p_arts_mutex := True\<rparr>"
      have u: "p_answer ?u = p_answer w" "arts_sent ?s ?u = arts_sent ?s v"
        using t(3) taken_ask [of "Usleep wait" "arts_unlock v", OF surjective_pairing, of "arts_pick ?s"] fin(1)
        by (simp_all add: arts_unlock_def taken_def arts_pick_def)
      have "arts_lock (snd (ask_ret (Usleep wait) (arts_unlock v))) = Some ?u"
        by (simp add: arts_lock_def ask_ret_def ask_def arts_unlock_def)
      then have l: "arts_play_loop i d xs n spin w = arts_play_loop i d (drop m xs) n' spin' ?u"
        using t(1) Some a(1) spin' more wait by (subst arts_play_loop.simps) (simp add: Let_def)
      have less: "((unat n', nat (100 - spin')), (unat n, nat (100 - spin))) \<in> less_than <*lex*> less_than"
        using a(2) t(2) more 1(6,7) by (auto simp: spin'_def)
      have "unat n' \<le> unat n" using a(2) by simp
      then have int_n': "int (unat n') \<le> INT_MAX" using 1(4) by linarith
      have "arts_bounds (p_answer ?u) ?s" "unat n' \<le> length (drop m xs)" "0 \<le> spin'" "spin' < 100"
        using 1(2-7) u(1) a(2) more(1) by (auto simp: spin'_def)
      from 1(1) [OF less this(1,2) int_n' 1(5) this(3,4)] obtain r x k where r:
        "arts_play_loop i d (drop m xs) n' spin' ?u = Some (r, x)" "\<not> p_arts_mutex x" "k \<le> unat n'"
        "arts_sent ?s x = arts_sent ?s ?u @ take k (drop m xs)" "r \<longrightarrow> k = unat n'" by blast
      have "arts_sent ?s x = arts_sent ?s w @ take (m + k) xs" using r(4) u(2) t(4) by (simp add: take_add)
      moreover have "m + k \<le> unat n" "r \<longrightarrow> m + k = unat n" using r(3,5) a(2) t(2) by auto
      ultimately show ?thesis using l r(1,2) by metis
    qed
  qed
qed


end
