(* ===== verification/AO_Nas.thy ===== *)
theory AO_Nas
  imports AO_Posix
begin

text \<open>
  The Network Audio System driver, \<^verbatim>\<open>src/plugins/nas/ao_nas.c\<close>.  The constants of
  \<^verbatim>\<open>audiolib.h\<close> and the table of devices that an open server describes are the fields of
  \<open>nas_header\<close>.

  \<open>play\<close> waits for events that tell of room in the server's buffer; \<open>None\<close> is a run that faults
  or does not return.
\<close>

record au_device_info =
  au_kind :: int
  au_num_tracks :: int
  au_identifier :: int

record nas_header =
  AuFormatLinearUnsigned8 :: int
  AuFormatLinearSigned16MSB :: int
  AuFormatLinearSigned16LSB :: int
  AuComponentKindPhysicalOutput :: int
  AuElementNotifyKindLowWater :: int
  AuElementNotifyKindState :: int
  AuStatePause :: int
  AuReasonUser :: int
  au_server_devices :: "int \<Rightarrow> au_device_info list"

section \<open>Operations\<close>

definition AO_NAS_BUF_SIZE :: "32 word" where
  "AO_NAS_BUF_SIZE = 4096"

definition ao_nas_info :: ao_info where
  "ao_nas_info =
     \<lparr>info_type = AO_TYPE_LIVE, info_name = ''NAS output'', short_name = ''nas'',
      author = ''Antoine Mathys <Antoine.Mathys@unifr.ch>'',
      info_comment = ''Outputs to the Network Audio System.'',
      preferred_byte_format = AO_FMT_NATIVE, priority = 10,
      info_options = [''server'', ''host'', ''buf_size'', ''quiet'', ''verbose'', ''matrix'', ''debug''],
      option_count = 7\<rparr>"

definition ao_nas_test :: "'z posix_scheme \<Rightarrow> (bool \<times> 'z posix_scheme) option" where
  "ao_nas_test w = (case ask_ret (Nas (Au_open_server None)) w of (aud, w) \<Rightarrow>
     if aud = 0 then Some (False, w) else Some (True, snd (ask_ret (Nas (Au_close_server aud)) w)))"

definition ao_nas_device_init ::
  "live_device \<Rightarrow> 'z posix_scheme \<Rightarrow> (bool \<times> live_device \<times> 'z posix_scheme) option" where
  "ao_nas_device_init d w = (case malloc_ok w of (ok, w) \<Rightarrow>
     if \<not> ok then Some (False, d, w)
     else Some (True, (set_nas \<lparr>nas_aud = None, nas_flow = None, nas_dev = None, nas_host = None,
                          nas_buf_size = AO_NAS_BUF_SIZE, nas_buf_free = 0\<rparr> d)
                        \<lparr>output_matrix_order := AO_OUTPUT_MATRIX_FIXED\<rparr>, w))"

definition ao_nas_set_option ::
  "live_device \<Rightarrow> string \<Rightarrow> string option \<Rightarrow> 'z posix_scheme
    \<Rightarrow> (bool \<times> live_device \<times> 'z posix_scheme) option" where
  "ao_nas_set_option d k v w =
     (if k = ''host'' \<or> k = ''server'' then do {
        i \<leftarrow> nas_state d;
        v \<leftarrow> v;
        (case strdup v w of (s, w) \<Rightarrow>
          if s = None then Some (False, d, w)
          else Some (True, set_nas (i\<lparr>nas_host := s\<rparr>) d, free_opt (nas_host i) w)) }
      else if k = ''buf_size'' then do {
        v \<leftarrow> v;
        n \<leftarrow> atoi v;
        (if n \<le> 2 then Some (False, d, w)
         else do { i \<leftarrow> nas_state d; Some (True, set_nas (i\<lparr>nas_buf_size := word_of_int n\<rparr>) d, w) }) }
      else Some (True, d, w))"

definition nas_format :: "nas_header \<Rightarrow> live_device \<Rightarrow> ao_sample_format \<Rightarrow> int option" where
  "nas_format h d format =
     (if fmt_bits format = 8 then Some (AuFormatLinearUnsigned8 h)
      else if fmt_bits format = 16
      then Some (if machine_byte_format d = AO_FMT_BIG then AuFormatLinearSigned16MSB h
                 else AuFormatLinearSigned16LSB h)
      else None)"

text \<open>The first physical output with the right number of tracks.\<close>

fun nas_find_device :: "nas_header \<Rightarrow> int \<Rightarrow> au_device_info list \<Rightarrow> au_device_info option" where
  "nas_find_device h channels [] = None"
| "nas_find_device h channels (a # as) =
     (if au_kind a = AuComponentKindPhysicalOutput h \<and> au_num_tracks a = channels then Some a
      else nas_find_device h channels as)"

text \<open>The device and the flow; a flow that was asked for is stored, also when it is NULL.\<close>

definition nas_find_output ::
  "nas_header \<Rightarrow> int \<Rightarrow> int \<Rightarrow> ao_nas_internal \<Rightarrow> 'z posix_scheme \<Rightarrow> bool \<times> ao_nas_internal \<times> 'z posix_scheme" where
  "nas_find_output h channels aud i w =
     (case nas_find_device h channels (au_server_devices h aud) of
        None \<Rightarrow> (False, i, snd (ask_ret (Nas (Au_close_server aud)) w))
      | Some a \<Rightarrow> (case ask_ret (Nas (Au_create_flow aud)) w of (flow, w) \<Rightarrow>
          if flow = 0 then (False, i\<lparr>nas_flow := Some flow\<rparr>, snd (ask_ret (Nas (Au_close_server aud)) w))
          else (True, i\<lparr>nas_flow := Some flow, nas_dev := Some (au_identifier a)\<rparr>, w)))"

definition ao_nas_open ::
  "nas_header \<Rightarrow> live_device \<Rightarrow> ao_sample_format \<Rightarrow> 'z posix_scheme
    \<Rightarrow> (bool \<times> live_device \<times> ao_sample_format \<times> 'z posix_scheme) option" where
  "ao_nas_open h d format w = (case nas_format h d format of
      None \<Rightarrow> Some (False, d, format, w)
    | Some fmt \<Rightarrow> do {
        i \<leftarrow> nas_state d;
        let (aud, w) = ask_ret (Nas (Au_open_server (nas_host i))) w;
        let i = i\<lparr>nas_aud := Some aud\<rparr>;
        (if aud = 0 then Some (False, set_nas i d, format, w)
         else (case nas_find_output h (output_channels d) aud i w of (ok, i, w) \<Rightarrow>
           if \<not> ok then Some (False, set_nas i d, format, w)
           else do {
             flow \<leftarrow> nas_flow i;
             dev \<leftarrow> nas_dev i;
             let w = snd (ask_ret (Nas (Au_set_elements aud flow
                       \<lparr>au_rate = fmt_rate format, au_format = fmt, au_tracks = output_channels d,
                        au_max_samples = nas_buf_size i, au_low_water = nas_buf_size i div 2, au_device = dev\<rparr>)) w);
             let w = snd (ask_ret (Nas (Au_start_flow aud flow)) w);
             (case stereo_matrix ((set_nas i d)\<lparr>driver_byte_format := AO_FMT_NATIVE\<rparr>) w of
                (d, w) \<Rightarrow> Some (True, d, format, w)) })) })"

text \<open>The room that an event tells of; 0 for the events that tell of none.\<close>

definition nas_room :: "nas_header \<Rightarrow> au_event \<Rightarrow> 32 word" where
  "nas_room h ev = (case ev of
      Au_element_notify kind cur_state reason num_bytes \<Rightarrow>
        if kind = AuElementNotifyKindLowWater h then num_bytes
        else if kind = AuElementNotifyKindState h \<and> cur_state = AuStatePause h \<and> reason \<noteq> AuReasonUser h
        then num_bytes else 0
    | Au_other_event \<Rightarrow> 0)"

partial_function (option) nas_wait ::
  "nas_header \<Rightarrow> int \<Rightarrow> 32 word \<Rightarrow> 'z posix_scheme \<Rightarrow> (32 word \<times> 'z posix_scheme) option" where
  "nas_wait h aud buf_free w =
     (if buf_free = 0
      then (case ask (Nas (Au_next_event aud)) w of (r, w) \<Rightarrow> nas_wait h aud (nas_room h (rp_event r)) w)
      else Some (buf_free, w))"

declare nas_wait.simps [code]

lemma nas_wait_room: "nas_wait h aud free w = Some y \<Longrightarrow> fst y \<noteq> 0 \<and> calls_only w (snd y)"
proof (induction h aud free w y rule: nas_wait.raw_induct [rotated, consumes 1, case_names turn])
  case (turn loop h aud free w y)
  obtain r v where a: "ask (Nas (Au_next_event aud)) w = (r, v)" by fastforce
  show ?case
  proof (cases "free = 0")
    case True
    with turn(2) a have "loop h aud (nas_room h (rp_event r)) v = Some y" by simp
    from turn(1) [OF this] ask_calls [OF a] calls_only_trans show ?thesis by blast
  next
    case False
    with turn(2) show ?thesis by auto
  qed
qed

lemma unat_minus_less: "(r :: 32 word) \<noteq> 0 \<Longrightarrow> r < n \<Longrightarrow> unat (n - r) < unat n"
  using unat_gt_0 [of r] by (simp add: unat_sub word_less_nat_alt word_le_nat_alt)

text \<open>The loop of \<open>play\<close>: what \<open>buf_free\<close> is at the end.\<close>

function nas_play_loop ::
  "nas_header \<Rightarrow> ao_nas_internal \<Rightarrow> byte list \<Rightarrow> 32 word \<Rightarrow> 32 word \<Rightarrow> 'z posix_scheme
    \<Rightarrow> (32 word \<times> 'z posix_scheme) option" where
  "nas_play_loop h i output_samples num_bytes buf_free w =
     (if num_bytes = 0 then Some (buf_free, w)
      else do {
        aud \<leftarrow> nas_aud i;
        (room, w) \<leftarrow> nas_wait h aud buf_free w;
        flow \<leftarrow> nas_flow i;
        (if num_bytes > room
         then do {
           bs \<leftarrow> load (unat room) output_samples 0;
           let w = snd (ask_ret (Nas (Au_write_element aud flow bs)) w);
           nas_play_loop h i (drop (unat room) output_samples) (num_bytes - room) 0 w }
         else do {
           bs \<leftarrow> load (unat num_bytes) output_samples 0;
           Some (room - num_bytes, snd (ask_ret (Nas (Au_write_element aud flow bs)) w)) }) })"
  by pat_completeness auto

termination
  by (relation "measure (\<lambda>(_, _, _, n, _, _). unat n)")
     (auto intro!: unat_minus_less dest!: nas_wait_room)

declare nas_play_loop.simps [simp del]

definition ao_nas_play ::
  "nas_header \<Rightarrow> live_device \<Rightarrow> byte list \<Rightarrow> 32 word \<Rightarrow> 'z posix_scheme
    \<Rightarrow> (bool \<times> live_device \<times> 'z posix_scheme) option" where
  "ao_nas_play h d output_samples num_bytes w = do {
     i \<leftarrow> nas_state d;
     (buf_free, w) \<leftarrow> nas_play_loop h i output_samples num_bytes (nas_buf_free i) w;
     Some (True, set_nas (i\<lparr>nas_buf_free := buf_free\<rparr>) d, w) }"

definition ao_nas_close ::
  "live_device \<Rightarrow> 'z posix_scheme \<Rightarrow> (bool \<times> live_device \<times> 'z posix_scheme) option" where
  "ao_nas_close d w = do {
     i \<leftarrow> nas_state d;
     aud \<leftarrow> nas_aud i;
     (if aud = 0 then Some (True, d, w)
      else do {
        flow \<leftarrow> nas_flow i;
        let w = snd (ask_ret (Nas (Au_stop_flow aud flow)) w);
        Some (True, d, snd (ask_ret (Nas (Au_close_server aud)) w)) }) }"

definition ao_nas_device_clear ::
  "live_device \<Rightarrow> 'z posix_scheme \<Rightarrow> (live_device \<times> 'z posix_scheme) option" where
  "ao_nas_device_clear d w = do {
     i \<leftarrow> nas_state d;
     Some (d\<lparr>internal := None\<rparr>, free_block (free_opt (nas_host i) w)) }"

definition ao_nas :: "nas_header \<Rightarrow> (plugin_internal ao_internal, 'z posix_scheme) ao_functions" where
  "ao_nas h =
     \<lparr>fn_test = ao_nas_test, fn_driver_info = ao_nas_info, fn_device_init = ao_nas_device_init,
      fn_set_option = ao_nas_set_option, fn_open = ao_nas_open h, fn_play = ao_nas_play h,
      fn_close = ao_nas_close, fn_device_clear = ao_nas_device_clear, fn_file_extension = None\<rparr>"

section \<open>The ledger\<close>

lemma ao_nas_init_law:
  assumes "ao_nas_device_init d w = Some (r, d', w')" and "internal d = None"
  shows "books 0 plugin_blocks d w d' w' \<and> setup_frame d d'"
proof -
  obtain ok v where m: "malloc_ok w = (ok, v)" by (cases "malloc_ok w")
  with assms malloc_ok_heap [OF m] show ?thesis
    by (cases ok)
       (auto simp: ao_nas_device_init_def books_def ledger setup_frame_def core_frame_def heap_step_def)
qed

lemma ao_nas_set_option_law:
  assumes "ao_nas_set_option d k v w = Some (r, d', w')"
  shows "books 0 plugin_blocks d w d' w' \<and> setup_frame d d'"
  using assms
  by (auto simp: ao_nas_set_option_def books_def ledger setup_frame_def core_frame_def heap_step_def
      plugin_state_iff split: if_splits Option.bind_splits prod.splits dest!: strdup_heap)

lemma nas_find_output_calls:
  "nas_find_output h channels aud i w = (ok, j, w') \<Longrightarrow> calls_only w w' \<and> nas_host j = nas_host i"
  by (auto simp: nas_find_output_def split: option.splits prod.splits if_splits
      dest: ask_ret_calls intro: calls_only_trans)

lemma ao_nas_open_law:
  assumes "ao_nas_open h d format w = Some (r, d', sf', w')"
  shows "books 0 plugin_blocks d w d' w' \<and> core_frame d d' \<and> sf' = format"
proof (cases "nas_format h d format")
  case None
  with assms show ?thesis by (simp add: ao_nas_open_def)
next
  case (Some fmt)
  with assms obtain i where i: "nas_state d = Some i"
    by (auto simp: ao_nas_open_def split: Option.bind_splits)
  obtain aud v where a: "ask_ret (Nas (Au_open_server (nas_host i))) w = (aud, v)" by fastforce
  obtain ok j u where f: "nas_find_output h (output_channels d) aud (i\<lparr>nas_aud := Some aud\<rparr>) v = (ok, j, u)"
    by (metis prod_cases3)
  have c: "calls_only w v" "calls_only w u" "nas_host j = nas_host i"
    using ask_ret_calls [OF a] nas_find_output_calls [OF f] calls_only_trans by auto
  have b: "books 0 plugin_blocks d w (set_nas k d) x" if "calls_only w x" "nas_host k = nas_host i" for k x
    by (rule books_replace [where p = "Nas_internal i"])
       (use i that calls_only_held in \<open>auto simp: plugin_state_iff\<close>)
  show ?thesis
  proof (cases "aud = 0 \<or> \<not> ok")
    case True
    with assms Some i a f c b show ?thesis by (auto simp: ao_nas_open_def split: if_splits)
  next
    case False
    with assms Some i a f obtain flow dev where nn: "nas_flow j = Some flow" "nas_dev j = Some dev"
      by (auto simp: ao_nas_open_def split: Option.bind_splits)
    define x where "x = snd (ask_ret (Nas (Au_start_flow aud flow)) (snd (ask_ret (Nas (Au_set_elements aud flow
         \<lparr>au_rate = fmt_rate format, au_format = fmt, au_tracks = output_channels d,
          au_max_samples = nas_buf_size j, au_low_water = nas_buf_size j div 2, au_device = dev\<rparr>)) u)))"
    have "calls_only u x" unfolding x_def using calls_only_trans ask_ret_snd_calls by blast
    moreover have "stereo_matrix ((set_nas j d)\<lparr>driver_byte_format := AO_FMT_NATIVE\<rparr>) x = (d', w') \<and> sf' = format"
      using assms Some i a f nn False unfolding x_def
      by (cases "stereo_matrix ((set_nas j d)\<lparr>driver_byte_format := AO_FMT_NATIVE\<rparr>) x")
         (simp add: ao_nas_open_def x_def)
    ultimately have x: "calls_only u x" "sf' = format"
      "stereo_matrix ((set_nas j d)\<lparr>driver_byte_format := AO_FMT_NATIVE\<rparr>) x = (d', w')" by simp_all
    have "books 0 plugin_blocks d w (set_nas j d) x" using b calls_only_trans [OF c(2) x(1)] c(3) by blast
    then show ?thesis
      using stereo_matrix_law [OF x(3), of plugin_blocks] x(2) by (auto simp: books_def ledger core_frame_def)
  qed
qed

lemma nas_play_loop_calls:
  "nas_play_loop h i xs n free w = Some (f, w') \<Longrightarrow> calls_only w w'"
proof (induction h i xs n free w arbitrary: f w' rule: nas_play_loop.induct)
  case (1 h i xs n free w)
  show ?case
  proof (cases "n = 0")
    case True
    with 1(2) show ?thesis by (simp add: nas_play_loop.simps)
  next
    case False
    with 1(2) obtain aud room v flow where a: "nas_aud i = Some aud" "nas_wait h aud free w = Some (room, v)"
      "nas_flow i = Some flow" by (auto simp: nas_play_loop.simps [of h i xs n] split: Option.bind_splits)
    have v: "calls_only w v" using nas_wait_room [OF a(2)] by simp
    show ?thesis
    proof (cases "n > room")
      case True
      with 1(2) False a obtain bs where bs: "load (unat room) xs 0 = Some bs"
        "nas_play_loop h i (drop (unat room) xs) (n - room) 0
           (snd (ask_ret (Nas (Au_write_element aud flow bs)) v)) = Some (f, w')"
        by (auto simp: nas_play_loop.simps [of h i xs n] split: Option.bind_splits)
      from 1(1) [OF False a(1,2) refl a(3) True bs(1) refl bs(2)] v calls_only_trans ask_ret_snd_calls
      show ?thesis by blast
    next
      case no: False
      with 1(2) False a v show ?thesis
        by (auto simp: nas_play_loop.simps [of h i xs n] split: Option.bind_splits
            intro: calls_only_trans [OF v ask_ret_snd_calls])
    qed
  qed
qed

interpretation nas: ao_driver "ao_nas h" plugin_blocks for h
proof
  fix d d' :: live_device and w w' :: "'a posix_scheme" and r
  show "fn_device_init (ao_nas h) d w = Some (r, d', w') \<Longrightarrow> internal d = None \<Longrightarrow>
      output_matrix d = None \<Longrightarrow> books 0 plugin_blocks d w d' w' \<and> setup_frame d d'"
    using ao_nas_init_law by (simp add: ao_nas_def)
  show "fn_set_option (ao_nas h) d k v w = Some (r, d', w') \<Longrightarrow>
      books 0 plugin_blocks d w d' w' \<and> setup_frame d d'" for k v
    using ao_nas_set_option_law by (simp add: ao_nas_def)
  show "fn_open (ao_nas h) d sf w = Some (r, d', sf', w') \<Longrightarrow>
      books 0 plugin_blocks d w d' w' \<and> core_frame d d' \<and> fmt_matrix sf' = fmt_matrix sf" for sf sf'
    using ao_nas_open_law [of h d sf w r d' sf' w'] by (simp add: ao_nas_def)
  show "fn_play (ao_nas h) d bs n w = Some (r, d', w') \<Longrightarrow>
      books 0 plugin_blocks d w d' w' \<and> d' = d\<lparr>internal := internal d'\<rparr>" for bs n
    by (auto simp: ao_nas_def ao_nas_play_def books_def ledger plugin_state_iff calls_only_sel
        split: Option.bind_splits dest!: nas_play_loop_calls)
  show "fn_close (ao_nas h) d w = Some (r, d', w') \<Longrightarrow> books 0 plugin_blocks d w d' w' \<and> core_frame d d'"
    by (auto simp: ao_nas_def ao_nas_close_def books_def split: Option.bind_splits if_splits)
  show "fn_device_clear (ao_nas h) d w = Some (d', w') \<Longrightarrow>
      books 0 plugin_blocks d w d' w' \<and> core_frame d d' \<and> internal d' = None"
    by (auto simp: ao_nas_def ao_nas_device_clear_def books_def ledger plugin_state_iff
        split: Option.bind_splits)
qed


section \<open>Room in the server's buffer\<close>

text \<open>
  The calls of a run, read as the server sees them: an event that tells of room sets the credit, a
  write uses it up, and a write of more than the credit is an offence (\<open>None\<close>).
\<close>

fun nas_credit ::
  "nas_header \<Rightarrow> (call list \<Rightarrow> call \<Rightarrow> reply) \<Rightarrow> call list \<Rightarrow> nat \<Rightarrow> call list \<Rightarrow> nat option" where
  "nas_credit h ans past credit [] = Some credit"
| "nas_credit h ans past credit (c # cs) = (case c of
      Nas (Au_next_event aud) \<Rightarrow>
        let room = unat (nas_room h (rp_event (ans past c)))
        in nas_credit h ans (past @ [c]) (if room = 0 then credit else room) cs
    | Nas (Au_write_element aud flow bs) \<Rightarrow>
        if length bs \<le> credit then nas_credit h ans (past @ [c]) (credit - length bs) cs else None
    | _ \<Rightarrow> nas_credit h ans (past @ [c]) credit cs)"

fun nas_written :: "call list \<Rightarrow> byte list" where
  "nas_written [] = []"
| "nas_written (c # cs) = (case c of Nas (Au_write_element aud flow bs) \<Rightarrow> bs | _ \<Rightarrow> []) @ nas_written cs"

lemma nas_credit_append:
  "nas_credit h ans past k (cs @ cs') =
     Option.bind (nas_credit h ans past k cs) (\<lambda>k. nas_credit h ans (past @ cs) k cs')"
  by (induction cs arbitrary: past k)
     (auto simp: Let_def split: call.splits nas_call.splits)

lemma nas_written_append: "nas_written (cs @ cs') = nas_written cs @ nas_written cs'"
  by (induction cs) auto

text \<open>What a stretch of the run has done: \<open>k\<close> bytes of credit left, \<open>xs\<close> written.\<close>

definition nas_ran ::
  "nas_header \<Rightarrow> 'z posix_scheme \<Rightarrow> nat \<Rightarrow> byte list \<Rightarrow> nat \<Rightarrow> 'z posix_scheme \<Rightarrow> bool" where
  "nas_ran h w j xs k v \<longleftrightarrow> p_answer v = p_answer w \<and>
     (\<exists>cs. p_calls v = p_calls w @ cs \<and> nas_credit h (p_answer w) (p_calls w) j cs = Some k \<and> nas_written cs = xs)"

lemma nas_ran_refl [simp]: "nas_ran h w k [] k w"
  unfolding nas_ran_def by (intro conjI exI [of _ "[]"]) simp_all

lemma nas_ran_trans:
  assumes "nas_ran h u i xs j v" and "nas_ran h v j ys k w"
  shows "nas_ran h u i (xs @ ys) k w"
proof -
  from assms obtain cs cs' where
    "p_calls v = p_calls u @ cs" "nas_credit h (p_answer u) (p_calls u) i cs = Some j" "nas_written cs = xs"
    "p_calls w = p_calls v @ cs'" "nas_credit h (p_answer v) (p_calls v) j cs' = Some k" "nas_written cs' = ys"
    "p_answer v = p_answer u" "p_answer w = p_answer u" by (auto simp: nas_ran_def)
  then show ?thesis
    unfolding nas_ran_def
    by (intro conjI exI [of _ "cs @ cs'"]) (simp_all add: nas_credit_append nas_written_append)
qed

lemma nas_ran_write:
  assumes "length bs \<le> k"
  shows "nas_ran h w k bs (k - length bs) (snd (ask_ret (Nas (Au_write_element aud flow bs)) w))"
  unfolding nas_ran_def
  by (intro conjI exI [of _ "[Nas (Au_write_element aud flow bs)]"]) (use assms in simp_all)

lemma nas_wait_ran:
  "nas_wait h aud free w = Some y \<Longrightarrow> nas_ran h w (unat free) [] (unat (fst y)) (snd y)"
proof (induction h aud free w y rule: nas_wait.raw_induct [rotated, consumes 1, case_names turn])
  case (turn loop h aud free w y)
  obtain r v where a: "ask (Nas (Au_next_event aud)) w = (r, v)" by fastforce
  show ?case
  proof (cases "free = 0")
    case True
    with turn(2) a have l: "loop h aud (nas_room h (rp_event r)) v = Some y" by simp
    have "p_answer v = p_answer w" "p_calls v = p_calls w @ [Nas (Au_next_event aud)]"
      "r = p_answer w (p_calls w) (Nas (Au_next_event aud))"
      using a by (auto simp: ask_def Let_def)
    then have "nas_ran h w 0 [] (unat (nas_room h (rp_event r))) v"
      unfolding nas_ran_def by (intro conjI exI [of _ "[Nas (Au_next_event aud)]"]) (simp_all add: Let_def)
    from nas_ran_trans [OF this turn(1) [OF l]] True show ?thesis by simp
  next
    case False
    with turn(2) show ?thesis by auto
  qed
qed

text \<open>However long it waits, \<open>play\<close> never writes more than the room it has been told of.\<close>

lemma nas_play_loop_ran:
  "nas_play_loop h i xs n free w = Some (f, w') \<Longrightarrow>
   nas_ran h w (unat free) (take (unat n) xs) (unat f) w' \<and> unat n \<le> length xs"
proof (induction h i xs n free w arbitrary: f w' rule: nas_play_loop.induct)
  case (1 h i xs n free w)
  show ?case
  proof (cases "n = 0")
    case True
    with 1(2) show ?thesis by (simp add: nas_play_loop.simps)
  next
    case False
    with 1(2) obtain aud room v flow where a: "nas_aud i = Some aud" "nas_wait h aud free w = Some (room, v)"
      "nas_flow i = Some flow" by (auto simp: nas_play_loop.simps [of h i xs n] split: Option.bind_splits)
    have v: "nas_ran h w (unat free) [] (unat room) v" using nas_wait_ran [OF a(2)] by simp
    show ?thesis
    proof (cases "n > room")
      case True
      with 1(2) False a obtain bs where bs: "load (unat room) xs 0 = Some bs"
        "nas_play_loop h i (drop (unat room) xs) (n - room) 0
           (snd (ask_ret (Nas (Au_write_element aud flow bs)) v)) = Some (f, w')"
        by (auto simp: nas_play_loop.simps [of h i xs n] split: Option.bind_splits)
      note b = load_prefix [OF bs(1)]
      have n: "unat (n - room) = unat n - unat room" "unat room < unat n"
        using True by (simp_all add: unat_sub word_less_nat_alt word_le_nat_alt)
      note step = 1(1) [OF False a(1,2) refl a(3) True bs(1) refl bs(2)]
      have w1: "nas_ran h v (unat room) bs 0 (snd (ask_ret (Nas (Au_write_element aud flow bs)) v))"
        using nas_ran_write [of bs "unat room" h v aud flow] b(2) by simp
      have "nas_ran h w (unat free) ([] @ bs @ take (unat n - unat room) (drop (unat room) xs)) (unat f) w'"
        using nas_ran_trans [OF v nas_ran_trans [OF w1]] step n(1) by simp
      moreover have "bs @ take (unat n - unat room) (drop (unat room) xs) = take (unat n) xs"
        using n(2) unfolding b(1) take_add [symmetric] by simp
      moreover have "unat n \<le> length xs"
      proof -
        have "unat n - unat room \<le> length xs - unat room" using step n(1) by simp
        then show ?thesis using b(3) n(2) by linarith
      qed
      ultimately show ?thesis by simp
    next
      case no: False
      with 1(2) False a v obtain bs where bs: "load (unat n) xs 0 = Some bs" "f = room - n"
        "w' = snd (ask_ret (Nas (Au_write_element aud flow bs)) v)"
        by (auto simp: nas_play_loop.simps [of h i xs n] split: Option.bind_splits)
      note b = load_prefix [OF bs(1)]
      have "unat n \<le> unat room" "unat f = unat room - unat n"
        using no bs(2) by (simp_all add: unat_sub word_le_nat_alt not_less)
      then have "nas_ran h v (unat room) bs (unat f) w'"
        using nas_ran_write [of bs "unat room" h v aud flow] b(2) bs(3) by simp
      from nas_ran_trans [OF v this] b show ?thesis by simp
    qed
  qed
qed

text \<open>A server that tells of room again and again.\<close>

definition nas_lively :: "nas_header \<Rightarrow> (call list \<Rightarrow> call \<Rightarrow> reply) \<Rightarrow> int \<Rightarrow> bool" where
  "nas_lively h ans aud \<longleftrightarrow> (\<exists>k. \<forall>past. \<exists>j \<le> k.
     nas_room h (rp_event (ans (past @ replicate j (Nas (Au_next_event aud))) (Nas (Au_next_event aud)))) \<noteq> 0)"

lemma nas_wait_returns:
  assumes "nas_lively h (p_answer w) aud"
  shows "\<exists>y. nas_wait h aud free w = Some y"
proof (cases "free = 0")
  case False
  then show ?thesis by (subst nas_wait.simps) simp
next
  case True
  let ?c = "Nas (Au_next_event aud)"
  obtain j where j: "nas_room h (rp_event (p_answer w (p_calls w @ replicate j ?c) ?c)) \<noteq> 0"
    using assms unfolding nas_lively_def by blast
  have stop: "\<exists>y. nas_wait h aud f u = Some y" if "f \<noteq> 0" for f and u :: "'a posix_scheme"
    using that by (subst nas_wait.simps) simp
  have "nas_room h (rp_event (p_answer u (p_calls u @ replicate j ?c) ?c)) \<noteq> 0 \<Longrightarrow>
      \<exists>y. nas_wait h aud 0 u = Some y" for u :: "'a posix_scheme" and j
  proof (induction j arbitrary: u)
    case 0
    let ?r = "fst (ask ?c u)" and ?v = "snd (ask ?c u)"
    have "nas_room h (rp_event ?r) \<noteq> 0" using 0 by (simp add: ask_def Let_def)
    from stop [OF this, of ?v] show ?case by (subst nas_wait.simps) (simp add: split_beta)
  next
    case (Suc j)
    let ?r = "fst (ask ?c u)" and ?v = "snd (ask ?c u)"
    show ?case
    proof (cases "nas_room h (rp_event ?r) = 0")
      case True
      have "\<exists>y. nas_wait h aud 0 ?v = Some y"
        by (rule Suc.IH) (use Suc.prems in \<open>simp add: replicate_append_same flip: replicate_Suc\<close>)
      with True show ?thesis by (subst nas_wait.simps) (simp add: split_beta)
    next
      case False
      from stop [OF this, of ?v] show ?thesis by (subst nas_wait.simps) (simp add: split_beta)
    qed
  qed
  from this [OF j] True show ?thesis by simp
qed

lemma nas_play_loop_returns:
  assumes "nas_aud i = Some aud" and "nas_flow i = Some flow" and "nas_lively h (p_answer w) aud"
    and "unat n \<le> length xs"
  shows "\<exists>y. nas_play_loop h i xs n free w = Some y"
  using assms
proof (induction "unat n" arbitrary: xs n free w rule: less_induct)
  case less
  show ?case
  proof (cases "n = 0")
    case True
    then show ?thesis by (simp add: nas_play_loop.simps)
  next
    case False
    obtain room v where v: "nas_wait h aud free w = Some (room, v)"
      using nas_wait_returns [OF less.prems(3), of free] by auto
    have ans: "p_answer v = p_answer w" and room: "room \<noteq> 0"
      using nas_wait_room [OF v] calls_only_sel(5) by auto
    show ?thesis
    proof (cases "n > room")
      case True
      have n: "unat (n - room) = unat n - unat room" "unat room < unat n"
        using True by (simp_all add: unat_sub word_less_nat_alt word_le_nat_alt)
      have "unat (n - room) < unat n" using unat_minus_less [OF room True] .
      from less.hyps [OF this less.prems(1,2), of "snd (ask_ret (Nas (Au_write_element aud flow (take (unat room) xs))) v)"
          "drop (unat room) xs" 0] less.prems(3,4) ans n
      show ?thesis
        using True False v less.prems(1,2) load_nat [of 0 "unat room" xs] less.prems(4)
        by (simp add: nas_play_loop.simps [of h i xs n])
    next
      case no: False
      with False v less.prems(1,2) load_nat [of 0 "unat n" xs] less.prems(4) show ?thesis
        by (simp add: nas_play_loop.simps [of h i xs n])
    qed
  qed
qed


end
