(* ===== verification/AO_Irix.thy ===== *)
theory AO_Irix
  imports AO_Posix
begin

text \<open>
  The IRIX driver, \<^verbatim>\<open>src/plugins/irix/ao_irix.c\<close>.  The constants of \<^verbatim>\<open>audio.h\<close> are the fields of
  \<open>irix_header\<close>.
\<close>

record irix_header =
  AL_DEFAULT_OUTPUT :: int
  AL_SAMPLE_8 :: int
  AL_SAMPLE_16 :: int
  AL_SAMPLE_24 :: int
  AL_SAMPFMT_TWOSCOMP :: int

section \<open>Operations\<close>

definition AO_IRIX_BUFFER_SIZE :: int where
  "AO_IRIX_BUFFER_SIZE = 32768"

definition ao_irix_info :: ao_info where
  "ao_irix_info =
     \<lparr>info_type = AO_TYPE_LIVE, info_name = ''Irix audio output '', short_name = ''irix'',
      author = ''Jim Miller <???@sgi.com>'', info_comment = ''Outputs to the IRIX Audio Library.'',
      preferred_byte_format = AO_FMT_NATIVE, priority = 20,
      info_options = [''matrix'', ''verbose'', ''quiet'', ''debug''], option_count = 4\<rparr>"

definition ao_irix_test :: "'z posix_scheme \<Rightarrow> (bool \<times> 'z posix_scheme) option" where
  "ao_irix_test w = (case ask_ret (Irix (Al_open_port ''libao test'' 0)) w of (port, w) \<Rightarrow>
     if port = 0 then Some (False, w) else Some (True, snd (ask_ret (Irix (Al_close_port port)) w)))"

definition ao_irix_device_init ::
  "live_device \<Rightarrow> 'z posix_scheme \<Rightarrow> (bool \<times> live_device \<times> 'z posix_scheme) option" where
  "ao_irix_device_init d w = (case malloc_ok w of (ok, w) \<Rightarrow>
     if \<not> ok then Some (False, d, w)
     else (case ask_ret (Irix Al_new_config) w of (cfg, w) \<Rightarrow>
       Some (True, (set_irix \<lparr>irix_alport = 0, irix_alconfig = cfg, irix_bytesPerSample = 2,
                       irix_channels = 2\<rparr> d)\<lparr>output_matrix_order := AO_OUTPUT_MATRIX_FIXED\<rparr>, w)))"

definition ao_irix_set_option ::
  "live_device \<Rightarrow> string \<Rightarrow> string option \<Rightarrow> 'z posix_scheme
    \<Rightarrow> (bool \<times> live_device \<times> 'z posix_scheme) option" where
  "ao_irix_set_option d k v w = Some (True, d, w)"

text \<open>Bytes a sample takes, and the width to set; for other widths a message and the width of 16 bits.\<close>

definition irix_width :: "irix_header \<Rightarrow> int \<Rightarrow> ao_irix_internal \<Rightarrow> int \<times> ao_irix_internal" where
  "irix_width h bits i =
     (if bits = 8 then (AL_SAMPLE_8 h, i\<lparr>irix_bytesPerSample := 1\<rparr>)
      else if bits = 16 then (AL_SAMPLE_16 h, i\<lparr>irix_bytesPerSample := 2\<rparr>)
      else if bits = 24 then (AL_SAMPLE_24 h, i\<lparr>irix_bytesPerSample := 4\<rparr>)
      else (AL_SAMPLE_16 h, i))"

text \<open>
  The part of \<open>open\<close> that works on the structure, in the order of the code up to the first step that
  fails.
\<close>

definition irix_setup ::
  "irix_header \<Rightarrow> int \<Rightarrow> ao_sample_format \<Rightarrow> ao_irix_internal \<Rightarrow> 'z posix_scheme
    \<Rightarrow> bool \<times> ao_irix_internal \<times> 'z posix_scheme" where
  "irix_setup h channels format i w =
     (let (r, w) = ask_ret (Irix (Al_set_queue_size (irix_alconfig i) AO_IRIX_BUFFER_SIZE)) w
      in if r < 0 then (False, i, w)
      else let (r, w) = ask_ret (Irix (Al_set_channels (irix_alconfig i) channels)) w
      in if r < 0 then (False, i, w)
      else let i = i\<lparr>irix_channels := channels\<rparr>;
               (r, w) = ask_ret (Irix (Al_set_device (irix_alconfig i) (AL_DEFAULT_OUTPUT h))) w
      in if r < 0 then (False, i, w)
      else let (r, w) = ask_ret (Irix (Al_set_samp_fmt (irix_alconfig i) (AL_SAMPFMT_TWOSCOMP h))) w
      in if r < 0 then (False, i, w)
      else let (wsize, i) = irix_width h (fmt_bits format) i;
               (r, w) = ask_ret (Irix (Al_set_width (irix_alconfig i) wsize)) w
      in if r < 0 then (False, i, snd (ask_ret (Irix (Al_close_port (irix_alport i))) w))
      else let (port, w) = ask_ret (Irix (Al_open_port ''libao'' (irix_alconfig i))) w;
               i = i\<lparr>irix_alport := port\<rparr>
      in if port = 0 then (False, i, w)
      else let (r, w) = ask_ret (Irix (Al_set_rate (AL_DEFAULT_OUTPUT h) (fmt_rate format))) w
      in if r < 0 then (False, i, snd (ask_ret (Irix (Al_close_port port)) w))
      else (True, i, w))"

definition ao_irix_open ::
  "irix_header \<Rightarrow> live_device \<Rightarrow> ao_sample_format \<Rightarrow> 'z posix_scheme
    \<Rightarrow> (bool \<times> live_device \<times> ao_sample_format \<times> 'z posix_scheme) option" where
  "ao_irix_open h d format w = do {
     i \<leftarrow> irix_state d;
     (case irix_setup h (output_channels d) format i w of (ok, i, w) \<Rightarrow>
       if \<not> ok then Some (False, set_irix i d, format, w)
       else (case stereo_matrix ((set_irix i d)\<lparr>driver_byte_format := AO_FMT_NATIVE\<rparr>) w of
         (d, w) \<Rightarrow> Some (True, d, format, w))) }"

text \<open>The two divisions are of unsigned values; \<open>alWriteFrames\<close> reads that many frames.\<close>

definition ao_irix_play ::
  "live_device \<Rightarrow> byte list \<Rightarrow> 32 word \<Rightarrow> 'z posix_scheme
    \<Rightarrow> (bool \<times> live_device \<times> 'z posix_scheme) option" where
  "ao_irix_play d output_samples num_bytes w = do {
     i \<leftarrow> irix_state d;
     let b = (word_of_int (irix_bytesPerSample i) :: 32 word);
     let c = (word_of_int (irix_channels i) :: 32 word);
     (if b = 0 \<or> c = 0 then None
      else do {
        let num_frames = num_bytes div b div c;
        bs \<leftarrow> load (unat num_frames * unat c * unat b) output_samples 0;
        Some (True, d, snd (ask_ret (Irix (Al_write_frames (irix_alport i) bs num_frames)) w)) }) }"

definition ao_irix_close ::
  "live_device \<Rightarrow> 'z posix_scheme \<Rightarrow> (bool \<times> live_device \<times> 'z posix_scheme) option" where
  "ao_irix_close d w = do {
     i \<leftarrow> irix_state d;
     let w = (if irix_alport i \<noteq> 0 then snd (ask_ret (Irix (Al_close_port (irix_alport i))) w) else w);
     Some (True, set_irix (i\<lparr>irix_alport := 0\<rparr>) d, w) }"

definition ao_irix_device_clear ::
  "live_device \<Rightarrow> 'z posix_scheme \<Rightarrow> (live_device \<times> 'z posix_scheme) option" where
  "ao_irix_device_clear d w = do {
     i \<leftarrow> irix_state d;
     let w = (if irix_alconfig i \<noteq> 0 then snd (ask_ret (Irix (Al_free_config (irix_alconfig i))) w) else w);
     Some (d\<lparr>internal := None\<rparr>, free_block w) }"

definition ao_irix :: "irix_header \<Rightarrow> (plugin_internal ao_internal, 'z posix_scheme) ao_functions" where
  "ao_irix h =
     \<lparr>fn_test = ao_irix_test, fn_driver_info = ao_irix_info, fn_device_init = ao_irix_device_init,
      fn_set_option = ao_irix_set_option, fn_open = ao_irix_open h, fn_play = ao_irix_play,
      fn_close = ao_irix_close, fn_device_clear = ao_irix_device_clear, fn_file_extension = None\<rparr>"

section \<open>The ledger\<close>

lemma ao_irix_init_law:
  assumes "ao_irix_device_init d w = Some (r, d', w')" and "internal d = None"
  shows "books 0 plugin_blocks d w d' w' \<and> setup_frame d d'"
proof -
  obtain ok v where m: "malloc_ok w = (ok, v)" by (cases "malloc_ok w")
  obtain c u where a: "ask_ret (Irix Al_new_config) v = (c, u)" by fastforce
  from assms m malloc_ok_heap [OF m] a ask_ret_calm [OF a] show ?thesis
    by (cases ok)
       (auto simp: ao_irix_device_init_def books_def ledger setup_frame_def core_frame_def heap_step_def)
qed

text \<open>
  How the set-up can end: before a port was asked for, or with the port that was got, which is
  closed again, and still in the structure, when the rate cannot be set.
\<close>

lemma irix_setup_calls:
  "irix_setup h ch format i w = (ok, j, w') \<Longrightarrow> calls_only w w'"
proof -
  assume s: "irix_setup h ch format i w = (ok, j, w')"
  let ?c = "irix_alconfig i"
  obtain r1 w1 where 1: "ask_ret (Irix (Al_set_queue_size ?c AO_IRIX_BUFFER_SIZE)) w = (r1, w1)" by fastforce
  obtain r2 w2 where 2: "ask_ret (Irix (Al_set_channels ?c ch)) w1 = (r2, w2)" by fastforce
  obtain r3 w3 where 3: "ask_ret (Irix (Al_set_device ?c (AL_DEFAULT_OUTPUT h))) w2 = (r3, w3)" by fastforce
  obtain r4 w4 where 4: "ask_ret (Irix (Al_set_samp_fmt ?c (AL_SAMPFMT_TWOSCOMP h))) w3 = (r4, w4)" by fastforce
  obtain wsize k where k: "irix_width h (fmt_bits format) (i\<lparr>irix_channels := ch\<rparr>) = (wsize, k)" by fastforce
  have c: "irix_alconfig k = ?c" using k by (auto simp: irix_width_def split: if_splits)
  obtain r5 w5 where 5: "ask_ret (Irix (Al_set_width ?c wsize)) w4 = (r5, w5)" by fastforce
  obtain r6 w6 where 6: "ask_ret (Irix (Al_open_port ''libao'' ?c)) w5 = (r6, w6)" by fastforce
  obtain r7 w7 where 7: "ask_ret (Irix (Al_set_rate (AL_DEFAULT_OUTPUT h) (fmt_rate format))) w6 = (r7, w7)" by fastforce
  note steps = ask_ret_calls [OF 1] ask_ret_calls [OF 2] ask_ret_calls [OF 3] ask_ret_calls [OF 4]
    ask_ret_calls [OF 5] ask_ret_calls [OF 6] ask_ret_calls [OF 7]
  have c2: "calls_only w w2" and c3: "calls_only w w3" and c4: "calls_only w w4" and c5: "calls_only w w5"
    and c6: "calls_only w w6" and c7: "calls_only w w7"
    using steps calls_only_trans by metis+
  show ?thesis
    using s steps(1) c2 c3 c4 c5 c6 c7
    by (auto simp: irix_setup_def 1 2 3 4 5 6 7 k c split: if_splits intro: calls_only_trans [OF _ ask_ret_snd_calls])
qed

lemma ao_irix_open_law:
  assumes "ao_irix_open h d format w = Some (r, d', sf', w')"
  shows "books 0 plugin_blocks d w d' w' \<and> core_frame d d' \<and> sf' = format"
proof -
  from assms obtain i where i: "irix_state d = Some i"
    by (auto simp: ao_irix_open_def split: Option.bind_splits)
  obtain ok j u where s: "irix_setup h (output_channels d) format i w = (ok, j, u)" by (metis prod_cases3)
  have b: "books 0 plugin_blocks d w (set_irix j d) u"
    by (rule books_replace [where p = "Irix_internal i"])
       (use i calls_only_held [OF irix_setup_calls [OF s]] in \<open>auto simp: plugin_state_iff\<close>)
  obtain e v where m: "stereo_matrix ((set_irix j d)\<lparr>driver_byte_format := AO_FMT_NATIVE\<rparr>) u = (e, v)" by fastforce
  show ?thesis
    using assms i s m b stereo_matrix_law [OF m, of plugin_blocks]
    by (auto simp: ao_irix_open_def books_def ledger core_frame_def split: if_splits)
qed

interpretation irix: ao_driver "ao_irix h" plugin_blocks for h
proof
  fix d d' :: live_device and w w' :: "'a posix_scheme" and r
  show "fn_device_init (ao_irix h) d w = Some (r, d', w') \<Longrightarrow> internal d = None \<Longrightarrow>
      output_matrix d = None \<Longrightarrow> books 0 plugin_blocks d w d' w' \<and> setup_frame d d'"
    using ao_irix_init_law by (simp add: ao_irix_def)
  show "fn_set_option (ao_irix h) d k v w = Some (r, d', w') \<Longrightarrow>
      books 0 plugin_blocks d w d' w' \<and> setup_frame d d'" for k v
    by (simp add: ao_irix_def ao_irix_set_option_def)
  show "fn_open (ao_irix h) d sf w = Some (r, d', sf', w') \<Longrightarrow>
      books 0 plugin_blocks d w d' w' \<and> core_frame d d' \<and> fmt_matrix sf' = fmt_matrix sf" for sf sf'
    using ao_irix_open_law [of h d sf w r d' sf' w'] by (simp add: ao_irix_def)
  show "fn_play (ao_irix h) d bs n w = Some (r, d', w') \<Longrightarrow>
      books 0 plugin_blocks d w d' w' \<and> d' = d\<lparr>internal := internal d'\<rparr>" for bs n
    by (auto simp: ao_irix_def ao_irix_play_def books_def Let_def split: Option.bind_splits if_splits)
  show "fn_close (ao_irix h) d w = Some (r, d', w') \<Longrightarrow> books 0 plugin_blocks d w d' w' \<and> core_frame d d'"
    by (auto simp: ao_irix_def ao_irix_close_def books_def ledger plugin_state_iff
        split: Option.bind_splits)
  show "fn_device_clear (ao_irix h) d w = Some (d', w') \<Longrightarrow>
      books 0 plugin_blocks d w d' w' \<and> core_frame d d' \<and> internal d' = None"
    by (auto simp: ao_irix_def ao_irix_device_clear_def books_def ledger plugin_state_iff
        split: Option.bind_splits)
qed

end
