(* ===== verification/AO_Pulse.thy ===== *)
theory AO_Pulse
  imports AO_Posix "HOL-Library.Signed_Division"
begin

text \<open>
  The PulseAudio driver, \<^verbatim>\<open>src/plugins/pulse/ao_pulse.c\<close>.  The constants of the headers and
  \<open>pa_path_get_filename\<close>, which looks for the last part of a path, and the address that the build
  defines as \<open>PACKAGE_BUGREPORT\<close> are the fields of
  \<open>pulse_header\<close>; \<open>PA_SAMPLE_S24NE\<close> is there when the header defines it.  \<open>pa_usec_t\<close> is an
  unsigned integer of 64 bits.  An \<open>assert\<close> that fails and a \<open>pa_xmalloc\<close> without memory stop
  the program: \<open>None\<close>.
\<close>

record pulse_header =
  PACKAGE_BUGREPORT :: string
  PA_SAMPLE_U8 :: int
  PA_SAMPLE_S16NE :: int
  PA_SAMPLE_S24NE :: "int option"
  PA_CHANNELS_MAX :: int
  PA_CHANNEL_POSITION_INVALID :: int
  pa_path_get_filename :: "string \<Rightarrow> string"

section \<open>Operations\<close>

definition AO_PULSE_BUFFER_TIME :: "64 word" where
  "AO_PULSE_BUFFER_TIME = 20000"

text \<open>There is no comma between the last two names of the table.\<close>

definition ao_pulse_info :: "pulse_header \<Rightarrow> ao_info" where
  "ao_pulse_info h =
     \<lparr>info_type = AO_TYPE_LIVE, info_name = ''PulseAudio Output'', short_name = ''pulse'',
      author = PACKAGE_BUGREPORT h, info_comment = ''Outputs to the PulseAudio Sound Server'',
      preferred_byte_format = AO_FMT_NATIVE, priority = 50,
      info_options = [''server'', ''sink'', ''dev'', ''id'', ''verbose'', ''quiet'', ''matrix'', ''debug'',
        ''client_name'' @ ''buffer_time''],
      option_count = 9\<rparr>"

definition disable_sigpipe :: "'z posix_scheme \<Rightarrow> 'z posix_scheme" where
  "disable_sigpipe w = w\<lparr>p_sigpipe_ignored := True\<rparr>"

text \<open>
  The search for the name of the program: the buffer is doubled until the name fits.  The answer 1
  of \<open>pa_get_binary_name\<close> is the buffer itself, another one a string elsewhere.
\<close>

partial_function (option) pulse_binary_name ::
  "64 word \<Rightarrow> 'z posix_scheme \<Rightarrow> (string option \<times> 'z posix_scheme) option" where
  "pulse_binary_name allocated w =
     (case ask_ret (Pulse (Pa_xmalloc allocated)) w of (p, w) \<Rightarrow>
        if p = 0 then None
        else case ask (Pulse (Pa_get_binary_name allocated)) (w\<lparr>w_live := w_live w + 1\<rparr>) of (fn, w) \<Rightarrow>
          if rp_ret fn = 0 then Some (None, free_block w)
          else if rp_ret fn \<noteq> 1 \<or> of_nat (length (rp_text fn)) < allocated - 1
          then Some (Some (rp_text fn), free_block w)
          else pulse_binary_name (allocated * 2) (free_block w))"

declare pulse_binary_name.simps [code]

text \<open>\<open>snprintf\<close> into a buffer of 256.\<close>

definition pulse_print :: "string \<Rightarrow> string \<Rightarrow> string" where
  "pulse_print name rest = take 255 (''libao['' @ name @ '']'' @ rest)"

definition ao_pulse_test :: "pulse_header \<Rightarrow> 'z posix_scheme \<Rightarrow> (bool \<times> 'z posix_scheme) option" where
  "ao_pulse_test h w = (let w = disable_sigpipe w in
     if getenv ''PULSE_SERVER'' w \<noteq> None \<or> getenv ''PULSE_SINK'' w \<noteq> None then Some (True, w)
     else do {
       (fn, w) \<leftarrow> pulse_binary_name 128 w;
       let (s, w) = ask_ret (Pulse (Pa_simple_new
             \<lparr>pa_server = None, pa_client = (case fn of Some fn \<Rightarrow> pulse_print fn '''' | None \<Rightarrow> ''libao''),
              pa_dev = None,
              pa_stream_name = (case fn of Some fn \<Rightarrow> pulse_print fn '' test'' | None \<Rightarrow> ''libao test''),
              pa_format = PA_SAMPLE_S16NE h, pa_rate = 44100, pa_channels = 2, pa_map = None,
              pa_attr = None\<rparr>)) w;
       Some (if s = 0 then (False, w) else (True, snd (ask_ret (Pulse (Pa_simple_free s)) w))) })"

definition pulse_matrix :: string where
  "pulse_matrix = ''M,L,R,C,BC,BL,BR,LFE,CL,CR,SL,SR,'' @
     ''A0,A1,A2,A3,A4,A5,A6,A7,A8,A9,'' @ ''A10,A11,A12,A13,A14,A15,A16,A17,A18,A19,'' @
     ''A20,A21,A22,A23,A24,A25,A26,A27,A28,A29,'' @ ''A30,A31''"

text \<open>\<open>static_delay\<close> is not set here; it is read only after \<open>open\<close> has set it, and is 0 until then.\<close>

definition ao_pulse_device_init ::
  "live_device \<Rightarrow> 'z posix_scheme \<Rightarrow> (bool \<times> live_device \<times> 'z posix_scheme) option" where
  "ao_pulse_device_init d w = (case malloc_ok w of (ok, w) \<Rightarrow>
     if \<not> ok then Some (False, d, w)
     else (case strdup pulse_matrix w of (m, w) \<Rightarrow>
       Some (True, (set_pulse \<lparr>pulse_simple = 0, pulse_server = None, pulse_sink = None,
                       pulse_client_name = None, pulse_static_delay = 0,
                       pulse_buffer_time = AO_PULSE_BUFFER_TIME\<rparr> d)
                     \<lparr>output_matrix_order := AO_OUTPUT_MATRIX_PERMUTABLE, output_matrix := m\<rparr>, w)))"

definition ao_pulse_set_option ::
  "live_device \<Rightarrow> string \<Rightarrow> string option \<Rightarrow> 'z posix_scheme
    \<Rightarrow> (bool \<times> live_device \<times> 'z posix_scheme) option" where
  "ao_pulse_set_option d k v w = do {
     i \<leftarrow> pulse_state d;
     v \<leftarrow> v;
     (if k = ''server''
      then (case strdup v (free_opt (pulse_server i) w) of (s, w) \<Rightarrow>
             Some (True, set_pulse (i\<lparr>pulse_server := s\<rparr>) d, w))
      else if k = ''sink'' \<or> k = ''dev'' \<or> k = ''id''
      then (case strdup v (free_opt (pulse_sink i) w) of (s, w) \<Rightarrow>
             Some (True, set_pulse (i\<lparr>pulse_sink := s\<rparr>) d, w))
      else if k = ''client_name''
      then (case strdup v (free_opt (pulse_client_name i) w) of (s, w) \<Rightarrow>
             Some (True, set_pulse (i\<lparr>pulse_client_name := s\<rparr>) d, w))
      else if k = ''buffer_time'' then do {
        n \<leftarrow> atoi v;
        n \<leftarrow> c_int (n * 1000);
        Some (True, set_pulse (i\<lparr>pulse_buffer_time := word_of_int n\<rparr>) d, w) }
      else Some (True, d, w)) }"

definition pulse_sample :: "pulse_header \<Rightarrow> int \<Rightarrow> int option" where
  "pulse_sample h bits =
     (if bits = 8 then Some (PA_SAMPLE_U8 h) else if bits = 16 then Some (PA_SAMPLE_S16NE h)
      else if bits = 24 then PA_SAMPLE_S24NE h else None)"

text \<open>The names of the client and of the stream.\<close>

definition pulse_names ::
  "pulse_header \<Rightarrow> ao_pulse_internal \<Rightarrow> 'z posix_scheme \<Rightarrow> ((string \<times> string) \<times> 'z posix_scheme) option" where
  "pulse_names h i w = (case pulse_client_name i of
      Some name \<Rightarrow> Some ((pulse_print name '''', pulse_print name '' playback stream''), w)
    | None \<Rightarrow> do {
        (fn, w) \<leftarrow> pulse_binary_name 128 w;
        Some ((case fn of
            None \<Rightarrow> (''libao'', ''libao playback stream'')
          | Some fn \<Rightarrow> let fn = pa_path_get_filename h fn
                       in (pulse_print fn '''', pulse_print fn '' playback stream'')), w) })"

definition pulse_channel_map :: "pulse_header \<Rightarrow> live_device \<Rightarrow> int list option option" where
  "pulse_channel_map h d = (case input_map d of
      None \<Rightarrow> Some None
    | Some m \<Rightarrow> do {
        positions \<leftarrow> load (nat (output_channels d)) m 0;
        Some (Some (map (\<lambda>p. if p = -1 then PA_CHANNEL_POSITION_INVALID h else p) positions)) })"

text \<open>
  The size of the buffer: the product of time and rate is unsigned of 64 bits and then cut to an
  \<open>int\<close>, the rest is signed.
\<close>

definition pulse_tlength :: "ao_pulse_internal \<Rightarrow> int \<Rightarrow> ao_sample_format \<Rightarrow> 32 word option" where
  "pulse_tlength i channels format = do {
     let n = sint (ucast (pulse_buffer_time i * word_of_int (fmt_rate format)) :: 32 word) sdiv 1000000;
     b \<leftarrow> c_int (fmt_bits format + 7);
     n \<leftarrow> c_int (n * (b sdiv 8));
     n \<leftarrow> c_int (n * channels);
     Some (word_of_int n) }"

definition pulse_attr :: "32 word \<Rightarrow> pa_buffer_attr" where
  "pulse_attr tlength =
     \<lparr>pa_maxlength = tlength + tlength div 4, pa_tlength = tlength, pa_prebuf = -1,
      pa_minreq = tlength div 4, pa_fragsize = -1\<rparr>"

definition ao_pulse_open ::
  "pulse_header \<Rightarrow> live_device \<Rightarrow> ao_sample_format \<Rightarrow> 'z posix_scheme
    \<Rightarrow> (bool \<times> live_device \<times> ao_sample_format \<times> 'z posix_scheme) option" where
  "ao_pulse_open h d format w = do {
     i \<leftarrow> pulse_state d;
     (case pulse_sample h (fmt_bits format) of
        None \<Rightarrow> Some (False, d, format, w)
      | Some ss_format \<Rightarrow>
          if output_channels d \<le> 0 \<or> output_channels d > PA_CHANNELS_MAX h then Some (False, d, format, w)
          else do {
            (names, w) \<leftarrow> pulse_names h i (disable_sigpipe w);
            channel_map \<leftarrow> pulse_channel_map h d;
            tlength \<leftarrow> pulse_tlength i (output_channels d) format;
            let (s, w) = ask_ret (Pulse (Pa_simple_new
                  \<lparr>pa_server = pulse_server i, pa_client = fst names, pa_dev = pulse_sink i,
                   pa_stream_name = snd names, pa_format = ss_format, pa_rate = word_of_int (fmt_rate format),
                   pa_channels = word_of_int (output_channels d), pa_map = channel_map,
                   pa_attr = Some (pulse_attr tlength)\<rparr>)) w;
            let i = i\<lparr>pulse_simple := s\<rparr>;
            (if s = 0 then Some (False, set_pulse i d, format, w)
             else do {
               let (delay, w) = ask_ret (Pulse (Pa_simple_get_latency s)) w;
               Some (True, (set_pulse (i\<lparr>pulse_static_delay := word_of_int delay\<rparr>) d)
                       \<lparr>driver_byte_format := AO_FMT_NATIVE\<rparr>, format, w) }) }) }"

definition ao_pulse_play ::
  "live_device \<Rightarrow> byte list \<Rightarrow> 32 word \<Rightarrow> 'z posix_scheme
    \<Rightarrow> (bool \<times> live_device \<times> 'z posix_scheme) option" where
  "ao_pulse_play d output_samples num_bytes w = do {
     i \<leftarrow> pulse_state d;
     bs \<leftarrow> load (unat num_bytes) output_samples 0;
     (case ask_ret (Pulse (Pa_simple_write (pulse_simple i) bs)) w of (r, w) \<Rightarrow> Some (r \<ge> 0, d, w)) }"

text \<open>Sleep, and again for what is left when it was interrupted.\<close>

partial_function (option) pulse_sleep :: "int \<Rightarrow> int \<Rightarrow> 'z posix_scheme \<Rightarrow> 'z posix_scheme option" where
  "pulse_sleep sec nsec w =
     (case ask (Nanosleep sec nsec) w of (r, w) \<Rightarrow>
        if rp_ret r < 0 \<and> rp_errno r = EINTR then pulse_sleep (rp_out r) (rp_aux r) w else Some w)"

declare pulse_sleep.simps [code]

text \<open>The time to sleep: the result of the division is cut to an \<open>int\<close>, the rest to a \<open>long\<close>.\<close>

definition pulse_timespec :: "64 word \<Rightarrow> int \<times> int" where
  "pulse_timespec us =
     (let sec = sint (ucast (us div 1000000) :: 32 word)
      in (sec, sint ((us - word_of_int (sec * 1000000)) * 1000)))"

text \<open>
  Wait until what was sent has been heard: \<open>pa_simple_drain\<close> when the latency is no sensible
  value, otherwise sleep for what it is more than it was when the stream was opened.
\<close>

definition pulse_wait :: "ao_pulse_internal \<Rightarrow> 64 word \<Rightarrow> 'z posix_scheme \<Rightarrow> 'z posix_scheme option" where
  "pulse_wait i us w =
     (if us > 1000000 then Some (snd (ask_ret (Pulse (Pa_simple_drain (pulse_simple i))) w))
      else let us = us - pulse_static_delay i
           in if us > 0 then (case pulse_timespec us of (sec, nsec) \<Rightarrow> pulse_sleep sec nsec w)
              else Some w)"

definition ao_pulse_close ::
  "live_device \<Rightarrow> 'z posix_scheme \<Rightarrow> (bool \<times> live_device \<times> 'z posix_scheme) option" where
  "ao_pulse_close d w = do {
     i \<leftarrow> pulse_state d;
     (if pulse_simple i = 0 then Some (True, d, w)
      else do {
        let (r, w) = ask_ret (Pulse (Pa_simple_get_latency (pulse_simple i))) w;
        w \<leftarrow> pulse_wait i (word_of_int r) w;
        Some (True, set_pulse (i\<lparr>pulse_simple := 0\<rparr>) d,
              snd (ask_ret (Pulse (Pa_simple_free (pulse_simple i))) w)) }) }"

definition ao_pulse_device_clear ::
  "live_device \<Rightarrow> 'z posix_scheme \<Rightarrow> (live_device \<times> 'z posix_scheme) option" where
  "ao_pulse_device_clear d w = do {
     i \<leftarrow> pulse_state d;
     Some (d\<lparr>internal := None\<rparr>,
           free_block (free_opt (pulse_client_name i) (free_opt (pulse_sink i) (free_opt (pulse_server i) w)))) }"

definition ao_pulse :: "pulse_header \<Rightarrow> (plugin_internal ao_internal, 'z posix_scheme) ao_functions" where
  "ao_pulse h =
     \<lparr>fn_test = ao_pulse_test h, fn_driver_info = ao_pulse_info h, fn_device_init = ao_pulse_device_init,
      fn_set_option = ao_pulse_set_option, fn_open = ao_pulse_open h, fn_play = ao_pulse_play,
      fn_close = ao_pulse_close, fn_device_clear = ao_pulse_device_clear, fn_file_extension = None\<rparr>"

section \<open>The ledger\<close>

lemma ask_calm: "ask c w = (r, v) \<Longrightarrow> w_live v = w_live w \<and> w_allocs v = w_allocs w"
  using calls_only_sel [OF ask_calls] by blast

lemma pulse_binary_name_held: "pulse_binary_name n w = Some y \<Longrightarrow> held 0 w (snd y)"
proof (induction n w y rule: pulse_binary_name.raw_induct [rotated, consumes 1, case_names turn])
  case (turn loop n w y)
  obtain p v where a: "ask_ret (Pulse (Pa_xmalloc n)) w = (p, v)" by fastforce
  obtain fn u where b: "ask (Pulse (Pa_get_binary_name n)) (v\<lparr>w_live := w_live v + 1\<rparr>) = (fn, u)" by fastforce
  have h: "held 0 w (free_block u)"
    using ask_ret_calm [OF a] ask_calm [OF b] by (simp add: held_def free_block_def)
  have y: "y = (None, free_block u) \<or> y = (Some (rp_text fn), free_block u) \<or> loop (n * 2) (free_block u) = Some y"
    using turn(2) a b by (auto split: if_splits)
  show ?case
  proof (cases "loop (n * 2) (free_block u) = Some y")
    case True
    from held_trans [OF h turn(1) [OF True]] show ?thesis by simp
  next
    case False
    with y h show ?thesis by auto
  qed
qed

lemma pulse_sleep_calls: "pulse_sleep s n w = Some v \<Longrightarrow> calls_only w v"
proof (induction s n w v rule: pulse_sleep.raw_induct [rotated, consumes 1, case_names turn])
  case (turn loop s n w v)
  obtain r u where a: "ask (Nanosleep s n) w = (r, u)" by fastforce
  show ?case
  proof (cases "rp_ret r < 0 \<and> rp_errno r = EINTR")
    case True
    with turn(2) a have "loop (rp_out r) (rp_aux r) u = Some v" by simp
    from calls_only_trans [OF ask_calls [OF a] turn(1) [OF this]] show ?thesis .
  next
    case False
    with turn(2) a ask_calls [OF a] show ?thesis by auto
  qed
qed

lemma pulse_wait_calls: "pulse_wait i us w = Some v \<Longrightarrow> calls_only w v"
  by (auto simp: pulse_wait_def Let_def split: if_splits prod.splits dest: pulse_sleep_calls)

lemma pulse_names_held: "pulse_names h i w = Some (x, v) \<Longrightarrow> held 0 w v"
  by (auto simp: pulse_names_def held_def split: option.splits Option.bind_splits dest!: pulse_binary_name_held)

lemma ao_pulse_init_law:
  assumes "ao_pulse_device_init d w = Some (r, d', w')" and "internal d = None" and "output_matrix d = None"
  shows "books 0 plugin_blocks d w d' w' \<and> setup_frame d d'"
proof -
  obtain ok v where m: "malloc_ok w = (ok, v)" by (cases "malloc_ok w")
  obtain s u where t: "strdup pulse_matrix v = (s, u)" by fastforce
  show ?thesis
    using assms m t malloc_ok_heap [OF m] strdup_heap [OF t]
    by (cases ok; cases s)
       (auto simp: ao_pulse_device_init_def books_def ledger setup_frame_def core_frame_def heap_step_def)
qed

lemma ao_pulse_set_option_law:
  assumes "ao_pulse_set_option d k v w = Some (r, d', w')"
  shows "books 0 plugin_blocks d w d' w' \<and> setup_frame d d'"
proof -
  obtain i x where x: "pulse_state d = Some i" "v = Some x"
    using assms by (auto simp: ao_pulse_set_option_def split: Option.bind_splits)
  consider (server) "k = ''server''" | (sink) "k = ''sink'' \<or> k = ''dev'' \<or> k = ''id''" | (client_name) "k = ''client_name''"
    | (buffer_time) "k = ''buffer_time''"
    | (other) "k \<noteq> ''server''" "k \<noteq> ''sink''" "k \<noteq> ''dev''" "k \<noteq> ''id''" "k \<noteq> ''client_name''" "k \<noteq> ''buffer_time''"
    by metis
  then show ?thesis
  proof cases
    case server
    obtain s u where "strdup x (free_opt (pulse_server i) w) = (s, u)" by fastforce
    with assms x server replaced_string [OF x(1) [unfolded plugin_state_iff] this, of "Pulse_internal (i\<lparr>pulse_server := s\<rparr>)"]
    show ?thesis by (auto simp: ao_pulse_set_option_def)
  next
    case sink
    obtain s u where "strdup x (free_opt (pulse_sink i) w) = (s, u)" by fastforce
    with assms x sink replaced_string [OF x(1) [unfolded plugin_state_iff] this, of "Pulse_internal (i\<lparr>pulse_sink := s\<rparr>)"]
    show ?thesis by (auto simp: ao_pulse_set_option_def)
  next
    case client_name
    obtain s u where "strdup x (free_opt (pulse_client_name i) w) = (s, u)" by fastforce
    with assms x client_name replaced_string [OF x(1) [unfolded plugin_state_iff] this, of "Pulse_internal (i\<lparr>pulse_client_name := s\<rparr>)"]
    show ?thesis by (auto simp: ao_pulse_set_option_def)
  next
    case buffer_time
    with assms x obtain n where n: "d' = set_pulse (i\<lparr>pulse_buffer_time := n\<rparr>) d" "w' = w"
      by (auto simp: ao_pulse_set_option_def split: Option.bind_splits)
    have "books 0 plugin_blocks d w d' w'"
      unfolding n by (rule books_replace [where p = "Pulse_internal i"])
        (use x in \<open>auto simp: plugin_state_iff held_def\<close>)
    with n show ?thesis by simp
  next
    case other
    with assms x show ?thesis by (simp add: ao_pulse_set_option_def)
  qed
qed

lemma ao_pulse_open_law:
  assumes "ao_pulse_open h d format w = Some (r, d', sf', w')"
  shows "books 0 plugin_blocks d w d' w' \<and> core_frame d d' \<and> sf' = format"
proof -
  from assms obtain i where i: "pulse_state d = Some i"
    by (auto simp: ao_pulse_open_def split: Option.bind_splits)
  show ?thesis
  proof (cases "pulse_sample h (fmt_bits format) = None \<or> output_channels d \<le> 0 \<or> output_channels d > PA_CHANNELS_MAX h")
    case True
    with assms i show ?thesis by (auto simp: ao_pulse_open_def split: option.splits)
  next
    case False
    then obtain ssf where f: "pulse_sample h (fmt_bits format) = Some ssf" by auto
    from assms i f False obtain names v channel_map tlength where
      n: "pulse_names h i (disable_sigpipe w) = Some (names, v)"
      and c: "pulse_channel_map h d = Some channel_map"
      and t: "pulse_tlength i (output_channels d) format = Some tlength"
      by (auto simp: ao_pulse_open_def split: Option.bind_splits)
    let ?st = "\<lparr>pa_server = pulse_server i, pa_client = fst names, pa_dev = pulse_sink i,
                   pa_stream_name = snd names, pa_format = ssf, pa_rate = word_of_int (fmt_rate format),
                   pa_channels = word_of_int (output_channels d), pa_map = channel_map,
                   pa_attr = Some (pulse_attr tlength)\<rparr>"
    obtain s u where s: "ask_ret (Pulse (Pa_simple_new ?st)) v = (s, u)" by fastforce
    obtain l x where l: "ask_ret (Pulse (Pa_simple_get_latency s)) u = (l, x)" by fastforce
    have "held 0 w v" using pulse_names_held [OF n] by (simp add: held_def disable_sigpipe_def)
    then have h: "held 0 w u" "held 0 w x"
      using ask_ret_calm [OF s] ask_ret_calm [OF l] by (auto simp: held_def)
    have b: "books 0 plugin_blocks d w (set_pulse j d) y"
      if "held 0 w y" "plugin_extra (Pulse_internal j) = plugin_extra (Pulse_internal i)" for j y
      by (rule books_replace [where p = "Pulse_internal i"]) (use i that in \<open>auto simp: plugin_state_iff\<close>)
    show ?thesis
      using assms i f False n c t s l b [OF h(1)] b [OF h(2)]
      by (auto simp: ao_pulse_open_def books_def ledger core_frame_def split: if_splits)
  qed
qed

lemma ao_pulse_close_law:
  assumes "ao_pulse_close d w = Some (r, d', w')"
  shows "books 0 plugin_blocks d w d' w' \<and> core_frame d d'"
proof -
  from assms obtain i where i: "pulse_state d = Some i"
    by (auto simp: ao_pulse_close_def split: Option.bind_splits)
  show ?thesis
  proof (cases "pulse_simple i = 0")
    case True
    with assms i show ?thesis by (simp add: ao_pulse_close_def)
  next
    case False
    obtain l v where l: "ask_ret (Pulse (Pa_simple_get_latency (pulse_simple i))) w = (l, v)" by fastforce
    from assms i False l obtain u where u: "calls_only v u" "d' = set_pulse (i\<lparr>pulse_simple := 0\<rparr>) d"
      "w' = snd (ask_ret (Pulse (Pa_simple_free (pulse_simple i))) u)"
      by (auto simp: ao_pulse_close_def split: Option.bind_splits dest!: pulse_wait_calls)
    have "calls_only w w'"
      unfolding u(3) using ask_ret_calls [OF l] u(1) calls_only_trans ask_ret_snd_calls by blast
    then have "books 0 plugin_blocks d w d' w'"
      unfolding u(2)
      by (intro books_replace [where p = "Pulse_internal i"])
         (use i calls_only_held in \<open>auto simp: plugin_state_iff\<close>)
    then show ?thesis using u(2) by simp
  qed
qed

interpretation pulse: ao_driver "ao_pulse h" plugin_blocks for h
proof
  fix d d' :: live_device and w w' :: "'a posix_scheme" and r
  show "fn_device_init (ao_pulse h) d w = Some (r, d', w') \<Longrightarrow> internal d = None \<Longrightarrow>
      output_matrix d = None \<Longrightarrow> books 0 plugin_blocks d w d' w' \<and> setup_frame d d'"
    using ao_pulse_init_law by (simp add: ao_pulse_def)
  show "fn_set_option (ao_pulse h) d k v w = Some (r, d', w') \<Longrightarrow>
      books 0 plugin_blocks d w d' w' \<and> setup_frame d d'" for k v
    using ao_pulse_set_option_law by (simp add: ao_pulse_def)
  show "fn_open (ao_pulse h) d sf w = Some (r, d', sf', w') \<Longrightarrow>
      books 0 plugin_blocks d w d' w' \<and> core_frame d d' \<and> fmt_matrix sf' = fmt_matrix sf" for sf sf'
    using ao_pulse_open_law [of h d sf w r d' sf' w'] by (simp add: ao_pulse_def)
  show "fn_play (ao_pulse h) d bs n w = Some (r, d', w') \<Longrightarrow>
      books 0 plugin_blocks d w d' w' \<and> d' = d\<lparr>internal := internal d'\<rparr>" for bs n
    by (auto simp: ao_pulse_def ao_pulse_play_def calls_only_books split: Option.bind_splits prod.splits
        dest!: ask_ret_calls)
  show "fn_close (ao_pulse h) d w = Some (r, d', w') \<Longrightarrow> books 0 plugin_blocks d w d' w' \<and> core_frame d d'"
    using ao_pulse_close_law by (simp add: ao_pulse_def)
  show "fn_device_clear (ao_pulse h) d w = Some (d', w') \<Longrightarrow>
      books 0 plugin_blocks d w d' w' \<and> core_frame d d' \<and> internal d' = None"
    by (auto simp: ao_pulse_def ao_pulse_device_clear_def books_def ledger plugin_state_iff
        split: Option.bind_splits)
qed


section \<open>The time to sleep\<close>

lemma sint64_of_int: "0 \<le> n \<Longrightarrow> n < 2 ^ 63 \<Longrightarrow> sint (word_of_int n :: 64 word) = n"
  by (simp add: signed_of_int signed_take_bit_int_eq_self)

text \<open>Up to a second: the time is exact and what \<open>nanosleep\<close> accepts.\<close>

lemma pulse_timespec_exact:
  assumes "us \<le> 1000000" and "pulse_timespec us = (sec, nsec)"
  shows "sec * 1000000000 + nsec = uint us * 1000" "0 \<le> sec" "0 \<le> nsec" "nsec < 1000000000"
proof -
  have u: "uint us \<le> 1000000" using assms(1) by (simp add: word_le_def)
  have 1: "sec * 1000000000 + nsec = uint us * 1000 \<and> 0 \<le> sec \<and> 0 \<le> nsec \<and> nsec < 1000000000"
  proof (cases "us = 1000000")
    case True
    then show ?thesis using assms(2) by (simp add: pulse_timespec_def Let_def)
  next
    case False
    have "us < 1000000" using assms(1) False by simp
    then have l: "uint us < 1000000" by (simp add: word_less_def)
    have "us div 1000000 = 0" using l by (simp add: word_div_def)
    then have p: "sec = 0" "nsec = sint (us * 1000)" using assms(2) by (auto simp: pulse_timespec_def Let_def)
    have "us * 1000 = word_of_int (uint us * 1000)" by (metis of_int_mult of_int_numeral word_of_int_uint)
    then have "nsec = uint us * 1000" using p(2) l sint64_of_int [of "uint us * 1000"] by simp
    then show ?thesis using p l by simp
  qed
  then show "sec * 1000000000 + nsec = uint us * 1000" "0 \<le> sec" "0 \<le> nsec" "nsec < 1000000000" by simp_all
qed

text \<open>
  A latency below the one at the opening wraps: the seconds are then negative, and the nanoseconds
  more than a second, so that both together are still the difference.
\<close>

lemma pulse_timespec_wrapped:
  assumes "k \<noteq> 0" and "k \<le> 1000000" and "pulse_timespec (- k) = (sec, nsec)"
  shows "sec * 1000000000 + nsec = - uint k * 1000" "sec < 0" "1000000000 \<le> nsec"
proof -
  have k: "0 < uint k" "uint k \<le> 1000000"
    using assms(1,2) by (simp_all add: word_le_def word_neq_0_conv word_less_def)
  have "uint (- k) = 2 ^ 64 - uint k" using k by (simp add: uint_word_ariths zmod_zminus1_eq_if)
  then have "uint (- k div 1000000) = (2 ^ 64 - uint k) div 1000000" by (simp add: uint_div)
  moreover have "(2 ^ 64 - uint k) div 1000000 \<in> {18446744073708, 18446744073709}"
  proof -
    have "(2 ^ 64 - 1000000) div 1000000 \<le> (2 ^ 64 - uint k) div 1000000"
      by (rule zdiv_mono1) (use k in simp_all)
    moreover have "(2 ^ 64 - uint k) div 1000000 \<le> (2 ^ 64 - 1) div 1000000"
      by (rule zdiv_mono1) (use k in simp_all)
    ultimately show ?thesis by auto
  qed
  ultimately have "- k div 1000000 = 18446744073708 \<or> - k div 1000000 = 18446744073709"
    by (auto simp: word_uint_eq_iff)
  then have s: "sec = -140462612 \<or> sec = -140462611" using assms(3) by (auto simp: pulse_timespec_def Let_def)
  define n where "n = (- uint k - sec * 1000000) * 1000"
  have "(- k - word_of_int (sec * 1000000)) * 1000 = (word_of_int n :: 64 word)" by (simp add: n_def)
  moreover have "nsec = sint ((- k - word_of_int (sec * 1000000)) * 1000)"
    using assms(3) by (auto simp: pulse_timespec_def Let_def)
  moreover have "sint (word_of_int n :: 64 word) = n" by (rule sint64_of_int) (use s k in \<open>auto simp: n_def\<close>)
  ultimately have nsec: "nsec = n" by simp
  then show "sec * 1000000000 + nsec = - uint k * 1000" by (simp add: n_def algebra_simps)
  show "sec < 0" "1000000000 \<le> nsec" using s k nsec by (auto simp: n_def)
qed


end
