(* ===== verification/AO_Roar.thy ===== *)
theory AO_Roar
  imports AO_Posix
begin

text \<open>
  The RoarAudio driver, \<^verbatim>\<open>src/plugins/roar/ao_roar.c\<close>.  What the installed libroar has
  (\<open>ROAR_FT_FUNC_SIMPLE_CONNECT2\<close>, \<open>ROAR_LIBROAR_CONFIG_WAS_NO_SLP\<close>, and \<open>ROAR_FT_FUNC_LIST_FILTERED\<close>
  with \<open>ROAR_VS_CMD_SET_MIXER\<close>) and the constants of its header are the fields of \<open>roar_build\<close>.
  The connection that the structure holds is the number that connecting leaves in \<open>rp_out\<close>.
\<close>

record roar_build =
  has_simple_connect2 :: bool
  ROAR_WAS_NO_SLP :: "int option"
  has_set_mixer :: bool
  ROAR_ROLE_UNKNOWN :: int
  ROAR_CODEC_DEFAULT :: int

section \<open>Operations\<close>

definition DEFAULT_CLIENT_NAME :: string where
  "DEFAULT_CLIENT_NAME = ''libao client''"

text \<open>There is no comma after \<open>"role"\<close>.\<close>

definition ao_roar_info :: ao_info where
  "ao_roar_info =
     \<lparr>info_type = AO_TYPE_LIVE, info_name = ''RoarAudio output'', short_name = ''roar'',
      author = ''Philipp '' @ [CHR 0x27] @ ''ph3-der-loewe'' @ [CHR 0x27] @
        '' Schafft, Based on code by: Stan Seibert <volsung@asu.edu>'',
      info_comment = ''Outputs to the RoarAudio Sound Daemon.'',
      preferred_byte_format = AO_FMT_NATIVE, priority = 50,
      info_options = [''host'', ''server'', ''client_name'', ''id'', ''dev'', ''role'' @ ''verbose'', ''quiet'',
        ''matrix'', ''debug''],
      option_count = 9\<rparr>"

text \<open>Nothing where the library has no such configuration.\<close>

definition disable_slp :: "roar_build \<Rightarrow> 'z posix_scheme \<Rightarrow> 'z posix_scheme" where
  "disable_slp b w = (case ROAR_WAS_NO_SLP b of
      None \<Rightarrow> w
    | Some flag \<Rightarrow> (case ask_ret (Roar Roar_get_workarounds) w of (n, w) \<Rightarrow>
        snd (ask_ret (Roar (Roar_set_workarounds (n OR flag))) (w\<lparr>p_roar_workarounds := n\<rparr>))))"

definition reenable_slp :: "roar_build \<Rightarrow> 'z posix_scheme \<Rightarrow> 'z posix_scheme" where
  "reenable_slp b w = (case ROAR_WAS_NO_SLP b of
      None \<Rightarrow> w
    | Some flag \<Rightarrow> snd (ask_ret (Roar (Roar_set_workarounds (p_roar_workarounds w))) w))"

text \<open>Connecting, with \<open>disable_slp\<close> around it when \<open>quiet\<close>; the connection got, if any.\<close>

definition roar_connect ::
  "roar_build \<Rightarrow> bool \<Rightarrow> string option \<Rightarrow> string option \<Rightarrow> 'z posix_scheme \<Rightarrow> int option \<times> 'z posix_scheme" where
  "roar_connect b quiet host name w =
     (if has_simple_connect2 b
      then (case ask (Roar (Roar_simple_connect2 host name)) w of (r, w) \<Rightarrow>
             (if rp_ret r = -1 then None else Some (rp_out r), w))
      else (case ask (Roar (Roar_simple_connect host name)) (if quiet then disable_slp b w else w) of (r, w) \<Rightarrow>
             (if rp_ret r = -1 then None else Some (rp_out r), if quiet then reenable_slp b w else w)))"

definition ao_roar_test :: "roar_build \<Rightarrow> 'z posix_scheme \<Rightarrow> (bool \<times> 'z posix_scheme) option" where
  "ao_roar_test b w = (case roar_connect b True None (Some DEFAULT_CLIENT_NAME) w of
      (None, w) \<Rightarrow> Some (False, w)
    | (Some con, w) \<Rightarrow> (case ask_ret (Roar (Roar_get_standby con)) w of (r, w) \<Rightarrow>
        Some (r = 0, snd (ask_ret (Roar (Roar_disconnect con)) w))))"

definition ao_roar_device_init ::
  "roar_build \<Rightarrow> live_device \<Rightarrow> 'z posix_scheme \<Rightarrow> (bool \<times> live_device \<times> 'z posix_scheme) option" where
  "ao_roar_device_init b d w = (case malloc_ok w of (ok, w) \<Rightarrow>
     if \<not> ok then Some (False, d, w)
     else (case strdup DEFAULT_CLIENT_NAME w of (s, w) \<Rightarrow>
       Some (True, (set_roar \<lparr>roar_con = 0, roar_con_opened = False, roar_vss = 0, roar_host = None,
                       roar_mixer = None, roar_client_name = s, roar_role = ROAR_ROLE_UNKNOWN b\<rparr> d)
                     \<lparr>output_matrix_order := AO_OUTPUT_MATRIX_FIXED\<rparr>, w)))"

definition ao_roar_set_option ::
  "live_device \<Rightarrow> string \<Rightarrow> string option \<Rightarrow> 'z posix_scheme
    \<Rightarrow> (bool \<times> live_device \<times> 'z posix_scheme) option" where
  "ao_roar_set_option d k v w =
     (if k = ''host'' \<or> k = ''server'' then do {
        i \<leftarrow> roar_state d;
        v \<leftarrow> v;
        (case strdup v (free_opt (roar_host i) w) of (s, w) \<Rightarrow> Some (True, set_roar (i\<lparr>roar_host := s\<rparr>) d, w)) }
      else if k = ''id'' \<or> k = ''dev'' then do {
        i \<leftarrow> roar_state d;
        v \<leftarrow> v;
        (case strdup v (free_opt (roar_mixer i) w) of (s, w) \<Rightarrow> Some (True, set_roar (i\<lparr>roar_mixer := s\<rparr>) d, w)) }
      else if k = ''client_name'' then do {
        i \<leftarrow> roar_state d;
        v \<leftarrow> v;
        (case strdup v (free_opt (roar_client_name i) w) of (s, w) \<Rightarrow>
          Some (True, set_roar (i\<lparr>roar_client_name := s\<rparr>) d, w)) }
      else if k = ''role'' then do {
        i \<leftarrow> roar_state d;
        v \<leftarrow> v;
        (case ask_ret (Roar (Roar_str2role v)) w of (n, w) \<Rightarrow> Some (True, set_roar (i\<lparr>roar_role := n\<rparr>) d, w)) }
      else Some (True, d, w))"

definition ao_roar_con_open ::
  "roar_build \<Rightarrow> ao_roar_internal \<Rightarrow> 'z posix_scheme \<Rightarrow> bool \<times> ao_roar_internal \<times> 'z posix_scheme" where
  "ao_roar_con_open b i w =
     (if roar_con_opened i then (True, i, w)
      else (case roar_connect b (roar_host i = None) (roar_host i) (roar_client_name i) w of
          (None, w) \<Rightarrow> (False, i, w)
        | (Some con, w) \<Rightarrow> (True, i\<lparr>roar_con := con, roar_con_opened := True\<rparr>, w)))"

text \<open>\<open>strncasecmp\<close> of two strings over their first \<open>n\<close> characters.\<close>

definition tolower :: "char \<Rightarrow> char" where
  "tolower c = (let n = (of_char c :: nat) in if 65 \<le> n \<and> n \<le> 90 then char_of (n + 32) else c)"

definition strncasecmp_eq :: "nat \<Rightarrow> string \<Rightarrow> string \<Rightarrow> bool" where
  "strncasecmp_eq n a b \<longleftrightarrow> take n (map tolower a) = take n (map tolower b)"

text \<open>The streams of the list by their names; reading past the numbers that the list has is a fault.\<close>

fun roar_mixer_loop :: "int \<Rightarrow> string \<Rightarrow> nat \<Rightarrow> int list \<Rightarrow> 'z posix_scheme \<Rightarrow> (int \<times> 'z posix_scheme) option" where
  "roar_mixer_loop con mixer 0 ids w = Some (-1, w)"
| "roar_mixer_loop con mixer (Suc n) [] w = None"
| "roar_mixer_loop con mixer (Suc n) (x # ids) w =
     (case ask_ret (Roar (Roar_stream_new_by_id x)) w of (r, w) \<Rightarrow>
        if r = -1 then roar_mixer_loop con mixer n ids w
        else case ask (Roar (Roar_stream_get_name con x)) w of (name, w) \<Rightarrow>
          if rp_ret name \<noteq> 0 then roar_mixer_loop con mixer n ids w
          else if strncasecmp_eq 80 (rp_text name) mixer then Some (x, w)
          else roar_mixer_loop con mixer n ids w)"

definition ao_roar_find_mixer :: "ao_roar_internal \<Rightarrow> 'z posix_scheme \<Rightarrow> (int \<times> 'z posix_scheme) option" where
  "ao_roar_find_mixer i w = (case roar_mixer i of
      None \<Rightarrow> Some (-1, w)
    | Some mixer \<Rightarrow> do {
        n \<leftarrow> atoi mixer;
        (if n > 0 then Some (n, w)
         else if n = 0 \<and> take 1 mixer = ''0'' then Some (0, w)
         else (case ask (Roar (Roar_list_filtered (roar_con i))) w of (r, w) \<Rightarrow>
           if rp_ret r = -1 then Some (-1, w)
           else roar_mixer_loop (roar_con i) mixer (nat (rp_ret r)) (rp_ids r) w)) })"

text \<open>The step that sets the mixer: whether to go on.\<close>

definition roar_set_mixer ::
  "roar_build \<Rightarrow> ao_roar_internal \<Rightarrow> 'z posix_scheme \<Rightarrow> (bool \<times> 'z posix_scheme) option" where
  "roar_set_mixer b i w =
     (if has_set_mixer b then do {
        (mixer, w) \<leftarrow> ao_roar_find_mixer i w;
        Some (if mixer \<noteq> -1
              then (case ask_ret (Roar (Roar_vs_set_mixer (roar_vss i) mixer)) w of (r, w) \<Rightarrow> (r \<noteq> -1, w))
              else (True, w)) }
      else Some (True, w))"

text \<open>The names of the channels by their number, up to six.\<close>

definition roar_channel_names :: "int \<Rightarrow> string option" where
  "roar_channel_names n =
     (if n = 1 then Some ''M'' else if n = 2 then Some ''L,R'' else if n = 3 then Some ''L,R,C''
      else if n = 4 then Some ''L,R,BL,BR'' else if n = 5 then Some ''L,R,C,BL,BR''
      else if n = 6 then Some ''L,R,C,LFE,BL,BR'' else None)"

definition roar_matrix ::
  "int \<Rightarrow> live_device \<Rightarrow> 'z posix_scheme \<Rightarrow> live_device \<times> 'z posix_scheme" where
  "roar_matrix channels d w =
     (if inter_matrix d = None
      then (case roar_channel_names channels of
          None \<Rightarrow> (d, w)
        | Some m \<Rightarrow> (case strdup m w of (s, w) \<Rightarrow> (d\<lparr>inter_matrix := s\<rparr>, w)))
      else (d, w))"

text \<open>The stream cannot be used: it is closed and forgotten.\<close>

definition roar_give_up ::
  "ao_roar_internal \<Rightarrow> live_device \<Rightarrow> ao_sample_format \<Rightarrow> 'z posix_scheme
    \<Rightarrow> (bool \<times> live_device \<times> ao_sample_format \<times> 'z posix_scheme) option" where
  "roar_give_up i d format w =
     Some (False, set_roar (i\<lparr>roar_vss := 0\<rparr>) d, format, snd (ask_ret (Roar (Roar_vs_close (roar_vss i))) w))"

definition ao_roar_open ::
  "roar_build \<Rightarrow> live_device \<Rightarrow> ao_sample_format \<Rightarrow> 'z posix_scheme
    \<Rightarrow> (bool \<times> live_device \<times> ao_sample_format \<times> 'z posix_scheme) option" where
  "ao_roar_open b d format w = do {
     i \<leftarrow> roar_state d;
     (case ao_roar_con_open b i w of (ok, i, w) \<Rightarrow>
       if \<not> ok then Some (False, set_roar i d, format, w)
       else case ask_ret (Roar (Roar_vs_new_from_con (roar_con i))) w of (vss, w) \<Rightarrow>
         let i = i\<lparr>roar_vss := vss\<rparr>
         in if vss = 0 then Some (False, set_roar i d, format, w)
         else Option.bind (roar_set_mixer b i w) (\<lambda>(ok, w).
           if \<not> ok then roar_give_up i d format w
           else case ask_ret (Roar (Roar_vs_stream vss (fmt_rate format) (fmt_channels format) (fmt_bits format)
                        (ROAR_CODEC_DEFAULT b))) w of (r, w) \<Rightarrow>
             if r = -1 then roar_give_up i d format w
             else
               let w = (if roar_role i \<noteq> ROAR_ROLE_UNKNOWN b
                        then snd (ask_ret (Roar (Roar_vs_role vss (roar_role i))) w) else w)
               in case roar_matrix (fmt_channels format) ((set_roar i d)\<lparr>driver_byte_format := AO_FMT_NATIVE\<rparr>) w of
                 (d, w) \<Rightarrow> Some (True, d, format, w))) }"

definition ao_roar_play ::
  "live_device \<Rightarrow> byte list \<Rightarrow> 32 word \<Rightarrow> 'z posix_scheme
    \<Rightarrow> (bool \<times> live_device \<times> 'z posix_scheme) option" where
  "ao_roar_play d output_samples num_bytes w = do {
     i \<leftarrow> roar_state d;
     bs \<leftarrow> load (unat num_bytes) output_samples 0;
     (case ask_ret (Roar (Roar_vs_write (roar_vss i) bs)) w of (r, w) \<Rightarrow> Some (r \<noteq> -1, d, w)) }"

definition ao_roar_close ::
  "live_device \<Rightarrow> 'z posix_scheme \<Rightarrow> (bool \<times> live_device \<times> 'z posix_scheme) option" where
  "ao_roar_close d w = do {
     i \<leftarrow> roar_state d;
     let w = (if roar_vss i \<noteq> 0 then snd (ask_ret (Roar (Roar_vs_close (roar_vss i))) w) else w);
     let w = (if roar_con_opened i then snd (ask_ret (Roar (Roar_disconnect (roar_con i))) w) else w);
     Some (True, set_roar (i\<lparr>roar_vss := 0, roar_con_opened := False\<rparr>) d, w) }"

definition ao_roar_device_clear ::
  "live_device \<Rightarrow> 'z posix_scheme \<Rightarrow> (live_device \<times> 'z posix_scheme) option" where
  "ao_roar_device_clear d w = do {
     i \<leftarrow> roar_state d;
     Some (d\<lparr>internal := None\<rparr>,
           free_block (free_opt (roar_client_name i) (free_opt (roar_mixer i) (free_opt (roar_host i) w)))) }"

definition ao_roar :: "roar_build \<Rightarrow> (plugin_internal ao_internal, 'z posix_scheme) ao_functions" where
  "ao_roar b =
     \<lparr>fn_test = ao_roar_test b, fn_driver_info = ao_roar_info, fn_device_init = ao_roar_device_init b,
      fn_set_option = ao_roar_set_option, fn_open = ao_roar_open b, fn_play = ao_roar_play,
      fn_close = ao_roar_close, fn_device_clear = ao_roar_device_clear, fn_file_extension = None\<rparr>"

section \<open>The ledger\<close>

lemma roar_ask_calm: "ask c w = (r, v) \<Longrightarrow> w_live v = w_live w \<and> w_allocs v = w_allocs w"
  using calls_only_sel [OF ask_calls] by blast

lemma slp_calm [simp]:
  "w_live (disable_slp b w) = w_live w" "w_allocs (disable_slp b w) = w_allocs w"
  "w_live (reenable_slp b w) = w_live w" "w_allocs (reenable_slp b w) = w_allocs w"
  by (auto simp: disable_slp_def reenable_slp_def split: option.splits prod.splits dest: ask_ret_calm)

lemma roar_connect_calm:
  "roar_connect b quiet host name w = (con, v) \<Longrightarrow> w_live v = w_live w \<and> w_allocs v = w_allocs w"
  by (auto simp: roar_connect_def split: if_splits prod.splits dest: roar_ask_calm)

lemma ao_roar_con_open_calm:
  assumes "ao_roar_con_open b i w = (ok, j, v)"
  shows "w_live v = w_live w \<and> w_allocs v = w_allocs w \<and>
    plugin_extra (Roar_internal j) = plugin_extra (Roar_internal i)"
  using assms
  by (auto simp: ao_roar_con_open_def split: if_splits option.splits prod.splits dest: roar_connect_calm)

lemma roar_mixer_loop_calm:
  "roar_mixer_loop con mixer n ids w = Some (x, v) \<Longrightarrow> w_live v = w_live w \<and> w_allocs v = w_allocs w"
proof (induction con mixer n ids w rule: roar_mixer_loop.induct)
  case (3 con mixer n y ids w)
  obtain r u where a: "ask_ret (Roar (Roar_stream_new_by_id y)) w = (r, u)" by fastforce
  obtain m t where b: "ask (Roar (Roar_stream_get_name con y)) u = (m, t)" by fastforce
  note calm = ask_ret_calm [OF a] roar_ask_calm [OF b]
  show ?case
  proof (cases "r = -1")
    case True
    with 3 a calm show ?thesis by auto
  next
    case False
    with 3 a b calm show ?thesis by (auto split: if_splits)
  qed
qed simp_all

lemma roar_set_mixer_calm:
  "roar_set_mixer b i w = Some (ok, v) \<Longrightarrow> w_live v = w_live w \<and> w_allocs v = w_allocs w"
  by (auto simp: roar_set_mixer_def ao_roar_find_mixer_def
      split: if_splits Option.bind_splits option.splits prod.splits
      dest!: roar_mixer_loop_calm roar_ask_calm ask_ret_calm)

lemma roar_matrix_law:
  assumes "roar_matrix n d w = (d', w')"
  shows "books 0 blk d w d' w' \<and> core_frame d d' \<and> internal d' = internal d"
  using assms
  by (auto simp: roar_matrix_def books_def ledger core_frame_def heap_step_def
      split: if_splits option.splits prod.splits dest!: strdup_heap)

lemma ao_roar_init_law:
  assumes "ao_roar_device_init b d w = Some (r, d', w')" and "internal d = None"
  shows "books 0 plugin_blocks d w d' w' \<and> setup_frame d d'"
proof -
  obtain ok v where m: "malloc_ok w = (ok, v)" by (cases "malloc_ok w")
  obtain s u where t: "strdup DEFAULT_CLIENT_NAME v = (s, u)" by fastforce
  let ?i = "\<lparr>roar_con = 0, roar_con_opened = False, roar_vss = 0, roar_host = None,
     roar_mixer = None, roar_client_name = s, roar_role = ROAR_ROLE_UNKNOWN b\<rparr>"
  show ?thesis
  proof (cases ok)
    case False
    with assms m malloc_ok_heap [OF m] show ?thesis
      by (auto simp: ao_roar_device_init_def books_def heap_step_def)
  next
    case True
    with malloc_ok_heap [OF m] strdup_heap [OF t] have "held (1 + plugin_extra (Roar_internal ?i)) w u"
      by (auto simp: held_def heap_step_def)
    from books_first [OF assms(2) this] assms(1) m t True show ?thesis
      by (auto simp: ao_roar_device_init_def books_def ledger setup_frame_def core_frame_def)
  qed
qed

lemma ao_roar_set_option_law:
  assumes "ao_roar_set_option d k v w = Some (r, d', w')"
  shows "books 0 plugin_blocks d w d' w' \<and> setup_frame d d'"
proof -
  consider (host) "k = ''host'' \<or> k = ''server''" | (mixer) "k = ''id'' \<or> k = ''dev''" | (name) "k = ''client_name''"
    | (role) "k = ''role''"
    | (other) "k \<noteq> ''host''" "k \<noteq> ''server''" "k \<noteq> ''id''" "k \<noteq> ''dev''" "k \<noteq> ''client_name''" "k \<noteq> ''role''"
    by metis
  then show ?thesis
  proof cases
    case host
    with assms obtain i x where x: "roar_state d = Some i" "v = Some x"
      by (auto simp: ao_roar_set_option_def split: Option.bind_splits)
    obtain s u where "strdup x (free_opt (roar_host i) w) = (s, u)" by fastforce
    with assms x host replaced_string [OF x(1) [unfolded plugin_state_iff] this, of "Roar_internal (i\<lparr>roar_host := s\<rparr>)"] show ?thesis
      by (auto simp: ao_roar_set_option_def)
  next
    case mixer
    with assms obtain i x where x: "roar_state d = Some i" "v = Some x"
      by (auto simp: ao_roar_set_option_def split: Option.bind_splits)
    obtain s u where "strdup x (free_opt (roar_mixer i) w) = (s, u)" by fastforce
    with assms x mixer replaced_string [OF x(1) [unfolded plugin_state_iff] this, of "Roar_internal (i\<lparr>roar_mixer := s\<rparr>)"] show ?thesis
      by (auto simp: ao_roar_set_option_def)
  next
    case name
    with assms obtain i x where x: "roar_state d = Some i" "v = Some x"
      by (auto simp: ao_roar_set_option_def split: Option.bind_splits)
    obtain s u where "strdup x (free_opt (roar_client_name i) w) = (s, u)" by fastforce
    with assms x name replaced_string [OF x(1) [unfolded plugin_state_iff] this, of "Roar_internal (i\<lparr>roar_client_name := s\<rparr>)"] show ?thesis
      by (auto simp: ao_roar_set_option_def)
  next
    case role
    with assms obtain i x where x: "roar_state d = Some i" "v = Some x"
      by (auto simp: ao_roar_set_option_def split: Option.bind_splits)
    obtain n u where n: "ask_ret (Roar (Roar_str2role x)) w = (n, u)" by fastforce
    have "books 0 plugin_blocks d w (set_roar (i\<lparr>roar_role := n\<rparr>) d) u"
      by (rule books_replace [where p = "Roar_internal i"])
         (use x ask_ret_calm [OF n] in \<open>auto simp: plugin_state_iff held_def\<close>)
    with assms x n role show ?thesis by (auto simp: ao_roar_set_option_def)
  next
    case other
    with assms show ?thesis by (simp add: ao_roar_set_option_def)
  qed
qed

lemma ao_roar_open_law:
  assumes "ao_roar_open b d format w = Some (r, d', sf', w')"
  shows "books 0 plugin_blocks d w d' w' \<and> core_frame d d' \<and> sf' = format"
proof -
  from assms obtain i where i: "roar_state d = Some i"
    by (auto simp: ao_roar_open_def split: Option.bind_splits)
  obtain ok j w1 where c: "ao_roar_con_open b i w = (ok, j, w1)" by (metis prod_cases3)
  obtain vss w2 where n: "ask_ret (Roar (Roar_vs_new_from_con (roar_con j))) w1 = (vss, w2)" by fastforce
  let ?j = "j\<lparr>roar_vss := vss\<rparr>"
  have b: "books 0 plugin_blocks d w (set_roar k d) y"
    if "w_live y = w_live w" "w_allocs y = w_allocs w" "plugin_extra (Roar_internal k) = plugin_extra (Roar_internal i)"
    for k y
    by (rule books_replace [where p = "Roar_internal i"]) (use i that in \<open>auto simp: plugin_state_iff held_def\<close>)
  note c1 = ao_roar_con_open_calm [OF c] and c2 = ask_ret_calm [OF n]
  consider "\<not> ok" | "ok" "vss = 0" | "ok" "vss \<noteq> 0" by blast
  then show ?thesis
  proof cases
    case 1
    with assms i c c1 b show ?thesis by (auto simp: ao_roar_open_def)
  next
    case 2
    with assms i c n c1 c2 b [of w2 ?j] show ?thesis by (auto simp: ao_roar_open_def)
  next
    case 3
    with assms i c n obtain ok2 w3 where m: "roar_set_mixer b ?j w2 = Some (ok2, w3)"
      by (auto simp: ao_roar_open_def Let_def split: Option.bind_splits)
    obtain r4 w4 where s: "ask_ret (Roar (Roar_vs_stream vss (fmt_rate format) (fmt_channels format)
        (fmt_bits format) (ROAR_CODEC_DEFAULT b))) w3 = (r4, w4)" by fastforce
    have calm: "w_live w3 = w_live w" "w_allocs w3 = w_allocs w" "w_live w4 = w_live w" "w_allocs w4 = w_allocs w"
      using c1 c2 roar_set_mixer_calm [OF m] ask_ret_calm [OF s] by auto
    show ?thesis
    proof (cases "ok2 \<and> r4 \<noteq> -1")
      case False
      with assms i c n 3 m s calm c1 b [of _ "?j\<lparr>roar_vss := 0\<rparr>"] show ?thesis
        by (auto simp: ao_roar_open_def Let_def roar_give_up_def split: if_splits)
    next
      case True
      define w5 where "w5 = (if roar_role ?j \<noteq> ROAR_ROLE_UNKNOWN b
          then snd (ask_ret (Roar (Roar_vs_role vss (roar_role ?j))) w4) else w4)"
      obtain e w6 where e: "roar_matrix (fmt_channels format) ((set_roar ?j d)\<lparr>driver_byte_format := AO_FMT_NATIVE\<rparr>) w5 = (e, w6)"
        by fastforce
      have r: "d' = e" "w' = w6" "sf' = format"
        using assms i c n 3 m s True e by (auto simp: ao_roar_open_def Let_def w5_def)
      have "books 0 plugin_blocks d w (set_roar ?j d) w5"
        by (rule b) (use calm c1 in \<open>simp_all add: w5_def\<close>)
      with roar_matrix_law [OF e, of plugin_blocks] r show ?thesis
        by (auto simp: books_def ledger core_frame_def)
    qed
  qed
qed

interpretation roar: ao_driver "ao_roar b" plugin_blocks for b
proof
  fix d d' :: live_device and w w' :: "'a posix_scheme" and r
  show "fn_device_init (ao_roar b) d w = Some (r, d', w') \<Longrightarrow> internal d = None \<Longrightarrow>
      output_matrix d = None \<Longrightarrow> books 0 plugin_blocks d w d' w' \<and> setup_frame d d'"
    using ao_roar_init_law by (simp add: ao_roar_def)
  show "fn_set_option (ao_roar b) d k v w = Some (r, d', w') \<Longrightarrow>
      books 0 plugin_blocks d w d' w' \<and> setup_frame d d'" for k v
    using ao_roar_set_option_law by (simp add: ao_roar_def)
  show "fn_open (ao_roar b) d sf w = Some (r, d', sf', w') \<Longrightarrow>
      books 0 plugin_blocks d w d' w' \<and> core_frame d d' \<and> fmt_matrix sf' = fmt_matrix sf" for sf sf'
    using ao_roar_open_law [of b d sf w r d' sf' w'] by (simp add: ao_roar_def)
  show "fn_play (ao_roar b) d bs n w = Some (r, d', w') \<Longrightarrow>
      books 0 plugin_blocks d w d' w' \<and> d' = d\<lparr>internal := internal d'\<rparr>" for bs n
    by (auto simp: ao_roar_def ao_roar_play_def calls_only_books split: Option.bind_splits prod.splits
        dest!: ask_ret_calls)
  show "fn_close (ao_roar b) d w = Some (r, d', w') \<Longrightarrow> books 0 plugin_blocks d w d' w' \<and> core_frame d d'"
    by (auto simp: ao_roar_def ao_roar_close_def books_def ledger plugin_state_iff
        split: Option.bind_splits)
  show "fn_device_clear (ao_roar b) d w = Some (d', w') \<Longrightarrow>
      books 0 plugin_blocks d w d' w' \<and> core_frame d d' \<and> internal d' = None"
    by (auto simp: ao_roar_def ao_roar_device_clear_def books_def ledger plugin_state_iff
        split: Option.bind_splits)
qed


end
