(* ===== verification/AO_Alsa.thy ===== *)
theory AO_Alsa
  imports AO_Posix AO_Double "HOL-Library.Signed_Division"
begin

text \<open>
  The ALSA driver, \<^verbatim>\<open>src/plugins/alsa/ao_alsa.c\<close>.  The constants of \<^verbatim>\<open>alsa/asoundlib.h\<close> and the
  choice \<open>USE_ALSA_MMIO\<close> of the build are the fields of \<open>alsa_header\<close>.\<close>

record alsa_header =
  USE_ALSA_MMIO :: bool
  SND_PCM_ACCESS_MMAP_INTERLEAVED :: int
  SND_PCM_ACCESS_RW_INTERLEAVED :: int
  SND_PCM_FORMAT_U8 :: int
  SND_PCM_FORMAT_S16 :: int
  SND_PCM_FORMAT_S24 :: int
  SND_PCM_FORMAT_S32 :: int
  SND_PCM_FORMAT_S24_3LE :: int
  SND_PCM_FORMAT_S24_3BE :: int

section \<open>Operations\<close>

definition AO_ALSA_BUFFER_TIME :: "32 word" where
  "AO_ALSA_BUFFER_TIME = 20000"

definition AO_ALSA_PERIOD_TIME :: "32 word" where
  "AO_ALSA_PERIOD_TIME = 0"

definition ao_alsa_info :: ao_info where
  "ao_alsa_info =
     \<lparr>info_type = AO_TYPE_LIVE, info_name = ''Advanced Linux Sound Architecture (ALSA) output'',
      short_name = ''alsa'',
      author = ''Bill Currie <bill@taniwha.org>/Kevin Cody, Jr. <kevinc@wuff.dhs.org>'',
      info_comment = ''Outputs to the Advanced Linux Sound Architecture version 0.9/1.x'',
      preferred_byte_format = AO_FMT_NATIVE, priority = 35,
      info_options = [''dev'', ''id'', ''buffer_time'', ''period_time'', ''use_mmap'', ''matrix'', ''verbose'',
        ''quiet'', ''debug''],
      option_count = 9\<rparr>"

definition left_in_u32 :: "32 word \<Rightarrow> reply \<Rightarrow> 32 word" where
  "left_in_u32 old r = (if rp_aux r = 0 then word_of_int (rp_out r) else old)"

text \<open>An \<open>int\<close> or \<open>unsigned\<close> made of a \<open>long\<close>.\<close>

definition int_of_long :: "int \<Rightarrow> int" where
  "int_of_long n = sint (word_of_int n :: 32 word)"

definition ao_alsa_test :: "'z posix_scheme \<Rightarrow> (bool \<times> 'z posix_scheme) option" where
  "ao_alsa_test w = (case ask (Alsa (Snd_pcm_open ''default'' True)) w of (r, w) \<Rightarrow>
     if rp_ret r \<noteq> 0 then Some (False, w)
     else Some (True, snd (ask (Alsa (Snd_pcm_close (rp_out r))) w)))"

text \<open>\<open>calloc\<close> leaves what is not set here 0.\<close>

definition ao_alsa_device_init ::
  "alsa_header \<Rightarrow> live_device \<Rightarrow> 'z posix_scheme \<Rightarrow> (bool \<times> live_device \<times> 'z posix_scheme) option" where
  "ao_alsa_device_init h d w = (case malloc_ok w of (ok, w) \<Rightarrow>
     if \<not> ok then Some (False, d, w)
     else (case strdup ''L,R,BL,BR,C,LFE,SL,SR'' w of (m, w) \<Rightarrow>
       Some (True, (set_alsa
           \<lparr>alsa_pcm_handle = 0, alsa_buffer_time = AO_ALSA_BUFFER_TIME,
            alsa_period_time = AO_ALSA_PERIOD_TIME, alsa_period_size = 0, alsa_sample_size = 0,
            alsa_sample_rate = 0, alsa_bitformat = 0, alsa_padbuffer = None, alsa_padoutw = 0,
            alsa_dev = None, alsa_id = -1, alsa_mmap = USE_ALSA_MMIO h,
            alsa_access_mask = (if USE_ALSA_MMIO h then SND_PCM_ACCESS_MMAP_INTERLEAVED h
              else SND_PCM_ACCESS_RW_INTERLEAVED h),
            alsa_static_delay = 0, alsa_local_config = 0\<rparr> d)
         \<lparr>output_matrix_order := AO_OUTPUT_MATRIX_FIXED, output_matrix := m\<rparr>, w)))"

definition ao_alsa_set_option ::
  "alsa_header \<Rightarrow> live_device \<Rightarrow> string \<Rightarrow> string option \<Rightarrow> 'z posix_scheme
    \<Rightarrow> (bool \<times> live_device \<times> 'z posix_scheme) option" where
  "ao_alsa_set_option h d k v w = do {
     i \<leftarrow> alsa_state d;
     (if k = ''dev'' then do {
        v \<leftarrow> v;
        (case strdup v (free_opt (alsa_dev i) w) of (s, w) \<Rightarrow>
          Some (s \<noteq> None, set_alsa (i\<lparr>alsa_dev := s\<rparr>) d, w)) }
      else if k = ''id'' then do {
        v \<leftarrow> v;
        n \<leftarrow> atoi v;
        Some (True, set_alsa (i\<lparr>alsa_id := n, alsa_dev := None\<rparr>) d, free_opt (alsa_dev i) w) }
      else if k = ''buffer_time'' then do {
        v \<leftarrow> v;
        n \<leftarrow> atoi v;
        n \<leftarrow> c_int (n * 1000);
        Some (True, set_alsa (i\<lparr>alsa_buffer_time := word_of_int n\<rparr>) d, w) }
      else if k = ''period_time'' then do {
        v \<leftarrow> v;
        n \<leftarrow> atoi v;
        Some (True, set_alsa (i\<lparr>alsa_period_time := word_of_int n\<rparr>) d, w) }
      else if k = ''use_mmap'' then do {
        v \<leftarrow> v;
        (if v \<in> {''yes'', ''y'', ''true'', ''t'', ''1''}
         then Some (True, set_alsa (i\<lparr>alsa_mmap := True,
                alsa_access_mask := SND_PCM_ACCESS_MMAP_INTERLEAVED h\<rparr>) d, w)
         else Some (True, set_alsa (i\<lparr>alsa_mmap := False,
                alsa_access_mask := SND_PCM_ACCESS_RW_INTERLEAVED h\<rparr>) d, w)) }
      else Some (True, d, w)) }"

text \<open>The format for a number of bits; the byte order is not looked at.\<close>

definition alsa_get_sample_bitformat :: "alsa_header \<Rightarrow> int \<Rightarrow> int" where
  "alsa_get_sample_bitformat h bitwidth =
     (if bitwidth = 8 then SND_PCM_FORMAT_U8 h else if bitwidth = 16 then SND_PCM_FORMAT_S16 h
      else if bitwidth = 24 then SND_PCM_FORMAT_S24 h else if bitwidth = 32 then SND_PCM_FORMAT_S32 h
      else -1)"

section \<open>The configuration for the plugin of PulseAudio\<close>

text \<open>\<open>snd_config_delete(lconf); return NULL;\<close>\<close>

definition drop_config :: "int \<Rightarrow> 'z posix_scheme \<Rightarrow> int \<times> 'z posix_scheme" where
  "drop_config lconf w = (0, snd (ask (Alsa (Snd_config_delete lconf)) w))"

definition init_local_config_with_workaround :: "string \<Rightarrow> 'z posix_scheme \<Rightarrow> int \<times> 'z posix_scheme" where
  "init_local_config_with_workaround name w =
     (let pcm_node_name = take 79 (''pcm.'' @ name);
          (global, w) = ask_ret (Alsa Snd_config_global) w;
          w = (if global = 0 then snd (ask (Alsa Snd_config_update) w) else w);
          (global, w) = ask_ret (Alsa Snd_config_global) w;
          (r, w) = ask (Alsa (Snd_config_copy global)) w
      in if rp_ret r < 0 then (0, w)
         else
           let lconf = left_in 0 r;
               (r, w) = ask (Alsa (Snd_config_search lconf pcm_node_name)) w
           in if rp_ret r \<noteq> 0 then drop_config lconf w
              else
                let device_node = rp_out r;
                    (r, w) = ask (Alsa (Snd_config_search device_node ''type'')) w
                in if rp_ret r \<noteq> 0 then drop_config lconf w
                   else
                     let (r, w) = ask (Alsa (Snd_config_get_string (rp_out r))) w
                     in if rp_ret r \<noteq> 0 \<or> rp_text r \<noteq> ''pulse'' then drop_config lconf w
                        else
                          let (r, w) = ask_ret (Alsa (Snd_config_search device_node ''handle_underrun'')) w
                          in if r \<noteq> - ENOENT then drop_config lconf w
                             else
                               let (r, w) = ask (Alsa (Snd_config_imake_integer ''handle_underrun'' 0)) w
                               in if rp_ret r \<noteq> 0 then drop_config lconf w
                                  else
                                    let (r, w) = ask_ret (Alsa (Snd_config_add device_node (rp_out r))) w
                                    in if r \<noteq> 0 then drop_config lconf w else (lconf, w))"

section \<open>The parameters of the hardware\<close>

text \<open>Try a format: does \<open>snd_pcm_hw_params_set_format\<close> give 0?\<close>

definition takes_format :: "ao_alsa_internal \<Rightarrow> int \<Rightarrow> 'z posix_scheme \<Rightarrow> bool \<times> 'z posix_scheme" where
  "takes_format i f w =
     (case ask_ret (Alsa (Snd_hw_set_format (alsa_pcm_handle i) f)) w of (r, w) \<Rightarrow> (r = 0, w))"

text \<open>
  What a negative answer to the first format leads to: the cases of the \<open>switch\<close>, each falling
  through to the next.  The result is the error to return, if any; a format that is none of the
  cases is passed over.
\<close>

type_synonym 'z alsa_setup =
  "int option \<times> live_device \<times> ao_alsa_internal \<times> ao_sample_format \<times> 'z posix_scheme"

definition alsa_from_s24 ::
  "alsa_header \<Rightarrow> int \<Rightarrow> live_device \<Rightarrow> ao_alsa_internal \<Rightarrow> ao_sample_format \<Rightarrow> 'z posix_scheme \<Rightarrow> 'z alsa_setup" where
  "alsa_from_s24 h err d i format w =
     (case takes_format i (SND_PCM_FORMAT_S24_3LE h) w of (ok, w) \<Rightarrow>
        if ok then (None, d\<lparr>driver_byte_format := AO_FMT_LITTLE\<rparr>, i\<lparr>alsa_bitformat := SND_PCM_FORMAT_S24_3LE h\<rparr>, format, w)
        else case takes_format i (SND_PCM_FORMAT_S24_3BE h) w of (ok, w) \<Rightarrow>
          if ok then (None, d\<lparr>driver_byte_format := AO_FMT_BIG\<rparr>, i\<lparr>alsa_bitformat := SND_PCM_FORMAT_S24_3BE h\<rparr>, format, w)
          else case takes_format i (SND_PCM_FORMAT_S32 h) w of (ok, w) \<Rightarrow>
            if ok then (None, d, i\<lparr>alsa_bitformat := SND_PCM_FORMAT_S32 h\<rparr>, format\<lparr>fmt_bits := 32\<rparr>, w)
            else (Some err, d, i, format, w))"

definition alsa_from_s16 ::
  "alsa_header \<Rightarrow> int \<Rightarrow> live_device \<Rightarrow> ao_alsa_internal \<Rightarrow> ao_sample_format \<Rightarrow> 'z posix_scheme \<Rightarrow> 'z alsa_setup" where
  "alsa_from_s16 h err d i format w =
     (case takes_format i (SND_PCM_FORMAT_S24 h) w of (ok, w) \<Rightarrow>
        if ok then (None, d, i\<lparr>alsa_bitformat := SND_PCM_FORMAT_S24 h\<rparr>, format\<lparr>fmt_bits := 24\<rparr>, w)
        else alsa_from_s24 h err d i format w)"

definition alsa_from_u8 ::
  "alsa_header \<Rightarrow> int \<Rightarrow> live_device \<Rightarrow> ao_alsa_internal \<Rightarrow> ao_sample_format \<Rightarrow> 'z posix_scheme \<Rightarrow> 'z alsa_setup" where
  "alsa_from_u8 h err d i format w =
     (case takes_format i (SND_PCM_FORMAT_S16 h) w of (ok, w) \<Rightarrow>
        if ok then (None, d, i\<lparr>alsa_bitformat := SND_PCM_FORMAT_S16 h\<rparr>, format\<lparr>fmt_bits := 16\<rparr>, w)
        else alsa_from_s16 h err d i format w)"

definition alsa_other_format ::
  "alsa_header \<Rightarrow> int \<Rightarrow> live_device \<Rightarrow> ao_alsa_internal \<Rightarrow> ao_sample_format \<Rightarrow> 'z posix_scheme \<Rightarrow> 'z alsa_setup" where
  "alsa_other_format h err d i format w =
     (if alsa_bitformat i = SND_PCM_FORMAT_U8 h then alsa_from_u8 h err d i format w
      else if alsa_bitformat i = SND_PCM_FORMAT_S16 h then alsa_from_s16 h err d i format w
      else if alsa_bitformat i = SND_PCM_FORMAT_S24 h then alsa_from_s24 h err d i format w
      else if alsa_bitformat i = SND_PCM_FORMAT_S32 h then (Some err, d, i, format, w)
      else (None, d, i, format, w))"

text \<open>
  The rest of the function, from the channels to the size of a period: its result and the times
  and sizes it settles on.
\<close>

definition alsa_set_geometry ::
  "int \<Rightarrow> ao_alsa_internal \<Rightarrow> 32 word \<Rightarrow> 'z posix_scheme \<Rightarrow> int \<times> ao_alsa_internal \<times> 'z posix_scheme" where
  "alsa_set_geometry channels i rate w =
     (let pcm = alsa_pcm_handle i;
          (r, w) = ask_ret (Alsa (Snd_hw_set_channels pcm (word_of_int channels))) w
      in if r < 0 then (r, i, w)
         else
           let (r, w) = ask_ret (Alsa (Snd_hw_set_rate_near pcm rate)) w
           in if r < 0 then (r, i, w)
              else
                let i = (if alsa_period_time i = 0 then i\<lparr>alsa_period_time := alsa_buffer_time i div 4\<rparr> else i);
                    (r, w) = ask (Alsa (Snd_hw_set_period_time_near pcm (alsa_period_time i))) w;
                    i = i\<lparr>alsa_period_time := left_in_u32 (alsa_period_time i) r\<rparr>
                in if rp_ret r < 0 then (rp_ret r, i, w)
                   else
                     let i = (if alsa_buffer_time i < alsa_period_time i * 3
                              then i\<lparr>alsa_buffer_time := alsa_period_time i * 3\<rparr> else i);
                         (r, w) = ask (Alsa (Snd_hw_set_buffer_time_near pcm (alsa_buffer_time i))) w;
                         i = i\<lparr>alsa_buffer_time := left_in_u32 (alsa_buffer_time i) r\<rparr>
                     in if rp_ret r < 0 then (rp_ret r, i, w)
                        else
                          let (r, w) = ask_ret (Alsa (Snd_hw_params pcm)) w
                          in if r < 0 then (r, i, w)
                             else
                               let (r, w) = ask (Alsa (Snd_hw_get_period_size pcm)) w;
                                   i = i\<lparr>alsa_period_size := left_in (alsa_period_size i) r\<rparr>
                               in (if rp_ret r < 0 then rp_ret r else 1, i, w))"

definition alsa_set_hwparams ::
  "alsa_header \<Rightarrow> live_device \<Rightarrow> ao_alsa_internal \<Rightarrow> ao_sample_format \<Rightarrow> 'z posix_scheme
    \<Rightarrow> int \<times> live_device \<times> ao_alsa_internal \<times> ao_sample_format \<times> 'z posix_scheme" where
  "alsa_set_hwparams h d i format w =
     (let rate = word_of_int (fmt_rate format);
          i = i\<lparr>alsa_sample_rate := rate\<rparr>;
          pcm = alsa_pcm_handle i;
          (r, w) = ask_ret (Alsa (Snd_hw_any pcm)) w
      in if r < 0 then (r, d, i, format, w)
         else
           let (r, w) = ask_ret (Alsa (Snd_hw_set_access pcm (alsa_access_mask i))) w
           in if r < 0 then (r, d, i, format, w)
              else
                let (r, w) = ask_ret (Alsa (Snd_hw_set_format pcm (alsa_bitformat i))) w;
                    (err, d, i, format, w) =
                      (if r < 0 then alsa_other_format h r d i format w else (None, d, i, format, w))
                in case err of
                     Some e \<Rightarrow> (e, d, i, format, w)
                   | None \<Rightarrow>
                       (case alsa_set_geometry (output_channels d) i rate w of (r, i, w) \<Rightarrow> (r, d, i, format, w)))"

section \<open>The parameters of the software\<close>

definition alsa_set_swparams :: "ao_alsa_internal \<Rightarrow> 'z posix_scheme \<Rightarrow> int \<times> 'z posix_scheme" where
  "alsa_set_swparams i w =
     (let pcm = alsa_pcm_handle i;
          (r, w) = ask_ret (Alsa (Snd_sw_current pcm)) w
      in if r < 0 then (r, w)
         else
           let w = snd (ask (Alsa (Snd_sw_set_xfer_align pcm 1)) w);
               (r, w) = ask (Alsa (Snd_sw_get_boundary pcm)) w;
               w = (if rp_ret r < 0 then w else snd (ask (Alsa (Snd_sw_set_silence_size pcm (rp_out r))) w));
               (r, w) = ask_ret (Alsa (Snd_sw_params pcm)) w
           in (if r < 0 then r else 1, w))"

section \<open>Opening\<close>

text \<open>\<open>if(internal->local_config) snd_config_delete(internal->local_config); internal->local_config=NULL;\<close>\<close>

definition alsa_forget_config :: "ao_alsa_internal \<Rightarrow> 'z posix_scheme \<Rightarrow> ao_alsa_internal \<times> 'z posix_scheme" where
  "alsa_forget_config i w =
     (i\<lparr>alsa_local_config := 0\<rparr>,
      if alsa_local_config i \<noteq> 0 then snd (ask (Alsa (Snd_config_delete (alsa_local_config i))) w) else w)"

text \<open>\<open>snd_pcm_close\<close> and what goes with it.\<close>

definition alsa_give_up :: "ao_alsa_internal \<Rightarrow> 'z posix_scheme \<Rightarrow> ao_alsa_internal \<times> 'z posix_scheme" where
  "alsa_give_up i w =
     (case alsa_forget_config i (snd (ask (Alsa (Snd_pcm_close (alsa_pcm_handle i))) w)) of (i, w) \<Rightarrow>
        (i\<lparr>alsa_pcm_handle := 0\<rparr>, w))"

definition alsa_test_open ::
  "alsa_header \<Rightarrow> string \<Rightarrow> live_device \<Rightarrow> ao_alsa_internal \<Rightarrow> ao_sample_format \<Rightarrow> 'z posix_scheme
    \<Rightarrow> int \<times> live_device \<times> ao_alsa_internal \<times> ao_sample_format \<times> 'z posix_scheme" where
  "alsa_test_open h dev d i format w =
     (let (lconf, w) = init_local_config_with_workaround dev w;
          i = i\<lparr>alsa_local_config := lconf\<rparr>;
          (r, w) = ask (Alsa (if lconf \<noteq> 0 then Snd_pcm_open_lconf dev lconf else Snd_pcm_open dev False)) w;
          i = i\<lparr>alsa_pcm_handle := left_in (alsa_pcm_handle i) r\<rparr>
      in if rp_ret r \<noteq> 0
         then (case alsa_forget_config i w of (i, w) \<Rightarrow> (rp_ret r, d, i, format, w))
         else
           let (err, d, i, format, w) = alsa_set_hwparams h d i format w
           in if err < 0 then (case alsa_give_up i w of (i, w) \<Rightarrow> (err, d, i, format, w))
              else
                let (err, w) = alsa_set_swparams i w
                in if err < 0 then (case alsa_give_up i w of (i, w) \<Rightarrow> (err, d, i, format, w))
                   else (0, d, i, format, w))"


text \<open>\<open>strcasecmp\<close> and \<open>strncasecmp\<close>: letters without regard to their case.\<close>

definition strcasecmp_eq :: "string \<Rightarrow> string \<Rightarrow> bool" where
  "strcasecmp_eq s t \<longleftrightarrow> map to_lower s = map to_lower t"

definition strncasecmp_eq :: "string \<Rightarrow> string \<Rightarrow> nat \<Rightarrow> bool" where
  "strncasecmp_eq s t n \<longleftrightarrow> map to_lower (take n s) = map to_lower (take n t)"

text \<open>
  The device for a number of channels, and the name it was tried under, if any: the \<open>switch\<close> with
  its cases that fall through.
\<close>

definition alsa_surround ::
  "alsa_header \<Rightarrow> live_device \<Rightarrow> ao_alsa_internal \<Rightarrow> ao_sample_format \<Rightarrow> 'z posix_scheme
    \<Rightarrow> string option \<times> int \<times> live_device \<times> ao_alsa_internal \<times> ao_sample_format \<times> 'z posix_scheme" where
  "alsa_surround h d i format w =
     (if output_channels d \<in> {3, 4}
      then (case alsa_test_open h ''surround40'' d i format w of (err, d, i, format, w) \<Rightarrow>
        if err = 0 then (Some ''surround40'', err, d, i, format, w)
        else (Some ''surround51'', alsa_test_open h ''surround51'' d i format w))
      else if output_channels d \<in> {5, 6} then (Some ''surround51'', alsa_test_open h ''surround51'' d i format w)
      else if output_channels d = 2 then (Some ''front'', alsa_test_open h ''front'' d i format w)
      else if output_channels d = 1 then (None, 0, d, i, format, w)
      else (Some ''surround71'', alsa_test_open h ''surround71'' d i format w))"

definition alsa_select ::
  "alsa_header \<Rightarrow> live_device \<Rightarrow> ao_alsa_internal \<Rightarrow> ao_sample_format \<Rightarrow> 'z posix_scheme
    \<Rightarrow> (int \<times> live_device \<times> ao_alsa_internal \<times> ao_sample_format \<times> 'z posix_scheme) option" where
  "alsa_select h d i format w =
     (case alsa_dev i of
        Some dev \<Rightarrow> Some (alsa_test_open h dev d i format w)
      | None \<Rightarrow>
          if alsa_id i < 0 then
            (case alsa_surround h d i format w of (tmp, err, d, i, format, w) \<Rightarrow>
               let tmp = (if err \<noteq> 0 then None else tmp);
                   (err, d, i, format, w) =
                     (if tmp = None then alsa_test_open h ''default'' d i format w else (err, d, i, format, w));
                   (s, w) = strdup (case tmp of None \<Rightarrow> ''default'' | Some t \<Rightarrow> t) w
               in Some (err, d, i\<lparr>alsa_dev := s\<rparr>, format, w))
          else (case strdup (''hw:'' @ decimal (alsa_id i)) w of (s, w) \<Rightarrow> do {
            dev \<leftarrow> s;
            Some (alsa_test_open h dev d (i\<lparr>alsa_dev := s\<rparr>) format w) }))"

text \<open>
  The buffer for samples that have to be made wider.  A \<open>calloc\<close> that fails leaves none, and play
  then passes the samples on as they are.
\<close>

definition alsa_padding ::
  "alsa_header \<Rightarrow> int \<Rightarrow> ao_alsa_internal \<Rightarrow> ao_sample_format \<Rightarrow> 'z posix_scheme
    \<Rightarrow> (ao_alsa_internal \<times> ao_sample_format \<times> 'z posix_scheme) option" where
  "alsa_padding h prebits i format w = (let i = i\<lparr>alsa_padbuffer := None, alsa_padoutw := 0\<rparr> in
     if alsa_bitformat i = SND_PCM_FORMAT_S24 h
     then (case malloc_ok w of (ok, w) \<Rightarrow>
       Some (i\<lparr>alsa_padbuffer := (if ok then Some (replicate 4096 0) else None), alsa_padoutw := 32\<rparr>, format, w))
     else if prebits \<noteq> fmt_bits format
     then (case malloc_ok w of (ok, w) \<Rightarrow> do {
       b \<leftarrow> c_int (fmt_bits format + 7);
       Some (i\<lparr>alsa_padbuffer := (if ok then Some (replicate 4096 0) else None), alsa_padoutw := b sdiv 8\<rparr>,
             format\<lparr>fmt_bits := prebits\<rparr>, w) })
     else Some (i, format, w))"

definition ao_alsa_open ::
  "alsa_header \<Rightarrow> live_device \<Rightarrow> ao_sample_format \<Rightarrow> 'z posix_scheme
    \<Rightarrow> (bool \<times> live_device \<times> ao_sample_format \<times> 'z posix_scheme) option" where
  "ao_alsa_open h d format w = do {
     i \<leftarrow> alsa_state d;
     let err = alsa_get_sample_bitformat h (fmt_bits format);
     (if err < 0 then Some (False, d, format, w)
      else do {
        let prebits = fmt_bits format;
        (err, d, i, format, w) \<leftarrow> alsa_select h
          (if fmt_bits format > 8 then d\<lparr>driver_byte_format := client_byte_format d\<rparr> else d)
          (i\<lparr>alsa_bitformat := err\<rparr>) format w;
        (if err < 0 then Some (False, set_alsa i d, format, w)
         else do {
           (i, format, w) \<leftarrow> alsa_padding h prebits i format w;
           let (r, w) = ask (Alsa (Snd_pcm_delay (alsa_pcm_handle i))) w;
           let i = i\<lparr>alsa_static_delay := (if rp_ret r \<noteq> 0 then 0 else int_of_long (rp_out r))\<rparr>;
           n \<leftarrow> c_int (fmt_bits format * output_channels d);
           let i = i\<lparr>alsa_sample_size := n sdiv 8\<rparr>;
           dev \<leftarrow> alsa_dev i;
           let lost = \<not> strcasecmp_eq dev ''default'' \<and> \<not> strncasecmp_eq dev ''surround'' 8 \<and>
             output_channels d > 2 \<and> verbose d \<ge> 0;
           Some (True, (set_alsa i d)\<lparr>inter_matrix := (if lost then None else inter_matrix d)\<rparr>, format,
                 if lost then free_opt (inter_matrix d) w else w) }) }) }"

section \<open>Playing\<close>

text \<open>\<open>while((err = snd_pcm_resume(...)) == -EAGAIN) sleep(1);\<close>\<close>

partial_function (option) alsa_resume :: "int \<Rightarrow> 'z posix_scheme \<Rightarrow> (int \<times> 'z posix_scheme) option" where
  "alsa_resume pcm w =
     (case ask_ret (Alsa (Snd_pcm_resume pcm)) w of (err, w) \<Rightarrow>
        if err = - EAGAIN then alsa_resume pcm (snd (ask (Sleep 1) w)) else Some (err, w))"

declare alsa_resume.simps [code]

definition alsa_error_recovery :: "ao_alsa_internal \<Rightarrow> int \<Rightarrow> 'z posix_scheme \<Rightarrow> (int \<times> 'z posix_scheme) option" where
  "alsa_error_recovery i err w =
     (if err = - EPIPE then Some (ask_ret (Alsa (Snd_pcm_prepare (alsa_pcm_handle i))) w)
      else if err = - ESTRPIPE then do {
        (err, w) \<leftarrow> alsa_resume (alsa_pcm_handle i) w;
        (if err < 0
         then (case ask_ret (Alsa (Snd_pcm_prepare (alsa_pcm_handle i))) w of (err, w) \<Rightarrow>
           Some (if err < 0 then err else 0, w))
         else Some (0, w)) }
      else Some (err, w))"

text \<open>
  The loop of \<open>ao_plugin_playi\<close>.  What is offered are the samples from \<open>ptr\<close> on that make up \<open>len\<close>
  frames of \<open>sample_size\<close> bytes; with a negative size the pointer leaves the buffer, a fault.  The
  bytes of a call are thus the ones that the driver means to pass.  \<open>snd_pcm_writei\<close> itself gets the
  pointer and the number of frames only, and reads frames of the stream's own format: where the
  driver's size is another, as it is with formats of 24 bits, it reads more or fewer bytes than
  these.
\<close>

partial_function (option) alsa_playi_loop ::
  "ao_alsa_internal \<Rightarrow> int \<Rightarrow> byte list \<Rightarrow> 32 word \<Rightarrow> 'z posix_scheme \<Rightarrow> (bool \<times> 'z posix_scheme) option" where
  "alsa_playi_loop i sample_size ptr len w =
     (if len = 0 then Some (True, w)
      else if sample_size < 0 then None
      else Option.bind (load (unat len * nat sample_size) ptr 0) (\<lambda>bs.
        case ask_ret (Alsa (Snd_pcm_writei (alsa_mmap i) (alsa_pcm_handle i) bs len)) w of (ret, w) \<Rightarrow>
          let err = int_of_long ret
          in if err = - EAGAIN \<or> err = - EINTR then alsa_playi_loop i sample_size ptr len w
             else if err < 0
             then Option.bind (alsa_error_recovery i err w) (\<lambda>(err, w).
                    if err < 0 then Some (False, w) else alsa_playi_loop i sample_size ptr len w)
             else alsa_playi_loop i sample_size (drop (nat err * nat sample_size) ptr) (len - word_of_int err) w))"

declare alsa_playi_loop.simps [code]

definition alsa_playi ::
  "ao_alsa_internal \<Rightarrow> byte list \<Rightarrow> 32 word \<Rightarrow> int \<Rightarrow> 'z posix_scheme \<Rightarrow> (bool \<times> 'z posix_scheme) option" where
  "alsa_playi i output_samples num_bytes sample_size w =
     (if sample_size = 0 then None
      else alsa_playi_loop i sample_size output_samples (num_bytes div word_of_int sample_size) w)"


text \<open>
  Making samples wider: the inner loops over \<open>i\<close>, which copy or clear one byte of every sample, and
  the loops over \<open>j\<close>.
\<close>

fun alsa_copy_column :: "nat \<Rightarrow> int \<Rightarrow> int \<Rightarrow> int \<Rightarrow> int \<Rightarrow> byte list \<Rightarrow> byte list \<Rightarrow> byte list option" where
  "alsa_copy_column 0 s d ibytewidth obytewidth source target = Some target"
| "alsa_copy_column (Suc n) s d ibytewidth obytewidth source target = do {
     b \<leftarrow> load 1 source s;
     target \<leftarrow> store target d b;
     alsa_copy_column n (s + ibytewidth) (d + obytewidth) ibytewidth obytewidth source target }"

fun alsa_zero_column :: "nat \<Rightarrow> int \<Rightarrow> int \<Rightarrow> byte list \<Rightarrow> byte list option" where
  "alsa_zero_column 0 d obytewidth target = Some target"
| "alsa_zero_column (Suc n) d obytewidth target = do {
     target \<leftarrow> store target d [0];
     alsa_zero_column n (d + obytewidth) obytewidth target }"

fun alsa_copy_columns :: "nat \<Rightarrow> bool \<Rightarrow> int \<Rightarrow> int \<Rightarrow> int list \<Rightarrow> byte list \<Rightarrow> byte list \<Rightarrow> byte list option" where
  "alsa_copy_columns n endianp ibytewidth obytewidth [] source target = Some target"
| "alsa_copy_columns n endianp ibytewidth obytewidth (j # js) source target = do {
     target \<leftarrow> alsa_copy_column n j (if endianp then j else obytewidth - ibytewidth + j)
       ibytewidth obytewidth source target;
     alsa_copy_columns n endianp ibytewidth obytewidth js source target }"

fun alsa_zero_columns :: "nat \<Rightarrow> bool \<Rightarrow> int \<Rightarrow> int \<Rightarrow> int list \<Rightarrow> byte list \<Rightarrow> byte list option" where
  "alsa_zero_columns n endianp ibytewidth obytewidth [] target = Some target"
| "alsa_zero_columns n endianp ibytewidth obytewidth (j # js) target = do {
     target \<leftarrow> alsa_zero_column n (if endianp then j else j - ibytewidth) obytewidth target;
     alsa_zero_columns n endianp ibytewidth obytewidth js target }"

text \<open>\<open>n\<close> samples of \<open>ibytewidth\<close> bytes, made \<open>obytewidth\<close> bytes wide.\<close>

definition alsa_pad :: "nat \<Rightarrow> bool \<Rightarrow> int \<Rightarrow> int \<Rightarrow> byte list \<Rightarrow> byte list \<Rightarrow> byte list option" where
  "alsa_pad n endianp ibytewidth obytewidth source target = do {
     target \<leftarrow> alsa_copy_columns n endianp ibytewidth obytewidth [0..ibytewidth - 1] source target;
     alsa_zero_columns n endianp ibytewidth obytewidth [max 0 ibytewidth..obytewidth - 1] target }"

partial_function (option) alsa_pad_loop ::
  "ao_alsa_internal \<Rightarrow> int \<Rightarrow> int \<Rightarrow> byte list \<Rightarrow> byte list \<Rightarrow> 32 word \<Rightarrow> 'z posix_scheme
    \<Rightarrow> (bool \<times> byte list \<times> 'z posix_scheme) option" where
  "alsa_pad_loop i channels ibytewidth padbuffer output_samples num_bytes w =
     (if num_bytes < word_of_int (alsa_sample_size i) then Some (True, padbuffer, w)
      else Option.bind (c_int (alsa_padoutw i * channels)) (\<lambda>oframe.
        if oframe = 0 \<or> alsa_sample_size i = 0 then None
        else
          let oframes = 4096 sdiv oframe;
              iframes = int_of_u32 (num_bytes div word_of_int (alsa_sample_size i));
              frames = (if oframes < iframes then oframes else iframes)
          in Option.bind (c_int (frames * oframe)) (\<lambda>obytes.
             Option.bind (alsa_pad (nat (frames * channels)) (w_big_endian w) ibytewidth (alsa_padoutw i)
                output_samples padbuffer) (\<lambda>padbuffer.
             Option.bind (alsa_playi i padbuffer (word_of_int obytes) oframe w) (\<lambda>(ok, w).
               if \<not> ok then Some (False, padbuffer, w)
               else alsa_pad_loop i channels ibytewidth padbuffer
                      (drop (nat (frames * alsa_sample_size i)) output_samples)
                      (num_bytes - word_of_int (frames * alsa_sample_size i)) w)))))"

declare alsa_pad_loop.simps [code]

definition ao_alsa_play ::
  "live_device \<Rightarrow> byte list \<Rightarrow> 32 word \<Rightarrow> 'z posix_scheme
    \<Rightarrow> (bool \<times> live_device \<times> 'z posix_scheme) option" where
  "ao_alsa_play d output_samples num_bytes w = do {
     i \<leftarrow> alsa_state d;
     (case alsa_padbuffer i of
        Some padbuffer \<Rightarrow>
          if output_channels d = 0 then None
          else do {
            (r, padbuffer, w) \<leftarrow> alsa_pad_loop i (output_channels d) (alsa_sample_size i sdiv output_channels d)
              padbuffer output_samples num_bytes w;
            Some (r, set_alsa (i\<lparr>alsa_padbuffer := Some padbuffer\<rparr>) d, w) }
      | None \<Rightarrow> do {
          (r, w) \<leftarrow> alsa_playi i output_samples num_bytes (alsa_sample_size i) w;
          Some (r, d, w) }) }"

section \<open>Closing\<close>

text \<open>
  What to do for \<open>n\<close> frames, in the arithmetic of \<open>double\<close>: drain the stream, for more than a second,
  sleep for a time, or nothing.  A rate of 0 gives infinity or no number.
\<close>

datatype alsa_rest = Alsa_drain | Alsa_sleep int int | Alsa_silent

definition alsa_close_time :: "int \<Rightarrow> 32 word \<Rightarrow> alsa_rest" where
  "alsa_close_time n rate =
     (if rate = 0 then (if n > 0 then Alsa_drain else Alsa_silent)
      else
        let s = double_round (double_round (of_int n) / of_int (uint rate))
        in if s > 1 then Alsa_drain
           else if s > 0
           then Alsa_sleep \<lfloor>s\<rfloor> \<lfloor>double_round (double_round (s - of_int \<lfloor>s\<rfloor>) * 1000000000)\<rfloor>
           else Alsa_silent)"

partial_function (option) alsa_sleep :: "int \<Rightarrow> int \<Rightarrow> 'z posix_scheme \<Rightarrow> 'z posix_scheme option" where
  "alsa_sleep sec nsec w =
     (case ask (Nanosleep sec nsec) w of (r, w) \<Rightarrow>
        if rp_ret r < 0 \<and> rp_errno r = EINTR then alsa_sleep (rp_out r) (rp_aux r) w else Some w)"

declare alsa_sleep.simps [code]

definition alsa_wait :: "ao_alsa_internal \<Rightarrow> 'z posix_scheme \<Rightarrow> 'z posix_scheme option" where
  "alsa_wait i w =
     (case ask (Alsa (Snd_pcm_delay (alsa_pcm_handle i))) w of (r, w) \<Rightarrow>
        if rp_ret r \<noteq> 0 then Some (snd (ask (Alsa (Snd_pcm_drain (alsa_pcm_handle i))) w))
        else (case alsa_close_time (rp_out r - alsa_static_delay i) (alsa_sample_rate i) of
            Alsa_drain \<Rightarrow> Some (snd (ask (Alsa (Snd_pcm_drain (alsa_pcm_handle i))) w))
          | Alsa_sleep sec nsec \<Rightarrow> alsa_sleep sec nsec w
          | Alsa_silent \<Rightarrow> Some w))"

definition ao_alsa_close ::
  "live_device \<Rightarrow> 'z posix_scheme \<Rightarrow> (bool \<times> live_device \<times> 'z posix_scheme) option" where
  "ao_alsa_close d w =
     (if internal d = None then Some (True, d, w)
      else do {
        i \<leftarrow> alsa_state d;
        (if alsa_pcm_handle i = 0 then Some (True, d, w)
         else do {
           w \<leftarrow> alsa_wait i w;
           let (i, w) = alsa_give_up i w;
           Some (True, set_alsa i d, w) }) })"

definition ao_alsa_device_clear ::
  "live_device \<Rightarrow> 'z posix_scheme \<Rightarrow> (live_device \<times> 'z posix_scheme) option" where
  "ao_alsa_device_clear d w =
     (if internal d = None then Some (d, w)
      else do {
        i \<leftarrow> alsa_state d;
        Some (d\<lparr>internal := None\<rparr>, free_block (free_opt (alsa_padbuffer i) (free_opt (alsa_dev i) w))) })"

definition ao_alsa :: "alsa_header \<Rightarrow> (plugin_internal ao_internal, 'z posix_scheme) ao_functions" where
  "ao_alsa h =
     \<lparr>fn_test = ao_alsa_test, fn_driver_info = ao_alsa_info, fn_device_init = ao_alsa_device_init h,
      fn_set_option = ao_alsa_set_option h, fn_open = ao_alsa_open h, fn_play = ao_alsa_play,
      fn_close = ao_alsa_close, fn_device_clear = ao_alsa_device_clear, fn_file_extension = None\<rparr>"


section \<open>The ledger\<close>

lemma calls_only_if:
  "calls_only w u \<Longrightarrow> calls_only w v \<Longrightarrow> calls_only w (if c then u else v)"
  "calls_only w (snd x) \<Longrightarrow> calls_only w (snd y) \<Longrightarrow> calls_only w (snd (if c then x else y))"
  "calls_only w (snd (snd s)) \<Longrightarrow> calls_only w (snd (snd t)) \<Longrightarrow> calls_only w (snd (snd (if c then s else t)))"
  by simp_all

lemma calls_only_pair:
  "calls_only w u \<Longrightarrow> calls_only w (snd (x, u))" "calls_only w u \<Longrightarrow> calls_only w (snd (snd (x, y, u)))"
  by simp_all

lemmas calls_only_intros = calls_only_if calls_only_pair calls_only_after calls_only_refl

lemma workaround_calls: "calls_only w (snd (init_local_config_with_workaround name w))"
  unfolding init_local_config_with_workaround_def drop_config_def Let_def split_beta
  by (intro calls_only_intros)

text \<open>
  What the steps of opening leave as it is.  The bits follow the format when it becomes the one of
  24 bits in 4 bytes.
\<close>

definition alsa_formats :: "alsa_header \<Rightarrow> bool" where
  "alsa_formats h \<longleftrightarrow> SND_PCM_FORMAT_S24 h \<notin> {-1, SND_PCM_FORMAT_U8 h, SND_PCM_FORMAT_S16 h, SND_PCM_FORMAT_S32 h,
     SND_PCM_FORMAT_S24_3LE h, SND_PCM_FORMAT_S24_3BE h}"

definition s24_bits :: "alsa_header \<Rightarrow> ao_alsa_internal \<Rightarrow> ao_sample_format \<Rightarrow> bool" where
  "s24_bits h i f \<longleftrightarrow> (alsa_bitformat i = SND_PCM_FORMAT_S24 h \<longrightarrow> fmt_bits f = 24)"

definition alsa_same :: "alsa_header \<Rightarrow>
  live_device \<Rightarrow> ao_alsa_internal \<Rightarrow> ao_sample_format \<Rightarrow> live_device \<Rightarrow> ao_alsa_internal \<Rightarrow> ao_sample_format \<Rightarrow> bool" where
  "alsa_same h d i f d' i' f' \<longleftrightarrow>
     alsa_dev i' = alsa_dev i \<and> alsa_id i' = alsa_id i \<and> alsa_padbuffer i' = alsa_padbuffer i \<and>
     alsa_mmap i' = alsa_mmap i \<and>
     (\<exists>b. d' = d\<lparr>driver_byte_format := b\<rparr>) \<and> (\<exists>b. f' = f\<lparr>fmt_bits := b\<rparr>) \<and>
     (alsa_formats h \<longrightarrow> s24_bits h i f \<longrightarrow> s24_bits h i' f')"

lemma s24_bits_sel [simp]:
  "s24_bits h (i\<lparr>alsa_local_config := x\<rparr>) f = s24_bits h i f"
  "s24_bits h (i\<lparr>alsa_pcm_handle := y\<rparr>) f = s24_bits h i f" "s24_bits h (i\<lparr>alsa_dev := z\<rparr>) f = s24_bits h i f"
  "s24_bits h (i\<lparr>alsa_period_time := t\<rparr>) f = s24_bits h i f" "s24_bits h (i\<lparr>alsa_buffer_time := t\<rparr>) f = s24_bits h i f"
  "s24_bits h (i\<lparr>alsa_period_size := n\<rparr>) f = s24_bits h i f" "s24_bits h (i\<lparr>alsa_sample_rate := t\<rparr>) f = s24_bits h i f"
  by (simp_all add: s24_bits_def)

lemma same_byte_format [simp]: "\<exists>b. d = d\<lparr>driver_byte_format := b\<rparr>"
  by (rule exI [of _ "driver_byte_format d"]) simp

lemma same_bits [simp]: "\<exists>b. f = f\<lparr>fmt_bits := b\<rparr>"
  by (rule exI [of _ "fmt_bits f"]) simp

lemma alsa_same_refl [simp]: "alsa_same h d i f d i f"
  by (simp add: alsa_same_def)

lemma alsa_same_trans:
  assumes "alsa_same h d i f d1 i1 f1" and "alsa_same h d1 i1 f1 d2 i2 f2"
  shows "alsa_same h d i f d2 i2 f2"
  using assms by (auto simp: alsa_same_def)

lemma takes_format_calls: "takes_format i f w = (ok, v) \<Longrightarrow> calls_only w v"
  by (auto simp: takes_format_def split: prod.splits dest: ask_ret_calls)

lemma alsa_from_s24_same:
  "alsa_from_s24 h err d i f w = (e, d', i', f', v) \<Longrightarrow> calls_only w v \<and> alsa_same h d i f d' i' f'"
  by (auto simp: alsa_from_s24_def alsa_same_def s24_bits_def alsa_formats_def split: prod.splits if_splits dest!: takes_format_calls
      intro: calls_only_trans)

lemma alsa_from_s16_same:
  "alsa_from_s16 h err d i f w = (e, d', i', f', v) \<Longrightarrow> calls_only w v \<and> alsa_same h d i f d' i' f'"
  by (auto simp: alsa_from_s16_def split: prod.splits if_splits dest!: takes_format_calls alsa_from_s24_same
      intro: calls_only_trans) (auto simp: alsa_same_def s24_bits_def alsa_formats_def)

lemma alsa_from_u8_same:
  "alsa_from_u8 h err d i f w = (e, d', i', f', v) \<Longrightarrow> calls_only w v \<and> alsa_same h d i f d' i' f'"
  by (auto simp: alsa_from_u8_def split: prod.splits if_splits dest!: takes_format_calls alsa_from_s16_same
      intro: calls_only_trans) (auto simp: alsa_same_def s24_bits_def alsa_formats_def)

lemma alsa_other_format_same:
  "alsa_other_format h err d i f w = (e, d', i', f', v) \<Longrightarrow> calls_only w v \<and> alsa_same h d i f d' i' f'"
  by (auto simp: alsa_other_format_def split: if_splits
      dest!: alsa_from_s24_same alsa_from_s16_same alsa_from_u8_same)

lemma alsa_same_if:
  "alsa_same h d i f d (fst (snd x)) f \<Longrightarrow> alsa_same h d i f d (fst (snd y)) f \<Longrightarrow>
   alsa_same h d i f d (fst (snd (if c then x else y))) f"
  "alsa_same h d i f d j f \<Longrightarrow> alsa_same h d i f d (fst (snd (x', j, y'))) f"
  by simp_all

lemma alsa_same_geometry:
  "alsa_same h d i f d i f"
  "alsa_same h d i f d j f \<Longrightarrow> alsa_same h d i f d (j\<lparr>alsa_period_time := x\<rparr>) f"
  "alsa_same h d i f d j f \<Longrightarrow> alsa_same h d i f d (j\<lparr>alsa_buffer_time := x\<rparr>) f"
  "alsa_same h d i f d j f \<Longrightarrow> alsa_same h d i f d (j\<lparr>alsa_period_size := y\<rparr>) f"
  "alsa_same h d i f d j f \<Longrightarrow> alsa_same h d i f d k f \<Longrightarrow> alsa_same h d i f d (if b then j else k) f"
  by (simp_all add: alsa_same_def)

lemma alsa_set_geometry_same:
  assumes "alsa_set_geometry c i rate w = (r, i', v)"
  shows "calls_only w v \<and> alsa_same h d i f d i' f"
proof -
  have "calls_only w (snd (snd (alsa_set_geometry c i rate w)))"
    unfolding alsa_set_geometry_def Let_def split_beta by (intro calls_only_intros)
  moreover have "alsa_same h d i f d (fst (snd (alsa_set_geometry c i rate w))) f"
    unfolding alsa_set_geometry_def Let_def split_beta
    by (intro alsa_same_if alsa_same_geometry)
  ultimately show ?thesis using assms by simp
qed


lemma alsa_set_hwparams_same:
  assumes "alsa_set_hwparams h d i f w = (r, d', i', f', v)"
  shows "calls_only w v \<and> alsa_same h d i f d' i' f'"
proof -
  define i0 where "i0 = i\<lparr>alsa_sample_rate := word_of_int (fmt_rate f)\<rparr>"
  let ?pcm = "alsa_pcm_handle i0"
  have 0: "alsa_same h d i f d i0 f" by (simp add: i0_def alsa_same_def)
  obtain r1 w1 where 1: "ask_ret (Alsa (Snd_hw_any ?pcm)) w = (r1, w1)" by fastforce
  obtain r2 w2 where 2: "ask_ret (Alsa (Snd_hw_set_access ?pcm (alsa_access_mask i0))) w1 = (r2, w2)" by fastforce
  obtain r3 w3 where 3: "ask_ret (Alsa (Snd_hw_set_format ?pcm (alsa_bitformat i0))) w2 = (r3, w3)" by fastforce
  obtain err d4 i4 f4 w4 where 4: "(if r3 < 0 then alsa_other_format h r3 d i0 f w3 else (None, d, i0, f, w3)) =
      (err, d4, i4, f4, w4)" by (metis prod_cases5)
  obtain r5 i5 w5 where 5: "alsa_set_geometry (output_channels d4) i4 (word_of_int (fmt_rate f)) w4 = (r5, i5, w5)"
    by (metis prod_cases3)
  note c1 = ask_ret_calls [OF 1]
  note c2 = calls_only_trans [OF c1 ask_ret_calls [OF 2]]
  note c3 = calls_only_trans [OF c2 ask_ret_calls [OF 3]]
  have s4: "calls_only w3 w4 \<and> alsa_same h d i0 f d4 i4 f4"
    using 4 alsa_other_format_same [of h r3 d i0 f w3] by (auto split: if_splits)
  note s5 = alsa_set_geometry_same [OF 5, of h d4 f4]
  have eq: "alsa_set_hwparams h d i f w =
      (if r1 < 0 then (r1, d, i0, f, w1) else if r2 < 0 then (r2, d, i0, f, w2)
       else case err of Some e \<Rightarrow> (e, d4, i4, f4, w4) | None \<Rightarrow> (r5, d4, i5, f4, w5))"
    unfolding alsa_set_hwparams_def Let_def i0_def [symmetric] by (cases err) (simp_all add: 1 2 3 4 5)
  have "calls_only w w4" "alsa_same h d i f d4 i4 f4"
    using c3 s4 0 calls_only_trans alsa_same_trans by blast+
  moreover have "calls_only w w5" "alsa_same h d i f d4 i5 f4"
    using calculation s5 calls_only_trans alsa_same_trans by blast+
  ultimately show ?thesis
    using assms 0 c1 c2 unfolding eq by (auto split: if_splits option.splits)
qed

lemma alsa_give_up_calls:
  "alsa_forget_config i w = (i', v) \<Longrightarrow> calls_only w v \<and> i' = i\<lparr>alsa_local_config := 0\<rparr>"
  "alsa_give_up i w = (i', v) \<Longrightarrow> calls_only w v \<and> i' = i\<lparr>alsa_local_config := 0, alsa_pcm_handle := 0\<rparr>"
proof -
  have f: "calls_only w (snd (alsa_forget_config i w)) \<and> fst (alsa_forget_config i w) = i\<lparr>alsa_local_config := 0\<rparr>"
    for i and w :: "'a posix_scheme"
    by (simp add: alsa_forget_config_def)
  show "alsa_forget_config i w = (i', v) \<Longrightarrow> calls_only w v \<and> i' = i\<lparr>alsa_local_config := 0\<rparr>"
    using f [of w i] by simp
  show "alsa_give_up i w = (i', v) \<Longrightarrow> calls_only w v \<and> i' = i\<lparr>alsa_local_config := 0, alsa_pcm_handle := 0\<rparr>"
    using f [of "snd (ask (Alsa (Snd_pcm_close (alsa_pcm_handle i))) w)" i] calls_only_trans [OF calls_only_ask]
    by (auto simp: alsa_give_up_def split: prod.splits)
qed

lemma alsa_set_swparams_calls: "alsa_set_swparams i w = (r, v) \<Longrightarrow> calls_only w v"
proof -
  have "calls_only w (snd (alsa_set_swparams i w))"
    unfolding alsa_set_swparams_def Let_def split_beta by (intro calls_only_intros)
  then show "alsa_set_swparams i w = (r, v) \<Longrightarrow> calls_only w v" by simp
qed

lemma alsa_same_handles [simp]:
  "alsa_same h d i f d' (i'\<lparr>alsa_local_config := x\<rparr>) f' = alsa_same h d i f d' i' f'"
  "alsa_same h d i f d' (i'\<lparr>alsa_pcm_handle := y\<rparr>) f' = alsa_same h d i f d' i' f'"
  "alsa_same h d i f d' (i'\<lparr>alsa_local_config := x, alsa_pcm_handle := y\<rparr>) f' = alsa_same h d i f d' i' f'"
  by (simp_all add: alsa_same_def)

lemma alsa_test_open_same:
  assumes "alsa_test_open h dev d i f w = (r, d', i', f', v)"
  shows "calls_only w v \<and> alsa_same h d i f d' i' f'"
proof -
  obtain lconf w1 where 1: "init_local_config_with_workaround dev w = (lconf, w1)" by fastforce
  obtain r2 w2 where 2: "ask (Alsa (if lconf \<noteq> 0 then Snd_pcm_open_lconf dev lconf else Snd_pcm_open dev False)) w1 = (r2, w2)"
    by fastforce
  define i2 where "i2 = i\<lparr>alsa_local_config := lconf, alsa_pcm_handle := left_in (alsa_pcm_handle i) r2\<rparr>"
  obtain err d3 i3 f3 w3 where 3: "alsa_set_hwparams h d i2 f w2 = (err, d3, i3, f3, w3)" by (metis prod_cases5)
  obtain err4 w4 where 4: "alsa_set_swparams i3 w3 = (err4, w4)" by fastforce
  have eq: "alsa_test_open h dev d i f w =
      (if rp_ret r2 \<noteq> 0 then (case alsa_forget_config i2 w2 of (i, w) \<Rightarrow> (rp_ret r2, d, i, f, w))
       else if err < 0 then (case alsa_give_up i3 w3 of (i, w) \<Rightarrow> (err, d3, i, f3, w))
       else if err4 < 0 then (case alsa_give_up i3 w4 of (i, w) \<Rightarrow> (err4, d3, i, f3, w))
       else (0, d3, i3, f3, w4))"
    unfolding alsa_test_open_def Let_def using 3 [unfolded i2_def] by (simp add: 1 2 4 i2_def)
  have "calls_only w w1" using workaround_calls [of w dev] 1 by simp
  then have c2: "calls_only w w2" using ask_calls [OF 2] calls_only_trans by blast
  have "alsa_same h d i f d i2 f" by (simp add: i2_def)
  with alsa_set_hwparams_same [OF 3] c2 have c3: "calls_only w w3" "alsa_same h d i f d3 i3 f3"
    using calls_only_trans alsa_same_trans by blast+
  have c4: "calls_only w w4" using c3(1) alsa_set_swparams_calls [OF 4] calls_only_trans by blast
  show ?thesis
    using assms c2 c3 c4 \<open>alsa_same h d i f d i2 f\<close> unfolding eq
    by (auto split: if_splits prod.splits dest!: alsa_give_up_calls intro: calls_only_trans)
qed

lemma alsa_surround_same:
  assumes "alsa_surround h d i f w = (tmp, r, d', i', f', v)"
  shows "calls_only w v \<and> alsa_same h d i f d' i' f'"
proof -
  obtain err d1 i1 f1 w1 where 1: "alsa_test_open h ''surround40'' d i f w = (err, d1, i1, f1, w1)" by (metis prod_cases5)
  note s = alsa_test_open_same [OF 1]
  show ?thesis
    using assms s 1 unfolding alsa_surround_def
    by (auto split: if_splits dest!: alsa_test_open_same intro: calls_only_trans alsa_same_trans)
qed


text \<open>Names and buffers are got and given back.\<close>

lemma alsa_select_held:
  assumes "alsa_select h d i f w = Some (r, d', i', f', v)"
  shows "held (blocks (alsa_dev i') - blocks (alsa_dev i)) w v \<and>
    alsa_same h d i f d' (i'\<lparr>alsa_dev := alsa_dev i\<rparr>) f'"
proof (cases "alsa_dev i")
  case (Some dev)
  with assms have t: "alsa_test_open h dev d i f w = (r, d', i', f', v)" by (simp add: alsa_select_def)
  from alsa_test_open_same [OF t] show ?thesis
    by (auto simp: alsa_same_def calls_only_held)
next
  case None
  show ?thesis
  proof (cases "alsa_id i < 0")
    case True
    obtain tmp err d1 i1 f1 w1 where 1: "alsa_surround h d i f w = (tmp, err, d1, i1, f1, w1)" by (metis prod_cases6)
    define t where "t = (if err \<noteq> 0 then None else tmp)"
    obtain err2 d2 i2 f2 w2 where 2: "(if t = None then alsa_test_open h ''default'' d1 i1 f1 w1 else (err, d1, i1, f1, w1)) =
        (err2, d2, i2, f2, w2)" by (metis prod_cases5)
    obtain s w3 where 3: "strdup (case t of None \<Rightarrow> ''default'' | Some t \<Rightarrow> t) w2 = (s, w3)" by fastforce
    have res: "r = err2" "d' = d2" "i' = i2\<lparr>alsa_dev := s\<rparr>" "f' = f2" "v = w3"
      using assms None True 1 2 3 by (simp_all add: alsa_select_def t_def [symmetric])
    have "calls_only w1 w2 \<and> alsa_same h d1 i1 f1 d2 i2 f2"
      using 2 alsa_test_open_same [of h "''default''" d1 i1 f1 w1] by (auto split: if_splits)
    then have "calls_only w w2" "alsa_same h d i f d2 i2 f2"
      using alsa_surround_same [OF 1] calls_only_trans alsa_same_trans by blast+
    with held_trans [OF calls_only_held held_strdup [OF 3]] res None show ?thesis
      by (auto simp: alsa_same_def)
  next
    case False
    obtain s w1 where 1: "strdup (''hw:'' @ decimal (alsa_id i)) w = (s, w1)" by fastforce
    with assms None False obtain dev where 2: "s = Some dev"
      "alsa_test_open h dev d (i\<lparr>alsa_dev := s\<rparr>) f w1 = (r, d', i', f', v)"
      by (auto simp: alsa_select_def split: Option.bind_splits)
    note t = alsa_test_open_same [OF 2(2)]
    have "held (blocks s + 0) w v" using held_trans [OF held_strdup [OF 1]] calls_only_held t by blast
    with t 2(1) None show ?thesis by (auto simp: alsa_same_def)
  qed
qed

lemma alsa_padding_held:
  assumes "alsa_padding h pre i f w = Some (i', f', v)"
  shows "held (blocks (alsa_padbuffer i')) w v \<and> alsa_dev i' = alsa_dev i \<and> (\<exists>b. f' = f\<lparr>fmt_bits := b\<rparr>)"
  using assms
  by (auto simp: alsa_padding_def Let_def held_def heap_step_def split: if_splits prod.splits Option.bind_splits
      dest!: malloc_ok_heap)

text \<open>Before \<open>open\<close> nothing is open and there is no buffer.\<close>

lemma alsa_prepared:
  "prepared (ao_alsa h :: (plugin_internal ao_internal, 'z posix_scheme) ao_functions) x \<Longrightarrow>
   \<exists>i. x = Some (Plugin_internal (Alsa_internal i)) \<and> alsa_padbuffer i = None \<and> alsa_pcm_handle i = 0 \<and>
     alsa_local_config i = 0"
proof (induction rule: prepared.induct)
  case (prepared_init d w d' w')
  then show ?case
    by (auto simp: ao_alsa_def ao_alsa_device_init_def split: prod.splits if_splits)
next
  case (prepared_option d k v w r d' w')
  then show ?case
    by (auto simp: ao_alsa_def ao_alsa_set_option_def plugin_state_iff split: prod.splits if_splits Option.bind_splits)
qed

lemma ao_alsa_init_law:
  assumes "ao_alsa_device_init h d w = Some (r, d', w')" and "internal d = None" and "output_matrix d = None"
  shows "books 0 plugin_blocks d w d' w' \<and> setup_frame d d'"
proof -
  obtain ok v where m: "malloc_ok w = (ok, v)" by (cases "malloc_ok w")
  obtain s u where t: "strdup ''L,R,BL,BR,C,LFE,SL,SR'' v = (s, u)" by fastforce
  show ?thesis
    using assms m t malloc_ok_heap [OF m] strdup_heap [OF t]
    by (cases ok; cases s)
       (auto simp: ao_alsa_device_init_def books_def ledger setup_frame_def core_frame_def heap_step_def)
qed

lemma ao_alsa_set_option_law:
  assumes "ao_alsa_set_option h d k v w = Some (r, d', w')"
  shows "books 0 plugin_blocks d w d' w' \<and> setup_frame d d'"
proof -
  obtain i where i: "alsa_state d = Some i"
    using assms by (auto simp: ao_alsa_set_option_def split: Option.bind_splits)
  have plain: "books 0 plugin_blocks d w (set_alsa j d) w"
    if "plugin_extra (Alsa_internal j) = plugin_extra (Alsa_internal i)" for j
    by (rule books_replace [where p = "Alsa_internal i"])
       (use i that in \<open>auto simp: plugin_state_iff held_def\<close>)
  consider (dev) "k = ''dev''" | (id) "k = ''id''" | (other) "k \<noteq> ''dev''" "k \<noteq> ''id''" by blast
  then show ?thesis
  proof cases
    case dev
    with assms i obtain x where x: "v = Some x" by (auto simp: ao_alsa_set_option_def split: Option.bind_splits)
    obtain s u where "strdup x (free_opt (alsa_dev i) w) = (s, u)" by fastforce
    with assms x dev i replaced_string [OF i [unfolded plugin_state_iff] this, of "Alsa_internal (i\<lparr>alsa_dev := s\<rparr>)"]
    show ?thesis by (auto simp: ao_alsa_set_option_def)
  next
    case id
    with assms i obtain n where n: "d' = set_alsa (i\<lparr>alsa_id := n, alsa_dev := None\<rparr>) d" "w' = free_opt (alsa_dev i) w"
      by (auto simp: ao_alsa_set_option_def split: Option.bind_splits)
    have "books 0 plugin_blocks d w d' w'"
      unfolding n by (rule books_replace [where p = "Alsa_internal i"])
        (use i free_opt_heap [of "alsa_dev i" w] in \<open>auto simp: plugin_state_iff held_def heap_step_def\<close>)
    with n show ?thesis by simp
  next
    case other
    with assms i plain show ?thesis
      by (auto simp: ao_alsa_set_option_def split: Option.bind_splits if_splits)
  qed
qed

lemma ao_alsa_open_law:
  assumes "ao_alsa_open h d format w = Some (r, d', sf', w')"
    and "alsa_state d = Some i" and "alsa_padbuffer i = None"
  shows "books 0 plugin_blocks d w d' w' \<and> core_frame d d' \<and> fmt_matrix sf' = fmt_matrix format"
proof (cases "alsa_get_sample_bitformat h (fmt_bits format) < 0")
  case True
  with assms show ?thesis by (simp add: ao_alsa_open_def)
next
  case False
  let ?d = "if fmt_bits format > 8 then d\<lparr>driver_byte_format := client_byte_format d\<rparr> else d"
  let ?i = "i\<lparr>alsa_bitformat := alsa_get_sample_bitformat h (fmt_bits format)\<rparr>"
  from assms(1,2) False obtain err d1 i1 f1 w1 where
    1: "alsa_select h ?d ?i format w = Some (err, d1, i1, f1, w1)"
    by (auto simp: ao_alsa_open_def simp del: if_split_asm split: Option.bind_splits)
  from alsa_select_held [OF 1] obtain b b' where s1: "held (blocks (alsa_dev i1) - blocks (alsa_dev i)) w w1"
    "alsa_padbuffer i1 = None" "d1 = ?d\<lparr>driver_byte_format := b\<rparr>" "f1 = format\<lparr>fmt_bits := b'\<rparr>"
    using assms(3) by (auto simp: alsa_same_def)
  have d1: "d1 = d\<lparr>driver_byte_format := b\<rparr>" using s1(3) by simp
  have bk: "books 0 plugin_blocks d w (set_alsa j d) v"
    if "held (blocks (alsa_dev j) + blocks (alsa_padbuffer j) - blocks (alsa_dev i)) w v" for j v
    by (rule books_replace [where p = "Alsa_internal i"]) (use assms(2,3) that in \<open>auto simp: plugin_state_iff\<close>)
  show ?thesis
  proof (cases "err < 0")
    case True
    then have "r = False" "d' = set_alsa i1 d1" "sf' = f1" "w' = w1"
      using assms(1,2) False 1 by (simp_all add: ao_alsa_open_def)
    then show ?thesis
      using bk [of i1 w1] s1 by (auto simp: d1 books_def ledger core_frame_def)
  next
    case False': False
    from assms(1,2) False 1 False' obtain i2 f2 w2 where 2: "alsa_padding h (fmt_bits format) i1 f1 w1 = Some (i2, f2, w2)"
      by (auto simp: ao_alsa_open_def split: Option.bind_splits)
    note s2 = alsa_padding_held [OF 2]
    obtain r3 w3 where 3: "ask (Alsa (Snd_pcm_delay (alsa_pcm_handle i2))) w2 = (r3, w3)" by fastforce
    from assms(1,2) False 1 False' 2 3 obtain j lost where
      res: "d' = (set_alsa j d1)\<lparr>inter_matrix := (if lost then None else inter_matrix d1)\<rparr>" "sf' = f2"
        "w' = (if lost then free_opt (inter_matrix d1) w3 else w3)"
        "alsa_dev j = alsa_dev i2" "alsa_padbuffer j = alsa_padbuffer i2"
      by (auto simp: ao_alsa_open_def Let_def split: Option.bind_splits)
    have "held (blocks (alsa_dev i1) - blocks (alsa_dev i) + blocks (alsa_padbuffer i2)) w w2"
      using held_trans [OF s1(1)] s2 by blast
    from held_trans [OF this calls_only_held [OF ask_calls [OF 3]]] have
      "books 0 plugin_blocks d w (set_alsa j d) w3"
      by (intro bk) (use s2 res(4,5) in \<open>simp add: algebra_simps\<close>)
    then show ?thesis
      using s2 s1(4) res free_opt_heap [of "inter_matrix d" w3]
      by (auto simp: d1 books_def ledger core_frame_def heap_step_def)
  qed
qed


lemma alsa_resume_calls: "alsa_resume pcm w = Some (r, v) \<Longrightarrow> calls_only w v"
proof (induction pcm w "(r, v)" rule: alsa_resume.raw_induct [rotated, consumes 1, case_names turn])
  case (turn loop pcm w)
  obtain e u where a: "ask_ret (Alsa (Snd_pcm_resume pcm)) w = (e, u)" by fastforce
  show ?case
  proof (cases "e = - EAGAIN")
    case True
    with turn(2) a have "loop pcm (snd (ask (Sleep 1) u)) = Some (r, v)" by simp
    from turn(1) [OF this] calls_only_after(1) [OF ask_ret_calls [OF a], of "Sleep 1"] show ?thesis
      using calls_only_trans by blast
  next
    case False
    with turn(2) a ask_ret_calls [OF a] show ?thesis by simp
  qed
qed

lemma alsa_error_recovery_calls: "alsa_error_recovery i err w = Some (r, v) \<Longrightarrow> calls_only w v"
  by (auto simp: alsa_error_recovery_def split: if_splits Option.bind_splits prod.splits
      dest!: alsa_resume_calls ask_ret_calls intro: calls_only_trans)

lemma alsa_playi_loop_calls: "alsa_playi_loop i s ptr len w = Some (r, v) \<Longrightarrow> calls_only w v"
proof (induction i s ptr len w "(r, v)" rule: alsa_playi_loop.raw_induct [rotated, consumes 1, case_names turn])
  case (turn loop i s ptr len w)
  show ?case
  proof (cases "len = 0")
    case True
    with turn(2) show ?thesis by simp
  next
    case False
    with turn(2) obtain bs where l: "load (unat len * nat s) ptr 0 = Some bs" "\<not> s < 0"
      by (auto split: Option.bind_splits if_splits)
    obtain ret u where a: "ask_ret (Alsa (Snd_pcm_writei (alsa_mmap i) (alsa_pcm_handle i) bs len)) w = (ret, u)"
      by fastforce
    note c = ask_ret_calls [OF a]
    let ?err = "int_of_long ret"
    consider "?err = - EAGAIN \<or> ?err = - EINTR" | "\<not> (?err = - EAGAIN \<or> ?err = - EINTR)" "?err < 0"
      | "\<not> (?err = - EAGAIN \<or> ?err = - EINTR)" "\<not> ?err < 0" by blast
    then show ?thesis
    proof cases
      case 1
      with turn(2) False l a have "loop i s ptr len u = Some (r, v)" by simp
      from calls_only_trans [OF c turn(1) [OF this]] show ?thesis .
    next
      case 2
      with turn(2) False l a obtain e x where x: "alsa_error_recovery i ?err u = Some (e, x)"
        "(if e < 0 then Some (False, x) else loop i s ptr len x) = Some (r, v)"
        by (auto split: Option.bind_splits)
      have "calls_only w x" using calls_only_trans [OF c alsa_error_recovery_calls [OF x(1)]] .
      with x(2) turn(1) show ?thesis by (auto split: if_splits intro: calls_only_trans)
    next
      case 3
      with turn(2) False l a have
        "loop i s (drop (nat ?err * nat s) ptr) (len - word_of_int ?err) u = Some (r, v)" by (simp add: Let_def)
      from calls_only_trans [OF c turn(1) [OF this]] show ?thesis .
    qed
  qed
qed

lemma alsa_playi_calls: "alsa_playi i bs n s w = Some (r, v) \<Longrightarrow> calls_only w v"
  by (auto simp: alsa_playi_def split: if_splits dest: alsa_playi_loop_calls)

lemma alsa_pad_loop_calls: "alsa_pad_loop i c ib pb bs n w = Some (r, pb', v) \<Longrightarrow> calls_only w v"
proof (induction i c ib pb bs n w "(r, pb', v)" rule: alsa_pad_loop.raw_induct [rotated, consumes 1, case_names turn])
  case (turn loop i c ib pb bs n w)
  show ?case
  proof (cases "n < word_of_int (alsa_sample_size i)")
    case True
    with turn(2) show ?thesis by simp
  next
    case False
    with turn(2) obtain m pb1 q fr ok u where p: "alsa_playi i pb1 m q w = Some (ok, u)"
      "(if \<not> ok then Some (False, pb1, u)
        else loop i c ib pb1 (drop (nat (fr * alsa_sample_size i)) bs) (n - word_of_int (fr * alsa_sample_size i)) u)
       = Some (r, pb', v)"
      by (auto simp: Let_def simp del: if_split_asm split: Option.bind_splits if_splits)
    note c = alsa_playi_calls [OF p(1)]
    show ?thesis
    proof (cases ok)
      case False
      with p(2) c show ?thesis by simp
    next
      case True
      with p(2) turn(1) c show ?thesis by (auto intro: calls_only_trans)
    qed
  qed
qed

lemma ao_alsa_play_law:
  assumes "ao_alsa_play d bs n w = Some (r, d', w')"
  shows "books 0 plugin_blocks d w d' w' \<and> d' = d\<lparr>internal := internal d'\<rparr>"
proof -
  from assms obtain i where i: "alsa_state d = Some i"
    by (auto simp: ao_alsa_play_def split: Option.bind_splits)
  show ?thesis
  proof (cases "alsa_padbuffer i")
    case None
    with assms i show ?thesis
      by (auto simp: ao_alsa_play_def calls_only_books split: Option.bind_splits dest!: alsa_playi_calls)
  next
    case (Some pb)
    with assms i obtain pb' where p: "calls_only w w'" "d' = set_alsa (i\<lparr>alsa_padbuffer := Some pb'\<rparr>) d"
      by (auto simp: ao_alsa_play_def split: Option.bind_splits if_splits dest!: alsa_pad_loop_calls)
    have "books 0 plugin_blocks d w d' w'"
      unfolding p(2) by (rule books_replace [where p = "Alsa_internal i"])
        (use i Some calls_only_held [OF p(1)] in \<open>auto simp: plugin_state_iff\<close>)
    with p(2) show ?thesis by simp
  qed
qed

lemma alsa_sleep_calls: "alsa_sleep s n w = Some v \<Longrightarrow> calls_only w v"
proof (induction s n w v rule: alsa_sleep.raw_induct [rotated, consumes 1, case_names turn])
  case (turn loop s n w v)
  obtain r u where a: "ask (Nanosleep s n) w = (r, u)" by fastforce
  show ?case
  proof (cases "rp_ret r < 0 \<and> rp_errno r = EINTR")
    case True
    with turn(2) a have "loop (rp_out r) (rp_aux r) u = Some v" by simp
    from calls_only_trans [OF ask_calls [OF a] turn(1) [OF this]] show ?thesis .
  next
    case False
    with turn(2) a ask_calls [OF a] show ?thesis by auto
  qed
qed

lemma alsa_wait_calls: "alsa_wait i w = Some v \<Longrightarrow> calls_only w v"
proof -
  assume a: "alsa_wait i w = Some v"
  obtain r u where u: "ask (Alsa (Snd_pcm_delay (alsa_pcm_handle i))) w = (r, u)" by fastforce
  have "calls_only u v"
    using a u by (auto simp: alsa_wait_def split: if_splits alsa_rest.splits dest: alsa_sleep_calls)
  with ask_calls [OF u] calls_only_trans show "calls_only w v" by blast
qed

lemma ao_alsa_close_law:
  assumes "ao_alsa_close d w = Some (r, d', w')"
  shows "books 0 plugin_blocks d w d' w' \<and> core_frame d d'"
proof (cases "internal d = None")
  case True
  with assms show ?thesis by (simp add: ao_alsa_close_def)
next
  case False
  with assms obtain i where i: "alsa_state d = Some i"
    by (auto simp: ao_alsa_close_def split: Option.bind_splits if_splits)
  show ?thesis
  proof (cases "alsa_pcm_handle i = 0")
    case True
    with assms i False show ?thesis by (simp add: ao_alsa_close_def)
  next
    case open': False
    with assms i False obtain u where u: "alsa_wait i w = Some u"
      by (auto simp: ao_alsa_close_def split: Option.bind_splits)
    obtain j x where j: "alsa_give_up i u = (j, x)" by fastforce
    have res: "d' = set_alsa j d" "w' = x"
      using assms i False open' u j by (simp_all add: ao_alsa_close_def)
    have "calls_only w w'" using calls_only_trans [OF alsa_wait_calls [OF u]] alsa_give_up_calls(2) [OF j] res(2) by blast
    then have "books 0 plugin_blocks d w d' w'"
      unfolding res(1)
      by (intro books_replace [where p = "Alsa_internal i"])
         (use i calls_only_held alsa_give_up_calls(2) [OF j] in \<open>auto simp: plugin_state_iff\<close>)
    then show ?thesis using res(1) by simp
  qed
qed

interpretation alsa: ao_driver "ao_alsa h" plugin_blocks for h
proof
  fix d d' :: live_device and w w' :: "'a posix_scheme" and r
  show "fn_device_init (ao_alsa h) d w = Some (r, d', w') \<Longrightarrow> internal d = None \<Longrightarrow>
      output_matrix d = None \<Longrightarrow> books 0 plugin_blocks d w d' w' \<and> setup_frame d d'"
    using ao_alsa_init_law by (simp add: ao_alsa_def)
  show "fn_set_option (ao_alsa h) d k v w = Some (r, d', w') \<Longrightarrow>
      books 0 plugin_blocks d w d' w' \<and> setup_frame d d'" for k v
    using ao_alsa_set_option_law by (simp add: ao_alsa_def)
  show "prepared (ao_alsa h :: (plugin_internal ao_internal, 'a posix_scheme) ao_functions) (internal d) \<Longrightarrow>
      fn_open (ao_alsa h) d sf w = Some (r, d', sf', w') \<Longrightarrow>
      books 0 plugin_blocks d w d' w' \<and> core_frame d d' \<and> fmt_matrix sf' = fmt_matrix sf" for sf sf'
    using alsa_prepared [of h "internal d"] ao_alsa_open_law [of h d sf w r d' sf' w']
    by (auto simp: ao_alsa_def plugin_state_iff)
  show "fn_play (ao_alsa h) d bs n w = Some (r, d', w') \<Longrightarrow>
      books 0 plugin_blocks d w d' w' \<and> d' = d\<lparr>internal := internal d'\<rparr>" for bs n
    using ao_alsa_play_law by (simp add: ao_alsa_def)
  show "fn_close (ao_alsa h) d w = Some (r, d', w') \<Longrightarrow> books 0 plugin_blocks d w d' w' \<and> core_frame d d'"
    using ao_alsa_close_law by (simp add: ao_alsa_def)
  show "fn_device_clear (ao_alsa h) d w = Some (d', w') \<Longrightarrow>
      books 0 plugin_blocks d w d' w' \<and> core_frame d d' \<and> internal d' = None"
    by (auto simp: ao_alsa_def ao_alsa_device_clear_def books_def ledger plugin_state_iff
        split: Option.bind_splits if_splits)
qed

end
