(* ===== verification/AO_Macosx.thy ===== *)
theory AO_Macosx
  imports AO_Posix AO_Double "HOL-Library.Signed_Division"
begin

text \<open>
  The CoreAudio driver, \<^verbatim>\<open>src/plugins/macosx/ao_macosx.c\<close>.  \<open>play\<close> puts samples into a ring
  buffer and a callback on a thread of CoreAudio takes them out; both hold the mutex while they
  do.  The callback has no effect but under the mutex, and the driver looks at what it shares with
  the callback only there, so a call of the callback is placed where the driver next gets the
  mutex: the answers to \<open>Mac_mutex_lock\<close> and \<open>Mac_cond_wait\<close> tell which calls came in meanwhile.
  What the callback hands to CoreAudio is the call \<open>Mac_rendered\<close>.
\<close>

text \<open>Constants of the headers of CoreAudio.\<close>

record mac_header =
  kAudioObjectUnknown :: "32 word"
  kAudioFormatFlagIsFloat :: "32 word"
  kAudioFormatFlagIsBigEndian :: "32 word"
  kAudioFormatFlagIsSignedInteger :: "32 word"
  kAudioFormatFlagIsPacked :: "32 word"
  kAudioFormatFlagsNativeEndian :: "32 word"

unbundle bit_operations_syntax

section \<open>The callback\<close>

text \<open>
  What is under the mutex: the buffer handed back, the flag for silence, and the ring.  Reading
  outside of the ring is a fault, and so is a remainder by 0.
\<close>

definition mac_render :: "32 word \<Rightarrow> ao_macosx_internal \<Rightarrow> (byte list \<times> bool \<times> ao_macosx_internal) option" where
  "mac_render outBufSize i =
     (let validByteCount = mac_valid_count i; first = mac_first_valid i; size = mac_buffer_byte_count i
      in if validByteCount < outBufSize \<and> \<not> mac_is_stopping i
         then Some (replicate (unat outBufSize) 0, True, i)
         else
           let bytesToCopy = min outBufSize validByteCount;
               firstFrag = (if first + bytesToCopy > size then size - first else bytesToCopy)
           in do {
             buffer \<leftarrow> mac_buffer i;
             out \<leftarrow> (if firstFrag < bytesToCopy then do {
                       a \<leftarrow> load (unat firstFrag) buffer (int (unat first));
                       b \<leftarrow> load (unat (bytesToCopy - firstFrag)) buffer 0;
                       Some (a @ b) }
                     else load (unat bytesToCopy) buffer (int (unat first)));
             (if size = 0 then None
              else Some (out @ replicate (unat (outBufSize - bytesToCopy)) 0, False,
                i\<lparr>mac_valid_count := validByteCount - bytesToCopy,
                  mac_first_valid := (first + bytesToCopy) mod size\<rparr>)) })"

fun audioCallback ::
  "render_request \<Rightarrow> ao_macosx_internal \<Rightarrow> 'z posix_scheme \<Rightarrow> (ao_macosx_internal \<times> 'z posix_scheme) option" where
  "audioCallback Render_null i w = Some (i, w)"
| "audioCallback (Render mNumberBuffers mDataByteSize) i w =
     (if mNumberBuffers \<noteq> 1 then Some (i, w)
      else do {
        (out, silence, i) \<leftarrow> mac_render mDataByteSize i;
        Some (i, snd (ask (Mac (Mac_rendered out silence)) w)) })"

fun mac_callbacks ::
  "render_request list \<Rightarrow> ao_macosx_internal \<Rightarrow> 'z posix_scheme \<Rightarrow> (ao_macosx_internal \<times> 'z posix_scheme) option" where
  "mac_callbacks [] i w = Some (i, w)"
| "mac_callbacks (r # rs) i w = do { (i, w) \<leftarrow> audioCallback r i w; mac_callbacks rs i w }"

text \<open>\<open>pthread_mutex_lock\<close> and \<open>pthread_cond_wait\<close>.\<close>

definition mac_lock :: "ao_macosx_internal \<Rightarrow> 'z posix_scheme \<Rightarrow> (ao_macosx_internal \<times> 'z posix_scheme) option" where
  "mac_lock i w = (case ask (Mac Mac_mutex_lock) w of (r, w) \<Rightarrow> mac_callbacks (rp_renders r) i w)"

definition mac_cond_wait :: "ao_macosx_internal \<Rightarrow> 'z posix_scheme \<Rightarrow> (ao_macosx_internal \<times> 'z posix_scheme) option" where
  "mac_cond_wait i w = (case ask (Mac Mac_cond_wait) w of (r, w) \<Rightarrow> mac_callbacks (rp_renders r) i w)"

section \<open>Finding a device\<close>

definition ao_macosx_info :: ao_info where
  "ao_macosx_info =
     \<lparr>info_type = AO_TYPE_LIVE, info_name = ''MacOS X AUHAL output'', short_name = ''macosx'',
      author = ''Monty <monty@xiph.org>'', info_comment = '''', preferred_byte_format = AO_FMT_NATIVE,
      priority = 30, info_options = [''matrix'', ''verbose'', ''quiet'', ''debug'', ''buffer_time'', ''dev''],
      option_count = 6\<rparr>"

definition DEFAULT_BUFFER_TIME :: "32 word" where
  "DEFAULT_BUFFER_TIME = 250"

definition ao_macosx_test :: "'z posix_scheme \<Rightarrow> (bool \<times> 'z posix_scheme) option" where
  "ao_macosx_test w = Some (True, w)"

definition ao_macosx_device_init ::
  "live_device \<Rightarrow> 'z posix_scheme \<Rightarrow> (bool \<times> live_device \<times> 'z posix_scheme) option" where
  "ao_macosx_device_init d w = (case malloc_ok w of (ok, w) \<Rightarrow>
     if \<not> ok then Some (False, d, w)
     else (case strdup ''L,R,C,LFE,BL,BR,CL,CR,BC,SL,SR'' w of (m, w) \<Rightarrow>
       Some (True, (set_macosx
           \<lparr>mac_output_device = 0, mac_unit = 0, mac_output_p = False, mac_started = False,
            mac_is_stopping = False, mac_buffer = None, mac_buffer_byte_count = 0, mac_first_valid = 0,
            mac_valid_count = 0, mac_buffer_time = DEFAULT_BUFFER_TIME\<rparr> d)
         \<lparr>output_matrix_order := AO_OUTPUT_MATRIX_COLLAPSIBLE, output_matrix := m\<rparr>, w)))"

definition lowercasestr :: "string \<Rightarrow> string" where
  "lowercasestr = map to_lower"

text \<open>\<open>strstr(s, t)\<close> finds something.\<close>

definition has_substring :: "string \<Rightarrow> string \<Rightarrow> bool" where
  "has_substring s t \<longleftrightarrow> list_ex (\<lambda>k. take (length t) (drop k s) = t) [0..<Suc (length s)]"

text \<open>
  A string of Core Foundation is known by its reference, \<open>rp_out\<close>, 0 for NULL, and its characters;
  \<open>rp_aux\<close> is not 0 when they cannot be converted.
\<close>

definition cfstringdupe :: "reply \<Rightarrow> 'z posix_scheme \<Rightarrow> string option \<times> 'z posix_scheme" where
  "cfstringdupe r w =
     (if rp_out r = 0 then (None, w)
      else (case malloc_ok w of (ok, w) \<Rightarrow>
        if \<not> ok then (None, w)
        else if rp_aux r \<noteq> 0 then (None, free_block w)
        else (Some (rp_text r), w)))"

definition isAudioOutputDevice :: "mac_header \<Rightarrow> 32 word \<Rightarrow> 'z posix_scheme \<Rightarrow> bool \<times> 'z posix_scheme" where
  "isAudioOutputDevice h aid w =
     (if aid = kAudioObjectUnknown h then (False, w)
      else (case ask (Mac (Mac_can_be_default aid)) w of (r, w) \<Rightarrow> (rp_ret r = 0 \<and> rp_out r \<noteq> 0, w)))"

text \<open>What a device is to the name asked for.\<close>

datatype mac_verdict = Mac_other | Mac_partial | Mac_exact

definition mac_source :: "32 word \<Rightarrow> 'z posix_scheme \<Rightarrow> string option \<times> 'z posix_scheme" where
  "mac_source aid w =
     (case ask (Mac (Mac_source_id aid)) w of (r, w) \<Rightarrow>
        if rp_ret r \<noteq> 0 then (None, w)
        else (case ask (Mac (Mac_source_name aid (rp_out r))) w of (r, w) \<Rightarrow>
          if rp_ret r \<noteq> 0 \<or> rp_out r = 0 then (None, w)
          else (case cfstringdupe r w of (s, w) \<Rightarrow>
            (map_option lowercasestr s, snd (ask (Mac (Mac_release (rp_out r))) w)))))"

definition mac_verdict_of :: "mac_header \<Rightarrow> string \<Rightarrow> 32 word \<Rightarrow> 'z posix_scheme \<Rightarrow> mac_verdict \<times> 'z posix_scheme" where
  "mac_verdict_of h lcname aid w =
     (case isAudioOutputDevice h aid w of (ok, w) \<Rightarrow>
        if \<not> ok then (Mac_other, w)
        else (case ask (Mac (Mac_device_name aid)) w of (r, w) \<Rightarrow>
          if rp_ret r \<noteq> 0 \<or> rp_out r = 0 then (Mac_other, w)
          else (case cfstringdupe r w of (s, w) \<Rightarrow>
            let w = snd (ask (Mac (Mac_release (rp_out r))) w) in
            case s of
              None \<Rightarrow> (Mac_other, w)
            | Some s \<Rightarrow>
                let devname = lowercasestr s in
                if lcname = devname then (Mac_exact, free_block w)
                else (case mac_source aid w of (srcname, w) \<Rightarrow>
                  let w = free_opt srcname (free_block w) in
                  if srcname = Some lcname then (Mac_exact, w)
                  else if has_substring devname lcname \<or> (\<exists>s \<in> set_option srcname. has_substring s lcname)
                  then (Mac_partial, w)
                  else (Mac_other, w)))))"

fun mac_search ::
  "mac_header \<Rightarrow> string \<Rightarrow> 32 word list \<Rightarrow> nat \<Rightarrow> nat \<Rightarrow> nat \<Rightarrow> 'z posix_scheme \<Rightarrow> nat \<times> nat \<times> 'z posix_scheme" where
  "mac_search h lcname [] i match matches w = (match, matches, w)"
| "mac_search h lcname (aid # devices) i match matches w =
     (case mac_verdict_of h lcname aid w of (v, w) \<Rightarrow>
        case v of
          Mac_exact \<Rightarrow> (i, 1, w)
        | Mac_partial \<Rightarrow> mac_search h lcname devices (Suc i) i (Suc matches) w
        | Mac_other \<Rightarrow> mac_search h lcname devices (Suc i) match matches w)"

text \<open>
  The first of the two calls that read the list of devices gets a pointer and a size that are not
  set: the answer tells, by \<open>rp_aux\<close>, whether CoreAudio wrote through it, a fault.  The second gets a buffer
  with the size that the first left; \<open>rp_out\<close> is the size of the list and \<open>rp_ids\<close> what is in it,
  and what it did not write may not be read.
\<close>

definition findAudioOutputDevice ::
  "mac_header \<Rightarrow> string \<Rightarrow> 'z posix_scheme \<Rightarrow> (32 word \<times> 'z posix_scheme) option" where
  "findAudioOutputDevice h name w =
     (let unknown = kAudioObjectUnknown h; (namestr, w) = ask_ret (Mac (Mac_string name)) w
      in if namestr = 0 then Some (unknown, w)
         else
           let (r, w) = ask (Mac (Mac_device_for_uid namestr)) w;
               w = snd (ask (Mac (Mac_release namestr)) w);
               aid = word_of_int (rp_out r)
           in if rp_ret r = 0 \<and> aid \<noteq> unknown
              then (case isAudioOutputDevice h aid w of (ok, w) \<Rightarrow> Some (if ok then aid else unknown, w))
              else (case strdup name w of
                  (None, w) \<Rightarrow> Some (unknown, w)
                | (Some s, w) \<Rightarrow>
                    let lcname = lowercasestr s; (r, w) = ask (Mac (Mac_devices False)) w
                    in if rp_aux r \<noteq> 0 then None
                       else if rp_ret r \<noteq> 0 then Some (unknown, free_block w)
                       else (case malloc_ok w of (ok, w) \<Rightarrow>
                         if \<not> ok then Some (unknown, free_block w)
                         else
                           let (r, w) = ask (Mac (Mac_devices True)) w
                           in if rp_ret r \<noteq> 0 then Some (unknown, free_block (free_block w))
                              else
                                let count = unat (word_of_int (rp_out r) :: 32 word) div 4
                                in if length (rp_ids r) < count then None
                                   else
                                     let devices = map word_of_int (take count (rp_ids r));
                                         (match, matches, w) = mac_search h lcname devices 0 0 0 w
                                     in Some (if matches = 1 then devices ! match else unknown,
                                              free_block (free_block w)))))"

definition ao_macosx_set_option ::
  "mac_header \<Rightarrow> live_device \<Rightarrow> string \<Rightarrow> string option \<Rightarrow> 'z posix_scheme
    \<Rightarrow> (bool \<times> live_device \<times> 'z posix_scheme) option" where
  "ao_macosx_set_option h d k v w = do {
     i \<leftarrow> macosx_state d;
     (if k = ''buffer_time'' then do {
        v \<leftarrow> v;
        buffer \<leftarrow> atoi v;
        let buffer = (if buffer < 100 then 100 else buffer);
        Some (True, set_macosx (i\<lparr>mac_buffer_time := word_of_int buffer\<rparr>) d, w) }
      else if k = ''dev'' then
        (if v = None \<or> v = Some ''''
         then Some (True, set_macosx (i\<lparr>mac_output_device := kAudioObjectUnknown h\<rparr>) d, w)
         else do {
           (aid, w) \<leftarrow> findAudioOutputDevice h (the v) w;
           Some (aid \<noteq> kAudioObjectUnknown h, set_macosx (i\<lparr>mac_output_device := aid\<rparr>) d, w) })
      else Some (True, d, w)) }"


section \<open>Opening\<close>

text \<open>What is asked for, and whether what CoreAudio made of it is refused.\<close>

definition mac_wants_big :: "ao_sample_format \<Rightarrow> 'z posix_scheme \<Rightarrow> bool" where
  "mac_wants_big format w \<longleftrightarrow> fmt_byte_format format = AO_FMT_BIG \<or>
     fmt_byte_format format = AO_FMT_NATIVE \<and> ao_is_big_endian w"

definition mac_requested :: "mac_header \<Rightarrow> live_device \<Rightarrow> ao_sample_format \<Rightarrow> 'z posix_scheme \<Rightarrow> mac_format" where
  "mac_requested h d format w =
     (let bits = word_of_int (fmt_bits format); channels = word_of_int (output_channels d);
          frame = bits * channels div 8
      in \<lparr>mac_rate = of_int (fmt_rate format),
          mac_flags = kAudioFormatFlagIsPacked h
            OR (if mac_wants_big format w then kAudioFormatFlagIsBigEndian h else 0)
            OR (if fmt_bits format > 8 then kAudioFormatFlagIsSignedInteger h else 0),
          mac_bytes_per_packet = frame * 1, mac_frames_per_packet = 1, mac_bytes_per_frame = frame,
          mac_channels_per_frame = channels, mac_bits_per_channel = bits\<rparr>)"

definition mac_refused :: "mac_header \<Rightarrow> live_device \<Rightarrow> ao_sample_format \<Rightarrow> 32 word \<Rightarrow> mac_format \<Rightarrow> bool" where
  "mac_refused h d format requestedEndian got \<longleftrightarrow>
     \<bar>double_round (mac_rate got - of_int (fmt_rate format))\<bar>
       > double_round (of_int (fmt_rate format) * double_round (5 / 100)) \<or>
     mac_channels_per_frame got \<noteq> word_of_int (output_channels d) \<or>
     mac_bits_per_channel got \<noteq> word_of_int (fmt_bits format) \<or>
     mac_flags got AND kAudioFormatFlagIsFloat h \<noteq> 0 \<or>
     mac_flags got AND kAudioFormatFlagsNativeEndian h \<noteq> requestedEndian \<or>
     (fmt_bits format > 8 \<longleftrightarrow> mac_flags got AND kAudioFormatFlagIsSignedInteger h = 0)"

text \<open>The unit, on the device asked for; it is disposed of when that cannot be set.\<close>

definition mac_new_unit ::
  "mac_header \<Rightarrow> ao_macosx_internal \<Rightarrow> 'z posix_scheme \<Rightarrow> bool \<times> ao_macosx_internal \<times> 'z posix_scheme" where
  "mac_new_unit h i w =
     (let (comp, w) = ask_ret (Mac Mac_component_find_next) w
      in if comp = 0 then (False, i, w)
         else
           let (r, w) = ask (Mac (Mac_instance_new comp)) w;
               i = i\<lparr>mac_unit := left_in (mac_unit i) r\<rparr>
           in if rp_ret r \<noteq> 0 then (False, i, w)
              else if mac_output_device i = kAudioObjectUnknown h then (True, i\<lparr>mac_output_p := True\<rparr>, w)
              else
                let (r, w) = ask_ret (Mac (Mac_set_device (mac_unit i) (mac_output_device i))) w
                in if r \<noteq> 0 then (False, i, snd (ask (Mac (Mac_instance_dispose (mac_unit i))) w))
                   else (True, i\<lparr>mac_output_p := True\<rparr>, w))"

text \<open>The calls that set the unit up: whether it can be used.\<close>

definition mac_setup ::
  "mac_header \<Rightarrow> live_device \<Rightarrow> ao_sample_format \<Rightarrow> int \<Rightarrow> 'z posix_scheme \<Rightarrow> bool \<times> 'z posix_scheme" where
  "mac_setup h d format unit w =
     (let requested = mac_requested h d format w;
          requestedEndian = mac_flags requested AND kAudioFormatFlagIsBigEndian h;
          (r, w) = ask_ret (Mac (Mac_set_stream_format unit requested)) w
      in if r \<noteq> 0 then (False, w)
         else
           let (r, w) = ask (Mac (Mac_get_stream_format unit)) w
           in if rp_ret r \<noteq> 0 \<or> mac_refused h d format requestedEndian (rp_format r) then (False, w)
              else
                let w = (if output_mask d \<noteq> 0 then snd (ask (Mac (Mac_set_channel_layout unit (output_mask d))) w) else w);
                    (r, w) = ask_ret (Mac (Mac_set_render_callback unit)) w
                in if r \<noteq> 0 then (False, w)
                   else
                     let (r, w) = ask_ret (Mac (Mac_initialize unit)) w
                     in (r = 0, w))"

text \<open>The bytes of the ring, in the unsigned arithmetic of the code.\<close>

definition mac_ring_bytes :: "32 word \<Rightarrow> int \<Rightarrow> int \<Rightarrow> int \<Rightarrow> 32 word option" where
  "mac_ring_bytes buffer_time rate channels bits = do {
     n \<leftarrow> c_int (channels * bits);
     Some (buffer_time * word_of_int rate div 1000 * word_of_int (n sdiv 8)) }"

definition ao_macosx_open ::
  "mac_header \<Rightarrow> live_device \<Rightarrow> ao_sample_format \<Rightarrow> 'z posix_scheme
    \<Rightarrow> (bool \<times> live_device \<times> ao_sample_format \<times> 'z posix_scheme) option" where
  "ao_macosx_open h d format w = do {
     i \<leftarrow> macosx_state d;
     let (ok, i, w) = mac_new_unit h i w;
     (if \<not> ok then Some (False, set_macosx i d, format, w)
      else
        let d = d\<lparr>driver_byte_format := fmt_byte_format format\<rparr>;
            (ok, w) = mac_setup h d format (mac_unit i) w
        in if \<not> ok then Some (False, set_macosx i d, format, w)
           else do {
             n \<leftarrow> mac_ring_bytes (mac_buffer_time i) (fmt_rate format) (output_channels d) (fmt_bits format);
             (case malloc_ok w of (ok, w) \<Rightarrow>
               Some (ok, set_macosx (i\<lparr>mac_buffer_byte_count := n, mac_first_valid := 0, mac_valid_count := 0,
                   mac_buffer := (if ok then Some (replicate (unat n) 0) else None)\<rparr>) d, format, w)) }) }"

section \<open>Playing\<close>

definition mac_start :: "ao_macosx_internal \<Rightarrow> 'z posix_scheme \<Rightarrow> bool \<times> ao_macosx_internal \<times> 'z posix_scheme" where
  "mac_start i w =
     (case ask_ret (Mac (Mac_start (mac_unit i))) w of (err, w) \<Rightarrow>
        if err \<noteq> 0 then (False, i, w) else (True, i\<lparr>mac_started := True\<rparr>, w))"

text \<open>Waiting for room; a unit that cannot be started ends it.\<close>

partial_function (option) mac_await ::
  "ao_macosx_internal \<Rightarrow> 'z posix_scheme \<Rightarrow> (bool \<times> ao_macosx_internal \<times> 'z posix_scheme) option" where
  "mac_await i w =
     (if mac_buffer_byte_count i - mac_valid_count i \<noteq> 0 then Some (True, i, w)
      else
        (case (if mac_started i then (True, i, w) else mac_start i w) of (ok, i, w) \<Rightarrow>
           if \<not> ok then Some (False, i, w)
           else Option.bind (mac_cond_wait i w) (\<lambda>(i, w). mac_await i w)))"

declare mac_await.simps [code]

text \<open>The bytes that go in before the end of the buffer or of the room.\<close>

definition mac_copy ::
  "byte list \<Rightarrow> 32 word \<Rightarrow> ao_macosx_internal \<Rightarrow> (32 word \<times> ao_macosx_internal) option" where
  "mac_copy output_samples num_bytes i =
     (let size = mac_buffer_byte_count i; emptyByteCount = size - mac_valid_count i
      in if size = 0 then None
         else
           let firstEmpty = (mac_first_valid i + mac_valid_count i) mod size;
               bytesToCopy = (if firstEmpty + emptyByteCount > size then min num_bytes (size - firstEmpty)
                 else min num_bytes emptyByteCount)
           in do {
             bs \<leftarrow> load (unat bytesToCopy) output_samples 0;
             buffer \<leftarrow> mac_buffer i;
             buffer \<leftarrow> store buffer (int (unat firstEmpty)) bs;
             Some (bytesToCopy, i\<lparr>mac_buffer := Some buffer, mac_valid_count := mac_valid_count i + bytesToCopy\<rparr>) })"

partial_function (option) mac_play_loop ::
  "byte list \<Rightarrow> 32 word \<Rightarrow> ao_macosx_internal \<Rightarrow> 'z posix_scheme
    \<Rightarrow> (bool \<times> ao_macosx_internal \<times> 'z posix_scheme) option" where
  "mac_play_loop output_samples num_bytes i w =
     (if num_bytes = 0 then Some (True, i, w)
      else
        Option.bind (mac_lock i w) (\<lambda>(i, w).
        Option.bind (mac_await i w) (\<lambda>(ok, i, w).
          if \<not> ok then Some (False, i, w)
          else Option.bind (mac_copy output_samples num_bytes i) (\<lambda>(n, i).
            mac_play_loop (drop (unat n) output_samples) (num_bytes - n) i w))))"

declare mac_play_loop.simps [code]

definition ao_macosx_play ::
  "live_device \<Rightarrow> byte list \<Rightarrow> 32 word \<Rightarrow> 'z posix_scheme
    \<Rightarrow> (bool \<times> live_device \<times> 'z posix_scheme) option" where
  "ao_macosx_play d output_samples num_bytes w = do {
     i \<leftarrow> macosx_state d;
     (r, i, w) \<leftarrow> mac_play_loop output_samples num_bytes i w;
     Some (r, set_macosx i d, w) }"

section \<open>Closing\<close>

text \<open>\<open>while (internal->validByteCount) pthread_cond_wait(&cond, &mutex);\<close>\<close>

partial_function (option) mac_flush ::
  "ao_macosx_internal \<Rightarrow> 'z posix_scheme \<Rightarrow> (ao_macosx_internal \<times> 'z posix_scheme) option" where
  "mac_flush i w =
     (if mac_valid_count i = 0 then Some (i, w)
      else Option.bind (mac_cond_wait i w) (\<lambda>(i, w). mac_flush i w))"

declare mac_flush.simps [code]

text \<open>The unit is stopped and disposed of, once everything is played.\<close>

definition mac_finish ::
  "ao_macosx_internal \<Rightarrow> 'z posix_scheme \<Rightarrow> (bool \<times> ao_macosx_internal \<times> 'z posix_scheme) option" where
  "mac_finish i w = do {
     (i, w) \<leftarrow> mac_flush i w;
     (case ask_ret (Mac (Mac_stop (mac_unit i))) w of (status, w) \<Rightarrow>
        if status \<noteq> 0 then Some (False, i, w)
        else (case ask_ret (Mac (Mac_instance_dispose (mac_unit i))) w of (status, w) \<Rightarrow>
          Some (status = 0, i, w))) }"

text \<open>The result of asking whether the unit runs is not looked at; \<open>rp_out\<close> is what \<open>running\<close> holds then.\<close>

definition mac_close_output ::
  "ao_macosx_internal \<Rightarrow> 'z posix_scheme \<Rightarrow> (bool \<times> ao_macosx_internal \<times> 'z posix_scheme) option" where
  "mac_close_output i w =
     (let i = i\<lparr>mac_output_p := False, mac_is_stopping := True\<rparr>
      in case (if \<not> mac_started i \<and> mac_valid_count i \<noteq> 0 then mac_start i w else (True, i, w)) of (ok, i, w) \<Rightarrow>
         if \<not> ok then Some (False, i, w)
         else (case ask (Mac (Mac_is_running (mac_unit i))) w of (r, w) \<Rightarrow>
           if rp_out r = 0 then Some (True, i, w)
           else if mac_started i then mac_finish i w
           else Some (True, i, w)))"

definition ao_macosx_close ::
  "live_device \<Rightarrow> 'z posix_scheme \<Rightarrow> (bool \<times> live_device \<times> 'z posix_scheme) option" where
  "ao_macosx_close d w = do {
     i \<leftarrow> macosx_state d;
     (i, w) \<leftarrow> mac_lock i w;
     (r, i, w) \<leftarrow> (if mac_output_p i then mac_close_output i w else Some (True, i, w));
     Some (r, set_macosx i d, w) }"

definition ao_macosx_device_clear ::
  "live_device \<Rightarrow> 'z posix_scheme \<Rightarrow> (live_device \<times> 'z posix_scheme) option" where
  "ao_macosx_device_clear d w = do {
     i \<leftarrow> macosx_state d;
     Some (d\<lparr>internal := None\<rparr>, free_block (free_opt (mac_buffer i) w)) }"

definition ao_macosx :: "mac_header \<Rightarrow> (plugin_internal ao_internal, 'z posix_scheme) ao_functions" where
  "ao_macosx h =
     \<lparr>fn_test = ao_macosx_test, fn_driver_info = ao_macosx_info, fn_device_init = ao_macosx_device_init,
      fn_set_option = ao_macosx_set_option h, fn_open = ao_macosx_open h, fn_play = ao_macosx_play,
      fn_close = ao_macosx_close, fn_device_clear = ao_macosx_device_clear, fn_file_extension = None\<rparr>"


section \<open>The ledger\<close>

text \<open>The callback only takes out of the ring: nothing else of the structure changes.\<close>

definition mac_taken :: "ao_macosx_internal \<Rightarrow> ao_macosx_internal \<Rightarrow> bool" where
  "mac_taken i i' \<longleftrightarrow> i' = i\<lparr>mac_valid_count := mac_valid_count i', mac_first_valid := mac_first_valid i'\<rparr>"

lemma mac_taken_refl [simp]: "mac_taken i i"
  by (simp add: mac_taken_def)

lemma mac_taken_trans: "mac_taken i j \<Longrightarrow> mac_taken j k \<Longrightarrow> mac_taken i k"
  unfolding mac_taken_def by (metis (no_types, lifting) ao_macosx_internal.update_convs(8,9) ao_macosx_internal.surjective)

lemma mac_taken_sel:
  assumes "mac_taken i i'"
  shows "mac_buffer i' = mac_buffer i" "mac_buffer_byte_count i' = mac_buffer_byte_count i" "mac_unit i' = mac_unit i"
    "mac_started i' = mac_started i" "mac_is_stopping i' = mac_is_stopping i" "mac_output_p i' = mac_output_p i"
  by (subst assms [unfolded mac_taken_def], simp)+

lemma mac_render_taken: "mac_render n i = Some (out, silent, i') \<Longrightarrow> mac_taken i i'"
  by (auto simp: mac_render_def Let_def mac_taken_def split: if_splits Option.bind_splits)

lemma audioCallback_calls: "audioCallback r i w = Some (i', v) \<Longrightarrow> calls_only w v \<and> mac_taken i i'"
  by (cases r) (auto split: if_splits Option.bind_splits dest: mac_render_taken)

lemma mac_callbacks_calls: "mac_callbacks rs i w = Some (i', v) \<Longrightarrow> calls_only w v \<and> mac_taken i i'"
proof (induction rs arbitrary: i w)
  case (Cons r rs)
  then obtain j u where "audioCallback r i w = Some (j, u)" "mac_callbacks rs j u = Some (i', v)"
    by (auto split: Option.bind_splits)
  with Cons.IH audioCallback_calls show ?case by (blast intro: calls_only_trans mac_taken_trans)
qed simp

lemma mac_lock_calls: "mac_lock i w = Some (i', v) \<Longrightarrow> calls_only w v \<and> mac_taken i i'"
  by (auto simp: mac_lock_def split: prod.splits dest!: ask_calls mac_callbacks_calls intro: calls_only_trans)

lemma mac_cond_wait_calls: "mac_cond_wait i w = Some (i', v) \<Longrightarrow> calls_only w v \<and> mac_taken i i'"
  by (auto simp: mac_cond_wait_def split: prod.splits dest!: ask_calls mac_callbacks_calls intro: calls_only_trans)

text \<open>The ring stays the block that it is.\<close>

lemma mac_start_calls: "mac_start i w = (ok, i', v) \<Longrightarrow> calls_only w v \<and> mac_buffer i' = mac_buffer i"
  by (auto simp: mac_start_def split: prod.splits if_splits dest: ask_ret_calls)

lemma mac_await_calls: "mac_await i w = Some (ok, i', v) \<Longrightarrow> calls_only w v \<and> mac_buffer i' = mac_buffer i"
proof (induction i w "(ok, i', v)" rule: mac_await.raw_induct [rotated, consumes 1, case_names turn])
  case (turn loop i w)
  show ?case
  proof (cases "mac_buffer_byte_count i - mac_valid_count i \<noteq> 0")
    case True
    with turn(2) show ?thesis by simp
  next
    case False
    obtain ok1 j u where j: "(if mac_started i then (True, i, w) else mac_start i w) = (ok1, j, u)" by (metis prod_cases3)
    then have c: "calls_only w u \<and> mac_buffer j = mac_buffer i"
      using mac_start_calls [of i w] by (auto split: if_splits)
    show ?thesis
    proof (cases ok1)
      case True
      with turn(2) False j obtain k x where k: "mac_cond_wait j u = Some (k, x)" "loop k x = Some (ok, i', v)"
        by (auto split: Option.bind_splits)
      have "calls_only u x \<and> mac_buffer k = mac_buffer j" using mac_cond_wait_calls [OF k(1)] mac_taken_sel(1) by blast
      with c turn(1) [OF k(2)] show ?thesis using calls_only_trans by metis
    qed (use turn(2) False j c in simp)
  qed
qed

lemma mac_copy_keeps: "mac_copy bs n i = Some (b, i') \<Longrightarrow> blocks (mac_buffer i') = blocks (mac_buffer i)"
  by (auto simp: mac_copy_def Let_def split: if_splits Option.bind_splits)

lemma mac_play_loop_calls:
  "mac_play_loop bs n i w = Some (r, i', v) \<Longrightarrow> calls_only w v \<and> blocks (mac_buffer i') = blocks (mac_buffer i)"
proof (induction bs n i w "(r, i', v)" rule: mac_play_loop.raw_induct [rotated, consumes 1, case_names turn])
  case (turn loop bs n i w)
  show ?case
  proof (cases "n = 0")
    case True
    with turn(2) show ?thesis by simp
  next
    case False
    with turn(2) obtain j u ok k x where j: "mac_lock i w = Some (j, u)" "mac_await j u = Some (ok, k, x)"
      by (auto split: Option.bind_splits)
    have c: "calls_only w x \<and> mac_buffer k = mac_buffer i"
      using mac_lock_calls [OF j(1)] mac_await_calls [OF j(2)] mac_taken_sel(1) calls_only_trans by metis
    show ?thesis
    proof (cases ok)
      case True
      with turn(2) False j obtain b l where l: "mac_copy bs n k = Some (b, l)"
        "loop (drop (unat b) bs) (n - b) l x = Some (r, i', v)" by (auto split: Option.bind_splits)
      from turn(1) [OF l(2)] mac_copy_keeps [OF l(1)] c show ?thesis using calls_only_trans by metis
    qed (use turn(2) False j c in simp)
  qed
qed

lemma mac_flush_calls: "mac_flush i w = Some (i', v) \<Longrightarrow> calls_only w v \<and> mac_taken i i'"
proof (induction i w "(i', v)" rule: mac_flush.raw_induct [rotated, consumes 1, case_names turn])
  case (turn loop i w)
  show ?case
  proof (cases "mac_valid_count i = 0")
    case True
    with turn(2) show ?thesis by simp
  next
    case False
    with turn(2) obtain j u where j: "mac_cond_wait i w = Some (j, u)" "loop j u = Some (i', v)"
      by (auto split: Option.bind_splits)
    from mac_cond_wait_calls [OF j(1)] turn(1) [OF j(2)] show ?thesis
      using calls_only_trans mac_taken_trans by blast
  qed
qed

lemma mac_close_output_calls:
  assumes "mac_close_output i w = Some (r, i', v)"
  shows "calls_only w v \<and> mac_buffer i' = mac_buffer i"
proof -
  let ?i = "i\<lparr>mac_output_p := False, mac_is_stopping := True\<rparr>"
  obtain ok j u where j: "(if \<not> mac_started ?i \<and> mac_valid_count ?i \<noteq> 0 then mac_start ?i w else (True, ?i, w)) = (ok, j, u)"
    by (metis prod_cases3)
  then have c: "calls_only w u \<and> mac_buffer j = mac_buffer i"
    using mac_start_calls [of ?i w] by (auto split: if_splits)
  obtain q x where q: "ask (Mac (Mac_is_running (mac_unit j))) u = (q, x)" by fastforce
  have f: "calls_only x v \<and> mac_buffer i' = mac_buffer j" if "mac_finish j x = Some (r, i', v)"
  proof -
    from that obtain k y where k: "mac_flush j x = Some (k, y)" and "calls_only y v \<and> i' = k"
      by (auto simp: mac_finish_def split: Option.bind_splits prod.splits if_splits dest!: ask_ret_calls intro: calls_only_trans)
    with mac_flush_calls [OF k] mac_taken_sel(1) show ?thesis using calls_only_trans by metis
  qed
  from assms j q c f ask_calls [OF q] show ?thesis
    unfolding mac_close_output_def Let_def
    by (auto split: if_splits intro: calls_only_trans)
qed


text \<open>Finding a device gives back all it takes.\<close>

lemma held_malloc: "malloc_ok w = (ok, v) \<Longrightarrow> held (of_bool ok) w v"
  by (auto simp: held_def heap_step_def dest!: malloc_ok_heap)

lemma held_free: "held n w v \<Longrightarrow> held (n - 1) w (free_block v)" "held n w v \<Longrightarrow> held (n - blocks x) w (free_opt x v)"
  by (cases x; auto simp: held_def free_block_def free_opt_def)+

lemma held_ask: "held n w v \<Longrightarrow> held n w (snd (ask c v))"
  using held_trans [OF _ calls_only_held [OF calls_only_ask], of n w v c] by simp

lemma cfstringdupe_held: "cfstringdupe r w = (s, v) \<Longrightarrow> held (blocks s) w v"
  by (auto simp: cfstringdupe_def held_def split: if_splits prod.splits dest!: held_malloc)

lemma isAudioOutputDevice_held: "isAudioOutputDevice h aid w = (ok, v) \<Longrightarrow> held 0 w v"
  by (auto simp: isAudioOutputDevice_def calls_only_held split: if_splits prod.splits dest: ask_calls)

lemma mac_source_held: "mac_source aid w = (s, v) \<Longrightarrow> held (blocks s) w v"
proof -
  assume a: "mac_source aid w = (s, v)"
  obtain r u where r: "ask (Mac (Mac_source_id aid)) w = (r, u)" by fastforce
  obtain q x where q: "ask (Mac (Mac_source_name aid (rp_out r))) u = (q, x)" by fastforce
  obtain t y where t: "cfstringdupe q x = (t, y)" by fastforce
  have "held 0 w u" "held 0 u x" using ask_calls [OF r] ask_calls [OF q] calls_only_held by blast+
  then have x: "held 0 w x" using held_trans by fastforce
  have y: "held (blocks t) w y" using held_trans [OF x cfstringdupe_held [OF t]] by simp
  have "blocks (map_option lowercasestr t) = blocks t" by (cases t) simp_all
  with a r q t x y \<open>held 0 w u\<close> held_ask [OF y] show ?thesis
    by (auto simp: mac_source_def split: if_splits)
qed

lemma mac_verdict_held:
  assumes "mac_verdict_of h lcname aid w = (v, w')"
  shows "held 0 w w'"
proof -
  obtain ok u where o: "isAudioOutputDevice h aid w = (ok, u)" by fastforce
  obtain r x where r: "ask (Mac (Mac_device_name aid)) u = (r, x)" by fastforce
  obtain s y where s: "cfstringdupe r x = (s, y)" by fastforce
  let ?y = "snd (ask (Mac (Mac_release (rp_out r))) y)"
  obtain n z where n: "mac_source aid ?y = (n, z)" by fastforce
  have u: "held 0 w u" using isAudioOutputDevice_held [OF o] .
  have x: "held 0 w x" using held_trans [OF u calls_only_held [OF ask_calls [OF r]]] by simp
  have y: "held (blocks s) w ?y" using held_ask [OF held_trans [OF x cfstringdupe_held [OF s]]] by simp
  have z: "held (blocks s + blocks n) w z" using held_trans [OF y mac_source_held [OF n]] .
  show ?thesis
  proof (cases s)
    case None
    with assms o r s u x y show ?thesis by (auto simp: mac_verdict_of_def split: if_splits)
  next
    case (Some t)
    have "held 0 w (free_block ?y)" "held 0 w (free_opt n (free_block z))"
      using held_free(1) [OF y] held_free(2) [OF held_free(1) [OF z], of n] Some by simp_all
    with assms o r s n Some u x show ?thesis by (auto simp: mac_verdict_of_def Let_def split: if_splits)
  qed
qed

lemma mac_search_held: "mac_search h lcname ds i m ms w = (m', ms', w') \<Longrightarrow> held 0 w w'"
proof (induction ds arbitrary: i m ms w)
  case Nil
  then show ?case by (simp add: held_def)
next
  case (Cons aid ds)
  obtain v u where v: "mac_verdict_of h lcname aid w = (v, u)" by fastforce
  have "held 0 u w' \<Longrightarrow> held 0 w w'" using held_trans [OF mac_verdict_held [OF v], of 0 w'] by simp
  with Cons v mac_verdict_held [OF v] show ?case by (cases v) auto
qed

lemma findAudioOutputDevice_held:
  assumes "findAudioOutputDevice h name w = Some (aid, w')"
  shows "held 0 w w'"
proof -
  obtain ns w1 where 1: "ask_ret (Mac (Mac_string name)) w = (ns, w1)" by fastforce
  obtain r2 w2 where 2: "ask (Mac (Mac_device_for_uid ns)) w1 = (r2, w2)" by fastforce
  let ?w3 = "snd (ask (Mac (Mac_release ns)) w2)"
  obtain ok4 w4 where 4: "isAudioOutputDevice h (word_of_int (rp_out r2)) ?w3 = (ok4, w4)" by fastforce
  obtain s w5 where 5: "strdup name ?w3 = (s, w5)" by fastforce
  obtain r6 w6 where 6: "ask (Mac (Mac_devices False)) w5 = (r6, w6)" by fastforce
  obtain ok7 w7 where 7: "malloc_ok w6 = (ok7, w7)" by fastforce
  obtain r8 w8 where 8: "ask (Mac (Mac_devices True)) w7 = (r8, w8)" by fastforce
  let ?ds = "map word_of_int (take (unat (word_of_int (rp_out r8) :: 32 word) div 4) (rp_ids r8))"
  obtain m ms w9 where 9: "mac_search h (lowercasestr (the s)) ?ds 0 0 0 w8 = (m, ms, w9)" by (metis prod_cases3)
  have h1: "held 0 w w1" using calls_only_held [OF ask_ret_calls [OF 1]] .
  have h3: "held 0 w ?w3" using held_ask [OF held_trans [OF h1 calls_only_held [OF ask_calls [OF 2]]]] by simp
  have h4: "held 0 w w4" using held_trans [OF h3 isAudioOutputDevice_held [OF 4]] by simp
  have h5: "held (blocks s) w w5" using held_trans [OF h3 held_strdup [OF 5]] by simp
  have h6: "held (blocks s) w w6" using held_trans [OF h5 calls_only_held [OF ask_calls [OF 6]]] by simp
  have h7: "held (blocks s + of_bool ok7) w w7" using held_trans [OF h6 held_malloc [OF 7]] .
  have h8: "held (blocks s + of_bool ok7) w w8" using held_trans [OF h7 calls_only_held [OF ask_calls [OF 8]]] by simp
  have h9: "held (blocks s + of_bool ok7) w w9" using held_trans [OF h8 mac_search_held [OF 9]] by simp
  note frees = held_free(1) [OF h6] held_free(1) [OF h7] held_free(1) [OF held_free(1) [OF h8]]
    held_free(1) [OF held_free(1) [OF h9]]
  from assms 1 2 4 5 6 7 8 9 h1 h4 h5 frees show ?thesis
    by (cases s) (auto simp: findAudioOutputDevice_def Let_def split: if_splits)
qed


lemma mac_new_unit_calls: "mac_new_unit h i w = (ok, i', v) \<Longrightarrow> calls_only w v \<and> mac_buffer i' = mac_buffer i"
  by (auto simp: mac_new_unit_def Let_def split: prod.splits if_splits dest!: ask_ret_calls ask_calls
      intro: calls_only_trans intro!: calls_only_after)

lemma mac_setup_calls: "mac_setup h d format unit w = (ok, v) \<Longrightarrow> calls_only w v"
proof -
  have "calls_only w (snd (mac_setup h d format unit w))"
    unfolding mac_setup_def Let_def split_beta by (simp add: calls_only_after)
  then show "mac_setup h d format unit w = (ok, v) \<Longrightarrow> calls_only w v" by simp
qed

text \<open>Before \<open>open\<close> there is no ring.\<close>

lemma mac_prepared:
  "prepared (ao_macosx h :: (plugin_internal ao_internal, 'z posix_scheme) ao_functions) x \<Longrightarrow>
   \<exists>i. x = Some (Plugin_internal (Macosx_internal i)) \<and> mac_buffer i = None"
proof (induction rule: prepared.induct)
  case (prepared_init d w d' w')
  then show ?case
    by (auto simp: ao_macosx_def ao_macosx_device_init_def split: prod.splits if_splits)
next
  case (prepared_option d k v w r d' w')
  then show ?case
    by (auto simp: ao_macosx_def ao_macosx_set_option_def plugin_state_iff split: prod.splits if_splits Option.bind_splits)
qed

lemma ao_macosx_init_law:
  assumes "ao_macosx_device_init d w = Some (r, d', w')" and "internal d = None" and "output_matrix d = None"
  shows "books 0 plugin_blocks d w d' w' \<and> setup_frame d d'"
proof -
  obtain ok v where m: "malloc_ok w = (ok, v)" by (cases "malloc_ok w")
  obtain s u where t: "strdup ''L,R,C,LFE,BL,BR,CL,CR,BC,SL,SR'' v = (s, u)" by fastforce
  show ?thesis
    using assms m t malloc_ok_heap [OF m] strdup_heap [OF t]
    by (cases ok; cases s)
       (auto simp: ao_macosx_device_init_def books_def ledger setup_frame_def core_frame_def heap_step_def)
qed

text \<open>A structure that changes but for its ring.\<close>

lemma mac_books:
  assumes "macosx_state d = Some i" and "blocks (mac_buffer i') = blocks (mac_buffer i) + n" and "held n w w'"
  shows "books 0 plugin_blocks d w (set_macosx i' d) w'"
  by (rule books_replace [where p = "Macosx_internal i"]) (use assms in \<open>auto simp: plugin_state_iff\<close>)

lemma ao_macosx_set_option_law:
  assumes "ao_macosx_set_option h d k v w = Some (r, d', w')"
  shows "books 0 plugin_blocks d w d' w' \<and> setup_frame d d'"
proof -
  obtain i where i: "macosx_state d = Some i"
    using assms by (auto simp: ao_macosx_set_option_def split: Option.bind_splits)
  have "d' = d \<and> w' = w \<or> (\<exists>j. d' = set_macosx j d \<and> mac_buffer j = mac_buffer i \<and> held 0 w w')"
  proof (cases "k = ''dev'' \<and> v \<noteq> None \<and> v \<noteq> Some []")
    case True
    with assms i obtain aid where "findAudioOutputDevice h (the v) w = Some (aid, w')"
      "d' = set_macosx (i\<lparr>mac_output_device := aid\<rparr>) d"
      by (auto simp: ao_macosx_set_option_def split: Option.bind_splits)
    with findAudioOutputDevice_held show ?thesis by fastforce
  next
    case False
    have "\<exists>j. (d' = d \<or> d' = set_macosx j d) \<and> mac_buffer j = mac_buffer i \<and> w' = w"
    proof (cases "k = ''buffer_time''")
      case True
      with assms i obtain n where "d' = set_macosx (i\<lparr>mac_buffer_time := n\<rparr>) d \<and> w' = w"
        by (auto simp: ao_macosx_set_option_def Let_def simp del: if_split_asm split: Option.bind_splits)
      then show ?thesis by (intro exI [of _ "i\<lparr>mac_buffer_time := n\<rparr>"]) simp
    next
      case other: False
      have "ao_macosx_set_option h d k v w = Some (True, if k = ''dev'' then
          set_macosx (i\<lparr>mac_output_device := kAudioObjectUnknown h\<rparr>) d else d, w)"
        using False other i by (cases "k = ''dev''") (auto simp: ao_macosx_set_option_def)
      with assms have "(d' = d \<or> d' = set_macosx (i\<lparr>mac_output_device := kAudioObjectUnknown h\<rparr>) d) \<and> w' = w"
        by (auto split: if_splits)
      then show ?thesis by (intro exI [of _ "i\<lparr>mac_output_device := kAudioObjectUnknown h\<rparr>"]) simp
    qed
    then show ?thesis using calls_only_held [OF calls_only_refl, of w] by blast
  qed
  then show ?thesis
  proof (elim disjE exE conjE)
    fix j assume j: "d' = set_macosx j d" "mac_buffer j = mac_buffer i" "held 0 w w'"
    have "books 0 plugin_blocks d w (set_macosx j d) w'" by (rule mac_books [OF i _ j(3)]) (simp add: j(2))
    with j(1) show ?thesis by simp
  qed (simp add: calls_only_books)
qed

lemma ao_macosx_open_law:
  assumes "ao_macosx_open h d format w = Some (r, d', sf', w')"
    and "macosx_state d = Some i" and "mac_buffer i = None"
  shows "books 0 plugin_blocks d w d' w' \<and> core_frame d d' \<and> fmt_matrix sf' = fmt_matrix format"
proof -
  obtain ok1 i1 w1 where 1: "mac_new_unit h i w = (ok1, i1, w1)" by (metis prod_cases3)
  let ?d = "d\<lparr>driver_byte_format := fmt_byte_format format\<rparr>"
  obtain ok2 w2 where 2: "mac_setup h ?d format (mac_unit i1) w1 = (ok2, w2)" by fastforce
  have c1: "calls_only w w1" "mac_buffer i1 = None" using mac_new_unit_calls [OF 1] assms(3) by simp_all
  have c2: "calls_only w w2" using calls_only_trans [OF c1(1) mac_setup_calls [OF 2]] .
  have bk: "books 0 plugin_blocks d w (set_macosx j d) v" if "blocks (mac_buffer j) = n" "held n w v" for j n v
    by (rule mac_books [OF assms(2)]) (use that assms(3) in simp_all)
  show ?thesis
  proof (cases "ok1 \<and> ok2")
    case False
    then show ?thesis
      using assms(1,2) 1 2 bk [OF _ calls_only_held [OF c1(1)], of i1] bk [OF _ calls_only_held [OF c2], of i1] c1(2)
      by (auto simp: ao_macosx_open_def Let_def books_def core_frame_def ledger split: if_splits)
  next
    case True
    with assms(1,2) 1 2 obtain n ok3 where 3: "malloc_ok w2 = (ok3, w')" "sf' = format"
      "d' = set_macosx (i1\<lparr>mac_buffer_byte_count := n, mac_first_valid := 0, mac_valid_count := 0,
         mac_buffer := (if ok3 then Some (replicate (unat n) 0) else None)\<rparr>) ?d"
      by (auto simp: ao_macosx_open_def Let_def split: Option.bind_splits prod.splits)
    have "held (of_bool ok3) w w'" using held_trans [OF calls_only_held [OF c2] held_malloc [OF 3(1)]] by simp
    then show ?thesis
      using bk [of "i1\<lparr>mac_buffer_byte_count := n, mac_first_valid := 0, mac_valid_count := 0,
         mac_buffer := (if ok3 then Some (replicate (unat n) 0) else None)\<rparr>" "of_bool ok3" w'] 3
      by (auto simp: books_def ledger core_frame_def)
  qed
qed

interpretation macosx: ao_driver "ao_macosx h" plugin_blocks for h
proof
  fix d d' :: live_device and w w' :: "'a posix_scheme" and r
  show "fn_device_init (ao_macosx h) d w = Some (r, d', w') \<Longrightarrow> internal d = None \<Longrightarrow>
      output_matrix d = None \<Longrightarrow> books 0 plugin_blocks d w d' w' \<and> setup_frame d d'"
    using ao_macosx_init_law by (simp add: ao_macosx_def)
  show "fn_set_option (ao_macosx h) d k v w = Some (r, d', w') \<Longrightarrow>
      books 0 plugin_blocks d w d' w' \<and> setup_frame d d'" for k v
    using ao_macosx_set_option_law by (simp add: ao_macosx_def)
  show "prepared (ao_macosx h :: (plugin_internal ao_internal, 'a posix_scheme) ao_functions) (internal d) \<Longrightarrow>
      fn_open (ao_macosx h) d sf w = Some (r, d', sf', w') \<Longrightarrow>
      books 0 plugin_blocks d w d' w' \<and> core_frame d d' \<and> fmt_matrix sf' = fmt_matrix sf" for sf sf'
    using mac_prepared [of h "internal d"] ao_macosx_open_law [of h d sf w r d' sf' w']
    by (auto simp: ao_macosx_def plugin_state_iff)
  show "fn_play (ao_macosx h) d bs n w = Some (r, d', w') \<Longrightarrow>
      books 0 plugin_blocks d w d' w' \<and> d' = d\<lparr>internal := internal d'\<rparr>" for bs n
    by (auto simp: ao_macosx_def ao_macosx_play_def intro!: mac_books [where n = 0] calls_only_held
        split: Option.bind_splits dest!: mac_play_loop_calls)
  show "fn_close (ao_macosx h) d w = Some (r, d', w') \<Longrightarrow> books 0 plugin_blocks d w d' w' \<and> core_frame d d'"
    by (auto simp: ao_macosx_def ao_macosx_close_def intro!: mac_books [where n = 0] calls_only_held
        split: Option.bind_splits if_splits dest!: mac_lock_calls mac_close_output_calls mac_taken_sel(1)
        intro: calls_only_trans)
  show "fn_device_clear (ao_macosx h) d w = Some (d', w') \<Longrightarrow>
      books 0 plugin_blocks d w d' w' \<and> core_frame d d' \<and> internal d' = None"
    by (auto simp: ao_macosx_def ao_macosx_device_clear_def books_def ledger plugin_state_iff
        split: Option.bind_splits if_splits)
qed


end
