(* ===== verification/AO_Wmm.thy ===== *)
theory AO_Wmm
  imports AO_Posix "HOL-Library.Signed_Division"
begin

text \<open>
  The Windows driver, \<^verbatim>\<open>src/ao_wmm.c\<close>.  \<open>play\<close> fills 64 blocks in turn and hands each full one to
  Windows, which plays it in the background and then sets a flag in its header; the driver looks
  at the flags when it needs a block.  What a flag holds at that time is the answer to \<open>Wmm_done\<close>.
\<close>

text \<open>Constants of \<^verbatim>\<open>mmsystem.h\<close>, \<^verbatim>\<open>mmreg.h\<close> and \<^verbatim>\<open>ksmedia.h\<close>.\<close>

definition MMSYSERR_NOERROR :: int where "MMSYSERR_NOERROR = 0"
definition WAVE_MAPPER :: "32 word" where "WAVE_MAPPER = 0xFFFFFFFF"
definition WAVE_FORMAT_EXTENSIBLE :: "16 word" where "WAVE_FORMAT_EXTENSIBLE = 0xFFFE"
definition WAVE_ALLOWSYNC :: "32 word" where "WAVE_ALLOWSYNC = 2"
definition CALLBACK_NULL :: "32 word" where "CALLBACK_NULL = 0"

definition KSDATAFORMAT_SUBTYPE_PCM :: guid where
  "KSDATAFORMAT_SUBTYPE_PCM = \<lparr>guid_Data1 = 0x00000001, guid_Data2 = 0x0000, guid_Data3 = 0x0010,
     guid_Data4 = [0x80, 0x00, 0x00, 0xaa, 0x00, 0x38, 0x9b, 0x71]\<rparr>"

unbundle bit_operations_syntax

section \<open>Options\<close>

definition ao_wmm_info :: ao_info where
  "ao_wmm_info =
     \<lparr>info_type = AO_TYPE_LIVE, info_name = ''WMM audio driver output '', short_name = ''wmm'',
      author = ''Benjamin Gerard <benjihan@users.sourceforge.net>'',
      info_comment = ''Outputs audio to the Windows MultiMedia driver.'', preferred_byte_format = AO_FMT_LITTLE,
      priority = 20, info_options = [''dev'', ''id'', ''matrix'', ''verbose'', ''quiet'', ''debug''], option_count = 6\<rparr>"

definition ao_wmm_test :: "'z posix_scheme \<Rightarrow> (bool \<times> 'z posix_scheme) option" where
  "ao_wmm_test w = Some (True, w)"

text \<open>\<open>strtol(s, 0, 0)\<close>, for the \<open>long\<close> of Windows, which has 32 bits: the base is told by the prefix.\<close>

definition digit_in :: "int \<Rightarrow> char \<Rightarrow> int option" where
  "digit_in base c =
     (let l = of_char (to_lower c) :: int;
          v = (case digit_value c of Some k \<Rightarrow> k | None \<Rightarrow> if 97 \<le> l \<and> l \<le> 122 then l - 87 else 36)
      in if v < base then Some v else None)"

fun strtol_digits :: "int \<Rightarrow> int \<Rightarrow> string \<Rightarrow> int" where
  "strtol_digits base n [] = n"
| "strtol_digits base n (c # cs) =
     (case digit_in base c of None \<Rightarrow> n | Some k \<Rightarrow> strtol_digits base (base * n + k) cs)"

definition strtol_unsigned :: "string \<Rightarrow> int" where
  "strtol_unsigned s =
     (if take 1 s = ''0'' then
        (case tl s of
           x # c # cs \<Rightarrow> if to_lower x = CHR ''x'' \<and> digit_in 16 c \<noteq> None then strtol_digits 16 0 (c # cs)
                        else strtol_digits 8 0 s
         | _ \<Rightarrow> strtol_digits 8 0 s)
      else strtol_digits 10 0 s)"

definition strtol :: "string \<Rightarrow> int" where
  "strtol s = (case skip_space s of
      CHR ''-'' # cs \<Rightarrow> max INT_MIN (- strtol_unsigned cs)
    | CHR ''+'' # cs \<Rightarrow> min INT_MAX (strtol_unsigned cs)
    | cs \<Rightarrow> min INT_MAX (strtol_unsigned cs))"

text \<open>\<open>waveOutGetNumDevs\<close> and \<open>waveOutGetDevCaps\<close>.\<close>

definition wmm_num_devs :: "'z posix_scheme \<Rightarrow> int \<times> 'z posix_scheme" where
  "wmm_num_devs w = (case ask_ret (Wmm Wmm_get_num_devs) w of (n, w) \<Rightarrow> (sint (word_of_int n :: 32 word), w))"

definition wmm_dev_caps :: "int \<Rightarrow> 'z posix_scheme \<Rightarrow> waveoutcaps option \<times> 'z posix_scheme" where
  "wmm_dev_caps k w = (case ask (Wmm (Wmm_get_dev_caps k)) w of (r, w) \<Rightarrow>
     (if rp_ret r = MMSYSERR_NOERROR then Some \<lparr>szPname = rp_text r, vDriverVersion = rp_out r\<rparr> else None, w))"

text \<open>The search of the option \<open>dev\<close>.\<close>

function wmm_find_dev ::
  "string \<Rightarrow> int \<Rightarrow> int \<Rightarrow> ao_wmm_internal \<Rightarrow> 'z posix_scheme \<Rightarrow> bool \<times> ao_wmm_internal \<times> 'z posix_scheme" where
  "wmm_find_dev value num k i w =
     (if k < num then
        (case wmm_dev_caps k w of
           (Some caps, w) \<Rightarrow>
             if value = szPname caps then (True, i\<lparr>wmm_id := word_of_int k, wmm_caps := caps\<rparr>, w)
             else wmm_find_dev value num (k + 1) i w
         | (None, w) \<Rightarrow> wmm_find_dev value num (k + 1) i w)
      else (False, i, w))"
  by pat_completeness auto
termination by (relation "measure (\<lambda>(value, num, k, i, w). nat (num - k))") auto

declare wmm_find_dev.simps [simp del]

text \<open>The option \<open>id\<close>: 0 is the wave mapper, the devices are counted from 1.\<close>

definition wmm_set_id ::
  "string \<Rightarrow> ao_wmm_internal \<Rightarrow> 'z posix_scheme \<Rightarrow> bool \<times> ao_wmm_internal \<times> 'z posix_scheme" where
  "wmm_set_id value i w =
     (let k = strtol value; (num, w) = wmm_num_devs w
      in if 0 \<le> k \<and> k \<le> num then
           let k = (if k = 0 then sint WAVE_MAPPER else k - 1)
           in case wmm_dev_caps k w of
                (Some caps, w) \<Rightarrow> (True, i\<lparr>wmm_id := word_of_int k, wmm_caps := caps\<rparr>, w)
              | (None, w) \<Rightarrow> (False, i, w)
         else (False, i, w))"

definition ao_wmm_set_option ::
  "live_device \<Rightarrow> string \<Rightarrow> string option \<Rightarrow> 'z posix_scheme \<Rightarrow> (bool \<times> live_device \<times> 'z posix_scheme) option" where
  "ao_wmm_set_option d k v w = do {
     i \<leftarrow> wmm_state d;
     (if k = ''dev'' then do {
        v \<leftarrow> v;
        (if v = ''default'' then
           (case wmm_set_id ''0'' i w of (res, i, w) \<Rightarrow> Some (res, set_wmm i d, w))
         else
           (case wmm_num_devs w of (num, w) \<Rightarrow>
              case wmm_find_dev v num 0 i w of (res, i, w) \<Rightarrow> Some (res, set_wmm i d, w))) }
      else if k = ''id'' then do {
        v \<leftarrow> v;
        (case wmm_set_id v i w of (res, i, w) \<Rightarrow> Some (res, set_wmm i d, w)) }
      else Some (False, d, w)) }"

definition no_caps :: waveoutcaps where
  "no_caps = \<lparr>szPname = [], vDriverVersion = 0\<rparr>"

definition no_wave_format :: wave_format where
  "no_wave_format = \<lparr>wf_wFormatTag = 0, wf_nChannels = 0, wf_nSamplesPerSec = 0, wf_nAvgBytesPerSec = 0,
     wf_nBlockAlign = 0, wf_wBitsPerSample = 0, wf_cbSize = 0, wf_wValidBitsPerSample = 0, wf_dwChannelMask = 0,
     wf_SubFormat = \<lparr>guid_Data1 = 0, guid_Data2 = 0, guid_Data3 = 0, guid_Data4 = replicate 8 0\<rparr>\<rparr>"

definition wmm_zero :: ao_wmm_internal where
  "wmm_zero = \<lparr>wmm_id = WAVE_MAPPER, wmm_hwo = 0, wmm_caps = no_caps, wmm_wavefmt = no_wave_format,
     wmm_opened = False, wmm_prepared = False, wmm_blocks = 32, wmm_splPerBlock = 512, wmm_msPerBlock = 0,
     wmm_bigbuffer = None, wmm_wh = False, wmm_sent_blocks = 0, wmm_full_blocks = 0, wmm_widx = 0, wmm_ridx = 0\<rparr>"

text \<open>The matrix is set whether there was memory for the structure or not.\<close>

definition ao_wmm_device_init ::
  "live_device \<Rightarrow> 'z posix_scheme \<Rightarrow> (bool \<times> live_device \<times> 'z posix_scheme) option" where
  "ao_wmm_device_init d w = do {
     let (ok, w) = malloc_ok w;
     (d, w) \<leftarrow> (if ok then do {
                  (_, d, w) \<leftarrow> ao_wmm_set_option (set_wmm wmm_zero d) ''id'' (Some ''0'') w;
                  Some (d, w) }
                else Some (d\<lparr>internal := None\<rparr>, w));
     (case strdup ''L,R,C,LFE,BL,BR,CL,CR,BC,SL,SR'' w of (m, w) \<Rightarrow>
        Some (ok, d\<lparr>output_matrix := m, output_matrix_order := AO_OUTPUT_MATRIX_COLLAPSIBLE\<rparr>, w)) }"

section \<open>The blocks\<close>

text \<open>A header, through \<open>wh\<close>: the pointer must be set, and the index within the headers.\<close>

definition wmm_block :: "ao_wmm_internal \<Rightarrow> nat \<Rightarrow> myWH_t option" where
  "wmm_block i k = do {
     bs \<leftarrow> (if wmm_wh i then wmm_bigbuffer i else None);
     (if k < length bs then Some (bs ! k) else None) }"

definition set_wmm_block :: "nat \<Rightarrow> myWH_t \<Rightarrow> ao_wmm_internal \<Rightarrow> ao_wmm_internal" where
  "set_wmm_block k b i = i\<lparr>wmm_bigbuffer := map_option (\<lambda>bs. bs[k := b]) (wmm_bigbuffer i)\<rparr>"

text \<open>\<open>internal->wh[k].wh.dwFlags & WHDR_DONE\<close>: a flag that is set stays so.\<close>

definition wmm_done ::
  "nat \<Rightarrow> ao_wmm_internal \<Rightarrow> 'z posix_scheme \<Rightarrow> (bool \<times> ao_wmm_internal \<times> 'z posix_scheme) option" where
  "wmm_done k i w = do {
     b \<leftarrow> wmm_block i k;
     (if wh_done b then Some (True, i, w)
      else (case ask_ret (Wmm (Wmm_done (wmm_hwo i) k)) w of (r, w) \<Rightarrow>
        Some (r \<noteq> 0, set_wmm_block k (b\<lparr>wh_done := r \<noteq> 0\<rparr>) i, w))) }"

text \<open>The block is released: the counters do not go below 0.\<close>

definition wmm_released :: "nat \<Rightarrow> myWH_t \<Rightarrow> ao_wmm_internal \<Rightarrow> ao_wmm_internal" where
  "wmm_released k b i = (set_wmm_block k (b\<lparr>wh_sent := 0, wh_done := False\<rparr>) i)
     \<lparr>wmm_full_blocks := max 0 (wmm_full_blocks i - 1), wmm_sent_blocks := max 0 (wmm_sent_blocks i - 1)\<rparr>"

text \<open>How many blocks are sent.\<close>

definition wmm_sent_count :: "ao_wmm_internal \<Rightarrow> nat" where
  "wmm_sent_count i = (case wmm_bigbuffer i of None \<Rightarrow> 0 | Some bs \<Rightarrow> length (filter (\<lambda>b. wh_sent b \<noteq> 0) bs))"

text \<open>A block less is sent after each.\<close>

lemma filter_sent_update:
  "k < length bs \<Longrightarrow> wh_sent (bs ! k) \<noteq> 0 \<Longrightarrow> wh_sent b = 0 \<Longrightarrow>
   length (filter (\<lambda>b. wh_sent b \<noteq> 0) bs) = Suc (length (filter (\<lambda>b. wh_sent b \<noteq> 0) (bs[k := b])))"
  by (induction bs arbitrary: k) (auto split: nat.splits)

lemma wmm_block_iff:
  "wmm_block i k = Some b \<longleftrightarrow> wmm_wh i \<and> (\<exists>bs. wmm_bigbuffer i = Some bs \<and> k < length bs \<and> b = bs ! k)"
  by (auto simp: wmm_block_def split: Option.bind_splits if_splits)

lemma wmm_done_iff:
  "wmm_done k i w = Some (d, i', w') \<longleftrightarrow> (\<exists>b. wmm_block i k = Some b \<and>
     (wh_done b \<and> d \<and> i' = i \<and> w' = w \<or>
      \<not> wh_done b \<and> (\<exists>r. ask_ret (Wmm (Wmm_done (wmm_hwo i) k)) w = (r, w') \<and> d = (r \<noteq> 0) \<and>
        i' = set_wmm_block k (b\<lparr>wh_done := d\<rparr>) i)))"
  by (auto simp: wmm_done_def split: Option.bind_splits prod.splits)

lemma wmm_released_count:
  assumes "wmm_block i k = Some b" and "wh_sent b \<noteq> 0" and "wmm_done k i w = Some (d, i', w')"
  shows "wmm_sent_count (wmm_released k b i') < wmm_sent_count i"
proof -
  obtain bs where bs: "wmm_bigbuffer i = Some bs" "k < length bs" "b = bs ! k"
    using assms(1) by (auto simp: wmm_block_iff)
  then have "wmm_bigbuffer (wmm_released k b i') = Some (bs[k := b\<lparr>wh_sent := 0, wh_done := False\<rparr>])"
    using assms(3) by (auto simp: wmm_done_iff wmm_released_def set_wmm_block_def)
  with filter_sent_update [of k bs "b\<lparr>wh_sent := 0, wh_done := False\<rparr>"] bs assms(2) show ?thesis
    by (simp add: wmm_sent_count_def)
qed

function wmm_release ::
  "nat \<Rightarrow> ao_wmm_internal \<Rightarrow> 'z posix_scheme \<Rightarrow> (nat \<times> ao_wmm_internal \<times> 'z posix_scheme) option" where
  "wmm_release ridx i w =
     (case wmm_block i ridx of
        None \<Rightarrow> None
      | Some b \<Rightarrow>
          if wh_sent b = 0 then Some (ridx, i, w)
          else (case wmm_done ridx i w of
              None \<Rightarrow> None
            | Some (False, i, w) \<Rightarrow> Some (ridx, i, w)
            | Some (True, i, w) \<Rightarrow>
                wmm_release (if wmm_blocks i \<le> ridx + 1 then 0 else ridx + 1) (wmm_released ridx b i) w))"
  by pat_completeness auto
termination
  by (relation "measure (\<lambda>(ridx, i, w). wmm_sent_count i)") (auto dest: wmm_released_count)

declare wmm_release.simps [simp del]

text \<open>\<open>_ao_get_free_block\<close>: \<open>None\<close> stands for -1.\<close>

definition wmm_get_free_block ::
  "ao_wmm_internal \<Rightarrow> 'z posix_scheme \<Rightarrow> (nat option \<times> ao_wmm_internal \<times> 'z posix_scheme) option" where
  "wmm_get_free_block i w = do {
     let idx = wmm_widx i;
     (ridx, i, w) \<leftarrow> wmm_release (wmm_ridx i) i w;
     let i = i\<lparr>wmm_ridx := ridx\<rparr>;
     b \<leftarrow> wmm_block i idx;
     Some (if wh_sent b \<noteq> 0 then None else Some idx, i, w) }"

text \<open>
  \<open>_ao_send_block\<close>.  What Windows gets is what is behind \<open>lpData\<close>, as many bytes as \<open>dwBufferLength\<close> says;
  a block without any counts as played.
\<close>

definition wmm_send_block ::
  "nat \<Rightarrow> ao_wmm_internal \<Rightarrow> 'z posix_scheme \<Rightarrow> (bool \<times> ao_wmm_internal \<times> 'z posix_scheme) option" where
  "wmm_send_block k i w = do {
     b \<leftarrow> wmm_block i k;
     (if wh_sent b \<noteq> 0 then Some (False, i, w)
      else do {
        (done, i, w) \<leftarrow> wmm_done k i w;
        b \<leftarrow> wmm_block i k;
        (if done then Some (False, i, w)
         else if wh_count b \<le> 0 then
           Some (True, (set_wmm_block k (b\<lparr>wh_sent := 2, wh_done := True\<rparr>) i)
             \<lparr>wmm_sent_blocks := wmm_sent_blocks i + 1\<rparr>, w)
         else do {
           bs \<leftarrow> load (nat (wh_count b)) (wh_data b) 0;
           let (r, w) = ask_ret (Wmm (Wmm_write (wmm_hwo i) k bs)) w;
               ok = (r = MMSYSERR_NOERROR);
               i = set_wmm_block k (b\<lparr>wh_dwBufferLength := word_of_int (wh_count b), wh_count := 0,
                     wh_sent := of_bool ok\<rparr>) i
           in Some (ok, i\<lparr>wmm_sent_blocks := wmm_sent_blocks i + of_bool ok\<rparr>, w) }) }) }"

section \<open>Opening\<close>

definition wmm_wave_format :: "live_device \<Rightarrow> ao_sample_format \<Rightarrow> wave_format option" where
  "wmm_wave_format d format = do {
     bits \<leftarrow> c_int (fmt_bits format + 7);
     let nChannels = word_of_int (output_channels d) :: 16 word;
         wBitsPerSample = word_of_int (bits div 8 * 8) :: 16 word;
         nSamplesPerSec = word_of_int (fmt_rate format) :: 32 word;
         nBlockAlign = word_of_int (uint (drop_bit 3 wBitsPerSample) * uint nChannels) :: 16 word
     in Some \<lparr>wf_wFormatTag = WAVE_FORMAT_EXTENSIBLE, wf_nChannels = nChannels, wf_nSamplesPerSec = nSamplesPerSec,
       wf_nAvgBytesPerSec = nSamplesPerSec * ucast nBlockAlign, wf_nBlockAlign = nBlockAlign,
       wf_wBitsPerSample = wBitsPerSample, wf_cbSize = 22, wf_wValidBitsPerSample = word_of_int (fmt_bits format),
       wf_dwChannelMask = output_mask d, wf_SubFormat = KSDATAFORMAT_SUBTYPE_PCM\<rparr> }"

text \<open>\<open>_ao_open_device\<close> and \<open>_ao_close_device\<close>.\<close>

definition wmm_open_device ::
  "ao_wmm_internal \<Rightarrow> 'z posix_scheme \<Rightarrow> bool \<times> ao_wmm_internal \<times> 'z posix_scheme" where
  "wmm_open_device i w =
     (case ask (Wmm (Wmm_open (wmm_id i) (wmm_wavefmt i) (CALLBACK_NULL OR WAVE_ALLOWSYNC))) w of (r, w) \<Rightarrow>
        let i = i\<lparr>wmm_hwo := left_in (wmm_hwo i) r\<rparr>
        in if rp_ret r \<noteq> MMSYSERR_NOERROR then (False, i, w)
           else (case ask (Wmm (Wmm_get_id (wmm_hwo i))) w of (r, w) \<Rightarrow>
             (True, if rp_ret r = MMSYSERR_NOERROR then i\<lparr>wmm_id := word_of_int (rp_out r)\<rparr> else i, w)))"

definition wmm_close_device :: "ao_wmm_internal \<Rightarrow> 'z posix_scheme \<Rightarrow> bool \<times> 'z posix_scheme" where
  "wmm_close_device i w = (case ask_ret (Wmm (Wmm_close (wmm_hwo i))) w of (r, w) \<Rightarrow> (r = MMSYSERR_NOERROR, w))"

text \<open>The headers are prepared from the first on, until one fails, and unprepared from the last on.\<close>

fun wmm_prepare :: "int \<Rightarrow> nat \<Rightarrow> nat \<Rightarrow> 'z posix_scheme \<Rightarrow> nat \<times> 'z posix_scheme" where
  "wmm_prepare hwo k 0 w = (k, w)"
| "wmm_prepare hwo k (Suc n) w =
     (case ask_ret (Wmm (Wmm_prepare hwo k)) w of (r, w) \<Rightarrow>
        if r \<noteq> MMSYSERR_NOERROR then (k, w) else wmm_prepare hwo (Suc k) n w)"

fun wmm_unprepare :: "int \<Rightarrow> nat \<Rightarrow> 'z posix_scheme \<Rightarrow> bool \<times> 'z posix_scheme" where
  "wmm_unprepare hwo 0 w = (True, w)"
| "wmm_unprepare hwo (Suc k) w =
     (case ask_ret (Wmm (Wmm_unprepare hwo k)) w of (r, w) \<Rightarrow>
        case wmm_unprepare hwo k w of (ok, w) \<Rightarrow> (r = MMSYSERR_NOERROR \<and> ok, w))"

text \<open>\<open>_ao_alloc_wave_headers\<close>: all of the block is set to 0.\<close>

definition wmm_new_block :: "int \<Rightarrow> myWH_t" where
  "wmm_new_block bytesPerBlock =
     \<lparr>wh_dwBufferLength = word_of_int bytesPerBlock, wh_done = False, wh_data = replicate (nat bytesPerBlock) 0,
      wh_count = 0, wh_length = bytesPerBlock, wh_sent = 0\<rparr>"

definition wmm_alloc_wave_headers ::
  "ao_wmm_internal \<Rightarrow> 'z posix_scheme \<Rightarrow> bool \<times> ao_wmm_internal \<times> 'z posix_scheme" where
  "wmm_alloc_wave_headers i w =
     (let bytesPerBlock = uint (wf_nBlockAlign (wmm_wavefmt i)) * wmm_splPerBlock i; (ok, w) = malloc_ok w
      in if \<not> ok then (False, i\<lparr>wmm_bigbuffer := None\<rparr>, w)
         else (case wmm_prepare (wmm_hwo i) 0 (wmm_blocks i) w of (k, w) \<Rightarrow>
           if k < wmm_blocks i then
             (False, i\<lparr>wmm_wh := False, wmm_bigbuffer := None\<rparr>, free_block (snd (wmm_unprepare (wmm_hwo i) k w)))
           else (True, i\<lparr>wmm_wh := True,
               wmm_bigbuffer := Some (replicate (wmm_blocks i) (wmm_new_block bytesPerBlock))\<rparr>, w)))"

text \<open>\<open>_ao_wait_wave_headers\<close>, whose result nobody looks at.\<close>

definition wmm_nap :: "bool \<Rightarrow> ao_wmm_internal \<Rightarrow> 32 word" where
  "wmm_nap wait_all i =
     word_of_int (wmm_msPerBlock i div 2 + 1) * (if wait_all then word_of_int (wmm_sent_blocks i) else 1)"

partial_function (option) wmm_wait ::
  "bool \<Rightarrow> ao_wmm_internal \<Rightarrow> 'z posix_scheme \<Rightarrow> (ao_wmm_internal \<times> 'z posix_scheme) option" where
  "wmm_wait wait_all i w =
     (if wmm_sent_blocks i \<le> 0 then Some (i, w)
      else Option.bind (wmm_get_free_block i w) (\<lambda>(_, i, w).
        wmm_wait wait_all i
          (if 0 < wmm_sent_blocks i then snd (ask (Wmm (Wmm_sleep (wmm_nap wait_all i))) w) else w)))"

declare wmm_wait.simps [code]

text \<open>\<open>_ao_free_wave_headers\<close>: the block itself stays until \<open>device_clear\<close>.\<close>

definition wmm_free_wave_headers ::
  "ao_wmm_internal \<Rightarrow> 'z posix_scheme \<Rightarrow> (bool \<times> ao_wmm_internal \<times> 'z posix_scheme) option" where
  "wmm_free_wave_headers i w =
     (if \<not> wmm_wh i then Some (True, i, w)
      else do {
        (i, w) \<leftarrow> wmm_wait False i (snd (ask (Wmm (Wmm_reset (wmm_hwo i))) w));
        (case wmm_unprepare (wmm_hwo i) (wmm_blocks i) w of (ok, w) \<Rightarrow> Some (ok, i\<lparr>wmm_wh := False\<rparr>, w)) })"

text \<open>What \<open>open\<close> does under \<open>error\<close>.\<close>

definition wmm_give_up ::
  "ao_wmm_internal \<Rightarrow> 'z posix_scheme \<Rightarrow> (ao_wmm_internal \<times> 'z posix_scheme) option" where
  "wmm_give_up i w = do {
     (i, w) \<leftarrow> (if wmm_prepared i then do {
                  (_, i, w) \<leftarrow> wmm_free_wave_headers i w;
                  Some (i\<lparr>wmm_prepared := False\<rparr>, w) }
                else Some (i, w));
     Some (if wmm_opened i then (i\<lparr>wmm_opened := False\<rparr>, snd (wmm_close_device i w)) else (i, w)) }"

text \<open>The milliseconds of a block, rounded up: a rate of 0 is a division by 0.\<close>

definition wmm_block_ms :: "int \<Rightarrow> int option" where
  "wmm_block_ms rate = do { n \<leftarrow> c_int (512 * 1000 + rate); (if rate = 0 then None else Some ((n - 1) sdiv rate)) }"

definition ao_wmm_open ::
  "live_device \<Rightarrow> ao_sample_format \<Rightarrow> 'z posix_scheme
    \<Rightarrow> (bool \<times> live_device \<times> ao_sample_format \<times> 'z posix_scheme) option" where
  "ao_wmm_open d format w = do {
     i \<leftarrow> wmm_state d;
     (if wmm_opened i then Some (False, d, format, w)
      else do {
        let format = format\<lparr>fmt_byte_format := AO_FMT_LITTLE\<rparr>;
        let d = d\<lparr>driver_byte_format := AO_FMT_LITTLE\<rparr>;
        wavefmt \<leftarrow> wmm_wave_format d format;
        ms \<leftarrow> wmm_block_ms (fmt_rate format);
        let i = i\<lparr>wmm_wavefmt := wavefmt, wmm_blocks := 64, wmm_splPerBlock := 512, wmm_msPerBlock := ms\<rparr>;
        let (opened, i, w) = wmm_open_device i w;
        let i = (if opened then i\<lparr>wmm_opened := True\<rparr> else i);
        let (res, i, w) = (if opened then wmm_alloc_wave_headers i w else (False, i, w));
        (if res then Some (True, set_wmm (i\<lparr>wmm_prepared := True\<rparr>) d, format, w)
         else do {
           (i, w) \<leftarrow> wmm_give_up i w;
           Some (False, set_wmm i d, format, w) }) }) }"

section \<open>Playing\<close>

text \<open>
  One turn with the block \<open>idx\<close>: the samples that go in, then, when it is full, the sending.  The
  number of bytes is an \<open>int\<close>, so that \<open>num_bytes\<close> from \<open>2 ^ 31\<close> on is a negative number of bytes to
  copy; copying past the samples of the block is taken for a fault too.
\<close>

definition wmm_fill ::
  "nat \<Rightarrow> byte list \<Rightarrow> 32 word \<Rightarrow> ao_wmm_internal \<Rightarrow> 'z posix_scheme
    \<Rightarrow> (int \<times> bool \<times> ao_wmm_internal \<times> 'z posix_scheme) option" where
  "wmm_fill idx output_samples num_bytes i w = do {
     b \<leftarrow> wmm_block i idx;
     let room = sint (wh_dwBufferLength b - word_of_int (wh_count b));
     let n = (if room > sint num_bytes then sint num_bytes else room);
     bs \<leftarrow> (if n < 0 then None else load (nat n) output_samples 0);
     data \<leftarrow> store (wh_data b) (wh_count b) bs;
     let b = b\<lparr>wh_data := data, wh_count := wh_count b + n\<rparr>;
     let i = set_wmm_block idx b i;
     (if word_of_int (wh_count b) = wh_dwBufferLength b then do {
        (ret, i, w) \<leftarrow> wmm_send_block idx (i\<lparr>wmm_full_blocks := wmm_full_blocks i + 1,
          wmm_widx := (if wmm_widx i + 1 = wmm_blocks i then 0 else wmm_widx i + 1)\<rparr>) w;
        Some (n, ret, i, w) }
      else Some (n, True, i, w)) }"

partial_function (option) wmm_play_loop ::
  "byte list \<Rightarrow> 32 word \<Rightarrow> ao_wmm_internal \<Rightarrow> 'z posix_scheme
    \<Rightarrow> (bool \<times> ao_wmm_internal \<times> 'z posix_scheme) option" where
  "wmm_play_loop output_samples num_bytes i w =
     (if num_bytes = 0 then Some (True, i, w)
      else Option.bind (wmm_get_free_block i w) (\<lambda>(idx, i, w).
        case idx of
          None \<Rightarrow> wmm_play_loop output_samples num_bytes i
            (snd (ask (Wmm (Wmm_sleep (word_of_int (wmm_msPerBlock i)))) w))
        | Some idx \<Rightarrow> Option.bind (wmm_fill idx output_samples num_bytes i w) (\<lambda>(n, ret, i, w).
            if \<not> ret then Some (False, i, w)
            else wmm_play_loop (drop (nat n) output_samples) (num_bytes - word_of_int n) i w)))"

declare wmm_play_loop.simps [code]

definition ao_wmm_play ::
  "live_device \<Rightarrow> byte list \<Rightarrow> 32 word \<Rightarrow> 'z posix_scheme
    \<Rightarrow> (bool \<times> live_device \<times> 'z posix_scheme) option" where
  "ao_wmm_play d output_samples num_bytes w = do {
     i \<leftarrow> wmm_state d;
     (r, i, w) \<leftarrow> wmm_play_loop output_samples num_bytes i w;
     Some (r, set_wmm i d, w) }"

section \<open>Closing\<close>

definition ao_wmm_close ::
  "live_device \<Rightarrow> 'z posix_scheme \<Rightarrow> (bool \<times> live_device \<times> 'z posix_scheme) option" where
  "ao_wmm_close d w = do {
     i \<leftarrow> wmm_state d;
     (i, w) \<leftarrow> (if wmm_opened i \<and> wmm_prepared i then wmm_wait True i w else Some (i, w));
     (ret, i, w) \<leftarrow> (if wmm_prepared i then do {
                       (ret, i, w) \<leftarrow> wmm_free_wave_headers i w;
                       Some (ret, i\<lparr>wmm_prepared := False\<rparr>, w) }
                     else Some (False, i, w));
     (if wmm_opened i then
        (case wmm_close_device i w of (ret, w) \<Rightarrow> Some (ret, set_wmm (i\<lparr>wmm_opened := False\<rparr>) d, w))
      else Some (ret, set_wmm i d, w)) }"

definition ao_wmm_device_clear ::
  "live_device \<Rightarrow> 'z posix_scheme \<Rightarrow> (live_device \<times> 'z posix_scheme) option" where
  "ao_wmm_device_clear d w = do {
     i \<leftarrow> wmm_state d;
     Some (d\<lparr>internal := None\<rparr>, free_block (free_opt (wmm_bigbuffer i) w)) }"

definition ao_wmm :: "(plugin_internal ao_internal, 'z posix_scheme) ao_functions" where
  "ao_wmm =
     \<lparr>fn_test = ao_wmm_test, fn_driver_info = ao_wmm_info, fn_device_init = ao_wmm_device_init,
      fn_set_option = ao_wmm_set_option, fn_open = ao_wmm_open, fn_play = ao_wmm_play,
      fn_close = ao_wmm_close, fn_device_clear = ao_wmm_device_clear, fn_file_extension = None\<rparr>"

section \<open>The ledger\<close>

text \<open>Steps that only make calls and keep the block of headers that there is.\<close>

definition wmm_calm :: "ao_wmm_internal \<Rightarrow> 'z posix_scheme \<Rightarrow> ao_wmm_internal \<Rightarrow> 'z posix_scheme \<Rightarrow> bool" where
  "wmm_calm i w i' w' \<longleftrightarrow> calls_only w w' \<and> blocks (wmm_bigbuffer i') = blocks (wmm_bigbuffer i)"

lemma wmm_calm_trans: "wmm_calm i u j v \<Longrightarrow> wmm_calm j v k w \<Longrightarrow> wmm_calm i u k w"
  unfolding wmm_calm_def using calls_only_trans by auto

lemma blocks_map [simp]: "blocks (map_option f x) = blocks x"
  by (cases x) simp_all

lemma set_wmm_block_sel [simp]:
  "blocks (wmm_bigbuffer (set_wmm_block k b i)) = blocks (wmm_bigbuffer i)"
  "wmm_hwo (set_wmm_block k b i) = wmm_hwo i" "wmm_blocks (set_wmm_block k b i) = wmm_blocks i"
  "wmm_sent_blocks (set_wmm_block k b i) = wmm_sent_blocks i" "wmm_full_blocks (set_wmm_block k b i) = wmm_full_blocks i"
  "wmm_widx (set_wmm_block k b i) = wmm_widx i" "wmm_ridx (set_wmm_block k b i) = wmm_ridx i"
  "wmm_wh (set_wmm_block k b i) = wmm_wh i" "wmm_msPerBlock (set_wmm_block k b i) = wmm_msPerBlock i"
  "wmm_opened (set_wmm_block k b i) = wmm_opened i" "wmm_prepared (set_wmm_block k b i) = wmm_prepared i"
  by (simp_all add: set_wmm_block_def)

lemma wmm_done_calm: "wmm_done k i w = Some (d, i', w') \<Longrightarrow> wmm_calm i w i' w'"
  by (auto simp: wmm_done_iff wmm_calm_def dest: ask_ret_calls)

lemma wmm_release_calm: "wmm_release ridx i w = Some (r, i', w') \<Longrightarrow> wmm_calm i w i' w'"
proof (induction ridx i w arbitrary: r i' w' rule: wmm_release.induct)
  case (1 ridx i w)
  obtain b where b: "wmm_block i ridx = Some b"
    using "1.prems" by (cases "wmm_block i ridx") (simp_all add: wmm_release.simps [of ridx])
  show ?case
  proof (cases "wh_sent b = 0")
    case True
    with "1.prems" b show ?thesis by (simp add: wmm_release.simps [of ridx] wmm_calm_def)
  next
    case False
    obtain d j u where d: "wmm_done ridx i w = Some (d, j, u)"
      using "1.prems" b False by (cases "wmm_done ridx i w") (auto simp: wmm_release.simps [of ridx])
    have rel: "wmm_calm j u (wmm_released ridx b j) u" by (simp add: wmm_calm_def wmm_released_def)
    show ?thesis
    proof (cases d)
      case True
      with "1.IH" [OF b False d refl] "1.prems" b False d
      have "wmm_calm (wmm_released ridx b j) u i' w'" by (simp add: wmm_release.simps [of ridx])
      with rel wmm_done_calm [OF d] show ?thesis by (blast intro: wmm_calm_trans)
    next
      case False
      with "1.prems" b d \<open>wh_sent b \<noteq> 0\<close> wmm_done_calm [OF d] show ?thesis
        by (simp add: wmm_release.simps [of ridx])
    qed
  qed
qed

lemma wmm_get_free_block_calm: "wmm_get_free_block i w = Some (x, i', w') \<Longrightarrow> wmm_calm i w i' w'"
  by (auto simp: wmm_get_free_block_def wmm_calm_def split: Option.bind_splits dest!: wmm_release_calm)

lemma wmm_send_block_calm: "wmm_send_block k i w = Some (ok, i', w') \<Longrightarrow> wmm_calm i w i' w'"
  by (auto simp: wmm_send_block_def Let_def wmm_calm_def split: Option.bind_splits prod.splits if_splits
      dest!: wmm_done_calm ask_ret_calls intro: calls_only_trans)

lemma wmm_fill_calm: "wmm_fill k bs n i w = Some (m, ok, i', w') \<Longrightarrow> wmm_calm i w i' w'"
  by (auto simp: wmm_fill_def wmm_calm_def split: Option.bind_splits if_splits dest!: wmm_send_block_calm)

lemma wmm_wait_calm: "wmm_wait all i w = Some (i', w') \<Longrightarrow> wmm_calm i w i' w'"
proof (induction all i w "(i', w')" rule: wmm_wait.raw_induct [rotated, consumes 1, case_names turn])
  case (turn loop all i w)
  show ?case
  proof (cases "wmm_sent_blocks i \<le> 0")
    case True
    with turn(2) show ?thesis by (simp add: wmm_calm_def)
  next
    case False
    with turn(2) obtain x j u where g: "wmm_get_free_block i w = Some (x, j, u)"
      and l: "loop all j (if 0 < wmm_sent_blocks j then snd (ask (Wmm (Wmm_sleep (wmm_nap all j))) u) else u) = Some (i', w')"
      by (auto split: Option.bind_splits)
    have "wmm_calm j u j (if 0 < wmm_sent_blocks j then snd (ask (Wmm (Wmm_sleep (wmm_nap all j))) u) else u)"
      by (simp add: wmm_calm_def)
    with turn(1) [OF l] wmm_get_free_block_calm [OF g] show ?thesis by (blast intro: wmm_calm_trans)
  qed
qed

lemma wmm_unprepare_calls: "wmm_unprepare hwo k w = (ok, w') \<Longrightarrow> calls_only w w'"
  by (induction k arbitrary: w ok) (auto split: prod.splits dest!: ask_ret_calls intro: calls_only_trans)

lemma wmm_prepare_calls: "wmm_prepare hwo k n w = (m, w') \<Longrightarrow> calls_only w w'"
  by (induction n arbitrary: k w) (auto split: prod.splits if_splits dest!: ask_ret_calls intro: calls_only_trans)

lemma wmm_free_wave_headers_calm: "wmm_free_wave_headers i w = Some (ok, i', w') \<Longrightarrow> wmm_calm i w i' w'"
  by (auto simp: wmm_free_wave_headers_def wmm_calm_def split: Option.bind_splits prod.splits if_splits
      dest!: wmm_wait_calm wmm_unprepare_calls intro: calls_only_trans [OF calls_only_trans [OF calls_only_ask]])

lemma wmm_play_loop_calm: "wmm_play_loop bs n i w = Some (r, i', w') \<Longrightarrow> wmm_calm i w i' w'"
proof (induction bs n i w "(r, i', w')" rule: wmm_play_loop.raw_induct [rotated, consumes 1, case_names turn])
  case (turn loop bs n i w)
  show ?case
  proof (cases "n = 0")
    case True
    with turn(2) show ?thesis by (simp add: wmm_calm_def)
  next
    case False
    with turn(2) obtain x j u where g: "wmm_get_free_block i w = Some (x, j, u)" by (auto split: Option.bind_splits)
    note c = wmm_get_free_block_calm [OF g]
    show ?thesis
    proof (cases x)
      case None
      let ?v = "snd (ask (Wmm (Wmm_sleep (word_of_int (wmm_msPerBlock j)))) u)"
      have "loop bs n j ?v = Some (r, i', w')" using turn(2) False g None by simp
      with turn(1) c have "wmm_calm j ?v i' w'" "wmm_calm j u j ?v" by (auto simp: wmm_calm_def)
      with c show ?thesis by (blast intro: wmm_calm_trans)
    next
      case (Some idx)
      with turn(2) False g obtain m ok k v where f: "wmm_fill idx bs n j u = Some (m, ok, k, v)"
        "if ok then loop (drop (nat m) bs) (n - word_of_int m) k v = Some (r, i', w') else k = i' \<and> v = w'"
        by (auto split: Option.bind_splits if_splits)
      from wmm_fill_calm [OF f(1)] c turn(1) f(2) show ?thesis
        by (cases ok) (auto intro: wmm_calm_trans)
    qed
  qed
qed


text \<open>A structure that changes but for its block of headers.\<close>

lemma wmm_books:
  assumes "wmm_state d = Some i" and "blocks (wmm_bigbuffer i') = blocks (wmm_bigbuffer i) + n" and "held n w w'"
  shows "books 0 plugin_blocks d w (set_wmm i' d) w'"
  by (rule books_replace [where p = "Wmm_internal i"]) (use assms in \<open>auto simp: plugin_state_iff\<close>)

lemma wmm_calm_books:
  assumes "wmm_state d = Some i" and "wmm_calm i w i' w'"
  shows "books 0 plugin_blocks d w (set_wmm i' d) w'"
  using assms calls_only_held [of w w'] by (intro wmm_books [where n = 0]) (auto simp: wmm_calm_def)

text \<open>What the options change.\<close>

definition wmm_named :: "ao_wmm_internal \<Rightarrow> 'z posix_scheme \<Rightarrow> ao_wmm_internal \<Rightarrow> 'z posix_scheme \<Rightarrow> bool" where
  "wmm_named i w i' w' \<longleftrightarrow> calls_only w w' \<and> i' = i\<lparr>wmm_id := wmm_id i', wmm_caps := wmm_caps i'\<rparr>"

lemma wmm_dev_caps_calls: "wmm_dev_caps k w = (x, w') \<Longrightarrow> calls_only w w'"
  by (auto simp: wmm_dev_caps_def split: prod.splits dest: ask_calls)

lemma wmm_num_devs_calls: "wmm_num_devs w = (x, w') \<Longrightarrow> calls_only w w'"
  by (auto simp: wmm_num_devs_def split: prod.splits dest: ask_ret_calls)

lemma wmm_find_dev_named: "wmm_find_dev v num k i w = (r, i', w') \<Longrightarrow> wmm_named i w i' w'"
proof (induction v num k i w rule: wmm_find_dev.induct)
  case (1 v num k i w)
  obtain c u where c: "wmm_dev_caps k w = (c, u)" by fastforce
  have step: "wmm_named i u i' w' \<Longrightarrow> wmm_named i w i' w'"
    using wmm_dev_caps_calls [OF c] by (auto simp: wmm_named_def intro: calls_only_trans)
  show ?case
    using "1.prems" "1.IH"(2) [OF _ c [symmetric]] "1.IH"(1) [OF _ c [symmetric]] c step wmm_dev_caps_calls [OF c]
    by (subst (asm) wmm_find_dev.simps) (auto simp: wmm_named_def split: if_splits option.splits)
qed

lemma wmm_set_id_named: "wmm_set_id v i w = (r, i', w') \<Longrightarrow> wmm_named i w i' w'"
  by (auto simp: wmm_set_id_def Let_def wmm_named_def split: prod.splits if_splits option.splits
      dest!: wmm_num_devs_calls wmm_dev_caps_calls intro: calls_only_trans)

lemma ao_wmm_set_option_named:
  assumes "ao_wmm_set_option d k v w = Some (r, d', w')"
  obtains i i' where "wmm_state d = Some i" "d' = set_wmm i' d" "wmm_named i w i' w'"
proof -
  obtain i where i: "wmm_state d = Some i"
    using assms by (auto simp: ao_wmm_set_option_def split: Option.bind_splits)
  have "\<exists>i'. d' = set_wmm i' d \<and> wmm_named i w i' w'"
  proof (cases "k = ''dev'' \<or> k = ''id''")
    case False
    with assms i have "d' = d \<and> w' = w" by (simp add: ao_wmm_set_option_def)
    moreover have "d = set_wmm i d" using i by (simp add: plugin_state_iff)
    ultimately show ?thesis by (intro exI [of _ i]) (simp add: wmm_named_def)
  next
    case True
    with assms i obtain s where "(k = ''dev'' \<longrightarrow> s = ''default'') \<and> (\<exists>i'. d' = set_wmm i' d \<and>
          wmm_set_id (if k = ''dev'' then ''0'' else s) i w = (r, i', w')) \<or>
        (\<exists>i' num u. d' = set_wmm i' d \<and> wmm_num_devs w = (num, u) \<and> wmm_find_dev s num 0 i u = (r, i', w'))"
      by (auto simp: ao_wmm_set_option_def split: Option.bind_splits prod.splits if_splits)
    then show ?thesis
    proof (elim disjE conjE exE)
      fix i' num u assume "d' = set_wmm i' d" "wmm_num_devs w = (num, u)" "wmm_find_dev s num 0 i u = (r, i', w')"
      with wmm_num_devs_calls wmm_find_dev_named show ?thesis
        by (metis (mono_tags, lifting) calls_only_trans wmm_named_def)
    qed (use wmm_set_id_named in blast)
  qed
  with i that show thesis by blast
qed

lemma wmm_named_calm: "wmm_named i w i' w' \<Longrightarrow> wmm_calm i w i' w' \<and> wmm_opened i' = wmm_opened i \<and>
    wmm_prepared i' = wmm_prepared i \<and> wmm_bigbuffer i' = wmm_bigbuffer i"
  by (cases i; cases i') (simp add: wmm_named_def wmm_calm_def)

lemma ao_wmm_set_option_law:
  assumes "ao_wmm_set_option d k v w = Some (r, d', w')"
  shows "books 0 plugin_blocks d w d' w' \<and> setup_frame d d'"
  using ao_wmm_set_option_named [OF assms] wmm_named_calm wmm_calm_books frame_internal by metis

lemma ao_wmm_init_law:
  assumes "ao_wmm_device_init d w = Some (r, d', w')" and "internal d = None" and "output_matrix d = None"
  shows "books 0 plugin_blocks d w d' w' \<and> setup_frame d d'"
proof -
  obtain ok v where m: "malloc_ok w = (ok, v)" by (cases "malloc_ok w")
  have fin: "books 0 plugin_blocks d w d' w' \<and> setup_frame d d'"
    if "strdup ''L,R,C,LFE,BL,BR,CL,CR,BC,SL,SR'' u = (s, w')" "books 0 plugin_blocks d w e u" "setup_frame d e"
      "output_matrix e = None" "d' = e\<lparr>output_matrix := s, output_matrix_order := AO_OUTPUT_MATRIX_COLLAPSIBLE\<rparr>" for s u e
    using that strdup_heap [OF that(1)]
    by (auto simp: books_def ledger setup_frame_def core_frame_def heap_step_def)
  show ?thesis
  proof (cases ok)
    case False
    obtain s u where t: "strdup ''L,R,C,LFE,BL,BR,CL,CR,BC,SL,SR'' v = (s, u)" by fastforce
    let ?d = "d\<lparr>internal := None\<rparr>"
    have u: "u = w'" and d': "d' = ?d\<lparr>output_matrix := s, output_matrix_order := AO_OUTPUT_MATRIX_COLLAPSIBLE\<rparr>"
      using assms(1) m t False by (simp_all add: ao_wmm_device_init_def)
    have b: "books 0 plugin_blocks d w ?d v"
      using malloc_ok_heap [OF m] False assms(2) by (simp add: books_def ledger heap_step_def)
    show ?thesis by (rule fin [OF t [unfolded u] b frame_internal(2) _ d']) (simp add: assms(3))
  next
    case True
    let ?d = "set_wmm wmm_zero d"
    obtain x e u s where o: "ao_wmm_set_option ?d ''id'' (Some ''0'') v = Some (x, e, u)"
      and t: "strdup ''L,R,C,LFE,BL,BR,CL,CR,BC,SL,SR'' u = (s, w')"
      "d' = e\<lparr>output_matrix := s, output_matrix_order := AO_OUTPUT_MATRIX_COLLAPSIBLE\<rparr>"
      using assms(1) m True by (auto simp: ao_wmm_device_init_def split: Option.bind_splits prod.splits)
    have b: "books 0 plugin_blocks d w ?d v"
      using books_first [of d "Wmm_internal wmm_zero" w v] assms(2) malloc_ok_heap [OF m] True
      by (simp add: wmm_zero_def held_def heap_step_def)
    note law = ao_wmm_set_option_law [OF o]
    have "output_matrix e = None" by (rule ao_wmm_set_option_named [OF o]) (simp add: assms(3))
    moreover have "setup_frame d e" by (rule setup_frame_trans [OF frame_internal(2) conjunct2 [OF law]])
    ultimately show ?thesis by (intro fin [OF t(1) books_trans0 [OF b conjunct1 [OF law]] _ _ t(2)])
  qed
qed


text \<open>Before \<open>open\<close> nothing is opened and there are no headers.\<close>

definition wmm_closed :: "ao_wmm_internal \<Rightarrow> bool" where
  "wmm_closed i \<longleftrightarrow> \<not> wmm_opened i \<and> \<not> wmm_prepared i \<and> wmm_bigbuffer i = None"

lemma wmm_named_closed: "wmm_named i w i' w' \<Longrightarrow> wmm_closed i \<Longrightarrow> wmm_closed i'"
  using wmm_named_calm [of i w i' w'] by (simp add: wmm_closed_def)

lemma wmm_prepared_closed:
  "prepared (ao_wmm :: (plugin_internal ao_internal, 'z posix_scheme) ao_functions) x \<Longrightarrow>
   \<exists>i. x = Some (Plugin_internal (Wmm_internal i)) \<and> wmm_closed i"
proof (induction rule: prepared.induct)
  case (prepared_init d w d' w')
  then obtain u v :: "'z posix_scheme" and x e where
    "ao_wmm_set_option (set_wmm wmm_zero d) ''id'' (Some ''0'') u = Some (x, e, v)" "internal d' = internal e"
    by (auto simp: ao_wmm_def ao_wmm_device_init_def split: Option.bind_splits prod.splits if_splits)
  from ao_wmm_set_option_named [OF this(1)] obtain i i' where
    "wmm_state (set_wmm wmm_zero d) = Some i" "e = set_wmm i' (set_wmm wmm_zero d)" "wmm_named i u i' v" .
  moreover have "wmm_closed wmm_zero" by (simp add: wmm_closed_def wmm_zero_def)
  ultimately show ?case using wmm_named_closed \<open>internal d' = internal e\<close> by (simp; blast)
next
  case (prepared_option d k v w r d' w')
  then have "ao_wmm_set_option d k v w = Some (r, d', w')" by (simp add: ao_wmm_def)
  then obtain i i' where i: "wmm_state d = Some i" "d' = set_wmm i' d" "wmm_named i w i' w'"
    by (rule ao_wmm_set_option_named)
  from prepared_option i(1) have "wmm_closed i" by (auto simp: plugin_state_iff)
  with i(2,3) wmm_named_closed show ?case by auto
qed

lemma wmm_open_device_calls: "wmm_open_device i w = (ok, i', w') \<Longrightarrow> calls_only w w' \<and>
    i' = i\<lparr>wmm_hwo := wmm_hwo i', wmm_id := wmm_id i'\<rparr>"
  by (auto simp: wmm_open_device_def Let_def split: prod.splits if_splits dest!: ask_calls intro: calls_only_trans)

lemma wmm_close_device_calls: "calls_only w (snd (wmm_close_device i w))"
  by (simp add: wmm_close_device_def split_beta)

lemma wmm_alloc_held:
  assumes "wmm_alloc_wave_headers i w = (ok, i', w')"
  shows "held (of_bool ok) w w' \<and> blocks (wmm_bigbuffer i') = of_bool ok \<and>
    wmm_opened i' = wmm_opened i \<and> wmm_prepared i' = wmm_prepared i"
proof -
  obtain m u where m: "malloc_ok w = (m, u)" by fastforce
  obtain k v where k: "wmm_prepare (wmm_hwo i) 0 (wmm_blocks i) u = (k, v)" by fastforce
  have u: "held (of_bool m) w u" using malloc_ok_heap [OF m] by (simp add: held_def heap_step_def)
  have v: "held (of_bool m) w v" using held_trans [OF u calls_only_held [OF wmm_prepare_calls [OF k]]] by simp
  have "held (of_bool m) w (snd (wmm_unprepare h n v))" for h n
    using held_trans [OF v calls_only_held [OF wmm_unprepare_calls [OF surjective_pairing]]] by simp
  then have "m \<Longrightarrow> held 0 w (free_block (snd (wmm_unprepare h n v)))" for h n
    by (force simp: held_def free_block_def)
  with assms m k u v show ?thesis by (auto simp: wmm_alloc_wave_headers_def Let_def split: if_splits)
qed

lemma ao_wmm_open_law:
  assumes "ao_wmm_open d format w = Some (r, d', sf', w')" and "wmm_state d = Some i" and "wmm_closed i"
  shows "books 0 plugin_blocks d w d' w' \<and> core_frame d d' \<and> fmt_matrix sf' = fmt_matrix format"
proof -
  obtain wf ms where f: "wmm_wave_format (d\<lparr>driver_byte_format := AO_FMT_LITTLE\<rparr>) (format\<lparr>fmt_byte_format := AO_FMT_LITTLE\<rparr>) = Some wf"
    "wmm_block_ms (fmt_rate format) = Some ms"
    using assms by (auto simp: ao_wmm_open_def wmm_closed_def split: Option.bind_splits)
  let ?i = "i\<lparr>wmm_wavefmt := wf, wmm_blocks := 64, wmm_splPerBlock := 512, wmm_msPerBlock := ms\<rparr>"
  obtain ok1 i1 w1 where 1: "wmm_open_device ?i w = (ok1, i1, w1)" by (metis prod_cases3)
  let ?i1 = "if ok1 then i1\<lparr>wmm_opened := True\<rparr> else i1"
  obtain ok2 i2 w2 where 2: "(if ok1 then wmm_alloc_wave_headers ?i1 w1 else (False, ?i1, w1)) = (ok2, i2, w2)"
    by (metis prod_cases3)
  have c1: "calls_only w w1" "wmm_opened i1 = wmm_opened i" "wmm_prepared i1 = wmm_prepared i" "wmm_bigbuffer i1 = wmm_bigbuffer i"
    using wmm_open_device_calls [OF 1] by (cases i1; simp)+
  have c2: "held (of_bool ok2) w1 w2" "blocks (wmm_bigbuffer i2) = of_bool ok2" "wmm_opened i2 = ok1" "\<not> wmm_prepared i2"
    using 2 c1(2-4) wmm_alloc_held [of ?i1 w1 ok2 i2 w2] assms(3)
    by (cases ok1; auto simp: wmm_closed_def held_def)+
  have w2: "held (of_bool ok2) w w2" using held_trans [OF calls_only_held [OF c1(1)] c2(1)] by simp
  let ?d = "d\<lparr>driver_byte_format := AO_FMT_LITTLE\<rparr>"
  have bk: "books 0 plugin_blocks d w (set_wmm j ?d) v"
    if "blocks (wmm_bigbuffer j) = n" "held n w v" for j n v
    using wmm_books [of ?d i j n w v] that assms(2,3) by (auto simp: wmm_closed_def books_def ledger plugin_state_iff)
  show ?thesis
  proof (cases ok2)
    case True
    with assms f 1 2 have "d' = set_wmm (i2\<lparr>wmm_prepared := True\<rparr>) ?d" "w' = w2"
      "sf' = format\<lparr>fmt_byte_format := AO_FMT_LITTLE\<rparr>"
      by (auto simp: ao_wmm_open_def wmm_closed_def Let_def)
    with bk [of "i2\<lparr>wmm_prepared := True\<rparr>" "of_bool ok2" w2] c2 w2 show ?thesis by (simp add: core_frame_def)
  next
    case False
    let ?v = "if ok1 then snd (wmm_close_device i2 w2) else w2"
    from False assms f 1 2 c2 obtain j where j: "d' = set_wmm j ?d" "blocks (wmm_bigbuffer j) = 0" "w' = ?v"
      "sf' = format\<lparr>fmt_byte_format := AO_FMT_LITTLE\<rparr>"
      by (auto simp: ao_wmm_open_def wmm_closed_def Let_def wmm_give_up_def split: if_splits)
    have "held 0 w ?v" using False w2 held_trans [OF w2 calls_only_held [OF wmm_close_device_calls]] by simp
    with bk j show ?thesis by (simp add: core_frame_def)
  qed
qed


interpretation wmm: ao_driver ao_wmm plugin_blocks
proof
  fix d d' :: live_device and w w' :: "'a posix_scheme" and r
  show "fn_device_init ao_wmm d w = Some (r, d', w') \<Longrightarrow> internal d = None \<Longrightarrow>
      output_matrix d = None \<Longrightarrow> books 0 plugin_blocks d w d' w' \<and> setup_frame d d'"
    using ao_wmm_init_law by (simp add: ao_wmm_def)
  show "fn_set_option ao_wmm d k v w = Some (r, d', w') \<Longrightarrow>
      books 0 plugin_blocks d w d' w' \<and> setup_frame d d'" for k v
    using ao_wmm_set_option_law by (simp add: ao_wmm_def)
  show "prepared (ao_wmm :: (plugin_internal ao_internal, 'a posix_scheme) ao_functions) (internal d) \<Longrightarrow>
      fn_open ao_wmm d sf w = Some (r, d', sf', w') \<Longrightarrow>
      books 0 plugin_blocks d w d' w' \<and> core_frame d d' \<and> fmt_matrix sf' = fmt_matrix sf" for sf sf'
    using wmm_prepared_closed [of "internal d"] ao_wmm_open_law [of d sf w r d' sf' w']
    by (auto simp: ao_wmm_def plugin_state_iff)
  show "fn_play ao_wmm d bs n w = Some (r, d', w') \<Longrightarrow>
      books 0 plugin_blocks d w d' w' \<and> d' = d\<lparr>internal := internal d'\<rparr>" for bs n
    by (auto simp: ao_wmm_def ao_wmm_play_def intro!: wmm_calm_books
        split: Option.bind_splits dest!: wmm_play_loop_calm)
  show "books 0 plugin_blocks d w d' w' \<and> core_frame d d'" if "fn_close ao_wmm d w = Some (r, d', w')"
  proof -
    from that obtain i j u k x ret where "wmm_state d = Some i"
      "(if wmm_opened i \<and> wmm_prepared i then wmm_wait True i w else Some (i, w)) = Some (j, u)"
      "(if wmm_prepared j then do { (ret, i, w) \<leftarrow> wmm_free_wave_headers j u; Some (ret, i\<lparr>wmm_prepared := False\<rparr>, w) }
        else Some (False, j, u)) = Some (ret, k, x)"
      "d' = set_wmm (if wmm_opened k then k\<lparr>wmm_opened := False\<rparr> else k) d"
      "w' = (if wmm_opened k then snd (wmm_close_device k x) else x)"
      by (auto simp: ao_wmm_def ao_wmm_close_def split: Option.bind_splits prod.splits if_splits)
    moreover from this have "wmm_calm i w j u" "wmm_calm j u k x"
      by (auto simp: wmm_calm_def split: if_splits Option.bind_splits dest!: wmm_wait_calm wmm_free_wave_headers_calm)
    ultimately have "wmm_calm i w (if wmm_opened k then k\<lparr>wmm_opened := False\<rparr> else k) w'"
      using wmm_close_device_calls [of x k] by (auto simp: wmm_calm_def intro: calls_only_trans)
    from wmm_calm_books [OF \<open>wmm_state d = Some i\<close> this] \<open>d' = _\<close> show ?thesis
      by (cases "wmm_opened k") (simp_all add: core_frame_def)
  qed
  show "fn_device_clear ao_wmm d w = Some (d', w') \<Longrightarrow>
      books 0 plugin_blocks d w d' w' \<and> core_frame d d' \<and> internal d' = None"
    by (auto simp: ao_wmm_def ao_wmm_device_clear_def books_def ledger plugin_state_iff
        split: Option.bind_splits if_splits)
qed

end
