(* ===== verification/AO_Drivers.thy ===== *)
theory AO_Drivers
  imports AO_Demo AO_Oss AO_Sun AO_Esd AO_Sndio AO_Arts AO_Nas AO_Irix AO_Pulse AO_Roar AO_Alsa AO_Macosx AO_Wmm
begin

text \<open>
  All the modelled drivers together: each satisfies the contract \<open>ao_driver\<close>, so what is proved
  from the contract holds for every one of them.
\<close>

section \<open>The ledger of a session\<close>

lemma fopen_w_heap:
  assumes "fopen_w name w = (f, w')"
  shows "w_live w' = w_live w" "w_allocs w' = w_allocs w"
  using assms by (auto simp: fopen_w_def split: option.splits if_splits)

context ao_driver
begin

lemma play_all_law:
  "play_all (Some (F, d)) blks w = Some (r, dev, w') \<Longrightarrow>
   \<exists>d'. dev = Some (F, d') \<and> books 0 blk d w d' w'"
proof (induction blks arbitrary: d w)
  case Nil
  then show ?case by auto
next
  case (Cons b blks)
  obtain n samples where b: "b = (n, samples)" by (cases b)
  from Cons.prems b obtain ok e v where p:
    "ao_play (Some (F, d)) samples (of_nat (in_bytes d n)) w = Some (ok, e, v)"
    by (auto split: Option.bind_splits)
  from ao_play_law [OF p] obtain d1 where d1: "e = Some (F, d1)" "books 0 blk d w d1 v" .
  show ?case
  proof (cases ok)
    case False
    with Cons.prems b p d1 show ?thesis by auto
  next
    case True
    with Cons.prems b p d1 have "play_all (Some (F, d1)) blks v = Some (r, dev, w')" by auto
    from Cons.IH [OF this] d1(2) books_trans0 show ?thesis by blast
  qed
qed

lemma ao_open_live_law:
  assumes "ao_open_live did format opts lib w = Some (dev, w')"
    and "get_driver did lib = Some drv" "drv_functions drv = F"
  shows "exact dev (w_live w) w w'"
  by (rule open_device_law [of did format opts None lib]) (use assms in \<open>auto simp: ao_open_live_def\<close>)

lemma ao_open_file_law:
  assumes o: "ao_open_file did name overwrite format opts lib w = Some (dev, w')"
    and drv: "get_driver did lib = Some drv" "drv_functions drv = F"
  shows "exact dev (w_live w) w w'"
proof (cases "name \<noteq> ''-'' \<and> \<not> overwrite \<and> fopen_r name w \<noteq> None")
  case True
  with o have "dev = None" "w' = set_errno AO_EFILEEXISTS w" by (auto simp: ao_open_file_def)
  then show ?thesis by (simp add: exact_def settled_def)
next
  case False
  obtain f v where f: "(if name = ''-'' then (Some 0, w) else fopen_w name w) = (f, v)" by fastforce
  have v: "w_live v = w_live w" "w_allocs v = w_allocs w"
    using f fopen_w_heap [of name w f v] by (auto split: if_splits)
  have body: "ao_open_file did name overwrite format opts lib w = (case f of
      None \<Rightarrow> Some (None, set_errno AO_EOPENFILE v)
    | Some f \<Rightarrow> do {
        (dev, w) \<leftarrow> open_device did format opts (Some f) lib v;
        (if dev = None then do { w \<leftarrow> fclose f w; Some (None, w) } else Some (dev, w)) })"
    using False f unfolding ao_open_file_def by auto
  show ?thesis
  proof (cases f)
    case None
    with o body v show ?thesis by (auto simp: exact_def settled_def)
  next
    case (Some k)
    with o body obtain e u where e: "open_device did format opts (Some k) lib v = Some (e, u)"
      by (auto split: Option.bind_splits)
    have x: "exact e (w_live v) v u"
      by (rule open_device_law [OF e]) (use drv in simp)
    show ?thesis
    proof (cases e)
      case None
      with o body Some e obtain t where "fclose k u = Some t" "dev = None" "w' = t"
        by (auto split: Option.bind_splits)
      moreover note same_but_streams_sel [OF fclose_same [OF \<open>fclose k u = Some t\<close>]]
      ultimately show ?thesis using None x v
        by (auto simp: exact_def settled_def)
    next
      case e': (Some p)
      with o body Some e have "dev = e" "w' = u" by auto
      with x v show ?thesis by (simp add: exact_def)
    qed
  qed
qed

text \<open>What a client takes from the heap between opening and closing, it gives back.\<close>

lemma session_law:
  assumes "exact (Some dev) n w0 w" and "play_all (Some dev) blks w = Some (r, dev', w1)"
    and "ao_close dev' w1 = Some (r', w2)"
  shows "w_live w2 = n"
proof -
  obtain d where d: "dev = (F, d)" "w_live w = n + 1 + device_blocks blk d"
    using assms(1) by (cases dev) (auto simp: exact_def settled_def)
  from play_all_law [of d blks w r dev' w1] assms(2) d(1) obtain d' where
    d': "dev' = Some (F, d')" "books 0 blk d w d' w1" by auto
  from ao_close_law [of d' w1 r' w2] assms(3) d' d(2) show ?thesis by (auto simp: books_def)
qed

text \<open>
  An open that fails after the device was made, at \<open>error\<close>, has closed the device's file: closing
  it again is a fault.
\<close>

lemma open_error_closes:
  assumes "open_error (Some (F, d)) im w = Some (dev, w')" and "dev_file d = Some f"
  shows "fclose f w' = None"
proof -
  from assms(1) obtain r v where "ao_close (Some (F, d)) (free_opt im w) = Some (r, v)"
    and w': "w' = set_errno (w_errno w) v"
    by (auto simp: open_error_def split: Option.bind_splits)
  then obtain r d1 w1 d2 w2 v1 where c: "fn_close F d (free_opt im w) = Some (r, d1, w1)"
    "fn_device_clear F d1 w1 = Some (d2, w2)"
    "(case dev_file d2 of None \<Rightarrow> Some w2 | Some f \<Rightarrow> fclose f w2) = Some v1" "v = free_device d2 v1"
    by (auto simp: ao_close_def split: Option.bind_splits)
  have "dev_file d2 = Some f"
    using close_law [OF c(1)] clear_law [OF c(2)] assms(2) by (simp add: core_frame_def)
  then have "fclose f v1 = None" using fclose_twice c(3) by simp
  moreover have "get_stream f w' = get_stream f v1"
    unfolding w' c(4) free_device_def
    by (simp add: get_stream_def set_errno_def heap_stepD(6) [OF free_opt_heap] heap_stepD(6) [OF free_block_heap])
  ultimately show ?thesis by (cases "get_stream f v1") (simp_all add: fclose_def)
qed

text \<open>When the swap buffer cannot be had, the maps of the device are never freed.\<close>

lemma finish_open_leaks:
  assumes "finish_open F d im w = Some (None, w')" and "swap_buffer d = None"
    and "w_live w = n + 1 + device_blocks blk d + blocks im"
  shows "n + blocks (input_map d) + blocks (inter_permute d) \<le> w_live w'"
proof -
  let ?d = "d\<lparr>driver_byte_format := real_byte_format (driver_byte_format d) w\<rparr>"
  obtain ok e v where r: "realloc_swap_buffer ?d DEF_SWAP_BUF_SIZE w = (ok, e, v)"
    by (cases "realloc_swap_buffer ?d DEF_SWAP_BUF_SIZE w")
  note rc = realloc_swap_buffer_cases [OF r]
  from assms(1) r obtain x d1 w1 d2 w2 where c: "\<not> ok" "fn_close F e (free_opt im v) = Some (x, d1, w1)"
    "fn_device_clear F d1 w1 = Some (d2, w2)" "w' = set_errno AO_EFAIL (free_block w2)"
    by (auto simp: finish_open_def split: Option.bind_splits if_splits)
  then have e: "e = ?d" using rc(3) by simp
  have b: "books 0 blk e (free_opt im v) d2 w2"
    using close_law [OF c(2)] clear_law [OF c(3)] books_trans0 by blast
  have "input_map d2 = input_map d" "inter_permute d2 = inter_permute d"
    using close_law [OF c(2)] clear_law [OF c(3)] by (simp_all add: core_frame_def e)
  then have "blocks (input_map d) + blocks (inter_permute d) \<le> device_blocks blk d2"
    using clear_law [OF c(3)] by (simp add: ledger)
  moreover have "device_blocks blk e = device_blocks blk d" using e by (simp add: ledger)
  ultimately show ?thesis
    using b free_opt_heap [of im v] rc(1) e assms(3) c(4)
    by (simp add: books_def heap_step_def set_errno_def free_block_def)
qed

end

section \<open>Every driver\<close>

text \<open>What the drivers are built with.\<close>

record driver_builds =
  build_oss :: oss_build
  build_esd :: esd_header
  build_arts :: arts_build
  build_nas :: nas_header
  build_irix :: irix_header
  build_pulse :: pulse_header
  build_roar :: roar_build
  build_alsa :: alsa_header
  build_macosx :: mac_header

text \<open>ALSA is the one whose \<open>close\<close> looks whether there is an internal structure.\<close>

definition unguarded_drivers ::
  "driver_builds \<Rightarrow> (plugin_internal ao_internal, 'z posix_scheme) ao_functions list" where
  "unguarded_drivers b = [ao_oss (build_oss b), ao_sun, ao_esd (build_esd b), ao_sndio, ao_arts (build_arts b),
     ao_nas (build_nas b), ao_irix (build_irix b), ao_pulse (build_pulse b), ao_roar (build_roar b),
     ao_macosx (build_macosx b), ao_wmm]"

definition live_drivers ::
  "driver_builds \<Rightarrow> (plugin_internal ao_internal, 'z posix_scheme) ao_functions list" where
  "live_drivers b = unguarded_drivers b @ [ao_alsa (build_alsa b)]"

lemmas drivers_defs = live_drivers_def unguarded_drivers_def

definition all_drivers ::
  "driver_builds \<Rightarrow> (plugin_internal ao_internal, 'z posix_scheme) ao_functions set" where
  "all_drivers b = {ao_null, ao_wav, ao_raw, ao_au} \<union> set (live_drivers b)"

lemma all_drivers_contract: "F \<in> all_drivers b \<Longrightarrow> \<exists>blk. ao_driver F blk"
  unfolding all_drivers_def drivers_defs set_append
  using null.ao_driver_axioms wav.ao_driver_axioms raw.ao_driver_axioms au.ao_driver_axioms
    oss.ao_driver_axioms sun.ao_driver_axioms esd.ao_driver_axioms sndio.ao_driver_axioms
    arts.ao_driver_axioms nas.ao_driver_axioms irix.ao_driver_axioms pulse.ao_driver_axioms roar.ao_driver_axioms alsa.ao_driver_axioms
    macosx.ao_driver_axioms wmm.ao_driver_axioms
  by (simp only: set_simps Un_insert_left Un_insert_right Un_empty_left Un_empty_right insert_iff Un_iff empty_iff) blast

section \<open>A library with every driver\<close>

definition live_build :: oss_build where
  "live_build = \<lparr>broken_oss = True, dsp_channels = True, AFMT_S8 = 0x40, AFMT_S16_LE = 0x10, AFMT_S16_BE = 0x20\<rparr>"

definition live_header :: esd_header where
  "live_header = \<lparr>ESD_BITS8 = 0, ESD_BITS16 = 1, ESD_MONO = 0x10, ESD_STEREO = 0x20, ESD_STREAM = 0,
     ESD_PLAY = 0x1000, ESM_RUNNING = 1\<rparr>"

definition live_builds :: driver_builds where
  "live_builds =
     \<lparr>build_oss = live_build, build_esd = live_header,
      build_arts = \<lparr>HAVE_ARTS_SUSPENDED = True, ARTS_P_BLOCKING = 7, ARTS_P_BUFFER_SIZE = 1\<rparr>,
      build_nas = \<lparr>AuFormatLinearUnsigned8 = 2, AuFormatLinearSigned16MSB = 4, AuFormatLinearSigned16LSB = 6,
        AuComponentKindPhysicalOutput = 1, AuElementNotifyKindLowWater = 1, AuElementNotifyKindState = 3,
        AuStatePause = 2, AuReasonUser = 0,
        au_server_devices = (\<lambda>_. [\<lparr>au_kind = 1, au_num_tracks = 2, au_identifier = 9\<rparr>])\<rparr>,
      build_irix = \<lparr>AL_DEFAULT_OUTPUT = 1, AL_SAMPLE_8 = 1, AL_SAMPLE_16 = 2, AL_SAMPLE_24 = 4,
        AL_SAMPFMT_TWOSCOMP = 1\<rparr>,
      build_pulse = \<lparr>PACKAGE_BUGREPORT = ''xiph'', PA_SAMPLE_U8 = 0, PA_SAMPLE_S16NE = 3, PA_SAMPLE_S24NE = Some 9,
        PA_CHANNELS_MAX = 32, PA_CHANNEL_POSITION_INVALID = -1, pa_path_get_filename = (\<lambda>s. s)\<rparr>,
      build_roar = \<lparr>has_simple_connect2 = True, ROAR_WAS_NO_SLP = None, has_set_mixer = True,
        ROAR_ROLE_UNKNOWN = -1, ROAR_CODEC_DEFAULT = 1\<rparr>,
      build_alsa = \<lparr>USE_ALSA_MMIO = False, SND_PCM_ACCESS_MMAP_INTERLEAVED = 0, SND_PCM_ACCESS_RW_INTERLEAVED = 3,
        SND_PCM_FORMAT_U8 = 1, SND_PCM_FORMAT_S16 = 2, SND_PCM_FORMAT_S24 = 6, SND_PCM_FORMAT_S32 = 10,
        SND_PCM_FORMAT_S24_3LE = 32, SND_PCM_FORMAT_S24_3BE = 33\<rparr>,
      build_macosx = \<lparr>kAudioObjectUnknown = 0, kAudioFormatFlagIsFloat = 1, kAudioFormatFlagIsBigEndian = 2,
        kAudioFormatFlagIsSignedInteger = 4, kAudioFormatFlagIsPacked = 8, kAudioFormatFlagsNativeEndian = 0\<rparr>\<rparr>"

definition live_functions :: "(plugin_internal ao_internal, posix) ao_functions list" where
  "live_functions = [ao_null, ao_wav, ao_raw, ao_au] @ live_drivers live_builds"

definition live_lib :: "(plugin_internal ao_internal, posix) ao_lib" where
  "live_lib =
     \<lparr>driver_head = map (\<lambda>f. \<lparr>drv_functions = f, drv_handle = None\<rparr>) live_functions,
      config = \<lparr>default_driver = None\<rparr>, info_table = None, driver_count = 0, global_dummy = Some 0,
      global_options = []\<rparr>"

definition live_driver :: "nat \<Rightarrow> (plugin_internal ao_internal, posix) ao_driver_entry" where
  "live_driver k = driver_head live_lib ! k"

lemma live_get_driver: "n < 16 \<Longrightarrow> get_driver (int n) live_lib = Some (live_driver n)"
  by (simp add: get_driver_eq live_lib_def live_functions_def drivers_defs live_driver_def)

lemma live_driver_functions:
  "drv_functions (live_driver 0) = ao_null" "drv_functions (live_driver 3) = ao_au"
  "drv_functions (live_driver 4) = ao_oss live_build" "drv_functions (live_driver 5) = ao_sun"
  "drv_functions (live_driver 6) = ao_esd live_header" "drv_functions (live_driver 7) = ao_sndio"
  by (simp_all add: live_driver_def live_lib_def live_functions_def drivers_defs live_builds_def)

lemma live_functions_contract: "n < 16 \<Longrightarrow> drv_functions (live_driver n) \<in> all_drivers live_builds"
proof -
  assume n: "n < 16"
  have "length live_functions = 16" by (simp add: live_functions_def drivers_defs)
  with n have "drv_functions (live_driver n) = live_functions ! n" "live_functions ! n \<in> set live_functions"
    by (simp_all add: live_driver_def live_lib_def)
  then show ?thesis by (auto simp: live_functions_def all_drivers_def)
qed

definition stereo_format :: ao_sample_format where
  "stereo_format = \<lparr>fmt_bits = 16, fmt_rate = 44100, fmt_channels = 2, fmt_byte_format = AO_FMT_LITTLE, fmt_matrix = None\<rparr>"

text \<open>A session with the OSS driver on the system of \<open>AO_Demo\<close>, by evaluation.\<close>

definition demo_session ::
  "int \<Rightarrow> ao_option list \<Rightarrow> (nat \<times> byte list) list \<Rightarrow> bool list
    \<Rightarrow> ((plugin_internal ao_internal, posix) opened \<times> posix \<times> bool \<times> (plugin_internal ao_internal, posix) opened
        \<times> posix \<times> bool \<times> posix) option" where
  "demo_session did opts blks allocs = do {
     (dev, w1) \<leftarrow> ao_open_live did stereo_format opts live_lib (demo_posix demo_answer allocs);
     (r, dev', w2) \<leftarrow> play_all dev blks w1;
     (r', w3) \<leftarrow> ao_close dev' w2;
     Some (dev, w1, r, dev', w2, r', w3) }"

lemma demo_session_D:
  assumes "demo_session did opts blks allocs = Some (dev, w1, r, dev', w2, r', w3)"
  shows "ao_open_live did stereo_format opts live_lib (demo_posix demo_answer allocs) = Some (dev, w1)"
    "play_all dev blks w1 = Some (r, dev', w2)" "ao_close dev' w2 = Some (r', w3)"
  using assms by (auto simp: demo_session_def split: Option.bind_splits)

lemma demo_session_oss:
  obtains dev w1 r dev' w2 r' w3 where
    "demo_session 4 [] [(2, [1, 2, 3, 4, 5, 6, 7, 8])] [] = Some (Some dev, w1, r, dev', w2, r', w3)"
proof -
  have "case demo_session 4 [] [(2, [1, 2, 3, 4, 5, 6, 7, 8])] [] of
      Some (Some dev, w1, r, dev', w2, r', w3) \<Rightarrow> r \<and> r' | _ \<Rightarrow> False"
    by code_simp
  then show ?thesis using that by (auto split: option.splits prod.splits)
qed

section \<open>A driver without memory\<close>

lemma live_init_fails:
  assumes "F \<in> set (unguarded_drivers b)" and "internal d = None" and "w_allocs w = False # rest"
  shows "info_type (fn_driver_info F) = AO_TYPE_LIVE \<and>
    (\<exists>d' w'. fn_device_init F d w = Some (False, d', w') \<and> internal d' = None) \<and> (\<forall>e v. internal e = None \<longrightarrow> fn_close F e v = None)"
proof -
  have m: "malloc_ok w = (False, w\<lparr>w_allocs := rest\<rparr>)" using assms(3) by (simp add: malloc_ok_def)
  have s: "oss_state e = None" "sun_state e = None" "esd_state e = None" "sndio_state e = None" "arts_state e = None"
    "nas_state e = None" "irix_state e = None" "pulse_state e = None" "roar_state e = None" "macosx_state e = None"
    "wmm_state e = None" if "internal e = None" for e
    using that by (simp_all add: oss_state_def sun_state_def esd_state_def sndio_state_def arts_state_def
        nas_state_def irix_state_def pulse_state_def roar_state_def macosx_state_def wmm_state_def)
  have "F = ao_oss (build_oss b) \<or> F = ao_sun \<or> F = ao_esd (build_esd b) \<or> F = ao_sndio \<or> F = ao_arts (build_arts b) \<or>
      F = ao_nas (build_nas b) \<or> F = ao_irix (build_irix b) \<or> F = ao_pulse (build_pulse b) \<or> F = ao_roar (build_roar b) \<or>
      F = ao_macosx (build_macosx b) \<or> F = ao_wmm"
    using assms(1) by (simp add: unguarded_drivers_def)
  then show ?thesis
    by (elim disjE)
       (simp_all add: m s assms(2) ao_oss_def ao_oss_info_def ao_oss_device_init_def ao_oss_close_def
         ao_sun_def ao_sun_info_def ao_sun_device_init_def ao_sun_close_def
         ao_esd_def ao_esd_info_def ao_esd_device_init_def ao_esd_close_def
         ao_sndio_def ao_sndio_info_def ao_sndio_device_init_def ao_sndio_close_def
         ao_arts_def ao_arts_info_def ao_arts_device_init_def ao_arts_close_def
         ao_nas_def ao_nas_info_def ao_nas_device_init_def ao_nas_close_def
         ao_irix_def ao_irix_info_def ao_irix_device_init_def ao_irix_close_def
         ao_pulse_def ao_pulse_info_def ao_pulse_device_init_def ao_pulse_close_def
         ao_roar_def ao_roar_info_def ao_roar_device_init_def ao_roar_close_def
         ao_macosx_def ao_macosx_info_def ao_macosx_device_init_def ao_macosx_close_def
         ao_wmm_def ao_wmm_info_def ao_wmm_device_init_def ao_wmm_close_def split: prod.splits)
qed


end
