(* ===== verification/AO_Live.thy ===== *)
theory AO_Live
  imports AO_Drivers
begin

text \<open>
  What the live drivers promise to the system they drive and to the client: what of the samples
  arrives, that \<open>play\<close> returns, and that descriptors, handles and the environment are left as
  they should be, or are not.
\<close>

section \<open>OSS\<close>

text \<open>
  C12.  \<open>play\<close> of the OSS driver loses and reorders nothing: however a call that returns ends, what
  the device got is a prefix of the samples, and it is all of them exactly when \<open>play\<close> says so or
  there was nothing left to send.
\<close>

theorem oss_play_prefix:
  assumes "oss_state d = Some i" and "write_bounds (p_answer w) (oss_fd i)"
    and "ao_oss_play d samples n w = Some (r, d', w')"
  shows "\<exists>m \<le> unat n. m \<le> length samples \<and> d' = d \<and>
    delivered (oss_fd i) w' = delivered (oss_fd i) w @ take m samples \<and> (r \<longrightarrow> m = unat n)"
proof -
  from assms(1,3) have l: "oss_play_loop (oss_fd i) (oss_buf_size i) samples n w = Some (r, w')" "d' = d"
    by (auto simp: ao_oss_play_def split: Option.bind_splits)
  from oss_play_loop_delivers [OF l(1) assms(2)] l(2) show ?thesis by simp
qed

text \<open>An open device, as \<open>open\<close> leaves it.\<close>

definition oss_ready :: "int \<Rightarrow> live_device" where
  "oss_ready n = set_oss \<lparr>oss_dev = Some ''/dev/dsp'', oss_id = -1, oss_fd = 3, oss_buf_size = n,
     oss_buffer_time = AO_OSS_BUFFER_TIME\<rparr> (fresh_device 4 (ao_oss live_build :: (plugin_internal ao_internal, posix) ao_functions)
       stereo_format None False)"

lemma oss_ready_state: "oss_state (oss_ready n) =
    Some \<lparr>oss_dev = Some ''/dev/dsp'', oss_id = -1, oss_fd = 3, oss_buf_size = n, oss_buffer_time = AO_OSS_BUFFER_TIME\<rparr>"
  by (simp add: oss_ready_def)

definition oss_demo_play :: "(bool \<times> live_device \<times> posix) option" where
  "oss_demo_play = ao_oss_play (oss_ready 4) [1, 2, 3, 4, 5, 6] 6 (demo_posix demo_answer [])"

theorem oss_play_prefix_witness:
  "\<exists>r d' w'. oss_demo_play = Some (r, d', w') \<and>
    (\<exists>m \<le> 6. d' = oss_ready 4 \<and> delivered 3 w' = take m [1, 2, 3, 4, 5, 6] \<and> (r \<longrightarrow> m = 6))"
proof -
  have "case oss_demo_play of Some (r, d', w') \<Rightarrow> r | None \<Rightarrow> False"
    unfolding oss_demo_play_def by code_simp
  then obtain r d' w' where p: "oss_demo_play = Some (r, d', w')" by (auto split: option.splits)
  have a: "write_bounds (p_answer (demo_posix demo_answer [])) 3" "delivered 3 (demo_posix demo_answer []) = []"
    using demo_answer_bounds by (simp_all add: demo_posix_def delivered_def)
  from oss_play_prefix [OF oss_ready_state _ p [unfolded oss_demo_play_def]] a p show ?thesis by auto
qed

text \<open>
  C13.  \<open>play\<close> of the OSS driver returns.  On a system that does not put off a write for ever, with
  interruptions and short writes as it likes, the loop ends for every sample buffer that is as
  long as the client says; if no write fails otherwise, it ends with success and everything has
  been delivered.
\<close>

theorem oss_play_returns:
  assumes "oss_state d = Some i" and "0 < oss_buf_size i" and "oss_buf_size i \<le> INT_MAX"
    and "patient {EINTR} (p_answer w) (oss_fd i)" and "write_bounds (p_answer w) (oss_fd i)"
    and "unat n \<le> length samples"
  shows "\<exists>r w'. ao_oss_play d samples n w = Some (r, d, w') \<and>
    (never_fails {EINTR} (p_answer w) (oss_fd i) \<longrightarrow>
       r \<and> delivered (oss_fd i) w' = delivered (oss_fd i) w @ take (unat n) samples)"
proof -
  obtain y where y: "oss_play_loop (oss_fd i) (oss_buf_size i) samples n w = Some y"
    using oss_play_loop_returns [OF assms(4,5,2,3) refl assms(6)] by blast
  have "ao_oss_play d samples n w = Some (fst y, d, snd y)"
    using y assms(1) by (cases y) (simp add: ao_oss_play_def)
  moreover have "fst y" if "never_fails {EINTR} (p_answer w) (oss_fd i)"
    by (rule oss_play_loop_succeeds [OF y that])
  ultimately show ?thesis using oss_play_loop_delivers [OF y assms(5)] by auto
qed

lemma demo_answer_never_fails: "EINTR \<in> again \<Longrightarrow> never_fails again demo_answer fd"
  by (auto simp: never_fails_def demo_answer_def)

theorem oss_play_returns_witness:
  "\<exists>r w'. ao_oss_play (oss_ready 4) [1, 2, 3, 4, 5, 6] 6 (demo_posix demo_answer []) = Some (r, oss_ready 4, w') \<and>
    r \<and> delivered 3 w' = [1, 2, 3, 4, 5, 6]"
proof -
  have a: "p_answer (demo_posix demo_answer []) = demo_answer" "delivered 3 (demo_posix demo_answer []) = []"
    by (simp_all add: demo_posix_def delivered_def)
  have "patient {EINTR} demo_answer 3" "never_fails {EINTR} demo_answer 3"
    by (rule demo_answer_patient, simp, rule demo_answer_never_fails, simp)
  with oss_play_returns [OF oss_ready_state [of 4], of "demo_posix demo_answer []" 6 "[1, 2, 3, 4, 5, 6]"]
  show ?thesis using demo_answer_bounds [of 3] by (simp add: a INT_MAX_def)
qed

text \<open>
  A descriptor is closed twice.  When \<open>open\<close> of the OSS driver fails after it got a descriptor,
  it closes it and leaves its number in the device; the \<open>close\<close> that the library calls next closes
  the same number again.
\<close>

theorem oss_double_close:
  assumes "ao_oss_open b d format w = Some (False, d', sf', w')" and "oss_state d' = Some i" and "0 \<le> oss_fd i"
  shows "\<exists>cs d'' w''. ao_oss_close d' w' = Some (True, d'', w'') \<and>
    p_calls w'' = cs @ [Close (oss_fd i), Close (oss_fd i)]"
proof -
  obtain u where u: "w' = snd (ask_ret (Close (oss_fd i)) u)" using ao_oss_open_failed [OF assms] .
  have "p_calls (snd (ask_ret (Close (oss_fd i)) w')) = p_calls u @ [Close (oss_fd i), Close (oss_fd i)]"
    unfolding u by simp
  then show ?thesis using ao_oss_close_calls [OF assms(2,3), of w'] by blast
qed

definition oss_demo_open :: "(bool \<times> live_device \<times> ao_sample_format \<times> posix) option" where
  "oss_demo_open = ao_oss_open live_build (oss_ready 4) (stereo_format\<lparr>fmt_bits := 24\<rparr>) (demo_posix demo_answer [])"

theorem oss_double_close_witness:
  "\<exists>d' sf' w' i cs d'' w''. oss_demo_open = Some (False, d', sf', w') \<and> oss_state d' = Some i \<and>
    ao_oss_close d' w' = Some (True, d'', w'') \<and> p_calls w'' = cs @ [Close (oss_fd i), Close (oss_fd i)]"
proof -
  have "case oss_demo_open of Some (r, d', sf', w') \<Rightarrow>
      \<not> r \<and> (case oss_state d' of Some i \<Rightarrow> 0 \<le> oss_fd i | None \<Rightarrow> False) | None \<Rightarrow> False"
    unfolding oss_demo_open_def by code_simp
  then obtain d' sf' w' i where o: "oss_demo_open = Some (False, d', sf', w')" "oss_state d' = Some i" "0 \<le> oss_fd i"
    by (auto split: option.splits)
  from oss_double_close [OF o(1) [unfolded oss_demo_open_def] o(2,3)] o(1,2) show ?thesis by blast
qed

section \<open>ESD\<close>

text \<open>A client that plays one buffer after the other while \<open>play\<close> succeeds.\<close>

fun esd_play_all ::
  "live_device \<Rightarrow> byte list list \<Rightarrow> 'z posix_scheme \<Rightarrow> (bool \<times> live_device \<times> 'z posix_scheme) option" where
  "esd_play_all d [] w = Some (True, d, w)"
| "esd_play_all d (b # bs) w = do {
     (ok, d, w) \<leftarrow> ao_esd_play d b (of_nat (length b)) w;
     (if ok then esd_play_all d bs w else Some (False, d, w)) }"

lemma esd_play_all_stage:
  assumes "esd_state d = Some i" and "esd_ok i" and "esd_bugfill i < 4096"
    and "reliable {EAGAIN, EINTR} (p_answer w) (esd_sock i)" and "\<forall>b \<in> set bs. length b + 4096 \<le> nat INT_MAX"
  shows "\<exists>j d' v. esd_play_all d bs w = Some (True, d', v) \<and> esd_state d' = Some j \<and>
    esd_stage i (concat bs) w j [] v \<and> esd_bugfill j < 4096"
  using assms
proof (induction bs arbitrary: d i w)
  case Nil
  then show ?case by (simp add: esd_stage_def)
next
  case (Cons b bs)
  have n: "unat (of_nat (length b) :: 32 word) = length b"
    using Cons.prems(5) by (simp add: unat_of_nat INT_MAX_def)
  from ao_esd_play_stage [OF Cons.prems(1,2,4), of "of_nat (length b)" b] n Cons.prems(5)
  obtain j v where p: "ao_esd_play d b (of_nat (length b)) w = Some (True, set_esd j d, v)"
    "esd_stage i b w j [] v" "esd_bugfill j < 4096" by auto
  have j: "esd_ok j" "esd_sock j = esd_sock i" "p_answer v = p_answer w"
    using p(2) same_stream_sel(1) calls_only_sel(5) by (auto simp: esd_stage_def)
  from Cons.IH [of "set_esd j d" j v] Cons.prems(4,5) j p(3) obtain k d' u where
    k: "esd_play_all (set_esd j d) bs v = Some (True, d', u)" "esd_state d' = Some k"
      "esd_stage j (concat bs) v k [] u" "esd_bugfill k < 4096" by auto
  have "esd_stage i (b @ concat bs) w j (concat bs) v" using p(2) by (auto simp: esd_stage_def)
  from esd_stage_trans [OF this k(3)] p(1) k show ?case by auto
qed

text \<open>
  C14.  The daemon gets all the samples, in whole blocks.  On a daemon that takes everything in the
  end, with interruptions and short writes as it likes, playing buffers of any lengths and closing
  sends the samples of all of them in their order, then silence up to the next multiple of 4096
  bytes, which is 128 for 8 bits and 0 for 16.
\<close>

theorem esd_session:
  assumes "esd_state d = Some i" and "length (esd_bugbuffer i) = 4096" and "esd_bugfill i = 0" and "esd_sock i \<noteq> -1"
    and "reliable {EAGAIN, EINTR} (p_answer w) (esd_sock i)" and "\<forall>b \<in> set bs. length b + 4096 \<le> nat INT_MAX"
  shows "\<exists>d' w1 d'' w2 pad. esd_play_all d bs w = Some (True, d', w1) \<and> ao_esd_close d' w1 = Some (True, d'', w2) \<and>
    pad < 4096 \<and> 4096 dvd length (concat bs) + pad \<and>
    delivered (esd_sock i) w2 = delivered (esd_sock i) w @ concat bs @ replicate pad (if esd_bits i = 8 then 128 else 0)"
proof -
  have "esd_ok i" "pending i = []" using assms(2,3) by (simp_all add: esd_ok_def pending_def)
  with esd_play_all_stage [OF assms(1) _ _ assms(5,6)] assms(3) obtain j d' v where
    p: "esd_play_all d bs w = Some (True, d', v)" "esd_state d' = Some j" "esd_stage i (concat bs) w j [] v"
      "esd_bugfill j < 4096" by auto
  then obtain out where o: "delivered (esd_sock i) v = delivered (esd_sock i) w @ out" "4096 dvd length out"
    "out @ pending j = concat bs" and j: "esd_ok j" "same_stream i j" "p_answer v = p_answer w"
    using \<open>pending i = []\<close> calls_only_sel(5) by (auto simp: esd_stage_def)
  note s = same_stream_sel [OF j(2)]
  have "esd_sock j \<noteq> -1" "reliable {EAGAIN, EINTR} (p_answer v) (esd_sock j)"
    using assms(4,5) s(1) j(3) by simp_all
  from ao_esd_close_stage [OF p(2) j(1) this] obtain k u where
    c: "ao_esd_close d' v = Some (True, set_esd k d', u)"
      "delivered (esd_sock i) u = delivered (esd_sock i) v @ pending j @ esd_silence j" unfolding s(1) by blast
  define pad where "pad = (if esd_bugfill j = 0 then 0 else nat (4096 - esd_bugfill j))"
  have sil: "esd_silence j = replicate pad (if esd_bits i = 8 then 128 else 0)"
    by (simp add: esd_silence_def pad_def s(4))
  have "length (pending j) + pad = (if esd_bugfill j = 0 then 0 else 4096)" "pad < 4096"
    using j(1) p(4) by (auto simp: pad_def pending_def esd_ok_def)
  moreover have "length (concat bs) = length out + length (pending j)" using o(3) by (metis length_append)
  ultimately have "4096 dvd length (concat bs) + pad" using o(2) by (auto simp: add.assoc)
  moreover have "delivered (esd_sock i) u = delivered (esd_sock i) w @ concat bs @ esd_silence j"
    using c(2) o(1,3) by (metis append.assoc)
  ultimately show ?thesis using p(1) c(1) sil \<open>pad < 4096\<close> by metis
qed

definition esd_ready :: "live_device" where
  "esd_ready = set_esd \<lparr>esd_sock = 3, esd_host = None, esd_client_name = None, esd_bugbuffer = replicate 4096 0,
     esd_bugfill = 0, esd_bits = 8\<rparr> (fresh_device 6 (ao_esd live_header :: (plugin_internal ao_internal, posix) ao_functions)
       stereo_format None False)"

lemma demo_answer_reliable: "EINTR \<in> again \<Longrightarrow> reliable again demo_answer fd"
  by (simp add: reliable_def demo_answer_patient demo_answer_bounds demo_answer_never_fails)

theorem esd_session_witness:
  "\<exists>d' w1 d'' w2 pad. esd_play_all esd_ready [[1, 2, 3], [4, 5]] (demo_posix demo_answer []) = Some (True, d', w1) \<and>
    ao_esd_close d' w1 = Some (True, d'', w2) \<and> pad < 4096 \<and> 4096 dvd 5 + pad \<and>
    delivered 3 w2 = [1, 2, 3, 4, 5] @ replicate pad 128"
proof -
  let ?i = "\<lparr>esd_sock = 3, esd_host = None, esd_client_name = None, esd_bugbuffer = replicate 4096 0,
     esd_bugfill = 0, esd_bits = 8\<rparr>"
  have s: "esd_state esd_ready = Some ?i" by (simp add: esd_ready_def)
  have "p_answer (demo_posix demo_answer []) = demo_answer" "delivered 3 (demo_posix demo_answer []) = []"
    by (simp_all add: demo_posix_def delivered_def)
  moreover have "reliable {EAGAIN, EINTR} demo_answer 3" by (rule demo_answer_reliable) simp
  moreover have "concat [[1, 2, 3], [4, 5]] = [1, 2, 3, 4, 5 :: byte]" "length [1, 2, 3, 4, 5 :: byte] = 5" by simp_all
  moreover have "\<forall>b \<in> set [[1, 2, 3], [4, 5 :: byte]]. length b + 4096 \<le> nat INT_MAX" by (simp add: INT_MAX_def)
  ultimately show ?thesis
    using esd_session [OF s, of "demo_posix demo_answer []" "[[1, 2, 3], [4, 5]]"]
    by (simp del: esd_play_all.simps concat.simps list.size)
qed

text \<open>
  C15.  What testing for the daemon leaves in the environment, whatever is in it.  Without memory for
  its own variable \<open>test\<close> is a fault.  Otherwise the first string that \<open>portable_unsetenv\<close> takes for
  \<open>ESD_NO_SPAWN\<close> decides: if there is none the environment is as before; if it is a setting of
  \<open>ESD_NO_SPAWN\<close> by the user, that setting is lost; if its name is only a beginning of
  \<open>ESD_NO_SPAWN\<close>, that variable is freed and removed and \<open>ESD_NO_SPAWN=1\<close> stays behind, a fault when
  the process started with the variable.  The number of heap blocks is the same after as before.
\<close>

theorem esd_test_environment:
  "let pre = takeWhile (\<lambda>(s, _). \<not> env_matches ESD_NO_SPAWN s) (p_environ w);
       found = dropWhile (\<lambda>(s, _). \<not> env_matches ESD_NO_SPAWN s) (p_environ w);
       leaves = (\<lambda>es. \<exists>ok w'. ao_esd_test h w = Some (ok, w') \<and> p_environ w' = es \<and> w_live w' = w_live w)
   in if \<not> fst (malloc_ok w) then ao_esd_test h w = None
      else (case found of
          [] \<Rightarrow> leaves (p_environ w)
        | (s, heap) # rest \<Rightarrow>
            if take (length ESD_NO_SPAWN + 1) s = ESD_NO_SPAWN @ ''='' then leaves (pre @ rest)
            else if heap then leaves (pre @ putenv_in ESD_NO_SPAWN (ESD_NO_SPAWN @ ''=1'') rest)
            else ao_esd_test h w = None)"
proof -
  have f: "(\<lambda>(s, _). \<not> env_matches ESD_NO_SPAWN s) = Not \<circ> esd_takes"
    by (auto simp: esd_takes_def fun_eq_iff)
  show ?thesis
    using ao_esd_test_environment [of w h] unfolding f esd_left_def esd_names_def Let_def
    by (cases "dropWhile (Not \<circ> esd_takes) (p_environ w)")
       (auto split: if_splits simp del: dropWhile_eq_Nil_conv)
qed

text \<open>The user's setting is gone.\<close>

theorem esd_test_environment_witness:
  "\<exists>ok w'. ao_esd_test live_header ((demo_posix demo_answer [])
       \<lparr>p_environ := [(''HOME=/root'', False), (''ESD_NO_SPAWN=0'', False), (''TERM=vt100'', False)]\<rparr>) = Some (ok, w') \<and>
     p_environ w' = [(''HOME=/root'', False), (''TERM=vt100'', False)]"
proof -
  let ?es = "[(''HOME=/root'', False), (''ESD_NO_SPAWN=0'', False), (''TERM=vt100'', False)]"
  let ?w = "(demo_posix demo_answer [])\<lparr>p_environ := ?es\<rparr>"
  have f: "takeWhile (\<lambda>(s, _). \<not> env_matches ESD_NO_SPAWN s) ?es = [(''HOME=/root'', False)]"
    "dropWhile (\<lambda>(s, _). \<not> env_matches ESD_NO_SPAWN s) ?es = [(''ESD_NO_SPAWN=0'', False), (''TERM=vt100'', False)]"
    by code_simp+
  have n: "take (length ESD_NO_SPAWN + 1) ''ESD_NO_SPAWN=0'' = ESD_NO_SPAWN @ ''=''" by code_simp
  have m: "fst (malloc_ok ?w)" "p_environ ?w = ?es" by (simp_all add: malloc_ok_def demo_posix_def)
  from esd_test_environment [of ?w live_header] have
    "\<exists>ok w'. ao_esd_test live_header ?w = Some (ok, w') \<and> p_environ w' = [(''HOME=/root'', False)] @ [(''TERM=vt100'', False)]"
    unfolding m(2) f Let_def using m(1) n by auto
  then show ?thesis by simp
qed

text \<open>
  A variable whose name is a beginning of \<open>ESD_NO_SPAWN\<close> is taken for it: it is found first
  and freed, and when it came from the environment that the process was started with, it is no
  block of the heap.
\<close>

theorem esd_test_prefix:
  assumes "p_environ w = es @ (n @ ''='' @ t, False) # rest"
    and "\<forall>(s, h) \<in> set es. \<not> env_matches ESD_NO_SPAWN s"
    and "n = take k ESD_NO_SPAWN" and "k < length ESD_NO_SPAWN" and "w_allocs w = []"
  shows "ao_esd_test h w = None"
  by (rule ao_esd_test_prefix_fault [OF assms])

theorem esd_test_prefix_witness:
  "ao_esd_test live_header ((demo_posix demo_answer [])\<lparr>p_environ := [(''HOME=/root'', False), (''ESD=1'', False)]\<rparr>) = None"
proof -
  let ?w = "(demo_posix demo_answer [])\<lparr>p_environ := [(''HOME=/root'', False), (''ESD=1'', False)]\<rparr>"
  have "p_environ ?w = [(''HOME=/root'', False)] @ (''ESD'' @ ''='' @ ''1'', False) # []" by simp
  moreover have "\<not> env_matches ESD_NO_SPAWN ''HOME=/root''" by code_simp
  moreover have "''ESD'' = take 3 ESD_NO_SPAWN" "3 < length ESD_NO_SPAWN" by (simp_all add: ESD_NO_SPAWN_def)
  moreover have "w_allocs ?w = []" by (simp add: demo_posix_def)
  ultimately show ?thesis using esd_test_prefix [of ?w "[(''HOME=/root'', False)]" "''ESD''" "''1''" "[]" 3] by simp
qed


end
