(* ===== verification/AO_Lifecycle.thy ===== *)
theory AO_Lifecycle
  imports AO_Demo AO_Library
begin

text \<open>
  What the configuration files, the registry and the life of the library promise: the options of a
  file are read back, driver ids and names agree, the default driver is the first usable one of
  the list, the list is sorted by priority where the comparison is sound, and initializing and
  shutting down balance.
\<close>

section \<open>Configuration files\<close>

text \<open>
  C24.  A configuration file is read back: the options that \<open>option_line\<close> writes, one a line and
  within 97 characters, are appended to the list in their order with their keys and values.
\<close>

theorem config_file_roundtrip:
  assumes "\<forall>kv \<in> set kvs. plain_option kv" and "w_allocs w = []"
    and "fopen_r name w = Some (concat (map option_line kvs))"
  shows "ao_read_config_file name conf opts w =
    (True, conf, opts @ map (\<lambda>kv. \<lparr>opt_key = Some (fst kv), opt_value = Some (snd kv)\<rparr>) kvs,
     w\<lparr>w_live := w_live w + 3 * int (length kvs)\<rparr>)"
  using config_loop_options [OF assms(1,2)] assms(3) by (simp add: ao_read_config_file_def)

definition demo_options :: "(string \<times> string) list" where
  "demo_options = [(''quiet'', ''''), (''dev'', ''/dev/dsp 1'')]"

definition demo_config_world :: world where
  "demo_config_world = (demo_world [])\<lparr>w_disk := [''/etc/libao.conf'' \<mapsto> concat (map option_line demo_options)]\<rparr>"

theorem config_file_roundtrip_witness:
  "ao_read_config_file ''/etc/libao.conf'' \<lparr>default_driver = None\<rparr> [] demo_config_world =
    (True, \<lparr>default_driver = None\<rparr>,
     [\<lparr>opt_key = Some ''quiet'', opt_value = Some ''''\<rparr>,
      \<lparr>opt_key = Some ''dev'', opt_value = Some ''/dev/dsp 1''\<rparr>],
     demo_config_world\<lparr>w_live := 6\<rparr>)"
proof -
  have "\<forall>kv \<in> set demo_options. plain_option kv"
    by (simp add: demo_options_def plain_option_def plain_key_def plain_value_def isspace_def newline_def)
  moreover have "w_allocs demo_config_world = []" "w_live demo_config_world = 0"
    "fopen_r ''/etc/libao.conf'' demo_config_world = Some (concat (map option_line demo_options))"
    by (simp_all add: demo_config_world_def demo_world_def fopen_r_def)
  ultimately show ?thesis
    using config_file_roundtrip [of demo_options demo_config_world "''/etc/libao.conf''"]
    by (simp add: demo_options_def)
qed

text \<open>
  C30.  Reading the configuration ends and stays inside its buffers: whatever the files hold and
  however long the name of the home directory is, \<open>ao_read_config_files\<close> returns, and the heap
  then holds exactly what the configuration and the options hold more than before.
\<close>

theorem config_files_safe:
  "\<exists>conf' opts' w'. ao_read_config_files homedir conf opts w = Some (conf', opts', w') \<and>
     w_live w' - w_live w = config_blocks conf' opts' - config_blocks conf opts"
proof -
  obtain conf' opts' w' where r: "ao_read_config_files homedir conf opts w = Some (conf', opts', w')"
    using ao_read_config_files_total by fast
  from ao_read_config_files_heap [OF this] r show ?thesis by (auto simp: heap_step_def)
qed

section \<open>Driver ids\<close>

text \<open>
  Names and ids of drivers agree: the id of a name is -1 exactly when no driver has it,
  otherwise it is a valid id whose info has this name, and no smaller id has it; \<open>_check_driver_id\<close>
  accepts exactly the ids for which \<open>ao_driver_info\<close> has an info.
\<close>

theorem driver_id_roundtrip:
  "(ao_driver_id name lib = -1 \<longleftrightarrow> (\<forall>n. map_option short_name (ao_driver_info n lib) \<noteq> Some name)) \<and>
   (ao_driver_id name lib \<noteq> -1 \<longrightarrow>
      map_option short_name (ao_driver_info (ao_driver_id name lib) lib) = Some name \<and>
      (\<forall>n < ao_driver_id name lib. map_option short_name (ao_driver_info n lib) \<noteq> Some name)) \<and>
   (check_driver_id m lib \<longleftrightarrow> ao_driver_info m lib \<noteq> None)"
proof -
  have info: "map_option short_name (ao_driver_info n lib) = Some name \<longleftrightarrow>
      0 \<le> n \<and> nat n < length (driver_head lib) \<and> short_name (info_of (driver_head lib ! nat n)) = name" for n
    by (auto simp: ao_driver_info_def get_driver_eq)
  have check: "check_driver_id m lib \<longleftrightarrow> ao_driver_info m lib \<noteq> None"
    by (simp add: check_driver_id_iff ao_driver_info_def)
  show ?thesis
  proof (cases rule: ao_driver_id_cases [of name lib])
    case none
    then show ?thesis unfolding info using check by auto
  next
    case (found k)
    then have "\<forall>n < int k. 0 \<le> n \<longrightarrow> short_name (info_of (driver_head lib ! nat n)) \<noteq> name"
      by (simp add: nat_less_iff)
    moreover have "\<exists>n. 0 \<le> n \<and> nat n < length (driver_head lib) \<and> short_name (info_of (driver_head lib ! nat n)) = name"
      using found by (intro exI [of _ "int k"]) simp
    ultimately show ?thesis unfolding info using found check by auto
  qed
qed

theorem driver_id_roundtrip_witness:
  "map_option short_name (ao_driver_info (ao_driver_id ''raw'' demo_lib) demo_lib) = Some ''raw''"
proof -
  have "ao_driver_id ''raw'' demo_lib \<noteq> -1"
    by (simp add: ao_driver_id_def demo_lib_def demo_drivers_def static_drivers_def ao_null_def ao_null_info_def
        ao_wav_def ao_wav_info_def ao_raw_def ao_raw_info_def)
  with driver_id_roundtrip [of "''raw''" demo_lib 0] show ?thesis by blast
qed

section \<open>Plugins\<close>

definition all_symbols :: "('p, 'w) plugin_symbols \<Rightarrow> bool" where
  "all_symbols s \<longleftrightarrow> sym_test s \<noteq> None \<and> sym_driver_info s \<noteq> None \<and> sym_device_init s \<noteq> None \<and>
     sym_set_option s \<noteq> None \<and> sym_open s \<noteq> None \<and> sym_play s \<noteq> None \<and> sym_close s \<noteq> None \<and>
     sym_device_clear s \<noteq> None"

text \<open>
  C29.  A plugin is loaded whole or not at all: \<open>_get_plugin\<close> gives a driver exactly when the file
  opens as a library, both allocations succeed and all eight symbols are there; the driver's table
  is those symbols and it holds two blocks; otherwise the heap is as before.
\<close>

theorem plugin_whole_or_none:
  "\<exists>r w'. get_plugin env path w = (r, w') \<and> w_live w' = w_live w + 2 * blocks r \<and>
     (w_allocs w = [] \<longrightarrow> (r \<noteq> None \<longleftrightarrow> (\<exists>s. dlopen env path = Some s \<and> all_symbols s))) \<and>
     (\<forall>d. r = Some d \<longrightarrow> (\<exists>s. dlopen env path = Some s \<and> all_symbols s \<and>
        drv_handle d = Some (sym_handle s) \<and>
        Some (fn_test (drv_functions d)) = sym_test s \<and> Some (info_of d) = sym_driver_info s \<and>
        Some (fn_device_init (drv_functions d)) = sym_device_init s \<and>
        Some (fn_set_option (drv_functions d)) = sym_set_option s \<and>
        Some (fn_open (drv_functions d)) = sym_open s \<and> Some (fn_play (drv_functions d)) = sym_play s \<and>
        Some (fn_close (drv_functions d)) = sym_close s \<and>
        Some (fn_device_clear (drv_functions d)) = sym_device_clear s))"
proof -
  obtain r w' where g: "get_plugin env path w = (r, w')" by fastforce
  have "w_live w' = w_live w + 2 * blocks r" using get_plugin_step [OF g] by (simp add: heap_step_def)
  moreover have "r \<noteq> None \<longleftrightarrow> (\<exists>s. dlopen env path = Some s \<and> all_symbols s)" if "w_allocs w = []"
    using g that
    by (auto simp: get_plugin_def all_symbols_def split: option.splits Option.bind_splits)
  moreover have "\<exists>s. dlopen env path = Some s \<and> all_symbols s \<and> drv_handle d = Some (sym_handle s) \<and>
        Some (fn_test (drv_functions d)) = sym_test s \<and> Some (info_of d) = sym_driver_info s \<and>
        Some (fn_device_init (drv_functions d)) = sym_device_init s \<and>
        Some (fn_set_option (drv_functions d)) = sym_set_option s \<and>
        Some (fn_open (drv_functions d)) = sym_open s \<and> Some (fn_play (drv_functions d)) = sym_play s \<and>
        Some (fn_close (drv_functions d)) = sym_close s \<and>
        Some (fn_device_clear (drv_functions d)) = sym_device_clear s" if "r = Some d" for d
    using g that
    by (auto simp: get_plugin_def all_symbols_def split: option.splits prod.splits if_splits Option.bind_splits)
  ultimately show ?thesis using g by blast
qed

definition demo_null :: "(unit ao_internal, world) ao_functions" where
  "demo_null = ao_null"

definition demo_symbols :: "(unit ao_internal, world) plugin_symbols" where
  "demo_symbols = \<lparr>sym_handle = 7, sym_test = Some (fn_test demo_null), sym_driver_info = Some ao_null_info,
     sym_device_init = Some (fn_device_init demo_null), sym_set_option = Some (fn_set_option demo_null),
     sym_open = Some (fn_open demo_null), sym_play = None, sym_close = Some (fn_close demo_null),
     sym_device_clear = Some (fn_device_clear demo_null)\<rparr>"

definition demo_dir :: "(unit ao_internal, world) plugin_dir" where
  "demo_dir = \<lparr>AO_PLUGIN_PATH = ''/usr/lib/ao'', dir_names = Some [''libnull.so''], is_regular = (\<lambda>_. True),
     dlopen = (\<lambda>_. Some demo_symbols)\<rparr>"

theorem plugin_whole_or_none_witness:
  "\<exists>w'. get_plugin demo_dir ''/usr/lib/ao/libnull.so'' (demo_world []) = (None, w') \<and> w_live w' = 0"
proof -
  have "w_allocs (demo_world []) = []" "w_live (demo_world []) = 0" "\<not> all_symbols demo_symbols"
    "dlopen demo_dir ''/usr/lib/ao/libnull.so'' = Some demo_symbols"
    by (simp_all add: demo_world_def all_symbols_def demo_symbols_def demo_dir_def)
  with plugin_whole_or_none [of demo_dir "''/usr/lib/ao/libnull.so''" "demo_world []"]
  show ?thesis by auto
qed

section \<open>The life of the library\<close>

text \<open>
  C8.  Initializing and shutting down balance: after \<open>ao_initialize\<close> of a pristine library,
  whatever the configuration files and the plugin directory hold, \<open>ao_shutdown\<close> succeeds, leaves a
  pristine library, and every block taken has been given back.
\<close>

theorem library_lifecycle:
  assumes "pristine lib" and "ao_initialize env homedir lib w = Some (lib1, w1)" and "driver_head lib1 \<noteq> []"
  shows "\<exists>lib2 w2. ao_shutdown lib1 w1 = Some (lib2, w2) \<and> pristine lib2 \<and> w_live w2 = w_live w"
proof -
  note i = ao_initialize_blocks [OF assms(2,1)]
  obtain lib2 w2 where "ao_shutdown lib1 w1 = Some (lib2, w2)" "pristine lib2"
    "w_live w2 = w_live w1 - lib_blocks lib1"
    using ao_shutdown_blocks [OF assms(3) i(2)] by metis
  then show ?thesis using i(1) by simp
qed

definition empty_lib :: "(unit ao_internal, world) ao_lib" where
  "empty_lib = \<lparr>driver_head = [], config = \<lparr>default_driver = None\<rparr>, info_table = None, driver_count = 0,
     global_dummy = None, global_options = []\<rparr>"

lemma demo_initialize:
  obtains lib1 w1 where "ao_initialize demo_dir None empty_lib (demo_world []) = Some (lib1, w1)"
    "pristine empty_lib" "driver_head lib1 \<noteq> []" "w_allocs (demo_world []) = []"
    "driver_head lib1 = qsort (compar_driver_priority False) (map (\<lambda>f. \<lparr>drv_functions = f, drv_handle = None\<rparr>) static_drivers)"
proof -
  let ?ds = "map (\<lambda>f. \<lparr>drv_functions = f, drv_handle = None\<rparr>) static_drivers :: (unit ao_internal, world) ao_driver_entry list"
  have c: "ao_read_config_files None (config empty_lib) (global_options empty_lib) (demo_world []) =
      Some (\<lparr>default_driver = None\<rparr>, [], demo_world [])"
    by (simp add: ao_read_config_files_def ao_read_config_file_def fopen_r_def empty_lib_def demo_world_def)
  have l: "load_static_drivers static_drivers (demo_world []) = (?ds, (demo_world [])\<lparr>w_live := 4\<rparr>)"
    by (simp add: load_static_drivers_plenty demo_world_def static_drivers_def)
  have p: "append_dynamic_drivers demo_dir ?ds ((demo_world [])\<lparr>w_live := 4\<rparr>) = Some (?ds, (demo_world [])\<lparr>w_live := 4\<rparr>)"
    by (simp add: append_dynamic_drivers_def demo_dir_def demo_world_def get_plugin_def demo_symbols_def
        strrchr_def SHARED_LIB_EXT_def free_block_def)
  let ?sorted = "qsort (compar_driver_priority False) ?ds"
  have "?ds \<noteq> []" "w_big_endian (demo_world []) = False" "w_allocs (demo_world []) = []"
    by (simp_all add: static_drivers_def demo_world_def)
  then have "\<exists>table n w1. make_info_table ?ds ((demo_world [])\<lparr>w_live := 4\<rparr>) = Some (table, ?sorted, n, w1)"
    by (simp add: make_info_table_def Let_def del: qsort.simps)
  then obtain table n w1 where m: "make_info_table ?ds ((demo_world [])\<lparr>w_live := 4\<rparr>) = Some (table, ?sorted, n, w1)"
    by blast
  have "global_dummy empty_lib = None" "driver_head empty_lib = []" by (simp_all add: empty_lib_def)
  then have "\<exists>lib1. ao_initialize demo_dir None empty_lib (demo_world []) = Some (lib1, w1) \<and> driver_head lib1 = ?sorted"
    unfolding ao_initialize_def by (simp add: c l p m del: qsort.simps)
  then obtain lib1 where i: "ao_initialize demo_dir None empty_lib (demo_world []) = Some (lib1, w1)"
    "driver_head lib1 = ?sorted" by blast
  moreover have "?sorted \<noteq> []" using \<open>?ds \<noteq> []\<close> by (simp del: qsort.simps)
  moreover have "pristine empty_lib" "w_allocs (demo_world []) = []"
    by (simp_all add: pristine_def empty_lib_def demo_world_def)
  ultimately show ?thesis using that [OF i(1)] by simp
qed

theorem library_lifecycle_witness:
  "\<exists>lib1 w1 lib2 w2. ao_initialize demo_dir None empty_lib (demo_world []) = Some (lib1, w1) \<and>
     ao_shutdown lib1 w1 = Some (lib2, w2) \<and> pristine lib2 \<and> w_live w2 = w_live (demo_world [])"
proof (rule demo_initialize)
  fix lib1 w1
  assume i: "ao_initialize demo_dir None empty_lib (demo_world []) = Some (lib1, w1)" "pristine empty_lib"
    "driver_head lib1 \<noteq> []"
  from library_lifecycle [OF i(2,1,3)] i(1) show ?thesis by blast
qed

text \<open>
  C25.  The driver list after \<open>ao_initialize\<close>: the static drivers and the plugins, in descending
  order of priority when the priorities are such as the comparison orders (up to 255 on a
  little-endian machine), and the info table and the ids follow that list.
\<close>

theorem driver_list_sorted:
  assumes "pristine lib" and "ao_initialize env homedir lib w = Some (lib', w')" and "w_allocs w = []"
    and "\<forall>d \<in> set (driver_head lib'). small_priority (w_big_endian w) d"
  shows "sorted_wrt (\<lambda>a b. priority (info_of b) \<le> priority (info_of a)) (driver_head lib') \<and>
    (\<exists>ps. mset (driver_head lib') =
        mset (map (\<lambda>f. \<lparr>drv_functions = f, drv_handle = None\<rparr>) static_drivers @ ps) \<and>
      (\<forall>p \<in> set ps. drv_handle p \<noteq> None)) \<and>
    ao_driver_info_list lib' = (Some (map info_of (driver_head lib')), int (length (driver_head lib'))) \<and>
    (\<forall>n. ao_driver_info (int n) lib' =
       (if n < length (driver_head lib') then Some (map info_of (driver_head lib') ! n) else None))"
proof -
  note blocks = ao_initialize_blocks(3) [OF assms(2,1,3)]
  from assms(1,2) obtain conf opts w1 ds1 w2 ds2 w3 table n where
    c: "ao_read_config_files homedir (config lib) (global_options lib) w = Some (conf, opts, w1)"
    and l: "load_static_drivers static_drivers w1 = (ds1, w2)"
    and a: "append_dynamic_drivers env ds1 w2 = Some (ds2, w3)"
    and m: "make_info_table ds2 w3 = Some (table, driver_head lib', n, w')" and t: "info_table lib' = table"
    by (auto simp: ao_initialize_def pristine_def split: Option.bind_splits prod.splits)
  have "w_big_endian w3 = w_big_endian w"
    using calm_heap [OF ao_read_config_files_heap [OF c]] calm_heap [OF load_static_drivers_step [OF l, THEN conjunct1]]
      append_dynamic_drivers_step [OF a] calm_heap [of _ w2 w3] by (auto simp: calm_def)
  moreover have "table \<noteq> None" using blocks t by auto
  ultimately have q: "driver_head lib' = qsort (compar_driver_priority (w_big_endian w)) ds2"
    using make_info_table_step(3) [OF m] by simp
  have "sorted_wrt (\<lambda>a b. priority (info_of b) \<le> priority (info_of a))
      (qsort (compar_driver_priority (w_big_endian w)) ds2)"
    by (rule sorted_drivers) (use assms(4) q in simp)
  then show ?thesis
    using blocks q by (auto simp: ao_driver_info_list_def ao_driver_info_def get_driver_eq)
qed

theorem driver_list_sorted_witness:
  "\<exists>lib1 w1. ao_initialize demo_dir None empty_lib (demo_world []) = Some (lib1, w1) \<and>
     sorted_wrt (\<lambda>a b. priority (info_of b) \<le> priority (info_of a)) (driver_head lib1) \<and>
     ao_driver_info_list lib1 = (Some (map info_of (driver_head lib1)), int (length (driver_head lib1)))"
proof (rule demo_initialize)
  fix lib1 w1
  assume i: "ao_initialize demo_dir None empty_lib (demo_world []) = Some (lib1, w1)" "pristine empty_lib"
    "w_allocs (demo_world []) = []" and
    h: "driver_head lib1 = qsort (compar_driver_priority False) (map (\<lambda>f. \<lparr>drv_functions = f, drv_handle = None\<rparr>) static_drivers)"
  have "\<forall>d \<in> set (driver_head lib1). small_priority (w_big_endian (demo_world [])) d"
    unfolding h set_qsort
    by (simp add: static_drivers_def small_priority_def demo_world_def ao_null_def ao_null_info_def
        ao_wav_def ao_wav_info_def ao_raw_def ao_raw_info_def ao_au_def ao_au_info_def)
  from driver_list_sorted [OF i(2,1,3) this] i(1) show ?thesis by blast
qed

text \<open>
  The comparison is not one of priorities: \<open>memcmp\<close> compares the bytes of the integers in
  memory.  On a little-endian machine a driver of priority 256 is placed after one of priority 1;
  on a big-endian machine it is placed before.
\<close>

theorem priority_order_endian:
  assumes "priority (info_of a) = 256" and "priority (info_of b) = 1"
  shows "qsort (compar_driver_priority False) [a, b] = [b, a] \<and>
    qsort (compar_driver_priority True) [b, a] = [a, b]"
  by (simp add: compar_driver_priority_def assms mem32_def word_less_def)

definition demo_ranked :: "int \<Rightarrow> (unit ao_internal, world) ao_driver_entry" where
  "demo_ranked n = \<lparr>drv_functions = demo_null\<lparr>fn_driver_info := ao_null_info\<lparr>priority := n\<rparr>\<rparr>, drv_handle = None\<rparr>"

theorem priority_order_endian_witness:
  "qsort (compar_driver_priority False) [demo_ranked 256, demo_ranked 1] = [demo_ranked 1, demo_ranked 256] \<and>
   qsort (compar_driver_priority True) [demo_ranked 1, demo_ranked 256] = [demo_ranked 256, demo_ranked 1]"
  by (rule priority_order_endian) (simp_all add: demo_ranked_def)

end
