(* ===== verification/AO_Shape.thy ===== *)
theory AO_Shape
  imports AO_Drivers
begin

text \<open>
  The form of a device that has been opened.  Whatever the driver, the options and the matrices, the
  widths, counts, maps and buffers of a device that \<open>_open_device\<close> hands out fit together, so that
  \<open>ao_play\<close> never leaves its buffers; and playing keeps them so.
\<close>

section \<open>What a driver's open leaves alone\<close>

text \<open>The number of channels and the width of a sample are the library's.\<close>

definition same_channels :: "'p ao_device \<Rightarrow> 'p ao_device \<Rightarrow> bool" where
  "same_channels d d' \<longleftrightarrow> output_channels d' = output_channels d \<and> input_channels d' = input_channels d \<and>
     bytewidth d' = bytewidth d"

lemma same_channels_refl [simp]: "same_channels d d"
  by (simp add: same_channels_def)

lemma same_channels_update [simp]:
  "same_channels d (e\<lparr>internal := x\<rparr>) = same_channels d e"
  "same_channels d (e\<lparr>driver_byte_format := y\<rparr>) = same_channels d e"
  "same_channels d (e\<lparr>inter_matrix := m\<rparr>) = same_channels d e"
  by (simp_all add: same_channels_def)

lemma same_channels_trans: "same_channels d e \<Longrightarrow> same_channels e f \<Longrightarrow> same_channels d f"
  by (simp add: same_channels_def)

lemma stereo_matrix_channels: "stereo_matrix d w = (d', w') \<Longrightarrow> same_channels d d'"
  by (auto simp: stereo_matrix_def split: if_splits prod.splits)

section \<open>The stages\<close>

text \<open>An entry of the permutation is a channel of the input or -1.\<close>

lemma find_channel_bounds:
  "find_channel m s = Some c \<Longrightarrow> -1 \<le> c \<and> c < int (length (tokens s))"
proof -
  assume f: "find_channel m s = Some c"
  then have "m < 45" by (auto simp: find_channel_def mnemonics_facts(1) split: if_splits)
  then have "c = (if m = 0 then -1 else position (mnemonics ! m) (tokens s))"
    using f find_channel_eq by fastforce
  moreover have "tokens s \<noteq> []" by (simp add: tokens.simps [of s])
  ultimately show ?thesis
    using position_ge [of "mnemonics ! m" "tokens s"] position_lt [of "mnemonics ! m" "tokens s"] by auto
qed

lemma permute_entry_bounds:
  "permute_entry op s n = Some c \<Longrightarrow> -1 \<le> c \<and> c < int (length (tokens s))"
  by (auto simp: permute_entry_def Let_def split: Option.bind_splits if_splits dest: find_channel_bounds)

lemma permute_loop_bounds:
  "permute_loop k op s n = Some cs \<Longrightarrow> length cs = k \<and> (\<forall>c \<in> set cs. -1 \<le> c \<and> c < int (length (tokens s)))"
proof (induction k arbitrary: op cs)
  case 0
  then show ?case by simp
next
  case (Suc k)
  have ne: "0 < length (tokens s)" by (simp add: tokens.simps [of s])
  let ?h = "if op \<noteq> [] then at_comma op else op"
  from Suc.prems obtain c cs' where c: "(if op \<noteq> [] then permute_entry op s n else Some (-1)) = Some c"
    "permute_loop k (if ?h \<noteq> [] then tl ?h else ?h) s n = Some cs'" "cs = c # cs'"
    by (auto simp: Let_def split: Option.bind_splits)
  from Suc.IH [OF c(2)] permute_entry_bounds [of op s n c] c(1,3) ne show ?case
    by (auto split: if_splits)
qed

lemma input_matrix_tokens:
  assumes "input_matrix format w = (Some im, w')" and "0 < fmt_channels format"
  shows "int (length (tokens im)) \<le> fmt_channels format"
proof -
  from assms(1) obtain s v where s: "sanitize_matrix (fmt_channels format) (Some s) w = (Some im, v)"
    by (auto simp: input_matrix_def split: option.splits prod.splits if_splits)
  then obtain s' where "sanitized (fmt_channels format) s' = Some im" by (rule sanitize_matrix_Some)
  from sanitized_clean(2) [OF this assms(2)] show ?thesis using assms(2) by simp
qed

text \<open>The parts of a device that the library sets before the driver is opened, and the channels.\<close>

definition unbuffered :: "'p ao_device \<Rightarrow> bool" where
  "unbuffered d \<longleftrightarrow> swap_buffer d = None \<and> swap_buffer_size d = 0 \<and> inter_permute d = None"

lemma reconcile_shape:
  assumes "reconcile d sf w = Some (True, d', w')" and "0 < fmt_channels sf" and "fmt_channels sf \<le> INT_MAX"
  shows "0 < output_channels d' \<and> output_channels d' \<le> INT_MAX \<and> (unbuffered d \<longrightarrow> unbuffered d') \<and>
    (fmt_matrix sf = None \<longrightarrow> output_channels d' = fmt_channels sf)"
proof (cases "output_matrix d = None \<or> fmt_matrix sf = None")
  case True
  with assms have "d' = d\<lparr>output_channels := fmt_channels sf\<rparr>" by (auto simp: reconcile_def split: option.splits)
  with assms(2,3) show ?thesis by (simp add: unbuffered_def)
next
  case False
  then obtain om im where m: "output_matrix d = Some om" "fmt_matrix sf = Some im" by auto
  have small: "(32 :: int) \<le> INT_MAX" by (simp add: INT_MAX_def)
  have bits: "channelmask_bits x \<le> 32" and mx: "channelmask_maxbit x + 1 \<le> 32" for x
    using channelmask_bits_bounds [of x] channelmask_maxbit_bounds [of x] by simp_all
  have "0 < output_channels d' \<and> output_channels d' \<le> 32 \<and> (unbuffered d \<longrightarrow> unbuffered d')"
    using assms(1) m
    by (cases "output_matrix_order d")
       (auto simp: reconcile_def unbuffered_def Let_def bits mx split: Option.bind_splits if_splits prod.splits)
  with m small show ?thesis by auto
qed

text \<open>After \<open>build_permutation\<close> and \<open>drop_identity\<close> the map leads from every backend channel into the input.\<close>

definition maps_inside :: "'p ao_device \<Rightarrow> bool" where
  "maps_inside d \<longleftrightarrow> (case inter_permute d of None \<Rightarrow> output_channels d = input_channels d
     | Some perm \<Rightarrow> int (length perm) = output_channels d \<and> (\<forall>c \<in> set perm. -1 \<le> c \<and> c < input_channels d))"

lemma maps_inside_cong:
  "maps_inside d \<Longrightarrow> same_channels d e \<Longrightarrow> inter_permute e = inter_permute d \<Longrightarrow> maps_inside e"
  by (auto simp: maps_inside_def same_channels_def split: option.splits)

lemma build_permutation_shape:
  assumes "build_permutation table d sf w = Some (True, d', w')" and "inter_permute d = None"
    and "0 < output_channels d" and "fmt_matrix sf = None \<Longrightarrow> output_channels d = input_channels d"
    and "\<And>im. fmt_matrix sf = Some im \<Longrightarrow> int (length (tokens im)) \<le> input_channels d"
  shows "same_channels d d' \<and> swap_buffer d' = swap_buffer d \<and> swap_buffer_size d' = swap_buffer_size d \<and>
    maps_inside d'"
proof (cases "fmt_matrix sf")
  case None
  with assms show ?thesis by (simp add: build_permutation_def maps_inside_def)
next
  case (Some im)
  let ?first = "if inter_matrix d = None then do {
                      _ \<leftarrow> names_driver table d;
                      (case strdup ''L,R'' w of (m, w) \<Rightarrow> Some (d\<lparr>inter_matrix := m\<rparr>, w)) }
                    else Some (d, w)"
  from assms(1) Some obtain c v where f: "?first = Some (c, v)"
    by (auto simp: build_permutation_def split: Option.bind_splits if_splits)
  have c: "\<exists>m. c = d\<lparr>inter_matrix := m\<rparr>"
    using f by (cases d) (auto split: if_splits prod.splits Option.bind_splits)
  then obtain m where m: "c = d\<lparr>inter_matrix := m\<rparr>" ..
  from assms(1) Some f m assms(3) obtain u where ok: "malloc_ok v = (True, u)"
    by (cases "malloc_ok v") (auto simp: build_permutation_def split: Option.bind_splits if_splits)
  with assms(1) Some f m assms(3) obtain im' perm where p:
    "permute_loop (nat (output_channels d)) im' im (fmt_channels sf) = Some perm" "d' = c\<lparr>inter_permute := Some perm\<rparr>"
    by (auto simp: build_permutation_def split: Option.bind_splits if_splits prod.splits)
  from permute_loop_bounds [OF p(1)] assms(3) assms(5) [OF Some] p(2) m show ?thesis
    by (fastforce simp: same_channels_def maps_inside_def)
qed

lemma drop_identity_shape:
  assumes "drop_identity d w = Some (d', w')"
    and "maps_inside d"
  shows "same_channels d d' \<and> swap_buffer d' = swap_buffer d \<and> swap_buffer_size d' = swap_buffer_size d \<and>
    maps_inside d'"
  using assms
  by (auto simp: drop_identity_def maps_inside_def same_channels_def split: option.splits if_splits Option.bind_splits)

text \<open>The last stage: what is needed to play is there.\<close>

lemma finish_open_shape:
  assumes "finish_open F d im w = Some (Some (F', d'), w')" and "swap_buffer d = None" and "swap_buffer_size d = 0"
  shows "F' = F \<and> same_channels d d' \<and> inter_permute d' = inter_permute d \<and> buffer_ok d' \<and>
    (swap_buffer d' \<noteq> None \<longleftrightarrow> needs_buffer d')"
proof -
  let ?d = "d\<lparr>driver_byte_format := real_byte_format (driver_byte_format d) w\<rparr>"
  show ?thesis
  proof (cases "needs_buffer ?d")
    case False
    then have "F' = F" "d' = ?d" using assms(1) by (auto simp: finish_open_def needs_buffer_def)
    with False assms(2,3) show ?thesis by (simp add: buffer_ok_def)
  next
    case True
    obtain ok e v where r: "realloc_swap_buffer ?d DEF_SWAP_BUF_SIZE w = (ok, e, v)"
      by (cases "realloc_swap_buffer ?d DEF_SWAP_BUF_SIZE w")
    have ok: "ok" and d': "F' = F" "d' = e"
      using assms(1) True r by (auto simp: finish_open_def needs_buffer_def split: if_splits Option.bind_splits)
    have e: "swap_buffer e = Some (replicate 1024 (w_junk v)) \<and> swap_buffer_size e = 1024 \<or>
        (\<exists>b. swap_buffer e = Some b \<and> int (length b) = swap_buffer_size e \<and> 0 \<le> swap_buffer_size e)"
      using r ok assms(2,3)
      by (auto simp: realloc_swap_buffer_def DEF_SWAP_BUF_SIZE_def split: if_splits prod.splits)
    have u: "e = ?d\<lparr>swap_buffer := swap_buffer e, swap_buffer_size := swap_buffer_size e\<rparr>"
      using realloc_swap_buffer_cases(2) [OF r] .
    have keep: "needs_buffer (?d\<lparr>swap_buffer := b, swap_buffer_size := s\<rparr>) = needs_buffer ?d"
      "same_channels d (?d\<lparr>swap_buffer := b, swap_buffer_size := s\<rparr>)" for b s
      by (simp_all add: needs_buffer_def needs_swap_def same_channels_def)
    have "needs_buffer e" "same_channels d e" using keep True u by metis+
    moreover have "inter_permute e = inter_permute d" using arg_cong [OF u, of inter_permute] by simp
    ultimately show ?thesis using d' e by (auto simp: buffer_ok_def)
  qed
qed


section \<open>Every driver\<close>

lemma open_error_None [simp]: "open_error x im v \<noteq> Some (Some y, u)"
  by (auto simp: open_error_def split: Option.bind_splits)

locale shaped_driver = ao_driver +
  assumes open_shape: "fn_open F d sf w = Some (r, d', sf', w') \<Longrightarrow>
      same_channels d d' \<and> fmt_channels sf' = fmt_channels sf"
begin

lemma init_unbuffered:
  "fn_device_init F d w = Some (r, d', w') \<Longrightarrow> internal d = None \<Longrightarrow> output_matrix d = None \<Longrightarrow>
   unbuffered d \<Longrightarrow> unbuffered d'"
  using init_law by (fastforce simp: setup_frame_def core_frame_def unbuffered_def)

lemma options_unbuffered:
  "device_load_options F table d ops w = Some (e, d', w') \<Longrightarrow> unbuffered d \<Longrightarrow> unbuffered d'"
  using load_options_law by (fastforce simp: setup_frame_def core_frame_def unbuffered_def)

lemma open_options_unbuffered:
  assumes "open_options F table globals opts d w = Some (ok, d', w')"
    and "internal d = None" "output_matrix d = None" "unbuffered d"
  shows "unbuffered d'"
proof -
  from assms(1) obtain r c v where i: "fn_device_init F d w = Some (r, c, v)"
    by (auto simp: open_options_def split: Option.bind_splits)
  from init_unbuffered [OF i assms(2-4)] assms(1) i show ?thesis
    by (auto simp: open_options_def split: Option.bind_splits if_splits dest!: options_unbuffered)
qed

lemma open_backend_shape:
  assumes o: "open_backend F table sf d w = Some (Some (F', e), w')"
    and ub: "unbuffered d" and prep: "prepared F (internal d)" and fmt: "0 < fmt_channels sf" "fmt_channels sf \<le> INT_MAX" "1 \<le> fmt_bits sf" "fmt_bits sf \<le> 32"
    and im: "\<And>im. fmt_matrix sf = Some im \<Longrightarrow> int (length (tokens im)) \<le> fmt_channels sf"
  shows "F' = F \<and> playing e \<and> input_channels e = fmt_channels sf \<and> bytewidth e = (fmt_bits sf + 7) div 8"
proof -
  from o obtain ok1 d1 w1 where r: "reconcile d sf w = Some (ok1, d1, w1)"
    by (auto simp: open_backend_def split: Option.bind_splits)
  have ok1: "ok1" using o r by (auto simp: open_backend_def split: if_splits)
  note s1 = reconcile_shape [OF r [unfolded eqTrueI [OF ok1]] fmt(1,2)]
  from o r ok1 obtain d2 ok3 d3 sf' w3 where h: "housekeeping d1 sf = Some d2"
    and p: "fn_open F d2 sf w1 = Some (ok3, d3, sf', w3)"
    by (auto simp: open_backend_def split: Option.bind_splits)
  have ok3: "ok3" using o r ok1 h p by (auto simp: open_backend_def split: if_splits)
  from o r ok1 h p ok3 obtain ok4 d4 w4 where b: "build_permutation table d3 sf' w3 = Some (ok4, d4, w4)"
    by (auto simp: open_backend_def split: Option.bind_splits)
  have ok4: "ok4" using o r ok1 h p ok3 b by (auto simp: open_backend_def split: if_splits)
  from o r ok1 h p ok3 b ok4 obtain d5 w5 where i: "drop_identity d4 w4 = Some (d5, w5)"
    and f: "finish_open F d5 (fmt_matrix sf') w5 = Some (Some (F', e), w')"
    by (auto simp: open_backend_def split: Option.bind_splits)
  have s2: "unbuffered d2" "output_channels d2 = output_channels d1" "input_channels d2 = fmt_channels sf"
    "bytewidth d2 = (fmt_bits sf + 7) div 8"
    using h s1 ub by (auto simp: housekeeping_def unbuffered_def c_int_Some_iff split: Option.bind_splits)
  have pr: "prepared F (internal d2)"
    using prep stages_internal(1) [OF r] stages_internal(2) [OF h] by simp
  have s3: "same_channels d2 d3" "fmt_channels sf' = fmt_channels sf" "fmt_matrix sf' = fmt_matrix sf" "unbuffered d3"
    using open_shape [OF p] open_law [OF pr p] s2(1) by (auto simp: core_frame_def unbuffered_def)
  note eqs = s3(1) [unfolded same_channels_def]
  have s4: "same_channels d3 d4 \<and> swap_buffer d4 = swap_buffer d3 \<and> swap_buffer_size d4 = swap_buffer_size d3 \<and>
    maps_inside d4"
    by (rule build_permutation_shape [OF b [unfolded eqTrueI [OF ok4]]])
       (use eqs s1 s2 s3 im in \<open>auto simp: unbuffered_def\<close>)
  have s5: "same_channels d4 d5 \<and> swap_buffer d5 = swap_buffer d4 \<and> swap_buffer_size d5 = swap_buffer_size d4 \<and>
    maps_inside d5"
    by (rule drop_identity_shape [OF i]) (use s4 in simp)
  have s6: "F' = F \<and> same_channels d5 e \<and> inter_permute e = inter_permute d5 \<and> buffer_ok e \<and>
      (swap_buffer e \<noteq> None \<longleftrightarrow> needs_buffer e)"
    by (rule finish_open_shape [OF f]) (use s3(4) s4 s5 in \<open>simp_all add: unbuffered_def\<close>)
  have chan: "input_channels e = fmt_channels sf" "output_channels e = output_channels d1"
    "bytewidth e = (fmt_bits sf + 7) div 8"
    using s2 s3(1) s4 s5 s6 by (simp_all add: same_channels_def)
  have "1 \<le> bytewidth e" "bytewidth e \<le> 4" using fmt(3,4) chan(3) by simp_all
  moreover have "maps_inside e" using maps_inside_cong [of d5 e] s5 s6 by simp
  ultimately have "well_routed e"
    using chan s1 fmt(1,2) by (auto simp: well_routed_def maps_inside_def split: option.splits)
  with s6 chan show ?thesis by (simp add: playing_def)
qed

lemma open_device_shape:
  assumes o: "open_device did format opts fil lib w = Some (Some (F', e), w')"
    and drv: "get_driver did lib = Some drv" "drv_functions drv = F"
    and fmt: "0 < fmt_channels format" "fmt_channels format \<le> INT_MAX" "1 \<le> fmt_bits format" "fmt_bits format \<le> 32"
  shows "F' = F \<and> playing e \<and> input_channels e = fmt_channels format \<and> bytewidth e = (fmt_bits format + 7) div 8"
proof -
  obtain c v where c: "create_device did F format fil w = (c, v)"
    by (cases "create_device did F format fil w")
  from o drv c obtain d where d: "c = Some d"
    by (cases c) (auto simp: open_device_def split: if_splits)
  have "Option.bind (open_options F (info_table lib) (global_options lib) opts d v)
      (\<lambda>(ok, d, w). if \<not> ok then open_error (Some (F, d)) None w
         else (case input_matrix format w of (im, w) \<Rightarrow>
               open_backend F (info_table lib) (format\<lparr>fmt_matrix := im\<rparr>) d w)) = Some (Some (F', e), w')"
    using o drv c d by (auto simp: open_device_def split: if_splits)
  then obtain ok d1 w1 where p: "open_options F (info_table lib) (global_options lib) opts d v = Some (ok, d1, w1)"
    "(if \<not> ok then open_error (Some (F, d1)) None w1
         else (case input_matrix format w1 of (im, w) \<Rightarrow>
               open_backend F (info_table lib) (format\<lparr>fmt_matrix := im\<rparr>) d1 w)) = Some (Some (F', e), w')"
    by (auto split: Option.bind_splits)
  have ok: "ok" using p(2) by (auto split: if_splits)
  obtain im w2 where i: "input_matrix format w1 = (im, w2)" by fastforce
  have b: "open_backend F (info_table lib) (format\<lparr>fmt_matrix := im\<rparr>) d1 w2 = Some (Some (F', e), w')"
    using p(2) ok i by simp
  have "internal d = None" "output_matrix d = None" "unbuffered d"
    using c d by (auto simp: create_device_def unbuffered_def split: prod.splits if_splits)
  from open_options_unbuffered [OF p(1) this] have "unbuffered d1" .
  from open_backend_shape [OF b this prepared_open_options] p(1) ok \<open>internal d = None\<close> fmt input_matrix_tokens [of format w1 _ w2] i show ?thesis by simp
qed

end


section \<open>Playing keeps the form\<close>

lemma zero_loop_length: "zero_loop cell i stride bytes target = Some t \<Longrightarrow> length t = length target"
proof (induction cell i stride bytes target rule: zero_loop.induct)
  case (1 cell i stride bytes target)
  show ?case
  proof (cases "i < bytes \<and> 0 < stride")
    case True
    with "1.prems" obtain u j where s: "store target i cell = Some u" "c_int (i + stride) = Some j"
      "zero_loop cell j stride bytes u = Some t"
      by (auto simp: zero_loop.simps [of cell i] split: Option.bind_splits)
    from "1.IH" [OF _ _ s] True length_store [OF s(1)] show ?thesis by simp
  next
    case False
    with "1.prems" show ?thesis by (auto simp: zero_loop.simps [of cell i] split: if_splits)
  qed
qed

lemma copy_loop_length: "copy_loop n g p i os is bytes source target = Some t \<Longrightarrow> length t = length target"
proof (induction n g p i os "is" bytes source target rule: copy_loop.induct)
  case (1 n g p i os "is" bytes source target)
  show ?case
  proof (cases "p < bytes \<and> 0 < os")
    case True
    with "1.prems" obtain c u p' i' where s: "load n source i = Some c" "store target p (g c) = Some u"
      "c_int (p + os) = Some p'" "c_int (i + is) = Some i'" "copy_loop n g p' i' os is bytes source u = Some t"
      by (auto simp: copy_loop.simps [of n g p] split: Option.bind_splits)
    from "1.IH" [OF _ _ s] True length_store [OF s(2)] show ?thesis by simp
  next
    case False
    with "1.prems" show ?thesis by (auto simp: copy_loop.simps [of n g p] split: if_splits)
  qed
qed

lemma route_loop_length: "route_loop i d out samples buf = Some t \<Longrightarrow> length t = length buf"
proof (induction i d out samples buf rule: route_loop.induct)
  case (1 i d out samples buf)
  show ?case
  proof (cases "i < output_channels d")
    case True
    with "1.prems" obtain ic u where s: "(case inter_permute d of None \<Rightarrow> Some i
        | Some perm \<Rightarrow> map_option hd (load 1 perm i)) = Some ic"
      "(if ic = -1 then buffer_zero buf i (bytewidth d) (output_channels d) out
        else (if needs_swap d then buffer_permute_swap else buffer_permute)
          buf i (bytewidth d) (output_channels d) out samples ic (input_channels d)) = Some u"
      "route_loop (i + 1) d out samples u = Some t"
      by (auto simp: route_loop.simps [of i d] split: Option.bind_splits)
    have "length u = length buf"
      using s(2)
      by (auto simp: buffer_zero_def buffer_permute_swap_def buffer_permute_def split: if_splits Option.bind_splits
          dest!: zero_loop_length copy_loop_length)
    with "1.IH" [OF _ s(1,2,3)] True show ?thesis by simp
  next
    case False
    with "1.prems" show ?thesis by (simp add: route_loop.simps [of i d])
  qed
qed

lemma playing_update:
  assumes "playing d" and "d' = d\<lparr>swap_buffer := b, swap_buffer_size := s, internal := x\<rparr>" and "buffer_ok d'"
    and "b \<noteq> None \<longleftrightarrow> swap_buffer d \<noteq> None"
  shows "playing d'"
proof -
  have "well_routed d' = well_routed d" "needs_buffer d' = needs_buffer d"
    by (auto simp: assms(2) well_routed_def needs_buffer_def needs_swap_def split: option.split)
  with assms show ?thesis by (simp add: playing_def)
qed

context ao_driver
begin

lemma ao_play_playing:
  assumes "ao_play (Some (F, d)) samples n w = Some (r, dev, w')" and "playing d"
  shows "\<exists>d'. dev = Some (F, d') \<and> playing d' \<and> same_channels d d'"
proof (cases "swap_buffer d = None")
  case True
  with assms(1) obtain d' where p: "fn_play F d samples n w = Some (r, d', w')" "dev = Some (F, d')"
    by (auto simp: ao_play_def split: Option.bind_splits)
  from play_law [OF p(1)] have d': "d' = d\<lparr>internal := internal d'\<rparr>" by simp
  have "playing (d\<lparr>internal := internal d'\<rparr>)"
    by (rule playing_update [OF assms(2), where b = "swap_buffer d" and s = "swap_buffer_size d"])
       (use assms(2) in \<open>auto simp: playing_def buffer_ok_def split: option.split\<close>)
  with d' p(2) show ?thesis by (metis same_channels_refl same_channels_update(1))
next
  case False
  define out where "out = int_of_u32 (n * word_of_int (output_channels d) div word_of_int (input_channels d))"
  have ic: "input_channels d \<noteq> 0" using assms(1) False by (auto simp: ao_play_def split: if_splits)
  note play = ao_play_swap [OF False ic, of F samples n w, folded out_def]
  obtain ok e v where r: "realloc_swap_buffer d out w = (ok, e, v)" by (cases "realloc_swap_buffer d out w")
  obtain old where old: "swap_buffer d = Some old" "int (length old) = swap_buffer_size d" "0 \<le> swap_buffer_size d"
    using False assms(2) by (auto simp: playing_def buffer_ok_def)
  obtain buf size where e: "e = d\<lparr>swap_buffer := Some buf, swap_buffer_size := size\<rparr>" "int (length buf) = size" "0 \<le> size"
  proof (cases "swap_buffer_size d < out \<and> ok")
    case True
    then have "e = d\<lparr>swap_buffer := Some (old @ replicate (nat out - length old) (w_junk v)), swap_buffer_size := out\<rparr>"
      using r old(1) by (auto simp: realloc_swap_buffer_def Let_def free_opt_def free_block_def split: if_splits prod.splits)
    then show ?thesis
      by (rule that [where buf = "old @ replicate (nat out - length old) (w_junk v)" and size = out]) (use True old in auto)
  next
    case False
    then have "e = d" using r by (auto simp: realloc_swap_buffer_def Let_def split: if_splits prod.splits)
    with old that [where buf = old and size = "swap_buffer_size d"] show ?thesis by (cases d) simp
  qed
  have pe: "playing (d\<lparr>swap_buffer := Some b, swap_buffer_size := size, internal := x\<rparr>)" if "length b = length buf" for b x
    by (rule playing_update [OF assms(2) refl]) (use that e(2,3) False in \<open>simp_all add: buffer_ok_def\<close>)
  show ?thesis
  proof (cases ok)
    case False
    with assms(1) play r have "dev = Some (F, e)" by auto
    moreover have "e = d\<lparr>swap_buffer := Some buf, swap_buffer_size := size, internal := internal d\<rparr>" using e(1) by simp
    ultimately show ?thesis using pe [of buf "internal d"] by (auto simp: same_channels_def)
  next
    case True
    with assms(1) play r e(1) obtain t d' where
      t: "route_loop 0 e out samples buf = Some t" "fn_play F (e\<lparr>swap_buffer := Some t\<rparr>) t (word_of_int out) v = Some (r, d', w')"
        "dev = Some (F, d')"
      by (auto split: Option.bind_splits)
    have "d' = e\<lparr>swap_buffer := Some t, internal := internal d'\<rparr>" using play_law [OF t(2)] by simp
    then have d': "d' = d\<lparr>swap_buffer := Some t, swap_buffer_size := size, internal := internal d'\<rparr>" using e(1) by (cases d) simp
    have "playing d'" by (subst d') (rule pe, rule route_loop_length [OF t(1)])
    moreover have "same_channels d d'" by (subst d') (simp add: same_channels_def)
    ultimately show ?thesis using t(3) by simp
  qed
qed

lemma play_all_playing:
  "play_all (Some (F, d)) blks w = Some (r, dev, w') \<Longrightarrow> playing d \<Longrightarrow>
   \<exists>d'. dev = Some (F, d') \<and> playing d' \<and> same_channels d d'"
proof (induction blks arbitrary: d w)
  case Nil
  then show ?case by auto
next
  case (Cons b blks)
  obtain n samples where b: "b = (n, samples)" by (cases b)
  from Cons.prems(1) b obtain ok e v where p:
    "ao_play (Some (F, d)) samples (of_nat (in_bytes d n)) w = Some (ok, e, v)"
    by (auto split: Option.bind_splits)
  from ao_play_playing [OF p Cons.prems(2)] obtain d1 where d1: "e = Some (F, d1)" "playing d1" "same_channels d d1" by blast
  show ?case
  proof (cases ok)
    case False
    with Cons.prems(1) b p d1 show ?thesis by auto
  next
    case True
    with Cons.prems(1) b p d1 have "play_all (Some (F, d1)) blks v = Some (r, dev, w')" by auto
    from Cons.IH [OF this d1(2)] same_channels_trans [OF d1(3)] show ?thesis by blast
  qed
qed

end


section \<open>The drivers\<close>

interpretation null_shape: shaped_driver ao_null one_block
  by standard (auto simp: ao_null_def ao_null_open_def Let_def split: option.splits prod.splits)

interpretation raw_shape: shaped_driver ao_raw one_block
  by standard (auto simp: ao_raw_def ao_raw_open_def split: Option.bind_splits)

interpretation au_shape: shaped_driver ao_au one_block
  by standard (auto simp: ao_au_def ao_au_open_def Let_def split: Option.bind_splits prod.splits if_splits)

interpretation wav_shape: shaped_driver ao_wav one_block
  by standard (auto simp: ao_wav_def ao_wav_open_def Let_def split: Option.bind_splits if_splits)

lemma oss_configure_channels: "oss_configure b fd d format w = (ok, d', w') \<Longrightarrow> same_channels d d'"
  by (auto simp: oss_configure_def Let_def split: prod.splits if_splits)

interpretation oss_shape: shaped_driver "ao_oss b" plugin_blocks for b
proof
  fix d d' :: live_device and sf sf' r and w w' :: "'a posix_scheme"
  assume "fn_open (ao_oss b) d sf w = Some (r, d', sf', w')"
  then show "same_channels d d' \<and> fmt_channels sf' = fmt_channels sf"
    by (auto simp: ao_oss_def ao_oss_open_def Let_def split: Option.bind_splits prod.splits if_splits
        dest!: oss_configure_channels stereo_matrix_channels simp: same_channels_def)
qed

interpretation sun_shape: shaped_driver ao_sun plugin_blocks
  by standard (auto simp: ao_sun_def ao_sun_open_def Let_def split: Option.bind_splits prod.splits if_splits
      dest!: stereo_matrix_channels simp: same_channels_def)

interpretation esd_shape: shaped_driver "ao_esd h" plugin_blocks for h
  by standard (auto simp: ao_esd_def ao_esd_open_def Let_def split: Option.bind_splits prod.splits if_splits)

interpretation sndio_shape: shaped_driver ao_sndio plugin_blocks
  by standard (auto simp: ao_sndio_def ao_sndio_open_def Let_def split: Option.bind_splits prod.splits if_splits
      dest!: stereo_matrix_channels simp: same_channels_def)

interpretation arts_shape: shaped_driver "ao_arts b" plugin_blocks for b
  by standard (auto simp: ao_arts_def dest!: ao_arts_open_shape)

interpretation nas_shape: shaped_driver "ao_nas h" plugin_blocks for h
  by standard (auto simp: ao_nas_def ao_nas_open_def Let_def split: Option.bind_splits option.splits prod.splits if_splits
      dest!: stereo_matrix_channels simp: same_channels_def)

interpretation irix_shape: shaped_driver "ao_irix h" plugin_blocks for h
  by standard (auto simp: ao_irix_def ao_irix_open_def Let_def split: Option.bind_splits prod.splits if_splits
      dest!: stereo_matrix_channels simp: same_channels_def)

interpretation pulse_shape: shaped_driver "ao_pulse h" plugin_blocks for h
  by standard (auto simp: ao_pulse_def ao_pulse_open_def Let_def split: Option.bind_splits option.splits prod.splits if_splits)

lemma roar_matrix_channels: "roar_matrix n d w = (d', w') \<Longrightarrow> same_channels d d'"
  by (auto simp: roar_matrix_def split: if_splits option.splits prod.splits)

interpretation roar_shape: shaped_driver "ao_roar b" plugin_blocks for b
  by standard (auto simp: ao_roar_def ao_roar_open_def roar_give_up_def Let_def split: Option.bind_splits prod.splits if_splits
      dest!: roar_matrix_channels simp: same_channels_def)

interpretation alsa_shape: shaped_driver "ao_alsa h" plugin_blocks for h
proof
  fix d d' :: live_device and sf sf' r and w w' :: "'a posix_scheme"
  assume o: "fn_open (ao_alsa h) d sf w = Some (r, d', sf', w')"
  then obtain i where i: "alsa_state d = Some i"
    by (auto simp: ao_alsa_def ao_alsa_open_def split: Option.bind_splits)
  have sel: "same_channels c c' \<and> (\<exists>b. f' = f\<lparr>fmt_bits := b\<rparr>)"
    if "alsa_select h c j f w = Some (e, c', j', f', v)" for c j f e c' j' f' v
    using alsa_select_held [OF that] by (auto simp: alsa_same_def same_channels_def)
  from o i show "same_channels d d' \<and> fmt_channels sf' = fmt_channels sf"
    by (auto simp: ao_alsa_def ao_alsa_open_def Let_def same_channels_def split: Option.bind_splits prod.splits if_splits
        dest!: sel alsa_padding_held)
qed

interpretation macosx_shape: shaped_driver "ao_macosx h" plugin_blocks for h
  by standard (auto simp: ao_macosx_def ao_macosx_open_def Let_def same_channels_def
      split: Option.bind_splits prod.splits if_splits)

interpretation wmm_shape: shaped_driver ao_wmm plugin_blocks
  by standard (auto simp: ao_wmm_def ao_wmm_open_def Let_def same_channels_def
      split: Option.bind_splits prod.splits if_splits)

lemma all_drivers_shaped: "F \<in> all_drivers b \<Longrightarrow> \<exists>blk. shaped_driver F blk"
  unfolding all_drivers_def drivers_defs set_append
  using null_shape.shaped_driver_axioms wav_shape.shaped_driver_axioms raw_shape.shaped_driver_axioms
    au_shape.shaped_driver_axioms oss_shape.shaped_driver_axioms sun_shape.shaped_driver_axioms
    esd_shape.shaped_driver_axioms sndio_shape.shaped_driver_axioms arts_shape.shaped_driver_axioms
    nas_shape.shaped_driver_axioms irix_shape.shaped_driver_axioms pulse_shape.shaped_driver_axioms
    roar_shape.shaped_driver_axioms alsa_shape.shaped_driver_axioms macosx_shape.shaped_driver_axioms
    wmm_shape.shaped_driver_axioms
  by (simp only: set_simps Un_insert_left Un_insert_right Un_empty_left Un_empty_right insert_iff Un_iff empty_iff) blast

text \<open>
  C18.  What is handed out is well formed, and stays so.  With every modelled driver and whatever the
  system answers: a device that \<open>ao_open_live\<close> or \<open>ao_open_file\<close> returns for a format with 1 to 32
  bits and a positive number of channels has as many input channels and bytes a sample as the
  format, a map that leads from each backend channel into the input or to silence, and a swap
  buffer of the size it says, exactly when it is needed; and so it is after any sequence of \<open>ao_play\<close>,
  of any bytes, however they end.
\<close>

theorem opened_device_form:
  assumes "F \<in> all_drivers b" and "get_driver did lib = Some drv" and "drv_functions drv = F"
    and "0 < fmt_channels format" and "fmt_channels format \<le> INT_MAX" and "1 \<le> fmt_bits format" and "fmt_bits format \<le> 32"
    and "ao_open_live did format opts lib w = Some (Some dev, w1) \<or>
      ao_open_file did name overwrite format opts lib w = Some (Some dev, w1)"
    and "play_all (Some dev) blks w1 = Some (r, dev', w2)"
  shows "\<exists>d. dev' = Some (F, d) \<and> well_routed d \<and> buffer_ok d \<and> (swap_buffer d \<noteq> None \<longleftrightarrow> needs_buffer d) \<and>
    input_channels d = fmt_channels format \<and> bytewidth d = (fmt_bits format + 7) div 8"
proof -
  obtain blk where blk: "shaped_driver F blk" using all_drivers_shaped [OF assms(1)] by blast
  then have drv: "ao_driver F blk" by (simp add: shaped_driver_def)
  obtain fil v u where o: "open_device did format opts fil lib v = Some (Some dev, u)"
    using assms(8) by (auto simp: ao_open_live_def ao_open_file_def split: if_splits prod.splits option.splits Option.bind_splits)
  obtain F' e where dev: "dev = (F', e)" by (cases dev)
  from shaped_driver.open_device_shape [OF blk o [unfolded dev] assms(2-7)]
  have e: "F' = F" "playing e" "input_channels e = fmt_channels format" "bytewidth e = (fmt_bits format + 7) div 8"
    by simp_all
  from ao_driver.play_all_playing [OF drv _ e(2)] assms(9) dev e(1) obtain d where
    "dev' = Some (F, d)" "playing d" "same_channels e d" by blast
  then show ?thesis using e(3,4) by (simp add: playing_def same_channels_def)
qed


theorem opened_device_form_witness:
  "\<exists>dev w1 r dev' w2 d. ao_open_live 4 stereo_format [] live_lib (demo_posix demo_answer []) = Some (Some dev, w1) \<and>
     play_all (Some dev) [(2, [1, 2, 3, 4, 5, 6, 7, 8])] w1 = Some (r, dev', w2) \<and>
     dev' = Some (drv_functions (live_driver 4), d) \<and> well_routed d \<and> buffer_ok d \<and> input_channels d = 2 \<and> bytewidth d = 2"
proof (rule demo_session_oss)
  fix dev w1 r dev' w2 r' w3
  assume "demo_session 4 [] [(2, [1, 2, 3, 4, 5, 6, 7, 8])] [] = Some (Some dev, w1, r, dev', w2, r', w3)"
  note s = demo_session_D [OF this]
  have f: "drv_functions (live_driver 4) \<in> all_drivers live_builds" by (rule live_functions_contract) simp
  have g: "get_driver 4 live_lib = Some (live_driver 4)" using live_get_driver [of 4] by simp
  have "\<exists>d. dev' = Some (drv_functions (live_driver 4), d) \<and> well_routed d \<and> buffer_ok d \<and>
      (swap_buffer d \<noteq> None \<longleftrightarrow> needs_buffer d) \<and> input_channels d = fmt_channels stereo_format \<and>
      bytewidth d = (fmt_bits stereo_format + 7) div 8"
    by (rule opened_device_form [OF f g refl _ _ _ _ disjI1 [OF s(1)] s(2)])
       (simp_all add: stereo_format_def INT_MAX_def)
  with s(1,2) show ?thesis by (auto simp: stereo_format_def)
qed

end
