(* ===== verification/AO_Channels.thy ===== *)
theory AO_Channels
  imports AO_Demo AO_Open_Laws
begin

text \<open>
  What the channel matrices promise: names decide which input channel a backend channel gets, the
  masks and the strings stand for sets of names, and the places where a string or a shift leaves
  its bounds.
\<close>

section \<open>From names to channels\<close>

lemma last_shared_ge:
  assumes "b < length toks" and "shared ts (toks ! b)"
  shows "b \<le> last_shared toks ts"
  unfolding last_shared_def by (rule Max_ge) (use assms in auto)

lemma channel_plan_shared:
  assumes "order \<noteq> AO_OUTPUT_MATRIX_UNDEFINED"
  shows "{t \<in> set (channel_plan order toks ts). shared ts t} = {t \<in> set toks. shared ts t}"
proof (cases order)
  case AO_OUTPUT_MATRIX_FIXED
  have "t \<in> set (take (Suc (last_shared toks ts)) toks)" if t: "t \<in> set toks" "shared ts t" for t
  proof -
    from t(1) obtain b where b: "b < length toks" "toks ! b = t" by (auto simp: in_set_conv_nth)
    with last_shared_ge [of b toks ts] t(2) show ?thesis by (auto simp: in_set_conv_nth)
  qed
  with AO_OUTPUT_MATRIX_FIXED show ?thesis
    using set_take_subset by (fastforce simp: channel_plan_def)
qed (use assms in \<open>auto simp: channel_plan_def shared_def\<close>)

lemma source_of_shared:
  assumes "k \<noteq> 1" and "t \<noteq> ''''"
  shows "if shared ts t then \<exists>i < length ts. source_of ts k t = int i \<and> ts ! i = t
    else source_of ts k t = -1"
proof (cases "shared ts t")
  case True
  then have "source_of ts k t = position t ts" "t \<in> set ts"
    using assms(1) by (auto simp: source_of_def shared_def)
  moreover from this(2) obtain i where "position t ts = int i" by (auto simp: position_def)
  ultimately show ?thesis using True position_nth [of t ts i] by auto
next
  case False
  then show ?thesis using assms by (auto simp: source_of_def shared_def position_def)
qed

lemma demo_tokens: "tokens ''L,R,C'' = [''L'', ''R'', ''C'']" "tokens ''C,A1,L'' = [''C'', ''A1'', ''L'']"
  using tokens_join [of "[''L'', ''R'', ''C'']"] tokens_join [of "[''C'', ''A1'', ''L'']"] by simp_all

section \<open>Sanitizing, masks and strings\<close>

text \<open>
  C28.  \<open>_sanitize_matrix\<close> accepts exactly the matrices whose first \<open>maxchannels\<close> names, white space
  around them apart, are mnemonics.  What it returns is those names, fits the buffer that has the
  size of the input, and is a fixed point; a matrix it refuses leaves the heap as it was.
\<close>

theorem sanitize_matrix_spec:
  assumes "w_allocs w = []" and "0 < n"
  shows "let ts = take (nat n) (map strip (tokens s)) in
    if set ts \<subseteq> set mnemonics
    then \<exists>r w'. sanitize_matrix n (Some s) w = (Some r, w') \<and> tokens r = ts \<and> length r \<le> length s \<and>
      fst (sanitize_matrix n (Some r) w') = Some r
    else \<exists>w'. sanitize_matrix n (Some s) w = (None, w') \<and> w_live w' = w_live w"
proof -
  let ?ts = "take (nat n) (map strip (tokens s))"
  show ?thesis
  proof (cases "set ?ts \<subseteq> set mnemonics")
    case True
    then have r: "sanitized n s = Some (join ?ts)" by (simp add: sanitized_def)
    have v: "w_allocs (w\<lparr>w_live := w_live w + 1\<rparr>) = []" using assms(1) by simp
    show ?thesis
      using True sanitize_matrix_plenty [OF assms(1), of n s] sanitize_matrix_plenty [OF v, of n "join ?ts"]
        sanitized_clean(2) [OF r assms(2)] sanitized_length [OF r] sanitized_idem [OF r assms(2)] r
      by (simp add: Let_def)
  next
    case False
    then have "sanitized n s = None" by (simp add: sanitized_def)
    with False sanitize_matrix_plenty [OF assms(1), of n s] show ?thesis by (simp add: Let_def)
  qed
qed

theorem sanitize_matrix_spec_witness:
  "\<exists>r w'. sanitize_matrix 3 (Some '' C, A1 ,L'') (demo_world []) = (Some r, w') \<and>
     tokens r = [''C'', ''A1'', ''L''] \<and> length r \<le> length '' C, A1 ,L'' \<and> fst (sanitize_matrix 3 (Some r) w') = Some r"
proof -
  have "tokens '' C, A1 ,L'' = ['' C'', '' A1 '', ''L'']"
    using tokens_join [of "['' C'', '' A1 '', ''L'']"] by simp
  then have t: "take (nat 3) (map strip (tokens '' C, A1 ,L'')) = [''C'', ''A1'', ''L'']"
    by (simp add: strip_def drop_trailing_def skip_space_def isspace_def)
  have m: "set [''C'', ''A1'', ''L''] \<subseteq> set mnemonics" by (simp add: mnemonics_def)
  have "w_allocs (demo_world []) = []" "(0 :: int) < 3" by (simp_all add: demo_world_def)
  from sanitize_matrix_spec [OF this, of "'' C, A1 ,L''"] show ?thesis
    unfolding t Let_def using m by (simp only: if_True simp_thms)
qed

text \<open>
  C27.  The channel mask of an input matrix: bit \<open>b\<close> is set exactly when a channel of the input is
  the \<open>b\<close>th of the backend, the map gives the position of each input channel or -1, and the two
  counting loops give the number of bits and the highest one.
\<close>

theorem channelmask_spec:
  assumes "int (length (tokens s)) \<le> ch" and "length (tokens pre) \<le> 32" and "w_allocs w = []"
  shows "\<exists>x perm w'. matrix_to_channelmask ch s pre w = Some (x, Some perm, w') \<and>
    int (length perm) = ch \<and>
    (\<forall>b < 32. bit x b \<longleftrightarrow> (\<exists>t \<in> set (tokens s). slot (map strip (tokens pre)) t = int b)) \<and>
    (\<forall>i < length (tokens s). perm ! i = slot (map strip (tokens pre)) (tokens s ! i)) \<and>
    channelmask_bits x = int (card {b. bit x b}) \<and>
    channelmask_maxbit x = (if x = 0 then -1 else int (Max {b. bit x b}))"
proof -
  obtain w' where "matrix_to_channelmask ch s pre w = Some (mask_of (map strip (tokens pre)) (tokens s),
      Some (slot_map ch (map strip (tokens pre)) s), w')"
    using matrix_to_channelmask_plenty [OF assms] .
  moreover have "slot_map ch toks s ! i = slot toks (tokens s ! i)" if "i < length (tokens s)" for i toks
    using that by (simp add: slot_map_def nth_append)
  ultimately show ?thesis
    using length_slot_map [OF assms(1)] bit_mask_of channelmask_bits_card channelmask_maxbit_Max
    by (simp add: bit_set_def)
qed

theorem channelmask_spec_witness:
  "\<exists>x perm w'. matrix_to_channelmask 3 ''C,A1,L'' ''L,R,C'' (demo_world []) = Some (x, Some perm, w') \<and>
    int (length perm) = 3 \<and>
    (\<forall>b < 32. bit x b \<longleftrightarrow> (\<exists>t \<in> set (tokens ''C,A1,L''). slot (map strip (tokens ''L,R,C'')) t = int b)) \<and>
    (\<forall>i < length (tokens ''C,A1,L''). perm ! i = slot (map strip (tokens ''L,R,C'')) (tokens ''C,A1,L'' ! i)) \<and>
    channelmask_bits x = int (card {b. bit x b}) \<and>
    channelmask_maxbit x = (if x = 0 then -1 else int (Max {b. bit x b}))"
  by (rule channelmask_spec) (simp_all add: demo_tokens demo_world_def)

lemma set_picked_iff: "t \<in> set (picked x m ts) \<longleftrightarrow> (\<exists>b < length ts. ts ! b = t \<and> bit x (m + b))"
proof (induction x m ts rule: picked.induct)
  case (1 x m)
  then show ?case by simp
next
  case (2 x m u ts)
  have "(\<exists>b < length (u # ts). (u # ts) ! b = t \<and> bit x (m + b)) \<longleftrightarrow>
      u = t \<and> bit x m \<or> (\<exists>b < length ts. ts ! b = t \<and> bit x (Suc m + b))"
    by (auto simp: less_Suc_eq_0_disj)
  with 2 show ?case by (auto split: if_splits)
qed

lemma mask_of_picked:
  fixes x :: "32 word"
  assumes "distinct toks" and "length toks \<le> 32" and "'''' \<notin> set toks" and "''X'' \<notin> set toks"
    and "\<forall>b. bit x b \<longrightarrow> b < length toks"
  shows "mask_of toks (picked x 0 toks) = x"
proof (rule bit_word_eqI)
  fix b assume b: "b < LENGTH(32)"
  have "(\<exists>t \<in> set (picked x 0 toks). slot toks t = int b) \<longleftrightarrow> bit x b"
  proof
    assume "\<exists>t \<in> set (picked x 0 toks). slot toks t = int b"
    then obtain c where c: "c < length toks" "bit x c" "slot toks (toks ! c) = int b"
      by (auto simp: set_picked_iff)
    then have "toks ! b = toks ! c" "b < length toks"
      using slot_nth [of toks "toks ! c"] slot_bounds [of toks "toks ! c"] by auto
    with c assms(1) nth_eq_iff_index_eq show "bit x b" by metis
  next
    assume x: "bit x b"
    then have "b < length toks" using assms(5) by blast
    moreover from this have "toks ! b \<noteq> ''''" "toks ! b \<noteq> ''X''" using assms(3,4) nth_mem by metis+
    ultimately show "\<exists>t \<in> set (picked x 0 toks). slot toks t = int b"
      using x slot_nth_eq [OF assms(1), of b "toks ! b"] by (intro bexI [of _ "toks ! b"]) (auto simp: set_picked_iff)
  qed
  then show "bit (mask_of toks (picked x 0 toks)) b \<longleftrightarrow> bit x b" using b bit_mask_of by simp
qed

text \<open>
  C26.  Mask and matrix are inverse: the string that \<open>_channelmask_to_matrix\<close> writes for a mask of a
  backend's channels has, read back against the same backend, that mask.
\<close>

theorem channelmask_roundtrip:
  fixes x :: "32 word"
  assumes "distinct (tokens pre)" and "set (tokens pre) \<subseteq> set mnemonics" and "''X'' \<notin> set (tokens pre)"
    and "length (tokens pre) \<le> 32" and "x \<noteq> 0" and "\<forall>b. bit x b \<longrightarrow> b < length (tokens pre)"
    and "w_allocs w = []"
  shows "\<exists>m w1 n perm w2. channelmask_to_matrix x pre w = Some (Some m, w1) \<and>
    n = int (length (tokens m)) \<and> n = channelmask_bits x \<and>
    matrix_to_channelmask n m pre w1 = Some (x, Some perm, w2)"
proof -
  let ?toks = "tokens pre"
  have strip: "map strip ?toks = ?toks" by (rule set_strip_tokens [OF assms(2)])
  have short: "\<forall>t \<in> set ?toks. length (strip t) \<le> 7"
    using assms(2) mnemonics_facts(3) by fastforce
  obtain w1 where m: "channelmask_to_matrix x pre w = Some (Some (join (picked x 0 ?toks)), w1)"
    using channelmask_to_matrix_plenty [OF assms(4) short assms(7)] unfolding strip .
  have set: "{b. 0 \<le> b \<and> b < 0 + length ?toks \<and> bit x b} = bit_set x"
    using assms(6) by (auto simp: bit_set_def)
  have len: "int (length (picked x 0 ?toks)) = channelmask_bits x"
    using length_picked_card [of x 0 ?toks] unfolding set by (simp add: channelmask_bits_card)
  have "picked x 0 ?toks \<noteq> []"
    using len assms(5) bit_set_empty_iff [of x] by (auto simp: channelmask_bits_card)
  then have t: "tokens (join (picked x 0 ?toks)) = picked x 0 ?toks"
    using tokens_join_names set_picked [of x 0 ?toks] assms(2) by blast
  have "w_allocs w1 = []" using channelmask_to_matrix_heap [OF m] heap_step_plenty assms(7) by blast
  then obtain w2 where "matrix_to_channelmask (int (length (picked x 0 ?toks))) (join (picked x 0 ?toks)) pre w1 =
      Some (mask_of ?toks (picked x 0 ?toks),
        Some (slot_map (int (length (picked x 0 ?toks))) ?toks (join (picked x 0 ?toks))), w2)"
    using matrix_to_channelmask_plenty [OF _ assms(4), of "join (picked x 0 ?toks)" "int (length (picked x 0 ?toks))" w1]
    unfolding t strip by auto
  moreover have "'''' \<notin> set ?toks" using assms(2) mnemonics_facts(3) by blast
  ultimately show ?thesis
    using m len mask_of_picked [OF assms(1,4) _ assms(3,6)] t by auto
qed

theorem channelmask_roundtrip_witness:
  "\<exists>m w1 n perm w2. channelmask_to_matrix 5 ''L,R,C'' (demo_world []) = Some (Some m, w1) \<and>
    n = int (length (tokens m)) \<and> n = channelmask_bits 5 \<and>
    matrix_to_channelmask n m ''L,R,C'' w1 = Some (5, Some perm, w2)"
proof -
  have five: "\<forall>b. bit (5 :: 32 word) b \<longrightarrow> b < length (tokens ''L,R,C'')"
    by (auto simp: demo_tokens bit_numeral_rec bit_1_iff bit_0_eq split: nat.splits)
  show ?thesis
    by (rule channelmask_roundtrip [OF _ _ _ _ _ five])
       (simp_all add: demo_tokens mnemonics_def demo_world_def)
qed

text \<open>
  C33.  \<open>_matrix_intersect\<close> writes its result into 257 bytes without a check.  It overruns them
  exactly when the names of the input that the backend has, with the commas between them, take
  more than 256 characters; otherwise it returns those names in the order of the input.
\<close>

theorem matrix_intersect_overrun:
  assumes "w_allocs w = []" and "set (tokens pre) \<subseteq> set mnemonics"
  shows "let r = join (filter (\<lambda>t. t \<in> set (tokens pre) \<and> t \<noteq> [] \<and> t \<noteq> ''X'') (tokens s)) in
    if 256 < length r then matrix_intersect s pre w = None
    else \<exists>w'. matrix_intersect s pre w = Some (Some r, w')"
  using matrix_intersect_plenty [OF assms(1), of pre s]
  unfolding set_strip_tokens [OF assms(2)] common_def slot_shared Let_def by (auto split: if_splits)

theorem matrix_intersect_overrun_witness:
  "matrix_intersect (join (replicate 129 ''L'')) ''L,R,C'' (demo_world []) = None"
proof -
  have t: "tokens (join (replicate 129 ''L'')) = replicate 129 ''L''"
    by (rule tokens_join) (simp_all only: set_replicate_conv_if, simp_all)
  have "length (join (replicate 129 ''L'')) + 1 = (\<Sum>t\<leftarrow>replicate 129 ''L''. length t + 1)"
    by (rule length_join) simp
  then have "256 < length (join (replicate 129 ''L''))" by (simp add: sum_list_replicate)
  moreover have "w_allocs (demo_world []) = []" "set (tokens ''L,R,C'') \<subseteq> set mnemonics"
    by (simp_all add: demo_world_def demo_tokens mnemonics_def)
  ultimately show ?thesis using matrix_intersect_overrun [of "demo_world []" "''L,R,C''" "join (replicate 129 ''L'')"]
    by (simp add: t demo_tokens)
qed

section \<open>Bytes\<close>

lemma samples_ext:
  assumes "length xs = n * b" and "length ys = n * b" and "\<And>i. i < n \<Longrightarrow> sample b xs i = sample b ys i"
  shows "xs = ys"
proof -
  have "xs = concat (map (sample b xs) [0..<n])" using take_samples [of n b xs] assms(1) by simp
  also have "map (sample b xs) [0..<n] = map (sample b ys) [0..<n]" using assms(3) by simp
  also have "concat (map (sample b ys) [0..<n]) = ys" using take_samples [of n b ys] assms(2) by simp
  finally show ?thesis .
qed

text \<open>
  \<open>_swap_samples\<close> exchanges the two bytes of every 16-bit sample, so that doing it twice gives
  the samples back, whatever was in the target buffers.
\<close>

theorem swap_samples_twice:
  assumes "length src = n * 2" and "length xs = n * 2" and "length zs = n * 2" and "n * 2 + 2 < 2 ^ 32"
  shows "\<exists>ys. swap_samples xs src (of_nat (n * 2)) = Some ys \<and>
    (\<forall>i < n. sample 2 ys i = rev (sample 2 src i)) \<and> swap_samples zs ys (of_nat (n * 2)) = Some src"
proof -
  from swap_samples_written [of n src xs] assms obtain ys where
    y: "swap_samples xs src (of_nat (n * 2)) = Some ys" "channel_written 2 1 0 n (\<lambda>f. rev (sample 2 src f)) xs ys"
    by auto
  then have ys: "length ys = n * 2" "\<And>i. i < n \<Longrightarrow> sample 2 ys i = rev (sample 2 src i)"
    using assms(2) by (simp_all add: channel_written_def)
  from swap_samples_written [of n ys zs] assms ys(1) obtain us where
    u: "swap_samples zs ys (of_nat (n * 2)) = Some us" "channel_written 2 1 0 n (\<lambda>f. rev (sample 2 ys f)) zs us"
    by auto
  then have "length us = n * 2" "\<And>i. i < n \<Longrightarrow> sample 2 us i = sample 2 src i"
    using assms(3) ys(2) by (simp_all add: channel_written_def)
  then have "us = src" using samples_ext assms(1) by blast
  with y(1) u(1) ys(2) show ?thesis by blast
qed

theorem swap_samples_twice_witness:
  "\<exists>ys. swap_samples [0, 0, 0, 0] [1, 2, 3, 4] (of_nat (2 * 2)) = Some ys \<and>
    (\<forall>i < 2. sample 2 ys i = rev (sample 2 [1, 2, 3, 4] i)) \<and>
    swap_samples [9, 9, 9, 9] ys (of_nat (2 * 2)) = Some [1, 2, 3, 4]"
  by (rule swap_samples_twice) simp_all

end
