(* ===== verification/AO_Mapped.thy ===== *)
theory AO_Mapped
  imports AO_Channels
begin

text \<open>
  A session whose input names its channels: the WAV file gets the channels that WAV knows, in
  WAV's order, whatever the order in which the client interleaves them.
\<close>

section \<open>From the backend's matrix to a device that plays\<close>

lemma drop_identity_route:
  assumes "inter_permute d = Some perm" and "int (length perm) = output_channels d"
    and "drop_identity d w = Some (d', w')" and "c < length perm"
  shows "route d' c = perm ! c"
proof -
  obtain v where "drop_identity d w = Some
      (if output_channels d = input_channels d \<and> perm = [0..output_channels d - 1]
       then d\<lparr>inter_permute := None\<rparr> else d, v)"
    using drop_identity_cases [OF assms(1,2)] .
  with assms(3) have d':
    "d' = (if output_channels d = input_channels d \<and> perm = [0..output_channels d - 1]
       then d\<lparr>inter_permute := None\<rparr> else d)" by simp
  show ?thesis
  proof (cases "output_channels d = input_channels d \<and> perm = [0..output_channels d - 1]")
    case True
    then have perm: "perm = [0..output_channels d - 1]" by simp
    have "perm ! c = int c"
      using nth_upto [of 0 c "output_channels d - 1"] assms(2,4) by (subst perm) simp
    then show ?thesis using d' True by (simp add: route_def)
  next
    case False
    then show ?thesis unfolding d' using assms(1) by (auto simp: route_def)
  qed
qed

lemma backend_mapped:
  fixes d :: "'p ao_device"
  assumes im: "fmt_matrix sf = Some im" "fmt_channels sf = int (length (tokens im))"
    and m: "inter_matrix d = Some m" "set (tokens m) \<subseteq> set mnemonics"
      "output_channels d = int (length plan)" "take (length plan) (tokens m) = plan"
    and sb: "swap_buffer d = None" "swap_buffer_size d = 0" and ic: "input_channels d = fmt_channels sf"
    and w: "w_allocs w = []"
  obtains d1 v d2 v2 d' w' where "build_permutation table d sf w = Some (True, d1, v)"
    "drop_identity d1 v = Some (d2, v2)" "finish_open F d2 (fmt_matrix sf) v2 = Some (Some (F, d'), w')"
    "calm w w'"
    "d' = d\<lparr>inter_permute := inter_permute d', swap_buffer := swap_buffer d',
       swap_buffer_size := swap_buffer_size d',
       driver_byte_format := real_byte_format (driver_byte_format d) w\<rparr>"
    "buffer_ok d'" "swap_buffer d' \<noteq> None \<longleftrightarrow> needs_buffer d'"
    "\<And>c. c < length plan \<Longrightarrow> route d' c = source_of (tokens im) (fmt_channels sf) (plan ! c)"
    "inter_permute d' = None \<and> output_channels d = input_channels d \<or>
     (\<exists>perm. inter_permute d' = Some perm \<and> length perm = length plan \<and>
       (\<forall>c \<in> set perm. -1 \<le> c \<and> c < fmt_channels sf))"
proof -
  let ?perm = "plan_permutation (length plan) (tokens m) (tokens im) (fmt_channels sf)"
  let ?d1 = "d\<lparr>inter_permute := Some ?perm\<rparr>"
  have names: "backend_names d = m" "d\<lparr>inter_matrix := Some m, inter_permute := Some ?perm\<rparr> = ?d1"
    using m(1) by (cases d, simp add: backend_names_def)+
  obtain v where b: "build_permutation table d sf w = Some (True, ?d1, v)" "calm w v"
    by (rule build_permutation_plan [OF im(1) _ _ _ _ w, of d table, unfolded names(1)])
       (use im(2) m in \<open>simp_all add: names(2)\<close>)
  obtain v2 where i: "drop_identity ?d1 v = Some
      (if output_channels d = input_channels d \<and> ?perm = [0..output_channels d - 1]
       then ?d1\<lparr>inter_permute := None\<rparr> else ?d1, v2)" "calm v v2"
    by (rule drop_identity_cases [of ?d1 ?perm v]) (use m(3) in simp_all)
  let ?d2 = "if output_channels d = input_channels d \<and> ?perm = [0..output_channels d - 1]
       then ?d1\<lparr>inter_permute := None\<rparr> else ?d1"
  have v2: "calm w v2" "w_allocs v2 = []"
    using calm_trans [OF b(2) i(2)] calm_plenty [OF _ w] by blast+
  have d2: "swap_buffer ?d2 = None" "swap_buffer_size ?d2 = 0" using sb by simp_all
  obtain d' w' where f: "finish_open F ?d2 (fmt_matrix sf) v2 = Some (Some (F, d'), w')" "calm v2 w'"
    "d' = ?d2\<lparr>driver_byte_format := real_byte_format (driver_byte_format ?d2) v2,
            swap_buffer := swap_buffer d', swap_buffer_size := swap_buffer_size d'\<rparr>"
    "buffer_ok d'" "swap_buffer d' \<noteq> None \<longleftrightarrow> needs_buffer d'"
    using finish_open_plenty [OF d2 v2(2)] by metis
  have be: "real_byte_format (driver_byte_format ?d2) v2 = real_byte_format (driver_byte_format d) w"
    using v2(1) by (simp add: real_byte_format_def ao_is_big_endian_correct calm_def)
  have perm: "inter_permute d' = inter_permute ?d2" by (subst f(3)) simp
  have eq: "d' = d\<lparr>inter_permute := inter_permute d', swap_buffer := swap_buffer d',
       swap_buffer_size := swap_buffer_size d',
       driver_byte_format := real_byte_format (driver_byte_format d) w\<rparr>"
    unfolding perm using f(3) [unfolded be] by (cases d; cases d') auto
  have "route d' c = ?perm ! c" if "c < length plan" for c
  proof -
    have "route d' c = route ?d2 c" by (simp only: route_def perm)
    also have "\<dots> = ?perm ! c" by (rule drop_identity_route [OF _ _ i(1)]) (use that m(3) in simp_all)
    finally show ?thesis .
  qed
  moreover have "?perm ! c = source_of (tokens im) (fmt_channels sf) (plan ! c)" if "c < length plan" for c
  proof -
    have "c < length (tokens m)" "plan ! c = tokens m ! c"
      using m(4) that by (metis length_take min_less_iff_conj, metis nth_take)
    then show ?thesis using nth_plan_permutation [OF that] by simp
  qed
  moreover have "inter_permute d' = None \<and> output_channels d = input_channels d \<or>
     (\<exists>perm. inter_permute d' = Some perm \<and> length perm = length plan \<and>
       (\<forall>c \<in> set perm. -1 \<le> c \<and> c < fmt_channels sf))"
    unfolding perm using plan_permutation_bounds [of _ "length plan" "tokens m" "tokens im" "fmt_channels sf"] im(2)
    by (auto simp: max_def Suc_le_eq split: if_splits)
  ultimately show ?thesis
    using that [OF b(1) i(1) f(1) calm_trans [OF v2(1) f(2)] eq f(4,5)] by simp
qed

section \<open>Frames by name\<close>

text \<open>
  \<open>n\<close> frames of samples of \<open>b\<close> bytes: of each, the channels \<open>plan\<close> in this order, found by their
  name in the input's order \<open>ts\<close>.
\<close>

definition named_frames :: "bool \<Rightarrow> nat \<Rightarrow> string list \<Rightarrow> string list \<Rightarrow> nat \<Rightarrow> byte list \<Rightarrow> byte list" where
  "named_frames swap b ts plan n samples =
     concat (map (\<lambda>f. concat (map (\<lambda>t. (if swap then rev else id)
       (sample b samples (f * length ts + nat (position t ts)))) plan)) [0..<n])"

lemma routed_named:
  assumes "\<And>c. c < length plan \<Longrightarrow> route d c = source_of ts k (plan ! c)" and "k \<noteq> 1"
    and "\<forall>t \<in> set plan. shared ts t" and "output_channels d = int (length plan)"
    and "input_channels d = int (length ts)"
  shows "routed d n samples = named_frames (needs_swap d) (nat (bytewidth d)) ts plan n samples"
proof -
  let ?g = "\<lambda>f t. (if needs_swap d then rev else id)
    (sample (nat (bytewidth d)) samples (f * length ts + nat (position t ts)))"
  have "routed_sample d samples f c = ?g f (plan ! c)" if c: "c < length plan" for f c
  proof -
    have sh: "shared ts (plan ! c)" using assms(3) c by simp
    then have "route d c = position (plan ! c) ts" "plan ! c \<in> set ts"
      using assms(1) [OF c] assms(2) by (auto simp: source_of_def shared_def)
    moreover from this(2) have "position (plan ! c) ts \<noteq> -1" by (simp add: position_def)
    ultimately show ?thesis using assms(5) by (simp add: routed_sample_def)
  qed
  then have "map (routed_sample d samples f) [0..<length plan] = map (?g f) plan" for f
    by (intro nth_equalityI) simp_all
  then show ?thesis using assms(4) by (simp add: routed_def named_frames_def)
qed

text \<open>A format of two or more channels, all named, with names \<open>im\<close> after sanitizing.\<close>

definition mapped_format :: "ao_sample_format \<Rightarrow> string \<Rightarrow> bool" where
  "mapped_format format im \<longleftrightarrow>
     Option.bind (fmt_matrix format) (sanitized (fmt_channels format)) = Some im \<and>
     distinct (tokens im) \<and> fmt_channels format = int (length (tokens im)) \<and>
     2 \<le> fmt_channels format \<and> 1 \<le> fmt_bits format \<and> fmt_bits format \<le> 32"

lemma mapped_names:
  assumes "mapped_format format im"
  shows "set (tokens im) \<subseteq> set mnemonics" "fmt_channels format \<le> 45"
proof -
  from assms obtain s where s: "sanitized (fmt_channels format) s = Some im" "2 \<le> fmt_channels format"
    by (auto simp: mapped_format_def bind_eq_Some_conv)
  have c: "clean_matrix (fmt_channels format) im" "im \<noteq> ''''"
    using sanitized_clean [OF s(1)] s(2) by auto
  then show *: "set (tokens im) \<subseteq> set mnemonics" by (auto simp: clean_matrix_def)
  have "length (tokens im) \<le> card (set mnemonics)"
    using assms card_mono [OF _ *] distinct_card [of "tokens im"] by (simp add: mapped_format_def)
  also have "\<dots> \<le> 45" using card_length [of mnemonics] mnemonics_facts(1) by simp
  finally show "fmt_channels format \<le> 45" using assms by (simp add: mapped_format_def)
qed

lemma mapped_input_matrix:
  assumes "mapped_format format im" and "w_allocs w = []"
  shows "input_matrix format w = (Some im, w\<lparr>w_live := w_live w + 1\<rparr>)"
  using assms sanitize_matrix_plenty [OF assms(2)]
  by (auto simp: mapped_format_def input_matrix_def bind_eq_Some_conv)

section \<open>The WAV driver\<close>

definition wav_matrix :: string where
  "wav_matrix = ''L,R,C,LFE,BL,BR,CL,CR,BC,SL,SR''"

definition wav_names :: "string list" where
  "wav_names = [''L'', ''R'', ''C'', ''LFE'', ''BL'', ''BR'', ''CL'', ''CR'', ''BC'', ''SL'', ''SR'']"

lemma wav_names_facts:
  "tokens wav_matrix = wav_names" "distinct wav_names" "set wav_names \<subseteq> set mnemonics" "length wav_names = 11"
proof -
  have "join wav_names = wav_matrix" by (simp add: wav_names_def wav_matrix_def)
  moreover have "wav_names \<noteq> []" "\<forall>t \<in> set wav_names. CHR '','' \<notin> set t" by (simp_all add: wav_names_def)
  ultimately show "tokens wav_matrix = wav_names" using tokens_join by metis
qed (simp_all add: wav_names_def mnemonics_def)

text \<open>The channels of the file: those of WAV that the input has, in WAV's order.\<close>

definition wav_plan :: "string \<Rightarrow> string list" where
  "wav_plan im = filter (shared (tokens im)) wav_names"

lemma wav_plan_facts:
  assumes "mapped_format format im"
  shows "channel_plan AO_OUTPUT_MATRIX_COLLAPSIBLE wav_names (tokens im) = wav_plan im"
    "\<forall>t \<in> set (wav_plan im). shared (tokens im) t" "length (wav_plan im) \<le> 11"
    "length (wav_plan im) \<le> length (tokens im)"
proof -
  show "length (wav_plan im) \<le> 11"
    using length_filter_le [of "shared (tokens im)" wav_names] wav_names_facts(4) by (simp add: wav_plan_def)
  have "distinct (tokens im)" using assms by (simp add: mapped_format_def)
  then show "length (wav_plan im) \<le> length (tokens im)"
    unfolding wav_plan_def length_shared_commute [OF wav_names_facts(2) \<open>distinct (tokens im)\<close>]
    by simp
qed (simp_all add: channel_plan_def wav_plan_def)

lemma wav_backend_named:
  fixes d :: "'x ao_internal ao_device"
  assumes fmt: "mapped_format format im" "wav_plan im \<noteq> []"
    and d: "output_matrix d = Some wav_matrix" "output_matrix_order d = AO_OUTPUT_MATRIX_COLLAPSIBLE"
      "wav_state d = Some \<lparr>wave = wave_zero\<rparr>" "dev_file d = Some f" "swap_buffer d = None"
      "swap_buffer_size d = 0" "inter_permute d = None"
    and s: "get_stream f w = Some s" "at_end s" "s_data s = []" and w: "w_allocs w = []"
    and h: "wav_fill wave_zero (int (length (wav_plan im))) (mask_of wav_names (tokens im)) format = Some h"
  obtains d' w' s' where "open_backend ao_wav table (format\<lparr>fmt_matrix := Some im\<rparr>) d w = Some (Some (ao_wav, d'), w')"
    "buffer_ok d'" "swap_buffer d' \<noteq> None \<longleftrightarrow> needs_buffer d'"
    "\<forall>c < length (wav_plan im). route d' c = source_of (tokens im) (fmt_channels format) (wav_plan im ! c)"
    "well_routed d'" "output_channels d' = int (length (wav_plan im))" "input_channels d' = fmt_channels format"
    "bytewidth d' = width format" "client_byte_format d' = client_byte_format d" "driver_byte_format d' = AO_FMT_LITTLE"
    "dev_file d' = Some f" "w_allocs w' = []" "get_stream f w' = Some s'" "at_end s'" "s_data s' = wav_header h"
    "wav_state d' = Some \<lparr>wave = h\<rparr>"
proof -
  let ?sf = "format\<lparr>fmt_matrix := Some im\<rparr>" and ?plan = "wav_plan im"
  note im = mapped_names [OF fmt(1)]
  have f: "fmt_channels format = int (length (tokens im))" "distinct (tokens im)" "2 \<le> fmt_channels format"
    "1 \<le> fmt_bits format" "fmt_bits format \<le> 32"
    using fmt(1) by (simp_all add: mapped_format_def)
  have r0: "reconcilable d ?sf wav_matrix im"
    using d f im wav_names_facts by (simp add: reconcilable_def)
  obtain d1 w1 m where r: "reconcile d ?sf w = Some (True, d1, w1)" "calm w w1"
    "d1 = d\<lparr>input_map := Some (slot_map (fmt_channels format) wav_names im), output_channels := int (length ?plan),
       output_mask := mask_of wav_names (tokens im), inter_matrix := Some m\<rparr>"
    "take (length ?plan) (tokens m) = ?plan" "set (tokens m) \<subseteq> set mnemonics"
    using reconcile_plan [OF r0 w] fmt(2) wav_plan_facts(1) [OF fmt(1)]
    unfolding wav_names_facts(1) d(2) wav_plan_def [symmetric] by auto
  let ?e = "d1\<lparr>input_channels := fmt_channels format, bytewidth := width format, dev_rate := fmt_rate format\<rparr>"
  have hk: "housekeeping d1 ?sf = Some ?e"
    using f by (simp add: housekeeping_def width_def c_int_def INT_MAX_def INT_MIN_def)
  have e: "wav_state ?e = Some \<lparr>wave = wave_zero\<rparr>" "dev_file ?e = Some f"
    using d by (simp_all add: r(3) wav_state_def)
  have h': "wav_fill (wave \<lparr>wave = wave_zero\<rparr>) (output_channels ?e) (output_mask ?e) ?sf = Some h"
    using h by (simp add: r(3) wav_fill_def)
  have s1: "get_stream f w1 = Some s" using calm_stream [OF r(2)] s(1) by simp
  from wav_open_writes [OF e(1) h' e(2) s1 s(2,3)] obtain w2 s' where o: "ao_wav_open ?e ?sf w1 = Some (True,
      ?e\<lparr>internal := Some (Wav_internal \<lparr>wave = h\<rparr>), driver_byte_format := AO_FMT_LITTLE\<rparr>, ?sf, w2)"
    "same_but_streams w1 w2" "get_stream f w2 = Some s'" "at_end s'" "s_data s' = wav_header h" .
  let ?g = "?e\<lparr>internal := Some (Wav_internal \<lparr>wave = h\<rparr>), driver_byte_format := AO_FMT_LITTLE\<rparr>"
  have w2: "w_allocs w2 = []" using same_but_streams_sel [OF o(2)] calm_plenty [OF r(2) w] by simp
  have g: "inter_matrix ?g = Some m" "output_channels ?g = int (length ?plan)" "swap_buffer ?g = None"
    "swap_buffer_size ?g = 0" "input_channels ?g = fmt_channels ?sf" "fmt_matrix ?sf = Some im"
    "fmt_channels ?sf = int (length (tokens im))"
    using d f by (simp_all add: r(3))
  obtain d2 v d3 v3 d' w' where b: "build_permutation table ?g ?sf w2 = Some (True, d2, v)"
    "drop_identity d2 v = Some (d3, v3)" "finish_open ao_wav d3 (fmt_matrix ?sf) v3 = Some (Some (ao_wav, d'), w')"
    "calm w2 w'"
    "d' = ?g\<lparr>inter_permute := inter_permute d', swap_buffer := swap_buffer d', swap_buffer_size := swap_buffer_size d',
       driver_byte_format := real_byte_format (driver_byte_format ?g) w2\<rparr>"
    "buffer_ok d'" "swap_buffer d' \<noteq> None \<longleftrightarrow> needs_buffer d'"
    "\<And>c. c < length ?plan \<Longrightarrow> route d' c = source_of (tokens im) (fmt_channels ?sf) (?plan ! c)"
    "inter_permute d' = None \<and> output_channels ?g = input_channels ?g \<or>
     (\<exists>perm. inter_permute d' = Some perm \<and> length perm = length ?plan \<and>
       (\<forall>c \<in> set perm. -1 \<le> c \<and> c < fmt_channels ?sf))"
    using backend_mapped [OF g(6,7,1) r(5) g(2) r(4) g(3,4,5) w2, of table ao_wav] by blast
  have sel: "output_channels d' = int (length ?plan)" "input_channels d' = fmt_channels format"
    "bytewidth d' = width format" "client_byte_format d' = client_byte_format d"
    "driver_byte_format d' = AO_FMT_LITTLE" "dev_file d' = Some f" "internal d' = Some (Wav_internal \<lparr>wave = h\<rparr>)"
    by (subst b(5); simp add: r(3) d real_byte_format_def ao_fmts)+
  have "1 \<le> width format" "width format \<le> 4" using f by (simp_all add: width_def)
  then have "well_routed d'"
    using sel b(9) f im(2) fmt(2) wav_plan_facts(3) [OF fmt(1)]
    by (auto simp: well_routed_def INT_MAX_def r(3))
  moreover have "open_backend ao_wav table ?sf d w = Some (Some (ao_wav, d'), w')"
    using r(1) hk o(1) b(1-3) by (simp add: open_backend_def ao_wav_def)
  moreover have "get_stream f w' = Some s'" using calm_stream [OF b(4)] o(3) by simp
  ultimately show ?thesis
    using that sel b(6,7,8) o(4,5) calm_plenty [OF b(4) w2] by (simp add: wav_state_def)
qed

lemma wav_open_named:
  fixes lib :: "('x ao_internal, 'z world_scheme) ao_lib"
  assumes drv: "get_driver did lib = Some drv" "drv_functions drv = ao_wav" "global_options lib = []"
    and fmt: "mapped_format format im" "wav_plan im \<noteq> []" and w: "creatable name overwrite w"
    and h: "wav_fill wave_zero (int (length (wav_plan im))) (mask_of wav_names (tokens im)) format = Some h"
  obtains d w1 s where "ao_open_file did name overwrite format [] lib w = Some (Some (ao_wav, d), w1)"
    "playing d"
    "\<forall>c < length (wav_plan im). route d c = source_of (tokens im) (fmt_channels format) (wav_plan im ! c)"
    "output_channels d = int (length (wav_plan im))" "input_channels d = fmt_channels format"
    "bytewidth d = width format"
    "needs_swap d \<longleftrightarrow> width format > 1 \<and> client_order format w \<noteq> AO_FMT_LITTLE"
    "dev_file d = Some (new_stream w)" "w_allocs w1 = []" "get_stream (new_stream w) w1 = Some s" "at_end s"
    "s_data s = wav_header h" "wav_state d = Some \<lparr>wave = h\<rparr>"
proof -
  let ?w = "after_fopen name w" and ?f = "new_stream w"
  let ?F = "ao_wav :: ('x ao_internal, 'z world_scheme) ao_functions"
  let ?d0 = "fresh_device did ?F format (Some ?f) (w_big_endian ?w)"
  let ?d1 = "?d0\<lparr>internal := Some (Wav_internal \<lparr>wave = wave_zero\<rparr>), output_matrix := Some wav_matrix,
    output_matrix_order := AO_OUTPUT_MATRIX_COLLAPSIBLE\<rparr>"
  let ?w1 = "set_errno 0 (?w\<lparr>w_live := w_live ?w + 3\<rparr>)" and ?w2 = "set_errno 0 (?w\<lparr>w_live := w_live ?w + 4\<rparr>)"
  let ?s = "\<lparr>s_data = [], s_pos = 0, s_open = True, s_seekable = True, s_limit = None\<rparr>"
  have plenty: "w_allocs ?w = []" using w by (simp add: creatable_def after_fopen_facts)
  have init: "fn_device_init ?F ?d0 (?w\<lparr>w_live := w_live ?w + 1\<rparr>) = Some (True, ?d1, ?w\<lparr>w_live := w_live ?w + 3\<rparr>)"
    using plenty by (simp add: ao_wav_def ao_wav_device_init_def wav_matrix_def)
  have opts: "open_options ?F (info_table lib) [] [] ?d0 (?w\<lparr>w_live := w_live ?w + 1\<rparr>) = Some (True, ?d1, ?w1)"
    using init by (simp add: open_options_def set_errno_def)
  have im: "input_matrix format ?w1 = (Some im, ?w2)"
    using mapped_input_matrix [OF fmt(1), of ?w1] plenty by (simp add: set_errno_def)
  have st: "get_stream ?f ?w2 = Some ?s" "at_end ?s" "s_data ?s = []" "w_allocs ?w2 = []"
    using plenty by (simp_all add: get_stream_def after_fopen_def at_end_def)
  have d1: "output_matrix ?d1 = Some wav_matrix" "output_matrix_order ?d1 = AO_OUTPUT_MATRIX_COLLAPSIBLE"
    "wav_state ?d1 = Some \<lparr>wave = wave_zero\<rparr>" "dev_file ?d1 = Some ?f" "swap_buffer ?d1 = None"
    "swap_buffer_size ?d1 = 0" "inter_permute ?d1 = None"
    by (simp_all add: wav_state_def)
  from wav_backend_named [OF fmt d1 st h, of "info_table lib"] obtain d w' s where b:
    "open_backend ?F (info_table lib) (format\<lparr>fmt_matrix := Some im\<rparr>) ?d1 ?w2 = Some (Some (?F, d), w')"
    "buffer_ok d" "swap_buffer d \<noteq> None \<longleftrightarrow> needs_buffer d"
    "\<forall>c < length (wav_plan im). route d c = source_of (tokens im) (fmt_channels format) (wav_plan im ! c)"
    "well_routed d" "output_channels d = int (length (wav_plan im))" "input_channels d = fmt_channels format"
    "bytewidth d = width format" "client_byte_format d = client_byte_format ?d1" "driver_byte_format d = AO_FMT_LITTLE"
    "dev_file d = Some ?f" "w_allocs w' = []" "get_stream ?f w' = Some s" "at_end s" "s_data s = wav_header h"
    "wav_state d = Some \<lparr>wave = h\<rparr>" .
  have drv3: "info_type (fn_driver_info ?F) = AO_TYPE_FILE" by (simp add: ao_wav_def ao_wav_info_def)
  have o: "open_device did format [] (Some ?f) lib ?w = Some (Some (?F, d), w')"
    using drv drv3 opts im b(1) by (simp add: open_device_def create_device_plenty [OF plenty])
  have "client_byte_format d = client_order format w"
    using fresh_device_order [of did ?F format "Some ?f" ?w] b(9)
    by (simp add: client_order_def real_byte_format_def ao_is_big_endian_correct after_fopen_facts)
  then have "needs_swap d \<longleftrightarrow> width format > 1 \<and> client_order format w \<noteq> AO_FMT_LITTLE"
    using b(8,10) by (simp add: needs_swap_def)
  then show ?thesis
    using that [OF ao_open_file_creatable [OF w o]] b by (simp add: playing_def)
qed

section \<open>The rest of a WAV session\<close>

lemma wav_session_end:
  assumes "playing d" and "\<forall>(n, samples) \<in> set blks. playable d n samples" and "w_allocs w = []"
    and "dev_file d = Some f" and "get_stream f w = Some s" and "at_end s" and "s_data s = wav_header h"
    and "wav_state d = Some \<lparr>wave = h\<rparr>" and "wav_filled h"
  obtains d' w2 w3 where "play_all (Some (ao_wav, d)) blks w = Some (True, Some (ao_wav, d'), w2)"
    "ao_close (Some (ao_wav, d')) w2 = Some (True, w3)"
    "parse_wav (file_bytes f w3) = Some (wav_view_of
       (wav_patch h (of_nat (length (payload d blks) + 60)) (of_nat (length (payload d blks)))) (payload d blks))"
proof -
  from wav.play_all_appends [OF assms(1-6)] obtain d' w2 s' where p:
    "play_all (Some (ao_wav, d)) blks w = Some (True, Some (ao_wav, d'), w2)"
    "get_stream f w2 = Some s'" "at_end s'" "s_data s' = s_data s @ payload d blks"
    "same_route d d'" "w_allocs w2 = []" by blast
  let ?body = "payload d blks"
  let ?h = "wav_patch h (of_nat (length ?body + 60)) (of_nat (length ?body))"
  have st: "wav_state d' = Some \<lparr>wave = h\<rparr>" "dev_file d' = Some f"
    using assms(4,8) same_route_sel(7,8) [OF p(5)] by (simp_all add: wav_state_def)
  have "s_data s' = wav_header (wave \<lparr>wave = h\<rparr>) @ ?body" using p(4) assms(7) by simp
  from ao_wav_close_file [OF st(2) p(2,3) st(1) this] obtain e v t where c:
    "ao_wav_close d' w2 = Some (True, e, v)" "dev_file e = Some f" "same_but_streams w2 v" "get_stream f v = Some t"
    "s_data t = wav_header ?h @ ?body" by auto
  have "fn_close ao_wav d' w2 = Some (True, e, v)" using c(1) by (simp add: ao_wav_def)
  from ao_close_file_clear [OF this static_clear(4) c(2,4)] obtain w3 where
    w3: "ao_close (Some (ao_wav, d')) w2 = Some (True, w3)" "file_bytes f w3 = s_data t" .
  have "wav_filled ?h" using assms(9) by (simp add: wav_filled_def wav_patch_def)
  from parse_wav_header [OF this, of ?body] show ?thesis using that p(1) w3 c(5) by simp
qed

lemma mapped_playable:
  assumes "output_channels d = int (length plan)" "input_channels d = fmt_channels format"
    and "bytewidth d = width format" and "fmt_channels format = int (length ts)"
    and "length plan \<le> length ts" and "fits_format format n samples"
  shows "playable d n samples"
proof -
  let ?b = "nat (width format)" and ?c = "length ts"
  have f: "n * ?c * ?b \<le> length samples" "int ((n + 1) * ?c * ?b) \<le> INT_MAX" "n * ?c * ?b * ?c < 2 ^ 32"
    using assms(4,6) by (auto simp: fits_format_def Let_def)
  have "(n + 1) * length plan * ?b \<le> (n + 1) * ?c * ?b" "n * ?c * ?b * length plan \<le> n * ?c * ?b * ?c"
    using assms(5) by (intro mult_le_mono; simp)+
  then have "int ((n + 1) * length plan * ?b) \<le> INT_MAX" "n * ?c * ?b * length plan < 2 ^ 32"
    using f(2,3) by linarith+
  with f show ?thesis unfolding playable_def frames_fit_def assms(1-4) by simp
qed

section \<open>An input for the session\<close>

text \<open>Three 16-bit channels: centre, one that WAV does not know, left; the names are spaced.\<close>

definition surround_format :: ao_sample_format where
  "surround_format = \<lparr>fmt_bits = 16, fmt_rate = 44100, fmt_channels = 3, fmt_byte_format = AO_FMT_BIG,
     fmt_matrix = Some '' C, A1 ,L''\<rparr>"

lemma surround_facts:
  "mapped_format surround_format ''C,A1,L''" "wav_plan ''C,A1,L'' \<noteq> []"
  "\<forall>(n, samples) \<in> set [(1, [1, 2, 3, 4, 5, 6])]. fits_format surround_format n samples"
  "0 \<le> fmt_rate surround_format" "fmt_rate surround_format < 2 ^ 31"
  "int (length (wav_plan ''C,A1,L'')) = 2" "uint (mask_of wav_names (tokens ''C,A1,L'')) = 5"
  "concat (map (\<lambda>(n, samples). named_frames
      (width surround_format > 1 \<and> client_order surround_format (demo_world []) \<noteq> AO_FMT_LITTLE)
      (nat (width surround_format)) (tokens ''C,A1,L'') (wav_plan ''C,A1,L'') n samples)
    [(1, [1, 2, 3, 4, 5, 6])]) = [6, 5, 2, 1]"
proof -
  have t: "tokens ''C,A1,L'' = [''C'', ''A1'', ''L'']"
    using tokens_join [of "[''C'', ''A1'', ''L'']"] by simp
  have t2: "tokens '' C, A1 ,L'' = ['' C'', '' A1 '', ''L'']"
    using tokens_join [of "['' C'', '' A1 '', ''L'']"] by simp
  show "mapped_format surround_format ''C,A1,L''"
    by (simp add: mapped_format_def surround_format_def sanitized_def t t2 strip_def drop_trailing_def
        skip_space_def isspace_def mnemonics_def)
  have p: "wav_plan ''C,A1,L'' = [''L'', ''C'']"
    by (simp add: wav_plan_def wav_names_def shared_def t)
  show "wav_plan ''C,A1,L'' \<noteq> []" "int (length (wav_plan ''C,A1,L'')) = 2" by (simp_all add: p)
  have "position ''A1'' wav_names = -1" by (simp add: position_def wav_names_def)
  then show "uint (mask_of wav_names (tokens ''C,A1,L'')) = 5"
    by (simp add: t slot_def) (simp add: wav_names_def position_Cons)
  show "concat (map (\<lambda>(n, samples). named_frames
      (width surround_format > 1 \<and> client_order surround_format (demo_world []) \<noteq> AO_FMT_LITTLE)
      (nat (width surround_format)) (tokens ''C,A1,L'') (wav_plan ''C,A1,L'') n samples)
    [(1, [1, 2, 3, 4, 5, 6])]) = [6, 5, 2, 1]"
    by (simp add: p t surround_format_def width_def named_frames_def sample_def position_Cons
        client_order_def real_byte_format_def ao_fmts)
qed (simp_all add: surround_format_def fits_format_def width_def INT_MAX_def)

end
