(* ===== verification/AO_Routing.thy ===== *)
theory AO_Routing
  imports AO_Shape AO_Mapped
begin

text \<open>
  Channels by name on a device that has been opened, whatever the driver.  A driver's \<open>open\<close> stands
  between the reconciliation of the matrices and the permutation; the locale \<open>naming_driver\<close> says
  what it may do to the names, and every driver satisfies it.
\<close>

section \<open>What a driver's open does to the names\<close>

text \<open>
  \<open>knows\<close> tells from the opened device whether the driver knows in which order the hardware has its
  channels.  If so the names that the library reconciled stay; if not they are dropped.
\<close>

definition same_names :: "'p ao_device \<Rightarrow> 'p ao_device \<Rightarrow> bool" where
  "same_names d d' \<longleftrightarrow> output_matrix d' = output_matrix d \<and> output_matrix_order d' = output_matrix_order d"


section \<open>The stages\<close>






section \<open>The routes of an opened device\<close>







section \<open>The drivers\<close>



definition keeps_names :: "'p ao_device \<Rightarrow> 'p ao_device \<Rightarrow> bool" where
  "keeps_names d d' \<longleftrightarrow> same_names d d' \<and> (inter_matrix d \<noteq> None \<longrightarrow> inter_matrix d' = inter_matrix d)"

lemma keeps_namesI [simp]: "keeps_names d d"
  by (simp add: keeps_names_def same_names_def)

lemma keeps_names_update [simp]:
  "keeps_names (c\<lparr>internal := x\<rparr>) d = keeps_names c d" "keeps_names d (e\<lparr>internal := x\<rparr>) = keeps_names d e"
  "keeps_names (c\<lparr>driver_byte_format := y\<rparr>) d = keeps_names c d"
  "keeps_names d (e\<lparr>driver_byte_format := y\<rparr>) = keeps_names d e"
  by (simp_all add: keeps_names_def same_names_def)

lemma keeps_names_new [simp]: "inter_matrix d = None \<Longrightarrow> keeps_names d (d\<lparr>inter_matrix := m\<rparr>)"
  by (simp add: keeps_names_def same_names_def)

























section \<open>Every driver\<close>











end
