(* ===== verification/AO_Protocol.thy ===== *)
theory AO_Protocol
  imports AO_Drivers "HOL-Library.Multiset"
begin

text \<open>
  What a driver does to the process it runs in, seen through the library.  The locale
  \<open>driver_run\<close> takes any relation on the driver's structure and the world that the steps of a
  driver respect and that the library's own work does not touch, and shows that opening, playing
  and closing respect it.  It is used for the protocol of handles: descriptors, streams, servers
  and connections are got and given back, each once.
\<close>

section \<open>The library around a driver\<close>

text \<open>The library changes the heap, the files and \<open>errno\<close>, and nothing else of the process.\<close>

definition same_process :: "'z world_scheme \<Rightarrow> 'z world_scheme \<Rightarrow> bool" where
  "same_process w w' \<longleftrightarrow> world.more w' = world.more w"

lemma same_process_refl [simp, intro]: "same_process w w"
  by (simp add: same_process_def)

lemma same_process_trans: "same_process u v \<Longrightarrow> same_process v w \<Longrightarrow> same_process u w"
  by (simp add: same_process_def)

lemma heap_step_process: "heap_step k w w' \<Longrightarrow> same_process w w'"
proof -
  assume "heap_step k w w'"
  then have "world.more (off_heap w') = world.more (off_heap w)" by (simp add: heap_step_def)
  then show ?thesis by (simp add: same_process_def off_heap_def)
qed

lemma same_process_simps [simp]:
  "same_process w (set_errno e w') \<longleftrightarrow> same_process w w'"
  "same_process (set_errno e w) w' \<longleftrightarrow> same_process w w'"
  "same_process w (free_block w') \<longleftrightarrow> same_process w w'"
  "same_process w (free_opt x w') \<longleftrightarrow> same_process w w'"
  "same_process (free_opt x w) w' \<longleftrightarrow> same_process w w'"
  by (simp_all add: same_process_def set_errno_def free_block_def free_opt_def split: option.splits)

lemma streams_process: "same_but_streams w w' \<Longrightarrow> same_process w w'"
  by (auto simp: same_but_streams_def same_process_def)

lemma create_device_process:
  "create_device did F format fil w = (c, w') \<Longrightarrow>
   same_process w w' \<and> (\<forall>d. c = Some d \<longrightarrow> internal d = None)"
  by (auto simp: create_device_def split: prod.splits if_splits dest!: malloc_ok_heap heap_step_process)

lemma reconcile_process:
  assumes "reconcile d sf w = Some (ok, d', w')"
  shows "same_process w w' \<and> internal d' = internal d"
proof (cases "output_matrix d = None \<or> fmt_matrix sf = None \<or>
    output_matrix_order d = AO_OUTPUT_MATRIX_UNDEFINED")
  case True
  with assms show ?thesis
    by (auto simp: reconcile_def split: option.splits ao_outorder.splits)
next
  case False
  then obtain om im where m: "output_matrix d = Some om" "fmt_matrix sf = Some im" by auto
  from False assms m obtain cmask imap v where
    c: "matrix_to_channelmask (fmt_channels sf) im om w = Some (cmask, imap, v)"
    by (cases "output_matrix_order d") (auto simp: reconcile_def split: Option.bind_splits)
  have v: "same_process w v" using matrix_to_channelmask_heap [OF c] heap_step_process by blast
  show ?thesis
  proof (cases "output_matrix_order d")
    case AO_OUTPUT_MATRIX_FIXED
    with assms c m v show ?thesis
      by (auto simp: reconcile_def split: if_splits prod.splits
          dest!: strdup_heap heap_step_process intro: same_process_trans)
  next
    case AO_OUTPUT_MATRIX_COLLAPSIBLE
    with assms c m v show ?thesis
      by (auto simp: reconcile_def split: if_splits Option.bind_splits
          dest!: channelmask_to_matrix_heap heap_step_process intro: same_process_trans)
  next
    case AO_OUTPUT_MATRIX_PERMUTABLE
    with assms c m v show ?thesis
      by (auto simp: reconcile_def split: if_splits Option.bind_splits
          dest!: matrix_intersect_heap heap_step_process intro: same_process_trans)
  qed (use False in simp)
qed

lemma build_permutation_process:
  assumes "build_permutation table d sf w = Some (ok, d', w')"
  shows "same_process w w' \<and> internal d' = internal d"
proof (cases "fmt_matrix sf")
  case None
  with assms show ?thesis by (auto simp: build_permutation_def)
next
  case (Some im)
  let ?first = "if inter_matrix d = None then do {
                      _ \<leftarrow> names_driver table d;
                      (case strdup ''L,R'' w of (m, w) \<Rightarrow> Some (d\<lparr>inter_matrix := m\<rparr>, w)) }
                    else Some (d, w)"
  from assms Some obtain c v where f: "?first = Some (c, v)"
    by (auto simp: build_permutation_def split: Option.bind_splits if_splits)
  have step: "same_process w v" "internal c = internal d"
    using f by (auto split: if_splits prod.splits Option.bind_splits dest!: strdup_heap heap_step_process)
  obtain b u where m: "(if output_channels c < 0 then (False, v) else malloc_ok v) = (b, u)" by fastforce
  have u: "same_process w u"
    using m step(1) malloc_ok_heap [of v b u] heap_step_process same_process_trans by (fastforce split: if_splits)
  show ?thesis
  proof (cases b)
    case False
    with assms Some f m u step(2) show ?thesis by (auto simp: build_permutation_def)
  next
    case True
    obtain inch t where t: "tokenize_matrix im u = (inch, t)" by (cases "tokenize_matrix im u")
    have "heap_step 0 u (free_map inch t)"
      using t tokenize_None_or(1) [of im u t] tokenize_free_heap [of im u _ t]
      by (cases inch) (auto simp: free_map_def)
    moreover from assms Some f m True t obtain perm where
      "d' = c\<lparr>inter_permute := Some perm\<rparr>" "w' = free_map inch t"
      by (auto simp: build_permutation_def split: Option.bind_splits if_splits)
    ultimately show ?thesis using u step(2) heap_step_process same_process_trans by fastforce
  qed
qed

lemma stages_process:
  "housekeeping d sf = Some e \<Longrightarrow> internal e = internal d"
  "drop_identity d w = Some (e, w') \<Longrightarrow> same_process w w' \<and> internal e = internal d"
  "input_matrix format w = (m, w') \<Longrightarrow> same_process w w'"
  "realloc_swap_buffer d n w = (ok, e, w') \<Longrightarrow> same_process w w' \<and> internal e = internal d"
proof -
  show "housekeeping d sf = Some e \<Longrightarrow> internal e = internal d"
    by (auto simp: housekeeping_def split: Option.bind_splits)
  show "drop_identity d w = Some (e, w') \<Longrightarrow> same_process w w' \<and> internal e = internal d"
    by (auto simp: drop_identity_def split: option.splits if_splits Option.bind_splits)
  show "input_matrix format w = (m, w') \<Longrightarrow> same_process w w'"
    using null.input_matrix_law heap_step_process by blast
  show "realloc_swap_buffer d n w = (ok, e, w') \<Longrightarrow> same_process w w' \<and> internal e = internal d"
    by (auto simp: realloc_swap_buffer_def split: if_splits prod.splits dest!: malloc_ok_heap heap_step_process)
qed

section \<open>A relation that the steps of a driver respect\<close>

definition internal_of :: "('p, 'w) opened \<Rightarrow> 'p option" where
  "internal_of dev = (case dev of None \<Rightarrow> None | Some (F, d) \<Rightarrow> internal d)"

lemma internal_of_simps [simp]: "internal_of None = None" "internal_of (Some (F, d)) = internal d"
  by (simp_all add: internal_of_def)

locale driver_run =
  fixes F :: "('p, 'z world_scheme) ao_functions"
    and ready :: "'p option \<Rightarrow> bool"
    and step :: "'p option \<Rightarrow> 'z world_scheme \<Rightarrow> 'p option \<Rightarrow> 'z world_scheme \<Rightarrow> bool"
  assumes quiet: "same_process w w' \<Longrightarrow> step i w i w'"
    and trans: "step i u j v \<Longrightarrow> step j v l x \<Longrightarrow> step i u l x"
    and init_step: "fn_device_init F d w = Some (r, d', w') \<Longrightarrow> internal d = None \<Longrightarrow> step None w (internal d') w'"
    and option_step: "fn_set_option F d key val w = Some (r, d', w') \<Longrightarrow> step (internal d) w (internal d') w'"
    and init_ready: "fn_device_init F d w = Some (True, d', w') \<Longrightarrow> internal d = None \<Longrightarrow> ready (internal d')"
    and option_ready: "fn_set_option F d key val w = Some (r, d', w') \<Longrightarrow> ready (internal d) \<Longrightarrow> ready (internal d')"
    and open_step: "fn_open F d sf w = Some (r, d', sf', w') \<Longrightarrow> ready (internal d) \<Longrightarrow> step (internal d) w (internal d') w'"
    and play_step: "fn_play F d bs n w = Some (r, d', w') \<Longrightarrow> step (internal d) w (internal d') w'"
    and teardown_step: "fn_close F d w = Some (r, e, v) \<Longrightarrow> fn_device_clear F e v = Some (d', w') \<Longrightarrow>
      step (internal d) w None w'"
begin

lemma refl: "step i w i w"
  by (rule quiet) simp

lemma after: "step i u j v \<Longrightarrow> same_process v w \<Longrightarrow> step i u j w"
  using trans quiet by blast

lemma before: "same_process u v \<Longrightarrow> step i v j w \<Longrightarrow> step i u j w"
  using trans quiet by blast

lemma load_options_step:
  "device_load_options F table d ops w = Some (e, d', w') \<Longrightarrow>
   step (internal d) w (internal d') w' \<and> (ready (internal d) \<longrightarrow> ready (internal d'))"
proof (induction ops arbitrary: d w)
  case Nil
  then show ?case by (simp add: refl)
next
  case (Cons op ops)
  obtain k where k: "opt_key op = Some k" using Cons.prems by (cases "opt_key op") auto
  consider (matrix) "k = ''matrix''" | (flag) "k = ''debug'' \<or> k = ''verbose'' \<or> k = ''quiet''"
    | (other) "k \<noteq> ''matrix''" "k \<noteq> ''debug''" "k \<noteq> ''verbose''" "k \<noteq> ''quiet''" by metis
  then show ?case
  proof cases
    case matrix
    obtain m v where m: "sanitize_matrix 32 (opt_value op) (free_opt (output_matrix d) w) = (m, v)"
      by (cases "sanitize_matrix 32 (opt_value op) (free_opt (output_matrix d) w)")
    have v: "same_process w v" using heap_step_process [OF sanitize_matrix_heap [OF m]] by simp
    show ?thesis
    proof (cases m)
      case None
      with Cons.prems m k matrix quiet [OF v] show ?thesis by auto
    next
      case (Some s)
      with Cons.prems m k matrix have "device_load_options F table (d\<lparr>output_matrix := m\<rparr>) ops v = Some (e, d', w')"
        by simp
      from Cons.IH [OF this] before [OF v] show ?thesis by simp
    qed
  next
    case flag
    with Cons.prems k obtain c where "device_load_options F table c ops w = Some (e, d', w')" "internal c = internal d"
      by (auto split: if_splits)
    from Cons.IH [OF this(1)] this(2) show ?thesis by simp
  next
    case other
    with Cons.prems k obtain ok c v where s: "fn_set_option F d k (opt_value op) w = Some (ok, c, v)"
      by (cases "fn_set_option F d k (opt_value op) w") auto
    note st = option_step [OF s] and rd = option_ready [OF s]
    show ?thesis
    proof (cases ok)
      case True
      with Cons.prems k other s have "device_load_options F table c ops v = Some (e, d', w')" by simp
      from Cons.IH [OF this] trans [OF st] rd show ?thesis by blast
    next
      case False
      with Cons.prems k other s st rd show ?thesis by (auto split: Option.bind_splits)
    qed
  qed
qed

lemma open_options_step:
  assumes "open_options F table globals opts d w = Some (ok, d', w')" and "internal d = None"
  shows "step None w (internal d') w' \<and> (ok \<longrightarrow> ready (internal d'))"
proof -
  from assms(1) obtain r c v where i: "fn_device_init F d w = Some (r, c, v)"
    by (auto simp: open_options_def split: Option.bind_splits)
  note s1 = init_step [OF i assms(2)]
  show ?thesis
  proof (cases r)
    case False
    with assms(1) i after [OF s1] show ?thesis by (auto simp: open_options_def)
  next
    case True
    with assms(1) i obtain e c2 v2 where g: "device_load_options F table c globals v = Some (e, c2, v2)"
      by (auto simp: open_options_def split: Option.bind_splits)
    note l1 = load_options_step [OF g]
    have "ready (internal c)" using init_ready [OF _ assms(2)] i True by simp
    then have s2: "step None w (internal c2) v2" "ready (internal c2)" using trans [OF s1] l1 by blast+
    show ?thesis
    proof (cases "e = 0")
      case False
      with assms(1) i True g after [OF s2(1)] show ?thesis by (auto simp: open_options_def)
    next
      case e: True
      with assms(1) i True g obtain e' v3 where
        o: "device_load_options F table c2 opts (set_errno 0 v2) = Some (e', d', v3)" "w' = set_errno e' v3"
        by (auto simp: open_options_def split: Option.bind_splits)
      have "step None w (internal c2) (set_errno 0 v2)" using after [OF s2(1)] by simp
      from trans [OF this] load_options_step [OF o(1)] s2(2) have
        "step None w (internal d') v3" "ready (internal d')" by blast+
      with after [of None w "internal d'" v3] o(2) show ?thesis by simp
    qed
  qed
qed

lemma ao_close_step:
  assumes "ao_close (Some (F, d)) w = Some (r, w')"
  shows "step (internal d) w None w'"
proof -
  from assms obtain d1 w1 d2 w2 w3 where c: "fn_close F d w = Some (r, d1, w1)"
    "fn_device_clear F d1 w1 = Some (d2, w2)"
    "(case dev_file d2 of None \<Rightarrow> Some w2 | Some f \<Rightarrow> fclose f w2) = Some w3" "w' = free_device d2 w3"
    by (auto simp: ao_close_def split: Option.bind_splits)
  have "same_process w2 w3" using c(3) by (auto split: option.splits dest: fclose_same streams_process)
  then have "same_process w2 w'" by (simp add: c(4) free_device_def)
  from after [OF teardown_step [OF c(1,2)] this] show ?thesis .
qed

lemma open_error_step:
  assumes "open_error (Some (F, d)) im w = Some (dev, w')"
  shows "dev = None \<and> step (internal d) w None w'"
proof -
  from assms obtain r v where c: "ao_close (Some (F, d)) (free_opt im w) = Some (r, v)"
    "dev = None" "w' = set_errno (w_errno w) v"
    by (auto simp: open_error_def split: Option.bind_splits)
  have "step (internal d) w None v" using before [OF _ ao_close_step [OF c(1)], of w] by simp
  from after [OF this] c(2,3) show ?thesis by simp
qed

lemma finish_open_step:
  assumes "finish_open F d im w = Some (dev, w')"
  shows "step (internal d) w (internal_of dev) w'"
proof -
  let ?d = "d\<lparr>driver_byte_format := real_byte_format (driver_byte_format d) w\<rparr>"
  show ?thesis
  proof (cases "needs_swap ?d \<or> input_channels ?d \<noteq> output_channels ?d \<or> inter_permute ?d \<noteq> None")
    case False
    then have "dev = Some (F, ?d)" "w' = free_opt im w"
      using assms by (auto simp: finish_open_def simp del: not_None_eq)
    with quiet [of w w' "internal d"] show ?thesis by simp
  next
    case True
    obtain ok e v where r: "realloc_swap_buffer ?d DEF_SWAP_BUF_SIZE w = (ok, e, v)"
      by (cases "realloc_swap_buffer ?d DEF_SWAP_BUF_SIZE w")
    have e: "same_process w v" "internal e = internal d" using stages_process(4) [OF r] by simp_all
    show ?thesis
    proof (cases ok)
      case ok: True
      then have "dev = Some (F, e)" "w' = free_opt im v"
        using assms True r by (auto simp: finish_open_def simp del: not_None_eq)
      with quiet [of w w' "internal d"] e show ?thesis by simp
    next
      case False
      from assms True r False obtain x d1 w1 d2 w2 where
        c: "fn_close F e (free_opt im v) = Some (x, d1, w1)" "fn_device_clear F d1 w1 = Some (d2, w2)"
          "dev = None" "w' = set_errno AO_EFAIL (free_block w2)"
        by (auto simp: finish_open_def simp del: not_None_eq split: Option.bind_splits)
      have "step (internal d) w None w2"
        using before [OF _ teardown_step [OF c(1,2)], of w] e by simp
      from after [OF this] c(3,4) show ?thesis by simp
    qed
  qed
qed

lemma open_backend_step:
  assumes "open_backend F table sf d w = Some (dev, w')" and "ready (internal d)"
  shows "step (internal d) w (internal_of dev) w'"
proof -
  from assms(1) obtain ok d1 w1 where r: "reconcile d sf w = Some (ok, d1, w1)"
    by (auto simp: open_backend_def split: Option.bind_splits)
  have s1: "step (internal d) w (internal d1) w1" using reconcile_process [OF r] quiet by simp
  show ?thesis
  proof (cases ok)
    case False
    with assms(1) r have "open_error (Some (F, d1)) (fmt_matrix sf) w1 = Some (dev, w')"
      by (simp add: open_backend_def)
    from open_error_step [OF this] trans [OF s1] show ?thesis by auto
  next
    case True
    with assms(1) r obtain d2 ok' d3 sf' w3 where
      h: "housekeeping d1 sf = Some d2" and o: "fn_open F d2 sf w1 = Some (ok', d3, sf', w3)"
      by (auto simp: open_backend_def split: Option.bind_splits)
    have s3: "step (internal d) w (internal d3) w3"
      using trans [OF s1] open_step [OF o] stages_process(1) [OF h] reconcile_process [OF r] assms(2) by simp
    show ?thesis
    proof (cases ok')
      case False
      with assms(1) r True h o have
        "open_error (Some (F, d3)) (fmt_matrix sf') (set_errno AO_EOPENDEVICE w3) = Some (dev, w')"
        by (simp add: open_backend_def)
      from open_error_step [OF this] trans [OF after [OF s3, of "set_errno AO_EOPENDEVICE w3"]] show ?thesis by auto
    next
      case ok': True
      with assms(1) r True h o obtain ok2 d4 w4 where
        p: "build_permutation table d3 sf' w3 = Some (ok2, d4, w4)"
        by (auto simp: open_backend_def split: Option.bind_splits)
      have s4: "step (internal d) w (internal d4) w4"
        using after [OF s3] build_permutation_process [OF p] by simp
      show ?thesis
      proof (cases ok2)
        case False
        with assms(1) r True h o ok' p have
          "open_error (Some (F, d4)) (fmt_matrix sf') w4 = Some (dev, w')"
          by (simp add: open_backend_def)
        from open_error_step [OF this] trans [OF s4] show ?thesis by auto
      next
        case ok2: True
        with assms(1) r True h o ok' p obtain d5 w5 where
          i: "drop_identity d4 w4 = Some (d5, w5)" and f: "finish_open F d5 (fmt_matrix sf') w5 = Some (dev, w')"
          by (auto simp: open_backend_def split: Option.bind_splits)
        have "step (internal d) w (internal d5) w5" using after [OF s4] stages_process(2) [OF i] by simp
        from trans [OF this finish_open_step [OF f]] show ?thesis .
      qed
    qed
  qed
qed

lemma open_device_step:
  assumes "open_device did format opts fil lib w = Some (dev, w')"
    and "get_driver did lib = Some drv" and "drv_functions drv = F"
  shows "step None w (internal_of dev) w'"
proof -
  have none: "step None w (internal_of x) v'"
    if "open_error None None (set_errno e v) = Some (x, v')" "same_process w v" for e v x v'
    using that quiet [of w v' None] by (auto simp: open_error_def ao_close_def)
  show ?thesis
  proof (cases "(fil = None \<and> info_type (fn_driver_info F) \<noteq> AO_TYPE_LIVE) \<or>
      (fil \<noteq> None \<and> info_type (fn_driver_info F) \<noteq> AO_TYPE_FILE)")
    case True
    with assms none [of _ w] show ?thesis by (auto simp: open_device_def split: if_splits)
  next
    case False
    obtain c v where c: "create_device did F format fil w = (c, v)"
      by (cases "create_device did F format fil w")
    note cp = create_device_process [OF c]
    have test: "(fil = None \<and> info_type (fn_driver_info F) \<noteq> AO_TYPE_LIVE) = False"
      "(fil \<noteq> None \<and> info_type (fn_driver_info F) \<noteq> AO_TYPE_FILE) = False"
      using False by auto
    show ?thesis
    proof (cases c)
      case None
      then have "open_error None None (set_errno AO_EFAIL v) = Some (dev, w')"
        using assms c by (simp add: open_device_def test del: not_None_eq)
      from none [OF this] cp show ?thesis by simp
    next
      case (Some d)
      have rest: "Option.bind (open_options F (info_table lib) (global_options lib) opts d v)
          (\<lambda>(ok, d, w). if \<not> ok then open_error (Some (F, d)) None w
             else (case input_matrix format w of (im, w) \<Rightarrow>
                   open_backend F (info_table lib) (format\<lparr>fmt_matrix := im\<rparr>) d w)) = Some (dev, w')"
        using assms c Some by (simp add: open_device_def test del: not_None_eq)
      then obtain ok d1 w1 where o: "open_options F (info_table lib) (global_options lib) opts d v = Some (ok, d1, w1)"
        by (auto split: Option.bind_splits)
      have s1: "step None w (internal d1) w1" and rd: "ok \<longrightarrow> ready (internal d1)"
        using before [of w v None "internal d1" w1] open_options_step [OF o] cp Some by auto
      show ?thesis
      proof (cases ok)
        case False
        with rest o have "open_error (Some (F, d1)) None w1 = Some (dev, w')" by simp
        from open_error_step [OF this] trans [OF s1] show ?thesis by auto
      next
        case True
        obtain im w2 where i: "input_matrix format w1 = (im, w2)" by (cases "input_matrix format w1")
        from rest o True i have
          b: "open_backend F (info_table lib) (format\<lparr>fmt_matrix := im\<rparr>) d1 w2 = Some (dev, w')" by simp
        from trans [OF after [OF s1 stages_process(3) [OF i]] open_backend_step [OF b]] rd True show ?thesis by blast
      qed
    qed
  qed
qed

lemma ao_play_step:
  assumes "ao_play (Some (F, d)) samples n w = Some (r, dev, w')"
  shows "\<exists>d'. dev = Some (F, d') \<and> step (internal d) w (internal d') w'"
proof (cases "swap_buffer d = None")
  case True
  with assms play_step show ?thesis by (fastforce simp: ao_play_def split: Option.bind_splits)
next
  case False
  define out where "out = int_of_u32 (n * word_of_int (output_channels d) div word_of_int (input_channels d))"
  have ic: "input_channels d \<noteq> 0" using assms False by (auto simp: ao_play_def split: if_splits)
  note play = ao_play_swap [OF False ic, of F samples n w, folded out_def]
  obtain ok e v where r: "realloc_swap_buffer d out w = (ok, e, v)"
    by (cases "realloc_swap_buffer d out w")
  have e: "step (internal d) w (internal e) v" using stages_process(4) [OF r] quiet by simp
  show ?thesis
  proof (cases ok)
    case False
    with assms play r e show ?thesis by auto
  next
    case True
    with assms play r obtain buf' d' where
      p: "fn_play F (e\<lparr>swap_buffer := Some buf'\<rparr>) buf' (word_of_int out) v = Some (r, d', w')" "dev = Some (F, d')"
      by (auto split: Option.bind_splits)
    from trans [OF e] play_step [OF p(1)] p(2) show ?thesis by simp
  qed
qed

lemma play_all_step:
  "play_all (Some (F, d)) blks w = Some (r, dev, w') \<Longrightarrow>
   \<exists>d'. dev = Some (F, d') \<and> step (internal d) w (internal d') w'"
proof (induction blks arbitrary: d w)
  case Nil
  then show ?case by (auto simp: refl)
next
  case (Cons b blks)
  obtain n samples where b: "b = (n, samples)" by (cases b)
  from Cons.prems b obtain ok e v where p:
    "ao_play (Some (F, d)) samples (of_nat (in_bytes d n)) w = Some (ok, e, v)"
    by (auto split: Option.bind_splits)
  obtain d1 where d1: "e = Some (F, d1)" "step (internal d) w (internal d1) v" using ao_play_step [OF p] by blast
  show ?case
  proof (cases ok)
    case False
    with Cons.prems b p d1 show ?thesis by auto
  next
    case True
    with Cons.prems b p d1 have "play_all (Some (F, d1)) blks v = Some (r, dev, w')" by auto
    from Cons.IH [OF this] trans [OF d1(2)] show ?thesis by blast
  qed
qed

end


section \<open>The protocol of handles\<close>

text \<open>What a call can hand out, and what another takes back.\<close>

datatype handle =
    Fd int
  | Sio_handle int
  | Arts_stream int
  | Au_server int
  | Al_config int
  | Al_port int
  | Pa_stream int
  | Roar_con int
  | Roar_vs int

definition opened_by :: "call \<Rightarrow> reply \<Rightarrow> handle option" where
  "opened_by c r = (case c of
      Open _ _ \<Rightarrow> if rp_ret r \<ge> 0 then Some (Fd (rp_ret r)) else None
    | Sio_open _ \<Rightarrow> if rp_ret r \<noteq> 0 then Some (Sio_handle (rp_ret r)) else None
    | Arts (Arts_play_stream _ _ _ _) \<Rightarrow> if rp_ret r \<noteq> 0 then Some (Arts_stream (rp_ret r)) else None
    | Nas (Au_open_server _) \<Rightarrow> if rp_ret r \<noteq> 0 then Some (Au_server (rp_ret r)) else None
    | Irix Al_new_config \<Rightarrow> if rp_ret r \<noteq> 0 then Some (Al_config (rp_ret r)) else None
    | Irix (Al_open_port _ _) \<Rightarrow> if rp_ret r \<noteq> 0 then Some (Al_port (rp_ret r)) else None
    | Pulse (Pa_simple_new _) \<Rightarrow> if rp_ret r \<noteq> 0 then Some (Pa_stream (rp_ret r)) else None
    | Roar (Roar_simple_connect2 _ _) \<Rightarrow> if rp_ret r \<noteq> -1 then Some (Roar_con (rp_out r)) else None
    | Roar (Roar_simple_connect _ _) \<Rightarrow> if rp_ret r \<noteq> -1 then Some (Roar_con (rp_out r)) else None
    | Roar (Roar_vs_new_from_con _) \<Rightarrow> if rp_ret r \<noteq> 0 then Some (Roar_vs (rp_ret r)) else None
    | _ \<Rightarrow> None)"

fun closed_by :: "call \<Rightarrow> handle option" where
  "closed_by (Close fd) = Some (Fd fd)"
| "closed_by (Sio_close h) = Some (Sio_handle h)"
| "closed_by (Arts (Arts_close_stream s)) = Some (Arts_stream s)"
| "closed_by (Nas (Au_close_server a)) = Some (Au_server a)"
| "closed_by (Irix (Al_free_config c)) = Some (Al_config c)"
| "closed_by (Irix (Al_close_port p)) = Some (Al_port p)"
| "closed_by (Pulse (Pa_simple_free s)) = Some (Pa_stream s)"
| "closed_by (Roar (Roar_disconnect c)) = Some (Roar_con c)"
| "closed_by (Roar (Roar_vs_close v)) = Some (Roar_vs v)"
| "closed_by _ = None"

text \<open>
  One call and its answer, from the handles open before to those open after.  Closing needs an
  open handle: closing twice, or what was never got, is no step.
\<close>

inductive handle_step :: "handle multiset \<Rightarrow> call \<times> reply \<Rightarrow> handle multiset \<Rightarrow> bool" where
  opens: "closed_by c = None \<Longrightarrow> opened_by c r = Some h \<Longrightarrow> handle_step H (c, r) (add_mset h H)"
| closes: "closed_by c = Some h \<Longrightarrow> handle_step (add_mset h H) (c, r) H"
| other: "closed_by c = None \<Longrightarrow> opened_by c r = None \<Longrightarrow> handle_step H (c, r) H"

inductive handle_run :: "handle multiset \<Rightarrow> (call \<times> reply) list \<Rightarrow> handle multiset \<Rightarrow> bool" where
  nil: "handle_run H [] H"
| cons: "handle_step H e H' \<Longrightarrow> handle_run H' es H'' \<Longrightarrow> handle_run H (e # es) H''"

inductive_simps handle_run_simps [simp]: "handle_run H [] H'" "handle_run H (e # es) H'"

lemma handle_run_append: "handle_run H es H' \<Longrightarrow> handle_run H' es' H'' \<Longrightarrow> handle_run H (es @ es') H''"
  by (induction rule: handle_run.induct) (auto intro: handle_run.cons)

text \<open>The calls of a stretch with their answers.\<close>

fun events :: "(call list \<Rightarrow> call \<Rightarrow> reply) \<Rightarrow> call list \<Rightarrow> call list \<Rightarrow> (call \<times> reply) list" where
  "events ans past [] = []"
| "events ans past (c # cs) = (c, ans past c) # events ans (past @ [c]) cs"

lemma events_append: "events ans past (cs @ cs') = events ans past cs @ events ans (past @ cs) cs'"
  by (induction cs arbitrary: past) auto

text \<open>From one world to another the protocol was kept, and took \<open>H\<close> to \<open>H'\<close>.\<close>

definition traced :: "'z posix_scheme \<Rightarrow> handle multiset \<Rightarrow> 'z posix_scheme \<Rightarrow> handle multiset \<Rightarrow> bool" where
  "traced w H w' H' \<longleftrightarrow> p_answer w' = p_answer w \<and>
     (\<exists>cs. p_calls w' = p_calls w @ cs \<and> handle_run H (events (p_answer w) (p_calls w) cs) H')"

lemma traced_trans:
  assumes "traced u H v H'" and "traced v H' w H''"
  shows "traced u H w H''"
proof -
  from assms obtain cs cs' where
    "p_calls v = p_calls u @ cs" "handle_run H (events (p_answer u) (p_calls u) cs) H'"
    "p_calls w = p_calls v @ cs'" "handle_run H' (events (p_answer v) (p_calls v) cs') H''"
    "p_answer v = p_answer u" "p_answer w = p_answer v" by (auto simp: traced_def)
  then show ?thesis
    unfolding traced_def by (intro conjI exI [of _ "cs @ cs'"]) (auto simp: events_append intro: handle_run_append)
qed

lemma traced_same: "p_answer v = p_answer w \<Longrightarrow> p_calls v = p_calls w \<Longrightarrow> traced w H v H"
  unfolding traced_def by (intro conjI exI [of _ "[]"]) simp_all

lemma traced_refl [simp]: "traced w H w H"
  by (rule traced_same) simp_all

lemma traced_process:
  fixes w v :: "'z posix_scheme"
  shows "same_process w v \<Longrightarrow> traced w H v H"
  by (rule traced_same) (cases w; cases v; simp add: same_process_def)+

lemma traced_ask:
  assumes "ask c w = (r, v)" and "handle_step H (c, r) H'"
  shows "traced w H v H'"
proof -
  have "r = p_answer w (p_calls w) c" "p_calls v = p_calls w @ [c]" "p_answer v = p_answer w"
    using assms(1) by (auto simp: ask_def Let_def)
  with assms(2) show ?thesis
    unfolding traced_def by (intro conjI exI [of _ "[c]"]) auto
qed

text \<open>Calls that have nothing to do with handles.\<close>

definition neutral :: "call \<Rightarrow> bool" where
  "neutral c \<longleftrightarrow> closed_by c = None \<and> (\<forall>r. opened_by c r = None)"

lemma traced_neutral: "ask c w = (r, v) \<Longrightarrow> neutral c \<Longrightarrow> traced w H v H"
  by (erule traced_ask) (simp add: neutral_def handle_step.other)

lemma traced_neutral_ret: "ask_ret c w = (r, v) \<Longrightarrow> neutral c \<Longrightarrow> traced w H v H"
  by (auto simp: ask_ret_def traced_neutral split: prod.splits)

lemma traced_close: "closed_by c = Some h \<Longrightarrow> traced w (add_mset h H) (snd (ask_ret c w)) H"
  by (rule traced_ask [of c w "fst (ask c w)"]) (auto simp: ask_ret_def split_beta intro: handle_step.closes)

lemma traced_open:
  assumes "ask c w = (r, v)" and "closed_by c = None"
  shows "traced w H v (case opened_by c r of None \<Rightarrow> H | Some h \<Rightarrow> add_mset h H)"
  using assms
  by (auto intro!: traced_ask [OF assms(1)] handle_step.opens handle_step.other split: option.splits)

end
