(* ===== verification/AO_Handles.thy ===== *)
theory AO_Handles
  imports AO_Protocol
begin

text \<open>
  The protocol of handles for the drivers that keep it: sndio, PulseAudio and RoarAudio.
  Each has the locale \<open>driver_run\<close> interpreted with what its structure holds, so that opening and
  closing through the library gives back every handle once.  For aRts this holds of the streams
  only: its connection is shared by the devices and counted, and the counting is wrong
  (\<open>AO_Servers\<close>).
\<close>

section \<open>What the drivers hold\<close>

text \<open>The handles that the structure of a driver keeps for closing.\<close>

fun plugin_handles :: "plugin_internal \<Rightarrow> handle multiset" where
  "plugin_handles (Sndio_internal i) = (if sndio_hdl i = 0 then {#} else {#Sio_handle (sndio_hdl i)#})"
| "plugin_handles (Arts_internal i) = (if arts_stream i = 0 then {#} else {#Arts_stream (arts_stream i)#})"
| "plugin_handles (Pulse_internal i) = (if pulse_simple i = 0 then {#} else {#Pa_stream (pulse_simple i)#})"
| "plugin_handles (Roar_internal i) =
     (if roar_vss i = 0 then {#} else {#Roar_vs (roar_vss i)#}) +
     (if roar_con_opened i then {#Roar_con (roar_con i)#} else {#})"
| "plugin_handles _ = {#}"

definition held_handles :: "plugin_internal ao_internal option \<Rightarrow> handle multiset" where
  "held_handles x = (case x of Some (Plugin_internal p) \<Rightarrow> plugin_handles p | _ \<Rightarrow> {#})"

lemma held_handles_simps [simp]:
  "held_handles None = {#}" "held_handles (Some (Plugin_internal p)) = plugin_handles p"
  by (simp_all add: held_handles_def)

text \<open>What is open beside stays open; what the structure holds after is what it held, less what was closed.\<close>

definition keeps ::
  "plugin_internal ao_internal option \<Rightarrow> 'z posix_scheme \<Rightarrow> plugin_internal ao_internal option \<Rightarrow> 'z posix_scheme \<Rightarrow> bool"
where
  "keeps i w j v \<longleftrightarrow> (\<forall>H. traced w (held_handles i + H) v (held_handles j + H))"

lemma keeps_process: "same_process w v \<Longrightarrow> held_handles j = held_handles i \<Longrightarrow> keeps i w j v"
  by (simp add: keeps_def traced_process)

lemma keeps_trans: "keeps i u j v \<Longrightarrow> keeps j v k w \<Longrightarrow> keeps i u k w"
  unfolding keeps_def using traced_trans by blast

lemma keeps_neutral: "ask_ret c w = (r, v) \<Longrightarrow> neutral c \<Longrightarrow> held_handles j = held_handles i \<Longrightarrow> keeps i w j v"
  unfolding keeps_def using traced_neutral_ret by auto

lemma keeps_calls:
  "p_answer v = p_answer w \<Longrightarrow> p_calls v = p_calls w \<Longrightarrow> held_handles j = held_handles i \<Longrightarrow> keeps i w j v"
  unfolding keeps_def using traced_same by auto

lemma keeps_close:
  "closed_by c = Some h \<Longrightarrow> held_handles i = add_mset h (held_handles j) \<Longrightarrow> keeps i w j (snd (ask_ret c w))"
  unfolding keeps_def using traced_close by auto

lemma keeps_open:
  assumes "ask c w = (r, v)" and "closed_by c = None"
    and "held_handles j = (case opened_by c r of None \<Rightarrow> held_handles i | Some h \<Rightarrow> add_mset h (held_handles i))"
  shows "keeps i w j v"
  unfolding keeps_def using traced_open [OF assms(1,2)] assms(3) by (auto split: option.splits)

lemma keeps_open_ret:
  assumes "ask_ret c w = (r, v)" and "closed_by c = None"
    and "\<And>a. rp_ret a = r \<Longrightarrow>
      held_handles j = (case opened_by c a of None \<Rightarrow> held_handles i | Some h \<Rightarrow> add_mset h (held_handles i))"
  shows "keeps i w j v"
proof -
  obtain a where a: "ask c w = (a, v)" "rp_ret a = r" using assms(1) by (auto simp: ask_ret_def split: prod.splits)
  show ?thesis by (rule keeps_open [OF a(1) assms(2)]) (use assms(3) a(2) in blast)
qed

lemma strdup_process: "strdup s w = (r, v) \<Longrightarrow> same_process w v"
  using strdup_heap heap_step_process by blast

lemma malloc_process: "malloc_ok w = (r, v) \<Longrightarrow> same_process w v"
  using malloc_ok_heap heap_step_process by blast

lemma stereo_process: "stereo_matrix d w = (d', v) \<Longrightarrow> same_process w v \<and> internal d' = internal d"
  by (auto simp: stereo_matrix_def split: if_splits prod.splits dest: strdup_process)


lemma neutral_calls [simp]:
  "neutral (Sio_setpar h b r n)" "neutral (Sio_start h)" "neutral (Sio_write h bs)" "neutral (Sio_stop h)"
  "neutral (Usleep n)" "neutral (Nanosleep s n)"
  "neutral (Arts Arts_init)" "neutral (Arts Arts_free)" "neutral (Arts (Arts_stream_set s x y))"
  "neutral (Arts (Arts_stream_get s x))" "neutral (Arts (Arts_write s bs))"
  "neutral (Pulse (Pa_xmalloc k))" "neutral (Pulse (Pa_get_binary_name k))" "neutral (Pulse (Pa_simple_get_latency s))"
  "neutral (Pulse (Pa_simple_write s bs))" "neutral (Pulse (Pa_simple_drain s))"
  "neutral (Roar Roar_get_workarounds)" "neutral (Roar (Roar_set_workarounds x))" "neutral (Roar (Roar_str2role x0))"
  "neutral (Roar (Roar_list_filtered x))" "neutral (Roar (Roar_stream_new_by_id x))"
  "neutral (Roar (Roar_stream_get_name x y))" "neutral (Roar (Roar_vs_set_mixer x y))"
  "neutral (Roar (Roar_vs_stream x y z u v))" "neutral (Roar (Roar_vs_role x y))" "neutral (Roar (Roar_vs_write x bs))"
  by (simp_all add: neutral_def opened_by_def)

text \<open>The steps of a chain, from the first world.\<close>

lemma keeps_then_neutral:
  "keeps i w j u \<Longrightarrow> ask_ret c u = (r, v) \<Longrightarrow> neutral c \<Longrightarrow> keeps i w j v"
  using keeps_trans keeps_neutral by blast

lemma keeps_then_process:
  "keeps i w j u \<Longrightarrow> same_process u v \<Longrightarrow> held_handles k = held_handles j \<Longrightarrow> keeps i w k v"
  using keeps_trans keeps_process by blast

text \<open>A handle is closed where there is one.\<close>

lemma keeps_close_if:
  assumes "closed_by c = Some h" and "held_handles i = (if p then {#h#} else {#}) + held_handles j"
  shows "keeps i w j (if p then snd (ask_ret c w) else w)"
  using assms keeps_close [OF assms(1), of i j w] by (simp add: keeps_process)

section \<open>sndio\<close>

lemma sndio_init_handles:
  "ao_sndio_device_init d w = Some (r, d', w') \<Longrightarrow> internal d = None \<Longrightarrow>
   same_process w w' \<and> held_handles (internal d') = {#}"
  by (auto simp: ao_sndio_device_init_def dest: malloc_process split: prod.splits if_splits)

lemma sndio_option_handles:
  "ao_sndio_set_option d key val w = Some (r, d', w') \<Longrightarrow>
   same_process w w' \<and> held_handles (internal d') = held_handles (internal d)"
  by (auto simp: ao_sndio_set_option_def plugin_state_iff split: if_splits Option.bind_splits option.splits prod.splits
      dest!: strdup_process)

lemma sndio_open_handles:
  assumes o: "ao_sndio_open d sf w = Some (r, d', sf', w')" and e: "held_handles (internal d) = {#}"
  shows "keeps (internal d) w (internal d') w'"
proof -
  from o obtain k where k: "sndio_state d = Some k"
    by (auto simp: ao_sndio_open_def split: Option.bind_splits)
  obtain k1 v1 where n: "sndio_name k w = (k1, v1)" by fastforce
  obtain hdl v2 where h: "ask_ret (Sio_open (sndio_dev k1)) v1 = (hdl, v2)" by fastforce
  let ?i = "Some (Plugin_internal (Sndio_internal (k1\<lparr>sndio_hdl := hdl\<rparr>)))"
  have "same_process w v1" using n by (auto simp: sndio_name_def split: if_splits prod.splits dest: strdup_process)
  then have "keeps (internal d) w (internal d) v1" by (simp add: keeps_process)
  moreover have "keeps (internal d) v1 ?i v2"
    by (rule keeps_open_ret [OF h]) (use e in \<open>auto simp: opened_by_def\<close>)
  ultimately have 2: "keeps (internal d) w ?i v2" using keeps_trans by blast
  obtain r3 v3 where s: "ask_ret (Sio_setpar hdl (fmt_bits sf) (fmt_rate sf) (output_channels d)) v2 = (r3, v3)" by fastforce
  note 3 = keeps_then_neutral [OF 2 s, simplified]
  obtain r4 v4 where t: "ask_ret (Sio_start hdl) v3 = (r4, v4)" by fastforce
  note 4 = keeps_then_neutral [OF 3 t, simplified]
  obtain d5 v5 where m: "stereo_matrix (set_sndio (k1\<lparr>sndio_hdl := hdl\<rparr>) d\<lparr>driver_byte_format := AO_FMT_NATIVE\<rparr>) v4 = (d5, v5)"
    by fastforce
  have 5: "keeps (internal d) w (internal d5) v5"
    by (rule keeps_then_process [OF 4]) (use stereo_process [OF m] in simp_all)
  show ?thesis
    using o k n h s t m 2 3 4 5 by (auto simp: ao_sndio_open_def split: if_splits)
qed

lemma sndio_teardown_handles:
  assumes "ao_sndio_close d w = Some (r, e, v)" and "ao_sndio_device_clear e v = Some (d', w')"
  shows "keeps (internal d) w None w'"
proof -
  from assms obtain k where k: "internal d = Some (Plugin_internal (Sndio_internal k))" "sndio_state d = Some k" "e = d"
    by (auto simp: ao_sndio_close_def plugin_state_iff split: Option.bind_splits if_splits prod.splits)
  have 1: "keeps (internal d) w (internal d) v"
    using assms(1) k by (auto simp: ao_sndio_close_def intro: keeps_process keeps_neutral split: if_splits prod.splits)
  define u where "u = (if sndio_hdl k \<noteq> 0 then snd (ask_ret (Sio_close (sndio_hdl k)) v) else v)"
  have "keeps (internal d) v None u"
    unfolding u_def by (rule keeps_close_if [where h = "Sio_handle (sndio_hdl k)"]) (simp_all add: k)
  from keeps_trans [OF 1 this] keeps_then_process [of "internal d" w None u w' None] show ?thesis
    using assms(2) k by (auto simp: ao_sndio_device_clear_def u_def)
qed

interpretation sndio_run: driver_run ao_sndio "\<lambda>i. held_handles i = {#}" keeps
proof
  fix d d' e :: live_device and w w' v :: "'a posix_scheme" and i j l :: "plugin_internal ao_internal option" and r
  show "same_process w w' \<Longrightarrow> keeps i w i w'" by (simp add: keeps_process)
  show "keeps i w j v \<Longrightarrow> keeps j v l w' \<Longrightarrow> keeps i w l w'" by (rule keeps_trans)
  show "fn_device_init ao_sndio d w = Some (r, d', w') \<Longrightarrow> internal d = None \<Longrightarrow> keeps None w (internal d') w'"
    using sndio_init_handles keeps_process by (fastforce simp: ao_sndio_def)
  show "fn_device_init ao_sndio d w = Some (True, d', w') \<Longrightarrow> internal d = None \<Longrightarrow> held_handles (internal d') = {#}"
    using sndio_init_handles by (fastforce simp: ao_sndio_def)
  show "fn_set_option ao_sndio d key val w = Some (r, d', w') \<Longrightarrow> keeps (internal d) w (internal d') w'" for key val
    using sndio_option_handles keeps_process by (fastforce simp: ao_sndio_def)
  show "fn_set_option ao_sndio d key val w = Some (r, d', w') \<Longrightarrow> held_handles (internal d) = {#} \<Longrightarrow>
      held_handles (internal d') = {#}" for key val
    using sndio_option_handles by (fastforce simp: ao_sndio_def)
  show "fn_open ao_sndio d sf w = Some (r, d', sf', w') \<Longrightarrow> held_handles (internal d) = {#} \<Longrightarrow>
      keeps (internal d) w (internal d') w'" for sf sf'
    using sndio_open_handles by (fastforce simp: ao_sndio_def)
  show "fn_play ao_sndio d bs n w = Some (r, d', w') \<Longrightarrow> keeps (internal d) w (internal d') w'" for bs n
    by (auto simp: ao_sndio_def ao_sndio_play_def intro!: keeps_neutral split: Option.bind_splits prod.splits)
  show "fn_close ao_sndio d w = Some (r, e, v) \<Longrightarrow> fn_device_clear ao_sndio e v = Some (d', w') \<Longrightarrow>
      keeps (internal d) w None w'"
    using sndio_teardown_handles by (fastforce simp: ao_sndio_def)
qed


section \<open>PulseAudio\<close>

lemma keeps_ask_neutral: "ask c w = (r, v) \<Longrightarrow> neutral c \<Longrightarrow> held_handles j = held_handles i \<Longrightarrow> keeps i w j v"
  unfolding keeps_def using traced_neutral by auto

lemma keeps_snd_neutral:
  "neutral c \<Longrightarrow> held_handles j = held_handles i \<Longrightarrow> keeps i w j (snd (ask_ret c w))"
  by (rule keeps_neutral [OF surjective_pairing])

text \<open>What changes no handle: any relation below holds with every structure on both sides.\<close>

definition bystander :: "'z posix_scheme \<Rightarrow> 'z posix_scheme \<Rightarrow> bool" where
  "bystander w v \<longleftrightarrow> (\<forall>H. traced w H v H)"

lemma bystander_keeps: "bystander w v \<Longrightarrow> held_handles j = held_handles i \<Longrightarrow> keeps i w j v"
  by (simp add: bystander_def keeps_def)

lemma bystander_refl [simp]: "bystander w w"
  by (simp add: bystander_def)

lemma bystander_trans: "bystander u v \<Longrightarrow> bystander v w \<Longrightarrow> bystander u w"
  unfolding bystander_def using traced_trans by blast

lemma bystander_same: "p_answer v = p_answer w \<Longrightarrow> p_calls v = p_calls w \<Longrightarrow> bystander w v"
  by (simp add: bystander_def traced_same)

lemma bystander_ask: "ask c w = (r, v) \<Longrightarrow> neutral c \<Longrightarrow> bystander w v"
  unfolding bystander_def using traced_neutral by blast

lemma bystander_ask_ret: "ask_ret c w = (r, v) \<Longrightarrow> neutral c \<Longrightarrow> bystander w v"
  unfolding bystander_def using traced_neutral_ret by blast

lemma bystander_snd: "neutral c \<Longrightarrow> bystander w (snd (ask_ret c w))"
  by (rule bystander_ask_ret [OF surjective_pairing])

lemma bystander_process: "same_process w v \<Longrightarrow> bystander w v"
  unfolding bystander_def using traced_process by blast

lemma keeps_then_bystander:
  "keeps i w j u \<Longrightarrow> bystander u v \<Longrightarrow> held_handles k = held_handles j \<Longrightarrow> keeps i w k v"
  using keeps_trans bystander_keeps by blast

lemma pulse_binary_name_handles: "pulse_binary_name n w = Some y \<Longrightarrow> bystander w (snd y)"
proof (induction n w y rule: pulse_binary_name.raw_induct [rotated, consumes 1, case_names turn])
  case (turn loop n w y)
  obtain p v where a: "ask_ret (Pulse (Pa_xmalloc n)) w = (p, v)" by fastforce
  let ?v = "v\<lparr>w_live := w_live v + 1\<rparr>"
  obtain fn u where b: "ask (Pulse (Pa_get_binary_name n)) ?v = (fn, u)" by fastforce
  have "bystander w v" "bystander v ?v" "bystander ?v u" "bystander u (free_block u)"
    using bystander_ask_ret [OF a] bystander_ask [OF b] by (simp_all add: bystander_same free_block_def)
  then have h: "bystander w (free_block u)" using bystander_trans by blast
  have y: "y = (None, free_block u) \<or> y = (Some (rp_text fn), free_block u) \<or> loop (n * 2) (free_block u) = Some y"
    using turn(2) a b by (auto split: if_splits)
  show ?case
  proof (cases "loop (n * 2) (free_block u) = Some y")
    case True
    from bystander_trans [OF h turn(1) [OF True]] show ?thesis .
  next
    case False
    with y h show ?thesis by auto
  qed
qed

lemma pulse_names_handles: "pulse_names h i w = Some (n, v) \<Longrightarrow> bystander w v"
  by (auto simp: pulse_names_def split: option.splits Option.bind_splits dest!: pulse_binary_name_handles)

lemma pulse_sleep_handles: "pulse_sleep s n w = Some v \<Longrightarrow> bystander w v"
proof (induction s n w v rule: pulse_sleep.raw_induct [rotated, consumes 1, case_names turn])
  case (turn loop s n w v)
  obtain r u where a: "ask (Nanosleep s n) w = (r, u)" by fastforce
  have u: "bystander w u" by (rule bystander_ask [OF a]) simp
  show ?case
  proof (cases "rp_ret r < 0 \<and> rp_errno r = EINTR")
    case True
    with turn(2) a have "loop (rp_out r) (rp_aux r) u = Some v" by simp
    from bystander_trans [OF u turn(1) [OF this]] show ?thesis .
  next
    case False
    with turn(2) a u show ?thesis by auto
  qed
qed

lemma pulse_wait_handles: "pulse_wait i us w = Some v \<Longrightarrow> bystander w v"
  by (auto simp: pulse_wait_def Let_def intro: bystander_snd split: if_splits prod.splits dest: pulse_sleep_handles)


lemma pulse_init_handles:
  "ao_pulse_device_init d w = Some (r, d', w') \<Longrightarrow> internal d = None \<Longrightarrow>
   same_process w w' \<and> held_handles (internal d') = {#}"
  by (auto simp: ao_pulse_device_init_def dest!: malloc_process strdup_process intro: same_process_trans
      split: prod.splits if_splits)

lemma pulse_option_handles:
  "ao_pulse_set_option d key val w = Some (r, d', w') \<Longrightarrow>
   same_process w w' \<and> held_handles (internal d') = held_handles (internal d)"
  by (auto simp: ao_pulse_set_option_def plugin_state_iff split: if_splits Option.bind_splits option.splits prod.splits
      dest!: strdup_process)

lemma pulse_open_handles:
  assumes o: "ao_pulse_open h d sf w = Some (r, d', sf', w')" and e: "held_handles (internal d) = {#}"
  shows "keeps (internal d) w (internal d') w'"
proof -
  from o obtain i where i: "pulse_state d = Some i"
    by (auto simp: ao_pulse_open_def split: Option.bind_splits)
  show ?thesis
  proof (cases "pulse_sample h (fmt_bits sf) = None \<or> output_channels d \<le> 0 \<or> output_channels d > PA_CHANNELS_MAX h")
    case True
    with o i show ?thesis by (auto simp: ao_pulse_open_def keeps_process split: option.splits)
  next
    case False
    with o i obtain f names v1 cm t where f: "pulse_sample h (fmt_bits sf) = Some f"
      and n: "pulse_names h i (disable_sigpipe w) = Some (names, v1)"
      and m: "pulse_channel_map h d = Some cm" "pulse_tlength i (output_channels d) sf = Some t"
      by (auto simp: ao_pulse_open_def split: Option.bind_splits if_splits)
    let ?c = "Pulse (Pa_simple_new
                  \<lparr>pa_server = pulse_server i, pa_client = fst names, pa_dev = pulse_sink i,
                   pa_stream_name = snd names, pa_format = f, pa_rate = word_of_int (fmt_rate sf),
                   pa_channels = word_of_int (output_channels d), pa_map = cm,
                   pa_attr = Some (pulse_attr t)\<rparr>)"
    obtain s v2 where s: "ask_ret ?c v1 = (s, v2)" by fastforce
    let ?i = "Some (Plugin_internal (Pulse_internal (i\<lparr>pulse_simple := s\<rparr>)))"
    have "bystander w (disable_sigpipe w)" by (rule bystander_same) (simp_all add: disable_sigpipe_def)
    from bystander_trans [OF this pulse_names_handles [OF n]] have 1: "keeps (internal d) w (internal d) v1"
      by (simp add: bystander_keeps)
    have "keeps (internal d) v1 ?i v2"
      by (rule keeps_open_ret [OF s]) (use e in \<open>auto simp: opened_by_def\<close>)
    from keeps_trans [OF 1 this] have 2: "keeps (internal d) w ?i v2" .
    obtain l v3 where l: "ask_ret (Pulse (Pa_simple_get_latency s)) v2 = (l, v3)" by fastforce
    have "keeps (internal d) w (Some (Plugin_internal (Pulse_internal (i\<lparr>pulse_simple := s, pulse_static_delay := word_of_int l\<rparr>)))) v3"
      by (rule keeps_then_bystander [OF 2 bystander_ask_ret [OF l]]) simp_all
    with 2 o i f n m s l False show ?thesis by (auto simp: ao_pulse_open_def Let_def split: if_splits)
  qed
qed

lemma pulse_teardown_handles:
  assumes "ao_pulse_close d w = Some (r, e, v)" and "ao_pulse_device_clear e v = Some (d', w')"
  shows "keeps (internal d) w None w'"
proof -
  from assms obtain i where i: "pulse_state d = Some i"
    by (auto simp: ao_pulse_close_def split: Option.bind_splits)
  have clear: "same_process v w'"
    using assms(2) by (auto simp: ao_pulse_device_clear_def split: Option.bind_splits)
  show ?thesis
  proof (cases "pulse_simple i = 0")
    case True
    with assms(1) i have "v = w" by (auto simp: ao_pulse_close_def)
    with clear i True show ?thesis by (auto simp: plugin_state_iff intro: keeps_process)
  next
    case False
    obtain l v1 where l: "ask_ret (Pulse (Pa_simple_get_latency (pulse_simple i))) w = (l, v1)" by fastforce
    with False assms(1) i obtain v2 where p: "pulse_wait i (word_of_int l) v1 = Some v2"
      "v = snd (ask_ret (Pulse (Pa_simple_free (pulse_simple i))) v2)"
      by (auto simp: ao_pulse_close_def Let_def split: Option.bind_splits)
    have "bystander w v1" by (rule bystander_ask_ret [OF l]) simp
    from bystander_trans [OF this pulse_wait_handles [OF p(1)]] have "keeps (internal d) w (internal d) v2"
      by (simp add: bystander_keeps)
    moreover have "keeps (internal d) v2 None v"
      unfolding p(2) by (rule keeps_close) (use i False in \<open>simp_all add: plugin_state_iff\<close>)
    ultimately have "keeps (internal d) w None v" by (rule keeps_trans)
    from keeps_then_process [OF this clear] show ?thesis by simp
  qed
qed

interpretation pulse_run: driver_run "ao_pulse h" "\<lambda>i. held_handles i = {#}" keeps for h
proof
  fix d d' e :: live_device and w w' v :: "'a posix_scheme" and i j l :: "plugin_internal ao_internal option" and r
  show "same_process w w' \<Longrightarrow> keeps i w i w'" by (simp add: keeps_process)
  show "keeps i w j v \<Longrightarrow> keeps j v l w' \<Longrightarrow> keeps i w l w'" by (rule keeps_trans)
  show "fn_device_init (ao_pulse h) d w = Some (r, d', w') \<Longrightarrow> internal d = None \<Longrightarrow> keeps None w (internal d') w'"
    using pulse_init_handles keeps_process by (fastforce simp: ao_pulse_def)
  show "fn_device_init (ao_pulse h) d w = Some (True, d', w') \<Longrightarrow> internal d = None \<Longrightarrow> held_handles (internal d') = {#}"
    using pulse_init_handles by (fastforce simp: ao_pulse_def)
  show "fn_set_option (ao_pulse h) d key val w = Some (r, d', w') \<Longrightarrow> keeps (internal d) w (internal d') w'" for key val
    using pulse_option_handles keeps_process by (fastforce simp: ao_pulse_def)
  show "fn_set_option (ao_pulse h) d key val w = Some (r, d', w') \<Longrightarrow> held_handles (internal d) = {#} \<Longrightarrow>
      held_handles (internal d') = {#}" for key val
    using pulse_option_handles by (fastforce simp: ao_pulse_def)
  show "fn_open (ao_pulse h) d sf w = Some (r, d', sf', w') \<Longrightarrow> held_handles (internal d) = {#} \<Longrightarrow>
      keeps (internal d) w (internal d') w'" for sf sf'
    using pulse_open_handles by (fastforce simp: ao_pulse_def)
  show "fn_play (ao_pulse h) d bs n w = Some (r, d', w') \<Longrightarrow> keeps (internal d) w (internal d') w'" for bs n
    by (auto simp: ao_pulse_def ao_pulse_play_def intro!: keeps_neutral split: Option.bind_splits prod.splits)
  show "fn_close (ao_pulse h) d w = Some (r, e, v) \<Longrightarrow> fn_device_clear (ao_pulse h) e v = Some (d', w') \<Longrightarrow>
      keeps (internal d) w None w'"
    using pulse_teardown_handles by (fastforce simp: ao_pulse_def)
qed


section \<open>RoarAudio\<close>

lemma slp_handles [simp]: "bystander w (disable_slp b w)" "bystander w (reenable_slp b w)"
proof -
  show "bystander w (disable_slp b w)"
  proof (cases "ROAR_WAS_NO_SLP b")
    case None
    then show ?thesis by (simp add: disable_slp_def)
  next
    case (Some f)
    obtain n v where n: "ask_ret (Roar Roar_get_workarounds) w = (n, v)" by fastforce
    let ?v = "v\<lparr>p_roar_workarounds := n\<rparr>" and ?c = "Roar (Roar_set_workarounds (n OR f))"
    have "bystander w v" "bystander v ?v" "bystander ?v (snd (ask_ret ?c ?v))"
      using bystander_ask_ret [OF n] bystander_snd [of ?c ?v] by (simp_all add: bystander_same)
    then have "bystander w (snd (ask_ret ?c ?v))" using bystander_trans by blast
    then show ?thesis using Some n by (simp add: disable_slp_def)
  qed
  show "bystander w (reenable_slp b w)"
    by (auto simp: reenable_slp_def bystander_snd split: option.splits)
qed

text \<open>A connection got is open; no other handle is touched.\<close>

lemma roar_connect_handles:
  assumes "roar_connect b quiet host name w = (con, v)"
    and "held_handles j = held_handles i + (case con of None \<Rightarrow> {#} | Some c \<Rightarrow> {#Roar_con c#})"
  shows "keeps i w j v"
proof -
  define c where "c = (if has_simple_connect2 b then Roar (Roar_simple_connect2 host name)
    else Roar (Roar_simple_connect host name))"
  define off where "off = (quiet \<and> \<not> has_simple_connect2 b)"
  define w0 where "w0 = (if off then disable_slp b w else w)"
  obtain r u where a: "ask c w0 = (r, u)" by fastforce
  have r: "con = (if rp_ret r = -1 then None else Some (rp_out r))" "v = (if off then reenable_slp b u else u)"
    using assms(1) a by (auto simp: roar_connect_def c_def off_def w0_def split: if_splits)
  have w0: "keeps i w i w0" by (simp add: w0_def bystander_keeps)
  have "keeps i w0 j u"
    by (rule keeps_open [OF a]) (use assms(2) r(1) in \<open>auto simp: c_def opened_by_def\<close>)
  from keeps_trans [OF w0 this] keeps_then_bystander [of i w j u v j] r(2) show ?thesis by simp
qed

lemma roar_con_open_handles:
  assumes "ao_roar_con_open b i w = (ok, j, v)"
  shows "keeps (Some (Plugin_internal (Roar_internal i))) w (Some (Plugin_internal (Roar_internal j))) v"
proof (cases "roar_con_opened i")
  case True
  with assms show ?thesis by (simp add: ao_roar_con_open_def keeps_process)
next
  case False
  obtain con u where c: "roar_connect b (roar_host i = None) (roar_host i) (roar_client_name i) w = (con, u)" by fastforce
  have "v = u" "j = (case con of None \<Rightarrow> i | Some c \<Rightarrow> i\<lparr>roar_con := c, roar_con_opened := True\<rparr>)"
    using assms False c by (auto simp: ao_roar_con_open_def split: option.splits)
  with False show ?thesis by (auto intro!: roar_connect_handles [OF c] split: option.splits)
qed

lemma roar_mixer_loop_handles: "roar_mixer_loop con mixer n ids w = Some (x, v) \<Longrightarrow> bystander w v"
proof (induction con mixer n ids w rule: roar_mixer_loop.induct)
  case (3 con mixer n y ids w)
  obtain r u where a: "ask_ret (Roar (Roar_stream_new_by_id y)) w = (r, u)" by fastforce
  obtain m t where b: "ask (Roar (Roar_stream_get_name con y)) u = (m, t)" by fastforce
  have u: "bystander w u" "bystander u t" using bystander_ask_ret [OF a] bystander_ask [OF b] by simp_all
  show ?case
  proof (cases "r = -1")
    case True
    with 3 a u show ?thesis by (auto intro: bystander_trans)
  next
    case False
    with 3 a b bystander_trans [OF u] show ?thesis by (auto split: if_splits intro: bystander_trans)
  qed
qed simp_all

lemma roar_set_mixer_handles:
  assumes "roar_set_mixer b i w = Some (ok, v)"
  shows "bystander w v"
proof (cases "has_set_mixer b")
  case False
  with assms show ?thesis by (simp add: roar_set_mixer_def)
next
  case True
  with assms obtain x u where f: "ao_roar_find_mixer i w = Some (x, u)"
    by (auto simp: roar_set_mixer_def split: Option.bind_splits)
  have "bystander w u"
  proof -
    obtain r t where l: "ask (Roar (Roar_list_filtered (roar_con i))) w = (r, t)" by fastforce
    have "bystander w t" using bystander_ask [OF l] by simp
    with f l show ?thesis
      by (auto simp: ao_roar_find_mixer_def split: option.splits Option.bind_splits if_splits
          dest!: roar_mixer_loop_handles intro: bystander_trans)
  qed
  moreover obtain r t where m: "ask_ret (Roar (Roar_vs_set_mixer (roar_vss i) x)) u = (r, t)" by fastforce
  have "bystander u t" by (rule bystander_ask_ret [OF m]) simp
  moreover have "v = u \<or> v = t" using assms f True m by (auto simp: roar_set_mixer_def split: if_splits)
  ultimately show ?thesis using bystander_trans by blast
qed

lemma roar_init_handles:
  "ao_roar_device_init b d w = Some (r, d', w') \<Longrightarrow> internal d = None \<Longrightarrow>
   same_process w w' \<and> held_handles (internal d') = {#}"
  by (auto simp: ao_roar_device_init_def dest!: malloc_process strdup_process intro: same_process_trans
      split: prod.splits if_splits)

lemma roar_option_handles:
  "ao_roar_set_option d key val w = Some (r, d', w') \<Longrightarrow>
   bystander w w' \<and> held_handles (internal d') = held_handles (internal d)"
  by (auto simp: ao_roar_set_option_def plugin_state_iff split: if_splits Option.bind_splits option.splits prod.splits
      dest!: strdup_process bystander_ask_ret intro!: bystander_process)


lemma roar_open_handles:
  assumes o: "ao_roar_open b d sf w = Some (r, d', sf', w')" and e: "held_handles (internal d) = {#}"
  shows "keeps (internal d) w (internal d') w'"
proof -
  from o obtain i where i: "roar_state d = Some i"
    by (auto simp: ao_roar_open_def split: Option.bind_splits)
  have empty: "roar_vss i = 0" using e i by (auto simp: plugin_state_iff split: if_splits)
  obtain ok j w1 where c: "ao_roar_con_open b i w = (ok, j, w1)" by (metis prod_cases3)
  let ?s = "\<lambda>k. Some (Plugin_internal (Roar_internal k))"
  have j: "roar_vss j = 0" using c empty by (auto simp: ao_roar_con_open_def split: if_splits option.splits prod.splits)
  have 1: "keeps (internal d) w (?s j) w1" using roar_con_open_handles [OF c] i by (simp add: plugin_state_iff)
  obtain vss w2 where n: "ask_ret (Roar (Roar_vs_new_from_con (roar_con j))) w1 = (vss, w2)" by fastforce
  let ?j = "j\<lparr>roar_vss := vss\<rparr>"
  have "keeps (?s j) w1 (?s ?j) w2"
    by (rule keeps_open_ret [OF n]) (use j in \<open>auto simp: opened_by_def\<close>)
  from keeps_trans [OF 1 this] have 2: "keeps (internal d) w (?s ?j) w2" .
  consider "\<not> ok" | "ok" "vss = 0" | "ok" "vss \<noteq> 0" by blast
  then show ?thesis
  proof cases
    case 1
    with o i c \<open>keeps (internal d) w (?s j) w1\<close> show ?thesis by (auto simp: ao_roar_open_def)
  next
    case 2
    with o i c n \<open>keeps (internal d) w (?s ?j) w2\<close> show ?thesis by (auto simp: ao_roar_open_def)
  next
    case ok: 3
    with o i c n obtain ok2 w3 where m: "roar_set_mixer b ?j w2 = Some (ok2, w3)"
      by (auto simp: ao_roar_open_def Let_def split: Option.bind_splits)
    note 3 = keeps_then_bystander [OF 2 roar_set_mixer_handles [OF m] refl]
    obtain r4 w4 where s: "ask_ret (Roar (Roar_vs_stream vss (fmt_rate sf) (fmt_channels sf)
        (fmt_bits sf) (ROAR_CODEC_DEFAULT b))) w3 = (r4, w4)" by fastforce
    have 4: "keeps (internal d) w (?s ?j) w4" by (rule keeps_then_neutral [OF 3 s]) simp
    have give_up: "keeps (internal d) w (?s (?j\<lparr>roar_vss := 0\<rparr>)) (snd (ask_ret (Roar (Roar_vs_close vss)) u))"
      if "keeps (internal d) w (?s ?j) u" for u
      by (rule keeps_trans [OF that keeps_close]) (use ok(2) in simp_all)
    show ?thesis
    proof (cases "ok2 \<and> r4 \<noteq> -1")
      case False
      with o i c n ok m s give_up [OF 3] give_up [OF 4] show ?thesis
        by (auto simp: ao_roar_open_def Let_def roar_give_up_def split: if_splits)
    next
      case True
      define w5 where "w5 = (if roar_role ?j \<noteq> ROAR_ROLE_UNKNOWN b
          then snd (ask_ret (Roar (Roar_vs_role vss (roar_role ?j))) w4) else w4)"
      have "bystander w4 w5" by (simp add: w5_def bystander_snd)
      from keeps_then_bystander [OF 4 this refl] have 5: "keeps (internal d) w (?s ?j) w5" .
      obtain x w6 where x: "roar_matrix (fmt_channels sf) ((set_roar ?j d)\<lparr>driver_byte_format := AO_FMT_NATIVE\<rparr>) w5 = (x, w6)"
        by fastforce
      have r: "d' = x" "w' = w6"
        using o i c n ok m s True x by (auto simp: ao_roar_open_def Let_def w5_def)
      have "same_process w5 w6 \<and> internal x = ?s ?j"
        using x by (auto simp: roar_matrix_def split: if_splits option.splits prod.splits dest: strdup_process)
      with keeps_then_process [OF 5, of w6 "internal x"] r show ?thesis by simp
    qed
  qed
qed

lemma roar_teardown_handles:
  assumes "ao_roar_close d w = Some (r, e, v)" and "ao_roar_device_clear e v = Some (d', w')"
  shows "keeps (internal d) w None w'"
proof -
  from assms obtain i where i: "roar_state d = Some i"
    by (auto simp: ao_roar_close_def split: Option.bind_splits)
  let ?s = "\<lambda>k. Some (Plugin_internal (Roar_internal k))"
  define u where "u = (if roar_vss i \<noteq> 0 then snd (ask_ret (Roar (Roar_vs_close (roar_vss i))) w) else w)"
  have v: "v = (if roar_con_opened i then snd (ask_ret (Roar (Roar_disconnect (roar_con i))) u) else u)"
    using assms(1) i by (auto simp: ao_roar_close_def u_def)
  have "keeps (internal d) w (?s (i\<lparr>roar_vss := 0\<rparr>)) u"
    unfolding u_def by (rule keeps_close_if [where h = "Roar_vs (roar_vss i)"]) (use i in \<open>simp_all add: plugin_state_iff\<close>)
  moreover have "keeps (?s (i\<lparr>roar_vss := 0\<rparr>)) u None v"
    unfolding v by (rule keeps_close_if [where h = "Roar_con (roar_con i)"]) simp_all
  moreover have "same_process v w'"
    using assms(2) by (auto simp: ao_roar_device_clear_def split: Option.bind_splits)
  ultimately show ?thesis using keeps_trans keeps_then_process [of _ _ None v w' None] by blast
qed

interpretation roar_run: driver_run "ao_roar b" "\<lambda>i. held_handles i = {#}" keeps for b
proof
  fix d d' e :: live_device and w w' v :: "'a posix_scheme" and i j l :: "plugin_internal ao_internal option" and r
  show "same_process w w' \<Longrightarrow> keeps i w i w'" by (simp add: keeps_process)
  show "keeps i w j v \<Longrightarrow> keeps j v l w' \<Longrightarrow> keeps i w l w'" by (rule keeps_trans)
  show "fn_device_init (ao_roar b) d w = Some (r, d', w') \<Longrightarrow> internal d = None \<Longrightarrow> keeps None w (internal d') w'"
    using roar_init_handles keeps_process by (fastforce simp: ao_roar_def)
  show "fn_device_init (ao_roar b) d w = Some (True, d', w') \<Longrightarrow> internal d = None \<Longrightarrow> held_handles (internal d') = {#}"
    using roar_init_handles by (fastforce simp: ao_roar_def)
  show "fn_set_option (ao_roar b) d key val w = Some (r, d', w') \<Longrightarrow> keeps (internal d) w (internal d') w'" for key val
    using roar_option_handles bystander_keeps by (fastforce simp: ao_roar_def)
  show "fn_set_option (ao_roar b) d key val w = Some (r, d', w') \<Longrightarrow> held_handles (internal d) = {#} \<Longrightarrow>
      held_handles (internal d') = {#}" for key val
    using roar_option_handles by (fastforce simp: ao_roar_def)
  show "fn_open (ao_roar b) d sf w = Some (r, d', sf', w') \<Longrightarrow> held_handles (internal d) = {#} \<Longrightarrow>
      keeps (internal d) w (internal d') w'" for sf sf'
    using roar_open_handles by (fastforce simp: ao_roar_def)
  show "fn_play (ao_roar b) d bs n w = Some (r, d', w') \<Longrightarrow> keeps (internal d) w (internal d') w'" for bs n
    by (auto simp: ao_roar_def ao_roar_play_def intro!: keeps_neutral split: Option.bind_splits prod.splits)
  show "fn_close (ao_roar b) d w = Some (r, e, v) \<Longrightarrow> fn_device_clear (ao_roar b) e v = Some (d', w') \<Longrightarrow>
      keeps (internal d) w None w'"
    using roar_teardown_handles by (fastforce simp: ao_roar_def)
qed

section \<open>aRts\<close>

lemma arts_step_handles:
  "arts_lock w = Some v \<Longrightarrow> bystander w v"
  "arts_count n w = Some v \<Longrightarrow> bystander w v"
  "bystander w (arts_unlock w)" "bystander w (arts_leave w)"
  by (auto simp: arts_lock_def arts_count_def arts_unlock_def arts_leave_def bystander_snd
      split: if_splits Option.bind_splits intro!: bystander_same)

lemma arts_connect_handles: "arts_connect i w = (up, v) \<Longrightarrow> bystander w v"
  by (auto simp: arts_connect_def split: if_splits prod.splits intro: bystander_ask_ret)

lemma arts_give_up_handles:
  assumes "arts_give_up i d w = (d', w')" and "arts_stream i \<noteq> 0"
  shows "keeps (Some (Plugin_internal (Arts_internal i))) w (internal d') w'"
proof -
  define u where "u = snd (ask_ret (Arts (Arts_close_stream (arts_stream i))) w)"
  have "keeps (Some (Plugin_internal (Arts_internal i))) w (internal d') u"
    unfolding u_def by (rule keeps_close) (use assms in \<open>auto simp: arts_give_up_def\<close>)
  moreover have "bystander u w'"
    using assms(1) bystander_trans [OF arts_step_handles(4,3)] by (auto simp: arts_give_up_def u_def)
  ultimately show ?thesis by (rule keeps_then_bystander) simp
qed

lemma arts_init_handles:
  "ao_arts_device_init d w = Some (r, d', w') \<Longrightarrow> internal d = None \<Longrightarrow>
   same_process w w' \<and> held_handles (internal d') = {#}"
  by (auto simp: ao_arts_device_init_def dest!: malloc_process strdup_process intro: same_process_trans
      split: prod.splits if_splits)

lemma arts_option_handles:
  "ao_arts_set_option d key val w = Some (r, d', w') \<Longrightarrow>
   w' = w \<and> held_handles (internal d') = held_handles (internal d)"
  by (auto simp: ao_arts_set_option_def plugin_state_iff split: if_splits Option.bind_splits option.splits)


lemma arts_open_handles:
  assumes o: "ao_arts_open b d sf w = Some (r, d', sf', w')" and e: "held_handles (internal d) = {#}"
  shows "keeps (internal d) w (internal d') w'"
proof -
  obtain i where i: "arts_state d = Some i"
    using o by (auto simp: ao_arts_open_def split: Option.bind_splits)
  show ?thesis
  proof (cases "output_channels d < 1 \<or> output_channels d > 2")
    case True
    with o i show ?thesis by (auto simp: ao_arts_open_def keeps_process)
  next
    case False
    with o i obtain w1 where l: "arts_lock w = Some w1"
      by (auto simp: ao_arts_open_def split: Option.bind_splits)
    obtain up w2 where c: "arts_connect i w1 = (up, w2)" by fastforce
    obtain s w3 where s: "ask_ret (Arts (Arts_play_stream (fmt_rate sf) (fmt_bits sf)
        (output_channels d) ''libao stream'')) w2 = (s, w3)" by fastforce
    obtain r4 w4 where r4: "ask_ret (Arts (Arts_stream_set s (ARTS_P_BLOCKING b) 0)) w3 = (r4, w4)" by fastforce
    obtain n w5 where n: "ask_ret (Arts (Arts_stream_get s (ARTS_P_BUFFER_SIZE b))) w4 = (n, w5)" by fastforce
    let ?i = "i\<lparr>arts_stream := s\<rparr>" and ?s = "\<lambda>k. Some (Plugin_internal (Arts_internal k))"
    let ?d = "d\<lparr>driver_byte_format := AO_FMT_NATIVE\<rparr>"
    have 2: "bystander w w2" using bystander_trans [OF arts_step_handles(1) [OF l] arts_connect_handles [OF c]] .
    have "keeps (internal d) w2 (?s ?i) w3"
      by (rule keeps_open_ret [OF s]) (use e i in \<open>auto simp: opened_by_def plugin_state_iff\<close>)
    from keeps_trans [OF bystander_keeps [OF 2 refl] this] have 3: "keeps (internal d) w (?s ?i) w3" .
    have 4: "keeps (internal d) w (?s ?i) w4" by (rule keeps_then_neutral [OF 3 r4]) simp
    have 5: "keeps (internal d) w (?s (?i\<lparr>arts_buffersize := n\<rparr>)) w5"
      by (rule keeps_then_bystander [OF 4 bystander_ask_ret [OF n]]) simp_all
    consider (down) "\<not> up" | (null) "up" "s = 0" | (set) "up" "s \<noteq> 0" "r4 \<noteq> 0"
      | (get) "up" "s \<noteq> 0" "r4 = 0" "n \<le> 0" | (ok) "up" "s \<noteq> 0" "r4 = 0" "n > 0" by linarith
    then show ?thesis
    proof cases
      case down
      with o i False l c have "d' = d" "w' = arts_unlock w2" by (auto simp: ao_arts_open_def)
      with bystander_trans [OF 2 arts_step_handles(3)] show ?thesis by (simp add: bystander_keeps)
    next
      case null
      with o i False l c s have "d' = set_arts ?i ?d" "w' = arts_unlock (arts_leave w3)" by (auto simp: ao_arts_open_def)
      with keeps_then_bystander [OF 3 bystander_trans [OF arts_step_handles(4,3)] refl] show ?thesis by simp
    next
      case set
      obtain d2 v where g: "arts_give_up ?i (set_arts ?i ?d) w4 = (d2, v)" by fastforce
      have "d' = d2" "w' = v" using set o i False l c s r4 g by (simp_all add: ao_arts_open_def)
      with keeps_trans [OF 4 arts_give_up_handles [OF g]] set show ?thesis by simp
    next
      case get
      let ?k = "?i\<lparr>arts_buffersize := n\<rparr>"
      obtain d2 v where g: "arts_give_up ?k (set_arts ?k ?d) w5 = (d2, v)" by fastforce
      have "d' = d2" "w' = v" using get o i False l c s r4 n g by (simp_all add: ao_arts_open_def)
      with keeps_trans [OF 5 arts_give_up_handles [OF g]] get show ?thesis by simp
    next
      case ok
      let ?k = "?i\<lparr>arts_buffersize := n\<rparr>"
      obtain w6 where w6: "arts_count 1 w5 = Some w6" "d' = set_arts ?k ?d" "w' = arts_unlock w6"
        using ok o i False l c s r4 n by (auto simp: ao_arts_open_def split: Option.bind_splits)
      from keeps_then_bystander [OF 5 bystander_trans [OF arts_step_handles(2) [OF w6(1)] arts_step_handles(3)] refl] w6
      show ?thesis by simp
    qed
  qed
qed

lemma arts_tries_handles: "arts_tries k stream xs n acc w = Some (t, v) \<Longrightarrow> bystander w v"
proof (induction k arbitrary: xs n acc w)
  case 0
  then show ?case by simp
next
  case (Suc k)
  obtain bs where bs: "load (unat n) xs 0 = Some bs" using Suc.prems by (auto split: Option.bind_splits)
  obtain r u where a: "ask_ret (Arts (Arts_write stream bs)) w = (r, u)" by fastforce
  have u: "bystander w u" by (rule bystander_ask_ret [OF a]) simp
  show ?case
  proof (cases "r < 0")
    case True
    with Suc.prems bs a u show ?thesis by (auto split: Option.bind_splits)
  next
    case False
    with Suc.prems bs a obtain acc' where
      "arts_tries k stream (drop (nat r) xs) (n - word_of_int r) acc' u = Some (t, v)"
      by (auto split: Option.bind_splits)
    from bystander_trans [OF u Suc.IH [OF this]] show ?thesis .
  qed
qed

lemma arts_play_loop_handles: "arts_play_loop i d xs n spin w = Some y \<Longrightarrow> bystander w (snd y)"
proof (induction i d xs n spin w y rule: arts_play_loop_induct)
  case (turn loop i d xs n spin w y)
  have stop: "bystander w (arts_unlock v)" if "arts_tries 5 (arts_stream i) xs n 0 w = Some (t, v)" for t v
    using bystander_trans [OF arts_tries_handles [OF that] arts_step_handles(3)] .
  from turn(2) show ?case
  proof (cases rule: arts_play_turn)
    case (turn acc ys m v wait)
    let ?u = "snd (ask_ret (Usleep wait) (arts_unlock v))"
    have "bystander w ?u" using bystander_trans [OF stop [OF turn(1)] bystander_snd] by simp
    moreover have "bystander ?u (?u\<lparr>p_arts_mutex := True\<rparr>)" by (rule bystander_same) simp_all
    ultimately show ?thesis using \<open>\<And>i d xs n spin w y. loop i d xs n spin w = Some y \<Longrightarrow> bystander w (snd y)\<close> [OF turn(2)]
      bystander_trans by blast
  qed (use stop in simp_all)
qed

lemma arts_teardown_handles:
  assumes "ao_arts_close d w = Some (r, e, v)" and "ao_arts_device_clear e v = Some (d', w')"
  shows "keeps (internal d) w None w'"
proof -
  from assms obtain i w1 where i: "arts_state d = Some i" and l: "arts_lock w = Some w1"
    by (auto simp: ao_arts_close_def split: Option.bind_splits)
  define u where "u = (if arts_stream i \<noteq> 0 then snd (ask_ret (Arts (Arts_close_stream (arts_stream i))) w1) else w1)"
  obtain w2 where w2: "arts_count (-1) u = Some w2" "v = arts_unlock (arts_leave w2)"
    "e = set_arts (i\<lparr>arts_stream := 0\<rparr>) d"
    using assms(1) i l by (auto simp: ao_arts_close_def u_def split: Option.bind_splits)
  have "keeps (internal d) w1 None u"
    unfolding u_def by (rule keeps_close_if [where h = "Arts_stream (arts_stream i)"]) (use i in \<open>simp_all add: plugin_state_iff\<close>)
  from keeps_trans [OF bystander_keeps [OF arts_step_handles(1) [OF l] refl] this]
  have "keeps (internal d) w None u" .
  moreover have "bystander u v"
    unfolding w2(2) using arts_step_handles(2) [OF w2(1)] arts_step_handles(3,4) bystander_trans by blast
  moreover have "same_process v w'"
    using assms(2) w2(3) by (auto simp: ao_arts_device_clear_def split: Option.bind_splits)
  ultimately show ?thesis using keeps_then_bystander keeps_then_process by blast
qed

interpretation arts_run: driver_run "ao_arts b" "\<lambda>i. held_handles i = {#}" keeps for b
proof
  fix d d' e :: live_device and w w' v :: "'a posix_scheme" and i j l :: "plugin_internal ao_internal option" and r
  show "same_process w w' \<Longrightarrow> keeps i w i w'" by (simp add: keeps_process)
  show "keeps i w j v \<Longrightarrow> keeps j v l w' \<Longrightarrow> keeps i w l w'" by (rule keeps_trans)
  show "fn_device_init (ao_arts b) d w = Some (r, d', w') \<Longrightarrow> internal d = None \<Longrightarrow> keeps None w (internal d') w'"
    using arts_init_handles keeps_process by (fastforce simp: ao_arts_def)
  show "fn_device_init (ao_arts b) d w = Some (True, d', w') \<Longrightarrow> internal d = None \<Longrightarrow> held_handles (internal d') = {#}"
    using arts_init_handles by (fastforce simp: ao_arts_def)
  show "fn_set_option (ao_arts b) d key val w = Some (r, d', w') \<Longrightarrow> keeps (internal d) w (internal d') w'" for key val
    using arts_option_handles keeps_process by (fastforce simp: ao_arts_def)
  show "fn_set_option (ao_arts b) d key val w = Some (r, d', w') \<Longrightarrow> held_handles (internal d) = {#} \<Longrightarrow>
      held_handles (internal d') = {#}" for key val
    using arts_option_handles by (fastforce simp: ao_arts_def)
  show "fn_open (ao_arts b) d sf w = Some (r, d', sf', w') \<Longrightarrow> held_handles (internal d) = {#} \<Longrightarrow>
      keeps (internal d) w (internal d') w'" for sf sf'
    using arts_open_handles by (fastforce simp: ao_arts_def)
  show "fn_play (ao_arts b) d bs n w = Some (r, d', w') \<Longrightarrow> keeps (internal d) w (internal d') w'" for bs n
    by (auto simp: ao_arts_def ao_arts_play_def intro!: bystander_keeps split: Option.bind_splits
        dest!: arts_step_handles(1) arts_play_loop_handles intro: bystander_trans)
  show "fn_close (ao_arts b) d w = Some (r, e, v) \<Longrightarrow> fn_device_clear (ao_arts b) e v = Some (d', w') \<Longrightarrow>
      keeps (internal d) w None w'"
    using arts_teardown_handles by (fastforce simp: ao_arts_def)
qed


section \<open>Sessions\<close>

text \<open>The drivers for which every handle got is given back once.\<close>

definition tidy_drivers ::
  "driver_builds \<Rightarrow> (plugin_internal ao_internal, 'z posix_scheme) ao_functions set" where
  "tidy_drivers b = {ao_sndio, ao_pulse (build_pulse b), ao_roar (build_roar b)}"

lemma tidy_driver_run: "F \<in> tidy_drivers b \<Longrightarrow> driver_run F (\<lambda>i. held_handles i = {#}) keeps"
  unfolding tidy_drivers_def
  using sndio_run.driver_run_axioms pulse_run.driver_run_axioms roar_run.driver_run_axioms
  by (elim insertE) auto

context driver_run
begin

lemma session_step:
  assumes "ao_open_live did format opts lib w = Some (Some (F, d), w1)"
    and "get_driver did lib = Some drv" "drv_functions drv = F"
    and "play_all (Some (F, d)) blks w1 = Some (r, dev', w2)" and "ao_close dev' w2 = Some (r', w3)"
  shows "step None w None w3"
proof -
  have o: "step None w (internal d) w1"
    using open_device_step [OF _ assms(2,3)] assms(1) by (fastforce simp: ao_open_live_def)
  from play_all_step [OF assms(4)] obtain d' where
    d': "dev' = Some (F, d')" "step (internal d) w1 (internal d') w2" by blast
  from trans [OF trans [OF o d'(2)] ao_close_step] assms(5) d'(1) show ?thesis by simp
qed

lemma failed_step:
  assumes "ao_open_live did format opts lib w = Some (None, w1)"
    and "get_driver did lib = Some drv" "drv_functions drv = F"
  shows "step None w None w1"
  using open_device_step [OF _ assms(2,3)] assms(1) by (fastforce simp: ao_open_live_def)

end

lemma keeps_run:
  assumes "keeps None w None v"
  obtains cs where "p_calls v = p_calls w @ cs" "handle_run {#} (events (p_answer w) (p_calls w) cs) {#}"
  using assms unfolding keeps_def traced_def by (metis add.right_neutral held_handles_simps(1))

lemma opened_functions:
  assumes "F \<in> all_drivers b" and "get_driver did lib = Some drv" "drv_functions drv = F"
    and "ao_open_live did format opts lib w = Some (Some dev, w1)"
  obtains d where "dev = (F, d)"
proof -
  obtain blk where blk: "ao_driver F blk" using all_drivers_contract [OF assms(1)] by blast
  have "ao_driver.exact F blk (Some dev) (w_live w) w w1"
    using ao_driver.ao_open_live_law [OF blk assms(4,2,3)] .
  then show ?thesis using that by (cases dev) (auto simp: ao_driver.exact_def [OF blk] ao_driver.settled_def [OF blk])
qed

text \<open>A session, or an open that fails: nothing was held before, and nothing is after.\<close>

definition whole_session ::
  "int \<Rightarrow> ao_sample_format \<Rightarrow> ao_option list \<Rightarrow> (plugin_internal ao_internal, 'z posix_scheme) ao_lib
    \<Rightarrow> 'z posix_scheme \<Rightarrow> 'z posix_scheme \<Rightarrow> bool" where
  "whole_session did format opts lib w w3 \<longleftrightarrow> (\<exists>dev w1. ao_open_live did format opts lib w = Some (dev, w1) \<and>
     (dev = None \<and> w3 = w1 \<or>
      (\<exists>blks r dev' w2 r'. dev \<noteq> None \<and> play_all dev blks w1 = Some (r, dev', w2) \<and> ao_close dev' w2 = Some (r', w3))))"

lemma run_balance:
  assumes run: "driver_run F (\<lambda>i. held_handles i = {#}) keeps" and all: "F \<in> all_drivers b"
    and drv: "get_driver did lib = Some drv" "drv_functions drv = F"
    and s: "whole_session did format opts lib w w3"
  shows "\<exists>cs. p_calls w3 = p_calls w @ cs \<and> handle_run {#} (events (p_answer w) (p_calls w) cs) {#}"
proof -
  obtain dev w1 where o: "ao_open_live did format opts lib w = Some (dev, w1)"
    "dev = None \<and> w3 = w1 \<or>
      (\<exists>blks r dev' w2 r'. dev \<noteq> None \<and> play_all dev blks w1 = Some (r, dev', w2) \<and> ao_close dev' w2 = Some (r', w3))"
    using s unfolding whole_session_def by blast
  have "keeps None w None w3"
  proof (cases dev)
    case None
    with o driver_run.failed_step [OF run _ drv] show ?thesis by blast
  next
    case (Some p)
    with o(1) opened_functions [OF all drv] obtain d where "p = (F, d)" by metis
    with Some o driver_run.session_step [OF run _ drv] show ?thesis by blast
  qed
  then show ?thesis using keeps_run by metis
qed

text \<open>The streams of aRts; getting and leaving the server is neutral here.\<close>

lemma arts_streams_balance:
  fixes b :: driver_builds
  assumes "get_driver did lib = Some drv" "drv_functions drv = ao_arts (build_arts b)"
    and "whole_session did format opts lib w w3"
  shows "\<exists>cs. p_calls w3 = p_calls w @ cs \<and> handle_run {#} (events (p_answer w) (p_calls w) cs) {#}"
  by (rule run_balance [OF arts_run.driver_run_axioms _ assms, where b = b])
     (simp add: all_drivers_def drivers_defs)

text \<open>
  C7.  Handles are balanced.  With the sndio, PulseAudio and RoarAudio drivers, whatever the
  system and the sound server answer: between an \<open>ao_open_live\<close> and the \<open>ao_close\<close> that follows
  it, and in an \<open>ao_open_live\<close> that fails, every connection and stream that a call handed out is
  given back exactly once, and nothing is given back that was not handed out before.
\<close>

theorem handles_balance:
  assumes "F \<in> tidy_drivers b" and "get_driver did lib = Some drv" and "drv_functions drv = F"
    and "ao_open_live did format opts lib w = Some (dev, w1)"
    and "dev = None \<and> w3 = w1 \<or>
      (\<exists>blks r dev' w2 r'. dev \<noteq> None \<and> play_all dev blks w1 = Some (r, dev', w2) \<and> ao_close dev' w2 = Some (r', w3))"
  shows "\<exists>cs. p_calls w3 = p_calls w @ cs \<and> handle_run {#} (events (p_answer w) (p_calls w) cs) {#}"
proof -
  have all: "F \<in> all_drivers b" using assms(1) by (auto simp: tidy_drivers_def all_drivers_def drivers_defs)
  have "whole_session did format opts lib w w3" using assms(4,5) by (auto simp: whole_session_def)
  then show ?thesis by (rule run_balance [OF tidy_driver_run [OF assms(1)] all assms(2,3)])
qed

text \<open>A session with RoarAudio: a connection, a stream on it, and a write.\<close>

theorem handles_balance_witness:
  "\<exists>dev w1 r dev' w2 r' w3.
     demo_session 12 [] [(2, [1, 2, 3, 4, 5, 6, 7, 8])] [] = Some (Some dev, w1, r, dev', w2, r', w3) \<and>
     length (p_calls w3) = 6 \<and> handle_run {#} (events demo_answer [] (p_calls w3)) {#}"
proof -
  have "case demo_session 12 [] [(2, [1, 2, 3, 4, 5, 6, 7, 8])] [] of
      Some (Some dev, w1, r, dev', w2, r', w3) \<Rightarrow> r \<and> r' \<and> length (p_calls w3) = 6 | _ \<Rightarrow> False"
    by code_simp
  then obtain dev w1 r dev' w2 r' w3 where
    s: "demo_session 12 [] [(2, [1, 2, 3, 4, 5, 6, 7, 8])] [] = Some (Some dev, w1, r, dev', w2, r', w3)"
    and n: "length (p_calls w3) = 6" by (auto split: option.splits prod.splits)
  note d = demo_session_D [OF s]
  have f: "drv_functions (live_driver 12) \<in> tidy_drivers live_builds"
    by (simp add: live_driver_def live_lib_def live_functions_def drivers_defs tidy_drivers_def)
  have g: "get_driver 12 live_lib = Some (live_driver 12)" using live_get_driver [of 12] by simp
  have "\<exists>blks r dev' w2 r'. Some dev \<noteq> None \<and> play_all (Some dev) blks w1 = Some (r, dev', w2) \<and>
      ao_close dev' w2 = Some (r', w3)"
    using d(2,3) by blast
  from handles_balance [OF f g refl d(1) disjI2 [OF this]]
  obtain cs where cs: "p_calls w3 = p_calls (demo_posix demo_answer []) @ cs"
    "handle_run {#} (events (p_answer (demo_posix demo_answer [])) (p_calls (demo_posix demo_answer [])) cs) {#}" by metis
  have w: "p_calls (demo_posix demo_answer []) = []" "p_answer (demo_posix demo_answer []) = demo_answer"
    by (simp_all add: demo_posix_def)
  have "p_calls w3 = cs" "handle_run {#} (events demo_answer [] cs) {#}" using cs unfolding w by simp_all
  then have "length (p_calls w3) = 6 \<and> handle_run {#} (events demo_answer [] (p_calls w3)) {#}" using n by blast
  with s show ?thesis by blast
qed

end
