(* ===== verification/AO_Servers.thy ===== *)
theory AO_Servers
  imports AO_Drivers
begin

text \<open>
  The properties of the drivers that talk to a sound server: aRts, NAS, IRIX and PulseAudio.
\<close>

lemma one_more_call:
  "p_calls (snd (ask_ret c w)) = p_calls w @ [c]" "p_calls (snd (ask c w)) = p_calls w @ [c]"
  by (simp_all add: ask_ret_def ask_def Let_def)

section \<open>aRts\<close>

text \<open>
  C20.  \<open>play\<close> of aRts returns, on every server that takes no more than it is offered, however slow
  and with whatever errors: a server that has stopped answering is found out after a hundred turns.
  The lock is free again; what the server got is a prefix of the samples, and all of them on success.
\<close>

theorem arts_play_returns:
  assumes "arts_state d = Some i" and "\<not> p_arts_mutex w" and "arts_bounds (p_answer w) (arts_stream i)"
    and "unat n \<le> length samples" and "int (unat n) \<le> INT_MAX" and "arts_wait (arts_buffersize i) d \<noteq> None"
  shows "\<exists>r v m. ao_arts_play d samples n w = Some (r, d, v) \<and> \<not> p_arts_mutex v \<and> m \<le> unat n \<and>
    arts_sent (arts_stream i) v = arts_sent (arts_stream i) w @ take m samples \<and> (r \<longrightarrow> m = unat n)"
proof -
  let ?w = "w\<lparr>p_arts_mutex := True\<rparr>"
  have l: "arts_lock w = Some ?w" using assms(2) by (simp add: arts_lock_def)
  have s: "arts_sent (arts_stream i) ?w = arts_sent (arts_stream i) w" by (simp add: taken_def)
  from arts_play_loop_returns [of ?w i n samples d 0] assms(3-6) s obtain r v m where
    "arts_play_loop i d samples n 0 ?w = Some (r, v)" "\<not> p_arts_mutex v" "m \<le> unat n"
    "arts_sent (arts_stream i) v = arts_sent (arts_stream i) w @ take m samples" "r \<longrightarrow> m = unat n" by auto
  with assms(1) l show ?thesis by (auto simp: ao_arts_play_def)
qed

definition arts_ready :: live_device where
  "arts_ready = (set_arts \<lparr>arts_stream = 1, arts_allow_multi = False, arts_buffersize = 4096\<rparr>
     (fresh_device 8 (ao_arts (build_arts live_builds) :: (plugin_internal ao_internal, posix) ao_functions) stereo_format None False))
     \<lparr>bytewidth := 2, dev_rate := 44100\<rparr>"

lemma arts_ready_facts:
  "arts_state arts_ready = Some \<lparr>arts_stream = 1, arts_allow_multi = False, arts_buffersize = 4096\<rparr>"
  "output_channels arts_ready = 2" "bytewidth arts_ready = 2" "dev_rate arts_ready = 44100"
  by (simp_all add: arts_ready_def plugin_state_iff fresh_device_def stereo_format_def)

text \<open>A server that answers 0 to everything, and one that refuses the first call.\<close>

definition idle_world :: posix where
  "idle_world = demo_posix (\<lambda>h c. number_reply 0 0 0) []"

definition refusing_world :: posix where
  "refusing_world = demo_posix (\<lambda>h c. number_reply (if h = [] then 1 else 0) 0 0) []"

lemma server_worlds:
  "p_answer idle_world = (\<lambda>h c. number_reply 0 0 0)" "p_calls idle_world = []"
  "\<not> p_arts_mutex idle_world" "p_arts_open_count idle_world = 0"
  "p_answer refusing_world = (\<lambda>h c. number_reply (if h = [] then 1 else 0) 0 0)" "p_calls refusing_world = []"
  "\<not> p_arts_mutex refusing_world" "p_arts_open_count refusing_world = 0"
  by (simp_all add: idle_world_def refusing_world_def demo_posix_def)

lemma idle_arts: "arts_bounds (p_answer idle_world) s"
  by (simp add: arts_bounds_def server_worlds)

text \<open>A server that takes nothing.\<close>

theorem arts_play_returns_witness:
  "\<exists>r v m. ao_arts_play arts_ready [1, 2, 3, 4] 4 idle_world = Some (r, arts_ready, v) \<and>
    \<not> p_arts_mutex v \<and> m \<le> (4 :: nat) \<and> (r \<longrightarrow> m = 4)"
proof -
  have w: "arts_wait 4096 arts_ready \<noteq> None"
    by (simp add: arts_wait_def arts_ready_facts c_int_def INT_MIN_def INT_MAX_def)
  have n: "unat (4 :: 32 word) \<le> length [1, 2, 3, 4 :: byte]" "int (unat (4 :: 32 word)) \<le> INT_MAX"
    by (simp_all add: INT_MAX_def)
  from arts_play_returns [OF arts_ready_facts(1) server_worlds(3) idle_arts n] w show ?thesis by auto
qed

text \<open>
  C39.  A failed open poisons the driver.  When nothing plays and \<open>open\<close> fails, the \<open>close\<close> that
  follows it counts the server's users down to -1; from then on every \<open>open\<close> of a device that does
  not allow several streams fails without asking the server.
\<close>

theorem arts_failed_open_poisons:
  assumes "p_arts_open_count w = 0" and "\<not> p_arts_mutex w"
    and "ao_arts_open b d format w = Some (False, d1, format1, w1)" and "ao_arts_close d1 w1 = Some (r, d2, w2)"
    and "arts_state e = Some i" and "\<not> arts_allow_multi i"
  shows "p_arts_open_count w2 = -1 \<and>
    (\<exists>w3. ao_arts_open b e format2 w2 = Some (False, e, format2, w3) \<and> p_calls w3 = p_calls w2 \<and> p_arts_open_count w3 = -1)"
proof -
  have count: "p_arts_open_count (snd (ask_ret c v)) = p_arts_open_count v"
    "p_arts_mutex (snd (ask_ret c v)) = p_arts_mutex v" for c and v :: "'a posix_scheme"
    by (simp_all add: ask_ret_def ask_def split_beta)
  have ret: "ask_ret c v = (x, u) \<Longrightarrow> p_arts_open_count u = p_arts_open_count v \<and> p_arts_mutex u = p_arts_mutex v"
    for c x and v u :: "'a posix_scheme"
    using count [of c v] by simp
  have "p_arts_open_count w1 = 0 \<and> \<not> p_arts_mutex w1"
    using assms(1-3)
    by (auto simp: ao_arts_open_def arts_lock_def arts_connect_def arts_unlock_def arts_leave_def arts_give_up_def count Let_def
        split: Option.bind_splits if_splits prod.splits dest!: ret)
  then have "p_arts_open_count w2 = -1 \<and> \<not> p_arts_mutex w2"
    using assms(4)
    by (auto simp: ao_arts_close_def arts_lock_def arts_unlock_def arts_leave_def arts_count_def count Let_def c_int_def
        INT_MIN_def INT_MAX_def split: Option.bind_splits if_splits)
  then show ?thesis
    using assms(5,6)
    by (auto simp: ao_arts_open_def arts_lock_def arts_connect_def arts_unlock_def Let_def)
qed

text \<open>The server is down once, and up again when the second device is opened.\<close>

theorem arts_failed_open_poisons_witness:
  "\<exists>d1 w1 d2 w2 w3.
     ao_arts_open (build_arts live_builds) arts_ready stereo_format refusing_world = Some (False, d1, stereo_format, w1) \<and>
     ao_arts_close d1 w1 = Some (True, d2, w2) \<and> p_arts_open_count w2 = -1 \<and>
     ao_arts_open (build_arts live_builds) arts_ready stereo_format w2 = Some (False, arts_ready, stereo_format, w3)"
proof -
  obtain w1 where w1: "ask_ret (Arts Arts_init) (refusing_world\<lparr>p_arts_mutex := True\<rparr>) = (1, w1)"
    "p_arts_open_count w1 = 0"
    by (simp add: ask_ret_def ask_def server_worlds)
  have o: "ao_arts_open (build_arts live_builds) arts_ready stereo_format refusing_world =
      Some (False, arts_ready, stereo_format, arts_unlock w1)"
    using w1 by (simp add: ao_arts_open_def arts_ready_facts arts_lock_def arts_connect_def server_worlds)
  obtain d2 w2 where c: "ao_arts_close arts_ready (arts_unlock w1) = Some (True, d2, w2)"
    using w1(2) arts_ready_facts(1)
    by (simp add: ao_arts_close_def arts_lock_def arts_count_def arts_unlock_def c_int_def INT_MIN_def INT_MAX_def
        ask_ret_def ask_def split_beta)
  from arts_failed_open_poisons [OF server_worlds(8,7) o c arts_ready_facts(1), of stereo_format] o c
  show ?thesis by auto
qed

text \<open>
  A failed open disconnects the others.  While \<open>n > 0\<close> streams play, an \<open>open\<close> that fails has
  not been counted, but the \<open>close\<close> that follows it counts one stream less; with \<open>n = 1\<close>, and only
  then, it leaves the server, which neither call had connected to, under the stream that plays.
\<close>

theorem arts_failed_open_disconnects:
  assumes "0 < p_arts_open_count w"
    and "ao_arts_open b d format w = Some (False, d1, format1, w1)" and "ao_arts_close d1 w1 = Some (r, d2, w2)"
  shows "p_arts_open_count w2 = p_arts_open_count w - 1 \<and>
    (\<exists>cs. p_calls w2 = p_calls w @ cs \<and> Arts Arts_init \<notin> set cs \<and>
      (Arts Arts_free \<in> set cs \<longleftrightarrow> p_arts_open_count w = 1))"
proof -
  have count: "p_arts_open_count (snd (ask_ret c v)) = p_arts_open_count v" for c and v :: "'a posix_scheme"
    by (simp add: ask_ret_def ask_def split_beta)
  have ret: "ask_ret c v = (x, u) \<Longrightarrow> p_arts_open_count u = p_arts_open_count v \<and> p_calls u = p_calls v @ [c]"
    for c x and v u :: "'a posix_scheme"
    using count [of c v] ask_ret_p_calls by simp
  have o: "p_arts_open_count w1 = p_arts_open_count w \<and>
      (\<exists>cs. p_calls w1 = p_calls w @ cs \<and> Arts Arts_init \<notin> set cs \<and> Arts Arts_free \<notin> set cs)"
    using assms(1,2)
    by (auto simp: ao_arts_open_def arts_lock_def arts_connect_def arts_unlock_def arts_leave_def arts_give_up_def
        count one_more_call Let_def split: Option.bind_splits if_splits prod.splits dest!: ret)
  have c: "p_arts_open_count w2 = p_arts_open_count w1 - 1 \<and>
      (\<exists>cs. p_calls w2 = p_calls w1 @ cs \<and> Arts Arts_init \<notin> set cs \<and>
        (Arts Arts_free \<in> set cs \<longleftrightarrow> p_arts_open_count w1 = 1))"
    using assms(3)
    by (auto simp: ao_arts_close_def arts_lock_def arts_unlock_def arts_leave_def arts_count_def count one_more_call Let_def
        c_int_Some_iff split: Option.bind_splits if_splits)
  from o obtain cs where cs: "p_calls w1 = p_calls w @ cs" "Arts Arts_init \<notin> set cs" "Arts Arts_free \<notin> set cs" by blast
  from c obtain cs' where "p_calls w2 = p_calls w1 @ cs'" "Arts Arts_init \<notin> set cs'"
    "Arts Arts_free \<in> set cs' \<longleftrightarrow> p_arts_open_count w1 = 1" by blast
  with cs o c show ?thesis by (intro conjI exI [of _ "cs @ cs'"]) simp_all
qed

text \<open>One stream plays; the second is not allowed, and takes the server away from the first.\<close>

theorem arts_failed_open_disconnects_witness:
  "\<exists>w1 d2 w2. ao_arts_open (build_arts live_builds) arts_ready stereo_format (idle_world\<lparr>p_arts_open_count := 1\<rparr>) =
       Some (False, arts_ready, stereo_format, w1) \<and>
     ao_arts_close arts_ready w1 = Some (True, d2, w2) \<and>
     p_arts_open_count w2 = 0 \<and> Arts Arts_init \<notin> set (p_calls w2) \<and> Arts Arts_free \<in> set (p_calls w2)"
proof -
  let ?w = "idle_world\<lparr>p_arts_open_count := 1\<rparr>"
  obtain w1 where o: "ao_arts_open (build_arts live_builds) arts_ready stereo_format ?w =
      Some (False, arts_ready, stereo_format, w1)" "\<not> p_arts_mutex w1" "p_arts_open_count w1 = 1"
    by (simp add: ao_arts_open_def arts_ready_facts arts_lock_def arts_connect_def arts_unlock_def server_worlds)
  obtain d2 w2 where c: "ao_arts_close arts_ready w1 = Some (True, d2, w2)"
    using o(2,3) arts_ready_facts(1)
    by (simp add: ao_arts_close_def arts_lock_def arts_count_def arts_unlock_def c_int_def INT_MIN_def INT_MAX_def
        ask_ret_def ask_def split_beta)
  have w: "p_arts_open_count ?w = 1" "p_calls ?w = []" by (simp_all add: server_worlds)
  from arts_failed_open_disconnects [OF _ o(1) c] w have "p_arts_open_count w2 = 0"
    "\<exists>cs. p_calls w2 = cs \<and> Arts Arts_init \<notin> set cs \<and> Arts Arts_free \<in> set cs" by simp_all
  with o(1) c show ?thesis by blast
qed

text \<open>
  Testing for aRts gives back the server more often than it was got: twice when nothing plays,
  and once when something does, for which it was not got at all.
\<close>

theorem arts_test_frees:
  assumes "ao_arts_test b w = Some (True, w')"
  shows "p_calls w' = p_calls w @ (if p_arts_open_count w = 0 then [Arts Arts_init] else []) @
      (if HAVE_ARTS_SUSPENDED b then [Arts Arts_suspended] else []) @
      (if p_arts_open_count w = 0 then [Arts Arts_free] else []) @ [Arts Arts_free] \<and>
    p_arts_open_count w' = p_arts_open_count w"
  using assms
  by (auto simp: ao_arts_test_def arts_lock_def arts_unlock_def arts_leave_def arts_count_def ask_ret_def ask_def Let_def
      c_int_Some_iff split: Option.bind_splits if_splits)

theorem arts_test_frees_witness:
  "\<exists>w'. ao_arts_test (build_arts live_builds) idle_world = Some (True, w') \<and>
    p_calls w' = [Arts Arts_init, Arts Arts_suspended, Arts Arts_free, Arts Arts_free]"
proof -
  obtain w' where t: "ao_arts_test (build_arts live_builds) idle_world = Some (True, w')"
    by (simp add: ao_arts_test_def arts_lock_def arts_count_def live_builds_def ask_ret_def ask_def Let_def
        c_int_def INT_MIN_def INT_MAX_def server_worlds)
  from arts_test_frees [OF this] t show ?thesis by (simp add: server_worlds live_builds_def)
qed


section \<open>NAS\<close>

text \<open>
  C19.  \<open>play\<close> of NAS keeps to the room it was told of.  Whatever events come and however long it
  waits: no write is longer than the room that is left of the last event (\<open>nas_credit\<close> is defined),
  the writes are the samples, complete and in order, and what is left of the room is kept for the
  next call.
\<close>

theorem nas_play_within_room:
  assumes "nas_state d = Some i" and "ao_nas_play h d samples n w = Some (r, d', w')"
  shows "r \<and> (\<exists>cs j. p_calls w' = p_calls w @ cs \<and> nas_written cs = take (unat n) samples \<and> nas_state d' = Some j \<and>
    nas_credit h (p_answer w) (p_calls w) (unat (nas_buf_free i)) cs = Some (unat (nas_buf_free j)))"
proof -
  from assms obtain free where l: "nas_play_loop h i samples n (nas_buf_free i) w = Some (free, w')" "r"
    "d' = set_nas (i\<lparr>nas_buf_free := free\<rparr>) d"
    by (auto simp: ao_nas_play_def split: Option.bind_splits)
  from nas_play_loop_ran [OF l(1)] obtain cs where
    "p_calls w' = p_calls w @ cs" "nas_credit h (p_answer w) (p_calls w) (unat (nas_buf_free i)) cs = Some (unat free)"
    "nas_written cs = take (unat n) samples" by (auto simp: nas_ran_def)
  with l show ?thesis by (intro conjI exI [of _ cs] exI [of _ "i\<lparr>nas_buf_free := free\<rparr>"]) simp_all
qed

definition nas_ready :: live_device where
  "nas_ready = set_nas \<lparr>nas_aud = Some 1, nas_flow = Some 1, nas_dev = Some 9, nas_host = None, nas_buf_size = 4096,
     nas_buf_free = 0\<rparr>
     (fresh_device 9 (ao_nas (build_nas live_builds) :: (plugin_internal ao_internal, posix) ao_functions) stereo_format None False)"

text \<open>A server that tells of three bytes of room, with every other event.\<close>

definition drip_answer :: "call list \<Rightarrow> call \<Rightarrow> reply" where
  "drip_answer h c = (number_reply 1 0 0)\<lparr>rp_event :=
     if even (length h) then Au_other_event else Au_element_notify 1 0 0 3\<rparr>"

lemma nas_ready_state:
  "nas_state nas_ready = Some \<lparr>nas_aud = Some 1, nas_flow = Some 1, nas_dev = Some 9, nas_host = None,
     nas_buf_size = 4096, nas_buf_free = 0\<rparr>"
  by (simp add: nas_ready_def plugin_state_iff)

lemma drip_lively: "nas_lively (build_nas live_builds) drip_answer aud"
proof -
  have "nas_room (build_nas live_builds) (rp_event (drip_answer (past @ replicate j c) c)) \<noteq> 0"
    if "odd (length past + j)" for past j c
    using that by (simp add: drip_answer_def nas_room_def live_builds_def)
  then have "\<exists>j \<le> 1. nas_room (build_nas live_builds) (rp_event (drip_answer (past @ replicate j c) c)) \<noteq> 0" for past c
    by (cases "even (length past)") (metis add.commute add_0 even_plus_one_iff le_numeral_extra(4) plus_1_eq_Suc even_Suc,
        metis add.right_neutral zero_le)
  then show ?thesis unfolding nas_lively_def by blast
qed

text \<open>
  C21.  \<open>play\<close> of NAS returns, as long as the server tells of room again and again: in any history,
  after a bounded number of other events.
\<close>

theorem nas_play_returns:
  assumes "nas_state d = Some i" and "nas_aud i = Some aud" and "nas_flow i = Some flow"
    and "nas_lively h (p_answer w) aud" and "unat n \<le> length samples"
  shows "\<exists>d' w'. ao_nas_play h d samples n w = Some (True, d', w')"
proof -
  obtain free v where "nas_play_loop h i samples n (nas_buf_free i) w = Some (free, v)"
    using nas_play_loop_returns [OF assms(2-5), of "nas_buf_free i"] by auto
  with assms(1) show ?thesis by (simp add: ao_nas_play_def)
qed

theorem nas_play_returns_witness:
  "\<exists>d' w'. ao_nas_play (build_nas live_builds) nas_ready [1, 2, 3, 4, 5] 5 (demo_posix drip_answer []) = Some (True, d', w')"
proof (rule nas_play_returns [OF nas_ready_state])
  show "nas_lively (build_nas live_builds) (p_answer (demo_posix drip_answer [])) 1"
    by (simp add: demo_posix_def drip_lively)
qed simp_all

theorem nas_play_within_room_witness:
  "\<exists>r d' w'. ao_nas_play (build_nas live_builds) nas_ready [1, 2, 3, 4, 5] 5 (demo_posix drip_answer []) = Some (r, d', w') \<and>
    p_calls w' = [Nas (Au_next_event 1), Nas (Au_next_event 1), Nas (Au_write_element 1 1 [1, 2, 3]),
      Nas (Au_next_event 1), Nas (Au_write_element 1 1 [4, 5])] \<and>
    nas_written (p_calls w') = [1, 2, 3, 4, 5] \<and>
    (\<exists>k. nas_credit (build_nas live_builds) drip_answer [] 0 (p_calls w') = Some k)"
proof -
  let ?cs = "[Nas (Au_next_event 1), Nas (Au_next_event 1), Nas (Au_write_element 1 1 [1, 2, 3]),
      Nas (Au_next_event 1), Nas (Au_write_element 1 1 [4, 5])]"
  let ?w = "demo_posix drip_answer []"
  have "case ao_nas_play (build_nas live_builds) nas_ready [1, 2, 3, 4, 5] 5 ?w of
      Some (r, d', w') \<Rightarrow> p_calls w' = ?cs | None \<Rightarrow> False" by code_simp
  then obtain r d' w' where p: "ao_nas_play (build_nas live_builds) nas_ready [1, 2, 3, 4, 5] 5 ?w = Some (r, d', w')"
    "p_calls w' = ?cs" by (auto split: option.splits prod.splits)
  have w: "p_calls ?w = []" "p_answer ?w = drip_answer" by (simp_all add: demo_posix_def)
  from nas_play_within_room [OF nas_ready_state p(1)] have "nas_written (p_calls w') = [1, 2, 3, 4, 5]"
    "\<exists>k. nas_credit (build_nas live_builds) drip_answer [] 0 (p_calls w') = Some k"
    unfolding w by auto
  with p show ?thesis by blast
qed

text \<open>
  C40.  A failed open of NAS leaves a server that is closed: when no output fits or no flow can be
  had, \<open>open\<close> closes the server and keeps it, and the \<open>close\<close> that follows stops a flow on it and
  closes it again; when no flow was asked for, it reads one that was never set.
\<close>

theorem nas_failed_open_closes_twice:
  assumes "nas_state d = Some i0" and "nas_aud i0 = None" and "nas_flow i0 = None"
    and "ao_nas_open h d format w = Some (False, d1, format1, w1)"
    and "nas_state d1 = Some i" and "nas_aud i = Some aud" and "aud \<noteq> 0"
  shows "last (p_calls w1) = Nas (Au_close_server aud) \<and>
    (case nas_flow i of
       None \<Rightarrow> ao_nas_close d1 w1 = None
     | Some flow \<Rightarrow> \<exists>w2. ao_nas_close d1 w1 = Some (True, d1, w2) \<and>
         p_calls w2 = p_calls w1 @ [Nas (Au_stop_flow aud flow), Nas (Au_close_server aud)])"
proof -
  have "last (p_calls w1) = Nas (Au_close_server aud)"
    using assms
    by (auto simp: ao_nas_open_def nas_find_output_def Let_def split: option.splits Option.bind_splits if_splits prod.splits)
  moreover have "case nas_flow i of
       None \<Rightarrow> ao_nas_close d1 w1 = None
     | Some flow \<Rightarrow> \<exists>w2. ao_nas_close d1 w1 = Some (True, d1, w2) \<and>
         p_calls w2 = p_calls w1 @ [Nas (Au_stop_flow aud flow), Nas (Au_close_server aud)]"
    using assms(5-7) by (auto simp: ao_nas_close_def split: option.split)
  ultimately show ?thesis by blast
qed


definition nas_fresh :: live_device where
  "nas_fresh = set_nas \<lparr>nas_aud = None, nas_flow = None, nas_dev = None, nas_host = None, nas_buf_size = 4096,
     nas_buf_free = 0\<rparr>
     (fresh_device 9 (ao_nas (build_nas live_builds) :: (plugin_internal ao_internal, posix) ao_functions) stereo_format None False)"

text \<open>A server without a stereo output would leave the flow unset; this one gives no flow.\<close>

theorem nas_failed_open_closes_twice_witness:
  "\<exists>d1 f1 w1 w2. ao_nas_open (build_nas live_builds) nas_fresh stereo_format
      (demo_posix (\<lambda>h c. number_reply (if h = [] then 7 else 0) 0 0) []) = Some (False, d1, f1, w1) \<and>
    p_calls w1 = [Nas (Au_open_server None), Nas (Au_create_flow 7), Nas (Au_close_server 7)] \<and>
    ao_nas_close d1 w1 = Some (True, d1, w2) \<and>
    p_calls w2 = p_calls w1 @ [Nas (Au_stop_flow 7 0), Nas (Au_close_server 7)]"
proof -
  let ?w = "demo_posix (\<lambda>h c. number_reply (if h = [] then 7 else 0) 0 0) []"
  have "case ao_nas_open (build_nas live_builds) nas_fresh stereo_format ?w of
      Some (r, d1, f1, w1) \<Rightarrow> \<not> r \<and>
        p_calls w1 = [Nas (Au_open_server None), Nas (Au_create_flow 7), Nas (Au_close_server 7)] \<and>
        (case nas_state d1 of None \<Rightarrow> False | Some i \<Rightarrow> nas_aud i = Some 7 \<and> nas_flow i = Some 0)
    | None \<Rightarrow> False" by code_simp
  then obtain d1 f1 w1 i where o: "ao_nas_open (build_nas live_builds) nas_fresh stereo_format ?w = Some (False, d1, f1, w1)"
    "p_calls w1 = [Nas (Au_open_server None), Nas (Au_create_flow 7), Nas (Au_close_server 7)]"
    "nas_state d1 = Some i" "nas_aud i = Some 7" "nas_flow i = Some 0"
    by (auto split: option.splits prod.splits)
  have "nas_state nas_fresh = Some \<lparr>nas_aud = None, nas_flow = None, nas_dev = None, nas_host = None,
      nas_buf_size = 4096, nas_buf_free = 0\<rparr>"
    by (simp add: nas_fresh_def plugin_state_iff)
  from nas_failed_open_closes_twice [OF this _ _ o(1,3,4)] o show ?thesis by auto
qed

section \<open>IRIX\<close>

text \<open>
  24 bits on IRIX.  The library's samples of 24 bits have three bytes each; the driver counts
  four.  Of \<open>n\<close> frames, three quarters are written, from the beginning of the same bytes, and \<open>play\<close>
  reports success.
\<close>

theorem irix_packed_24:
  assumes "ao_irix_open h d format w = Some (True, d1, format1, w1)" and "fmt_bits format = 24"
    and "output_channels d = int c" and "0 < c" and "0 < n" and "3 * c * n < 2 ^ 32" and "length samples = 3 * c * n"
  shows "\<exists>port w2. ao_irix_play d1 samples (of_nat (3 * c * n)) w1 = Some (True, d1, w2) \<and>
    p_calls w2 = p_calls w1 @ [Irix (Al_write_frames port (take (4 * c * (3 * n div 4)) samples) (of_nat (3 * n div 4)))]"
proof -
  from assms(1,2) obtain i where i: "irix_state d1 = Some i" "irix_bytesPerSample i = 4" "irix_channels i = output_channels d"
    by (auto simp: ao_irix_open_def irix_setup_def irix_width_def Let_def plugin_state_iff
        split: Option.bind_splits if_splits prod.splits dest!: stereo_matrix_law)
  have le: "c \<le> 3 * c * n" using assms(5) by (cases n) simp_all
  have small: "c < 2 ^ LENGTH(32)" "3 * c * n < 2 ^ LENGTH(32)"
    using le_less_trans [OF le assms(6)] assms(6) by simp_all
  have c: "unat (of_nat c :: 32 word) = c" using small(1) by (simp add: unat_of_nat)
  define nb where "nb = (of_nat (3 * c * n) :: 32 word)"
  have bytes: "unat nb = 3 * c * n" unfolding nb_def using small(2) by (subst unat_of_nat) simp
  have pos: "(of_nat c :: 32 word) \<noteq> 0" using c assms(4) by (metis unat_0 less_irrefl)
  let ?f = "nb div (4 :: 32 word) div of_nat c"
  have "unat ?f = 3 * c * n div 4 div c" using c bytes by (simp add: unat_div)
  also have "\<dots> = 3 * n div 4" using assms(4) by (simp add: div_mult2_eq [symmetric] mult.commute [of 4] flip: mult.assoc)
  finally have f: "unat ?f = 3 * n div 4" .
  have fw: "?f = of_nat (3 * n div 4)" unfolding f [symmetric] of_nat_unat by simp
  have "3 * n div 4 * c * 4 \<le> 3 * c * n"
  proof -
    have "3 * n div 4 * 4 \<le> 3 * n" by simp
    then have "3 * n div 4 * 4 * c \<le> 3 * n * c" by (rule mult_le_mono1)
    then show ?thesis by (simp add: mult.commute mult.left_commute)
  qed
  then have ld: "load (3 * n div 4 * c * 4) samples 0 = Some (take (4 * c * (3 * n div 4)) samples)"
    using assms(7) load_nat [of 0 "3 * n div 4 * c * 4" samples] by (simp add: ac_simps)
  have "ao_irix_play d1 samples nb w1 = Some (True, d1, snd (ask_ret (Irix (Al_write_frames (irix_alport i)
      (take (4 * c * (3 * n div 4)) samples) (of_nat (3 * n div 4)))) w1))"
    using i assms(3) pos c f [unfolded fw] ld by (simp add: ao_irix_play_def Let_def fw)
  then show ?thesis unfolding nb_def by (intro exI [of _ "irix_alport i"]) simp
qed


definition irix_fresh :: live_device where
  "irix_fresh = (set_irix \<lparr>irix_alport = 0, irix_alconfig = 1, irix_bytesPerSample = 2, irix_channels = 2\<rparr>
     (fresh_device 10 (ao_irix (build_irix live_builds) :: (plugin_internal ao_internal, posix) ao_functions) stereo_format None False))
     \<lparr>inter_matrix := Some ''L,R''\<rparr>"

theorem irix_packed_24_witness:
  "\<exists>d1 f1 w1 port w2. ao_irix_open (build_irix live_builds) irix_fresh (stereo_format\<lparr>fmt_bits := 24\<rparr>)
      (demo_posix (\<lambda>h c. number_reply 1 0 0) []) = Some (True, d1, f1, w1) \<and>
    ao_irix_play d1 (replicate 24 7) 24 w1 = Some (True, d1, w2) \<and>
    p_calls w2 = p_calls w1 @ [Irix (Al_write_frames port (replicate 24 7) 3)]"
proof -
  let ?w = "demo_posix (\<lambda>h c. number_reply 1 0 0) []"
  have "case ao_irix_open (build_irix live_builds) irix_fresh (stereo_format\<lparr>fmt_bits := 24\<rparr>) ?w of
      Some (r, d1, f1, w1) \<Rightarrow> r | None \<Rightarrow> False" by code_simp
  then obtain d1 f1 w1 where o:
    "ao_irix_open (build_irix live_builds) irix_fresh (stereo_format\<lparr>fmt_bits := 24\<rparr>) ?w = Some (True, d1, f1, w1)"
    by (auto split: option.splits prod.splits)
  have "output_channels irix_fresh = int 2" by (simp add: irix_fresh_def fresh_device_def stereo_format_def)
  from irix_packed_24 [OF o _ this, of 4 "(replicate 24 7)"] o show ?thesis
    by (fastforce simp: stereo_format_def)
qed


section \<open>PulseAudio\<close>

text \<open>A system whose sleeps are never interrupted.\<close>

definition sound_sleep :: "(call list \<Rightarrow> call \<Rightarrow> reply) \<Rightarrow> bool" where
  "sound_sleep ans \<longleftrightarrow> (\<forall>h sec nsec. rp_ret (ans h (Nanosleep sec nsec)) < 0 \<longrightarrow> rp_errno (ans h (Nanosleep sec nsec)) \<noteq> EINTR)"

lemma pulse_sleep_once: "sound_sleep (p_answer w) \<Longrightarrow> pulse_sleep sec nsec w = Some (snd (ask (Nanosleep sec nsec) w))"
  by (subst pulse_sleep.simps) (auto simp: sound_sleep_def ask_def Let_def)

text \<open>What the stages of \<open>close\<close> come to when the latency is a sensible one.\<close>

lemma uint_small_int: "0 \<le> l \<Longrightarrow> l \<le> 18446744073709551615 \<Longrightarrow> uint (word_of_int l :: 64 word) = l"
  by (simp add: uint_word_of_int)

lemma pulse_close_calls:
  assumes "pulse_state d = Some i" and "pulse_simple i \<noteq> 0" and "sound_sleep (p_answer w)"
    and "word_of_int (rp_ret (p_answer w (p_calls w) (Pulse (Pa_simple_get_latency (pulse_simple i))))) = us"
    and "pulse_timespec (us - pulse_static_delay i) = (sec, nsec)"
  shows "\<exists>w'. ao_pulse_close d w = Some (True, set_pulse (i\<lparr>pulse_simple := 0\<rparr>) d, w') \<and>
    p_calls w' = p_calls w @ [Pulse (Pa_simple_get_latency (pulse_simple i))] @
      (if us > 1000000 then [Pulse (Pa_simple_drain (pulse_simple i))]
       else if us = pulse_static_delay i then [] else [Nanosleep sec nsec]) @ [Pulse (Pa_simple_free (pulse_simple i))]"
proof -
  obtain r w1 where w1: "ask_ret (Pulse (Pa_simple_get_latency (pulse_simple i))) w = (r, w1)" "word_of_int r = us"
    "p_calls w1 = p_calls w @ [Pulse (Pa_simple_get_latency (pulse_simple i))]" "p_answer w1 = p_answer w"
    using assms(4) by (simp add: ask_ret_def ask_def Let_def)
  have pos: "us - pulse_static_delay i > 0 \<longleftrightarrow> us \<noteq> pulse_static_delay i"
    by (metis eq_iff_diff_eq_0 word_gt_0)
  obtain v where v: "pulse_wait i us w1 = Some v" "p_calls v = p_calls w1 @
      (if us > 1000000 then [Pulse (Pa_simple_drain (pulse_simple i))]
       else if us = pulse_static_delay i then [] else [Nanosleep sec nsec])"
  proof -
    consider "us > 1000000" | "\<not> us > 1000000" "us = pulse_static_delay i" | "\<not> us > 1000000" "us \<noteq> pulse_static_delay i"
      by blast
    then show ?thesis
    proof cases
      case 1
      then have "pulse_wait i us w1 = Some (snd (ask_ret (Pulse (Pa_simple_drain (pulse_simple i))) w1))"
        by (simp add: pulse_wait_def)
      then show ?thesis by (rule that) (use 1 in \<open>simp add: one_more_call\<close>)
    next
      case 2
      then have "pulse_wait i us w1 = Some w1" using pos by (simp only: pulse_wait_def Let_def if_False simp_thms)
      then show ?thesis by (rule that) (use 2 in simp)
    next
      case 3
      then have "pulse_wait i us w1 = pulse_sleep sec nsec w1"
        using pos assms(5) by (simp only: pulse_wait_def Let_def if_False if_True simp_thms prod.case)
      also have "\<dots> = Some (snd (ask (Nanosleep sec nsec) w1))" using assms(3) w1(4) by (simp add: pulse_sleep_once)
      finally show ?thesis by (rule that) (use 3 in \<open>simp add: one_more_call\<close>)
    qed
  qed
  have "ao_pulse_close d w = Some (True, set_pulse (i\<lparr>pulse_simple := 0\<rparr>) d,
      snd (ask_ret (Pulse (Pa_simple_free (pulse_simple i))) v))"
    using assms(1,2) w1(1,2) v(1) by (simp add: ao_pulse_close_def)
  moreover have "p_calls (snd (ask_ret (Pulse (Pa_simple_free (pulse_simple i))) v)) =
      p_calls v @ [Pulse (Pa_simple_free (pulse_simple i))]" by (rule one_more_call)
  ultimately show ?thesis unfolding v(2) w1(3) append_assoc by blast
qed

text \<open>
  C22.  How \<open>close\<close> of PulseAudio waits, for every latency \<open>l\<close> the server answers (an unsigned 64-bit
  number), when a sleep is not interrupted.  Above a second it drains the stream; at the latency of
  the opening it does not wait; above that it sleeps, to the nanosecond, for the difference.  Below it
  the difference wraps, and \<open>close\<close> asks for a sleep of negative seconds and more than a second of
  nanoseconds, together the negative difference (the latency of the opening being at most a second).
  It then gives the stream back.
\<close>

theorem pulse_close_waits:
  assumes "pulse_state d = Some i" and "pulse_simple i \<noteq> 0" and "sound_sleep (p_answer w)"
    and "uint (word_of_int (rp_ret (p_answer w (p_calls w) (Pulse (Pa_simple_get_latency (pulse_simple i))))) :: 64 word) = l"
  shows "\<exists>d' w' cs. ao_pulse_close d w = Some (True, d', w') \<and> pulse_state d' = Some (i\<lparr>pulse_simple := 0\<rparr>) \<and>
    p_calls w' = p_calls w @ [Pulse (Pa_simple_get_latency (pulse_simple i))] @ cs @ [Pulse (Pa_simple_free (pulse_simple i))] \<and>
    (if 1000000 < l then cs = [Pulse (Pa_simple_drain (pulse_simple i))]
     else if l = uint (pulse_static_delay i) then cs = []
     else \<exists>sec nsec. cs = [Nanosleep sec nsec] \<and>
       (if uint (pulse_static_delay i) < l
        then sec * 1000000000 + nsec = (l - uint (pulse_static_delay i)) * 1000 \<and> 0 \<le> sec \<and> 0 \<le> nsec \<and> nsec < 1000000000
        else uint (pulse_static_delay i) \<le> 1000000 \<longrightarrow>
          sec * 1000000000 + nsec = (l - uint (pulse_static_delay i)) * 1000 \<and> sec < 0 \<and> 1000000000 \<le> nsec))"
proof -
  let ?D = "pulse_static_delay i"
  define us :: "64 word" where "us = word_of_int (rp_ret (p_answer w (p_calls w) (Pulse (Pa_simple_get_latency (pulse_simple i)))))"
  have us: "uint us = l" using assms(4) by (simp add: us_def)
  obtain sec nsec where t: "pulse_timespec (us - ?D) = (sec, nsec)" by fastforce
  have eqs: "us > 1000000 \<longleftrightarrow> 1000000 < l" "us = ?D \<longleftrightarrow> l = uint ?D"
    using us by (auto simp: word_less_def word_uint_eq_iff)
  have up: "sec * 1000000000 + nsec = (l - uint ?D) * 1000 \<and> 0 \<le> sec \<and> 0 \<le> nsec \<and> nsec < 1000000000"
    if "uint ?D < l" "l \<le> 1000000"
  proof -
    have "uint (us - ?D) = l - uint ?D" using uint_sub_lem [of ?D us] us that(1) by simp
    moreover have "l - uint ?D \<le> 1000000" using that(2) uint_ge_0 [of ?D] by linarith
    ultimately have "us - ?D \<le> 1000000" "uint (us - ?D) = l - uint ?D" by (simp_all add: word_le_def)
    then show ?thesis using pulse_timespec_exact [OF _ t] by simp
  qed
  have down: "sec * 1000000000 + nsec = (l - uint ?D) * 1000 \<and> sec < 0 \<and> 1000000000 \<le> nsec"
    if "l < uint ?D" "uint ?D \<le> 1000000"
  proof -
    let ?k = "?D - us"
    have k: "uint ?k = uint ?D - l" using uint_sub_lem [of us ?D] us that(1) by simp
    moreover have "0 < uint ?D - l" "uint ?D - l \<le> 1000000" using that uint_ge_0 [of us] us by linarith+
    ultimately have "?k \<noteq> 0" "?k \<le> 1000000" by (auto simp: word_le_def)
    from pulse_timespec_wrapped [OF this, of sec nsec] t k show ?thesis by simp
  qed
  obtain w' where c: "ao_pulse_close d w = Some (True, set_pulse (i\<lparr>pulse_simple := 0\<rparr>) d, w')"
    "p_calls w' = p_calls w @ [Pulse (Pa_simple_get_latency (pulse_simple i))] @
      (if 1000000 < l then [Pulse (Pa_simple_drain (pulse_simple i))]
       else if l = uint ?D then [] else [Nanosleep sec nsec]) @ [Pulse (Pa_simple_free (pulse_simple i))]"
    using pulse_close_calls [OF assms(1-3) us_def [symmetric] t] unfolding eqs by blast
  have state: "pulse_state (set_pulse (i\<lparr>pulse_simple := 0\<rparr>) d) = Some (i\<lparr>pulse_simple := 0\<rparr>)"
    by (simp add: plugin_state_iff)
  let ?cs = "if 1000000 < l then [Pulse (Pa_simple_drain (pulse_simple i))]
       else if l = uint ?D then [] else [Nanosleep sec nsec]"
  let ?waits = "\<lambda>cs. if 1000000 < l then cs = [Pulse (Pa_simple_drain (pulse_simple i))]
     else if l = uint ?D then cs = []
     else \<exists>sec nsec. cs = [Nanosleep sec nsec] \<and>
       (if uint ?D < l then sec * 1000000000 + nsec = (l - uint ?D) * 1000 \<and> 0 \<le> sec \<and> 0 \<le> nsec \<and> nsec < 1000000000
        else uint ?D \<le> 1000000 \<longrightarrow> sec * 1000000000 + nsec = (l - uint ?D) * 1000 \<and> sec < 0 \<and> 1000000000 \<le> nsec)"
  have "?waits ?cs"
  proof (cases "1000000 < l \<or> l = uint ?D")
    case False
    then show ?thesis using up down by (cases "uint ?D < l") (simp_all del: uint_ge_0)
  qed auto
  with c state show ?thesis by blast
qed

definition pulse_ready :: "64 word \<Rightarrow> live_device" where
  "pulse_ready delay = set_pulse \<lparr>pulse_simple = 1, pulse_server = None, pulse_sink = None, pulse_client_name = None,
     pulse_static_delay = delay, pulse_buffer_time = AO_PULSE_BUFFER_TIME\<rparr>
     (fresh_device 11 (ao_pulse (build_pulse live_builds) :: (plugin_internal ao_internal, posix) ao_functions) stereo_format None False)"

text \<open>A server that is always 20 milliseconds behind.\<close>

definition late_world :: posix where
  "late_world = demo_posix (\<lambda>h c. number_reply (case c of Pulse (Pa_simple_get_latency s) \<Rightarrow> 20000 | Nanosleep s n \<Rightarrow> if s < 0 then -1 else 0 | _ \<Rightarrow> 1) 0 EINVAL) []"

lemma late_world_facts:
  "pulse_state (pulse_ready delay) = Some \<lparr>pulse_simple = 1, pulse_server = None, pulse_sink = None, pulse_client_name = None,
     pulse_static_delay = delay, pulse_buffer_time = AO_PULSE_BUFFER_TIME\<rparr>"
  "sound_sleep (p_answer late_world)" "p_calls late_world = []"
  "rp_ret (p_answer late_world h (Pulse (Pa_simple_get_latency s))) = 20000"
  by (simp_all add: pulse_ready_def plugin_state_iff late_world_def demo_posix_def sound_sleep_def posix_errnos)

text \<open>With 5 milliseconds at the opening it sleeps for 15; with 25 it asks for -5.\<close>

theorem pulse_close_waits_witness:
  "(\<exists>d' w' sec nsec. ao_pulse_close (pulse_ready 5000) late_world = Some (True, d', w') \<and>
    p_calls w' = [Pulse (Pa_simple_get_latency 1), Nanosleep sec nsec, Pulse (Pa_simple_free 1)] \<and>
    sec * 1000000000 + nsec = 15000000 \<and> 0 \<le> sec \<and> 0 \<le> nsec \<and> nsec < 1000000000) \<and>
   (\<exists>d' w' sec nsec. ao_pulse_close (pulse_ready 25000) late_world = Some (True, d', w') \<and>
    p_calls w' = [Pulse (Pa_simple_get_latency 1), Nanosleep sec nsec, Pulse (Pa_simple_free 1)] \<and>
    sec * 1000000000 + nsec = -5000000 \<and> sec < 0)"
proof -
  have l: "uint (word_of_int (rp_ret (p_answer late_world (p_calls late_world)
      (Pulse (Pa_simple_get_latency 1)))) :: 64 word) = 20000"
    unfolding late_world_facts(4) by simp
  show ?thesis
    using pulse_close_waits [OF late_world_facts(1) [of 5000] _ late_world_facts(2), of 20000]
      pulse_close_waits [OF late_world_facts(1) [of 25000] _ late_world_facts(2), of 20000] l
    by (auto simp: late_world_facts(3))
qed

section \<open>The size of the buffer of PulseAudio\<close>

lemma tlength_product:
  assumes "q = 20000 * r \<or> q = 20000 * r - 4294967296"
  shows "(ucast (20000 * word_of_int r :: 64 word) :: 32 word) = word_of_int q"
proof -
  have "(20000 * word_of_int r :: 64 word) = word_of_int (20000 * r)" by simp
  also have "(ucast \<dots> :: 32 word) = word_of_int (20000 * r)"
    by (rule bit_word_eqI) (simp add: bit_simps del: of_int_mult flip: bit_word_of_int_iff)
  also have "\<dots> = word_of_int q" unfolding word_of_int_eq_iff using assms by (auto simp: take_bit_eq_mod)
  finally show ?thesis .
qed

lemma sdiv_million:
  assumes "-2147483648 \<le> q" "q < 2147483648"
  shows "\<bar>q sdiv 1000000\<bar> \<le> 2147" "0 \<le> q \<Longrightarrow> q sdiv 1000000 = q div 1000000" "q \<le> - 1000000 \<Longrightarrow> q sdiv 1000000 < (0::int)"
    "q < 0 \<Longrightarrow> q sdiv 1000000 = - (- q div 1000000)"
proof -
  have neg: "q sdiv 1000000 = - (- q div 1000000)" if "q < 0" using that by (simp add: signed_divide_int_def)
  have pos: "q sdiv 1000000 = q div 1000000" if "0 \<le> q" using that by (cases "q = 0") (simp_all add: signed_divide_int_def)
  show "\<bar>q sdiv 1000000\<bar> \<le> 2147" 
  proof (cases "q < 0")
    case True
    have "0 \<le> - q div 1000000" "- q div 1000000 \<le> 2147483648 div 1000000"
      using True assms(1) by (auto intro!: zdiv_mono1 pos_imp_zdiv_nonneg_iff [THEN iffD2])
    then show ?thesis unfolding neg [OF True] by simp
  next
    case False
    have "0 \<le> q div 1000000" "q div 1000000 \<le> 2147483648 div 1000000"
      using False assms(2) by (auto intro!: zdiv_mono1 pos_imp_zdiv_nonneg_iff [THEN iffD2])
    then show ?thesis using pos False by simp
  qed
  show "q < 0 \<Longrightarrow> q sdiv 1000000 = - (- q div 1000000)" by (rule neg)
  show "0 \<le> q \<Longrightarrow> q sdiv 1000000 = q div 1000000" by (rule pos)
  show "q sdiv 1000000 < 0" if "q \<le> - 1000000"
  proof -
    have "1000000 div 1000000 \<le> - q div 1000000" using that by (intro zdiv_mono1) simp_all
    then show ?thesis using neg that by simp
  qed
qed

lemma c_int_small: "\<bar>x\<bar> \<le> 1000000 \<Longrightarrow> c_int x = Some x"
  unfolding c_int_def INT_MIN_def INT_MAX_def by (simp add: abs_le_iff)

lemma times_bounds: "\<bar>x\<bar> \<le> a \<Longrightarrow> \<bar>y\<bar> \<le> (b::int) \<Longrightarrow> \<bar>x * y\<bar> \<le> a * b"
  by (simp add: abs_mult mult_mono')

lemma bytes_up: "b \<in> {8, 16, 24} \<Longrightarrow> (b + 7) sdiv 8 = b div 8 \<and> b div 8 \<in> {1, 2, 3::int}" 
  by (auto simp: signed_divide_int_def)

lemma uint32_small: "0 \<le> n \<Longrightarrow> n \<le> 1000000 \<Longrightarrow> uint (word_of_int n :: 32 word) = n"
  by (simp add: uint_word_of_int)

lemma uint32_negative: "n < 0 \<Longrightarrow> - 1000000 \<le> n \<Longrightarrow> uint (word_of_int n :: 32 word) = 2 ^ 32 + n"
  using mod_pos_pos_trivial [of "n + 4294967296" "4294967296"] by (simp add: uint_word_of_int)

text \<open>
  C23.  The size of the PulseAudio buffer, for the default of 20 milliseconds, the formats of the driver
  and rates up to 192000.  As long as the rate is at most 107374 it is the bytes of the frames of that
  time.  From there on the product of time and rate no longer fits an \<open>int\<close>: the size asked for is
  \<open>2 ^ 32\<close> less the bytes of the frames of what the product is short of \<open>2 ^ 32\<close>, more than four
  billion bytes.
\<close>

theorem pulse_buffer_size:
  assumes "pulse_buffer_time i = AO_PULSE_BUFFER_TIME" and "fmt_bits format \<in> {8, 16, 24}"
    and "0 < channels" and "channels \<le> 32" and "0 < fmt_rate format" and "fmt_rate format \<le> 192000"
  shows "\<exists>size. pulse_tlength i channels format = Some size \<and>
    (if fmt_rate format \<le> 107374
     then uint size = 20000 * fmt_rate format div 1000000 * (fmt_bits format div 8) * channels
     else uint size = 2 ^ 32 - (2 ^ 32 - 20000 * fmt_rate format) div 1000000 * (fmt_bits format div 8) * channels \<and>
       4294000000 < uint size)"
proof -
  let ?r = "fmt_rate format" and ?b = "fmt_bits format"
  define q where "q = (if ?r \<le> 107374 then 20000 * ?r else 20000 * ?r - 4294967296)"
  have q: "-2147483648 \<le> q" "q < 2147483648" using assms(5,6) by (auto simp: q_def)
  have "(ucast (pulse_buffer_time i * word_of_int ?r) :: 32 word) = word_of_int q"
    unfolding assms(1) AO_PULSE_BUFFER_TIME_def by (rule tlength_product) (simp add: q_def)
  then have p: "sint (ucast (pulse_buffer_time i * word_of_int ?r) :: 32 word) = q" using sint32_of_int [OF q] by simp
  define n where "n = q sdiv 1000000"
  have n: "\<bar>n\<bar> \<le> 2147" "?r \<le> 107374 \<Longrightarrow> n = 20000 * ?r div 1000000"
    "107374 < ?r \<Longrightarrow> n = - ((2 ^ 32 - 20000 * ?r) div 1000000)" "107374 < ?r \<Longrightarrow> n < 0"
    using sdiv_million [OF q] assms(5,6) by (auto simp: n_def q_def)
  have b: "(?b + 7) sdiv 8 = ?b div 8" "?b div 8 \<in> {1, 2, 3}" using bytes_up [OF assms(2)] by auto
  have m: "\<bar>n * (?b div 8)\<bar> \<le> 6441" using times_bounds [OF n(1), of "?b div 8" 3] b(2) by auto
  have k: "\<bar>n * (?b div 8) * channels\<bar> \<le> 206112" using times_bounds [OF m, of channels 32] assms(3,4) by simp
  have "c_int (?b + 7) = Some (?b + 7)" "c_int (n * (?b div 8)) = Some (n * (?b div 8))"
    "c_int (n * (?b div 8) * channels) = Some (n * (?b div 8) * channels)"
    using assms(2) m k by (auto intro!: c_int_small simp del: mult.assoc)
  then have "pulse_tlength i channels format = Some (word_of_int (n * (?b div 8) * channels))"
    using b(1) by (simp add: pulse_tlength_def p n_def [symmetric])
  moreover have "uint (word_of_int (n * (?b div 8) * channels) :: 32 word) = (if ?r \<le> 107374
      then 20000 * ?r div 1000000 * (?b div 8) * channels
      else 2 ^ 32 - (2 ^ 32 - 20000 * ?r) div 1000000 * (?b div 8) * channels)"
  proof (cases "?r \<le> 107374")
    case True
    then have "0 \<le> n" using n(2) assms(5) by simp
    then have "0 \<le> n * (?b div 8) * channels" using b(2) assms(3) by auto
    then have "uint (word_of_int (n * (?b div 8) * channels) :: 32 word) = n * (?b div 8) * channels"
      using k by (intro uint32_small) simp_all
    then show ?thesis using n(2) [OF True] True by (simp only: if_True)
  next
    case False
    let ?m = "(2 ^ 32 - 20000 * ?r) div 1000000"
    have "n = - ?m" using n(3) False by simp
    moreover from this have "n * (?b div 8) * channels < 0" using n(4) False b(2) assms(3) by (auto simp: mult_neg_pos)
    ultimately show ?thesis using k False uint32_negative [of "n * (?b div 8) * channels"]
      by (simp del: of_int_mult)
  qed
  moreover have "4294000000 < 2 ^ 32 - (2 ^ 32 - 20000 * ?r) div 1000000 * (?b div 8) * channels" if "\<not> ?r \<le> 107374"
    using k n(3) that by simp
  ultimately show ?thesis by (auto split: if_splits)
qed

text \<open>At 192000 Hz and two channels of 16 bits: 1816 bytes less than \<open>2 ^ 32\<close>.\<close>

theorem pulse_buffer_size_witness:
  "\<exists>size. pulse_tlength \<lparr>pulse_simple = 0, pulse_server = None, pulse_sink = None, pulse_client_name = None,
     pulse_static_delay = 0, pulse_buffer_time = AO_PULSE_BUFFER_TIME\<rparr> 2 (stereo_format\<lparr>fmt_rate := 192000\<rparr>) = Some size \<and>
     uint size = 4294965480"
  using pulse_buffer_size [of "\<lparr>pulse_simple = 0, pulse_server = None, pulse_sink = None, pulse_client_name = None,
     pulse_static_delay = 0, pulse_buffer_time = AO_PULSE_BUFFER_TIME\<rparr>" "stereo_format\<lparr>fmt_rate := 192000\<rparr>" 2]
  by (auto simp: stereo_format_def)

end
