(* ===== verification/AO_Alsa_Play.thy ===== *)
theory AO_Alsa_Play
  imports AO_Alsa
begin

text \<open>
  What ALSA playback does: the widening of samples against a reference, what the device gets and
  that \<open>play\<close> returns, and the time that \<open>close\<close> sleeps.
\<close>

section \<open>Widening samples\<close>

text \<open>The \<open>k\<close>-th sample of \<open>ib\<close> bytes, at the end of \<open>ob\<close> bytes that is the more significant one.\<close>

definition widened :: "bool \<Rightarrow> nat \<Rightarrow> nat \<Rightarrow> byte list \<Rightarrow> nat \<Rightarrow> byte list" where
  "widened endianp ib ob source k =
     (let cell = take ib (drop (k * ib) source); zeros = replicate (ob - ib) 0
      in if endianp then cell @ zeros else zeros @ cell)"

text \<open>A column: the bytes at \<open>d\<close>, \<open>d + ob\<close>, ... are written, the others stay.\<close>

definition column_set :: "nat \<Rightarrow> nat \<Rightarrow> nat \<Rightarrow> (nat \<Rightarrow> byte) \<Rightarrow> byte list \<Rightarrow> byte list \<Rightarrow> bool" where
  "column_set n d ob f target t \<longleftrightarrow> length t = length target \<and> (\<forall>k < n. t ! (d + k * ob) = f k) \<and>
     (\<forall>m < length target. (\<forall>k < n. m \<noteq> d + k * ob) \<longrightarrow> t ! m = target ! m)"

lemma column_set_Suc:
  assumes "column_set n (d + ob) ob (\<lambda>k. f (Suc k)) (target[d := f 0]) t" and "0 < ob" and "d < length target"
  shows "column_set (Suc n) d ob f target t"
proof -
  have t: "length t = length target" "\<And>k. k < n \<Longrightarrow> t ! (d + ob + k * ob) = f (Suc k)"
    "\<And>m. m < length target \<Longrightarrow> (\<forall>k < n. m \<noteq> d + ob + k * ob) \<Longrightarrow> t ! m = (target[d := f 0]) ! m"
    using assms(1) by (auto simp: column_set_def)
  have 0: "t ! d = f 0" using t(3) [OF assms(3)] assms(2,3) by simp
  have step: "t ! (d + k * ob) = f k" if "k < Suc n" for k
    using that 0 t(2) [of "k - 1"] by (cases k) (auto simp: algebra_simps)
  have rest: "t ! m = target ! m" if m: "m < length target" "\<forall>k < Suc n. m \<noteq> d + k * ob" for m
  proof -
    have "\<forall>k < n. m \<noteq> d + ob + k * ob" using m(2) by (auto simp: algebra_simps dest: spec [of _ "Suc _"])
    moreover have "m \<noteq> d" using m(2) by auto
    ultimately show ?thesis using t(3) [OF m(1)] by simp
  qed
  show ?thesis using t(1) step rest by (simp add: column_set_def)
qed

lemma store_one: "d < length target \<Longrightarrow> store target (int d) [x] = Some (target[d := x])"
  by (simp add: store_def upd_conv_take_nth_drop)

lemma load_one: "s < length source \<Longrightarrow> load 1 source (int s) = Some [source ! s]"
  by (simp add: load_def take_Suc_conv_app_nth hd_drop_conv_nth take_Suc)

lemma last_in_range: "s + n * (w :: nat) < l \<Longrightarrow> s < l"
  by (rule le_less_trans [OF le_add1])

lemma alsa_copy_column_Some:
  assumes "0 < ob" and "n = 0 \<or> s + (n - 1) * ib < length source" and "n = 0 \<or> d + (n - 1) * ob < length target"
  shows "\<exists>t. alsa_copy_column n (int s) (int d) (int ib) (int ob) source target = Some t \<and>
    column_set n d ob (\<lambda>k. source ! (s + k * ib)) target t"
  using assms
proof (induction n arbitrary: s d target)
  case 0
  then show ?case by (simp add: column_set_def)
next
  case (Suc n)
  have s: "s < length source" and d: "d < length target"
    using Suc.prems(2,3) last_in_range [of s n ib] last_in_range [of d n ob] by auto
  let ?u = "target[d := source ! s]"
  have "n = 0 \<or> (s + ib) + (n - 1) * ib < length source" "n = 0 \<or> (d + ob) + (n - 1) * ob < length ?u"
    using Suc.prems(2,3) by (cases n; simp add: algebra_simps)+
  from Suc.IH [OF Suc.prems(1) this] obtain t where
    t: "alsa_copy_column n (int (s + ib)) (int (d + ob)) (int ib) (int ob) source ?u = Some t"
      "column_set n (d + ob) ob (\<lambda>k. source ! (s + ib + k * ib)) ?u t" by blast
  have "column_set (Suc n) d ob (\<lambda>k. source ! (s + k * ib)) target t"
    by (rule column_set_Suc) (use t(2) Suc.prems(1) d in \<open>simp_all add: algebra_simps\<close>)
  with t(1) show ?case using load_one [OF s] store_one [OF d] by simp
qed

lemma alsa_zero_column_Some:
  assumes "0 < ob" and "n = 0 \<or> d + (n - 1) * ob < length target"
  shows "\<exists>t. alsa_zero_column n (int d) (int ob) target = Some t \<and> column_set n d ob (\<lambda>k. 0) target t"
  using assms
proof (induction n arbitrary: d target)
  case 0
  then show ?case by (simp add: column_set_def)
next
  case (Suc n)
  have d: "d < length target" using Suc.prems(2) last_in_range [of d n ob] by auto
  let ?u = "target[d := 0]"
  have "n = 0 \<or> (d + ob) + (n - 1) * ob < length ?u" using Suc.prems(2) by (cases n) (simp_all add: algebra_simps)
  from Suc.IH [OF Suc.prems(1) this] obtain t where
    t: "alsa_zero_column n (int (d + ob)) (int ob) ?u = Some t" "column_set n (d + ob) ob (\<lambda>k. 0) ?u t" by blast
  have "column_set (Suc n) d ob (\<lambda>k. 0) target t"
    by (rule column_set_Suc) (use t(2) Suc.prems(1) d in simp_all)
  with t(1) show ?case using store_one [OF d] by simp
qed


text \<open>Several columns, one for each \<open>j\<close> of a list.\<close>

definition columns_set ::
  "nat \<Rightarrow> nat \<Rightarrow> (nat \<Rightarrow> nat) \<Rightarrow> (nat \<Rightarrow> nat \<Rightarrow> byte) \<Rightarrow> nat list \<Rightarrow> byte list \<Rightarrow> byte list \<Rightarrow> bool" where
  "columns_set n ob off g js target t \<longleftrightarrow> length t = length target \<and>
     (\<forall>k < n. \<forall>j \<in> set js. t ! (off j + k * ob) = g j k) \<and>
     (\<forall>m < length target. (\<forall>k < n. \<forall>j \<in> set js. m \<noteq> off j + k * ob) \<longrightarrow> t ! m = target ! m)"

lemma same_place:
  assumes "a + k * ob = b + l * (ob :: nat)" and "a < ob" and "b < ob"
  shows "a = b \<and> k = l"
proof -
  have "a = b" using arg_cong [OF assms(1), of "\<lambda>x. x mod ob"] assms(2,3) by simp
  with assms show ?thesis by simp
qed

lemma in_target:
  assumes "n * ob \<le> length (target :: byte list)" and "a < ob" and "k < n"
  shows "a + k * ob < length target"
proof -
  have "a + k * ob < Suc k * ob" using assms(2) by simp
  also have "\<dots> \<le> n * ob" using assms(3) by (intro mult_le_mono1) simp
  finally show ?thesis using assms(1) by simp
qed

lemma columns_set_Cons:
  assumes first: "column_set n (off j) ob (g j) target u" and rest: "columns_set n ob off g js u t"
    and off: "off j < ob" "\<And>j'. j' \<in> set js \<Longrightarrow> off j' < ob \<and> off j' \<noteq> off j" and fits: "n * ob \<le> length target"
  shows "columns_set n ob off g (j # js) target t"
proof -
  have u: "length u = length target" "\<And>k. k < n \<Longrightarrow> u ! (off j + k * ob) = g j k"
    "\<And>m. m < length target \<Longrightarrow> (\<forall>k < n. m \<noteq> off j + k * ob) \<Longrightarrow> u ! m = target ! m"
    using first by (auto simp: column_set_def)
  have t: "length t = length u" "\<And>k j'. k < n \<Longrightarrow> j' \<in> set js \<Longrightarrow> t ! (off j' + k * ob) = g j' k"
    "\<And>m. m < length u \<Longrightarrow> (\<forall>k < n. \<forall>j' \<in> set js. m \<noteq> off j' + k * ob) \<Longrightarrow> t ! m = u ! m"
    using rest by (auto simp: columns_set_def)
  have "t ! (off j + k * ob) = g j k" if k: "k < n" for k
  proof -
    have "\<forall>l < n. \<forall>j' \<in> set js. off j + k * ob \<noteq> off j' + l * ob" using same_place off by metis
    with t(3) in_target [OF fits off(1) k] u(1) u(2) [OF k] show ?thesis by simp
  qed
  moreover have "t ! m = target ! m" if "m < length target" "\<forall>k < n. \<forall>j' \<in> set (j # js). m \<noteq> off j' + k * ob" for m
    using t(3) u(1,3) that by simp
  ultimately show ?thesis using t(1,2) u(1) by (auto simp: columns_set_def)
qed

lemma column_fits:
  "n * ob \<le> length (target :: byte list) \<Longrightarrow> a < ob \<Longrightarrow> n = 0 \<or> a + (n - 1) * ob < length target"
  using in_target [of n ob target a "n - 1"] by (cases n) simp_all

text \<open>Where byte \<open>j\<close> of a sample goes, and where the zeros go.\<close>

definition cell_place :: "bool \<Rightarrow> nat \<Rightarrow> nat \<Rightarrow> nat \<Rightarrow> nat" where
  "cell_place endianp ib ob j = (if endianp then j else ob - ib + j)"

definition zero_place :: "bool \<Rightarrow> nat \<Rightarrow> nat \<Rightarrow> nat" where
  "zero_place endianp ib j = (if endianp then j else j - ib)"

lemma places:
  "j < ib \<Longrightarrow> ib \<le> ob \<Longrightarrow> cell_place e ib ob j < ob"
  "j < ib \<Longrightarrow> j' < ib \<Longrightarrow> ib \<le> ob \<Longrightarrow> cell_place e ib ob j = cell_place e ib ob j' \<longleftrightarrow> j = j'"
  "ib \<le> l \<Longrightarrow> l < ob \<Longrightarrow> zero_place e ib l < ob"
  "ib \<le> l \<Longrightarrow> ib \<le> l' \<Longrightarrow> zero_place e ib l = zero_place e ib l' \<longleftrightarrow> l = l'"
  by (auto simp: cell_place_def zero_place_def)

lemma alsa_copy_columns_Some:
  assumes "0 < ob" and "ib \<le> ob" and "n * ib \<le> length source" and "n * ob \<le> length target"
    and "set js \<subseteq> {..<ib}" and "distinct js"
  shows "\<exists>t. alsa_copy_columns n e (int ib) (int ob) (map int js) source target = Some t \<and>
    columns_set n ob (cell_place e ib ob) (\<lambda>j k. source ! (j + k * ib)) js target t"
  using assms(4-6)
proof (induction js arbitrary: target)
  case Nil
  then show ?case by (simp add: columns_set_def)
next
  case (Cons j js)
  have j: "j < ib" "cell_place e ib ob j < ob" using Cons.prems(2) assms(2) by (auto simp: cell_place_def)
  from alsa_copy_column_Some [OF assms(1) column_fits [OF assms(3) j(1)] column_fits [OF Cons.prems(1) j(2)]]
  obtain u where u: "alsa_copy_column n (int j) (int (cell_place e ib ob j)) (int ib) (int ob) source target = Some u"
    "column_set n (cell_place e ib ob j) ob (\<lambda>k. source ! (j + k * ib)) target u" by blast
  have "n * ob \<le> length u" using u(2) Cons.prems(1) by (simp add: column_set_def)
  from Cons.IH [OF this] Cons.prems obtain t where
    t: "alsa_copy_columns n e (int ib) (int ob) (map int js) source u = Some t"
      "columns_set n ob (cell_place e ib ob) (\<lambda>j k. source ! (j + k * ib)) js u t" by auto
  have "columns_set n ob (cell_place e ib ob) (\<lambda>j k. source ! (j + k * ib)) (j # js) target t"
    by (rule columns_set_Cons [OF u(2) t(2) j(2) _ Cons.prems(1)])
       (use Cons.prems assms(2) j(1) places(1,2) in \<open>auto simp: subset_iff\<close>)
  moreover have "int (cell_place e ib ob j) = (if e then int j else int ob - int ib + int j)"
    using assms(2) by (simp add: cell_place_def of_nat_diff)
  ultimately show ?case using u(1) t(1) by simp
qed

lemma alsa_zero_columns_Some:
  assumes "0 < ob" and "n * ob \<le> length target" and "set js \<subseteq> {ib..<ob}" and "distinct js"
  shows "\<exists>t. alsa_zero_columns n e (int ib) (int ob) (map int js) target = Some t \<and>
    columns_set n ob (zero_place e ib) (\<lambda>j k. 0) js target t"
  using assms(2-4)
proof (induction js arbitrary: target)
  case Nil
  then show ?case by (simp add: columns_set_def)
next
  case (Cons j js)
  have j: "zero_place e ib j < ob" using Cons.prems(2) by (auto simp: zero_place_def)
  from alsa_zero_column_Some [OF assms(1) column_fits [OF Cons.prems(1) j]]
  obtain u where u: "alsa_zero_column n (int (zero_place e ib j)) (int ob) target = Some u"
    "column_set n (zero_place e ib j) ob (\<lambda>k. 0) target u" by blast
  have "n * ob \<le> length u" using u(2) Cons.prems(1) by (simp add: column_set_def)
  from Cons.IH [OF this] Cons.prems obtain t where
    t: "alsa_zero_columns n e (int ib) (int ob) (map int js) u = Some t"
      "columns_set n ob (zero_place e ib) (\<lambda>j k. 0) js u t" by auto
  have "columns_set n ob (zero_place e ib) (\<lambda>j k. 0) (j # js) target t"
    by (rule columns_set_Cons [OF u(2) t(2) j _ Cons.prems(1)])
       (use Cons.prems places(3,4) in \<open>auto simp: subset_iff\<close>)
  moreover have "int (zero_place e ib j) = (if e then int j else int j - int ib)"
    using Cons.prems(2) by (auto simp: zero_place_def of_nat_diff)
  ultimately show ?case using u(1) t(1) by simp
qed


text \<open>The whole buffer: the samples one after the other, each in its place among zeros.\<close>

lemma widened_length: "length (widened e ib ob source k) = ob" if "ib \<le> ob" "(k + 1) * ib \<le> length source"
proof -
  have "length (take ib (drop (k * ib) source)) = ib" using that(2) by simp
  then show ?thesis using that(1) unfolding widened_def Let_def by (simp del: length_take)
qed

lemma upto_ints: "[int a..int b - 1] = map int [a..<b]"
  by (rule nth_equalityI) (simp_all add: nth_upto)

lemma alsa_pad_widened:
  assumes "0 < ob" and "ib \<le> ob" and "n * ib \<le> length source" and "n * ob \<le> length target"
  shows "\<exists>t. alsa_pad n e (int ib) (int ob) source target = Some t \<and> length t = length target \<and>
    take (n * ob) t = concat (map (widened e ib ob source) [0..<n])"
proof -
  have copies: "[0..int ib - 1] = map int [0..<ib]" using upto_ints [of 0 ib] by simp
  have zeros: "[max 0 (int ib)..int ob - 1] = map int [ib..<ob]" using upto_ints [of ib ob] by simp
  obtain u where u: "alsa_copy_columns n e (int ib) (int ob) (map int [0..<ib]) source target = Some u"
    "columns_set n ob (cell_place e ib ob) (\<lambda>j k. source ! (j + k * ib)) [0..<ib] target u"
    using alsa_copy_columns_Some [OF assms, of "[0..<ib]" e] by fastforce
  have len: "n * ob \<le> length u" using u(2) assms(4) by (simp add: columns_set_def)
  obtain t where t: "alsa_zero_columns n e (int ib) (int ob) (map int [ib..<ob]) u = Some t"
    "columns_set n ob (zero_place e ib) (\<lambda>j k. 0) [ib..<ob] u t"
    using alsa_zero_columns_Some [OF assms(1) len, of "[ib..<ob]" ib e] by fastforce
  have lt: "length t = length target" using t(2) u(2) by (simp add: columns_set_def)
  have cell: "t ! (cell_place e ib ob j + k * ob) = source ! (j + k * ib)" if "j < ib" "k < n" for j k
  proof -
    have p: "cell_place e ib ob j < ob" using places(1) that assms(2) by simp
    have "\<forall>l < n. \<forall>m \<in> set [ib..<ob]. cell_place e ib ob j + k * ob \<noteq> zero_place e ib m + l * ob"
    proof (intro allI impI ballI notI)
      fix l m assume "l < n" "m \<in> set [ib..<ob]" "cell_place e ib ob j + k * ob = zero_place e ib m + l * ob"
      with same_place [OF _ p places(3)] have "cell_place e ib ob j = zero_place e ib m" by auto
      with that \<open>m \<in> set [ib..<ob]\<close> show False by (auto simp: cell_place_def zero_place_def split: if_splits)
    qed
    then have "t ! (cell_place e ib ob j + k * ob) = u ! (cell_place e ib ob j + k * ob)"
      using t(2) in_target [OF len p that(2)] by (auto simp: columns_set_def)
    then show ?thesis using u(2) that by (simp add: columns_set_def)
  qed
  have zero: "t ! (zero_place e ib m + k * ob) = 0" if "ib \<le> m" "m < ob" "k < n" for m k
    using t(2) that by (auto simp: columns_set_def)
  have "sample ob t k = widened e ib ob source k" if k: "k < n" for k
  proof (rule nth_equalityI)
    have src: "(k + 1) * ib \<le> length source" using mult_le_mono1 [of "k + 1" n ib] k assms(3) by linarith
    have tgt: "(k + 1) * ob \<le> length t" using mult_le_mono1 [of "k + 1" n ob] k assms(4) lt by linarith
    show len_eq: "length (sample ob t k) = length (widened e ib ob source k)"
      using tgt widened_length [OF assms(2) src] by (auto simp: sample_def min_def)
    fix r assume "r < length (sample ob t k)"
    then have r: "r < ob" using len_eq widened_length [OF assms(2) src] by simp
    have "sample ob t k ! r = t ! (r + k * ob)" using r tgt by (simp add: sample_def add.commute)
    also have "\<dots> = widened e ib ob source k ! r"
    proof (cases e)
      case True
      show ?thesis
        using True r cell [of r k] zero [of r k] k src
        by (auto simp: widened_def Let_def nth_append cell_place_def zero_place_def min_def add.commute)
    next
      case False
      show ?thesis
      proof (cases "r < ob - ib")
        case True
        with False zero [of "r + ib" k] k show ?thesis by (simp add: widened_def Let_def nth_append zero_place_def)
      next
        case F: False
        then have "cell_place e ib ob (r - (ob - ib)) = r" using False by (simp add: cell_place_def)
        with F False r cell [of "r - (ob - ib)" k] k src show ?thesis
          by (simp add: widened_def Let_def nth_append add.commute)
      qed
    qed
    finally show "sample ob t k ! r = widened e ib ob source k ! r" .
  qed
  then have "concat (map (sample ob t) [0..<n]) = concat (map (widened e ib ob source) [0..<n])"
    by (intro arg_cong [where f = concat] map_cong) simp_all
  moreover have "take (n * ob) t = concat (map (sample ob t) [0..<n])"
    by (rule take_samples) (use assms(4) lt in simp)
  moreover have "alsa_pad n e (int ib) (int ob) source target = Some t"
    unfolding alsa_pad_def copies zeros using u(1) t(1) by simp
  ultimately show ?thesis using lt by simp
qed


section \<open>What the device gets\<close>

text \<open>
  The bytes of the frames that the writes on \<open>pcm\<close> among \<open>cs\<close> delivered, the calls \<open>h\<close> having come
  before.
\<close>

definition write_taken :: "int \<Rightarrow> call \<Rightarrow> reply \<Rightarrow> byte list" where
  "write_taken pcm c r = (case c of
     Alsa (Snd_pcm_writei mmap p bs n) \<Rightarrow> if p = pcm then take (nat (rp_ret r) * (length bs div unat n)) bs else []
   | _ \<Rightarrow> [])"

fun heard_from :: "int \<Rightarrow> (call list \<Rightarrow> call \<Rightarrow> reply) \<Rightarrow> call list \<Rightarrow> call list \<Rightarrow> byte list" where
  "heard_from pcm ans h [] = []"
| "heard_from pcm ans h (c # cs) = write_taken pcm c (ans h c) @ heard_from pcm ans (h @ [c]) cs"

definition heard :: "int \<Rightarrow> 'z posix_scheme \<Rightarrow> byte list" where
  "heard pcm w = heard_from pcm (p_answer w) [] (p_calls w)"

lemma heard_from_append:
  "heard_from pcm ans h (cs @ cs') = heard_from pcm ans h cs @ heard_from pcm ans (h @ cs) cs'"
  by (induction cs arbitrary: h) simp_all

lemma heard_ask:
  assumes "ask c w = (r, v)"
  shows "heard pcm v = heard pcm w @ write_taken pcm c r" "p_answer v = p_answer w"
    "streak kind v = (case kind c r of None \<Rightarrow> streak kind w | Some True \<Rightarrow> Suc (streak kind w) | Some False \<Rightarrow> 0)"
    "at_most_in_a_row K kind (p_answer w) \<Longrightarrow> kind c r = Some True \<Longrightarrow> streak kind w < K"
  using assms streak_ask [OF assms] by (auto simp: ask_def Let_def heard_def heard_from_append)

definition resume_kind :: "int \<Rightarrow> call \<Rightarrow> reply \<Rightarrow> bool option" where
  "resume_kind pcm c r = (case c of
     Alsa (Snd_pcm_resume p) \<Rightarrow> if p = pcm then Some (rp_ret r = - EAGAIN) else None | _ \<Rightarrow> None)"

definition write_kind :: "int \<Rightarrow> call \<Rightarrow> reply \<Rightarrow> bool option" where
  "write_kind pcm c r = (case c of
     Alsa (Snd_pcm_writei mmap p bs n) \<Rightarrow> if p = pcm \<and> n \<noteq> 0 then Some (rp_ret r \<le> 0) else None | _ \<Rightarrow> None)"

lemma other_calls [simp]:
  "write_taken pcm (Alsa (Snd_pcm_resume p)) r = []" "write_taken pcm (Alsa (Snd_pcm_prepare p)) r = []"
  "write_taken pcm (Sleep s) r = []" "write_kind pcm (Alsa (Snd_pcm_resume p)) r = None"
  "write_kind pcm (Alsa (Snd_pcm_prepare p)) r = None" "write_kind pcm (Sleep s) r = None"
  "resume_kind pcm (Sleep s) r = None"
  by (simp_all add: write_taken_def write_kind_def resume_kind_def)

text \<open>The device took nothing between two worlds, and has not been given anything.\<close>

definition no_writes :: "int \<Rightarrow> 'z posix_scheme \<Rightarrow> 'z posix_scheme \<Rightarrow> bool" where
  "no_writes pcm w v \<longleftrightarrow> heard pcm v = heard pcm w \<and> p_answer v = p_answer w \<and>
     streak (write_kind pcm) v = streak (write_kind pcm) w \<and> w_big_endian v = w_big_endian w"

lemma no_writes_trans: "no_writes pcm u v \<Longrightarrow> no_writes pcm v w \<Longrightarrow> no_writes pcm u w"
  by (simp add: no_writes_def)

lemma no_writes_ask:
  "ask c w = (r, v) \<Longrightarrow> write_taken pcm c r = [] \<Longrightarrow> write_kind pcm c r = None \<Longrightarrow> no_writes pcm w v"
  using heard_ask [of c w r v] by (auto simp: no_writes_def ask_def Let_def)

lemma alsa_resume_no_writes: "alsa_resume pcm w = Some (r, v) \<Longrightarrow> no_writes pcm' w v"
proof (induction pcm w "(r, v)" rule: alsa_resume.raw_induct [rotated, consumes 1, case_names turn])
  case (turn loop pcm w)
  obtain a u where a: "ask (Alsa (Snd_pcm_resume pcm)) w = (a, u)" by fastforce
  obtain b x where b: "ask (Sleep 1) u = (b, x)" by fastforce
  have u: "no_writes pcm' w u" "no_writes pcm' u x"
    using no_writes_ask [OF a] no_writes_ask [OF b] by simp_all
  show ?case
  proof (cases "rp_ret a = - EAGAIN")
    case True
    with turn(2) a b have "loop pcm x = Some (r, v)" by (simp add: ask_ret_def)
    from turn(1) [OF this] u no_writes_trans show ?thesis by blast
  next
    case False
    with turn(2) a u(1) show ?thesis by (simp add: ask_ret_def)
  qed
qed

lemma alsa_resume_returns:
  "at_most_in_a_row K (resume_kind pcm) (p_answer w) \<Longrightarrow> \<exists>r v. alsa_resume pcm w = Some (r, v)"
proof (induction "K - streak (resume_kind pcm) w" arbitrary: w rule: less_induct)
  case less
  obtain a u where a: "ask (Alsa (Snd_pcm_resume pcm)) w = (a, u)" by fastforce
  obtain b x where b: "ask (Sleep 1) u = (b, x)" by fastforce
  show ?case
  proof (cases "rp_ret a = - EAGAIN")
    case True
    then have k: "resume_kind pcm (Alsa (Snd_pcm_resume pcm)) a = Some True" by (simp add: resume_kind_def)
    have "streak (resume_kind pcm) w < K" by (rule heard_ask(4) [OF a less.prems k])
    moreover have "streak (resume_kind pcm) x = Suc (streak (resume_kind pcm) w)"
      using heard_ask(3) [OF a, of "resume_kind pcm"] heard_ask(3) [OF b, of "resume_kind pcm"] k by simp
    ultimately have "K - streak (resume_kind pcm) x < K - streak (resume_kind pcm) w" by simp
    moreover have "at_most_in_a_row K (resume_kind pcm) (p_answer x)"
      using less.prems heard_ask(2) [OF a] heard_ask(2) [OF b] by simp
    ultimately have "\<exists>r v. alsa_resume pcm x = Some (r, v)" by (rule less.hyps)
    with a b True show ?thesis by (subst alsa_resume.simps) (simp add: ask_ret_def)
  next
    case False
    with a show ?thesis by (subst alsa_resume.simps) (simp add: ask_ret_def)
  qed
qed


lemma alsa_error_recovery_no_writes:
  assumes "alsa_error_recovery i err w = Some (r, v)"
  shows "no_writes pcm w v"
proof -
  obtain a u where a: "ask (Alsa (Snd_pcm_prepare (alsa_pcm_handle i))) w = (a, u)" by fastforce
  have u: "no_writes pcm w u" using no_writes_ask [OF a] by simp
  consider "err = - EPIPE" | "err = - ESTRPIPE" "err \<noteq> - EPIPE" | "err \<noteq> - EPIPE" "err \<noteq> - ESTRPIPE" by blast
  then show ?thesis
  proof cases
    case 1
    with assms a u show ?thesis by (simp add: alsa_error_recovery_def ask_ret_def)
  next
    case 2
    with assms obtain e x where x: "alsa_resume (alsa_pcm_handle i) w = Some (e, x)"
      by (auto simp: alsa_error_recovery_def split: Option.bind_splits)
    obtain b y where b: "ask (Alsa (Snd_pcm_prepare (alsa_pcm_handle i))) x = (b, y)" by fastforce
    have "no_writes pcm w x" "no_writes pcm x y"
      using alsa_resume_no_writes [OF x] no_writes_ask [OF b] by simp_all
    with assms 2 x b show ?thesis
      by (auto simp: alsa_error_recovery_def ask_ret_def split: if_splits intro: no_writes_trans)
  next
    case 3
    with assms show ?thesis by (simp add: alsa_error_recovery_def no_writes_def)
  qed
qed

lemma alsa_error_recovery_returns:
  assumes "at_most_in_a_row K (resume_kind (alsa_pcm_handle i)) (p_answer w)"
  shows "\<exists>r v. alsa_error_recovery i err w = Some (r, v)"
  using alsa_resume_returns [OF assms]
  by (auto simp: alsa_error_recovery_def split: prod.splits)

text \<open>What is asked of the device: a write takes no more frames than it is given, and errors are small numbers.\<close>

definition alsa_bounds :: "(call list \<Rightarrow> call \<Rightarrow> reply) \<Rightarrow> int \<Rightarrow> bool" where
  "alsa_bounds ans pcm \<longleftrightarrow> (\<forall>h mmap bs n. let r = rp_ret (ans h (Alsa (Snd_pcm_writei mmap pcm bs n)))
     in INT_MIN \<le> r \<and> r \<le> int (unat n))"

text \<open>A device that does not put off for ever.\<close>

definition alsa_lively :: "nat \<Rightarrow> (call list \<Rightarrow> call \<Rightarrow> reply) \<Rightarrow> int \<Rightarrow> bool" where
  "alsa_lively K ans pcm \<longleftrightarrow> at_most_in_a_row K (write_kind pcm) ans \<and> at_most_in_a_row K (resume_kind pcm) ans"

lemma int_of_long_id: "INT_MIN \<le> r \<Longrightarrow> r \<le> INT_MAX \<Longrightarrow> int_of_long r = r"
  unfolding int_of_long_def INT_MIN_def INT_MAX_def by (rule sint32_of_int) simp_all

text \<open>One write.\<close>

lemma alsa_write_step:
  assumes "ask (Alsa (Snd_pcm_writei mmap pcm (take (unat len * s) ptr) len)) w = (a, u)"
    and "alsa_bounds (p_answer w) pcm" and "int (unat len) \<le> INT_MAX" and "len \<noteq> 0" and "unat len * s \<le> length ptr"
  shows "int_of_long (rp_ret a) = rp_ret a" "rp_ret a \<le> int (unat len)"
    "heard pcm u = heard pcm w @ take (nat (rp_ret a) * s) ptr" "p_answer u = p_answer w"
    "streak (write_kind pcm) u = (if rp_ret a \<le> 0 then Suc (streak (write_kind pcm) w) else 0)"
    "at_most_in_a_row K (write_kind pcm) (p_answer w) \<Longrightarrow> rp_ret a \<le> 0 \<Longrightarrow> streak (write_kind pcm) w < K"
proof -
  let ?c = "Alsa (Snd_pcm_writei mmap pcm (take (unat len * s) ptr) len)"
  have a: "a = p_answer w (p_calls w) ?c" using assms(1) by (simp add: ask_def Let_def)
  have b: "INT_MIN \<le> rp_ret a" "rp_ret a \<le> int (unat len)"
    using assms(2) unfolding a alsa_bounds_def Let_def by blast+
  then show "int_of_long (rp_ret a) = rp_ret a" "rp_ret a \<le> int (unat len)"
    using assms(3) int_of_long_id [of "rp_ret a"] by simp_all
  have k: "write_kind pcm ?c a = Some (rp_ret a \<le> 0)" using assms(4) by (simp add: write_kind_def)
  have "unat len > 0" using assms(4) by (simp add: unat_gt_0)
  then have "length (take (unat len * s) ptr) div unat len = s" using assms(5) by (simp add: min_def)
  moreover have "nat (rp_ret a) * s \<le> unat len * s" using b(2) by (intro mult_le_mono1) linarith
  ultimately have "write_taken pcm ?c a = take (nat (rp_ret a) * s) ptr"
    by (simp add: write_taken_def min_def)
  then show "heard pcm u = heard pcm w @ take (nat (rp_ret a) * s) ptr" "p_answer u = p_answer w"
    using heard_ask(1,2) [OF assms(1)] by simp_all
  show "streak (write_kind pcm) u = (if rp_ret a \<le> 0 then Suc (streak (write_kind pcm) w) else 0)"
    using heard_ask(3) [OF assms(1), of "write_kind pcm"] k by simp
  show "at_most_in_a_row K (write_kind pcm) (p_answer w) \<Longrightarrow> rp_ret a \<le> 0 \<Longrightarrow> streak (write_kind pcm) w < K"
    using heard_ask(4) [OF assms(1), where kind = "write_kind pcm"] k by simp
qed


lemma load_take: "n \<le> length xs \<Longrightarrow> load n xs 0 = Some (take n xs)"
  by (simp add: load_def)

lemma alsa_playi_loop_done: "alsa_playi_loop i s ptr 0 w = Some (True, w)"
  by (subst alsa_playi_loop.simps) simp

text \<open>The loop delivers a prefix of the samples, all of them when it succeeds, and it returns.\<close>

lemma alsa_playi_loop_prefix:
  "alsa_playi_loop i (int s) ptr len w = Some (r, v) \<Longrightarrow> alsa_bounds (p_answer w) (alsa_pcm_handle i) \<Longrightarrow>
   int (unat len) \<le> INT_MAX \<Longrightarrow> unat len * s \<le> length ptr \<Longrightarrow>
   \<exists>m \<le> unat len. heard (alsa_pcm_handle i) v = heard (alsa_pcm_handle i) w @ take (m * s) ptr \<and>
     (r \<longrightarrow> m = unat len) \<and> p_answer v = p_answer w"
proof (induction i "int s" ptr len w "(r, v)" rule: alsa_playi_loop.raw_induct [rotated, consumes 1, case_names turn])
  case (turn loop i ptr len w)
  let ?pcm = "alsa_pcm_handle i"
  show ?case
  proof (cases "len = 0")
    case True
    with turn(2) show ?thesis by (intro exI [of _ 0]) simp
  next
    case False
    obtain a u where a: "ask (Alsa (Snd_pcm_writei (alsa_mmap i) ?pcm (take (unat len * s) ptr) len)) w = (a, u)"
      by fastforce
    note st = alsa_write_step [OF a turn(3,4) False turn(5)]
    have l: "load (unat len * nat (int s)) ptr 0 = Some (take (unat len * s) ptr)"
      using load_take [OF turn(5)] by simp
    let ?ret = "rp_ret a"
    have run: "(if ?ret = - EAGAIN \<or> ?ret = - EINTR then loop i (int s) ptr len u
        else if ?ret < 0 then Option.bind (alsa_error_recovery i ?ret u) (\<lambda>(err, w).
            if err < 0 then Some (False, w) else loop i (int s) ptr len w)
        else loop i (int s) (drop (nat ?ret * s) ptr) (len - word_of_int ?ret) u) = Some (r, v)"
      using turn(2) False l a by (simp add: ask_ret_def Let_def st(1) cong: if_cong)
    have same: ?thesis if "loop i (int s) ptr len x = Some (r, v)" "heard ?pcm x = heard ?pcm w" "p_answer x = p_answer w" for x
      using turn(1) [OF that(1)] turn(3-5) that(2,3) by simp
    consider "?ret = - EAGAIN \<or> ?ret = - EINTR" | "\<not> (?ret = - EAGAIN \<or> ?ret = - EINTR)" "?ret < 0"
      | "\<not> (?ret = - EAGAIN \<or> ?ret = - EINTR)" "\<not> ?ret < 0" by blast
    then show ?thesis
    proof cases
      case 1
      then have "?ret < 0" by (auto simp: posix_errnos)
      with 1 run st(3,4) show ?thesis by (intro same [of u]) simp_all
    next
      case 2
      with run obtain e x where x: "alsa_error_recovery i ?ret u = Some (e, x)"
        "(if e < 0 then Some (False, x) else loop i (int s) ptr len x) = Some (r, v)"
        by (auto split: Option.bind_splits)
      have "no_writes ?pcm u x" by (rule alsa_error_recovery_no_writes [OF x(1)])
      then have hx: "heard ?pcm x = heard ?pcm w" "p_answer x = p_answer w"
        using 2 st(3,4) by (simp_all add: no_writes_def)
      show ?thesis
      proof (cases "e < 0")
        case True
        with x(2) hx show ?thesis by (intro exI [of _ 0]) simp
      next
        case False
        with x(2) hx show ?thesis by (intro same [of x]) simp_all
      qed
    next
      case 3
      have le: "nat ?ret \<le> unat len" using st(2) by linarith
      then have k: "unat (len - word_of_int ?ret) = unat len - nat ?ret" "nat ?ret \<le> unat len"
        using 3(2) unat_minus_written [of ?ret len] by simp_all
      have fit: "unat (len - word_of_int ?ret) * s \<le> length (drop (nat ?ret * s) ptr)"
        using turn(5) by (simp add: k(1) diff_mult_distrib)
      have small: "int (unat (len - word_of_int ?ret)) \<le> INT_MAX" unfolding k(1) using turn(4) by linarith
      have "loop i (int s) (drop (nat ?ret * s) ptr) (len - word_of_int ?ret) u = Some (r, v)" using run 3 by simp
      from turn(1) [OF this turn(3) [folded st(4)] small fit] obtain m where
        m: "m \<le> unat len - nat ?ret" "heard ?pcm v = heard ?pcm u @ take (m * s) (drop (nat ?ret * s) ptr)"
          "r \<longrightarrow> m = unat len - nat ?ret" "p_answer v = p_answer u" unfolding k(1) by blast
      have "heard ?pcm v = heard ?pcm w @ take ((nat ?ret + m) * s) ptr"
        unfolding m(2) st(3) by (simp add: take_add [symmetric] add_mult_distrib)
      with m k(2) st(4) show ?thesis by (intro exI [of _ "nat ?ret + m"]) auto
    qed
  qed
qed

lemma alsa_playi_loop_returns:
  fixes w :: "'z posix_scheme"
  shows "alsa_bounds (p_answer w) (alsa_pcm_handle i) \<Longrightarrow> alsa_lively K (p_answer w) (alsa_pcm_handle i) \<Longrightarrow>
   int (unat len) \<le> INT_MAX \<Longrightarrow> unat len * s \<le> length ptr \<Longrightarrow>
   \<exists>r v. alsa_playi_loop i (int s) ptr len w = Some (r, v)"
proof (induction "unat len * Suc K + (K - streak (write_kind (alsa_pcm_handle i)) w)" arbitrary: ptr len w rule: less_induct)
  case less
  let ?pcm = "alsa_pcm_handle i"
  let ?S = "\<lambda>w. streak (write_kind ?pcm) w"
  show ?case
  proof (cases "len = 0")
    case True
    then show ?thesis using alsa_playi_loop_done by blast
  next
    case False
    obtain a u where a: "ask (Alsa (Snd_pcm_writei (alsa_mmap i) ?pcm (take (unat len * s) ptr) len)) w = (a, u)"
      by fastforce
    note st = alsa_write_step [OF a less.prems(1,3) False less.prems(4)]
    have l: "load (unat len * nat (int s)) ptr 0 = Some (take (unat len * s) ptr)"
      using load_take [OF less.prems(4)] by simp
    let ?ret = "rp_ret a"
    have run: "alsa_playi_loop i (int s) ptr len w = (if ?ret = - EAGAIN \<or> ?ret = - EINTR then alsa_playi_loop i (int s) ptr len u
        else if ?ret < 0 then Option.bind (alsa_error_recovery i ?ret u) (\<lambda>(err, w).
            if err < 0 then Some (False, w) else alsa_playi_loop i (int s) ptr len w)
        else alsa_playi_loop i (int s) (drop (nat ?ret * s) ptr) (len - word_of_int ?ret) u)"
      using False l a by (subst alsa_playi_loop.simps) (simp add: ask_ret_def Let_def st(1) cong: if_cong)
    have lively: "at_most_in_a_row K (write_kind ?pcm) (p_answer w)" "at_most_in_a_row K (resume_kind ?pcm) (p_answer w)"
      using less.prems(2) by (simp_all add: alsa_lively_def)
    have again: "\<exists>r v. alsa_playi_loop i (int s) ptr len x = Some (r, v)"
      if "?ret \<le> 0" "?S x = ?S u" "p_answer x = p_answer w" for x :: "'z posix_scheme"
    proof (rule less.hyps)
      have "?S w < K" "?S u = Suc (?S w)" using st(5) st(6) [OF lively(1)] that(1) by simp_all
      then show "unat len * Suc K + (K - ?S x) < unat len * Suc K + (K - ?S w)" using that(2) by simp
    qed (use less.prems that(3) in simp_all)
    consider "?ret = - EAGAIN \<or> ?ret = - EINTR" | "\<not> (?ret = - EAGAIN \<or> ?ret = - EINTR)" "?ret < 0"
      | "?ret = 0" | "0 < ?ret" by force
    then show ?thesis
    proof cases
      case 1
      then have "?ret \<le> 0" by (auto simp: posix_errnos)
      with 1 run again [of u] st(4) show ?thesis by simp
    next
      case 2
      obtain e x where x: "alsa_error_recovery i ?ret u = Some (e, x)"
        using alsa_error_recovery_returns [of K i u ?ret] lively(2) st(4) by auto
      have "?S x = ?S u" "p_answer x = p_answer w"
        using alsa_error_recovery_no_writes [OF x, of ?pcm] st(4) by (simp_all add: no_writes_def)
      with again [of x] 2 have "\<exists>r v. alsa_playi_loop i (int s) ptr len x = Some (r, v)" by simp
      with run 2 x show ?thesis by auto
    next
      case 3
      with run again [of u] st(4) show ?thesis by (simp add: posix_errnos)
    next
      case 4
      have le: "nat ?ret \<le> unat len" using st(2) by linarith
      then have k: "unat (len - word_of_int ?ret) = unat len - nat ?ret" "nat ?ret \<le> unat len" "0 < nat ?ret"
        using 4 unat_minus_written [of ?ret len] by simp_all
      have fit: "(unat len - nat ?ret) * s \<le> length (drop (nat ?ret * s) ptr)"
        using less.prems(4) by (simp add: diff_mult_distrib)
      have "unat (len - word_of_int ?ret) * Suc K + (K - ?S u) < unat len * Suc K + (K - ?S w)"
      proof -
        have "Suc (unat (len - word_of_int ?ret)) * Suc K \<le> unat len * Suc K" using k by (intro mult_le_mono1) simp
        then show ?thesis by simp
      qed
      from less.hyps [OF this] less.prems st(4) k fit have
        "\<exists>r v. alsa_playi_loop i (int s) (drop (nat ?ret * s) ptr) (len - word_of_int ?ret) u = Some (r, v)" by simp
      with run 4 show ?thesis by (simp add: posix_errnos)
    qed
  qed
qed


section \<open>A buffer of wider samples after the other\<close>

lemma widened_drop: "widened e ib ob (drop (a * ib) source) k = widened e ib ob source (a + k)"
  by (simp add: widened_def add_mult_distrib add.commute)

lemma concat_map_add:
  "concat (map g [0..<a + b]) = concat (map g [0..<a]) @ concat (map (\<lambda>k. g (a + k)) [0..<b])"
proof -
  have "[0..<a + b] = [0..<a] @ [a..<a + b]" by (rule upt_add_eq_append) simp
  also have "[a..<a + b] = map (\<lambda>k. k + a) [0..<b]" by (simp add: map_add_upt add.commute)
  finally show ?thesis by (simp add: comp_def add.commute)
qed

lemma concat_widened_length:
  assumes "ib \<le> ob" and "n * ib \<le> length source"
  shows "length (concat (map (widened e ib ob source) [0..<n])) = n * ob"
  using assms(2)
proof (induction n)
  case (Suc n)
  then show ?case using widened_length [OF assms(1), of n source e] by simp
qed simp

text \<open>Words that hold small numbers.\<close>

lemma small_word: "n < 4294967296 \<Longrightarrow> unat (word_of_int (int n) :: 32 word) = n"
  by (simp add: unat_of_nat)

text \<open>What \<open>alsa_playi\<close> does with a whole number of frames at the start of a buffer.\<close>

lemma alsa_playi_frames:
  fixes w :: "'z posix_scheme"
  assumes "0 < s" and "unat n div s * s \<le> length bs" and "int (unat n) \<le> INT_MAX" and "int s \<le> INT_MAX"
    and "alsa_bounds (p_answer w) (alsa_pcm_handle i)" and "alsa_lively K (p_answer w) (alsa_pcm_handle i)"
  shows "\<exists>r v m. alsa_playi i bs n (int s) w = Some (r, v) \<and> m \<le> unat n div s \<and>
    heard (alsa_pcm_handle i) v = heard (alsa_pcm_handle i) w @ take (m * s) bs \<and>
    (r \<longrightarrow> m = unat n div s) \<and> p_answer v = p_answer w \<and> w_big_endian v = w_big_endian w"
proof -
  have "unat (word_of_int (int s) :: 32 word) = s" using assms(4) by (intro small_word) (simp add: INT_MAX_def)
  then have len: "unat (n div word_of_int (int s)) = unat n div s" by (simp add: unat_div)
  have small: "int (unat (n div word_of_int (int s))) \<le> INT_MAX"
    unfolding len using assms(3) div_le_dividend [of "unat n" s] by linarith
  have fit: "unat (n div word_of_int (int s)) * s \<le> length bs" unfolding len by (rule assms(2))
  from alsa_playi_loop_returns [OF assms(5,6) small fit] obtain r v where
    run: "alsa_playi_loop i (int s) bs (n div word_of_int (int s)) w = Some (r, v)" by blast
  then have "alsa_playi i bs n (int s) w = Some (r, v)" using assms(1) by (simp add: alsa_playi_def)
  moreover from alsa_playi_loop_prefix [OF run assms(5) small fit] obtain m where
    "m \<le> unat n div s" "heard (alsa_pcm_handle i) v = heard (alsa_pcm_handle i) w @ take (m * s) bs"
    "r \<longrightarrow> m = unat n div s" "p_answer v = p_answer w" unfolding len by blast
  moreover have "w_big_endian v = w_big_endian w" using calls_only_sel [OF alsa_playi_loop_calls [OF run]] by simp
  ultimately show ?thesis by blast
qed


text \<open>
  The loop over a page at a time.  \<open>ib\<close> and \<open>ob\<close> are the bytes of a sample before and after, and a
  frame of \<open>ch\<close> wide samples fits the page.
\<close>

lemma alsa_pad_loop_step:
  assumes "\<not> n < word_of_int S" and "alsa_sample_size i = S" and "S \<noteq> 0"
    and "c_int (alsa_padoutw i * ch) = Some oframe" and "oframe \<noteq> 0"
    and "int_of_u32 (n div word_of_int S) = F" and "(if 4096 sdiv oframe < F then 4096 sdiv oframe else F) = f"
    and "c_int (f * oframe) = Some obytes"
    and "alsa_pad (nat (f * ch)) (w_big_endian w) ib (alsa_padoutw i) samples pb = Some t"
    and "alsa_playi i t (word_of_int obytes) oframe w = Some (ok, u)"
  shows "alsa_pad_loop i ch ib pb samples n w =
    (if \<not> ok then Some (False, t, u)
     else alsa_pad_loop i ch ib t (drop (nat (f * S)) samples) (n - word_of_int (f * S)) u)"
  using assms by (subst alsa_pad_loop.simps) (simp add: Let_def)

lemma div_less_pages: "0 < s \<Longrightarrow> (n - f * s) div s = n div s - (f :: nat)"
proof -
  assume s: "0 < s"
  show ?thesis
  proof (cases "f \<le> n div s")
    case True
    have "n - f * s = (n div s - f) * s + n mod s"
      using div_mult_mod_eq [of n s] mult_le_mono1 [OF True, of s] by (simp add: diff_mult_distrib)
    then show ?thesis using s by simp
  next
    case False
    then have "n < f * s" using s by (metis div_less_iff_less_mult not_le)
    with False show ?thesis by simp
  qed
qed

lemma page_int: "x \<le> 4096 \<Longrightarrow> int x \<le> INT_MAX"
  by (simp add: INT_MAX_def)

lemma alsa_pad_loop_runs:
  fixes w :: "'z posix_scheme"
  assumes sizes: "0 < ch" "0 < ib" "ib \<le> ob" "ob * ch \<le> 4096"
    and i: "alsa_sample_size i = int (ib * ch)" "alsa_padoutw i = int ob"
  shows "length pb = 4096 \<Longrightarrow> unat n \<le> length samples \<Longrightarrow> int (unat n) \<le> INT_MAX \<Longrightarrow>
    alsa_bounds (p_answer w) (alsa_pcm_handle i) \<Longrightarrow> alsa_lively K (p_answer w) (alsa_pcm_handle i) \<Longrightarrow>
    \<exists>r pb' v m. alsa_pad_loop i (int ch) (int ib) pb samples n w = Some (r, pb', v) \<and> m \<le> unat n div (ib * ch) \<and>
      heard (alsa_pcm_handle i) v = heard (alsa_pcm_handle i) w @
        take (m * (ob * ch)) (concat (map (widened (w_big_endian w) ib ob samples) [0..<unat n div (ib * ch) * ch])) \<and>
      (r \<longrightarrow> m = unat n div (ib * ch)) \<and> length pb' = 4096"
proof (induction "unat n" arbitrary: n pb samples w rule: less_induct)
  case less
  let ?pcm = "alsa_pcm_handle i" and ?S = "ib * ch" and ?O = "ob * ch" and ?e = "w_big_endian w"
  define F where "F = unat n div ?S"
  have S: "0 < ?S" "?S \<le> ?O" "0 < ?O" using sizes by simp_all
  have S4: "?S \<le> 4096" using S(2) sizes(4) by linarith
  have wS: "unat (word_of_int (int ?S) :: 32 word) = ?S" by (rule small_word) (use S4 in linarith)
  have cmp: "n < word_of_int (int ?S) \<longleftrightarrow> unat n < ?S" by (simp only: word_less_nat_alt wS)
  have oframe: "c_int (int ob * int ch) = Some (int ?O)"
    using sizes(4) by (simp add: c_int_def INT_MIN_def INT_MAX_def flip: of_nat_mult)
  show ?case
  proof (cases "unat n < ?S")
    case True
    then have "alsa_pad_loop i (int ch) (int ib) pb samples n w = Some (True, pb, w)"
      using cmp i by (subst alsa_pad_loop.simps) simp
    with True less.prems(1) show ?thesis by (intro exI [of _ True] exI [of _ pb] exI [of _ w] exI [of _ 0]) simp
  next
    case False
    define f where "f = min (4096 div ?O) F"
    have F1: "1 \<le> F" unfolding F_def using False S(1) by (simp add: Suc_le_eq div_greater_zero_iff)
    have f: "1 \<le> f" "f \<le> F" "f * ?O \<le> 4096"
    proof -
      have "1 \<le> 4096 div ?O" using sizes(4) S(3) by (simp add: Suc_le_eq div_greater_zero_iff)
      then show "1 \<le> f" "f \<le> F" using F1 by (simp_all add: f_def)
      have "f * ?O \<le> 4096 div ?O * ?O" by (rule mult_le_mono1) (simp add: f_def)
      then show "f * ?O \<le> 4096" by (rule order_trans) simp
    qed
    have FS: "F * ?S \<le> unat n" by (simp add: F_def)
    then have fS: "f * ?S \<le> unat n" using f(2) mult_le_mono1 order_trans by blast
    have iframes: "int_of_u32 (n div word_of_int (int ?S)) = int F"
    proof -
      have u: "unat (n div word_of_int (int ?S)) = F" unfolding F_def by (simp only: unat_div wS)
      have "int F \<le> INT_MAX" using less.prems(3) div_le_dividend [of "unat n" ?S] unfolding F_def by linarith
      from sint_of_nat32 [OF this] show ?thesis unfolding u [symmetric] by simp
    qed
    have oframes: "4096 sdiv int ?O = int (4096 div ?O)" using S(3) by (simp add: signed_divide_int_def zdiv_int)
    have frames: "(if int (4096 div ?O) < int F then int (4096 div ?O) else int F) = int f"
      by (simp add: f_def min_def)
    have obytes: "c_int (int f * int ?O) = Some (int (f * ?O))"
      using f(3) by (simp add: c_int_def INT_MIN_def INT_MAX_def flip: of_nat_mult)
    have fit: "f * ch * ib \<le> length samples" "f * ch * ob \<le> length pb"
      using fS less.prems(1,2) f(3) by (simp_all add: mult.commute mult.left_commute)
    from alsa_pad_widened [OF _ sizes(3) fit, of ?e] sizes obtain t where
      t: "alsa_pad (f * ch) ?e (int ib) (int ob) samples pb = Some t" "length t = 4096"
        "take (f * ch * ob) t = concat (map (widened ?e ib ob samples) [0..<f * ch])" using less.prems(1) by auto
    have nf: "nat (int f * int ch) = f * ch" by (simp flip: of_nat_mult)
    have uf: "unat (word_of_int (int (f * ?O)) :: 32 word) = f * ?O" by (rule small_word) (use f(3) in linarith)
    have df: "unat (word_of_int (int (f * ?O)) :: 32 word) div ?O = f" unfolding uf using S(3) by simp
    have ready: "unat (word_of_int (int (f * ?O)) :: 32 word) div ?O * ?O \<le> length t"
        "int (unat (word_of_int (int (f * ?O)) :: 32 word)) \<le> INT_MAX" "int ?O \<le> INT_MAX"
      unfolding uf using f(3) t(2) S(3) page_int [OF f(3)] page_int [OF sizes(4)] by simp_all
    obtain ok u m1 where p: "alsa_playi i t (word_of_int (int (f * ?O))) (int ?O) w = Some (ok, u)" "m1 \<le> f"
      "heard ?pcm u = heard ?pcm w @ take (m1 * ?O) t" "ok \<longrightarrow> m1 = f" "p_answer u = p_answer w"
      "w_big_endian u = ?e"
      using alsa_playi_frames [OF S(3) ready less.prems(4,5)] unfolding df by blast
    let ?n = "n - word_of_int (int (f * ?S))"
    have S0: "int ?S \<noteq> 0" "int ?O \<noteq> 0" using S by (simp_all del: of_nat_mult)
    have pad: "alsa_pad (nat (int f * int ch)) ?e (int ib) (alsa_padoutw i) samples pb = Some t" using t(1) nf i(2) by simp
    have fS': "int f * int ?S = int (f * ?S)" by simp
    have step: "alsa_pad_loop i (int ch) (int ib) pb samples n w =
        (if \<not> ok then Some (False, t, u) else alsa_pad_loop i (int ch) (int ib) t (drop (f * ?S) samples) ?n u)"
      using alsa_pad_loop_step [OF _ i(1) S0(1) oframe [folded i(2)] S0(2) iframes _ obytes pad p(1)]
        cmp False frames unfolding oframes fS' nat_int by blast
    define G where "G = widened ?e ib ob samples"
    define W where "W k = concat (map G [0..<k])" for k
    have len: "length (W k) = k * ob" if "k * ib \<le> length samples" for k
      unfolding W_def G_def using concat_widened_length [OF sizes(3) that] .
    have early: "take (m * ?O) t = take (m * ?O) (W (F * ch))" if "m \<le> f" for m
    proof -
      have "take (f * ch * ob) t = take (f * ch * ob) (W (F * ch))"
      proof -
        have "W (F * ch) = W (f * ch) @ concat (map (\<lambda>k. G (f * ch + k)) [0..<(F - f) * ch])"
          using concat_map_add [of G "f * ch" "(F - f) * ch"] f(2) by (simp add: W_def flip: add_mult_distrib)
        then show ?thesis using t(3) len [OF fit(1)] by (simp add: W_def G_def)
      qed
      then have "take (m * ?O) (take (f * ch * ob) t) = take (m * ?O) (take (f * ch * ob) (W (F * ch)))" by simp
      moreover have "m * ?O \<le> f * ch * ob" using mult_le_mono1 [OF that, of ?O] by (simp add: ac_simps)
      ultimately show ?thesis by (simp add: min_def)
    qed
    show ?thesis
    proof (cases ok)
      case False
      then show ?thesis
        unfolding F_def [symmetric] G_def [symmetric] W_def [symmetric]
        using step p(2,3) early [OF p(2)] f(2) t(2)
        by (intro exI [of _ False] exI [of _ t] exI [of _ u] exI [of _ m1]) simp
    next
      case True
      then have m1: "m1 = f" using p(4) by simp
      have un: "unat ?n = unat n - f * ?S" using unat_minus_written_nat [OF fS] .
      have less: "unat ?n < unat n" proof -
        have "0 < f * ?S" using f(1) S(1) by simp
        then show ?thesis unfolding un using fS by linarith
      qed
      have Fn: "unat ?n div ?S = F - f"
        unfolding un F_def by (rule div_less_pages [OF S(1)])
      have "unat ?n \<le> length (drop (f * ?S) samples)" unfolding un using less.prems(2) by simp
      moreover have "int (unat ?n) \<le> INT_MAX" using less less.prems(3) by linarith
      ultimately obtain r pb' v m where ih:
        "alsa_pad_loop i (int ch) (int ib) t (drop (f * ?S) samples) ?n u = Some (r, pb', v)" "m \<le> F - f"
        "heard ?pcm v = heard ?pcm u @
           take (m * ?O) (concat (map (widened ?e ib ob (drop (f * ?S) samples)) [0..<(F - f) * ch]))"
        "r \<longrightarrow> m = F - f" "length pb' = 4096"
        using less.hyps [OF less t(2), of "drop (f * ?S) samples" u] less.prems(4,5) p(5,6) unfolding Fn by auto
      have shift: "widened ?e ib ob (drop (f * ?S) samples) = (\<lambda>k. G (f * ch + k))"
        using widened_drop [of ?e ib ob "f * ch" samples] by (auto simp: G_def ac_simps)
      have "take (f * ?O) (W (F * ch)) @ take (m * ?O) (concat (map (\<lambda>k. G (f * ch + k)) [0..<(F - f) * ch])) =
          take ((f + m) * ?O) (W (F * ch))"
      proof -
        have "W (F * ch) = W (f * ch) @ concat (map (\<lambda>k. G (f * ch + k)) [0..<(F - f) * ch])"
          using concat_map_add [of G "f * ch" "(F - f) * ch"] f(2) by (simp add: W_def flip: add_mult_distrib)
        moreover have "length (W (f * ch)) = f * ?O" using len [OF fit(1)] by (simp add: ac_simps)
        ultimately show ?thesis by (simp add: add_mult_distrib)
      qed
      then have "heard ?pcm v = heard ?pcm w @ take ((f + m) * ?O) (W (F * ch))"
        unfolding ih(3) p(3) shift m1 early [OF order_refl] by simp
      then show ?thesis
        unfolding F_def [symmetric] G_def [symmetric] W_def [symmetric]
        using step True ih f(2)
        by (intro exI [of _ r] exI [of _ pb'] exI [of _ v] exI [of _ "f + m"]) auto
    qed
  qed
qed

end
