(* ===== verification/AO_Alsa_Laws.thy ===== *)
theory AO_Alsa_Laws
  imports AO_Alsa_Play AO_Drivers
begin

text \<open>
  The properties of the ALSA driver: the time that \<open>close\<close> sleeps, in the arithmetic of \<open>double\<close>,
  what \<open>play\<close> delivers, the order in which devices are tried, and where the widths go wrong.
\<close>

section \<open>The time to sleep\<close>

text \<open>
  C36.  When ALSA's \<open>close\<close> finds \<open>n\<close> frames still to be heard, it sleeps for their time: never for
  nothing to wait for, to less than two nanoseconds, with a time that \<open>nanosleep\<close> accepts; for
  more than a second it drains the stream instead.
\<close>

theorem alsa_close_time_exact:
  assumes "0 < uint rate" and "n < 9007199254740992"
  shows "case alsa_close_time n rate of
      Alsa_silent \<Rightarrow> n \<le> 0
    | Alsa_drain \<Rightarrow> uint rate < n
    | Alsa_sleep sec nsec \<Rightarrow> 0 < n \<and> n \<le> uint rate \<and> 0 \<le> sec \<and> 0 \<le> nsec \<and> nsec < 1000000000 \<and>
        \<bar>of_int (sec * 1000000000 + nsec) - of_int n / of_int (uint rate) * 1000000000\<bar> < (2 :: rat)"
proof -
  define R :: rat where "R = of_int (uint rate)"
  have R: "1 \<le> R" "R < 4294967296"
  proof -
    have "uint rate < 2 ^ LENGTH(32)" by (rule unsigned_less)
    then have "uint rate < 4294967296" by simp
    then have "rat_of_int (uint rate) < of_int 4294967296" by (simp only: of_int_less_iff)
    moreover have "rat_of_int 1 \<le> of_int (uint rate)" using assms(1) by (simp only: of_int_le_iff)
    ultimately show "1 \<le> R" "R < 4294967296" by (simp_all add: R_def)
  qed
  have r0: "rate \<noteq> 0" using assms(1) by auto
  define s where "s = double_round (double_round (of_int n) / R)"
  have t: "alsa_close_time n rate = (if s > 1 then Alsa_drain else if s > 0
      then Alsa_sleep \<lfloor>s\<rfloor> \<lfloor>double_round (double_round (s - of_int \<lfloor>s\<rfloor>) * 1000000000)\<rfloor> else Alsa_silent)"
    using r0 by (simp add: alsa_close_time_def s_def R_def Let_def)
  show ?thesis
  proof (cases "n \<le> 0")
    case True
    then have "double_round (of_int n) \<le> 0" by (simp add: double_round_nonpos)
    then have "double_round (of_int n) / R \<le> 0" using R(1) by (simp add: divide_le_0_iff)
    then have "s \<le> 0" unfolding s_def by (rule double_round_nonpos)
    with t True show ?thesis by simp
  next
    case False
    define q where "q = of_int n / R"
    have s: "s = double_round q" using double_round_int [of n] False assms(2) by (simp add: s_def q_def)
    have q: "0 < q" using False R(1) by (simp add: q_def)
    have e: "\<bar>s - q\<bar> \<le> q / 9007199254740992" using double_round_error [OF q] by (simp add: s)
    then have s0: "0 < s" using q by linarith
    show ?thesis
    proof (cases "uint rate < n")
      case True
      then have "uint rate + 1 \<le> n" by simp
      then have "rat_of_int (uint rate + 1) \<le> of_int n" by (simp only: of_int_le_iff)
      then have "R + 1 \<le> of_int n" by (simp add: R_def)
      then have "(R + 1) / R \<le> q" unfolding q_def using R(1) by (intro divide_right_mono) simp_all
      then have "1 + 1 / R \<le> q" using R(1) by (simp add: add_divide_distrib)
      moreover have "1 / 4294967296 < 1 / R" using R by (simp add: field_simps)
      ultimately have "1 < s" using e by linarith
      with t True show ?thesis by simp
    next
      case le: False
      show ?thesis
      proof (cases "n = uint rate")
        case True
        then have "q = of_int 1" using R(1) by (simp add: q_def R_def)
        then have "s = 1" using double_round_int [of 1] by (simp add: s)
        with t True False assms(1) q R show ?thesis by (simp add: double_round_def q_def R_def)
      next
        case False': False
        then have "n + 1 \<le> uint rate" using le by simp
        then have "rat_of_int (n + 1) \<le> of_int (uint rate)" by (simp only: of_int_le_iff)
        then have "of_int n \<le> R - 1" by (simp add: R_def)
        then have "q \<le> (R - 1) / R" unfolding q_def using R(1) by (intro divide_right_mono) simp_all
        then have "q \<le> 1 - 1 / R" using R(1) by (simp add: diff_divide_distrib)
        moreover have "1 / 4294967296 < 1 / R" using R by (simp add: field_simps)
        ultimately have q1: "q < 1 - 1 / 4294967296" by linarith
        then have s1: "s < 1" using e by linarith
        then have fl: "\<lfloor>s\<rfloor> = 0" using s0 by (simp add: floor_eq_iff)
        define d where "d = double_round s"
        have d: "\<bar>d - s\<bar> \<le> s / 9007199254740992" using double_round_error [OF s0] by (simp add: d_def)
        have d0: "0 < d * 1000000000" using d s0 by linarith
        define p where "p = double_round (d * 1000000000)"
        have p: "\<bar>p - d * 1000000000\<bar> \<le> d * 1000000000 / 9007199254740992"
          using double_round_error [OF d0] by (simp add: p_def)
        have near: "\<bar>p - q * 1000000000\<bar> < 1 / 1000" "0 < p" "p < 1000000000"
          using p d e q1 q s1 s0 by linarith+
        have "0 \<le> \<lfloor>p\<rfloor>" "\<lfloor>p\<rfloor> < 1000000000" using near(2,3) by (simp_all add: floor_less_iff)
        moreover have "of_int \<lfloor>p\<rfloor> \<le> p" "p < of_int \<lfloor>p\<rfloor> + 1" using floor_correct [of p] by simp_all
        ultimately have nsec: "0 \<le> \<lfloor>p\<rfloor>" "\<lfloor>p\<rfloor> < 1000000000" "of_int \<lfloor>p\<rfloor> \<le> p" "p < of_int \<lfloor>p\<rfloor> + 1" by blast+
        have "\<bar>of_int \<lfloor>p\<rfloor> - q * 1000000000\<bar> < (2 :: rat)" using near(1) nsec(3,4) by linarith
        moreover have "alsa_close_time n rate = Alsa_sleep 0 \<lfloor>p\<rfloor>" using t s0 s1 fl by (simp add: p_def d_def)
        ultimately show ?thesis using nsec False le by (simp add: q_def R_def)
      qed
    qed
  qed
qed

theorem alsa_close_time_exact_witness:
  "case alsa_close_time 441 44100 of Alsa_sleep sec nsec \<Rightarrow> \<bar>of_int (sec * 1000000000 + nsec) - 10000000\<bar> < (2 :: rat) | _ \<Rightarrow> True"
  using alsa_close_time_exact [of 44100 441] by (simp split: alsa_rest.splits)


section \<open>Playing\<close>

text \<open>
  C34.  \<open>play\<close> of ALSA returns, whatever errors the device recovers from, as long as it does not put
  off for ever: no more than \<open>K\<close> writes in a row that take nothing, nor attempts to wake up.  The
  device has got a prefix of the frames, and all of them when \<open>play\<close> reports success.
\<close>

theorem alsa_play_returns:
  assumes "alsa_state d = Some i" and "alsa_padbuffer i = None" and "alsa_sample_size i = int s" and "0 < s"
    and "unat n \<le> length samples" and "int (unat n) \<le> INT_MAX" and "int s \<le> INT_MAX"
    and "alsa_bounds (p_answer w) (alsa_pcm_handle i)" and "alsa_lively K (p_answer w) (alsa_pcm_handle i)"
  shows "\<exists>r v m. ao_alsa_play d samples n w = Some (r, d, v) \<and> m \<le> unat n div s \<and>
    heard (alsa_pcm_handle i) v = heard (alsa_pcm_handle i) w @ take (m * s) samples \<and> (r \<longrightarrow> m = unat n div s)"
proof -
  have "unat n div s * s \<le> length samples" using assms(5) div_times_less_eq_dividend [of "unat n" s] by linarith
  from alsa_playi_frames [OF assms(4) this assms(6,7,8,9)] obtain r v m where
    p: "alsa_playi i samples n (int s) w = Some (r, v)" "m \<le> unat n div s"
      "heard (alsa_pcm_handle i) v = heard (alsa_pcm_handle i) w @ take (m * s) samples" "r \<longrightarrow> m = unat n div s"
    by blast
  have "ao_alsa_play d samples n w = Some (r, d, v)" using assms(1-3) p(1) by (simp add: ao_alsa_play_def)
  with p(2-4) show ?thesis by blast
qed

text \<open>A device that takes all it is offered, on a machine of the demo's kind.\<close>

definition taking_answer :: "call list \<Rightarrow> call \<Rightarrow> reply" where
  "taking_answer h c = number_reply (case c of Alsa (Snd_pcm_writei m p bs n) \<Rightarrow> int (unat n) | _ \<Rightarrow> 0) 1 0"

definition taking_world :: posix where
  "taking_world = demo_posix taking_answer []"

definition alsa_ready :: "byte list option \<Rightarrow> int \<Rightarrow> int \<Rightarrow> live_device" where
  "alsa_ready padbuffer padoutw sample_size = set_alsa
     \<lparr>alsa_pcm_handle = 1, alsa_buffer_time = 20000, alsa_period_time = 5000, alsa_period_size = 220,
      alsa_sample_size = sample_size, alsa_sample_rate = 44100, alsa_bitformat = 2, alsa_padbuffer = padbuffer,
      alsa_padoutw = padoutw, alsa_dev = Some ''default'', alsa_id = -1, alsa_mmap = False, alsa_access_mask = 3,
      alsa_static_delay = 0, alsa_local_config = 0\<rparr>
     ((fresh_device 14 (ao_alsa (build_alsa live_builds) :: (plugin_internal ao_internal, posix) ao_functions)
        stereo_format None False)\<lparr>output_channels := 2\<rparr>)"

lemma taking_world_facts:
  "alsa_bounds (p_answer taking_world) 1" "alsa_lively 1 (p_answer taking_world) 1"
  "heard 1 taking_world = []" "w_big_endian taking_world = False"
proof -
  have "0 \<le> uint n" for n :: "32 word" by simp
  then have "- 2147483648 \<le> uint n" for n :: "32 word" by (rule order_trans [rotated]) simp
  then show "alsa_bounds (p_answer taking_world) 1" "heard 1 taking_world = []" "w_big_endian taking_world = False"
    by (simp_all add: taking_world_def demo_posix_def demo_world_def alsa_bounds_def taking_answer_def Let_def
        INT_MIN_def heard_def)
  have "write_kind 1 c (taking_answer h c) \<noteq> Some True" "resume_kind 1 c (taking_answer h c) \<noteq> Some True" for h c
    by (auto simp: write_kind_def resume_kind_def taking_answer_def uint_0_iff posix_errnos
        split: call.splits alsa_call.splits if_splits)
  then show "alsa_lively 1 (p_answer taking_world) 1"
    by (simp add: alsa_lively_def at_most_in_a_row_def taking_world_def demo_posix_def)
qed

theorem alsa_play_returns_witness:
  "\<exists>r v m. ao_alsa_play (alsa_ready None 0 4) [1, 2, 3, 4, 5, 6, 7, 8] 8 taking_world = Some (r, alsa_ready None 0 4, v) \<and>
    m \<le> 2 \<and> heard 1 v = take (m * 4) [1, 2, 3, 4, 5, 6, 7, 8] \<and> (r \<longrightarrow> m = 2)"
  using alsa_play_returns [of "alsa_ready None 0 4" _ 4 8 "[1, 2, 3, 4, 5, 6, 7, 8]" taking_world 1] taking_world_facts
  by (simp add: alsa_ready_def INT_MAX_def)


text \<open>
  C35.  When the samples have to be made wider, \<open>play\<close> gives the device a prefix of the widened samples:
  each one among zeros, at the end of its cell where its weight stays the same; all of
  them when it succeeds.  Buffers of any length go through the one page that \<open>open\<close> allocated.
\<close>

theorem alsa_play_widens:
  assumes "alsa_state d = Some i" and "alsa_padbuffer i = Some pb" and "length pb = 4096"
    and "output_channels d = int ch" and "0 < ch" and "0 < ib" and "ib \<le> ob" and "ob * ch \<le> 4096"
    and "alsa_sample_size i = int (ib * ch)" and "alsa_padoutw i = int ob"
    and "unat n \<le> length samples" and "int (unat n) \<le> INT_MAX"
    and "alsa_bounds (p_answer w) (alsa_pcm_handle i)" and "alsa_lively K (p_answer w) (alsa_pcm_handle i)"
  shows "\<exists>r d' v m. ao_alsa_play d samples n w = Some (r, d', v) \<and> m \<le> unat n div (ib * ch) \<and>
    heard (alsa_pcm_handle i) v = heard (alsa_pcm_handle i) w @ take (m * (ob * ch))
      (concat (map (widened (w_big_endian w) ib ob samples) [0..<unat n div (ib * ch) * ch])) \<and>
    (r \<longrightarrow> m = unat n div (ib * ch))"
proof -
  from alsa_pad_loop_runs [OF assms(5-10,3,11-14)] obtain r pb' v m where
    p: "alsa_pad_loop i (int ch) (int ib) pb samples n w = Some (r, pb', v)" "m \<le> unat n div (ib * ch)"
      "heard (alsa_pcm_handle i) v = heard (alsa_pcm_handle i) w @ take (m * (ob * ch))
        (concat (map (widened (w_big_endian w) ib ob samples) [0..<unat n div (ib * ch) * ch]))"
      "r \<longrightarrow> m = unat n div (ib * ch)" by blast
  have "0 < int ib * int ch" using assms(5,6) by simp
  then have "int (ib * ch) sdiv int ch = int ib" using assms(5,6) by (simp add: signed_divide_int_def)
  then have "\<exists>d'. ao_alsa_play d samples n w = Some (r, d', v)"
    using assms(1,2,4,5,9) p(1) by (simp add: ao_alsa_play_def)
  with p(2-4) show ?thesis by blast
qed

theorem alsa_play_widens_witness:
  "\<exists>r d' v m. ao_alsa_play (alsa_ready (Some (replicate 4096 0)) 4 4) [1, 2, 3, 4, 5, 6, 7, 8] 8 taking_world = Some (r, d', v) \<and>
    m \<le> 2 \<and> heard 1 v = take (m * 8) [0, 0, 1, 2, 0, 0, 3, 4, 0, 0, 5, 6, 0, 0, 7, 8] \<and> (r \<longrightarrow> m = 2)"
proof -
  have "concat (map (widened False 2 4 [1, 2, 3, 4, 5, 6, 7, 8]) [0..<4]) = [0, 0, 1, 2, 0, 0, 3, 4, 0, 0, 5, 6, 0, 0, 7, 8]"
    by (simp add: widened_def upt_rec eval_nat_numeral)
  with alsa_play_widens [of "alsa_ready (Some (replicate 4096 0)) 4 4" _ "replicate 4096 0" 2 2 4 8
      "[1, 2, 3, 4, 5, 6, 7, 8]" taking_world 1] taking_world_facts
  show ?thesis by (simp add: alsa_ready_def INT_MAX_def)
qed


section \<open>Sizes that do not fit\<close>

lemma alsa_padding_s24:
  assumes "alsa_padding h pre i f w = Some (i', f', v)" and "alsa_bitformat i' = SND_PCM_FORMAT_S24 h"
  shows "alsa_bitformat i = SND_PCM_FORMAT_S24 h \<and> alsa_padoutw i' = 32 \<and> f' = f"
  using assms by (auto simp: alsa_padding_def Let_def split: if_splits prod.splits Option.bind_splits)

lemma alsa_state_matrix [simp]: "alsa_state ((set_alsa i d)\<lparr>inter_matrix := m\<rparr>) = Some i"
  by (simp add: plugin_state_iff)

text \<open>
  C37.  A stream that ALSA takes as 24 bits in words of 4 bytes is never right: \<open>open\<close> sets the width
  of a widened sample to 32 bytes where 32 bits are meant, and the size of a frame counts 24 bits
  for each channel, also when the application's samples have 8 or 16 bits.
\<close>

theorem alsa_s24_sizes:
  assumes "ao_alsa_open h d f w = Some (True, d', f', w')" and "alsa_formats h"
    and "alsa_state d' = Some i" and "alsa_bitformat i = SND_PCM_FORMAT_S24 h"
  shows "alsa_padoutw i = 32 \<and> alsa_sample_size i = (24 * output_channels d') sdiv 8 \<and> fmt_bits f' = 24"
proof -
  define b where "b = alsa_get_sample_bitformat h (fmt_bits f)"
  let ?d = "if fmt_bits f > 8 then d\<lparr>driver_byte_format := client_byte_format d\<rparr> else d"
  obtain j where j: "alsa_state d = Some j" using assms(1) by (auto simp: ao_alsa_open_def split: Option.bind_splits)
  have b: "\<not> b < 0" using assms(1) j by (auto simp: ao_alsa_open_def b_def)
  obtain err d1 i1 f1 w1 where 1: "alsa_select h ?d (j\<lparr>alsa_bitformat := b\<rparr>) f w = Some (err, d1, i1, f1, w1)"
    using assms(1) j b by (auto simp: ao_alsa_open_def b_def [symmetric] simp del: if_split_asm split: Option.bind_splits)
  have err: "\<not> err < 0" using assms(1) j b 1 by (auto simp: ao_alsa_open_def b_def [symmetric])
  obtain i2 f2 w2 where 2: "alsa_padding h (fmt_bits f) i1 f1 w1 = Some (i2, f2, w2)"
    using assms(1) j b 1 err by (auto simp: ao_alsa_open_def b_def [symmetric] split: Option.bind_splits)
  obtain r3 w3 where 3: "ask (Alsa (Snd_pcm_delay (alsa_pcm_handle i2))) w2 = (r3, w3)" by fastforce
  from assms(1,3) j b 1 err 2 3 have res: "f' = f2" "alsa_bitformat i = alsa_bitformat i2"
    "alsa_padoutw i = alsa_padoutw i2" "alsa_sample_size i = (fmt_bits f2 * output_channels d1) sdiv 8"
    "output_channels d' = output_channels d1"
    by (auto simp: ao_alsa_open_def b_def [symmetric] Let_def c_int_def split: Option.bind_splits if_splits)
  note s2 = alsa_padding_s24 [OF 2 assms(4) [unfolded res(2)]]
  have "s24_bits h (j\<lparr>alsa_bitformat := b\<rparr>) f"
    using assms(2) by (auto simp: s24_bits_def b_def alsa_get_sample_bitformat_def alsa_formats_def split: if_splits)
  then have "s24_bits h i1 f1" using alsa_select_held [OF 1] assms(2) by (simp add: alsa_same_def)
  with s2 have "fmt_bits f1 = 24" by (simp add: s24_bits_def)
  with s2 res show ?thesis by simp
qed


text \<open>A stream of 24 bits and two channels, opened on the device named by the options.\<close>

definition alsa_prepared_device :: live_device where
  "alsa_prepared_device = set_alsa
     \<lparr>alsa_pcm_handle = 0, alsa_buffer_time = 20000, alsa_period_time = 0, alsa_period_size = 0,
      alsa_sample_size = 0, alsa_sample_rate = 0, alsa_bitformat = 0, alsa_padbuffer = None,
      alsa_padoutw = 0, alsa_dev = Some ''default'', alsa_id = -1, alsa_mmap = False, alsa_access_mask = 3,
      alsa_static_delay = 0, alsa_local_config = 0\<rparr>
     ((fresh_device 14 (ao_alsa (build_alsa live_builds) :: (plugin_internal ao_internal, posix) ao_functions)
        stereo_format None False)\<lparr>output_channels := 2\<rparr>)"

lemma alsa_s24_opens:
  "case ao_alsa_open (build_alsa live_builds) alsa_prepared_device (stereo_format\<lparr>fmt_bits := 24\<rparr>) taking_world of
     Some (r, d', f', w') \<Rightarrow> r \<and> (case alsa_state d' of
        Some i \<Rightarrow> alsa_bitformat i = SND_PCM_FORMAT_S24 (build_alsa live_builds) | None \<Rightarrow> False)
   | None \<Rightarrow> False"
  by code_simp

lemma alsa_formats_live: "alsa_formats (build_alsa live_builds)"
  by code_simp

theorem alsa_s24_sizes_witness:
  "\<exists>d' f' w' i. ao_alsa_open (build_alsa live_builds) alsa_prepared_device (stereo_format\<lparr>fmt_bits := 24\<rparr>) taking_world
     = Some (True, d', f', w') \<and> alsa_state d' = Some i \<and> alsa_padoutw i = 32"
  using alsa_s24_opens alsa_s24_sizes [OF _ alsa_formats_live]
  by (fastforce split: option.splits)

end
