(* ===== verification/AO_Mac_Ring.thy ===== *)
theory AO_Mac_Ring
  imports AO_Macosx
begin

text \<open>
  The ring buffer between \<open>play\<close> and the callback of the CoreAudio driver refines a queue of bytes:
  what the queue promises, the queue that a ring holds, and that the steps of the code are steps
  of the queue, in any order in which the two threads take them.
\<close>

section \<open>The queue\<close>

text \<open>
  \<open>Accept bs\<close> appends.  \<open>Give bs pad silent\<close> hands out a buffer with the bytes \<open>bs\<close> and \<open>pad\<close>
  zeros, flagged as silence or not: as many bytes as asked for when there are so many, otherwise
  only silence and nothing taken, and once the stream is stopping the rest.
\<close>

datatype queue_event = Accept "byte list" | Give "byte list" nat bool

inductive queue_step :: "nat \<Rightarrow> bool \<Rightarrow> queue_event \<Rightarrow> byte list \<Rightarrow> byte list \<Rightarrow> bool" for cap stopping where
  accept: "length q + length bs \<le> cap \<Longrightarrow> queue_step cap stopping (Accept bs) q (q @ bs)"
| whole: "n \<le> length q \<Longrightarrow> queue_step cap stopping (Give (take n q) 0 False) q (drop n q)"
| hold: "\<not> stopping \<Longrightarrow> length q < n \<Longrightarrow> queue_step cap stopping (Give [] n True) q q"
| rest: "stopping \<Longrightarrow> length q < n \<Longrightarrow> queue_step cap stopping (Give q (n - length q) False) q []"

inductive_simps queue_step_simps:
  "queue_step cap stopping (Accept bs) q q'" "queue_step cap stopping (Give bs pad silent) q q'"

inductive queue_run :: "nat \<Rightarrow> bool \<Rightarrow> queue_event list \<Rightarrow> byte list \<Rightarrow> byte list \<Rightarrow> bool" for cap stopping where
  run_none: "queue_run cap stopping [] q q"
| run_step: "queue_step cap stopping e q r \<Longrightarrow> queue_run cap stopping es r s \<Longrightarrow> queue_run cap stopping (e # es) q s"

lemma queue_run_append:
  "queue_run cap st es q r \<Longrightarrow> queue_run cap st fs r s \<Longrightarrow> queue_run cap st (es @ fs) q s"
  by (induction rule: queue_run.induct) (auto intro: queue_run.intros)

definition accepted :: "queue_event list \<Rightarrow> byte list" where
  "accepted es = concat (map (\<lambda>e. case e of Accept bs \<Rightarrow> bs | Give _ _ _ \<Rightarrow> []) es)"

definition given :: "queue_event list \<Rightarrow> byte list" where
  "given es = concat (map (\<lambda>e. case e of Accept _ \<Rightarrow> [] | Give bs _ _ \<Rightarrow> bs) es)"

lemma accepted_simps [simp]:
  "accepted [] = []" "accepted (Accept bs # es) = bs @ accepted es" "accepted (Give r p s # es) = accepted es"
  "given [] = []" "given (Accept bs # es) = given es" "given (Give r p s # es) = r @ given es"
  by (simp_all add: accepted_def given_def)

text \<open>First in, first out, nothing lost and nothing made up.\<close>

lemma queue_run_fifo: "queue_run cap st es q q' \<Longrightarrow> given es @ q' = q @ accepted es"
proof (induction rule: queue_run.induct)
  case (run_step e q r es s)
  then show ?case by (cases rule: queue_step.cases) auto
qed simp

lemma queue_run_bounded: "queue_run cap st es q q' \<Longrightarrow> length q \<le> cap \<Longrightarrow> length q' \<le> cap"
proof (induction rule: queue_run.induct)
  case (run_step e q r es s)
  from run_step(1) have "length r \<le> cap" using run_step(4) by (cases rule: queue_step.cases) auto
  then show ?case by (rule run_step.IH)
qed simp

section \<open>Rings\<close>

text \<open>\<open>v\<close> elements of the ring \<open>buf\<close> from position \<open>f\<close> on.\<close>

definition ring :: "'a list \<Rightarrow> nat \<Rightarrow> nat \<Rightarrow> 'a list" where
  "ring buf f v = map (\<lambda>k. buf ! ((f + k) mod length buf)) [0..<v]"

lemma ring_length [simp]: "length (ring buf f v) = v"
  by (simp add: ring_def)

lemma ring_nth: "k < v \<Longrightarrow> ring buf f v ! k = buf ! ((f + k) mod length buf)"
  by (simp add: ring_def)

lemma ring_take: "b \<le> v \<Longrightarrow> take b (ring buf f v) = ring buf f b"
  by (rule nth_equalityI) (simp_all add: ring_nth)

lemma ring_drop: "b \<le> v \<Longrightarrow> drop b (ring buf f v) = ring buf ((f + b) mod length buf) (v - b)"
  by (rule nth_equalityI) (simp_all add: ring_nth mod_add_left_eq add.assoc)

lemma ring_straight: "f + b \<le> length buf \<Longrightarrow> ring buf f b = take b (drop f buf)"
  by (rule nth_equalityI) (simp_all add: ring_nth)

lemma ring_wrapped:
  assumes "f < length buf" and "b \<le> length buf" and "length buf < f + b"
  shows "ring buf f b = drop f buf @ take (b - (length buf - f)) buf"
proof (rule nth_equalityI)
  show "length (ring buf f b) = length (drop f buf @ take (b - (length buf - f)) buf)" using assms by simp
  fix k assume "k < length (ring buf f b)"
  then have k: "k < b" by simp
  show "ring buf f b ! k = (drop f buf @ take (b - (length buf - f)) buf) ! k"
  proof (cases "f + k < length buf")
    case True
    then show ?thesis using k by (simp add: ring_nth nth_append less_diff_conv add.commute)
  next
    case False
    then have "(f + k) mod length buf = (f + k - length buf) mod length buf" by (intro le_mod_geq) simp
    also have "\<dots> = f + k - length buf" using assms k by (intro mod_less) linarith
    also have "\<dots> = k - (length buf - f)" using assms(1) False by linarith
    finally have "(f + k) mod length buf = k - (length buf - f)" .
    moreover have "\<not> k < length buf - f" using False by linarith
    ultimately show ?thesis using assms k by (simp add: ring_nth nth_append)
  qed
qed

text \<open>New elements behind the last, in one piece.\<close>

lemma ring_store:
  assumes f: "f < length buf" and e: "e = (f + v) mod length buf"
    and fits: "v + length xs \<le> length buf" "e + length xs \<le> length buf"
  shows "ring (take e buf @ xs @ drop (e + length xs) buf) f (v + length xs) = ring buf f v @ xs"
    (is "ring ?buf f _ = _")
proof (rule nth_equalityI)
  have len: "length ?buf = length buf" using fits(2) by simp
  fix k assume "k < length (ring ?buf f (v + length xs))"
  then have k: "k < v + length xs" by simp
  show "ring ?buf f (v + length xs) ! k = (ring buf f v @ xs) ! k"
  proof (cases "k < v")
    case False
    define j where "j = k - v"
    have j: "j < length xs" "k = v + j" using False k by (auto simp: j_def)
    have "(f + k) mod length buf = (e + j) mod length buf" by (simp add: e j(2) mod_add_left_eq flip: add.assoc)
    also have "\<dots> = e + j" using j(1) fits(2) by simp
    finally show ?thesis using j k fits(2) len by (simp add: ring_nth nth_append)
  next
    case True
    let ?p = "(f + k) mod length buf"
    have p: "?p < length buf" using f by (intro mod_less_divisor) linarith
    have "\<not> (e \<le> ?p \<and> ?p < e + length xs)"
    proof
      assume a: "e \<le> ?p \<and> ?p < e + length xs"
      define j where "j = ?p - e"
      have j: "j < length xs" "?p = e + j" using a by (auto simp: j_def)
      have "(f + k) mod length buf = (f + (v + j)) mod length buf"
        using j(2) p by (metis e mod_add_left_eq add.assoc mod_less)
      moreover have "f + k < f + (v + j)" "f + (v + j) < f + k + length buf" using True j(1) fits(1) by auto
      ultimately have "length buf dvd (f + (v + j)) - (f + k)" by (metis mod_eq_dvd_iff_nat less_imp_le)
      then show False using \<open>f + k < f + (v + j)\<close> \<open>f + (v + j) < f + k + length buf\<close>
        by (auto dest!: dvd_imp_le)
    qed
    then have "?buf ! ?p = buf ! ?p" using p fits(2) by (auto simp: nth_append)
    then show ?thesis using True len by (simp add: ring_nth nth_append)
  qed
qed simp

section \<open>The ring of the driver\<close>

text \<open>
  Well formed: the buffer has its size, not 0 and less than \<open>2 ^ 31\<close>, so that the sums of the code do
  not wrap; the first byte is in it, and there are not more bytes than fit.
\<close>

definition mac_ring :: "ao_macosx_internal \<Rightarrow> bool" where
  "mac_ring i \<longleftrightarrow> (\<exists>buf. mac_buffer i = Some buf \<and> length buf = unat (mac_buffer_byte_count i)) \<and>
     0 < unat (mac_buffer_byte_count i) \<and> unat (mac_buffer_byte_count i) < 2147483648 \<and>
     unat (mac_first_valid i) < unat (mac_buffer_byte_count i) \<and>
     unat (mac_valid_count i) \<le> unat (mac_buffer_byte_count i)"

definition mac_queue :: "ao_macosx_internal \<Rightarrow> byte list" where
  "mac_queue i = (case mac_buffer i of
     Some buf \<Rightarrow> ring buf (unat (mac_first_valid i)) (unat (mac_valid_count i)) | None \<Rightarrow> [])"

lemma mac_queue_length: "mac_ring i \<Longrightarrow> length (mac_queue i) = unat (mac_valid_count i)"
  by (auto simp: mac_ring_def mac_queue_def)

lemma mac_ring_sel [simp]:
  "mac_ring (i\<lparr>mac_started := b\<rparr>) = mac_ring i" "mac_queue (i\<lparr>mac_started := b\<rparr>) = mac_queue i"
  "mac_ring (i\<lparr>mac_output_p := p, mac_is_stopping := s\<rparr>) = mac_ring i"
  "mac_queue (i\<lparr>mac_output_p := p, mac_is_stopping := s\<rparr>) = mac_queue i"
  by (simp_all add: mac_ring_def mac_queue_def split: option.split)

text \<open>Sums of two words below \<open>2 ^ 31\<close>.\<close>

lemma unat_sum: "unat a < 2147483648 \<Longrightarrow> unat b \<le> 2147483648 \<Longrightarrow> unat (a + b :: 32 word) = unat a + unat b"
  by (simp add: unat_word_ariths)

lemma unat_sub_le: "unat b \<le> unat a \<Longrightarrow> unat (a - b :: 32 word) = unat a - unat b"
  by (simp add: unat_sub word_le_nat_alt)

lemma unat_min: "unat (min a b :: 32 word) = min (unat a) (unat b)"
  by (simp add: min_def word_le_nat_alt)

lemma load_at: "f + n \<le> length xs \<Longrightarrow> load n xs (int f) = Some (take n (drop f xs))"
  by (simp add: load_def)

lemma store_at: "f + length ys \<le> length xs \<Longrightarrow> store xs (int f) ys = Some (take f xs @ ys @ drop (f + length ys) xs)"
  by (simp add: store_def)

text \<open>The callback is a step of the queue.\<close>

definition handed :: "queue_event \<Rightarrow> (byte list \<times> bool) list" where
  "handed e = (case e of Accept _ \<Rightarrow> [] | Give bs pad silent \<Rightarrow> [(bs @ replicate pad 0, silent)])"

lemma handed_simps [simp]:
  "handed (Accept bs) = []" "handed (Give bs pad silent) = [(bs @ replicate pad 0, silent)]"
  by (simp_all add: handed_def)

lemma mac_render_refines:
  assumes "mac_ring i"
  shows "\<exists>bs pad silent i'. mac_render n i = Some (bs @ replicate pad 0, silent, i') \<and> mac_ring i' \<and>
    length bs + pad = unat n \<and>
    queue_step (unat (mac_buffer_byte_count i)) (mac_is_stopping i) (Give bs pad silent) (mac_queue i) (mac_queue i')"
proof -
  let ?size = "mac_buffer_byte_count i" and ?first = "mac_first_valid i" and ?valid = "mac_valid_count i"
  obtain buf where b: "mac_buffer i = Some buf" "length buf = unat ?size" using assms by (auto simp: mac_ring_def)
  note r = assms [unfolded mac_ring_def]
  have len: "length (mac_queue i) = unat ?valid" by (rule mac_queue_length [OF assms])
  show ?thesis
  proof (cases "?valid < n \<and> \<not> mac_is_stopping i")
    case True
    then have "mac_render n i = Some ([] @ replicate (unat n) 0, True, i)" by (simp add: mac_render_def)
    moreover have "queue_step (unat ?size) (mac_is_stopping i) (Give [] (unat n) True) (mac_queue i) (mac_queue i)"
      using True len by (intro hold) (simp_all add: word_less_nat_alt)
    ultimately show ?thesis using assms by (intro exI conjI) (assumption | simp)+
  next
    case False
    define c where "c = min n ?valid"
    have c: "unat c \<le> unat ?valid" "unat c \<le> unat n" "unat c \<le> unat ?size"
      using r by (simp_all add: c_def unat_min min_le_iff_disj)
    have sum: "unat (?first + c) = unat ?first + unat c" using r c(3) by (intro unat_sum) simp_all
    define frag where "frag = (if ?first + c > ?size then ?size - ?first else c)"
    have out: "(if frag < c then do { a \<leftarrow> load (unat frag) buf (int (unat ?first));
          b \<leftarrow> load (unat (c - frag)) buf 0; Some (a @ b) }
        else load (unat c) buf (int (unat ?first))) = Some (ring buf (unat ?first) (unat c))"
    proof (cases "unat ?size < unat ?first + unat c")
      case True
      then have f: "unat frag = unat ?size - unat ?first"
        using sum r unat_sub_le [of ?first ?size] by (simp add: frag_def word_less_nat_alt)
      have "unat ?first < unat ?size" using r by blast
      then have lt: "unat frag < unat c" unfolding f using True by linarith
      then have lt: "unat frag < unat c" "unat (c - frag) = unat c - unat frag"
        using unat_sub_le [of frag c] by simp_all
      have "ring buf (unat ?first) (unat c) = drop (unat ?first) buf @ take (unat c - (unat ?size - unat ?first)) buf"
        using ring_wrapped [of "unat ?first" buf "unat c"] r b(2) c(3) True by simp
      moreover have "load (unat frag) buf (int (unat ?first)) = Some (drop (unat ?first) buf)"
        using load_at [of "unat ?first" "unat frag" buf] r b(2) f by simp
      moreover have "load (unat (c - frag)) buf 0 = Some (take (unat c - unat frag) buf)"
        using load_at [of 0 "unat (c - frag)" buf] lt c(3) b(2) by simp
      ultimately show ?thesis using lt f by (simp add: word_less_nat_alt)
    next
      case False
      then have f: "frag = c" using sum by (simp add: frag_def word_less_nat_alt)
      have "ring buf (unat ?first) (unat c) = take (unat c) (drop (unat ?first) buf)"
        using False b(2) by (intro ring_straight) simp
      with f False b(2) load_at [of "unat ?first" "unat c" buf] show ?thesis by simp
    qed
    have take: "ring buf (unat ?first) (unat c) = take (unat c) (mac_queue i)"
      using ring_take [OF c(1), of buf "unat ?first"] b(1) by (simp add: mac_queue_def)
    let ?i = "i\<lparr>mac_valid_count := ?valid - c, mac_first_valid := (?first + c) mod ?size\<rparr>"
    have size0: "?size \<noteq> 0" using r by auto
    have pad: "unat (n - c) = unat n - unat c" using c(2) by (rule unat_sub_le)
    have run: "mac_render n i = Some (take (unat c) (mac_queue i) @ replicate (unat n - unat c) 0, False, ?i)"
      unfolding mac_render_def Let_def c_def [symmetric] frag_def [symmetric]
      using False out b(1) take size0 pad by (simp cong: if_cong)
    have first': "unat ((?first + c) mod ?size) = (unat ?first + unat c) mod unat ?size"
      by (simp add: unat_mod sum)
    have valid': "unat (?valid - c) = unat ?valid - unat c" using c(1) by (rule unat_sub_le)
    have ring': "mac_ring ?i" using r b valid' first' by (auto simp: mac_ring_def)
    have queue': "mac_queue ?i = drop (unat c) (mac_queue i)"
      using ring_drop [OF c(1), of buf "unat ?first"] b valid' first' by (simp add: mac_queue_def)
    have "queue_step (unat ?size) (mac_is_stopping i)
        (Give (take (unat c) (mac_queue i)) (unat n - unat c) False) (mac_queue i) (mac_queue ?i)"
    proof (cases "unat n \<le> unat ?valid")
      case True
      then have "unat c = unat n" by (simp add: c_def unat_min)
      with whole [of "unat n" "mac_queue i"] True len queue' show ?thesis by simp
    next
      case F: False
      then have "unat c = unat ?valid" "mac_is_stopping i"
        using False by (simp_all add: c_def unat_min word_less_nat_alt)
      with rest [of "mac_is_stopping i" "mac_queue i" "unat n"] F len queue' show ?thesis by simp
    qed
    moreover have "length (take (unat c) (mac_queue i)) + (unat n - unat c) = unat n" using c len by simp
    ultimately show ?thesis using run ring' by blast
  qed
qed

text \<open>So is the copying of samples into the ring, when there is room.\<close>

lemma mac_copy_refines:
  assumes "mac_ring i" and "mac_valid_count i \<noteq> mac_buffer_byte_count i" and "n \<noteq> 0" and "unat n \<le> length samples"
  shows "\<exists>b i'. mac_copy samples n i = Some (b, i') \<and> 0 < unat b \<and> unat b \<le> unat n \<and> mac_ring i' \<and>
    mac_buffer_byte_count i' = mac_buffer_byte_count i \<and> mac_is_stopping i' = mac_is_stopping i \<and>
    queue_step (unat (mac_buffer_byte_count i)) (mac_is_stopping i) (Accept (take (unat b) samples))
      (mac_queue i) (mac_queue i')"
proof -
  let ?size = "mac_buffer_byte_count i" and ?first = "mac_first_valid i" and ?valid = "mac_valid_count i"
  obtain buf where buf: "mac_buffer i = Some buf" "length buf = unat ?size" using assms(1) by (auto simp: mac_ring_def)
  note r = assms(1) [unfolded mac_ring_def]
  have less: "unat ?valid < unat ?size" using r assms(2) by (metis le_neq_implies_less unsigned_word_eqI)
  define e where "e = (?first + ?valid) mod ?size"
  have e: "unat e = (unat ?first + unat ?valid) mod unat ?size" "unat e < unat ?size"
    using r unat_sum [of ?first ?valid] by (simp_all add: e_def unat_mod)
  have room: "unat (?size - ?valid) = unat ?size - unat ?valid" using less by (intro unat_sub_le) simp
  have tail: "unat (?size - e) = unat ?size - unat e" using e(2) by (intro unat_sub_le) simp
  define b where "b = (if e + (?size - ?valid) > ?size then min n (?size - e) else min n (?size - ?valid))"
  have sum: "unat (e + (?size - ?valid)) = unat e + (unat ?size - unat ?valid)"
  proof -
    have "unat (?size - ?valid) \<le> 2147483648" unfolding room using r by linarith
    then have "unat (e + (?size - ?valid)) = unat e + unat (?size - ?valid)" using r e(2) by (intro unat_sum) simp_all
    then show ?thesis unfolding room .
  qed
  have n: "0 < unat n" using assms(3) by (simp add: unat_gt_0)
  have b: "0 < unat b" "unat b \<le> unat n" "unat ?valid + unat b \<le> unat ?size" "unat e + unat b \<le> unat ?size"
  proof -
    have "unat b = min (unat n) (unat ?size - unat e) \<and> unat ?size < unat e + (unat ?size - unat ?valid) \<or>
        unat b = min (unat n) (unat ?size - unat ?valid) \<and> unat e + (unat ?size - unat ?valid) \<le> unat ?size"
      using sum room tail by (simp add: b_def word_less_nat_alt unat_min)
    then show "0 < unat b" "unat b \<le> unat n" "unat ?valid + unat b \<le> unat ?size" "unat e + unat b \<le> unat ?size"
      using n less e(2) by (elim disjE conjE; linarith)+
  qed
  let ?xs = "take (unat b) samples"
  have xs: "length ?xs = unat b" using b(2) assms(4) by simp
  let ?buf = "take (unat e) buf @ ?xs @ drop (unat e + length ?xs) buf"
  let ?i = "i\<lparr>mac_buffer := Some ?buf, mac_valid_count := ?valid + b\<rparr>"
  have size0: "?size \<noteq> 0" using r by auto
  have run: "mac_copy samples n i = Some (b, ?i)"
    unfolding mac_copy_def Let_def e_def [symmetric] b_def [symmetric]
    using size0 buf(1) load_at [of 0 "unat b" samples] assms(4) b(2) store_at [of "unat e" ?xs buf] xs b(4) buf(2) by simp
  have valid': "unat (?valid + b) = unat ?valid + unat b" using b(3) r by (intro unat_sum) simp_all
  have "length ?buf = length buf" using b(4) xs buf(2) by simp
  then have ring': "mac_ring ?i" using r buf b(3) valid' by (auto simp: mac_ring_def)
  have "mac_queue ?i = mac_queue i @ ?xs"
  proof -
    have "ring ?buf (unat ?first) (unat ?valid + length ?xs) = ring buf (unat ?first) (unat ?valid) @ ?xs"
      by (rule ring_store) (use r buf b xs e(1) in simp_all)
    then show ?thesis using buf(1) xs valid' by (simp add: mac_queue_def)
  qed
  with accept [of "mac_queue i" ?xs "unat ?size" "mac_is_stopping i"] xs b(3) mac_queue_length [OF assms(1)] have
    "queue_step (unat ?size) (mac_is_stopping i) (Accept ?xs) (mac_queue i) (mac_queue ?i)" by simp
  with run ring' b(1,2) show ?thesis
    by (intro exI [of _ b] exI [of _ ?i]) simp
qed


section \<open>Any interleaving\<close>

text \<open>
  What the two threads may do with the mutex: the player copies the first of some samples, which it
  does only when there is room, and CoreAudio asks for a buffer.
\<close>

datatype mac_turn = Mac_put "byte list" | Mac_get "32 word"

fun mac_turns :: "mac_turn list \<Rightarrow> ao_macosx_internal \<Rightarrow> ((byte list \<times> bool) list \<times> ao_macosx_internal) option" where
  "mac_turns [] i = Some ([], i)"
| "mac_turns (Mac_put samples # ts) i =
     (if mac_valid_count i = mac_buffer_byte_count i \<or> samples = [] then mac_turns ts i
      else do { (n, i) \<leftarrow> mac_copy samples (of_nat (length samples)) i; mac_turns ts i })"
| "mac_turns (Mac_get n # ts) i = do {
     (out, silent, i) \<leftarrow> mac_render n i;
     (outs, i) \<leftarrow> mac_turns ts i;
     Some ((out, silent) # outs, i) }"

text \<open>
  What the queue does for such turns: of the samples it accepts some, at least one unless it is full,
  and to a request it gives a buffer of the size asked for.
\<close>

inductive queue_turns :: "nat \<Rightarrow> bool \<Rightarrow> mac_turn list \<Rightarrow> queue_event list \<Rightarrow> byte list \<Rightarrow> byte list \<Rightarrow> bool"
  for cap stopping where
  no_turn: "queue_turns cap stopping [] [] q q"
| full_turn: "length q = cap \<or> samples = [] \<Longrightarrow> queue_turns cap stopping ts es q s \<Longrightarrow>
    queue_turns cap stopping (Mac_put samples # ts) es q s"
| put_turn: "0 < b \<Longrightarrow> b \<le> length samples \<Longrightarrow> queue_step cap stopping (Accept (take b samples)) q r \<Longrightarrow>
    queue_turns cap stopping ts es r s \<Longrightarrow>
    queue_turns cap stopping (Mac_put samples # ts) (Accept (take b samples) # es) q s"
| get_turn: "length bs + pad = unat n \<Longrightarrow> queue_step cap stopping (Give bs pad silent) q r \<Longrightarrow>
    queue_turns cap stopping ts es r s \<Longrightarrow>
    queue_turns cap stopping (Mac_get n # ts) (Give bs pad silent # es) q s"

lemma queue_turns_run: "queue_turns cap st ts es q q' \<Longrightarrow> queue_run cap st es q q'"
  by (induction rule: queue_turns.induct) (auto intro: queue_run.intros)

lemma mac_turns_refine:
  assumes "mac_ring i" and "\<forall>t \<in> set ts. \<forall>samples. t = Mac_put samples \<longrightarrow> length samples < 2 ^ 32"
  shows "\<exists>es outs i'. mac_turns ts i = Some (outs, i') \<and> mac_ring i' \<and> outs = concat (map handed es) \<and>
    queue_turns (unat (mac_buffer_byte_count i)) (mac_is_stopping i) ts es (mac_queue i) (mac_queue i')"
  using assms
proof (induction ts arbitrary: i)
  case Nil
  have "queue_turns cap st [] [] q q" for cap st q by (rule no_turn)
  moreover have "[] = concat (map handed [])" by simp
  ultimately show ?case using Nil by (auto intro!: exI [of _ "[]"])
next
  case (Cons t ts)
  let ?cap = "unat (mac_buffer_byte_count i)" and ?st = "mac_is_stopping i"
  have step: ?case if j: "mac_ring j" "mac_buffer_byte_count j = mac_buffer_byte_count i" "mac_is_stopping j = ?st"
      "\<And>es q. queue_turns ?cap ?st ts es (mac_queue j) q \<Longrightarrow> queue_turns ?cap ?st (t # ts) (e # es) (mac_queue i) q"
      "\<And>outs i'. mac_turns ts j = Some (outs, i') \<Longrightarrow> mac_turns (t # ts) i = Some (handed e @ outs, i')" for e j
  proof -
    obtain es outs i' where 1: "mac_turns ts j = Some (outs, i')" "mac_ring i'" "outs = concat (map handed es)"
      "queue_turns ?cap ?st ts es (mac_queue j) (mac_queue i')"
      using Cons.IH [OF j(1)] Cons.prems(2) j(2,3) by auto
    with j(4) [OF 1(4)] j(5) [OF 1(1)] show ?thesis by (intro exI [of _ "e # es"]) auto
  qed
  show ?case
  proof (cases t)
    case (Mac_get n)
    obtain bs pad silent j where r: "mac_render n i = Some (bs @ replicate pad 0, silent, j)" "mac_ring j"
      "length bs + pad = unat n" "queue_step ?cap ?st (Give bs pad silent) (mac_queue i) (mac_queue j)"
      using mac_render_refines [OF Cons.prems(1)] by metis
    note s = mac_taken_sel [OF mac_render_taken [OF r(1)]]
    show ?thesis
      by (rule step [OF r(2) s(2,5), of "Give bs pad silent"]) (use Mac_get r in \<open>simp_all add: get_turn\<close>)
  next
    case (Mac_put samples)
    show ?thesis
    proof (cases "mac_valid_count i = mac_buffer_byte_count i \<or> samples = []")
      case True
      then have full: "length (mac_queue i) = ?cap \<or> samples = []" using mac_queue_length [OF Cons.prems(1)] by auto
      obtain es outs i' where "mac_turns ts i = Some (outs, i')" "mac_ring i'" "outs = concat (map handed es)"
        "queue_turns ?cap ?st ts es (mac_queue i) (mac_queue i')"
        using Cons.IH [OF Cons.prems(1)] Cons.prems(2) by auto
      with full_turn [OF full] True Mac_put show ?thesis by (intro exI [of _ es] exI [of _ outs] exI [of _ i']) simp
    next
      case False
      have len: "length samples < 2 ^ 32" using Cons.prems(2) Mac_put by auto
      then have n: "unat (of_nat (length samples) :: 32 word) = length samples" by (simp add: unat_of_nat)
      then have n0: "(of_nat (length samples) :: 32 word) \<noteq> 0" using False by (metis length_0_conv unsigned_0)
      have "mac_valid_count i \<noteq> mac_buffer_byte_count i" using False by simp
      from mac_copy_refines [OF Cons.prems(1) this n0, of samples] n obtain b j where
        c: "mac_copy samples (of_nat (length samples)) i = Some (b, j)" "mac_ring j"
          "mac_buffer_byte_count j = mac_buffer_byte_count i" "mac_is_stopping j = ?st"
          "0 < unat b" "unat b \<le> length samples"
          "queue_step ?cap ?st (Accept (take (unat b) samples)) (mac_queue i) (mac_queue j)" by auto
      show ?thesis
        by (rule step [OF c(2-4), of "Accept (take (unat b) samples)"])
           (use Mac_put False c in \<open>simp_all add: put_turn\<close>)
    qed
  qed
qed

text \<open>
  C9.  The ring buffer refines a bounded queue: from a well formed ring, any interleaving of copying
  samples in and of requests by CoreAudio returns, and each turn is a step of the queue.  What
  CoreAudio is handed is what the queue gives, padded, and in the end the ring holds the queue; so
  the bytes come out in the order in which they went in, none lost and none twice.
\<close>

theorem mac_ring_refines:
  assumes "mac_ring i" and "\<forall>t \<in> set ts. \<forall>samples. t = Mac_put samples \<longrightarrow> length samples < 2 ^ 32"
  shows "\<exists>es outs i'. mac_turns ts i = Some (outs, i') \<and> mac_ring i' \<and> outs = concat (map handed es) \<and>
    queue_turns (unat (mac_buffer_byte_count i)) (mac_is_stopping i) ts es (mac_queue i) (mac_queue i') \<and>
    given es @ mac_queue i' = mac_queue i @ accepted es"
  using mac_turns_refine [OF assms] queue_run_fifo [OF queue_turns_run] by blast

text \<open>A ring of eight bytes that holds three, the last two of them behind its start.\<close>

definition mac_demo_internal :: ao_macosx_internal where
  "mac_demo_internal =
     \<lparr>mac_output_device = 0, mac_unit = 0, mac_output_p = False, mac_started = False, mac_is_stopping = False,
      mac_buffer = None, mac_buffer_byte_count = 0, mac_first_valid = 0, mac_valid_count = 0, mac_buffer_time = 100\<rparr>"

definition mac_demo_ring :: ao_macosx_internal where
  "mac_demo_ring = mac_demo_internal\<lparr>mac_buffer := Some [2, 3, 0, 0, 0, 0, 0, 1], mac_buffer_byte_count := 8,
     mac_first_valid := 7, mac_valid_count := 3, mac_started := True\<rparr>"

lemma mac_demo_ring_facts:
  "mac_ring mac_demo_ring" "mac_queue mac_demo_ring = [1, 2, 3]" "\<not> mac_is_stopping mac_demo_ring"
  "mac_buffer_byte_count mac_demo_ring = 8"
  by (simp_all add: mac_demo_ring_def mac_demo_internal_def mac_ring_def mac_queue_def ring_def upt_rec)

theorem mac_ring_refines_witness:
  "\<exists>es outs i'. mac_turns [Mac_put [4, 5, 6, 7, 8, 9], Mac_get 4, Mac_put [9], Mac_get 9] mac_demo_ring = Some (outs, i') \<and>
    mac_ring i' \<and> outs = concat (map handed es) \<and> queue_turns 8 False [Mac_put [4, 5, 6, 7, 8, 9], Mac_get 4, Mac_put [9], Mac_get 9] es [1, 2, 3] (mac_queue i') \<and>
    given es @ mac_queue i' = [1, 2, 3] @ accepted es"
  using mac_ring_refines [OF mac_demo_ring_facts(1), of "[Mac_put [4, 5, 6, 7, 8, 9], Mac_get 4, Mac_put [9], Mac_get 9]"]
    mac_demo_ring_facts(2-4) by simp

end
