(* ===== verification/AO_Mac_Play.thy ===== *)
theory AO_Mac_Play
  imports AO_Mac_Ring AO_Demo
begin

text \<open>
  What CoreAudio gets from \<open>play\<close> and \<open>close\<close>: the samples in order, whatever the two threads do, and
  all of them once the stream is closed, as long as CoreAudio goes on asking.
\<close>

section \<open>The sound\<close>

text \<open>The bytes in the buffers that were handed out as sound, not as silence.\<close>

definition sound_of :: "call \<Rightarrow> byte list" where
  "sound_of c = (case c of Mac (Mac_rendered out silent) \<Rightarrow> if silent then [] else out | _ \<Rightarrow> [])"

definition mac_sound :: "'z posix_scheme \<Rightarrow> byte list" where
  "mac_sound w = concat (map sound_of (p_calls w))"

lemma mac_sound_ask: "ask c w = (r, v) \<Longrightarrow> mac_sound v = mac_sound w @ sound_of c"
  by (auto simp: mac_sound_def ask_def)

text \<open>
  From one state to another the callback has taken bytes out of the ring, and nothing else happened
  to them.  Zeros follow the last of them when the stream is stopping.
\<close>

definition mac_flow ::
  "ao_macosx_internal \<Rightarrow> 'z posix_scheme \<Rightarrow> ao_macosx_internal \<Rightarrow> 'z posix_scheme \<Rightarrow> bool" where
  "mac_flow i w i' v \<longleftrightarrow> mac_ring i' \<and> mac_buffer_byte_count i' = mac_buffer_byte_count i \<and>
     mac_is_stopping i' = mac_is_stopping i \<and> mac_output_p i' = mac_output_p i \<and> p_answer v = p_answer w \<and>
     length (mac_queue i') \<le> length (mac_queue i) \<and>
     (\<exists>pad. mac_sound v @ mac_queue i' = mac_sound w @ mac_queue i @ replicate pad 0 \<and>
        (pad \<noteq> 0 \<longrightarrow> mac_is_stopping i \<and> mac_queue i' = []))"

lemma mac_flow_refl: "mac_ring i \<Longrightarrow> mac_flow i w i w"
  by (auto simp: mac_flow_def)

lemma mac_flow_trans:
  assumes "mac_flow i u j v" and "mac_flow j v k w"
  shows "mac_flow i u k w"
proof -
  from assms(1) obtain m where m: "mac_sound v @ mac_queue j = mac_sound u @ mac_queue i @ replicate m 0"
    "m \<noteq> 0 \<longrightarrow> mac_is_stopping i \<and> mac_queue j = []" by (auto simp: mac_flow_def)
  from assms(2) obtain n where n: "mac_sound w @ mac_queue k = mac_sound v @ mac_queue j @ replicate n 0"
    "n \<noteq> 0 \<longrightarrow> mac_is_stopping j \<and> mac_queue k = []" by (auto simp: mac_flow_def)
  have "mac_sound w @ mac_queue k = mac_sound u @ mac_queue i @ replicate (m + n) 0"
    using n(1) m(1) by (simp add: replicate_add flip: append_assoc)
  moreover have "m + n \<noteq> 0 \<longrightarrow> mac_is_stopping i \<and> mac_queue k = []"
    using assms m(2) n(2) by (auto simp: mac_flow_def)
  ultimately show ?thesis using assms by (auto simp: mac_flow_def)
qed

lemma mac_flow_ask: "mac_ring i \<Longrightarrow> ask c w = (r, v) \<Longrightarrow> sound_of c = [] \<Longrightarrow> mac_flow i w i v"
  using mac_sound_ask [of c w r v] streak_ask(1) [of c w r v] by (auto simp: mac_flow_def)

lemma mac_flow_sounds:
  "mac_flow i w i' v \<Longrightarrow> \<not> mac_is_stopping i \<Longrightarrow> mac_sound v @ mac_queue i' = mac_sound w @ mac_queue i"
  by (auto simp: mac_flow_def)

section \<open>The callback\<close>

text \<open>A request that takes something out of a full ring.\<close>

definition takes :: "32 word \<Rightarrow> render_request \<Rightarrow> bool" where
  "takes cap r = (case r of Render_null \<Rightarrow> False | Render k n \<Rightarrow> k = 1 \<and> 0 < n \<and> n \<le> cap)"

text \<open>A wait is put off when no such request comes.\<close>

definition wait_kind :: "32 word \<Rightarrow> call \<Rightarrow> reply \<Rightarrow> bool option" where
  "wait_kind cap c r = (case c of Mac Mac_cond_wait \<Rightarrow> Some (\<not> list_ex (takes cap) (rp_renders r)) | _ \<Rightarrow> None)"

lemma wait_kind_simps [simp]:
  "wait_kind cap (Mac (Mac_rendered out s)) r = None" "wait_kind cap (Mac Mac_mutex_lock) r = None"
  "wait_kind cap (Mac (Mac_start u)) r = None"
  by (simp_all add: wait_kind_def)

lemma audioCallback_flow:
  assumes "mac_ring i"
  shows "\<exists>i' v. audioCallback r i w = Some (i', v) \<and> mac_flow i w i' v \<and>
    streak (wait_kind cap) v = streak (wait_kind cap) w \<and>
    (takes (mac_buffer_byte_count i) r \<and> mac_queue i \<noteq> [] \<and>
       (mac_is_stopping i \<or> length (mac_queue i) = unat (mac_buffer_byte_count i)) \<longrightarrow>
     length (mac_queue i') < length (mac_queue i))"
proof (cases "\<exists>n. r = Render 1 n")
  case False
  then have "audioCallback r i w = Some (i, w)" "\<not> takes (mac_buffer_byte_count i) r"
    by (cases r; simp add: takes_def)+
  then show ?thesis using mac_flow_refl [OF assms] by auto
next
  case True
  then obtain n where n: "r = Render 1 n" by blast
  obtain bs pad silent i' where r: "mac_render n i = Some (bs @ replicate pad 0, silent, i')" "mac_ring i'"
    "queue_step (unat (mac_buffer_byte_count i)) (mac_is_stopping i) (Give bs pad silent) (mac_queue i) (mac_queue i')"
    "length bs + pad = unat n"
    using mac_render_refines [OF assms] by metis
  note s = mac_taken_sel [OF mac_render_taken [OF r(1)]]
  obtain q v where v: "ask (Mac (Mac_rendered (bs @ replicate pad 0) silent)) w = (q, v)" by fastforce
  have sound: "mac_sound v = mac_sound w @ (if silent then [] else bs @ replicate pad 0)"
    using mac_sound_ask [OF v] by (simp add: sound_of_def)
  have "mac_flow i w i' v"
    using r(2,3) s sound streak_ask(1) [OF v]
    by (auto simp: mac_flow_def queue_step_simps intro: exI [of _ 0])
  moreover have "audioCallback r i w = Some (i', v)" using n r(1) v by simp
  moreover have "streak (wait_kind cap) v = streak (wait_kind cap) w" using streak_ask(2) [OF v] by simp
  moreover have "length (mac_queue i') < length (mac_queue i)"
    if "takes (mac_buffer_byte_count i) r" "mac_queue i \<noteq> []"
      "mac_is_stopping i \<or> length (mac_queue i) = unat (mac_buffer_byte_count i)"
  proof -
    have "0 < unat n" "unat n \<le> unat (mac_buffer_byte_count i)"
      using that(1) n by (simp_all add: takes_def word_le_nat_alt unat_gt_0 word_neq_0_conv)
    then show ?thesis using that(2,3) r(3,4) by (auto simp: queue_step_simps)
  qed
  ultimately show ?thesis by blast
qed

lemma mac_callbacks_flow:
  "mac_ring i \<Longrightarrow> \<exists>i' v. mac_callbacks rs i w = Some (i', v) \<and> mac_flow i w i' v \<and>
    streak (wait_kind cap) v = streak (wait_kind cap) w \<and>
    (list_ex (takes (mac_buffer_byte_count i)) rs \<and> mac_queue i \<noteq> [] \<and>
       (mac_is_stopping i \<or> length (mac_queue i) = unat (mac_buffer_byte_count i)) \<longrightarrow>
     length (mac_queue i') < length (mac_queue i))"
proof (induction rs arbitrary: i w)
  case Nil
  then show ?case using mac_flow_refl by simp
next
  case (Cons r rs)
  obtain j u where j: "audioCallback r i w = Some (j, u)" "mac_flow i w j u"
    "streak (wait_kind cap) u = streak (wait_kind cap) w"
    "takes (mac_buffer_byte_count i) r \<and> mac_queue i \<noteq> [] \<and>
       (mac_is_stopping i \<or> length (mac_queue i) = unat (mac_buffer_byte_count i)) \<longrightarrow>
     length (mac_queue j) < length (mac_queue i)"
    using audioCallback_flow [OF Cons.prems] by blast
  have s: "mac_ring j" "mac_buffer_byte_count j = mac_buffer_byte_count i" "mac_is_stopping j = mac_is_stopping i"
    "length (mac_queue j) \<le> length (mac_queue i)" using j(2) by (simp_all add: mac_flow_def)
  obtain i' v where v: "mac_callbacks rs j u = Some (i', v)" "mac_flow j u i' v"
    "streak (wait_kind cap) v = streak (wait_kind cap) u"
    "list_ex (takes (mac_buffer_byte_count j)) rs \<and> mac_queue j \<noteq> [] \<and>
       (mac_is_stopping j \<or> length (mac_queue j) = unat (mac_buffer_byte_count j)) \<longrightarrow>
     length (mac_queue i') < length (mac_queue j)"
    using Cons.IH [OF s(1)] by blast
  have "length (mac_queue i') \<le> length (mac_queue j)" using v(2) by (simp add: mac_flow_def)
  moreover have "mac_queue j \<noteq> []" if "mac_queue i \<noteq> []" "length (mac_queue j) = length (mac_queue i)" using that by auto
  ultimately have "length (mac_queue i') < length (mac_queue i)"
    if "list_ex (takes (mac_buffer_byte_count i)) (r # rs)" "mac_queue i \<noteq> []"
      "mac_is_stopping i \<or> length (mac_queue i) = unat (mac_buffer_byte_count i)"
    using that j(4) v(4) s by (cases "length (mac_queue j) < length (mac_queue i)") auto
  with j(1,3) v(1,3) mac_flow_trans [OF j(2) v(2)] show ?case by auto
qed

lemma mac_lock_flow:
  assumes "mac_ring i"
  shows "\<exists>i' v. mac_lock i w = Some (i', v) \<and> mac_flow i w i' v"
proof -
  obtain r u where a: "ask (Mac Mac_mutex_lock) w = (r, u)" by fastforce
  obtain i' v where v: "mac_callbacks (rp_renders r) i u = Some (i', v)" "mac_flow i u i' v"
    using mac_callbacks_flow [OF assms] by blast
  have "mac_flow i w i u" by (rule mac_flow_ask [OF assms a]) (simp add: sound_of_def)
  with a v mac_flow_trans show ?thesis by (auto simp: mac_lock_def)
qed

definition mac_lively :: "nat \<Rightarrow> 32 word \<Rightarrow> (call list \<Rightarrow> call \<Rightarrow> reply) \<Rightarrow> bool" where
  "mac_lively K cap ans \<longleftrightarrow> at_most_in_a_row K (wait_kind cap) ans"

text \<open>A wait returns with more room, or it is one more of a few that do not.\<close>

lemma mac_cond_wait_flow:
  fixes w :: "'z posix_scheme"
  assumes "mac_ring i"
  shows "\<exists>i' v. mac_cond_wait i w = Some (i', v) \<and> mac_flow i w i' v \<and>
    (mac_lively K (mac_buffer_byte_count i) (p_answer w) \<and> mac_queue i \<noteq> [] \<and>
       (mac_is_stopping i \<or> length (mac_queue i) = unat (mac_buffer_byte_count i)) \<longrightarrow>
     length (mac_queue i') * Suc K + (K - streak (wait_kind (mac_buffer_byte_count i)) v) <
     length (mac_queue i) * Suc K + (K - streak (wait_kind (mac_buffer_byte_count i)) w))"
proof -
  let ?kind = "wait_kind (mac_buffer_byte_count i)"
  obtain r u where a: "ask (Mac Mac_cond_wait) w = (r, u)" by fastforce
  obtain i' v where v: "mac_callbacks (rp_renders r) i u = Some (i', v)" "mac_flow i u i' v"
    "streak ?kind v = streak ?kind u"
    "list_ex (takes (mac_buffer_byte_count i)) (rp_renders r) \<and> mac_queue i \<noteq> [] \<and>
       (mac_is_stopping i \<or> length (mac_queue i) = unat (mac_buffer_byte_count i)) \<longrightarrow>
     length (mac_queue i') < length (mac_queue i)"
    using mac_callbacks_flow [OF assms] by blast
  have "mac_flow i w i u" by (rule mac_flow_ask [OF assms a]) (simp add: sound_of_def)
  then have f: "mac_flow i w i' v" using v(2) mac_flow_trans by blast
  have k: "?kind (Mac Mac_cond_wait) r = Some (\<not> list_ex (takes (mac_buffer_byte_count i)) (rp_renders r))"
    by (simp add: wait_kind_def)
  have "length (mac_queue i') * Suc K + (K - streak ?kind v) < length (mac_queue i) * Suc K + (K - streak ?kind w)"
    if l: "mac_lively K (mac_buffer_byte_count i) (p_answer w)" "mac_queue i \<noteq> []"
      "mac_is_stopping i \<or> length (mac_queue i) = unat (mac_buffer_byte_count i)"
  proof (cases "list_ex (takes (mac_buffer_byte_count i)) (rp_renders r)")
    case True
    then have "Suc (length (mac_queue i')) \<le> length (mac_queue i)" using v(4) l by auto
    then have "Suc (length (mac_queue i')) * Suc K \<le> length (mac_queue i) * Suc K" by (rule mult_le_mono1)
    then show ?thesis by simp
  next
    case False
    then have "streak ?kind w < K" "streak ?kind v = Suc (streak ?kind w)"
      using streak_ask [OF a] k v(3) l(1) by (simp_all add: mac_lively_def)
    moreover have "length (mac_queue i') * Suc K \<le> length (mac_queue i) * Suc K"
      using f by (intro mult_le_mono1) (simp add: mac_flow_def)
    ultimately show ?thesis by linarith
  qed
  with a v(1) f show ?thesis by (auto simp: mac_cond_wait_def)
qed

section \<open>Playing\<close>

definition mac_starts :: "(call list \<Rightarrow> call \<Rightarrow> reply) \<Rightarrow> bool" where
  "mac_starts ans \<longleftrightarrow> (\<forall>h u. rp_ret (ans h (Mac (Mac_start u))) = 0)"

lemma mac_flow_started: "mac_flow i w (i'\<lparr>mac_started := b\<rparr>) v = mac_flow i w i' v"
  "mac_flow (i\<lparr>mac_started := b\<rparr>) w i' v = mac_flow i w i' v"
  by (simp_all add: mac_flow_def)

lemma mac_start_flow:
  assumes "mac_ring i"
  shows "\<exists>ok b v. (if mac_started i then (True, i, w) else mac_start i w) = (ok, i\<lparr>mac_started := b\<rparr>, v) \<and>
    mac_flow i w i v \<and> streak (wait_kind cap) v = streak (wait_kind cap) w \<and> (mac_starts (p_answer w) \<longrightarrow> ok) \<and> (ok \<longrightarrow> b)"
proof (cases "mac_started i")
  case True
  then show ?thesis using mac_flow_refl [OF assms]
    by (intro exI [of _ True] exI [of _ w]) simp
next
  case False
  obtain r u where a: "ask (Mac (Mac_start (mac_unit i))) w = (r, u)" by fastforce
  have "mac_flow i w i u" by (rule mac_flow_ask [OF assms a]) (simp add: sound_of_def)
  moreover have "rp_ret r = 0" if "mac_starts (p_answer w)"
    using a that by (auto simp: ask_def Let_def mac_starts_def)
  moreover have "streak (wait_kind cap) u = streak (wait_kind cap) w" using streak_ask(2) [OF a] by simp
  moreover have "i\<lparr>mac_started := False\<rparr> = i" using False by simp
  then have "(if mac_started i then (True, i, w) else mac_start i w) =
      (rp_ret r = 0, i\<lparr>mac_started := (rp_ret r = 0)\<rparr>, u)"
    using False a by (cases "rp_ret r = 0") (simp_all add: mac_start_def ask_ret_def)
  ultimately show ?thesis by blast
qed

lemma mac_room:
  assumes "mac_ring i"
  shows "mac_buffer_byte_count i - mac_valid_count i = 0 \<longleftrightarrow> length (mac_queue i) = unat (mac_buffer_byte_count i)"
proof -
  have "mac_buffer_byte_count i - mac_valid_count i = 0 \<longleftrightarrow> unat (mac_valid_count i) = unat (mac_buffer_byte_count i)"
    by (metis unsigned_word_eqI eq_iff_diff_eq_0)
  then show ?thesis by (simp add: mac_queue_length [OF assms])
qed

lemma mac_await_flow:
  "mac_await i w = Some (ok, i', v) \<Longrightarrow> mac_ring i \<Longrightarrow>
   mac_flow i w i' v \<and> (ok \<longrightarrow> mac_valid_count i' \<noteq> mac_buffer_byte_count i')"
proof (induction i w "(ok, i', v)" rule: mac_await.raw_induct [rotated, consumes 1, case_names turn])
  case (turn loop i w)
  show ?case
  proof (cases "mac_buffer_byte_count i - mac_valid_count i = 0")
    case False
    with turn(2) mac_flow_refl [OF turn(3)] show ?thesis by auto
  next
    case True
    obtain ok1 b u where s: "(if mac_started i then (True, i, w) else mac_start i w) = (ok1, i\<lparr>mac_started := b\<rparr>, u)"
      "mac_flow i w i u" using mac_start_flow [OF turn(3)] by blast
    obtain j x where j: "mac_cond_wait (i\<lparr>mac_started := b\<rparr>) u = Some (j, x)" "mac_flow (i\<lparr>mac_started := b\<rparr>) u j x"
    proof -
      have "mac_ring (i\<lparr>mac_started := b\<rparr>)" using turn(3) by simp
      from mac_cond_wait_flow [OF this, of u 0] that show ?thesis by blast
    qed
    show ?thesis
    proof (cases ok1)
      case False
      with turn(2) True s show ?thesis by (auto simp: mac_flow_started)
    next
      case ok: True
      with turn(2) True s(1) j(1) have "loop j x = Some (ok, i', v)" by simp
      moreover have "mac_ring j" using j(2) by (simp add: mac_flow_def)
      ultimately have "mac_flow j x i' v \<and> (ok \<longrightarrow> mac_valid_count i' \<noteq> mac_buffer_byte_count i')" by (rule turn(1))
      moreover have "mac_flow i w j x" using mac_flow_trans [OF s(2)] j(2) by (simp add: mac_flow_started)
      ultimately show ?thesis using mac_flow_trans by blast
    qed
  qed
qed

lemma mac_await_returns:
  fixes w :: "'z posix_scheme"
  shows "mac_ring i \<Longrightarrow> mac_lively K (mac_buffer_byte_count i) (p_answer w) \<Longrightarrow> mac_starts (p_answer w) \<Longrightarrow>
   \<exists>i' v. mac_await i w = Some (True, i', v)"
proof (induction "length (mac_queue i) * Suc K + (K - streak (wait_kind (mac_buffer_byte_count i)) w)"
    arbitrary: i w rule: less_induct)
  case less
  show ?case
  proof (cases "mac_buffer_byte_count i - mac_valid_count i = 0")
    case False
    then show ?thesis by (subst mac_await.simps) simp
  next
    case True
    obtain b u where s: "(if mac_started i then (True, i, w) else mac_start i w) = (True, i\<lparr>mac_started := b\<rparr>, u)"
      "mac_flow i w i u" "streak (wait_kind (mac_buffer_byte_count i)) u = streak (wait_kind (mac_buffer_byte_count i)) w"
      using mac_start_flow [OF less.prems(1), of w "mac_buffer_byte_count i"] less.prems(3) by auto
    let ?i = "i\<lparr>mac_started := b\<rparr>"
    have full: "length (mac_queue i) = unat (mac_buffer_byte_count i)" using True mac_room [OF less.prems(1)] by simp
    moreover have "mac_queue i \<noteq> []" using full less.prems(1) by (auto simp: mac_ring_def)
    moreover have pu: "p_answer u = p_answer w" using s(2) by (simp add: mac_flow_def)
    ultimately obtain j x where j: "mac_cond_wait ?i u = Some (j, x)" "mac_flow ?i u j x"
      "length (mac_queue j) * Suc K + (K - streak (wait_kind (mac_buffer_byte_count i)) x) <
       length (mac_queue i) * Suc K + (K - streak (wait_kind (mac_buffer_byte_count i)) w)"
      using mac_cond_wait_flow [of ?i u K] less.prems(1,2) s(3) by auto
    have "mac_ring j" "mac_buffer_byte_count j = mac_buffer_byte_count i" "p_answer x = p_answer w"
      using j(2) pu by (simp_all add: mac_flow_def)
    with less.hyps [of j x] j(3) less.prems(2,3) have "\<exists>i' v. mac_await j x = Some (True, i', v)" by simp
    with True s(1) j(1) show ?thesis by (subst mac_await.simps) simp
  qed
qed


text \<open>One turn of the loop puts in what fits.\<close>

lemma mac_copy_flow:
  assumes "mac_ring i" and "mac_valid_count i \<noteq> mac_buffer_byte_count i" and "n \<noteq> 0" and "unat n \<le> length samples"
  shows "\<exists>b i'. mac_copy samples n i = Some (b, i') \<and> 0 < unat b \<and> unat b \<le> unat n \<and> mac_ring i' \<and>
    mac_buffer_byte_count i' = mac_buffer_byte_count i \<and> mac_is_stopping i' = mac_is_stopping i \<and>
    mac_output_p i' = mac_output_p i \<and> mac_queue i' = mac_queue i @ take (unat b) samples"
proof -
  obtain b i' where c: "mac_copy samples n i = Some (b, i')" "0 < unat b" "unat b \<le> unat n" "mac_ring i'"
    "mac_buffer_byte_count i' = mac_buffer_byte_count i" "mac_is_stopping i' = mac_is_stopping i"
    "queue_step (unat (mac_buffer_byte_count i)) (mac_is_stopping i) (Accept (take (unat b) samples))
       (mac_queue i) (mac_queue i')"
    using mac_copy_refines [OF assms] by blast
  moreover have "mac_output_p i' = mac_output_p i"
    using c(1) by (auto simp: mac_copy_def Let_def split: if_splits Option.bind_splits)
  ultimately show ?thesis by (auto simp: queue_step_simps)
qed

text \<open>\<open>m\<close> bytes of \<open>samples\<close> have gone into a stream that is not stopping.\<close>

definition mac_fed ::
  "ao_macosx_internal \<Rightarrow> 'z posix_scheme \<Rightarrow> byte list \<Rightarrow> ao_macosx_internal \<Rightarrow> 'z posix_scheme \<Rightarrow> bool" where
  "mac_fed i w bs i' v \<longleftrightarrow> mac_ring i' \<and> mac_buffer_byte_count i' = mac_buffer_byte_count i \<and>
     \<not> mac_is_stopping i' \<and> mac_output_p i' = mac_output_p i \<and> p_answer v = p_answer w \<and>
     mac_sound v @ mac_queue i' = mac_sound w @ mac_queue i @ bs"

lemma mac_fed_flow: "mac_flow i w i' v \<Longrightarrow> \<not> mac_is_stopping i \<Longrightarrow> mac_fed i w [] i' v"
  by (auto simp: mac_flow_def mac_fed_def)

lemma mac_fed_trans: "mac_fed i u as j v \<Longrightarrow> mac_fed j v bs k w \<Longrightarrow> mac_fed i u (as @ bs) k w"
  by (simp add: mac_fed_def flip: append_assoc)

lemma mac_fed_take:
  assumes "mac_fed i u (take b samples) j v" and "mac_fed j v (take m (drop b samples)) k w"
  shows "mac_fed i u (take (b + m) samples) k w"
  using mac_fed_trans [OF assms] by (simp add: take_add)

lemma mac_play_loop_fed:
  "mac_play_loop samples n i w = Some (r, i', v) \<Longrightarrow> mac_ring i \<Longrightarrow> \<not> mac_is_stopping i \<Longrightarrow>
   unat n \<le> length samples \<Longrightarrow>
   \<exists>m \<le> unat n. mac_fed i w (take m samples) i' v \<and> (r \<longrightarrow> m = unat n)"
proof (induction samples n i w "(r, i', v)" rule: mac_play_loop.raw_induct [rotated, consumes 1, case_names turn])
  case (turn loop samples n i w)
  show ?case
  proof (cases "n = 0")
    case True
    with turn(2) mac_fed_flow [OF mac_flow_refl [OF turn(3)] turn(4)] show ?thesis by auto
  next
    case False
    obtain j u where j: "mac_lock i w = Some (j, u)" "mac_flow i w j u" using mac_lock_flow [OF turn(3)] by blast
    have rj: "mac_ring j" "\<not> mac_is_stopping j" using j(2) turn(4) by (simp_all add: mac_flow_def)
    from turn(2) False j(1) obtain ok k x where k: "mac_await j u = Some (ok, k, x)"
      "(if \<not> ok then Some (False, k, x)
        else Option.bind (mac_copy samples n k) (\<lambda>(b, l). loop (drop (unat b) samples) (n - b) l x)) = Some (r, i', v)"
      by (auto split: Option.bind_splits)
    have f: "mac_flow j u k x" "ok \<longrightarrow> mac_valid_count k \<noteq> mac_buffer_byte_count k"
      using mac_await_flow [OF k(1) rj(1)] by simp_all
    have fk: "mac_fed i w [] k x" using mac_fed_flow [OF mac_flow_trans [OF j(2) f(1)] turn(4)] .
    have rk: "mac_ring k" using f(1) by (simp add: mac_flow_def)
    show ?thesis
    proof (cases ok)
      case False
      with k(2) fk show ?thesis by (intro exI [of _ 0]) simp
    next
      case True
      obtain b l where l: "mac_copy samples n k = Some (b, l)" "unat b \<le> unat n" "mac_ring l"
        "mac_buffer_byte_count l = mac_buffer_byte_count k" "mac_is_stopping l = mac_is_stopping k"
        "mac_output_p l = mac_output_p k" "mac_queue l = mac_queue k @ take (unat b) samples"
        using mac_copy_flow [OF rk _ False turn(5)] f(2) True by blast
      have fl: "mac_fed i w (take (unat b) samples) l x" using fk l by (simp add: mac_fed_def)
      then have st: "\<not> mac_is_stopping l" by (simp add: mac_fed_def)
      have nb: "unat (n - b) = unat n - unat b" using l(2) by (rule unat_sub_le)
      then have len: "unat (n - b) \<le> length (drop (unat b) samples)" using turn(5) by simp
      have "loop (drop (unat b) samples) (n - b) l x = Some (r, i', v)" using k(2) True l(1) by simp
      from turn(1) [OF this l(3) st len] obtain m where "m \<le> unat n - unat b"
        "mac_fed l x (take m (drop (unat b) samples)) i' v" "r \<longrightarrow> m = unat n - unat b" unfolding nb by blast
      with mac_fed_take [OF fl] l(2) show ?thesis by (intro exI [of _ "unat b + m"]) auto
    qed
  qed
qed

lemma mac_play_loop_returns:
  fixes w :: "'z posix_scheme"
  shows "mac_ring i \<Longrightarrow> \<not> mac_is_stopping i \<Longrightarrow> unat n \<le> length samples \<Longrightarrow>
   mac_lively K (mac_buffer_byte_count i) (p_answer w) \<Longrightarrow> mac_starts (p_answer w) \<Longrightarrow>
   \<exists>i' v. mac_play_loop samples n i w = Some (True, i', v)"
proof (induction "unat n" arbitrary: n samples i w rule: less_induct)
  case less
  show ?case
  proof (cases "n = 0")
    case True
    then show ?thesis by (subst mac_play_loop.simps) simp
  next
    case False
    obtain j u where j: "mac_lock i w = Some (j, u)" "mac_flow i w j u" using mac_lock_flow [OF less.prems(1)] by blast
    have rj: "mac_ring j" "mac_lively K (mac_buffer_byte_count j) (p_answer u)" "mac_starts (p_answer u)"
      using j(2) less.prems by (simp_all add: mac_flow_def)
    obtain k x where k: "mac_await j u = Some (True, k, x)" using mac_await_returns [OF rj] by blast
    have f: "mac_flow j u k x" "mac_valid_count k \<noteq> mac_buffer_byte_count k"
      using mac_await_flow [OF k rj(1)] by simp_all
    then have rk: "mac_ring k" by (simp add: mac_flow_def)
    obtain b l where l: "mac_copy samples n k = Some (b, l)" "0 < unat b" "unat b \<le> unat n" "mac_ring l"
      "mac_buffer_byte_count l = mac_buffer_byte_count k" "mac_is_stopping l = mac_is_stopping k"
      using mac_copy_flow [OF rk f(2) False less.prems(3)] by blast
    have nb: "unat (n - b) = unat n - unat b" using l(3) by (rule unat_sub_le)
    have "mac_buffer_byte_count l = mac_buffer_byte_count i" "\<not> mac_is_stopping l" "p_answer x = p_answer w"
      using j(2) f(1) l(5,6) less.prems(2) by (simp_all add: mac_flow_def)
    then have "\<exists>i' v. mac_play_loop (drop (unat b) samples) (n - b) l x = Some (True, i', v)"
      using less.prems l(2-4) nb by (intro less.hyps) simp_all
    with False j(1) k l(1) show ?thesis by (subst mac_play_loop.simps) simp
  qed
qed

section \<open>Closing\<close>

lemma mac_flush_flow:
  fixes w :: "'z posix_scheme"
  shows "mac_ring i \<Longrightarrow> mac_is_stopping i \<Longrightarrow> mac_lively K (mac_buffer_byte_count i) (p_answer w) \<Longrightarrow>
   \<exists>i' v. mac_flush i w = Some (i', v) \<and> mac_flow i w i' v \<and> mac_queue i' = []"
proof (induction "length (mac_queue i) * Suc K + (K - streak (wait_kind (mac_buffer_byte_count i)) w)"
    arbitrary: i w rule: less_induct)
  case less
  have len: "mac_valid_count i = 0 \<longleftrightarrow> mac_queue i = []"
    using mac_queue_length [OF less.prems(1)] by (metis length_0_conv unat_eq_zero)
  show ?case
  proof (cases "mac_queue i = []")
    case True
    then have "mac_flush i w = Some (i, w)" using len by (subst mac_flush.simps) simp
    with True mac_flow_refl [OF less.prems(1)] show ?thesis by blast
  next
    case False
    obtain j x where j: "mac_cond_wait i w = Some (j, x)" "mac_flow i w j x"
      "length (mac_queue j) * Suc K + (K - streak (wait_kind (mac_buffer_byte_count i)) x) <
       length (mac_queue i) * Suc K + (K - streak (wait_kind (mac_buffer_byte_count i)) w)"
      using mac_cond_wait_flow [OF less.prems(1), of w K] False less.prems(2,3) by blast
    have "mac_ring j" "mac_is_stopping j" "mac_buffer_byte_count j = mac_buffer_byte_count i" "p_answer x = p_answer w"
      using j(2) less.prems(2) by (simp_all add: mac_flow_def)
    then obtain i' v where v: "mac_flush j x = Some (i', v)" "mac_flow j x i' v" "mac_queue i' = []"
      using less.hyps [of j x] j(3) less.prems(3) by auto
    have "mac_flush i w = Some (i', v)" using False len j(1) v(1) by (subst mac_flush.simps) simp
    with v(2,3) mac_flow_trans [OF j(2)] show ?thesis by blast
  qed
qed

definition mac_runs :: "(call list \<Rightarrow> call \<Rightarrow> reply) \<Rightarrow> bool" where
  "mac_runs ans \<longleftrightarrow> (\<forall>h u. rp_out (ans h (Mac (Mac_is_running u))) \<noteq> 0)"

lemma mac_finish_plays:
  fixes w :: "'z posix_scheme"
  assumes "mac_ring i" and "mac_is_stopping i" and "mac_lively K (mac_buffer_byte_count i) (p_answer w)"
  shows "\<exists>r i' v pad. mac_finish i w = Some (r, i', v) \<and> mac_sound v = mac_sound w @ mac_queue i @ replicate pad 0 \<and>
    mac_queue i' = []"
proof -
  obtain j x where j: "mac_flush i w = Some (j, x)" "mac_flow i w j x" "mac_queue j = []"
    using mac_flush_flow [OF assms] by blast
  then obtain pad where p: "mac_sound x = mac_sound w @ mac_queue i @ replicate pad 0" by (auto simp: mac_flow_def)
  obtain r1 x1 where 1: "ask (Mac (Mac_stop (mac_unit j))) x = (r1, x1)" by fastforce
  obtain r2 x2 where 2: "ask (Mac (Mac_instance_dispose (mac_unit j))) x1 = (r2, x2)" by fastforce
  have "mac_sound x1 = mac_sound x" "mac_sound x2 = mac_sound x"
    using mac_sound_ask [OF 1] mac_sound_ask [OF 2] by (simp_all add: sound_of_def)
  with j p 1 2 show ?thesis
    by (cases "rp_ret r1 = 0") (auto simp: mac_finish_def ask_ret_def)
qed

lemma mac_close_plays:
  fixes w :: "'z posix_scheme"
  assumes "macosx_state d = Some i" and "mac_ring i" and "mac_output_p i" and "\<not> mac_is_stopping i"
    and "mac_lively K (mac_buffer_byte_count i) (p_answer w)" and "mac_starts (p_answer w)" and "mac_runs (p_answer w)"
  shows "\<exists>r d' v pad. ao_macosx_close d w = Some (r, d', v) \<and>
    mac_sound v = mac_sound w @ mac_queue i @ replicate pad 0"
proof -
  obtain j u where j: "mac_lock i w = Some (j, u)" "mac_flow i w j u" using mac_lock_flow [OF assms(2)] by blast
  have fj: "mac_ring j" "mac_buffer_byte_count j = mac_buffer_byte_count i" "mac_output_p j" "p_answer u = p_answer w"
    "mac_sound u @ mac_queue j = mac_sound w @ mac_queue i"
    using j(2) assms(3,4) by (auto simp: mac_flow_def)
  let ?j = "j\<lparr>mac_output_p := False, mac_is_stopping := True\<rparr>"
  have rj: "mac_ring ?j" using fj(1) by simp
  obtain b x where x: "(if \<not> mac_started ?j \<and> mac_valid_count ?j \<noteq> 0 then mac_start ?j u else (True, ?j, u)) =
      (True, ?j\<lparr>mac_started := b\<rparr>, x)" "mac_flow ?j u ?j x" "mac_valid_count j \<noteq> 0 \<longrightarrow> b"
  proof (cases "\<not> mac_started ?j \<and> mac_valid_count ?j \<noteq> 0")
    case True
    with mac_start_flow [OF rj, of u 0] assms(6) fj(4) that show ?thesis by auto
  next
    case False
    have "?j\<lparr>mac_started := mac_started j\<rparr> = ?j" by (cases j) simp
    with False mac_flow_refl [OF rj] show ?thesis by (intro that [of "mac_started j" u]) auto
  qed
  let ?k = "?j\<lparr>mac_started := b\<rparr>"
  obtain pad1 where p1: "mac_sound x @ mac_queue j = mac_sound u @ mac_queue j @ replicate pad1 0"
    "pad1 \<noteq> 0 \<longrightarrow> mac_queue j = []"
    using x(2) by (auto simp: mac_flow_def)
  obtain r y where y: "ask (Mac (Mac_is_running (mac_unit ?k))) x = (r, y)" by fastforce
  have sy: "mac_sound y = mac_sound x" using mac_sound_ask [OF y] by (simp add: sound_of_def)
  have py: "p_answer x = p_answer w" "p_answer y = p_answer w"
    using x(2) fj(4) streak_ask(1) [OF y] by (simp_all add: mac_flow_def)
  have run: "rp_out r \<noteq> 0" using y py(1) assms(7) by (auto simp: ask_def Let_def mac_runs_def)
  have sx: "mac_sound x = mac_sound u @ replicate pad1 0"
    using p1 by (cases "pad1 = 0") auto
  show ?thesis
  proof (cases b)
    case True
    have "mac_ring ?k" "mac_is_stopping ?k" "mac_lively K (mac_buffer_byte_count ?k) (p_answer y)"
      using rj fj(2) py(2) assms(5) by simp_all
    from mac_finish_plays [OF this] obtain q i' v pad where
      f: "mac_finish ?k y = Some (q, i', v)" "mac_sound v = mac_sound y @ mac_queue ?k @ replicate pad 0" by blast
    have close: "ao_macosx_close d w = Some (q, set_macosx i' d, v)"
      using assms(1) j(1) fj(3) x(1) y run True f(1) by (simp add: ao_macosx_close_def mac_close_output_def)
    have "mac_sound v = mac_sound u @ mac_queue j @ replicate (pad1 + pad) 0"
      using f(2) sy sx p1(2) by (cases "pad1 = 0") (simp_all add: replicate_add)
    then have "mac_sound v = mac_sound w @ mac_queue i @ replicate (pad1 + pad) 0"
      using fj(5) by (simp flip: append_assoc)
    with close show ?thesis by blast
  next
    case False
    then have "mac_valid_count j = 0" using x(3) by simp
    then have "mac_queue j = []" using mac_queue_length [OF fj(1)] by simp
    moreover have "ao_macosx_close d w = Some (True, set_macosx ?k d, y)"
      using assms(1) j(1) fj(3) x(1) y run False by (simp add: ao_macosx_close_def mac_close_output_def)
    ultimately show ?thesis using fj(5) sy sx by (intro exI [of _ True] exI [of _ "set_macosx ?k d"] exI [of _ y] exI [of _ pad1]) simp
  qed
qed


section \<open>Opening\<close>

definition soundless :: "'z posix_scheme \<Rightarrow> 'z posix_scheme \<Rightarrow> bool" where
  "soundless w v \<longleftrightarrow> p_answer v = p_answer w \<and> mac_sound v = mac_sound w"

lemma soundless_refl: "soundless w w"
  by (simp add: soundless_def)

lemma soundless_ask:
  "soundless w u \<Longrightarrow> sound_of c = [] \<Longrightarrow> soundless w (snd (ask c u))"
  "soundless w u \<Longrightarrow> sound_of c = [] \<Longrightarrow> soundless w (snd (ask_ret c u))"
  by (simp_all add: soundless_def mac_sound_def)

lemma sound_of_calls [simp]:
  "sound_of (Mac Mac_component_find_next) = []" "sound_of (Mac (Mac_instance_new n)) = []"
  "sound_of (Mac (Mac_instance_dispose n)) = []" "sound_of (Mac (Mac_set_device n a)) = []"
  "sound_of (Mac (Mac_set_stream_format n f)) = []" "sound_of (Mac (Mac_get_stream_format n)) = []"
  "sound_of (Mac (Mac_set_channel_layout n a)) = []" "sound_of (Mac (Mac_set_render_callback n)) = []"
  "sound_of (Mac (Mac_initialize n)) = []"
  by (simp_all add: sound_of_def)

lemma mac_new_unit_opens:
  assumes "mac_new_unit h i w = (ok, j, v)"
  shows "soundless w v" "ok \<Longrightarrow> mac_output_p j" "mac_is_stopping j = mac_is_stopping i"
    "mac_buffer_time j = mac_buffer_time i"
proof -
  have "soundless w (snd (snd (mac_new_unit h i w)))"
    unfolding mac_new_unit_def Let_def split_beta by (simp add: soundless_ask soundless_refl)
  then show "soundless w v" using assms by simp
qed (use assms in \<open>auto simp: mac_new_unit_def Let_def split: prod.splits if_splits\<close>)

lemma mac_setup_soundless: "mac_setup h d format unit w = (ok, v) \<Longrightarrow> soundless w v"
proof -
  have "soundless w (snd (mac_setup h d format unit w))"
    unfolding mac_setup_def Let_def split_beta by (simp add: soundless_ask soundless_refl)
  then show "mac_setup h d format unit w = (ok, v) \<Longrightarrow> soundless w v" by simp
qed

lemma malloc_soundless: "malloc_ok w = (ok, v) \<Longrightarrow> soundless w v"
  by (auto simp: malloc_ok_def soundless_def mac_sound_def split: list.splits)

lemma ao_macosx_open_ring:
  assumes "ao_macosx_open h d format w = Some (True, d', f', v)" and "macosx_state d = Some i" and "\<not> mac_is_stopping i"
    and "mac_ring_bytes (mac_buffer_time i) (fmt_rate format) (output_channels d) (fmt_bits format) = Some n"
    and "0 < n" and "unat n < 2147483648"
  shows "\<exists>i'. macosx_state d' = Some i' \<and> mac_output_p i' \<and> \<not> mac_is_stopping i' \<and> mac_ring i' \<and>
    mac_queue i' = [] \<and> mac_buffer_byte_count i' = n \<and> soundless w v"
proof -
  obtain ok1 i1 w1 where 1: "mac_new_unit h i w = (ok1, i1, w1)" by (metis prod_cases3)
  let ?d = "d\<lparr>driver_byte_format := fmt_byte_format format\<rparr>"
  obtain ok2 w2 where 2: "mac_setup h ?d format (mac_unit i1) w1 = (ok2, w2)" by fastforce
  obtain ok3 w3 where 3: "malloc_ok w2 = (ok3, w3)" by fastforce
  note o = mac_new_unit_opens [OF 1]
  let ?i = "i1\<lparr>mac_buffer_byte_count := n, mac_first_valid := 0, mac_valid_count := 0,
      mac_buffer := Some (replicate (unat n) 0)\<rparr>"
  have res: "ok1" "ok2" "ok3" "d' = set_macosx ?i ?d" "v = w3"
    using assms(1,2,4) 1 2 3 o(4) by (auto simp: ao_macosx_open_def Let_def split: if_splits)
  have "mac_ring ?i" using assms(5,6) by (simp add: mac_ring_def unat_gt_0 word_neq_0_conv)
  moreover have "mac_queue ?i = []" by (simp add: mac_queue_def ring_def)
  moreover have "soundless w w3"
    using o(1) mac_setup_soundless [OF 2] malloc_soundless [OF 3] by (simp add: soundless_def)
  ultimately show ?thesis using res o(2,3) assms(3) by (intro exI [of _ ?i]) simp
qed

section \<open>Whole streams\<close>

fun mac_play_all ::
  "live_device \<Rightarrow> byte list list \<Rightarrow> 'z posix_scheme \<Rightarrow> (bool \<times> live_device \<times> 'z posix_scheme) option" where
  "mac_play_all d [] w = Some (True, d, w)"
| "mac_play_all d (bs # blks) w = do {
     (r, d, w) \<leftarrow> ao_macosx_play d bs (of_nat (length bs)) w;
     (if r then mac_play_all d blks w else Some (False, d, w)) }"

lemma mac_play_all_fed:
  fixes w :: "'z posix_scheme"
  assumes "macosx_state d = Some i" and "mac_ring i" and "\<not> mac_is_stopping i"
    and "mac_lively K (mac_buffer_byte_count i) (p_answer w)" and "mac_starts (p_answer w)"
    and "\<forall>bs \<in> set blks. length bs < 2 ^ 32"
  shows "\<exists>i' v. mac_play_all d blks w = Some (True, set_macosx i' d, v) \<and> mac_fed i w (concat blks) i' v"
  using assms
proof (induction blks arbitrary: d i w)
  case Nil
  then have "d = set_macosx i d" by (simp add: plugin_state_iff)
  moreover have "mac_fed i w [] i w" using mac_fed_flow [OF mac_flow_refl] Nil by blast
  ultimately show ?case by (metis mac_play_all.simps(1) concat.simps(1))
next
  case (Cons bs blks)
  have n: "unat (of_nat (length bs) :: 32 word) = length bs" using Cons.prems(6) by (simp add: unat_of_nat)
  obtain j u where p: "mac_play_loop bs (of_nat (length bs)) i w = Some (True, j, u)"
    using mac_play_loop_returns [OF Cons.prems(2,3) _ Cons.prems(4,5), of "of_nat (length bs)" bs] n by auto
  from mac_play_loop_fed [OF p Cons.prems(2,3)] n have f: "mac_fed i w bs j u" by auto
  let ?d = "set_macosx j d"
  have "mac_ring j" "\<not> mac_is_stopping j" "mac_lively K (mac_buffer_byte_count j) (p_answer u)" "mac_starts (p_answer u)"
    using f Cons.prems by (simp_all add: mac_fed_def)
  with Cons.IH [of ?d j u] Cons.prems(6) obtain i' v where
    v: "mac_play_all ?d blks u = Some (True, set_macosx i' ?d, v)" "mac_fed j u (concat blks) i' v" by auto
  have "mac_play_all d (bs # blks) w = Some (True, set_macosx i' d, v)"
    using Cons.prems(1) p v(1) by (simp add: ao_macosx_play_def)
  with mac_fed_trans [OF f v(2)] show ?case by auto
qed

text \<open>
  C10.  A CoreAudio stream plays what it is given.  Opened with a ring of any size below \<open>2 ^ 31\<close>, fed
  with blocks of any lengths and closed, each call returns and \<open>play\<close> succeeds; CoreAudio has
  got the blocks one after the other, with nothing lost or changed, and then zeros.  It may call
  back at any time the mutex is free, and ask for any amounts, as long as it can be started, runs,
  and does not leave the driver waiting more than \<open>K\<close> times in a row without a request that can be
  met from a full ring.
\<close>

theorem mac_session:
  assumes "ao_macosx_open h d format w = Some (True, d1, f1, w1)" and "macosx_state d = Some i" and "\<not> mac_is_stopping i"
    and "mac_ring_bytes (mac_buffer_time i) (fmt_rate format) (output_channels d) (fmt_bits format) = Some n"
    and "0 < n" and "unat n < 2147483648"
    and "mac_lively K n (p_answer w)" and "mac_starts (p_answer w)" and "mac_runs (p_answer w)"
    and "\<forall>bs \<in> set blks. length bs < 2 ^ 32"
  shows "\<exists>d2 w2 r d3 w3 pad. mac_play_all d1 blks w1 = Some (True, d2, w2) \<and>
    ao_macosx_close d2 w2 = Some (r, d3, w3) \<and> mac_sound w3 = mac_sound w @ concat blks @ replicate pad 0"
proof -
  obtain i1 where o: "macosx_state d1 = Some i1" "mac_output_p i1" "\<not> mac_is_stopping i1" "mac_ring i1"
    "mac_queue i1 = []" "mac_buffer_byte_count i1 = n" "soundless w w1"
    using ao_macosx_open_ring [OF assms(1-6)] by blast
  have a1: "p_answer w1 = p_answer w" "mac_sound w1 = mac_sound w" using o(7) by (simp_all add: soundless_def)
  obtain i2 w2 where p: "mac_play_all d1 blks w1 = Some (True, set_macosx i2 d1, w2)" "mac_fed i1 w1 (concat blks) i2 w2"
    using mac_play_all_fed [OF o(1,4,3) _ _ assms(10), of K w1] assms(7,8) o(6) a1(1) by auto
  have f: "mac_ring i2" "mac_output_p i2" "\<not> mac_is_stopping i2" "mac_buffer_byte_count i2 = n" "p_answer w2 = p_answer w"
    "mac_sound w2 @ mac_queue i2 = mac_sound w @ concat blks"
    using p(2) o a1 by (simp_all add: mac_fed_def)
  obtain r d3 w3 pad where c: "ao_macosx_close (set_macosx i2 d1) w2 = Some (r, d3, w3)"
    "mac_sound w3 = mac_sound w2 @ mac_queue i2 @ replicate pad 0"
    using mac_close_plays [of "set_macosx i2 d1" i2 K w2] f assms(7-9) by auto
  have "mac_sound w3 = mac_sound w @ concat blks @ replicate pad 0" using c(2) f(6) by (simp flip: append_assoc)
  with p(1) c(1) show ?thesis by blast
qed

text \<open>
  C11.  Whatever CoreAudio does, a call of \<open>play\<close> that returns has put a prefix of the samples behind
  those that went before, in the ring or already played, and all of them when it reports success.
\<close>

theorem mac_play_delivers:
  assumes "ao_macosx_play d samples n w = Some (r, d', v)" and "macosx_state d = Some i" and "mac_ring i"
    and "\<not> mac_is_stopping i" and "unat n \<le> length samples"
  shows "\<exists>i' m. macosx_state d' = Some i' \<and> mac_ring i' \<and> m \<le> unat n \<and> (r \<longrightarrow> m = unat n) \<and>
    mac_sound v @ mac_queue i' = mac_sound w @ mac_queue i @ take m samples"
proof -
  obtain i' where p: "mac_play_loop samples n i w = Some (r, i', v)" "d' = set_macosx i' d"
    using assms(1,2) by (auto simp: ao_macosx_play_def split: Option.bind_splits)
  from mac_play_loop_fed [OF p(1) assms(3-5)] show ?thesis using p(2) by (auto simp: mac_fed_def)
qed

section \<open>The other byte order\<close>

lemma and_absorb: "(a OR (b OR c)) AND b = (b :: 32 word)"
  by (rule bit_eqI) (auto simp: bit_simps)

text \<open>
  C38.  On a little-endian machine, where \<open>kAudioFormatFlagsNativeEndian\<close> is 0, no stream of big-endian
  samples can be opened: \<open>open\<close> takes the flag of the byte order out of what CoreAudio settled on
  with that mask, and refuses what it asked for itself.
\<close>

theorem mac_big_endian_refused:
  assumes "kAudioFormatFlagsNativeEndian h = 0" and "kAudioFormatFlagIsBigEndian h \<noteq> 0"
    and "fmt_byte_format format = AO_FMT_BIG"
  shows "ao_macosx_open h d format w \<noteq> Some (True, d', f', w')"
proof
  assume a: "ao_macosx_open h d format w = Some (True, d', f', w')"
  have s: "\<not> fst (mac_setup h e format unit u)" for e unit and u :: "'a posix_scheme"
  proof -
    have "mac_wants_big format u" using assms(3) by (simp add: mac_wants_big_def)
    then have "mac_flags (mac_requested h e format u) AND kAudioFormatFlagIsBigEndian h = kAudioFormatFlagIsBigEndian h"
      using and_absorb by (simp add: mac_requested_def Let_def or.assoc)
    then have "mac_refused h e format (mac_flags (mac_requested h e format u) AND kAudioFormatFlagIsBigEndian h) got" for got
      using assms(1,2) by (simp add: mac_refused_def)
    then show ?thesis by (simp add: mac_setup_def Let_def split_beta)
  qed
  obtain i where i: "macosx_state d = Some i" using a by (auto simp: ao_macosx_open_def split: Option.bind_splits)
  obtain ok i1 w1 where 1: "mac_new_unit h i w = (ok, i1, w1)" by (metis prod_cases3)
  obtain ok2 w2 where 2: "mac_setup h (d\<lparr>driver_byte_format := fmt_byte_format format\<rparr>) format (mac_unit i1) w1 = (ok2, w2)"
    by fastforce
  then have "\<not> ok2" using s by (metis fst_conv)
  with a i 1 2 show False by (auto simp: ao_macosx_open_def Let_def split: if_splits)
qed


section \<open>A machine\<close>

text \<open>
  CoreAudio on a little-endian machine, as it is when all goes well: it takes every format, runs when
  it is started and asks for four bytes whenever the driver waits.
\<close>

definition mac_demo_header :: mac_header where
  "mac_demo_header = \<lparr>kAudioObjectUnknown = 0, kAudioFormatFlagIsFloat = 1, kAudioFormatFlagIsBigEndian = 2,
     kAudioFormatFlagIsSignedInteger = 4, kAudioFormatFlagIsPacked = 8, kAudioFormatFlagsNativeEndian = 0\<rparr>"

definition mac_demo_format :: ao_sample_format where
  "mac_demo_format = \<lparr>fmt_bits = 8, fmt_rate = 80, fmt_channels = 1, fmt_byte_format = AO_FMT_LITTLE, fmt_matrix = None\<rparr>"

definition mac_demo_answer :: "call list \<Rightarrow> call \<Rightarrow> reply" where
  "mac_demo_answer h c = (case c of
     Mac Mac_component_find_next \<Rightarrow> number_reply 1 0 0
   | Mac (Mac_is_running _) \<Rightarrow> number_reply 0 1 0
   | Mac Mac_cond_wait \<Rightarrow> (number_reply 0 0 0)\<lparr>rp_renders := [Render 1 4]\<rparr>
   | Mac (Mac_get_stream_format _) \<Rightarrow> (number_reply 0 0 0)\<lparr>rp_format :=
       \<lparr>mac_rate = 80, mac_flags = 8, mac_bytes_per_packet = 1, mac_frames_per_packet = 1, mac_bytes_per_frame = 1,
        mac_channels_per_frame = 1, mac_bits_per_channel = 8\<rparr>\<rparr>
   | _ \<Rightarrow> number_reply 0 7 0)"

definition mac_demo_device :: live_device where
  "mac_demo_device = set_macosx mac_demo_internal
     ((fresh_device 13 (ao_macosx mac_demo_header :: (plugin_internal ao_internal, posix) ao_functions)
        mac_demo_format None False)\<lparr>output_channels := 1\<rparr>)"

lemma mac_demo_opens:
  "case ao_macosx_open mac_demo_header mac_demo_device mac_demo_format (demo_posix mac_demo_answer []) of
     Some (r, d, f, w) \<Rightarrow> r | None \<Rightarrow> False"
proof -
  have "\<not> mac_refused mac_demo_header d mac_demo_format 0
      \<lparr>mac_rate = 80, mac_flags = 8, mac_bytes_per_packet = 1, mac_frames_per_packet = 1, mac_bytes_per_frame = 1,
       mac_channels_per_frame = 1, mac_bits_per_channel = 8\<rparr>" if "output_channels d = 1" for d
  proof -
    have "0 \<le> double_round (80 * double_round (5 / 100))" by (intro double_round_nonneg mult_nonneg_nonneg) simp_all
    then show ?thesis
      using that by (simp add: mac_refused_def mac_demo_header_def mac_demo_format_def double_round_def [of 0])
  qed
  then show ?thesis
    by (simp add: ao_macosx_open_def mac_demo_device_def mac_new_unit_def mac_setup_def ask_ret_def ask_def Let_def
        mac_demo_answer_def mac_demo_internal_def mac_demo_header_def mac_requested_def mac_wants_big_def
        mac_ring_bytes_def mac_demo_format_def demo_posix_def demo_world_def malloc_ok_def c_int_def INT_MIN_def
        INT_MAX_def left_in_def ao_fmts)
qed

lemma mac_demo_facts:
  "macosx_state mac_demo_device = Some mac_demo_internal" "\<not> mac_is_stopping mac_demo_internal"
  "mac_ring_bytes (mac_buffer_time mac_demo_internal) (fmt_rate mac_demo_format) (output_channels mac_demo_device)
     (fmt_bits mac_demo_format) = Some 8"
  "mac_sound (demo_posix mac_demo_answer []) = []"
  by (simp_all add: mac_demo_device_def mac_demo_internal_def mac_ring_bytes_def mac_demo_format_def c_int_def
      INT_MIN_def INT_MAX_def signed_divide_int_def mac_sound_def demo_posix_def demo_world_def)

lemma mac_demo_answers:
  "mac_lively 1 8 mac_demo_answer" "mac_starts mac_demo_answer" "mac_runs mac_demo_answer"
proof -
  have "wait_kind 8 c (mac_demo_answer h c) \<noteq> Some True" for h c
    by (auto simp: wait_kind_def mac_demo_answer_def takes_def split: call.splits mac_call.splits)
  then show "mac_lively 1 8 mac_demo_answer" by (simp add: mac_lively_def at_most_in_a_row_def)
qed (simp_all add: mac_starts_def mac_runs_def mac_demo_answer_def)

theorem mac_session_witness:
  "\<exists>d1 f1 w1 d2 w2 r d3 w3 pad.
    ao_macosx_open mac_demo_header mac_demo_device mac_demo_format (demo_posix mac_demo_answer []) = Some (True, d1, f1, w1) \<and>
    mac_play_all d1 [[1, 2, 3, 4, 5], [6, 7, 8, 9, 10, 11]] w1 = Some (True, d2, w2) \<and>
    ao_macosx_close d2 w2 = Some (r, d3, w3) \<and> mac_sound w3 = [1, 2, 3, 4, 5, 6, 7, 8, 9, 10, 11] @ replicate pad 0"
proof -
  obtain d1 f1 w1 where o: "ao_macosx_open mac_demo_header mac_demo_device mac_demo_format (demo_posix mac_demo_answer []) =
      Some (True, d1, f1, w1)"
    using mac_demo_opens by (auto split: option.splits prod.splits)
  have "p_answer (demo_posix mac_demo_answer []) = mac_demo_answer" by (simp add: demo_posix_def)
  with mac_session [OF o mac_demo_facts(1-3), of 1 "[[1, 2, 3, 4, 5], [6, 7, 8, 9, 10, 11]]"] mac_demo_answers o
    mac_demo_facts(4) show ?thesis by auto
qed

theorem mac_play_delivers_witness:
  "\<exists>r d' v i' m. ao_macosx_play (set_macosx mac_demo_ring mac_demo_device) [4, 5, 6, 7, 8, 9] 6 (demo_posix mac_demo_answer [])
      = Some (r, d', v) \<and> macosx_state d' = Some i' \<and> (r \<longrightarrow> m = 6) \<and>
    mac_sound v @ mac_queue i' = [1, 2, 3] @ take m [4, 5, 6, 7, 8, 9]"
proof -
  let ?d = "set_macosx mac_demo_ring mac_demo_device" and ?w = "demo_posix mac_demo_answer []"
  have "p_answer ?w = mac_demo_answer" by (simp add: demo_posix_def)
  then obtain j u where "mac_play_loop [4, 5, 6, 7, 8, 9] 6 mac_demo_ring ?w = Some (True, j, u)"
    using mac_play_loop_returns [OF mac_demo_ring_facts(1,3), of 6 "[4, 5, 6, 7, 8, 9]" 1 ?w]
      mac_demo_answers mac_demo_ring_facts(4) by auto
  then have p: "ao_macosx_play ?d [4, 5, 6, 7, 8, 9] 6 ?w = Some (True, set_macosx j ?d, u)"
    by (simp add: ao_macosx_play_def)
  have st: "macosx_state ?d = Some mac_demo_ring" and n: "unat (6 :: 32 word) \<le> length [4, 5, 6, 7, 8, 9 :: byte]"
    by simp_all
  obtain i' m where m: "macosx_state (set_macosx j ?d) = Some i'" "True \<longrightarrow> m = unat (6 :: 32 word)"
    "mac_sound u @ mac_queue i' = mac_sound ?w @ mac_queue mac_demo_ring @ take m [4, 5, 6, 7, 8, 9]"
    using mac_play_delivers [OF p st mac_demo_ring_facts(1,3) n] by blast
  then have "True \<longrightarrow> m = 6" "mac_sound u @ mac_queue i' = [1, 2, 3] @ take m [4, 5, 6, 7, 8, 9]"
    unfolding mac_demo_facts(4) mac_demo_ring_facts(2) by simp_all
  with p m(1) show ?thesis by blast
qed

theorem mac_big_endian_refused_witness:
  "ao_macosx_open mac_demo_header mac_demo_device (mac_demo_format\<lparr>fmt_byte_format := AO_FMT_BIG\<rparr>)
     (demo_posix mac_demo_answer []) \<noteq> Some (True, mac_demo_device, mac_demo_format, demo_posix mac_demo_answer [])"
  by (rule mac_big_endian_refused) (simp_all add: mac_demo_header_def)


end
