(* ===== verification/Spec2Isabelle.thy ===== *)
theory Spec2Isabelle
  imports AO_Live AO_Lifecycle AO_Routing AO_Handles AO_Shape AO_Servers AO_Alsa_Laws AO_Mac_Play
begin

text \<open>
  The libao audio output library, \<^verbatim>\<open>src/\<close> and \<^verbatim>\<open>include/ao/\<close> of the repository.

  \<^bold>\<open>The program.\<close>  A client calls \<open>ao_initialize\<close>, opens a device (a file or a sound system) with a
  driver, a sample format and options, hands it blocks of interleaved samples with \<open>ao_play\<close>, and
  closes it.  The library keeps a list of drivers, four of them linked in and the others loaded
  from a directory of plugins; each driver is a table of eight functions.  Between client and
  driver stands the swap buffer, which reorders channels (the client may name its channels in a
  matrix such as \<open>L,R,C,LFE\<close>) and turns the byte order of samples.

  \<^bold>\<open>Conventions.\<close>  \<open>None\<close> is a fault: undefined behaviour of C, a failed assertion, or a loop that does
  not return.  \<open>Some\<close> is a return, errors of the code (0, NULL, an errno) included.  State is passed
  explicitly: the world is a record with the heap (only the number of live blocks, and a list that
  says which of the next allocations fail), \<open>errno\<close>, the open streams and, for the live drivers,
  the calls made so far.  Integers are written out: \<open>c_int\<close> is the conversion to 32 bits, unsigned
  quantities are words.  See \<open>AO_Prelude\<close> and \<open>AO_Types\<close>.

  \<^bold>\<open>What is a parameter.\<close>  The operating system and the sound libraries are not part of the
  repository.  Each of their functions is a constructor of \<open>call\<close> (\<open>AO_Calls\<close>), and what a call
  answers is the field \<open>p_answer\<close> of the world, a function of the call and of all calls before it;
  nothing is assumed of it but what a theorem names.  Constants of foreign headers and choices of
  the build are fields of records such as \<open>oss_build\<close>, \<open>esd_header\<close>, \<open>alsa_header\<close> and
  \<open>mac_header\<close>, arguments of the driver that uses them.  Directory reading, \<open>stat\<close>, \<open>dlopen\<close> and
  \<open>dlsym\<close> are the record \<open>plugin_dir\<close> of the registry.  C's stdio is modelled in \<open>AO_Stdio\<close>, on streams that
  may fail to take all that is written.

  \<^bold>\<open>Theories and sources.\<close>
  \<^item> \<open>AO_Prelude\<close>: bytes, C integers and strings, lemmas on lists, options and words.
  \<^item> \<open>AO_Types\<close>: the structures of \<^verbatim>\<open>include/ao/ao.h\<close> and \<^verbatim>\<open>include/ao/ao_private.h\<close>, the world.
  \<^item> \<open>AO_Stdio\<close>, \<open>AO_Options\<close>, \<open>AO_Config\<close>: files, option lists, and \<^verbatim>\<open>src/config.c\<close>.
  \<^item> \<open>AO_Registry\<close>: the driver list of \<^verbatim>\<open>src/audio_out.c\<close>: loading of plugins, sorting by priority,
    ids, the table of infos, the default driver.  \<open>AO_Library\<close>: \<open>ao_initialize\<close> and \<open>ao_shutdown\<close>.
  \<^item> \<open>AO_Matrix\<close>, \<open>AO_Buffer\<close>, \<open>AO_Device\<close>: channel matrices, the swap buffer, and \<open>_open_device\<close>,
    \<open>ao_play\<close>, \<open>ao_close\<close>, \<open>ao_open_live\<close> and \<open>ao_open_file\<close>, of the same file.
  \<^item> \<open>AO_Internal\<close>, \<open>AO_Null\<close>, \<open>AO_Raw\<close>, \<open>AO_Au\<close>, \<open>AO_Wav\<close>: the static drivers \<^verbatim>\<open>src/ao_null.c\<close>,
    \<^verbatim>\<open>ao_raw.c\<close>, \<^verbatim>\<open>ao_au.c\<close> and \<^verbatim>\<open>ao_wav.c\<close>.
  \<^item> \<open>AO_Calls\<close>, \<open>AO_Posix\<close>: the calls to the system and the libraries, and what the live drivers share.
  \<^item> \<open>AO_Oss\<close>, \<open>AO_Sun\<close>, \<open>AO_Esd\<close>, \<open>AO_Sndio\<close>, \<open>AO_Arts\<close>, \<open>AO_Nas\<close>, \<open>AO_Irix\<close>, \<open>AO_Pulse\<close>, \<open>AO_Roar\<close>,
    \<open>AO_Alsa\<close>, \<open>AO_Macosx\<close>: the plugins \<^verbatim>\<open>src/plugins/<name>/ao_<name>.c\<close>, function by function, with
    the names of the code, and \<open>AO_Wmm\<close>, \<^verbatim>\<open>src/ao_wmm.c\<close>, which is linked in under Windows.  \<open>AO_Double\<close> is the arithmetic
    of \<open>double\<close> that OSS, ALSA and CoreAudio use.
  \<^item> \<open>AO_Drivers\<close>: the table of all of them.

  \<^bold>\<open>Laws.\<close>
  \<^item> \<open>AO_Matrix_Laws\<close> and \<open>AO_Channels\<close> state the matrix functions on lists of channel names: sanitizing,
    masks and their round trip.  \<open>AO_Routing\<close> shows, for every driver, that on an opened device a backend
    channel gets the input channel of its name.
    \<open>AO_Play_Laws\<close>, \<open>AO_Open_Laws\<close> and \<open>AO_Shape\<close> show what the swap buffer holds, what opening decides,
    and that the widths, counts and maps of an open device fit together.
  \<^item> \<open>AO_Driver\<close> holds the contract of a driver as the locale \<open>ao_driver\<close> over its table of functions
    (what each function keeps of the device and how many heap blocks it takes and gives back), and
    proves from it that opening, playing and closing balance.  Every driver interprets it, in its
    own theory.  \<open>file_driver\<close> (\<open>AO_Internal\<close>) extends it for drivers that write a file,
    \<open>shaped_driver\<close> (\<open>AO_Shape\<close>) for the form of the device, \<open>naming_driver\<close> (\<open>AO_Routing\<close>) for the names
    of its channels, and \<open>driver_run\<close> (\<open>AO_Protocol\<close>) carries a
    relation of the driver through the library; \<open>AO_Handles\<close> interprets it with the handles
    a driver holds.
  \<^item> \<open>AO_Session\<close>, \<open>AO_Mapped\<close> and this theory: what a file holds at the end of a session, read back by a
    parser of WAV and AU.  \<open>AO_Lifecycle\<close>: configuration files, registry, initializing and shutting down.
  \<^item> \<open>AO_Live\<close>, \<open>AO_Servers\<close>, \<open>AO_Alsa_Play\<close>, \<open>AO_Alsa_Laws\<close>: what of the samples reaches the system, that
    \<open>play\<close> and \<open>close\<close> return, bounds of computed sizes, and the errors that the code has.
  \<^item> \<open>AO_Mac_Ring\<close>, \<open>AO_Mac_Play\<close>: the ring buffer between \<open>play\<close> and the callback thread of CoreAudio
    refines a queue of bytes, in every interleaving; a closed stream has delivered all of them.
  \<^item> \<open>AO_Demo\<close>: the concrete machine and devices on which properties are applied.

  \<^bold>\<open>Loops and bounds.\<close>  There is no fuel.  A loop over a string, a buffer or a list is a \<open>function\<close>
  with its termination proof.  A loop that ends only if the system lets it (retrying a write,
  waiting for a server or for a callback) is a \<open>partial_function\<close>, so that not returning is \<open>None\<close>,
  and that it returns is proved under a hypothesis on the answers: the system takes at least one
  byte each time, or refuses or interrupts at most \<open>n\<close> times in a row (\<open>at_most_in_a_row\<close>), or the
  callback keeps asking.  Fixed buffers (the 100 bytes of a configuration line, the 257 of an
  intersection of matrices, the 4096 of the ESD writer, the header of WAV) keep their sizes, and
  writing past one is a fault.

  \<^bold>\<open>Threads.\<close>  Only the CoreAudio driver has a second thread.  Both threads touch what they share only
  under one mutex, so a run of the callback is placed where the driver next gets the mutex; the
  answer of the system says which runs those are.  Windows plays the blocks of its driver on its own
  and sets a flag in each header when it is done; that is seen where the driver looks at the flag.

  \<^bold>\<open>Not modelled.\<close>
  \<^item> \<^verbatim>\<open>src/ao_aixs.c\<close>: \<open>ao_aixs_open\<close> uses a variable \<open>id\<close> that is declared nowhere, so the file does not
    compile and has no behaviour.
  \<^item> \<^verbatim>\<open>doc/ao_example.c\<close>, a client that plays a tone, and \<^verbatim>\<open>include/ao/plugin.h\<close>, prototypes only.
  \<^item> Messages: \<open>adebug\<close>, \<open>averbose\<close>, \<open>ainfo\<close>, \<open>awarn\<close> and \<open>aerror\<close> print and change no state.
  \<^item> The contents of the heap beyond the structures of the drivers: a block is counted, not addressed,
    and blocks that a sound library allocates for itself are not counted.
\<close>

section \<open>Whole sessions\<close>

text \<open>
  C1.  A WAV file holds what was played.  Opening a new file with the \<open>wav\<close> driver, playing any
  blocks of whole frames and closing gives a file that a reader of WAV parses: both lengths are
  those of the file, the format fields are those of the format, and the body is the sequence of
  the samples played, each turned to little-endian when the client's order is another.
\<close>

theorem wav_session:
  assumes "get_driver did lib = Some drv" and "drv_functions drv = ao_wav" and "global_options lib = []"
    and "plain_format format" and "creatable name overwrite w"
    and "\<forall>(n, samples) \<in> set blks. fits_format format n samples"
    and "fmt_channels format < 2 ^ 16" and "0 \<le> fmt_rate format" and "fmt_rate format < 2 ^ 31"
  shows "\<exists>d w1 d' w2 w3.
    ao_open_file did name overwrite format [] lib w = Some (Some (ao_wav, d), w1) \<and>
    play_all (Some (ao_wav, d)) blks w1 = Some (True, Some (ao_wav, d'), w2) \<and>
    ao_close (Some (ao_wav, d')) w2 = Some (True, w3) \<and>
    parse_wav (file_bytes (new_stream w) w3) = Some (wav_expected format 0
      (data_of (width format > 1 \<and> client_order format w \<noteq> AO_FMT_LITTLE) format blks))"
proof -
  obtain h where h: "wav_fill wave_zero (fmt_channels format) 0 format = Some h"
    using wav_fill_plain [OF assms(4)] .
  let ?f = "new_stream w"
  from wav_open_file [OF assms(1-5) h] obtain d w1 s where o:
    "ao_open_file did name overwrite format [] lib w = Some (Some (ao_wav, d), w1)"
    "playing d" "of_format d format"
    "needs_swap d \<longleftrightarrow> width format > 1 \<and> client_order format w \<noteq> AO_FMT_LITTLE"
    "dev_file d = Some ?f" "w_allocs w1 = []" "get_stream ?f w1 = Some s" "at_end s"
    "s_data s = wav_header h" "wav_state d = Some \<lparr>wave = h\<rparr>" .
  have pl: "\<forall>(n, samples) \<in> set blks. playable d n samples"
    using assms(6) of_format_playable [OF o(3)] by auto
  from wav_session_end [OF o(2) pl o(6,5,7-10) wav_fill_filled [OF h]] obtain d' w2 w3 where p:
    "play_all (Some (ao_wav, d)) blks w1 = Some (True, Some (ao_wav, d'), w2)"
    "ao_close (Some (ao_wav, d')) w2 = Some (True, w3)"
    "parse_wav (file_bytes ?f w3) = Some (wav_view_of
       (wav_patch h (of_nat (length (payload d blks) + 60)) (of_nat (length (payload d blks)))) (payload d blks))" .
  let ?body = "payload d blks"
  have "parse_wav (file_bytes ?f w3) = Some (wav_view_of
       (wav_patch h (of_nat (length ?body + 60)) (of_nat (length ?body))) ?body)" using p(3) .
  also have "wav_view_of (wav_patch h (of_nat (length ?body + 60)) (of_nat (length ?body))) ?body = wav_expected format 0 ?body"
    using wav_header_fields [OF h assms(4,7,8)] assms(9) by simp
  also have "?body = data_of (width format > 1 \<and> client_order format w \<noteq> AO_FMT_LITTLE) format blks"
    using payload_data [OF o(3)] o(4) by simp
  finally show ?thesis using o(1) p(1,2) by blast
qed

theorem wav_session_witness:
  "\<exists>d w1 d' w2 w3.
    ao_open_file 1 ''out'' True cd_format [] demo_lib (demo_world []) = Some (Some (ao_wav, d), w1) \<and>
    play_all (Some (ao_wav, d)) [(1, [1, 2, 3, 4])] w1 = Some (True, Some (ao_wav, d'), w2) \<and>
    ao_close (Some (ao_wav, d')) w2 = Some (True, w3) \<and>
    parse_wav (file_bytes (new_stream (demo_world [])) w3) = Some (wav_expected cd_format 0
      (data_of (width cd_format > 1 \<and> client_order cd_format (demo_world []) \<noteq> AO_FMT_LITTLE)
        cd_format [(1, [1, 2, 3, 4])]))"
  using wav_session [OF demo_get_driver(2) demo_functions(2) demo_facts(1,2,3,4,6,7,8)] .

text \<open>
  C3.  A WAV file made from named channels holds them by name.  When the input names its channels,
  in any order and with any spacing around the names, the file holds the channels that WAV knows,
  in WAV's order and none else, its header gives their number and the mask of their positions, and
  each sample is that of the input channel of its name.
\<close>

theorem wav_session_named:
  assumes "get_driver did lib = Some drv" and "drv_functions drv = ao_wav" and "global_options lib = []"
    and "mapped_format format im" and "wav_plan im \<noteq> []" and "creatable name overwrite w"
    and "\<forall>(n, samples) \<in> set blks. fits_format format n samples"
    and "0 \<le> fmt_rate format" and "fmt_rate format < 2 ^ 31"
  shows "\<exists>d w1 d' w2 w3.
    ao_open_file did name overwrite format [] lib w = Some (Some (ao_wav, d), w1) \<and>
    play_all (Some (ao_wav, d)) blks w1 = Some (True, Some (ao_wav, d'), w2) \<and>
    ao_close (Some (ao_wav, d')) w2 = Some (True, w3) \<and>
    parse_wav (file_bytes (new_stream w) w3) =
      Some (wav_expected (format\<lparr>fmt_channels := int (length (wav_plan im))\<rparr>)
        (uint (mask_of wav_names (tokens im)))
        (concat (map (\<lambda>(n, samples).
           named_frames (width format > 1 \<and> client_order format w \<noteq> AO_FMT_LITTLE)
             (nat (width format)) (tokens im) (wav_plan im) n samples) blks)))"
proof -
  let ?plan = "wav_plan im" and ?x = "mask_of wav_names (tokens im)" and ?f = "new_stream w"
  let ?fmt = "format\<lparr>fmt_channels := int (length ?plan), fmt_matrix := None\<rparr>"
  have f: "fmt_channels format = int (length (tokens im))" "2 \<le> fmt_channels format"
    "1 \<le> fmt_bits format" "fmt_bits format \<le> 32"
    using assms(4) by (simp_all add: mapped_format_def)
  note plan = wav_plan_facts [OF assms(4)]
  have pf: "plain_format ?fmt" "fmt_channels ?fmt < 2 ^ 16"
    using assms(5) plan(3) f by (auto simp: plain_format_def INT_MAX_def Suc_le_eq)
  obtain h where h: "wav_fill wave_zero (fmt_channels ?fmt) ?x ?fmt = Some h"
    using wav_fill_plain [OF pf(1)] .
  then have h': "wav_fill wave_zero (int (length ?plan)) ?x format = Some h" by (simp add: wav_fill_def)
  obtain d w1 s where o: "ao_open_file did name overwrite format [] lib w = Some (Some (ao_wav, d), w1)"
    "playing d" "\<forall>c < length ?plan. route d c = source_of (tokens im) (fmt_channels format) (?plan ! c)"
    "output_channels d = int (length ?plan)" "input_channels d = fmt_channels format"
    "bytewidth d = width format"
    "needs_swap d \<longleftrightarrow> width format > 1 \<and> client_order format w \<noteq> AO_FMT_LITTLE"
    "dev_file d = Some ?f" "w_allocs w1 = []" "get_stream ?f w1 = Some s" "at_end s"
    "s_data s = wav_header h" "wav_state d = Some \<lparr>wave = h\<rparr>"
    using wav_open_named [OF assms(1-6) h'] by blast
  have pl: "\<forall>(n, samples) \<in> set blks. playable d n samples"
    using assms(7) mapped_playable [OF o(4-6) f(1) plan(4)] by auto
  from wav_session_end [OF o(2) pl o(9,8,10-13) wav_fill_filled [OF h]] obtain d' w2 w3 where p:
    "play_all (Some (ao_wav, d)) blks w1 = Some (True, Some (ao_wav, d'), w2)"
    "ao_close (Some (ao_wav, d')) w2 = Some (True, w3)"
    "parse_wav (file_bytes ?f w3) = Some (wav_view_of
       (wav_patch h (of_nat (length (payload d blks) + 60)) (of_nat (length (payload d blks)))) (payload d blks))" .
  have "routed d n samples = named_frames (needs_swap d) (nat (bytewidth d)) (tokens im) ?plan n samples" for n samples
    by (rule routed_named [where k = "fmt_channels format"]) (use o(3-5) f plan(2) in simp_all)
  then have body: "payload d blks = concat (map (\<lambda>(n, samples).
      named_frames (width format > 1 \<and> client_order format w \<noteq> AO_FMT_LITTLE)
        (nat (width format)) (tokens im) ?plan n samples) blks)"
    by (simp only: payload_def o(6,7))
  have "wav_expected ?fmt c body = wav_expected (format\<lparr>fmt_channels := int (length ?plan)\<rparr>) c body" for c body
    by (simp add: wav_expected_def width_def)
  with wav_header_fields [OF h pf] assms(8,9) p(3)
  have "parse_wav (file_bytes ?f w3) =
      Some (wav_expected (format\<lparr>fmt_channels := int (length ?plan)\<rparr>) (uint ?x) (payload d blks))" by simp
  then show ?thesis using o(1) p(1,2) unfolding body by blast
qed

theorem wav_session_named_witness:
  "\<exists>d w1 d' w2 w3.
    ao_open_file 1 ''out'' True surround_format [] demo_lib (demo_world []) = Some (Some (ao_wav, d), w1) \<and>
    play_all (Some (ao_wav, d)) [(1, [1, 2, 3, 4, 5, 6])] w1 = Some (True, Some (ao_wav, d'), w2) \<and>
    ao_close (Some (ao_wav, d')) w2 = Some (True, w3) \<and>
    parse_wav (file_bytes (new_stream (demo_world [])) w3) =
      Some (wav_expected (surround_format\<lparr>fmt_channels := 2\<rparr>) 5 [6, 5, 2, 1])"
  using wav_session_named [OF demo_get_driver(2) demo_functions(2) demo_facts(1) surround_facts(1,2) demo_facts(3)
      surround_facts(3,4,5)] unfolding surround_facts(6-8) .

text \<open>
  C16.  An AU file holds what was played: after the session its header gives the magic, the
  header size, the length of the data, encoding, rate and channels, and the body is the sequence
  of the samples played, in big-endian order.
\<close>

theorem au_session:
  assumes "get_driver did lib = Some drv" and "drv_functions drv = ao_au" and "global_options lib = []"
    and "plain_format format" and "fmt_bits format = 8 \<or> fmt_bits format = 16"
    and "creatable name overwrite w"
    and "\<forall>(n, samples) \<in> set blks. fits_format format n samples" and "0 \<le> fmt_rate format"
    and "fmt_rate format < 2 ^ 31"
  shows "\<exists>d w1 d' w2 w3 body.
    ao_open_file did name overwrite format [] lib w = Some (Some (ao_au, d), w1) \<and>
    play_all (Some (ao_au, d)) blks w1 = Some (True, Some (ao_au, d'), w2) \<and>
    ao_close (Some (ao_au, d')) w2 = Some (True, w3) \<and>
    body = data_of (width format > 1 \<and> client_order format w \<noteq> AO_FMT_BIG) format blks \<and>
    parse_au (file_bytes (new_stream w) w3) = Some (0x2e736e64, 28, int (length body) mod 2 ^ 32,
      if fmt_bits format = 8 then 2 else 3, fmt_rate format, fmt_channels format, body)"
proof -
  let ?f = "new_stream w" and ?h = "au_header_for format"
  from au_open_file [OF assms(1-6)] obtain d w1 s where o:
    "ao_open_file did name overwrite format [] lib w = Some (Some (ao_au, d), w1)"
    "playing d" "of_format d format"
    "needs_swap d \<longleftrightarrow> width format > 1 \<and> client_order format w \<noteq> AO_FMT_BIG"
    "dev_file d = Some ?f" "w_allocs w1 = []" "get_stream ?f w1 = Some s" "at_end s"
    "s_data s = au_header (?h AUDIO_UNKNOWN_SIZE)" "au_state d \<noteq> None" .
  have pl: "\<forall>(n, samples) \<in> set blks. playable d n samples"
    using assms(7) of_format_playable [OF o(3)] by auto
  from au.play_all_appends [OF o(2) pl o(6) o(5) o(7,8)] obtain d' w2 s' where p:
    "play_all (Some (ao_au, d)) blks w1 = Some (True, Some (ao_au, d'), w2)"
    "get_stream ?f w2 = Some s'" "at_end s'" "s_data s' = s_data s @ payload d blks"
    "same_route d d'" "w_allocs w2 = []" by blast
  let ?body = "payload d blks"
  obtain i where st: "au_state d' = Some i" "dev_file d' = Some ?f"
    using o(5,10) same_route_sel(7,8) [OF p(5)] by (auto simp: au_state_def)
  have "s_data s' = au_header (?h AUDIO_UNKNOWN_SIZE) @ ?body" using p(4) o(9) by simp
  from ao_au_close_file [OF st(2) p(2,3) st(1) this] obtain e v t where c:
    "ao_au_close d' w2 = Some (True, e, v)" "dev_file e = Some ?f" "same_but_streams w2 v"
    "get_stream ?f v = Some t"
    "s_data t = au_header ((?h AUDIO_UNKNOWN_SIZE)\<lparr>au_data_size := of_nat (length ?body)\<rparr>) @ ?body" .
  have "fn_close ao_au d' w2 = Some (True, e, v)" using c(1) by (simp add: ao_au_def)
  from ao_close_file_clear [OF this static_clear(3) c(2,4)] obtain w3 where
    w3: "ao_close (Some (ao_au, d')) w2 = Some (True, w3)" "file_bytes ?f w3 = s_data t" .
  have "0 \<le> fmt_channels format" "fmt_channels format < 2 ^ 32"
    using assms(4) by (simp_all add: plain_format_def INT_MAX_def)
  then have "parse_au (file_bytes ?f w3) = Some (0x2e736e64, 28, int (length ?body) mod 2 ^ 32,
      if fmt_bits format = 8 then 2 else 3, fmt_rate format, fmt_channels format, ?body)"
    using w3(2) c(5) assms(8,9)
    by (simp add: parse_au_header au_header_for_def AUDIO_FILE_MAGIC_def uint_of_nat32_mod uint_of_int32
        AUDIO_FILE_ENCODING_LINEAR_8_def AUDIO_FILE_ENCODING_LINEAR_16_def)
  moreover have "?body = data_of (width format > 1 \<and> client_order format w \<noteq> AO_FMT_BIG) format blks"
    using payload_data [OF o(3)] o(4) by simp
  ultimately show ?thesis using o(1) p(1) w3(1) by metis
qed

theorem au_session_witness:
  "\<exists>d w1 d' w2 w3 body.
    ao_open_file 3 ''out'' True cd_format [] demo_lib (demo_world []) = Some (Some (ao_au, d), w1) \<and>
    play_all (Some (ao_au, d)) [(1, [1, 2, 3, 4])] w1 = Some (True, Some (ao_au, d'), w2) \<and>
    ao_close (Some (ao_au, d')) w2 = Some (True, w3) \<and>
    body = data_of (width cd_format > 1 \<and> client_order cd_format (demo_world []) \<noteq> AO_FMT_BIG)
      cd_format [(1, [1, 2, 3, 4])] \<and>
    parse_au (file_bytes (new_stream (demo_world [])) w3) = Some (0x2e736e64, 28,
      int (length body) mod 2 ^ 32, if fmt_bits cd_format = 8 then 2 else 3,
      fmt_rate cd_format, fmt_channels cd_format, body)"
  using au_session [OF demo_get_driver(4) demo_functions(4) demo_facts(1,2,5,3,4,7,8)] .

text \<open>
  C17.  A raw file is the samples and nothing else: after the session the file holds the samples
  played, in the byte order of the machine, which is the order the driver asks for by default.
\<close>

theorem raw_session:
  assumes "get_driver did lib = Some drv" and "drv_functions drv = ao_raw" and "global_options lib = []"
    and "plain_format format" and "creatable name overwrite w"
    and "\<forall>(n, samples) \<in> set blks. fits_format format n samples"
  shows "\<exists>d w1 d' w2 w3.
    ao_open_file did name overwrite format [] lib w = Some (Some (ao_raw, d), w1) \<and>
    play_all (Some (ao_raw, d)) blks w1 = Some (True, Some (ao_raw, d'), w2) \<and>
    ao_close (Some (ao_raw, d')) w2 = Some (True, w3) \<and>
    file_bytes (new_stream w) w3 =
      data_of (width format > 1 \<and> client_order format w \<noteq> real_byte_format AO_FMT_NATIVE w) format blks"
proof -
  let ?f = "new_stream w"
  from raw_open_file [OF assms(1-5)] obtain d w1 s where o:
    "ao_open_file did name overwrite format [] lib w = Some (Some (ao_raw, d), w1)"
    "playing d" "of_format d format"
    "needs_swap d \<longleftrightarrow> width format > 1 \<and> client_order format w \<noteq> real_byte_format AO_FMT_NATIVE w"
    "dev_file d = Some ?f" "w_allocs w1 = []" "get_stream ?f w1 = Some s" "at_end s" "s_data s = []" .
  have pl: "\<forall>(n, samples) \<in> set blks. playable d n samples"
    using assms(6) of_format_playable [OF o(3)] by auto
  from raw.play_all_appends [OF o(2) pl o(6) o(5) o(7,8)] obtain d' w2 s' where p:
    "play_all (Some (ao_raw, d)) blks w1 = Some (True, Some (ao_raw, d'), w2)"
    "get_stream ?f w2 = Some s'" "s_data s' = s_data s @ payload d blks" "same_route d d'" by blast
  have "fn_close ao_raw d' w2 = Some (True, d', w2)" by (simp add: ao_raw_def ao_raw_close_def)
  moreover have "dev_file d' = Some ?f" using o(5) same_route_sel(7) [OF p(4)] by simp
  ultimately obtain w3 where
    "ao_close (Some (ao_raw, d')) w2 = Some (True, w3)" "file_bytes ?f w3 = s_data s'"
    using ao_close_file_clear [OF _ static_clear(2) _ p(2)] by blast
  then show ?thesis using o(1,4,9) p(1,3) payload_data [OF o(3)] by auto
qed

theorem raw_session_witness:
  "\<exists>d w1 d' w2 w3.
    ao_open_file 2 ''out'' True cd_format [] demo_lib (demo_world []) = Some (Some (ao_raw, d), w1) \<and>
    play_all (Some (ao_raw, d)) [(1, [1, 2, 3, 4])] w1 = Some (True, Some (ao_raw, d'), w2) \<and>
    ao_close (Some (ao_raw, d')) w2 = Some (True, w3) \<and>
    file_bytes (new_stream (demo_world [])) w3 =
      data_of (width cd_format > 1 \<and>
          client_order cd_format (demo_world []) \<noteq> real_byte_format AO_FMT_NATIVE (demo_world []))
        cd_format [(1, [1, 2, 3, 4])]"
  using raw_session [OF demo_get_driver(3) demo_functions(3) demo_facts(1,2,3,4)] .

text \<open>
  C4.  The backend hears what the client plays.  On a device that routes inside its input, whole
  frames played through the swap buffer reach the driver's \<open>play\<close> as one buffer that starts with
  the frames, each backend channel taken from its input channel, byte-swapped when the byte orders
  differ, and silent when it has none; the length is that of those frames, and nothing is
  allocated but the buffer.
\<close>

theorem play_routes:
  assumes "well_routed d" and "playable d frames samples" and "buffer_ok d"
    and "swap_buffer d \<noteq> None" and "w_allocs w = []"
  shows "\<exists>buf v.
    ao_play (Some (F, d)) samples (of_nat (in_bytes d frames)) w =
      Option.bind (fn_play F (d\<lparr>swap_buffer := Some buf, swap_buffer_size := int (length buf)\<rparr>) buf
        (of_nat (out_size d frames)) v) (\<lambda>(r, d, w). Some (r, Some (F, d), w)) \<and>
    take (out_size d frames) buf = routed d frames samples \<and>
    length (routed d frames samples) = out_size d frames \<and> heap_step 0 w v"
proof -
  from ao_play_routed [OF assms, of F] obtain buf size v where p:
    "ao_play (Some (F, d)) samples (of_nat (in_bytes d frames)) w =
       Option.bind (fn_play F (d\<lparr>swap_buffer := Some buf, swap_buffer_size := size\<rparr>) buf
          (of_nat (out_size d frames)) v) (\<lambda>(r, d, w). Some (r, Some (F, d), w))"
    "take (out_size d frames) buf = routed d frames samples" "int (length buf) = size" "heap_step 0 w v" by blast
  then show ?thesis using length_routed [OF assms(1,2)] by blast
qed

theorem play_routes_witness:
  "\<exists>buf v.
    ao_play (Some (ao_null, demo_device)) [1, 2, 3, 4] (of_nat (in_bytes demo_device 1)) (demo_world []) =
      Option.bind (fn_play ao_null
        (demo_device\<lparr>swap_buffer := Some buf, swap_buffer_size := int (length buf)\<rparr>) buf
        (of_nat (out_size demo_device 1)) v) (\<lambda>(r, d, w). Some (r, Some (ao_null, d), w)) \<and>
    take (out_size demo_device 1) buf = [4, 3] \<and> length [4 :: byte, 3] = out_size demo_device 1 \<and>
    heap_step 0 (demo_world []) v"
  using play_routes [OF demo_device_facts(1-5), of ao_null] unfolding demo_device_facts(6) .

section \<open>Memory\<close>

text \<open>
  C5.  Sessions balance.  With every modelled driver, whatever the system answers: a device that
  was opened, used for any sequence of \<open>ao_play\<close> and closed has given back every block it took,
  also when a \<open>play\<close> or the \<open>close\<close> of the driver reports failure.
\<close>

theorem session_ledger:
  assumes "F \<in> all_drivers b" and "get_driver did lib = Some drv" and "drv_functions drv = F"
    and "ao_open_live did format opts lib w = Some (Some dev, w1) \<or>
      ao_open_file did name overwrite format opts lib w = Some (Some dev, w1)"
    and "play_all (Some dev) blks w1 = Some (r, dev', w2)" and "ao_close dev' w2 = Some (r', w3)"
  shows "w_live w3 = w_live w"
proof -
  obtain blk where blk: "ao_driver F blk" using all_drivers_contract [OF assms(1)] by blast
  have "ao_driver.exact F blk (Some dev) (w_live w) w w1"
    using assms(4) ao_driver.ao_open_live_law [OF blk _ assms(2,3)] ao_driver.ao_open_file_law [OF blk _ assms(2,3)]
    by blast
  from ao_driver.session_law [OF blk this assms(5,6)] show ?thesis .
qed

theorem session_ledger_witness:
  "\<exists>dev w1 r dev' w2 r' w3.
     ao_open_live 4 stereo_format [] live_lib (demo_posix demo_answer []) = Some (Some dev, w1) \<and>
     play_all (Some dev) [(2, [1, 2, 3, 4, 5, 6, 7, 8])] w1 = Some (r, dev', w2) \<and>
     ao_close dev' w2 = Some (r', w3) \<and> w_live w3 = w_live (demo_posix demo_answer [])"
proof (rule demo_session_oss)
  fix dev w1 r dev' w2 r' w3
  assume "demo_session 4 [] [(2, [1, 2, 3, 4, 5, 6, 7, 8])] [] = Some (Some dev, w1, r, dev', w2, r', w3)"
  note s = demo_session_D [OF this]
  have "drv_functions (live_driver 4) \<in> all_drivers live_builds"
    by (rule live_functions_contract) simp
  moreover have "get_driver 4 live_lib = Some (live_driver 4)" using live_get_driver [of 4] by simp
  ultimately have "w_live w3 = w_live (demo_posix demo_answer [])"
    using session_ledger [OF _ _ refl disjI1 s(2,3)] s(1) by blast
  with s show ?thesis by blast
qed

text \<open>
  C6.  A failed open costs nothing.  As long as no allocation fails, when opening a live device or
  a file fails with any of the drivers, for whatever reason, every block taken has been given back.
\<close>

theorem failed_open_balances:
  assumes "F \<in> all_drivers b" and "get_driver did lib = Some drv" and "drv_functions drv = F"
    and "ao_open_live did format opts lib w = Some (None, w') \<or>
      ao_open_file did name overwrite format opts lib w = Some (None, w')"
    and "w_allocs w = []"
  shows "w_live w' = w_live w"
proof -
  obtain blk where blk: "ao_driver F blk" using all_drivers_contract [OF assms(1)] by blast
  have "ao_driver.exact F blk None (w_live w) w w'"
    using assms(4) ao_driver.ao_open_live_law [OF blk _ assms(2,3)] ao_driver.ao_open_file_law [OF blk _ assms(2,3)]
    by blast
  then show ?thesis using assms(5) by (simp add: ao_driver.exact_def [OF blk])
qed

text \<open>The OSS driver refuses 24 bits after everything else has been set up.\<close>

theorem failed_open_balances_witness:
  "\<exists>w'. ao_open_live 4 (stereo_format\<lparr>fmt_bits := 24\<rparr>) [] live_lib (demo_posix demo_answer []) = Some (None, w') \<and>
     w_live w' = w_live (demo_posix demo_answer [])"
proof -
  let ?o = "ao_open_live 4 (stereo_format\<lparr>fmt_bits := 24\<rparr>) [] live_lib (demo_posix demo_answer [])"
  have "case ?o of Some (None, w') \<Rightarrow> True | _ \<Rightarrow> False" by code_simp
  then obtain w' where o: "?o = Some (None, w')" by (auto split: option.splits prod.splits)
  have "drv_functions (live_driver 4) \<in> all_drivers live_builds"
    by (rule live_functions_contract) simp
  moreover have "get_driver 4 live_lib = Some (live_driver 4)" using live_get_driver [of 4] by simp
  moreover have "w_allocs (demo_posix demo_answer []) = []" by (simp add: demo_posix_def)
  ultimately have "w_live w' = w_live (demo_posix demo_answer [])"
    using failed_open_balances [OF _ _ refl disjI1 [OF o]] by blast
  with o show ?thesis by blast
qed

section \<open>Failures\<close>

text \<open>
  C31.  A file that cannot be opened for its format is closed twice.  When the \<open>au\<close> driver refuses
  the number of bits, \<open>_open_device\<close> closes the device and with it the file, and
  \<open>ao_open_file\<close> then closes the file again: the call never returns properly.
\<close>

theorem au_bits_double_close:
  assumes "get_driver did lib = Some drv" and "drv_functions drv = ao_au" and "global_options lib = []"
    and "fmt_matrix format = None" and "creatable name overwrite w"
    and "1 \<le> fmt_bits format" and "fmt_bits format \<le> 32" and "fmt_bits format \<notin> {8, 16}"
  shows "ao_open_file did name overwrite format [] lib w = None"
proof -
  let ?w = "after_fopen name w" and ?f = "new_stream w"
  let ?F = "ao_au :: ('a ao_internal, 'b world_scheme) ao_functions"
  have plenty: "w_allocs ?w = []" using assms(5) by (simp add: creatable_def after_fopen_facts)
  have same: "format\<lparr>fmt_matrix := None\<rparr> = format" using assms(4) by (cases format) simp
  have bits: "c_int (fmt_bits format + 7) = Some (fmt_bits format + 7)" "fmt_bits format \<noteq> 8" "fmt_bits format \<noteq> 16"
    using assms(6-8) by (simp_all add: c_int_def INT_MAX_def INT_MIN_def)
  have F: "info_type (fn_driver_info ?F) = AO_TYPE_FILE" "fn_device_init ?F = ao_au_device_init" "fn_open ?F = ao_au_open"
    by (simp_all add: ao_au_def ao_au_info_def)
  have "\<exists>d v. open_device did format [] (Some ?f) lib ?w = open_error (Some (?F, d)) None v \<and> dev_file d = Some ?f"
    using assms(1-4) plenty bits
    by (simp add: open_device_def create_device_plenty [OF plenty] open_options_def input_matrix_def same F
        ao_au_device_init_def open_backend_def reconcile_def housekeeping_def ao_au_open_def au_state_def)
       (intro exI conjI, rule refl, simp)
  then obtain d v where d: "open_device did format [] (Some ?f) lib ?w = open_error (Some (?F, d)) None v"
    "dev_file d = Some ?f" by blast
  have "ao_open_file did name overwrite format [] lib w =
      Option.bind (open_device did format [] (Some ?f) lib ?w) (\<lambda>(dev, w).
        if dev = None then Option.bind (fclose ?f w) (\<lambda>w. Some (None, w)) else Some (dev, w))"
    using assms(5) by (auto simp: ao_open_file_def creatable_def fopen_r_def fopen_w_def after_fopen_def)
  also have "\<dots> = None"
  proof (cases "open_error (Some (?F, d)) None v")
    case (Some r)
    then obtain u where u: "open_error (Some (?F, d)) None v = Some (None, u)"
      by (auto simp: open_error_def split: Option.bind_splits)
    from au.open_error_closes [OF this d(2)] show ?thesis unfolding d(1) u by simp
  qed (simp add: d(1))
  finally show ?thesis .
qed

theorem au_bits_double_close_witness:
  "ao_open_file 3 ''out'' True (cd_format\<lparr>fmt_bits := 24\<rparr>) [] demo_lib (demo_world []) = None"
proof -
  have "fmt_matrix (cd_format\<lparr>fmt_bits := 24\<rparr>) = None" "1 \<le> fmt_bits (cd_format\<lparr>fmt_bits := 24\<rparr>)"
    "fmt_bits (cd_format\<lparr>fmt_bits := 24\<rparr>) \<le> 32" "fmt_bits (cd_format\<lparr>fmt_bits := 24\<rparr>) \<notin> {8, 16}"
    by (simp_all add: cd_format_def)
  from au_bits_double_close [OF demo_get_driver(4) demo_functions(4) demo_facts(1) this(1) demo_facts(3) this(2-4)]
  show ?thesis .
qed



end
